(* ===== verification/Retrace_Prelude.thy ===== *)
theory Retrace_Prelude
  imports Main "HOL-Library.Word" "HOL-Library.Sublist"
begin

section \<open>Shared vocabulary of the development\<close>

text \<open>
  The conventions every component theory uses.

  \<^item> A C string is a \<^typ>\<open>string\<close> holding the bytes before the terminating
    NUL, so it contains no NUL itself.  A \<open>const char *\<close> that walks a
    string is the suffix it points to; \<open>*p\<close> and \<open>p[i]\<close> are
    \<open>cget p 0\<close> and \<open>cget p i\<close>, which read NUL at and after the end.
  \<^item> A pointer that may be \<open>NULL\<close> is an \<^typ>\<open>'a option\<close>.
  \<^item> \<open>strcmp(a, b) == 0\<close> is equality; \<open>strncmp(a, b, n) == 0\<close> is
    \<open>strncmp_eq\<close>.
  \<^item> \<open>char\<close> is compared as a signed byte (the x86-64 ABI).
\<close>

named_theorems cstr_simps \<open>evaluation of C string accesses\<close>

abbreviation (input) nul :: char where
  "nul \<equiv> CHR 0x00"

type_synonym cstr = string

definition cget :: "cstr \<Rightarrow> nat \<Rightarrow> char" where
  "cget s i = (if i < length s then s ! i else nul)"

definition strncmp_eq :: "cstr \<Rightarrow> cstr \<Rightarrow> nat \<Rightarrow> bool" where
  "strncmp_eq a b n \<longleftrightarrow> take n a = take n b"

definition char_val :: "char \<Rightarrow> int" where
  "char_val c = (let v = (of_char c :: int) in if v < 128 then v else v - 256)"

definition char_le :: "char \<Rightarrow> char \<Rightarrow> bool" where
  "char_le a b \<longleftrightarrow> char_val a \<le> char_val b"

definition in_range :: "char \<Rightarrow> char \<Rightarrow> char \<Rightarrow> bool" where
  "in_range lo hi c \<longleftrightarrow> char_le lo c \<and> char_le c hi"

lemma cget_Nil [simp, cstr_simps]: "cget [] i = nul"
  by (simp add: cget_def)

lemma cget_Cons_0 [simp, cstr_simps]: "cget (x # xs) 0 = x"
  by (simp add: cget_def)

lemma cget_Cons_Suc [simp, cstr_simps]: "cget (x # xs) (Suc i) = cget xs i"
  by (simp add: cget_def)

lemma cget_Cons_numeral [simp, cstr_simps]:
  "cget (x # xs) (numeral k) = cget xs (pred_numeral k)"
  by (simp add: numeral_eq_Suc)

lemma cget_Cons_1 [simp, cstr_simps]: "cget (x # xs) 1 = cget xs 0"
  by (simp add: One_nat_def)

lemma strncmp_eq_length:
  "strncmp_eq a b (length b) \<longleftrightarrow> prefix b a"
  by (auto simp: strncmp_eq_def prefix_def)
     (metis append_take_drop_id)

subsection \<open>Printed numbers\<close>

definition dec_digit :: "nat \<Rightarrow> char" where
  "dec_digit d = ''0123456789'' ! d"

function dec :: "nat \<Rightarrow> string" where
  "dec n = (if n < 10 then [dec_digit n] else dec (n div 10) @ [dec_digit (n mod 10)])"
  by pat_completeness auto
termination by (relation "measure id") auto

declare dec.simps [simp del]

definition show_int :: "int \<Rightarrow> string" where
  "show_int v = (if v < 0 then ''-'' else []) @ dec (nat \<bar>v\<bar>)"

definition hex_digit :: "nat \<Rightarrow> char" where
  "hex_digit d = ''0123456789abcdef'' ! d"

function hex :: "nat \<Rightarrow> string" where
  "hex n = (if n < 16 then [hex_digit n] else hex (n div 16) @ [hex_digit (n mod 16)])"
  by pat_completeness auto
termination by (relation "measure id") auto

declare hex.simps [simp del]

subsection \<open>Lists\<close>

lemma length_tl_less [simp]: "xs \<noteq> [] \<Longrightarrow> length (tl xs) < length xs"
  by (cases xs) auto

lemma ex_le_Suc: "(\<exists>k\<le>Suc n. P k) \<longleftrightarrow> P 0 \<or> (\<exists>k\<le>n. P (Suc k))"
  by (metis Suc_le_mono le0 not0_implies_Suc)

lemma suffix_drop_le: "m \<le> n \<Longrightarrow> suffix (drop n xs) (drop m xs)"
  by (metis drop_drop le_add_diff_inverse2 suffix_drop)

lemma suffix_drop_eq: "suffix t s \<Longrightarrow> t = drop (length s - length t) s"
  by (auto simp: suffix_def)

subsection \<open>Indices modulo a capacity\<close>

lemma mod_add_inj_le:
  fixes h :: nat
  assumes "(h + i) mod n = (h + j) mod n" "i \<le> j" "j < n"
  shows "i = j"
proof -
  have "n dvd (h + j) - (h + i)"
    using assms(1,2) by (metis add_left_mono mod_eq_dvd_iff_nat)
  then have "n dvd j - i" by simp
  then show ?thesis using assms(2,3) by (auto dest: dvd_imp_le)
qed

lemma mod_add_inj [simp]:
  fixes h :: nat
  shows "i < n \<Longrightarrow> j < n \<Longrightarrow> (h + i) mod n = (h + j) mod n \<longleftrightarrow> i = j"
  using mod_add_inj_le [of h i n j] mod_add_inj_le [of h j n i] by (cases "i \<le> j") auto

end
