(* ===== verification/Glob.thy ===== *)
theory Glob
  imports Retrace_Prelude
begin

section \<open>Glob patterns and single-star backtracking\<close>

text \<open>
  Two components match globs with the same algorithm: \<open>glob_whole\<close> of
  \<open>src/src/core/redact.c\<close> and \<open>retrace_filter_glob_match\<close> of
  \<open>src/src/core/filter_dsl.c\<close>.  Both walk pattern and text once and remember
  only the most recent star, to which they return on a mismatch.

  This theory states what a glob means (\<open>gmatch\<close> on a list of pattern
  elements) and proves, once, that single-star backtracking decides it.  The
  locale \<open>star_backtrack\<close> is the interface: the loop of a matcher and the
  equations one iteration of it satisfies.
\<close>

datatype gelem = Star | One "char \<Rightarrow> bool"

fun is_One :: "gelem \<Rightarrow> bool" where
  "is_One Star = False"
| "is_One (One f) = True"

fun gmatch :: "gelem list \<Rightarrow> cstr \<Rightarrow> bool" where
  "gmatch [] ts = (ts = [])"
| "gmatch (Star # ps) [] = gmatch ps []"
| "gmatch (Star # ps) (c # ts) = (gmatch ps (c # ts) \<or> gmatch (Star # ps) ts)"
| "gmatch (One f # ps) [] = False"
| "gmatch (One f # ps) (c # ts) = (f c \<and> gmatch ps ts)"

lemma gmatch_Star_self [intro]: "gmatch ps ts \<Longrightarrow> gmatch (Star # ps) ts"
  by (cases ts) auto

lemma gmatch_Star_mono: "gmatch (Star # ps) ts \<Longrightarrow> gmatch (Star # ps) (us @ ts)"
  by (induction us) auto

lemma gmatch_Star_iff: "gmatch (Star # ps) ts \<longleftrightarrow> (\<exists>k\<le>length ts. gmatch ps (drop k ts))"
  by (induction ts) (simp_all add: ex_le_Suc)

lemma gmatch_stars: "gmatch ps [] \<longleftrightarrow> set ps \<subseteq> {Star}"
proof (induction ps)
  case (Cons p ps)
  then show ?case by (cases p) auto
qed simp

text \<open>A star-free prefix consumes exactly one character per element.\<close>

lemma gmatch_Ones_prefix:
  assumes "gmatch (xs @ ps) ts" and "list_all is_One xs"
  shows "length xs \<le> length ts \<and> gmatch ps (drop (length xs) ts)"
  using assms
proof (induction xs arbitrary: ts)
  case (Cons x xs)
  obtain f where x: "x = One f" using Cons.prems(2) by (cases x) auto
  then obtain c ts' where ts: "ts = c # ts'" and m: "gmatch (xs @ ps) ts'"
    using Cons.prems(1) by (cases ts) auto
  show ?case using Cons.IH [OF m] Cons.prems(2) ts by simp
qed simp

text \<open>
  Why one remembered star is enough: if the pattern after an earlier star has
  the form \<open>xs @ Star # ps\<close> with \<open>xs\<close> star-free, any match that moves the
  earlier star forward is also a match of the later star at its place.
\<close>

lemma later_star_suffices:
  assumes m: "gmatch (Star # xs @ Star # ps) (tl st)"
    and ones: "list_all is_One xs" and t: "t = drop (length xs) st"
  shows "gmatch (Star # ps) t"
proof -
  obtain k where k: "gmatch (xs @ Star # ps) (drop k (tl st))"
    using m by (auto simp: gmatch_Star_iff)
  then have "gmatch (Star # ps) (drop (length xs) (drop k (tl st)))"
    using gmatch_Ones_prefix ones by blast
  moreover have "drop (length xs) (drop k (tl st)) = drop (Suc (k + length xs)) st"
    by (simp add: drop_Suc add.commute)
  then have "suffix (drop (length xs) (drop k (tl st))) t"
    unfolding t using suffix_drop_le [of "length xs" "Suc (k + length xs)" st] by simp
  ultimately show ?thesis
    by (metis gmatch_Star_mono suffixE)
qed


subsection \<open>The matcher interface\<close>

text \<open>
  \<open>elems p\<close> are the pattern elements from position \<open>p\<close>; \<open>restart sp\<close> is the
  position just after the star recorded as \<open>sp\<close>; \<open>loop p t star\<close> is the
  matcher's loop at pattern position \<open>p\<close> and text \<open>t\<close> with the remembered star
  and its text.  \<open>plain\<close> are the text characters at which the loop treats a star
  as a star.
\<close>

locale star_backtrack =
  fixes elems :: "'p \<Rightarrow> gelem list"
    and restart :: "'p \<Rightarrow> 'p"
    and loop :: "'p \<Rightarrow> cstr \<Rightarrow> ('p \<times> cstr) option \<Rightarrow> bool"
    and plain :: "char \<Rightarrow> bool"
  assumes loop_end: "loop p [] star = gmatch (elems p) []"
    and loop_hit: "elems p = One f # es \<Longrightarrow> f c \<Longrightarrow>
      \<exists>p'. elems p' = es \<and> loop p (c # t) star = loop p' t star"
    and loop_star: "elems p = Star # es \<Longrightarrow> plain c \<Longrightarrow>
      \<exists>p' sp. elems p' = es \<and> elems (restart sp) = es \<and>
        loop p (c # t) star = loop p' (c # t) (Some (sp, c # t))"
    and loop_miss: "elems p = [] \<or> (\<exists>f es. elems p = One f # es \<and> \<not> f c) \<Longrightarrow>
      loop p (c # t) star = (case star of None \<Rightarrow> False
        | Some (sp, st) \<Rightarrow> loop (restart sp) (tl st) (Some (sp, tl st)))"
begin

definition star_inv :: "'p \<Rightarrow> cstr \<Rightarrow> ('p \<times> cstr) option \<Rightarrow> bool" where
  "star_inv p t star \<longleftrightarrow> (case star of None \<Rightarrow> True | Some (sp, st) \<Rightarrow>
     (\<exists>xs. elems (restart sp) = xs @ elems p \<and> list_all is_One xs \<and>
        length xs \<le> length st \<and> t = drop (length xs) st \<and> list_all plain st))"

definition star_goal :: "('p \<times> cstr) option \<Rightarrow> bool" where
  "star_goal star \<longleftrightarrow> (case star of None \<Rightarrow> False
     | Some (sp, st) \<Rightarrow> gmatch (Star # elems (restart sp)) (tl st))"

lemma star_inv_hit:
  assumes "star_inv p (c # t) star" "elems p = One f # es" "elems p' = es"
  shows "star_inv p' t star"
proof (cases star)
  case (Some a)
  obtain sp st where a: "star = Some (sp, st)" using Some by (cases a) auto
  obtain xs where xs: "elems (restart sp) = xs @ elems p" "list_all is_One xs"
      "length xs \<le> length st" "c # t = drop (length xs) st" "list_all plain st"
    using assms(1) by (auto simp: star_inv_def a)
  have lt: "length xs < length st" using xs(4)
    by (metis drop_all leI list.distinct(1))
  have "t = drop (length (xs @ [One f])) st"
    using xs(4) by (metis drop_Suc drop_drop length_append_singleton list.sel(3) plus_1_eq_Suc
        tl_drop add.commute)
  then show ?thesis
    using xs lt assms(2,3) unfolding star_inv_def a
    by (auto intro!: exI [of _ "xs @ [One f]"])
qed (simp add: star_inv_def)

lemma star_goal_end:
  assumes "star_inv p [] star" "star_goal star"
  shows "gmatch (elems p) []"
proof -
  obtain sp st where s: "star = Some (sp, st)"
    using assms(2) by (cases star) (auto simp: star_goal_def)
  obtain xs where xs: "elems (restart sp) = xs @ elems p" "list_all is_One xs"
      "length xs \<le> length st" "[] = drop (length xs) st"
    using assms(1) by (auto simp: star_inv_def s)
  obtain k where "gmatch (xs @ elems p) (drop k (tl st))"
    using assms(2) xs(1) by (auto simp: star_goal_def s gmatch_Star_iff)
  then have "length xs \<le> length (drop k (tl st))"
      "gmatch (elems p) (drop (length xs) (drop k (tl st)))"
    using gmatch_Ones_prefix xs(2) by blast+
  moreover have "length st = length xs" using xs(3,4) by simp
  ultimately show ?thesis by (cases "drop (length xs) (drop k (tl st))") auto
qed

lemma star_goal_later:
  assumes "star_inv p (c # t) star" "star_goal star" "elems p = Star # es"
  shows "gmatch (Star # es) (c # t)"
proof -
  obtain sp st where s: "star = Some (sp, st)"
    using assms(2) by (cases star) (auto simp: star_goal_def)
  obtain xs where xs: "elems (restart sp) = xs @ Star # es" "list_all is_One xs"
      "c # t = drop (length xs) st"
    using assms(1,3) by (auto simp: star_inv_def s)
  have "gmatch (Star # xs @ Star # es) (tl st)"
    using assms(2) xs(1) by (simp add: star_goal_def s)
  then show ?thesis using xs(2,3) by (rule later_star_suffices)
qed

lemma gmatch_restart: "gmatch ps st \<or> gmatch (Star # ps) (tl st) \<longleftrightarrow> gmatch (Star # ps) st"
  by (cases st) auto

theorem loop_correct:
  assumes "star_inv p t star" "list_all plain t"
  shows "loop p t star \<longleftrightarrow> gmatch (elems p) t \<or> star_goal star"
  using assms
proof (induction "(p, t, star)" arbitrary: p t star
    rule: wf_induct_rule [OF wf_measures, of "[\<lambda>(p, t, star). max (length t)
      (case star of None \<Rightarrow> 0 | Some (sp, st) \<Rightarrow> length st), \<lambda>(p, t, star). length (elems p)]"])
  case (1 p t star)
  note IH = "1.hyps" and inv = "1.prems"
  show ?case
  proof (cases t)
    case Nil
    then show ?thesis using inv star_goal_end by (auto simp: loop_end)
  next
    case t: (Cons c t')
    consider (hit) f es where "elems p = One f # es" "f c"
      | (star) es where "elems p = Star # es"
      | (miss) "elems p = [] \<or> (\<exists>f es. elems p = One f # es \<and> \<not> f c)"
      by (metis gelem.exhaust list.exhaust)
    then show ?thesis
    proof cases
      case hit
      obtain p' where p': "elems p' = es" "loop p t star = loop p' t' star"
        using loop_hit [OF hit] t by blast
      have "loop p' t' star \<longleftrightarrow> gmatch (elems p') t' \<or> star_goal star"
        by (rule IH) (use p' hit inv t star_inv_hit in \<open>auto split: option.splits\<close>)
      then show ?thesis using p' hit t by simp
    next
      case star
      obtain p' sp where p': "elems p' = es" "elems (restart sp) = es"
          "loop p t star = loop p' t (Some (sp, t))"
        using loop_star [OF star, of c t' star] t inv(2) by auto
      have "loop p' t (Some (sp, t)) \<longleftrightarrow> gmatch (elems p') t \<or> star_goal (Some (sp, t))"
        by (rule IH) (use p' star inv t in \<open>auto simp: star_inv_def split: option.splits\<close>)
      also have "\<dots> \<longleftrightarrow> gmatch (Star # es) t"
        using p' t by (simp add: star_goal_def)
      finally show ?thesis
        using p' star star_goal_later [of p c t' star es] inv(1) t by auto
    next
      case miss
      show ?thesis
      proof (cases star)
        case None
        then show ?thesis using loop_miss [OF miss] miss t by (auto simp: star_goal_def)
      next
        case (Some a)
        obtain sp st where s: "star = Some (sp, st)" using Some by (cases a) auto
        obtain n where n: "t = drop n st" "list_all plain st"
          using inv(1) by (auto simp: star_inv_def s)
        then have st: "list_all plain st" "st \<noteq> []" "length t \<le> length st"
          using t by (auto simp del: drop_eq_Nil)
        have "loop (restart sp) (tl st) (Some (sp, tl st)) \<longleftrightarrow>
            gmatch (elems (restart sp)) (tl st) \<or> star_goal (Some (sp, tl st))"
          by (rule IH) (use st s in \<open>auto simp: star_inv_def list_all_iff dest: list.set_sel(2)\<close>)
        then show ?thesis
          using loop_miss [OF miss] miss t gmatch_restart [of "elems (restart sp)" "tl st"]
          by (auto simp: star_goal_def s)
      qed
    qed
  qed
qed

corollary loop_decides: "list_all plain t \<Longrightarrow> loop p t None \<longleftrightarrow> gmatch (elems p) t"
  using loop_correct [of p t None] by (simp add: star_inv_def star_goal_def)

end

end
