(* ===== verification/Redact.thy ===== *)
theory Redact
  imports Glob
begin

section \<open>Evidence redaction (\<open>src/src/core/redact.c\<close>)\<close>

text \<open>
  The compiled pattern set and the in-place transform every evidence buffer goes
  through.  The global \<open>g_patterns[0 .. g_pattern_count)\<close> is the list of compiled
  patterns.  \<open>retrace_redact_apply\<close> rewrites its buffer in place; the model
  returns the final contents, the processed part on the left of the C cursor
  \<open>cur\<close> and the unprocessed part on its right.
\<close>

definition REDACT_PATTERNS_MAX :: nat where "REDACT_PATTERNS_MAX = 32"
definition REDACT_PATTERN_LEN :: nat where "REDACT_PATTERN_LEN = 128"
definition REDACT_REPLACEMENTS_MAX :: nat where "REDACT_REPLACEMENTS_MAX = 64"

definition is_token_char :: "char \<Rightarrow> bool" where
  "is_token_char c \<longleftrightarrow>
     in_range (CHR ''a'') (CHR ''z'') c \<or> in_range (CHR ''A'') (CHR ''Z'') c \<or>
     in_range (CHR ''0'') (CHR ''9'') c \<or> c = CHR ''_'' \<or> c = CHR ''='' \<or>
     c = CHR ''.'' \<or> c = CHR '':'' \<or> c = CHR ''+'' \<or> c = CHR ''@'' \<or>
     c = CHR ''%'' \<or> c = CHR ''~'' \<or> c = CHR ''-''"

subsection \<open>Compiling the pattern set\<close>

text \<open>The loop of \<open>retrace_redact_set\<close>; \<open>None\<close> is a \<open>NULL\<close> array element.\<close>

fun redact_set_loop :: "nat \<Rightarrow> cstr option list \<Rightarrow> cstr list" where
  "redact_set_loop count [] = []"
| "redact_set_loop count (p # ps) =
     (if count < REDACT_PATTERNS_MAX then
        let len = (case p of Some s \<Rightarrow> length s | None \<Rightarrow> 0)
        in if len = 0 \<or> len \<ge> REDACT_PATTERN_LEN then redact_set_loop count ps
           else the p # redact_set_loop (Suc count) ps
      else [])"

definition retrace_redact_set :: "cstr option list option \<Rightarrow> cstr list" where
  "retrace_redact_set patterns =
     (case patterns of None \<Rightarrow> [] | Some ps \<Rightarrow> redact_set_loop 0 ps)"

function redact_csv_loop :: "nat \<Rightarrow> cstr \<Rightarrow> cstr list" where
  "redact_csv_loop count p =
     (if p \<noteq> [] \<and> count < REDACT_PATTERNS_MAX then
        let item = takeWhile (\<lambda>c. c \<noteq> CHR '','') p;
            comma = dropWhile (\<lambda>c. c \<noteq> CHR '','') p;
            p' = (if comma \<noteq> [] then tl comma else comma)
        in if 0 < length item \<and> length item < REDACT_PATTERN_LEN
           then item # redact_csv_loop (Suc count) p'
           else redact_csv_loop count p'
      else [])"
  by pat_completeness auto
termination
proof (relation "measure (\<lambda>(count, p). length p)", goal_cases)
  case (2 count p item comma p')
  then show ?case
    by (cases p) (auto simp: le_imp_less_Suc length_dropWhile_le
        intro: le_less_trans [OF diff_le_self] split: if_splits)
next
  case (3 count p item comma p')
  then show ?case
    by (cases p) (auto simp: le_imp_less_Suc length_dropWhile_le
        intro: le_less_trans [OF diff_le_self] split: if_splits)
qed simp

declare redact_csv_loop.simps [simp del]

definition retrace_redact_set_csv :: "cstr option \<Rightarrow> cstr list" where
  "retrace_redact_set_csv csv = (case csv of None \<Rightarrow> [] | Some s \<Rightarrow> redact_csv_loop 0 s)"

definition retrace_redact_active :: "cstr list \<Rightarrow> bool" where
  "retrace_redact_active pats \<longleftrightarrow> 0 < length pats"

subsection \<open>The whole-token glob\<close>

text \<open>
  \<open>glob_whole_loop p t star\<close>: the rest of the pattern, the rest of the token and
  \<open>(star_p, star_t)\<close>, absent while \<open>star_t == (size_t)-1\<close>.  Here \<open>star_p\<close>
  points just after the star.
\<close>

function glob_whole_loop :: "cstr \<Rightarrow> cstr \<Rightarrow> (cstr \<times> cstr) option \<Rightarrow> bool" where
  "glob_whole_loop p t star =
     (case t of
        [] \<Rightarrow> dropWhile (\<lambda>c. c = CHR ''*'') p = []
      | c # t' \<Rightarrow>
          if p \<noteq> [] \<and> hd p = CHR ''*'' then glob_whole_loop (tl p) t (Some (tl p, t))
          else if p \<noteq> [] \<and> hd p = c then glob_whole_loop (tl p) t' star
          else (case star of
                  None \<Rightarrow> False
                | Some (star_p, star_t) \<Rightarrow>
                    glob_whole_loop star_p (tl star_t) (Some (star_p, tl star_t))))"
  by pat_completeness auto
termination
  by (relation "measures [\<lambda>(p, t, star). max (length t)
        (case star of None \<Rightarrow> 0 | Some (sp, st) \<Rightarrow> length st), \<lambda>(p, t, star). length p]")
     (auto split: option.splits)

declare glob_whole_loop.simps [simp del]

definition glob_whole :: "cstr \<Rightarrow> cstr \<Rightarrow> bool" where
  "glob_whole tok pat = glob_whole_loop pat tok None"

subsection \<open>The transform\<close>

definition redact_hit :: "cstr list \<Rightarrow> cstr \<Rightarrow> bool" where
  "redact_hit pats tok \<longleftrightarrow> list_ex (glob_whole tok) pats"

function redact_loop :: "cstr list \<Rightarrow> nat \<Rightarrow> cstr \<Rightarrow> cstr" where
  "redact_loop pats budget cur =
     (if cur \<noteq> [] \<and> 0 < budget then
        if \<not> is_token_char (hd cur) then hd cur # redact_loop pats budget (tl cur)
        else
          let tok = takeWhile is_token_char cur; rest = dropWhile is_token_char cur
          in if redact_hit pats tok
             then replicate (min 3 (length tok)) (CHR ''*'') @ redact_loop pats (budget - 1) rest
             else tok @ redact_loop pats budget rest
      else cur)"
  by pat_completeness auto
termination
proof (relation "measure (\<lambda>(pats, budget, cur). length cur)", goal_cases)
  case (3 pats budget cur tok rest)
  then show ?case by (cases cur) (auto simp: le_imp_less_Suc length_dropWhile_le)
next
  case (4 pats budget cur tok rest)
  then show ?case by (cases cur) (auto simp: le_imp_less_Suc length_dropWhile_le)
qed auto

declare redact_loop.simps [simp del]

definition retrace_redact_apply :: "cstr list \<Rightarrow> cstr \<Rightarrow> cstr" where
  "retrace_redact_apply pats buf =
     (if length pats = 0 then buf else redact_loop pats REDACT_REPLACEMENTS_MAX buf)"

subsection \<open>The glob decides its pattern\<close>

definition redact_elem :: "char \<Rightarrow> gelem" where
  "redact_elem x = (if x = CHR ''*'' then Star else One (\<lambda>c. x = c))"

definition redact_elems :: "cstr \<Rightarrow> gelem list" where
  "redact_elems pat = map redact_elem pat"

lemma redact_elems_simps [simp]:
  "redact_elems [] = []"
  "redact_elems (x # xs) = redact_elem x # redact_elems xs"
  by (simp_all add: redact_elems_def)

lemma redact_elem_cases [simp]:
  "redact_elem x = Star \<longleftrightarrow> x = CHR ''*''"
  "redact_elem x = One f \<longleftrightarrow> x \<noteq> CHR ''*'' \<and> f = (\<lambda>c. x = c)"
  by (auto simp: redact_elem_def)

lemma dropWhile_star_gmatch:
  "dropWhile (\<lambda>c. c = CHR ''*'') p = [] \<longleftrightarrow> gmatch (redact_elems p) []"
  by (induction p) (auto simp: redact_elem_def)

interpretation rg: star_backtrack redact_elems id glob_whole_loop "\<lambda>_. True"
proof (unfold_locales, goal_cases)
  case (1 p star)
  then show ?case
    by (subst glob_whole_loop.simps) (simp add: dropWhile_star_gmatch del: dropWhile_eq_Nil_conv)
next
  case (2 p f es c t star)
  then obtain x xs where "p = x # xs" by (cases p) auto
  with 2 show ?case
    by (subst glob_whole_loop.simps) (auto intro!: exI [of _ xs])
next
  case (3 p es c t star)
  then obtain xs where "p = CHR ''*'' # xs" "redact_elems xs = es" by (cases p) auto
  then show ?case
    by (subst glob_whole_loop.simps) (auto intro!: exI [of _ xs])
next
  case (4 p c t star)
  then show ?case
    by (cases p) (auto simp: glob_whole_loop.simps [of _ "c # t"] split: option.splits)
qed

lemma glob_whole_gmatch: "glob_whole tok pat \<longleftrightarrow> gmatch (redact_elems pat) tok"
  using rg.loop_decides [of tok pat] by (simp add: glob_whole_def list_all_iff)

text \<open>
  C27. The whole-token glob of the redactor decides the declarative meaning of
  its pattern: \<open>*\<close> matches any run, every other character itself.
\<close>

theorem glob_whole_correct: "glob_whole tok pat \<longleftrightarrow> gmatch (map redact_elem pat) tok"
  using glob_whole_gmatch by (simp add: redact_elems_def)

subsection \<open>What the transform leaves behind\<close>

text \<open>The tokens of a buffer: its maximal runs of token characters.\<close>

function tokens :: "cstr \<Rightarrow> cstr list" where
  "tokens s =
     (case s of [] \<Rightarrow> []
      | c # cs \<Rightarrow> if is_token_char c
          then takeWhile is_token_char s # tokens (dropWhile is_token_char s)
          else tokens cs)"
  by pat_completeness auto
termination
  by (relation "measure length") (auto simp: le_imp_less_Suc length_dropWhile_le)

declare tokens.simps [simp del]

lemma tokens_Nil [simp]: "tokens [] = []"
  by (simp add: tokens.simps)

lemma tokens_sep [simp]: "\<not> is_token_char c \<Longrightarrow> tokens (c # cs) = tokens cs"
  by (simp add: tokens.simps)

lemma star_not_token [simp]: "\<not> is_token_char (CHR ''*'')"
  by (simp add: is_token_char_def in_range_def char_le_def char_val_def)

lemma tokens_stars [simp]: "tokens (replicate n (CHR ''*'') @ cs) = tokens cs"
  by (induction n) auto

lemma tokens_run:
  assumes "xs \<noteq> []" "list_all is_token_char xs" "ys = [] \<or> \<not> is_token_char (hd ys)"
  shows "tokens (xs @ ys) = xs # tokens ys"
proof -
  obtain x xs' where "xs = x # xs'" using assms(1) by (cases xs) auto
  moreover have "takeWhile is_token_char (xs @ ys) = xs" "dropWhile is_token_char (xs @ ys) = ys"
    using assms(2,3) by (cases ys; auto simp: list_all_iff takeWhile_append dropWhile_append)+
  ultimately show ?thesis using assms(2) by (subst tokens.simps) simp
qed

text \<open>The first \<open>n\<close> matching tokens removed.\<close>

fun drop_hits :: "(cstr \<Rightarrow> bool) \<Rightarrow> nat \<Rightarrow> cstr list \<Rightarrow> cstr list" where
  "drop_hits h n [] = []"
| "drop_hits h n (t # ts) =
     (if h t \<and> 0 < n then drop_hits h (n - 1) ts else t # drop_hits h n ts)"

lemma drop_hits_0 [simp]: "drop_hits h 0 ts = ts"
  by (induction ts) auto

lemma drop_hits_enough:
  "length (filter h ts) \<le> n \<Longrightarrow> drop_hits h n ts = filter (\<lambda>t. \<not> h t) ts"
  by (induction ts arbitrary: n) (auto simp: filter_empty_conv intro!: filter_True [symmetric])

lemma redact_loop_hd:
  "\<not> is_token_char (hd cur) \<Longrightarrow> cur \<noteq> [] \<Longrightarrow>
   redact_loop pats n cur \<noteq> [] \<and> hd (redact_loop pats n cur) = hd cur"
  by (subst redact_loop.simps, simp)+

lemma redact_loop_sep_hd:
  "rest = [] \<or> \<not> is_token_char (hd rest) \<Longrightarrow>
   redact_loop pats n rest = [] \<or> \<not> is_token_char (hd (redact_loop pats n rest))"
  by (cases "rest = []") (simp_all add: redact_loop_hd, simp add: redact_loop.simps)

lemma tokens_redact_loop:
  "tokens (redact_loop pats n cur) = drop_hits (redact_hit pats) n (tokens cur)"
proof (induction pats n cur rule: redact_loop.induct)
  case (1 pats n cur)
  show ?case
  proof (cases "cur \<noteq> [] \<and> 0 < n")
    case False
    then show ?thesis by (subst redact_loop.simps) auto
  next
    case True
    show ?thesis
    proof (cases "is_token_char (hd cur)")
      case False
      then have "redact_loop pats n cur = hd cur # redact_loop pats n (tl cur)"
        using True by (subst redact_loop.simps) simp
      moreover have "cur = hd cur # tl cur" using True by simp
      ultimately show ?thesis using 1(1) [OF True False] False
        by (metis tokens_sep)
    next
      case tok: True
      define t r where "t = takeWhile is_token_char cur" and "r = dropWhile is_token_char cur"
      have r: "r = [] \<or> \<not> is_token_char (hd r)"
        using hd_dropWhile r_def by blast
      have t: "t \<noteq> []" "list_all is_token_char t"
        using True tok by (cases cur; auto simp: t_def list_all_iff dest: set_takeWhileD)+
      have cur: "tokens cur = t # tokens r"
        using tokens_run [OF t r] by (simp add: t_def r_def)
      show ?thesis
      proof (cases "redact_hit pats t")
        case True': True
        have "redact_loop pats n cur = replicate (min 3 (length t)) (CHR ''*'') @ redact_loop pats (n - 1) r"
          using True tok True' by (subst redact_loop.simps) (simp add: Let_def t_def r_def)
        moreover have "tokens (redact_loop pats (n - 1) r) = drop_hits (redact_hit pats) (n - 1) (tokens r)"
          using 1(2) [OF True _ t_def r_def True'] tok by simp
        ultimately show ?thesis using cur True' True by simp
      next
        case False
        have "redact_loop pats n cur = t @ redact_loop pats n r"
          using True tok False by (subst redact_loop.simps) (simp add: Let_def t_def r_def)
        moreover have "tokens (redact_loop pats n r) = drop_hits (redact_hit pats) n (tokens r)"
          using 1(3) [OF True _ t_def r_def False] tok by simp
        ultimately show ?thesis using cur False tokens_run [OF t redact_loop_sep_hd [OF r]] by simp
      qed
    qed
  qed
qed

lemma length_redact_loop: "length (redact_loop pats n cur) \<le> length cur"
proof (induction pats n cur rule: redact_loop.induct)
  case (1 pats n cur)
  define t r where "t = takeWhile is_token_char cur" and "r = dropWhile is_token_char cur"
  have len: "length t + length r = length cur"
    unfolding t_def r_def by (metis length_append takeWhile_dropWhile_id)
  consider "cur = [] \<or> n = 0" | "cur \<noteq> [] \<and> 0 < n" "\<not> is_token_char (hd cur)"
    | "cur \<noteq> [] \<and> 0 < n" "\<not> \<not> is_token_char (hd cur)" by blast
  then show ?case
  proof cases
    case 2
    then show ?thesis using 1(1) [OF 2]
      by (subst redact_loop.simps) (cases cur, auto)
  next
    case 3
    show ?thesis
    proof (cases "redact_hit pats t")
      case True
      then show ?thesis using 1(2) [OF 3 t_def r_def True] 3 len
        by (subst redact_loop.simps) (simp add: Let_def t_def [symmetric] r_def [symmetric])
    next
      case False
      then show ?thesis using 1(3) [OF 3 t_def r_def False] 3 len
        by (subst redact_loop.simps) (simp add: Let_def t_def [symmetric] r_def [symmetric])
    qed
  qed (subst redact_loop.simps, auto)
qed

lemma redact_loop_separators:
  "filter (\<lambda>c. \<not> is_token_char c \<and> c \<noteq> CHR ''*'') (redact_loop pats n cur) =
   filter (\<lambda>c. \<not> is_token_char c \<and> c \<noteq> CHR ''*'') cur" (is "?f (redact_loop _ _ _) = _")
proof (induction pats n cur rule: redact_loop.induct)
  case (1 pats n cur)
  define t r where "t = takeWhile is_token_char cur" and "r = dropWhile is_token_char cur"
  have cur: "cur = t @ r" by (simp add: t_def r_def)
  have t: "?f t = []" by (auto simp: t_def filter_empty_conv dest: set_takeWhileD)
  have f: "?f cur = ?f r" using t by (subst cur) simp
  consider "cur = [] \<or> n = 0" | "cur \<noteq> [] \<and> 0 < n" "\<not> is_token_char (hd cur)"
    | "cur \<noteq> [] \<and> 0 < n" "\<not> \<not> is_token_char (hd cur)" by blast
  then show ?case
  proof cases
    case 2
    then show ?thesis using 1(1) [OF 2]
      by (subst redact_loop.simps) (cases cur, auto)
  next
    case 3
    show ?thesis
    proof (cases "redact_hit pats t")
      case True
      then show ?thesis using 1(2) [OF 3 t_def r_def True] 3 f
        by (subst redact_loop.simps) (simp add: Let_def t_def [symmetric] r_def [symmetric])
    next
      case False
      then show ?thesis using 1(3) [OF 3 t_def r_def False] 3 f t
        by (subst redact_loop.simps) (simp add: Let_def t_def [symmetric] r_def [symmetric])
    qed
  qed (subst redact_loop.simps, auto)
qed

text \<open>
  C4. Redaction is complete within its documented bound: when at most 64 tokens
  of the buffer match a compiled pattern, the tokens of the result are exactly the
  tokens that match none, in their order.
\<close>

theorem redact_complete:
  assumes "length (filter (redact_hit pats) (tokens buf)) \<le> REDACT_REPLACEMENTS_MAX"
  shows "tokens (retrace_redact_apply pats buf) = filter (\<lambda>t. \<not> redact_hit pats t) (tokens buf)"
  using assms
  by (simp add: retrace_redact_apply_def tokens_redact_loop drop_hits_enough redact_hit_def)

theorem redact_complete_witness:
  "tokens (retrace_redact_apply [''*_TOKEN''] ''MY_TOKEN a'') = [''a'']"
proof -
  have 1: "tokens ''MY_TOKEN a'' = [''MY_TOKEN'', ''a'']"
    by (simp add: tokens.simps is_token_char_def in_range_def char_le_def char_val_def)
  have 2: "redact_hit [''*_TOKEN''] ''MY_TOKEN''" "\<not> redact_hit [''*_TOKEN''] ''a''"
    by (simp_all add: redact_hit_def glob_whole_def glob_whole_loop.simps)
  show ?thesis
    using redact_complete [of "[''*_TOKEN'']" "''MY_TOKEN a''"] 1 2
    by (simp add: REDACT_REPLACEMENTS_MAX_def)
qed

text \<open>
  Redaction never grows the buffer it rewrites in place, and keeps every
  separator character, in order.
\<close>

theorem redact_in_place:
  "length (retrace_redact_apply pats buf) \<le> length buf \<and>
   filter (\<lambda>c. \<not> is_token_char c \<and> c \<noteq> CHR ''*'') (retrace_redact_apply pats buf) =
   filter (\<lambda>c. \<not> is_token_char c \<and> c \<noteq> CHR ''*'') buf"
  by (simp add: retrace_redact_apply_def length_redact_loop redact_loop_separators)

lemma gmatch_literal_prefix:
  "CHR ''*'' \<notin> set lit \<Longrightarrow> gmatch (map redact_elem (lit @ ''*'')) s \<longleftrightarrow> prefix lit s"
proof (induction lit arbitrary: s)
  case Nil
  have "gmatch [Star] s" by (induction s) auto
  then show ?case by (simp add: redact_elem_def)
next
  case (Cons x lit)
  then show ?case by (cases s) (auto simp: redact_elem_def)
qed

lemma redact_loop_clean_token:
  assumes "list_all is_token_char s" "\<not> redact_hit pats s"
  shows "redact_loop pats n s = s"
proof (cases "s = [] \<or> n = 0")
  case False
  have all: "takeWhile is_token_char s = s" "dropWhile is_token_char s = []"
    using assms(1) by (auto simp: list_all_iff takeWhile_eq_all_conv)
  have "is_token_char (hd s)" using False assms(1) by (auto simp: list_all_iff)
  then have "redact_loop pats n s = s @ redact_loop pats n []"
    using False assms(2) by (subst redact_loop.simps) (simp add: all)
  then show ?thesis by (simp add: redact_loop.simps)
qed (subst redact_loop.simps, auto)

lemma redact_hit_prefix:
  "CHR ''*'' \<notin> set lit \<Longrightarrow> redact_hit [lit @ ''*''] tok \<longleftrightarrow> prefix lit tok"
  using gmatch_literal_prefix by (simp add: redact_hit_def glob_whole_gmatch redact_elems_def)

text \<open>
  A pattern for a header value redacts one token only: the comment in
  \<open>redact.c\<close> gives \<open>Authorization=*\<close> as the pattern for
  \<open>Authorization=Bearer ey...\<close>, but a blank ends the token, so the credential
  after \<open>Bearer\<close> is left in the evidence.
\<close>

theorem redact_header_value_survives:
  assumes "list_all is_token_char secret" and "\<not> prefix ''Authorization='' secret"
  shows "retrace_redact_apply [''Authorization=*''] (''Authorization=Bearer '' @ secret) = ''*** '' @ secret"
proof -
  note tc = is_token_char_def in_range_def char_le_def char_val_def
  have hit: "redact_hit [''Authorization=*''] tok \<longleftrightarrow> prefix ''Authorization='' tok" for tok
    using redact_hit_prefix [of "''Authorization=''" tok] by simp
  have tail: "redact_loop [''Authorization=*''] n secret = secret" for n
    using assms hit by (intro redact_loop_clean_token) auto
  have sep: "redact_loop [''Authorization=*''] n ('' '' @ secret) = '' '' @ secret" for n
    by (subst redact_loop.simps) (simp add: tc tail)
  have split: "takeWhile is_token_char (''Authorization=Bearer '' @ secret) = ''Authorization=Bearer''"
      "dropWhile is_token_char (''Authorization=Bearer '' @ secret) = '' '' @ secret"
      "is_token_char (CHR ''A'')"
    by (simp_all add: tc)
  show ?thesis
    using hit [of "''Authorization=Bearer''"] split sep
    by (simp add: retrace_redact_apply_def REDACT_REPLACEMENTS_MAX_def,
        subst redact_loop.simps, simp add: Let_def numeral_eq_Suc)
qed

theorem redact_header_value_survives_witness:
  "retrace_redact_apply [''Authorization=*''] ''Authorization=Bearer eyJ0'' = ''*** eyJ0''"
  using redact_header_value_survives [of "''eyJ0''"]
  by (simp add: is_token_char_def in_range_def char_le_def char_val_def)

end
