(* ===== verification/Filter_Glob.thy ===== *)
theory Filter_Glob
  imports Glob
begin

section \<open>The portable glob matcher (\<open>src/src/core/filter_dsl.c\<close>)\<close>

text \<open>
  \<open>retrace_filter_glob_match\<close>: \<open>*\<close>, \<open>?\<close>, \<open>[...]\<close> classes and
  \<open>\\<close> escapes.  The C pointers \<open>p\<close>, \<open>t\<close>, \<open>star_p\<close>, \<open>star_t\<close> are
  suffixes of pattern and text; \<open>star_p\<close> points at the star itself.
\<close>

subsection \<open>Bracket classes\<close>

text \<open>
  The scan of a class body from \<open>q\<close> for the text character \<open>c\<close>: whether it
  matched, and \<open>q\<close> at the closing bracket, or at the end when there is none.
\<close>

function class_scan :: "char \<Rightarrow> bool \<Rightarrow> cstr \<Rightarrow> bool \<times> cstr" where
  "class_scan c matched q =
     (if q \<noteq> [] \<and> hd q \<noteq> CHR '']'' then
        if cget q 1 = CHR ''-'' \<and> cget q 2 \<noteq> CHR '']'' \<and> cget q 2 \<noteq> nul
        then class_scan c (matched \<or> char_le (cget q 0) c \<and> char_le c (cget q 2)) (drop 3 q)
        else class_scan c (matched \<or> c = hd q) (tl q)
      else (matched, q))"
  by pat_completeness auto
termination
  by (relation "measure (\<lambda>(c, matched, q). length q)") auto

declare class_scan.simps [simp del]

text \<open>
  The class after the opening bracket: negation, a leading \<open>]\<close> taken
  literally, then the scan.  \<open>None\<close> is an unterminated class, \<open>Some\<close> carries
  \<open>matched != negate\<close> and the position after the closing bracket.
\<close>

definition class_match :: "char \<Rightarrow> cstr \<Rightarrow> (bool \<times> cstr) option" where
  "class_match c q =
     (let negate = (cget q 0 = CHR ''!'' \<or> cget q 0 = CHR ''^'');
          q1 = (if negate then tl q else q);
          lead = (cget q1 0 = CHR '']'');
          q2 = (if lead then tl q1 else q1);
          (matched, q3) = class_scan c (lead \<and> c = CHR '']'') q2
      in if cget q3 0 \<noteq> CHR '']'' then None else Some (matched \<noteq> negate, tl q3))"

lemma class_scan_rest: "snd (class_scan c m q) = snd (class_scan c' m' q)"
proof (induction c m q arbitrary: c' m' rule: class_scan.induct)
  case (1 c m q)
  let ?r = "cget q 1 = CHR ''-'' \<and> cget q 2 \<noteq> CHR '']'' \<and> cget q 2 \<noteq> nul"
  show ?case
  proof (cases "q \<noteq> [] \<and> hd q \<noteq> CHR '']''")
    case True
    show ?thesis
    proof (cases ?r)
      case r: True
      show ?thesis
        unfolding class_scan.simps [of c m q] class_scan.simps [of c' m' q]
        using True r 1(1) [OF True r] by simp
    next
      case r: False
      show ?thesis
        unfolding class_scan.simps [of c m q] class_scan.simps [of c' m' q]
        using True r 1(2) [OF True r] by auto
    qed
  next
    case False
    show ?thesis
      unfolding class_scan.simps [of c m q] class_scan.simps [of c' m' q]
      using False by auto
  qed
qed

lemma class_scan_length: "length (snd (class_scan c m q)) \<le> length q"
proof (induction c m q rule: class_scan.induct)
  case (1 c m q)
  let ?r = "cget q 1 = CHR ''-'' \<and> cget q 2 \<noteq> CHR '']'' \<and> cget q 2 \<noteq> nul"
  show ?case
  proof (cases "q \<noteq> [] \<and> hd q \<noteq> CHR '']''")
    case True
    show ?thesis
    proof (cases ?r)
      case r: True
      then show ?thesis using True 1(1) [OF True r] by (subst class_scan.simps) simp
    next
      case r: False
      then show ?thesis using True 1(2) [OF True r] by (subst class_scan.simps) auto
    qed
  next
    case False
    then show ?thesis by (subst class_scan.simps) auto
  qed
qed

definition class_body :: "cstr \<Rightarrow> cstr" where
  "class_body q =
     (let q1 = (if cget q 0 = CHR ''!'' \<or> cget q 0 = CHR ''^'' then tl q else q)
      in if cget q1 0 = CHR '']'' then tl q1 else q1)"

lemma class_body_length: "length (class_body q) \<le> length q"
  by (auto simp: class_body_def Let_def intro: le_trans [OF diff_le_self])

lemma class_match_cases:
  "\<exists>m b. class_match c q =
     (let q3 = snd (class_scan c m (class_body q))
      in if cget q3 0 \<noteq> CHR '']'' then None else Some (b, tl q3))"
  unfolding class_match_def class_body_def Let_def
  by (simp only: case_prod_beta) blast

lemma class_match_length:
  assumes "class_match c q = Some (b, r)" shows "length r \<le> length q"
proof -
  obtain m b' where "class_match c q =
     (let q3 = snd (class_scan c m (class_body q))
      in if cget q3 0 \<noteq> CHR '']'' then None else Some (b', tl q3))"
    using class_match_cases by blast
  then have "r = tl (snd (class_scan c m (class_body q)))"
    using assms by (simp add: Let_def split: if_splits)
  then have "length r \<le> length (snd (class_scan c m (class_body q)))" by simp
  also have "\<dots> \<le> length q"
    using class_scan_length class_body_length order.trans by blast
  finally show ?thesis .
qed

lemma class_match_rest:
  "map_option snd (class_match c q) = map_option snd (class_match c' q)"
proof -
  obtain m b where 1: "class_match c q =
     (let q3 = snd (class_scan c m (class_body q))
      in if cget q3 0 \<noteq> CHR '']'' then None else Some (b, tl q3))"
    using class_match_cases by blast
  obtain m' b' where 2: "class_match c' q =
     (let q3 = snd (class_scan c' m' (class_body q))
      in if cget q3 0 \<noteq> CHR '']'' then None else Some (b', tl q3))"
    using class_match_cases by blast
  show ?thesis
    unfolding 1 2 Let_def class_scan_rest [of c m "class_body q" c' m'] by simp
qed

subsection \<open>The matching loop\<close>

text \<open>
  One iteration of the loop at a text character \<open>c\<close> with \<open>t'\<close> after it:
  the next \<open>(p, t, star)\<close>, or \<open>None\<close> for \<open>return 0\<close>.  \<open>glob_back\<close> is
  the mismatch branch: return to the last star, or give up.
\<close>

type_synonym glob_state = "cstr \<times> cstr \<times> (cstr \<times> cstr) option"

definition glob_back :: "(cstr \<times> cstr) option \<Rightarrow> glob_state option" where
  "glob_back star = (case star of None \<Rightarrow> None
     | Some (star_p, star_t) \<Rightarrow> Some (tl star_p, tl star_t, Some (star_p, tl star_t)))"

definition glob_iter :: "cstr \<Rightarrow> char \<Rightarrow> cstr \<Rightarrow> (cstr \<times> cstr) option \<Rightarrow> glob_state option" where
  "glob_iter p c t' star =
     (if cget p 0 = CHR ''?'' then Some (tl p, t', star)
      else if cget p 0 = CHR 0x5C \<and> cget p 1 \<noteq> nul then
        if c = cget p 1 then Some (drop 2 p, t', star) else glob_back star
      else if cget p 0 = CHR ''['' then
        (case class_match c (tl p) of
           None \<Rightarrow> if c = CHR ''['' then Some (tl p, t', star) else glob_back star
         | Some (hit, p') \<Rightarrow> if hit then Some (p', t', star) else glob_back star)
      else if cget p 0 = c \<and> cget p 0 \<noteq> nul then Some (tl p, t', star)
      else if cget p 0 = CHR ''*'' then Some (tl p, c # t', Some (p, c # t'))
      else glob_back star)"

definition glob_rel :: "(glob_state \<times> glob_state) set" where
  "glob_rel = measures [\<lambda>(p, t, star). max (length t)
     (case star of None \<Rightarrow> 0 | Some (sp, st) \<Rightarrow> length st), \<lambda>(p, t, star). length p]"

lemma glob_back_decreases: "glob_back star = Some s \<Longrightarrow> (s, p, c # t', star) \<in> glob_rel"
  by (auto simp: glob_back_def glob_rel_def split: option.splits)

lemma glob_step_decreases:
  "length p' < length p \<Longrightarrow> ((p', t', star), p, c # t', star) \<in> glob_rel"
  by (auto simp: glob_rel_def split: option.splits)

lemma glob_iter_cases:
  assumes "glob_iter p c t' star = Some s"
  shows "glob_back star = Some s \<or> (\<exists>p'. length p' < length p \<and> s = (p', t', star)) \<or>
    p \<noteq> [] \<and> s = (tl p, c # t', Some (p, c # t'))"
proof (cases p)
  case Nil
  then show ?thesis using assms by (simp add: glob_iter_def)
next
  case (Cons x xs)
  have len: "class_match c xs = Some (b, r) \<Longrightarrow> length r < length p" for b r
    using class_match_length [of c xs b r] Cons by simp
  have drop2: "length (drop 2 p) < length p" "length xs < length p" using Cons by simp_all
  show ?thesis
    using assms len drop2 unfolding glob_iter_def Cons
    by (simp split: if_splits option.splits prod.splits) force+
qed

lemma glob_star_decreases:
  "p \<noteq> [] \<Longrightarrow> ((tl p, t, Some (p, t)), p, t, star) \<in> glob_rel"
  by (cases star) (auto simp: glob_rel_def)

lemma glob_iter_decreases:
  assumes "glob_iter p c t' star = Some s" shows "(s, p, c # t', star) \<in> glob_rel"
  using glob_iter_cases [OF assms]
  by (elim disjE exE conjE)
     (simp_all add: glob_back_decreases glob_step_decreases glob_star_decreases)

function filter_glob_loop :: "cstr \<Rightarrow> cstr \<Rightarrow> (cstr \<times> cstr) option \<Rightarrow> bool" where
  "filter_glob_loop p t star =
     (case t of
        [] \<Rightarrow> dropWhile (\<lambda>c. c = CHR ''*'') p = []
      | c # t' \<Rightarrow>
          (case glob_iter p c t' star of
             None \<Rightarrow> False
           | Some (p', t'', star') \<Rightarrow> filter_glob_loop p' t'' star'))"
  by pat_completeness auto
termination
  by (relation glob_rel) (simp add: glob_rel_def, simp add: glob_iter_decreases)

declare filter_glob_loop.simps [simp del]

text \<open>A \<open>NULL\<close> pattern or text matches nothing.\<close>

definition retrace_filter_glob_match :: "cstr option \<Rightarrow> cstr option \<Rightarrow> bool" where
  "retrace_filter_glob_match pattern text_s =
     (case (pattern, text_s) of
        (Some p, Some t) \<Rightarrow> filter_glob_loop p t None
      | _ \<Rightarrow> False)"

subsection \<open>The meaning of a pattern\<close>

definition class_pred :: "cstr \<Rightarrow> char \<Rightarrow> bool" where
  "class_pred q c = (case class_match c q of None \<Rightarrow> False | Some (hit, _) \<Rightarrow> hit)"

text \<open>The first element of a pattern and the pattern after it.\<close>

definition filter_elem :: "char \<Rightarrow> cstr \<Rightarrow> gelem \<times> cstr" where
  "filter_elem x p =
     (if x = CHR ''?'' then (One (\<lambda>_. True), p)
      else if x = CHR 0x5C \<and> cget p 0 \<noteq> nul then (One (\<lambda>c. c = cget p 0), tl p)
      else if x = CHR ''['' then
        (case class_match x p of
           None \<Rightarrow> (One (\<lambda>c. c = CHR ''[''), p)
         | Some (_, r) \<Rightarrow> (One (class_pred p), r))
      else if x = CHR ''*'' then (Star, p)
      else (One (\<lambda>c. x = c \<and> x \<noteq> nul), p))"

lemma filter_elem_length: "length (snd (filter_elem x p)) \<le> length p"
  by (auto simp: filter_elem_def split: option.splits dest: class_match_length)

function filter_elems :: "cstr \<Rightarrow> gelem list" where
  "filter_elems [] = []"
| "filter_elems (x # p) = fst (filter_elem x p) # filter_elems (snd (filter_elem x p))"
  by pat_completeness auto
termination
  by (relation "measure length") (simp_all add: filter_elem_length le_imp_less_Suc)

lemma filter_elem_Star: "fst (filter_elem x p) = Star \<longleftrightarrow> x = CHR ''*''"
  by (auto simp: filter_elem_def split: option.splits)

lemma filter_elems_Star:
  "filter_elems p = Star # es \<Longrightarrow> \<exists>xs. p = CHR ''*'' # xs \<and> filter_elems xs = es"
  by (cases p) (auto simp: filter_elem_Star, simp add: filter_elem_def)

lemma filter_elems_stars: "dropWhile (\<lambda>c. c = CHR ''*'') p = [] \<longleftrightarrow> gmatch (filter_elems p) []"
proof (induction p)
  case (Cons x p)
  show ?case
  proof (cases "x = CHR ''*''")
    case True
    then have "filter_elems (x # p) = Star # filter_elems p" by (simp add: filter_elem_def)
    then show ?thesis using Cons.IH True by (simp del: filter_elems.simps)
  next
    case False
    then have "fst (filter_elem x p) \<noteq> Star" by (simp add: filter_elem_Star)
    then obtain f where "fst (filter_elem x p) = One f" by (cases "fst (filter_elem x p)") auto
    then show ?thesis using False by simp
  qed
qed simp

text \<open>One iteration at a single-character element: advance on a match, go back otherwise.\<close>

lemma class_match_other:
  "class_match x p = None \<Longrightarrow> class_match c p = None"
  "class_match x p = Some (h, r) \<Longrightarrow> class_match c p = Some (class_pred p c, r)"
  using class_match_rest [of x p c]
  by (cases "class_match c p"; auto simp: class_pred_def)+

lemma glob_iter_One:
  assumes "fst (filter_elem x p) = One f"
  shows "glob_iter (x # p) c t star =
    (if f c then Some (snd (filter_elem x p), t, star) else glob_back star)"
proof -
  consider (any) "x = CHR ''?''" | (esc) "x = CHR 0x5C" "cget p 0 \<noteq> nul" | (cls) "x = CHR ''[''"
    | (lit) "x \<noteq> CHR ''?''" "x \<noteq> CHR ''[''" "\<not> (x = CHR 0x5C \<and> cget p 0 \<noteq> nul)" by blast
  then show ?thesis
  proof cases
    case any
    then show ?thesis using assms by (auto simp: glob_iter_def filter_elem_def)
  next
    case esc
    then have "f = (\<lambda>c. c = cget p 0)" using assms by (simp add: filter_elem_def)
    with esc show ?thesis by (simp add: glob_iter_def filter_elem_def drop_Suc numeral_2_eq_2)
  next
    case cls
    show ?thesis
    proof (cases "class_match x p")
      case None
      then have "f = (\<lambda>c. c = CHR ''['')" using assms cls by (simp add: filter_elem_def)
      then show ?thesis using None cls class_match_other(1) [of x p c]
        by (simp add: glob_iter_def filter_elem_def)
    next
      case (Some a)
      then have "f = class_pred p" using assms cls by (cases a) (simp add: filter_elem_def)
      then show ?thesis using Some cls class_match_other(2) [of x p "fst a" "snd a" c]
        by (cases a) (simp add: glob_iter_def filter_elem_def)
    qed
  next
    case lit
    then have "x \<noteq> CHR ''*''" "f = (\<lambda>c. x = c \<and> x \<noteq> nul)"
      using assms by (auto simp: filter_elem_def split: if_splits)
    with lit show ?thesis by (auto simp: glob_iter_def filter_elem_def)
  qed
qed

interpretation fg: star_backtrack filter_elems tl filter_glob_loop "\<lambda>c. c \<noteq> CHR ''*''"
proof (unfold_locales, goal_cases)
  case (1 p star)
  then show ?case
    by (subst filter_glob_loop.simps) (simp add: filter_elems_stars del: dropWhile_eq_Nil_conv)
next
  case (2 p f es c t star)
  then obtain x xs where p: "p = x # xs" "fst (filter_elem x xs) = One f"
      "filter_elems (snd (filter_elem x xs)) = es" by (cases p) auto
  then have "filter_glob_loop p (c # t) star = filter_glob_loop (snd (filter_elem x xs)) t star"
    using glob_iter_One [OF p(2)] 2(2) by (subst filter_glob_loop.simps) simp
  with p(3) show ?case by blast
next
  case (3 p es c t star)
  then obtain xs where p: "p = CHR ''*'' # xs" "filter_elems xs = es"
    using filter_elems_Star by blast
  then have "filter_glob_loop p (c # t) star = filter_glob_loop xs (c # t) (Some (p, c # t))"
    using 3(2) by (subst filter_glob_loop.simps) (simp add: glob_iter_def)
  with p show ?case by (metis list.sel(3))
next
  case (4 p c t star)
  have "glob_iter p c t star = glob_back star"
  proof (cases p)
    case Nil
    then show ?thesis by (simp add: glob_iter_def)
  next
    case (Cons x xs)
    then obtain f where "fst (filter_elem x xs) = One f" "\<not> f c" using 4 by auto
    then show ?thesis using glob_iter_One Cons by simp
  qed
  then show ?case
    by (subst filter_glob_loop.simps) (simp add: glob_back_def split: option.splits)
qed

lemma glob_iter_Star:
  "glob_iter (CHR ''*'' # p) c t star =
    (if c = CHR ''*'' then Some (p, t, star) else Some (p, c # t, Some (CHR ''*'' # p, c # t)))"
  by (simp add: glob_iter_def)

lemma filter_elem_star [simp]: "filter_elem (CHR ''*'') p = (Star, p)"
  by (simp add: filter_elem_def)

lemma glob_back_goal:
  assumes "glob_back star = Some (p, t, star')" "gmatch (filter_elems p) t \<or> fg.star_goal star'"
  shows "fg.star_goal star"
  using assms fg.gmatch_restart
  by (auto simp: glob_back_def fg.star_goal_def split: option.splits)

lemma filter_glob_loop_sound:
  "filter_glob_loop p t star \<Longrightarrow> gmatch (filter_elems p) t \<or> fg.star_goal star"
proof (induction p t star rule: filter_glob_loop.induct)
  case (1 p t star)
  show ?case
  proof (cases t)
    case Nil
    then show ?thesis using 1(2) fg.loop_end by simp
  next
    case t: (Cons c t')
    obtain p' t'' star' where it: "glob_iter p c t' star = Some (p', t'', star')"
        and run: "filter_glob_loop p' t'' star'"
      using 1(2) t by (subst (asm) filter_glob_loop.simps) (auto split: option.splits)
    have IH: "gmatch (filter_elems p') t'' \<or> fg.star_goal star'"
      using 1(1) [OF t it] run by simp
    show ?thesis
    proof (cases p)
      case Nil
      then show ?thesis using it IH glob_back_goal by (auto simp: glob_iter_def)
    next
      case (Cons x xs)
      show ?thesis
      proof (cases "fst (filter_elem x xs)")
        case Star
        then have "x = CHR ''*''" by (simp add: filter_elem_Star)
        then show ?thesis using it IH Cons t fg.gmatch_restart [of "filter_elems xs" t]
          by (cases "c = CHR ''*''") (auto simp: glob_iter_Star fg.star_goal_def)
      next
        case (One f)
        then show ?thesis using it IH Cons t glob_back_goal
          by (cases "f c") (auto simp: glob_iter_One)
      qed
    qed
  qed
qed

text \<open>
  The portable glob matcher never accepts a text its pattern does not
  describe, for every pattern: wildcards, classes, negated classes, ranges,
  escapes and unterminated brackets.
\<close>

theorem filter_glob_sound:
  "retrace_filter_glob_match (Some p) (Some t) \<Longrightarrow> gmatch (filter_elems p) t"
  using filter_glob_loop_sound [of p t None]
  by (simp add: retrace_filter_glob_match_def fg.star_goal_def)

theorem filter_glob_sound_witness: "gmatch (filter_elems ''l?bc*'') ''libc.so''"
  using filter_glob_sound [of "''l?bc*''" "''libc.so''"]
  by (simp add: retrace_filter_glob_match_def filter_glob_loop.simps glob_iter_def glob_back_def)

text \<open>
  C28. On texts that contain no star character the matcher decides its pattern:
  remembering only the last star loses no match.
\<close>

theorem filter_glob_decides:
  assumes "CHR ''*'' \<notin> set t"
  shows "retrace_filter_glob_match (Some p) (Some t) \<longleftrightarrow> gmatch (filter_elems p) t"
  using fg.loop_decides [of t p] assms
  by (auto simp: retrace_filter_glob_match_def list_all_iff)

theorem filter_glob_decides_witness:
  "retrace_filter_glob_match (Some ''*.so'') (Some ''a.so.so'') \<longleftrightarrow>
   gmatch (filter_elems ''*.so'') ''a.so.so''"
  using filter_glob_decides [of "''a.so.so''" "''*.so''"] by simp

text \<open>
  A star character in the text is consumed literally by a star of the
  pattern, which is then forgotten: the pattern \<open>*\<close> rejects every text of two or
  more characters that begins with a star.
\<close>

theorem filter_glob_star_in_text:
  "\<not> retrace_filter_glob_match (Some ''*'') (Some (CHR ''*'' # c # t)) \<and>
   gmatch (filter_elems ''*'') (CHR ''*'' # c # t)"
proof
  show "\<not> retrace_filter_glob_match (Some ''*'') (Some (CHR ''*'' # c # t))"
    unfolding retrace_filter_glob_match_def
    by (simp add: filter_glob_loop.simps [of "''*''"] filter_glob_loop.simps [of "[]" "c # t"]
        glob_iter_def glob_back_def)
  have "gmatch [Star] u" for u by (induction u) auto
  then show "gmatch (filter_elems ''*'') (CHR ''*'' # c # t)" by simp
qed

end
