(* ===== verification/Bounded_Fifo.thy ===== *)
theory Bounded_Fifo
  imports Retrace_Prelude
begin

section \<open>The contract of a bounded queue\<close>

text \<open>
  The logger's per-thread ring (\<open>src/src/core/log_ring.c\<close>) and the agent's event
  ring (\<open>src/src/supervisor/agent_ring.c\<close>) promise the same: items leave in the
  order they entered, at most a fixed number wait at a time, and every refused item
  is counted.  The locale states the promise; what follows from it for whole runs of
  pushes and pops is proved here once.
\<close>

datatype 'a qop = Push 'a | Pop

text \<open>
  A run of operations: the items accepted, the items popped, the number of
  refusals, and the final queue.
\<close>

fun q_run :: "('a \<Rightarrow> 'q \<Rightarrow> bool \<times> 'q) \<Rightarrow> ('q \<Rightarrow> 'a option \<times> 'q) \<Rightarrow> 'q \<Rightarrow> 'a qop list \<Rightarrow>
    'a list \<times> 'a list \<times> nat \<times> 'q" where
  "q_run push pop q [] = ([], [], 0, q)"
| "q_run push pop q (Push x # ops) =
     (case push x q of (ok, q') \<Rightarrow>
        (case q_run push pop q' ops of (acc, out, lost, r) \<Rightarrow>
           if ok then (x # acc, out, lost, r) else (acc, out, Suc lost, r)))"
| "q_run push pop q (Pop # ops) =
     (case pop q of (v, q') \<Rightarrow>
        (case q_run push pop q' ops of (acc, out, lost, r) \<Rightarrow>
           case v of None \<Rightarrow> (acc, out, lost, r) | Some x \<Rightarrow> (acc, x # out, lost, r)))"

locale bounded_fifo =
  fixes invar :: "'q \<Rightarrow> bool"
    and items :: "'q \<Rightarrow> 'a list"
    and cap :: "'q \<Rightarrow> nat"
    and losses :: "'q \<Rightarrow> 'l::len word"
    and push :: "'a \<Rightarrow> 'q \<Rightarrow> bool \<times> 'q"
    and pop :: "'q \<Rightarrow> 'a option \<times> 'q"
  assumes items_bound: "invar q \<Longrightarrow> length (items q) \<le> cap q"
    and push_invar: "invar q \<Longrightarrow> push x q = (ok, q') \<Longrightarrow> invar q' \<and> cap q' = cap q"
    and push_items: "invar q \<Longrightarrow> push x q = (ok, q') \<Longrightarrow>
      items q' = (if ok then items q @ [x] else items q) \<and>
      losses q' = (if ok then losses q else losses q + 1)"
    and push_full: "invar q \<Longrightarrow> push x q = (ok, q') \<Longrightarrow> length (items q) = cap q \<Longrightarrow> \<not> ok"
    and pop_invar: "invar q \<Longrightarrow> pop q = (v, q') \<Longrightarrow> invar q' \<and> cap q' = cap q"
    and pop_items: "invar q \<Longrightarrow> pop q = (v, q') \<Longrightarrow>
      (case items q of [] \<Rightarrow> v = None \<and> items q' = [] | x # xs \<Rightarrow> v = Some x \<and> items q' = xs) \<and>
      losses q' = losses q"
begin

theorem fifo_run:
  assumes "invar q" "q_run push pop q ops = (acc, out, lost, r)"
  shows "invar r \<and> items q @ acc = out @ items r \<and> length (items r) \<le> cap q \<and>
    losses r = losses q + of_nat lost"
  using assms
proof (induction ops arbitrary: q acc out lost)
  case Nil
  then show ?case by (auto simp: items_bound)
next
  case (Cons op ops)
  show ?case
  proof (cases op)
    case (Push x)
    obtain ok q' where p: "push x q = (ok, q')" by (cases "push x q")
    obtain acc' out' lost' where run: "q_run push pop q' ops = (acc', out', lost', r)"
        and res: "acc = (if ok then x # acc' else acc')" "out = out'"
          "lost = (if ok then lost' else Suc lost')"
      using Cons.prems(2) p by (auto simp: Push split: prod.splits if_splits)
    have "invar r \<and> items q' @ acc' = out' @ items r \<and> length (items r) \<le> cap q' \<and>
        losses r = losses q' + of_nat lost'"
      using Cons.IH run push_invar [OF Cons.prems(1) p] by blast
    then show ?thesis
      using push_invar [OF Cons.prems(1) p] push_items [OF Cons.prems(1) p] res
      by (auto split: if_splits)
  next
    case Pop
    obtain v q' where p: "pop q = (v, q')" by (cases "pop q")
    obtain acc' out' lost' where run: "q_run push pop q' ops = (acc', out', lost', r)"
        and res: "acc = acc'" "out = (case v of None \<Rightarrow> out' | Some x \<Rightarrow> x # out')" "lost = lost'"
      using Cons.prems(2) p by (auto simp: Pop split: prod.splits option.splits)
    have "invar r \<and> items q' @ acc' = out' @ items r \<and> length (items r) \<le> cap q' \<and>
        losses r = losses q' + of_nat lost'"
      using Cons.IH run pop_invar [OF Cons.prems(1) p] by blast
    then show ?thesis
      using pop_invar [OF Cons.prems(1) p] pop_items [OF Cons.prems(1) p] res
      by (auto split: list.splits)
  qed
qed

end

end
