(* ===== verification/Agent_Ring.thy ===== *)
theory Agent_Ring
  imports Bounded_Fifo
begin

section \<open>The agent's event ring (\<open>src/src/supervisor/agent_ring.c\<close>)\<close>

text \<open>
  A fixed array of 256 slots; an item of up to 767 bytes is copied into its slot,
  a larger one owns a heap block.  \<open>slots\<close> is the array, \<open>head\<close> and
  \<open>count\<close> index it, \<open>dropped\<close> is the 64-bit loss counter.  \<open>malloc\<close> is a
  parameter: whether a request of the given size is granted.
\<close>

definition AGENT_RING_CAP :: nat where "AGENT_RING_CAP = 256"
definition AGENT_RING_INLINE :: nat where "AGENT_RING_INLINE = 768"

record agent_ring_slot =
  heap :: "cstr option"
  len :: nat
  buf :: cstr

record agent_ring =
  slots :: "agent_ring_slot list"
  head :: nat
  count :: nat
  dropped :: "64 word"

definition agent_ring_init :: agent_ring where
  "agent_ring_init =
     \<lparr>slots = replicate AGENT_RING_CAP \<lparr>heap = None, len = 0, buf = []\<rparr>,
      head = 0, count = 0, dropped = 0\<rparr>"

text \<open>
  \<open>ring_push\<close>: \<open>heap_item\<close> is the caller's heap block when the ring takes
  ownership, \<open>item\<close> the bytes to queue and \<open>n\<close> their count (the C parameter
  \<open>len\<close>; the heap form counts its terminating NUL).
\<close>

definition ring_push :: "(nat \<Rightarrow> bool) \<Rightarrow> agent_ring \<Rightarrow> cstr option \<Rightarrow> cstr \<Rightarrow> nat \<Rightarrow>
    bool \<times> agent_ring" where
  "ring_push malloc ring heap_item item n =
     (if count ring \<ge> AGENT_RING_CAP then (False, ring\<lparr>dropped := dropped ring + 1\<rparr>)
      else
        let i = (head ring + count ring) mod AGENT_RING_CAP;
            slot = (slots ring ! i)\<lparr>heap := None\<rparr>;
            put = (\<lambda>s. (True, ring\<lparr>slots := (slots ring)[i := s\<lparr>len := n\<rparr>],
                                    count := count ring + 1\<rparr>))
        in case heap_item of
             Some h \<Rightarrow> put (slot\<lparr>heap := Some h\<rparr>)
           | None \<Rightarrow>
               if n > AGENT_RING_INLINE - 1 then
                 if malloc (n + 1) then put (slot\<lparr>heap := Some (take n item)\<rparr>)
                 else (False, ring\<lparr>slots := (slots ring)[i := slot], dropped := dropped ring + 1\<rparr>)
               else put (slot\<lparr>buf := take n item\<rparr>))"

definition agent_ring_push_copy :: "(nat \<Rightarrow> bool) \<Rightarrow> agent_ring \<Rightarrow> cstr \<Rightarrow> nat \<Rightarrow> bool \<times> agent_ring" where
  "agent_ring_push_copy malloc ring item n = ring_push malloc ring None item n"

definition agent_ring_push_heap :: "(nat \<Rightarrow> bool) \<Rightarrow> agent_ring \<Rightarrow> cstr \<Rightarrow> nat \<Rightarrow> bool \<times> agent_ring" where
  "agent_ring_push_heap malloc ring heap_item n = ring_push malloc ring (Some heap_item) heap_item n"

definition slot_view :: "agent_ring_slot \<Rightarrow> cstr" where
  "slot_view slot = (case heap slot of Some h \<Rightarrow> h | None \<Rightarrow> buf slot)"

definition agent_ring_peek :: "agent_ring \<Rightarrow> (cstr \<times> nat) option" where
  "agent_ring_peek ring =
     (if count ring = 0 then None
      else let slot = slots ring ! head ring in Some (slot_view slot, len slot))"

definition agent_ring_pop :: "agent_ring \<Rightarrow> agent_ring" where
  "agent_ring_pop ring =
     (if count ring = 0 then ring
      else let slot = slots ring ! head ring in
        ring\<lparr>slots := (slots ring)[head ring := slot\<lparr>heap := None\<rparr>],
             head := (head ring + 1) mod AGENT_RING_CAP, count := count ring - 1\<rparr>)"

subsection \<open>Abstraction and invariant\<close>

definition ring_slot :: "agent_ring \<Rightarrow> nat \<Rightarrow> agent_ring_slot" where
  "ring_slot ring i = slots ring ! ((head ring + i) mod AGENT_RING_CAP)"

definition ring_items :: "agent_ring \<Rightarrow> (cstr \<times> nat) list" where
  "ring_items ring = map (\<lambda>i. (slot_view (ring_slot ring i), len (ring_slot ring i))) [0..<count ring]"

definition ring_inv :: "agent_ring \<Rightarrow> bool" where
  "ring_inv ring \<longleftrightarrow> length (slots ring) = AGENT_RING_CAP \<and> head ring < AGENT_RING_CAP \<and>
     count ring \<le> AGENT_RING_CAP"

text \<open>
  The two entry points as one push of an item \<open>(bytes, n)\<close>: the copying form
  queues exactly its bytes, the owning form carries a count of its own.
\<close>

definition agent_push :: "(nat \<Rightarrow> bool) \<Rightarrow> cstr \<times> nat \<Rightarrow> agent_ring \<Rightarrow> bool \<times> agent_ring" where
  "agent_push malloc x ring = (case x of (v, n) \<Rightarrow>
     if n = length v then agent_ring_push_copy malloc ring v n
     else agent_ring_push_heap malloc ring v n)"

definition agent_pop :: "agent_ring \<Rightarrow> (cstr \<times> nat) option \<times> agent_ring" where
  "agent_pop ring = (agent_ring_peek ring, agent_ring_pop ring)"

lemma cap_pos [simp]: "0 < AGENT_RING_CAP"
  by (simp add: AGENT_RING_CAP_def)

lemma length_ring_items [simp]: "length (ring_items ring) = count ring"
  by (simp add: ring_items_def)

text \<open>Storing an item behind the last one appends it and leaves the others alone.\<close>

lemma ring_items_store:
  assumes "ring_inv ring" "count ring < AGENT_RING_CAP"
    and "slots ring' = (slots ring)[(head ring + count ring) mod AGENT_RING_CAP := s]"
    and "head ring' = head ring" "count ring' = Suc (count ring)"
  shows "ring_items ring' = ring_items ring @ [(slot_view s, len s)]"
proof -
  have old: "i < count ring \<Longrightarrow> ring_slot ring' i = ring_slot ring i" for i
    using assms(2,3,4) by (simp add: ring_slot_def nth_list_update)
  have new: "ring_slot ring' (count ring) = s"
    using assms(1,3,4) by (simp add: ring_slot_def ring_inv_def)
  show ?thesis
    unfolding ring_items_def using assms(5) old new by simp
qed

lemma ring_items_spill:
  assumes "ring_inv ring" "count ring < AGENT_RING_CAP"
    and "slots ring' = (slots ring)[(head ring + count ring) mod AGENT_RING_CAP := s]"
    and "head ring' = head ring" "count ring' = count ring"
  shows "ring_items ring' = ring_items ring"
proof -
  have "i < count ring \<Longrightarrow> ring_slot ring' i = ring_slot ring i" for i
    using assms(2,3,4) by (simp add: ring_slot_def nth_list_update)
  then show ?thesis unfolding ring_items_def using assms(5) by simp
qed

lemma ring_push_spec:
  assumes inv: "ring_inv ring" and p: "ring_push malloc ring h item n = (ok, ring')"
  shows "ring_inv ring' \<and>
    ring_items ring' = (if ok then ring_items ring @ [(case h of Some b \<Rightarrow> b | None \<Rightarrow> take n item, n)]
      else ring_items ring) \<and>
    dropped ring' = (if ok then dropped ring else dropped ring + 1) \<and>
    (count ring = AGENT_RING_CAP \<longrightarrow> \<not> ok)"
proof (cases "count ring \<ge> AGENT_RING_CAP")
  case True
  then show ?thesis using p inv by (auto simp: ring_push_def ring_inv_def ring_items_def ring_slot_def)
next
  case False
  let ?i = "(head ring + count ring) mod AGENT_RING_CAP"
  consider (stored) s where "ok" "slots ring' = (slots ring)[?i := s]" "head ring' = head ring"
      "count ring' = Suc (count ring)" "dropped ring' = dropped ring"
      "slot_view s = (case h of Some b \<Rightarrow> b | None \<Rightarrow> take n item)" "len s = n"
    | (refused) s where "\<not> ok" "slots ring' = (slots ring)[?i := s]" "head ring' = head ring"
      "count ring' = count ring" "dropped ring' = dropped ring + 1"
    using p False by (auto simp: ring_push_def Let_def slot_view_def split: option.splits if_splits)
  then show ?thesis
  proof cases
    case stored
    then show ?thesis using ring_items_store [OF inv _ stored(2-4)] False inv
      by (auto simp: ring_inv_def)
  next
    case refused
    then show ?thesis using ring_items_spill [OF inv _ refused(2-4)] False inv
      by (auto simp: ring_inv_def)
  qed
qed

lemma agent_push_spec:
  assumes inv: "ring_inv ring" and p: "agent_push malloc x ring = (ok, ring')"
  shows "ring_inv ring' \<and> ring_items ring' = (if ok then ring_items ring @ [x] else ring_items ring) \<and>
    dropped ring' = (if ok then dropped ring else dropped ring + 1) \<and>
    (count ring = AGENT_RING_CAP \<longrightarrow> \<not> ok)"
proof -
  obtain w n where x: "x = (w, n)" by (cases x)
  show ?thesis
  proof (cases "n = length w")
    case True
    then have "ring_push malloc ring None w n = (ok, ring')"
      using p by (simp add: agent_push_def x agent_ring_push_copy_def)
    from ring_push_spec [OF inv this] show ?thesis using True by (simp add: x)
  next
    case False
    then have "ring_push malloc ring (Some w) w n = (ok, ring')"
      using p by (simp add: agent_push_def x agent_ring_push_heap_def)
    from ring_push_spec [OF inv this] show ?thesis by (simp add: x)
  qed
qed

lemma agent_pop_spec:
  assumes inv: "ring_inv ring" and p: "agent_pop ring = (v, ring')"
  shows "ring_inv ring' \<and> dropped ring' = dropped ring \<and>
    (case ring_items ring of [] \<Rightarrow> v = None \<and> ring_items ring' = []
     | x # xs \<Rightarrow> v = Some x \<and> ring_items ring' = xs)"
proof (cases "count ring")
  case 0
  then have "ring' = ring" "v = None" "ring_items ring = []"
    using p by (auto simp: agent_pop_def agent_ring_pop_def agent_ring_peek_def ring_items_def)
  then show ?thesis using inv by simp
next
  case (Suc n)
  let ?s = "slots ring ! head ring"
  have v: "v = Some (slot_view ?s, len ?s)" and r: "slots ring' = (slots ring)[head ring := ?s\<lparr>heap := None\<rparr>]"
      "head ring' = Suc (head ring) mod AGENT_RING_CAP" "count ring' = n" "dropped ring' = dropped ring"
    using p Suc by (auto simp: agent_pop_def agent_ring_pop_def agent_ring_peek_def Let_def)
  have first: "ring_slot ring 0 = ?s" using inv by (simp add: ring_slot_def ring_inv_def)
  have rest: "ring_slot ring' i = ring_slot ring (Suc i)" if "i < n" for i
  proof -
    have "(head ring + Suc i) mod AGENT_RING_CAP \<noteq> (head ring + 0) mod AGENT_RING_CAP"
      using that Suc inv by (subst mod_add_inj) (auto simp: ring_inv_def)
    then have "(head ring + Suc i) mod AGENT_RING_CAP \<noteq> head ring" using inv by (simp add: ring_inv_def)
    moreover have "(Suc (head ring) mod AGENT_RING_CAP + i) mod AGENT_RING_CAP =
        (head ring + Suc i) mod AGENT_RING_CAP" by (simp add: mod_add_left_eq)
    ultimately show ?thesis by (simp add: ring_slot_def r nth_list_update_neq)
  qed
  have "ring_items ring = (slot_view ?s, len ?s) # ring_items ring'"
    unfolding ring_items_def using Suc r(3) first rest
    by (simp add: upt_conv_Cons map_Suc_upt [symmetric] del: upt_Suc)
  then show ?thesis using v r inv Suc by (simp add: ring_inv_def)
qed

interpretation ar: bounded_fifo ring_inv ring_items "\<lambda>_. AGENT_RING_CAP" dropped
    "agent_push malloc" agent_pop for malloc
proof (unfold_locales, goal_cases)
  case (1 q)
  then show ?case by (simp add: ring_inv_def)
next
  case (2 q x ok q')
  then show ?case using agent_push_spec by blast
next
  case (3 q x ok q')
  then show ?case using agent_push_spec by blast
next
  case (4 q x ok q')
  then show ?case using agent_push_spec [OF 4(1,2)] by simp
next
  case (5 q v q')
  then show ?case using agent_pop_spec by blast
next
  case (6 q v q')
  then show ?case using agent_pop_spec by blast
qed

lemma ring_inv_init: "ring_inv agent_ring_init" "ring_items agent_ring_init = []"
  by (simp_all add: ring_inv_def agent_ring_init_def ring_items_def)

text \<open>
  C24. Any run of pushes and pops on a fresh agent ring, under any allocator:
  the accepted items are exactly the popped ones followed by those still queued, in
  order; at most 256 wait; and the 64-bit loss counter is the number of refusals.
\<close>

theorem agent_ring_fifo:
  assumes "q_run (agent_push malloc) agent_pop agent_ring_init ops = (acc, out, lost, r)"
  shows "acc = out @ ring_items r \<and> length (ring_items r) \<le> 256 \<and> dropped r = of_nat lost"
  using ar.fifo_run [OF ring_inv_init(1) assms] ring_inv_init(2)
  by (simp add: AGENT_RING_CAP_def agent_ring_init_def)

theorem agent_ring_fifo_witness:
  "\<exists>r. q_run (agent_push (\<lambda>_. True)) agent_pop agent_ring_init
      [Push (''ev'', 2), Push (''bye'', 4), Pop] =
     ([(''ev'', 2), (''bye'', 4)], [(''ev'', 2)], 0, r) \<and> ring_items r = [(''bye'', 4)]"
proof -
  let ?ops = "[Push (''ev'', 2), Push (''bye'', 4), Pop]"
  obtain acc out lost r where run:
      "q_run (agent_push (\<lambda>_. True)) agent_pop agent_ring_init ?ops = (acc, out, lost, r)"
    by (metis prod_cases4)
  have "acc = [(''ev'', 2), (''bye'', 4)] \<and> out = [(''ev'', 2)] \<and> lost = 0"
    using run by (auto simp: agent_push_def agent_pop_def agent_ring_push_copy_def
        agent_ring_push_heap_def ring_push_def agent_ring_init_def AGENT_RING_CAP_def
        AGENT_RING_INLINE_def agent_ring_peek_def agent_ring_pop_def slot_view_def)
  with agent_ring_fifo [OF run] run show ?thesis by auto
qed

end
