(* ===== verification/Log_Ring.thy ===== *)
theory Log_Ring
  imports Bounded_Fifo
begin

unbundle bit_operations_syntax

section \<open>The logger's per-thread ring (\<open>src/src/core/log_ring.c\<close>)\<close>

text \<open>
  A power-of-two array with 32-bit head and tail indices masked by \<open>cap - 1\<close>; the
  producer is the owning thread, the consumer the flusher.  An entry owns a heap
  copy of its text from the push until the drain frees it (\<open>None\<close> afterwards).
  The allocator is a parameter: a Boolean per request tells whether it is granted,
  and \<open>fresh n\<close> is the uninitialised contents of an array of \<open>n\<close> entries.
\<close>

record log_entry =
  ts_ms :: "32 word"
  module :: "8 word"
  sev :: "8 word"
  reserved :: "16 word"
  le_text :: "cstr option"

record log_ring =
  lr_mask :: "32 word"
  lr_dropped :: "32 word"
  lr_head :: "32 word"
  lr_tail :: "32 word"
  lr_entries :: "log_entry list"

definition LOG_RING_DEFAULT_CAP :: nat where "LOG_RING_DEFAULT_CAP = 1024"
definition LOG_RING_CAP_MIN :: nat where "LOG_RING_CAP_MIN = 64"
definition LOG_RING_CAP_MAX :: nat where "LOG_RING_CAP_MAX = 65536"

definition ring_alloc :: "bool \<Rightarrow> bool \<Rightarrow> (nat \<Rightarrow> log_entry list) \<Rightarrow> 32 word \<Rightarrow> log_ring option" where
  "ring_alloc ring_ok entries_ok fresh capacity =
     (if capacity = 0 \<or> capacity AND (capacity - 1) \<noteq> 0 then None
      else if \<not> ring_ok then None
      else if \<not> entries_ok then None
      else Some \<lparr>lr_mask = capacity - 1, lr_dropped = 0, lr_head = 0, lr_tail = 0,
                 lr_entries = fresh (unat capacity)\<rparr>)"

text \<open>The loop of \<open>ring_free\<close>: the texts released between tail and head.\<close>

partial_function (option) ring_free_loop ::
    "log_ring \<Rightarrow> 32 word \<Rightarrow> cstr option list \<Rightarrow> cstr option list option" where
  "ring_free_loop r t freed =
     (if t \<noteq> lr_head r
      then ring_free_loop r ((t + 1) AND lr_mask r) (freed @ [le_text (lr_entries r ! unat t)])
      else Some freed)"

definition ring_free :: "log_ring \<Rightarrow> cstr option list option" where
  "ring_free r = ring_free_loop r (lr_tail r) []"

text \<open>
  \<open>ring_configured_cap\<close>: \<open>env\<close> is the value of \<open>RETRACE_LOGGER_RING_CAP\<close>, if any,
  and \<open>atoi\<close> the resolved conversion routine, if any.  A C \<open>long\<close> is 64 bits.
\<close>

definition ring_configured_cap :: "cstr option \<Rightarrow> (cstr \<Rightarrow> int) option \<Rightarrow> 32 word" where
  "ring_configured_cap env atoi =
     (case env of
        None \<Rightarrow> of_nat LOG_RING_DEFAULT_CAP
      | Some s \<Rightarrow>
          if s = [] then of_nat LOG_RING_DEFAULT_CAP
          else (case atoi of
                  None \<Rightarrow> of_nat LOG_RING_DEFAULT_CAP
                | Some conv \<Rightarrow>
                    let v = conv s in
                    if v < int LOG_RING_CAP_MIN \<or> v > int LOG_RING_CAP_MAX
                    then of_nat LOG_RING_DEFAULT_CAP
                    else if (word_of_int v :: 64 word) AND (word_of_int v - 1) \<noteq> 0
                    then of_nat LOG_RING_DEFAULT_CAP
                    else word_of_int v))"

text \<open>
  \<open>retrace_log_ring_push\<close>: the return value and the ring.  The text copy is
  allocated first (\<open>copy_ok\<close>) and released again when the ring is full.
\<close>

definition retrace_log_ring_push ::
    "bool \<Rightarrow> log_ring option \<Rightarrow> 8 word \<Rightarrow> 8 word \<Rightarrow> 32 word \<Rightarrow> cstr option \<Rightarrow> int \<times> log_ring option" where
  "retrace_log_ring_push copy_ok ring m s ts txt =
     (case (ring, txt) of
        (Some r, Some tx) \<Rightarrow>
          if \<not> copy_ok then (-1, ring)
          else
            let h = lr_head r; next = (h + 1) AND lr_mask r; t = lr_tail r
            in if next = t then (-1, Some (r\<lparr>lr_dropped := lr_dropped r + 1\<rparr>))
               else (0, Some (r\<lparr>lr_entries := (lr_entries r)[unat h :=
                        \<lparr>ts_ms = ts, module = m, sev = s, reserved = 0, le_text = Some tx\<rparr>],
                      lr_head := next\<rparr>))
      | _ \<Rightarrow> (-1, ring))"

text \<open>
  \<open>retrace_log_ring_drain\<close>: the callback sees each entry with its context and
  returns non-zero to stop; a delivered entry's text is freed and its slot cleared.
\<close>

partial_function (option) drain_loop ::
    "(log_entry \<Rightarrow> 'c \<Rightarrow> int \<times> 'c) \<Rightarrow> 32 word \<Rightarrow> 32 word \<Rightarrow> log_entry list \<Rightarrow> 32 word \<Rightarrow> nat \<Rightarrow> 'c \<Rightarrow>
     (log_entry list \<times> 32 word \<times> nat \<times> 'c) option" where
  "drain_loop cb msk h es t n ctx =
     (if t \<noteq> h then
        (case cb (es ! unat t) ctx of (rc, ctx') \<Rightarrow>
           if rc \<noteq> 0 then Some (es, t, n, ctx')
           else drain_loop cb msk h (es[unat t := (es ! unat t)\<lparr>le_text := None\<rparr>])
                  ((t + 1) AND msk) (n + 1) ctx')
      else Some (es, t, n, ctx))"

definition retrace_log_ring_drain ::
    "log_ring option \<Rightarrow> (log_entry \<Rightarrow> 'c \<Rightarrow> int \<times> 'c) option \<Rightarrow> 'c \<Rightarrow> (nat \<times> 'c \<times> log_ring option) option" where
  "retrace_log_ring_drain ring cb ctx =
     (case (ring, cb) of
        (Some r, Some f) \<Rightarrow>
          (case drain_loop f (lr_mask r) (lr_head r) (lr_entries r) (lr_tail r) 0 ctx of
             None \<Rightarrow> None
           | Some (es, t, n, ctx') \<Rightarrow> Some (n, ctx', Some (r\<lparr>lr_entries := es, lr_tail := t\<rparr>)))
      | _ \<Rightarrow> Some (0, ctx, ring))"

subsection \<open>Masked indices\<close>

lemma unat_and_mask:
  fixes x :: "'a::len word"
  shows "unat (x AND mask k) = unat x mod 2 ^ k"
  by (simp flip: take_bit_eq_mask take_bit_eq_mod add: unsigned_take_bit_eq)

lemma unat_mask_word:
  assumes "k < 32" shows "unat (mask k :: 32 word) = 2 ^ k - 1"
proof -
  have "(2::nat) ^ k < 2 ^ 32" using assms by (intro power_strict_increasing) auto
  then have "unat (of_nat (2 ^ k - 1) :: 32 word) = 2 ^ k - 1"
    by (subst unat_of_nat) (simp add: less_imp_diff_less)
  moreover have "(mask k :: 32 word) = of_nat (2 ^ k - 1)"
    by (simp add: mask_eq_exp_minus_1)
  ultimately show ?thesis by simp
qed

lemma unat_Suc_and_mask:
  fixes x :: "32 word"
  assumes "k < 32"
  shows "unat ((x + 1) AND mask k) = Suc (unat x) mod 2 ^ k"
proof -
  have "(2::nat) ^ k dvd 2 ^ 32" using assms by (intro le_imp_power_dvd) simp
  then have "(Suc (unat x) mod 2 ^ 32) mod 2 ^ k = Suc (unat x) mod 2 ^ k"
    by (rule mod_mod_cancel)
  moreover have "unat (x + 1) = Suc (unat x) mod 2 ^ 32"
    by (simp add: unat_word_ariths)
  ultimately show ?thesis by (simp only: unat_and_mask)
qed

subsection \<open>Abstraction and invariant\<close>

definition lr_size :: "log_ring \<Rightarrow> nat" where
  "lr_size r = Suc (unat (lr_mask r))"

definition lr_len :: "log_ring \<Rightarrow> nat" where
  "lr_len r = (unat (lr_head r) + lr_size r - unat (lr_tail r)) mod lr_size r"

definition lr_slot :: "log_ring \<Rightarrow> nat \<Rightarrow> log_entry" where
  "lr_slot r i = lr_entries r ! ((unat (lr_tail r) + i) mod lr_size r)"

definition lr_inv :: "log_ring \<Rightarrow> bool" where
  "lr_inv r \<longleftrightarrow> (\<exists>k<32. lr_mask r = mask k) \<and> length (lr_entries r) = lr_size r \<and>
     unat (lr_head r) < lr_size r \<and> unat (lr_tail r) < lr_size r \<and>
     (\<forall>i<lr_len r. le_text (lr_slot r i) \<noteq> None)"

type_synonym log_item = "8 word \<times> 8 word \<times> 32 word \<times> cstr"

definition entry_item :: "log_entry \<Rightarrow> log_item" where
  "entry_item e = (module e, sev e, ts_ms e, the (le_text e))"

definition lr_items :: "log_ring \<Rightarrow> log_item list" where
  "lr_items r = map (\<lambda>i. entry_item (lr_slot r i)) [0..<lr_len r]"

lemma next_index:
  assumes "\<exists>k<32. lr_mask r = mask k"
  shows "unat ((x + 1) AND lr_mask r) = Suc (unat x) mod lr_size r"
proof -
  obtain k where k: "k < 32" "lr_mask r = mask k" using assms by blast
  then have "lr_size r = 2 ^ k" by (simp add: lr_size_def unat_mask_word)
  then show ?thesis using unat_Suc_and_mask k by simp
qed

lemma lr_next:
  "lr_inv r \<Longrightarrow> unat ((x + 1) AND lr_mask r) = Suc (unat x) mod lr_size r"
  by (rule next_index) (simp add: lr_inv_def)

lemma lr_len_less: "lr_len r < lr_size r"
  by (simp add: lr_len_def lr_size_def)

lemma lr_head_eq:
  assumes "lr_inv r"
  shows "unat (lr_head r) = (unat (lr_tail r) + lr_len r) mod lr_size r"
proof -
  have "unat (lr_tail r) \<le> unat (lr_head r) + lr_size r" using assms by (simp add: lr_inv_def)
  then have "(unat (lr_tail r) + lr_len r) mod lr_size r = (unat (lr_head r) + lr_size r) mod lr_size r"
    unfolding lr_len_def by (simp add: mod_add_right_eq)
  then show ?thesis using assms by (simp add: lr_inv_def)
qed

lemma lr_lenI:
  assumes "lr_inv r" "n < lr_size r" "unat (lr_head r) = (unat (lr_tail r) + n) mod lr_size r"
  shows "lr_len r = n"
proof -
  have "(unat (lr_tail r) + lr_len r) mod lr_size r = (unat (lr_tail r) + n) mod lr_size r"
    using assms(3) lr_head_eq [OF assms(1)] by simp
  then show ?thesis using assms(2) lr_len_less [of r] by simp
qed

lemma lr_empty_iff:
  assumes "lr_inv r" shows "lr_len r = 0 \<longleftrightarrow> lr_tail r = lr_head r"
proof -
  have tail: "unat (lr_tail r) mod lr_size r = unat (lr_tail r)" "0 < lr_size r"
    using assms by (auto simp: lr_inv_def)
  show ?thesis
    using lr_head_eq [OF assms] lr_lenI [OF assms, of 0] tail
    by (auto simp: word_unat_eq_iff)
qed

lemma lr_full_iff:
  assumes "lr_inv r"
  shows "(lr_head r + 1) AND lr_mask r = lr_tail r \<longleftrightarrow> Suc (lr_len r) = lr_size r"
proof -
  have "unat ((lr_head r + 1) AND lr_mask r) = (unat (lr_tail r) + Suc (lr_len r)) mod lr_size r"
    using lr_next [OF assms] lr_head_eq [OF assms] by (simp add: mod_Suc_eq)
  moreover have "unat (lr_tail r) = (unat (lr_tail r) + 0) mod lr_size r"
    using assms by (simp add: lr_inv_def)
  moreover have "(unat (lr_tail r) + Suc (lr_len r)) mod lr_size r = (unat (lr_tail r) + 0) mod lr_size r \<longleftrightarrow>
      Suc (lr_len r) = lr_size r"
    using lr_len_less [of r] mod_add_inj [of "Suc (lr_len r)" "lr_size r" 0 "unat (lr_tail r)"]
    by (cases "Suc (lr_len r) = lr_size r") auto
  ultimately show ?thesis by (metis word_unat_eq_iff)
qed


text \<open>The effect of one accepted push and of one delivered entry on the ring.\<close>

definition lr_put :: "log_entry \<Rightarrow> log_ring \<Rightarrow> log_ring" where
  "lr_put e r = r\<lparr>lr_entries := (lr_entries r)[unat (lr_head r) := e],
                  lr_head := (lr_head r + 1) AND lr_mask r\<rparr>"

definition lr_take :: "log_ring \<Rightarrow> log_ring" where
  "lr_take r = r\<lparr>lr_entries := (lr_entries r)[unat (lr_tail r) :=
                   (lr_entries r ! unat (lr_tail r))\<lparr>le_text := None\<rparr>],
                 lr_tail := (lr_tail r + 1) AND lr_mask r\<rparr>"

definition lr_queue :: "log_ring \<Rightarrow> log_entry list" where
  "lr_queue r = map (lr_slot r) [0..<lr_len r]"

lemma length_lr_queue [simp]: "length (lr_queue r) = lr_len r"
  by (simp add: lr_queue_def)

lemma lr_items_queue: "lr_items r = map entry_item (lr_queue r)"
  by (simp add: lr_items_def lr_queue_def)

lemma lr_size_pos [simp]: "0 < lr_size r"
  by (simp add: lr_size_def)

lemma lr_put_spec:
  assumes inv: "lr_inv r" and room: "Suc (lr_len r) < lr_size r" and tx: "le_text e \<noteq> None"
  shows "lr_inv (lr_put e r) \<and> lr_queue (lr_put e r) = lr_queue r @ [e] \<and>
    lr_size (lr_put e r) = lr_size r \<and> lr_dropped (lr_put e r) = lr_dropped r"
proof -
  let ?r = "lr_put e r"
  have size: "lr_size ?r = lr_size r" by (simp add: lr_put_def lr_size_def)
  have tail: "lr_tail ?r = lr_tail r" by (simp add: lr_put_def)
  have head: "unat (lr_head ?r) = (unat (lr_tail r) + Suc (lr_len r)) mod lr_size r"
    using lr_next [OF inv] lr_head_eq [OF inv] by (simp add: lr_put_def mod_Suc_eq)
  have old: "lr_slot ?r i = lr_slot r i" if "i < lr_len r" for i
  proof -
    have "(unat (lr_tail r) + i) mod lr_size r \<noteq> unat (lr_head r)"
      using that lr_head_eq [OF inv] lr_len_less [of r] by simp
    then show ?thesis using size tail by (simp add: lr_slot_def lr_put_def)
  qed
  have new: "lr_slot ?r (lr_len r) = e"
    using inv lr_head_eq [OF inv] size tail by (simp add: lr_slot_def lr_put_def lr_inv_def)
  have len: "lr_len ?r = Suc (lr_len r)"
  proof -
    have "(unat (lr_tail r) + lr_len ?r) mod lr_size r = (unat (lr_tail r) + Suc (lr_len r)) mod lr_size r"
      using head size tail inv unfolding lr_len_def [of ?r]
      by (auto simp: mod_add_right_eq lr_inv_def)
    then show ?thesis using room lr_len_less [of ?r] size by (subst (asm) mod_add_inj) auto
  qed
  have "lr_queue ?r = lr_queue r @ [e]" by (simp add: lr_queue_def len old new)
  moreover have "lr_inv ?r"
  proof -
    have "lr_mask ?r = lr_mask r" "length (lr_entries ?r) = length (lr_entries r)"
      by (simp_all add: lr_put_def)
    then show ?thesis using inv size tail head len old new tx by (auto simp: lr_inv_def less_Suc_eq)
  qed
  ultimately show ?thesis using size by (simp add: lr_put_def)
qed

lemma lr_take_spec:
  assumes inv: "lr_inv r" and ne: "lr_len r = Suc m"
  shows "lr_inv (lr_take r) \<and> lr_queue r = (lr_entries r ! unat (lr_tail r)) # lr_queue (lr_take r) \<and>
    lr_size (lr_take r) = lr_size r \<and> lr_dropped (lr_take r) = lr_dropped r \<and> lr_len (lr_take r) = m"
proof -
  let ?r = "lr_take r"
  have size: "lr_size ?r = lr_size r" and head: "lr_head ?r = lr_head r"
    by (simp_all add: lr_take_def lr_size_def)
  have tail: "unat (lr_tail ?r) = Suc (unat (lr_tail r)) mod lr_size r"
    using lr_next [OF inv] by (simp add: lr_take_def)
  have shift: "(unat (lr_tail ?r) + i) mod lr_size r = (unat (lr_tail r) + Suc i) mod lr_size r" for i
    by (simp add: tail mod_add_left_eq)
  have first: "lr_slot r 0 = lr_entries r ! unat (lr_tail r)"
    using inv by (simp add: lr_slot_def lr_inv_def)
  have rest: "lr_slot ?r i = lr_slot r (Suc i)" if "i < m" for i
  proof -
    have "(unat (lr_tail r) + Suc i) mod lr_size r \<noteq> (unat (lr_tail r) + 0) mod lr_size r"
      using that ne lr_len_less [of r] by (subst mod_add_inj) auto
    then have "(unat (lr_tail r) + Suc i) mod lr_size r \<noteq> unat (lr_tail r)"
      using inv by (simp add: lr_inv_def)
    then show ?thesis using shift [of i] size by (simp add: lr_slot_def) (simp add: lr_take_def)
  qed
  have len: "lr_len ?r = m"
  proof -
    have "unat (lr_tail ?r) < lr_size r" by (simp add: tail)
    then have "(unat (lr_tail ?r) + lr_len ?r) mod lr_size r = unat (lr_head r)"
      using inv head size unfolding lr_len_def by (simp add: mod_add_right_eq lr_inv_def)
    then have "(unat (lr_tail r) + Suc (lr_len ?r)) mod lr_size r = (unat (lr_tail r) + Suc m) mod lr_size r"
      using shift lr_head_eq [OF inv] ne by simp
    then have "(Suc (unat (lr_tail r)) + lr_len ?r) mod lr_size r = (Suc (unat (lr_tail r)) + m) mod lr_size r"
      by simp
    then show ?thesis using lr_len_less [of ?r] size ne lr_len_less [of r]
      by (subst (asm) mod_add_inj) auto
  qed
  have "lr_queue r = lr_entries r ! unat (lr_tail r) # lr_queue ?r"
    unfolding lr_queue_def using ne len first rest
    by (simp add: upt_conv_Cons map_Suc_upt [symmetric] del: upt_Suc)
  moreover have "lr_inv ?r"
    using inv size head tail len rest ne unfolding lr_inv_def
    by (auto simp: lr_take_def lr_size_def)
  ultimately show ?thesis using size len by (simp add: lr_take_def)
qed


subsection \<open>Push and drain\<close>

lemma push_spec:
  assumes inv: "lr_inv r"
  shows "retrace_log_ring_push True (Some r) m s ts (Some tx) =
    (if Suc (lr_len r) = lr_size r then (-1, Some (r\<lparr>lr_dropped := lr_dropped r + 1\<rparr>))
     else (0, Some (lr_put \<lparr>ts_ms = ts, module = m, sev = s, reserved = 0, le_text = Some tx\<rparr> r)))"
  by (simp add: retrace_log_ring_push_def Let_def lr_full_iff [OF inv] lr_put_def)

lemma lr_dropped_irrelevant [simp]:
  "lr_inv (r\<lparr>lr_dropped := d\<rparr>) = lr_inv r" "lr_queue (r\<lparr>lr_dropped := d\<rparr>) = lr_queue r"
  "lr_size (r\<lparr>lr_dropped := d\<rparr>) = lr_size r"
proof -
  have size: "lr_size (r\<lparr>lr_dropped := d\<rparr>) = lr_size r" by (simp add: lr_size_def)
  have slot: "lr_slot (r\<lparr>lr_dropped := d\<rparr>) = lr_slot r" by (rule ext) (simp add: lr_slot_def lr_size_def)
  have len: "lr_len (r\<lparr>lr_dropped := d\<rparr>) = lr_len r" by (simp add: lr_len_def lr_size_def)
  show "lr_inv (r\<lparr>lr_dropped := d\<rparr>) = lr_inv r" by (simp add: lr_inv_def size slot len)
  show "lr_queue (r\<lparr>lr_dropped := d\<rparr>) = lr_queue r" by (simp add: lr_queue_def slot len)
  show "lr_size (r\<lparr>lr_dropped := d\<rparr>) = lr_size r" by (rule size)
qed

text \<open>
  What a drain means for the queue: the callback is given the entries in order
  until it returns non-zero; the number consumed and the final context.
\<close>

fun deliver :: "(log_entry \<Rightarrow> 'c \<Rightarrow> int \<times> 'c) \<Rightarrow> log_entry list \<Rightarrow> 'c \<Rightarrow> nat \<times> 'c" where
  "deliver cb [] ctx = (0, ctx)"
| "deliver cb (e # es) ctx =
     (case cb e ctx of (rc, ctx') \<Rightarrow>
        if rc \<noteq> 0 then (0, ctx')
        else (case deliver cb es ctx' of (n, ctx'') \<Rightarrow> (Suc n, ctx'')))"

lemma drain_loop_deliver:
  assumes "lr_inv r" "deliver cb (lr_queue r) ctx = (n, ctx')"
  shows "\<exists>r'. drain_loop cb (lr_mask r) (lr_head r) (lr_entries r) (lr_tail r) k ctx =
      Some (lr_entries r', lr_tail r', k + n, ctx') \<and>
    r' = r\<lparr>lr_entries := lr_entries r', lr_tail := lr_tail r'\<rparr> \<and>
    lr_inv r' \<and> lr_queue r' = drop n (lr_queue r)"
  using assms
proof (induction "lr_len r" arbitrary: r k n ctx)
  case 0
  then have "lr_tail r = lr_head r" "lr_queue r = []" using lr_empty_iff by (auto simp: lr_queue_def)
  then show ?case using 0 by (intro exI [of _ r]) (simp add: drain_loop.simps)
next
  case (Suc m)
  let ?e = "lr_entries r ! unat (lr_tail r)"
  note take = lr_take_spec [OF Suc.prems(1) Suc.hyps(2) [symmetric]]
  have ne: "lr_tail r \<noteq> lr_head r" using lr_empty_iff [OF Suc.prems(1)] Suc.hyps(2) by auto
  obtain rc c1 where cb: "cb ?e ctx = (rc, c1)" by (cases "cb ?e ctx")
  show ?case
  proof (cases "rc = 0")
    case False
    then have "n = 0" "ctx' = c1" using Suc.prems(2) take cb by auto
    then show ?thesis using Suc.prems(1) ne cb False
      by (intro exI [of _ r]) (simp add: drain_loop.simps)
  next
    case True
    obtain n1 where d: "deliver cb (lr_queue (lr_take r)) c1 = (n1, ctx')" "n = Suc n1"
      using Suc.prems(2) take cb True by (auto split: prod.splits)
    obtain r' where r': "drain_loop cb (lr_mask (lr_take r)) (lr_head (lr_take r))
          (lr_entries (lr_take r)) (lr_tail (lr_take r)) (k + 1) c1 =
        Some (lr_entries r', lr_tail r', k + 1 + n1, ctx')"
      "r' = (lr_take r)\<lparr>lr_entries := lr_entries r', lr_tail := lr_tail r'\<rparr>"
      "lr_inv r'" "lr_queue r' = drop n1 (lr_queue (lr_take r))"
      using Suc.hyps(1) [of "lr_take r" c1 n1 "k + 1"] take d(1) by auto
    have "drain_loop cb (lr_mask r) (lr_head r) (lr_entries r) (lr_tail r) k ctx =
        Some (lr_entries r', lr_tail r', k + n, ctx')"
      using r'(1) ne cb True d(2) by (subst drain_loop.simps) (simp add: lr_take_def)
    moreover have "r' = r\<lparr>lr_entries := lr_entries r', lr_tail := lr_tail r'\<rparr>"
      using r'(2) by (simp add: lr_take_def)
    ultimately show ?thesis using r'(3,4) take d(2) by (intro exI [of _ r']) simp
  qed
qed

lemma drain_deliver:
  assumes "lr_inv r" "deliver cb (lr_queue r) ctx = (n, ctx')"
  shows "\<exists>r'. retrace_log_ring_drain (Some r) (Some cb) ctx = Some (n, ctx', Some r') \<and>
    lr_inv r' \<and> lr_queue r' = drop n (lr_queue r) \<and>
    lr_dropped r' = lr_dropped r \<and> lr_size r' = lr_size r"
proof -
  obtain r' where "drain_loop cb (lr_mask r) (lr_head r) (lr_entries r) (lr_tail r) 0 ctx =
      Some (lr_entries r', lr_tail r', n, ctx')"
    and r': "r' = r\<lparr>lr_entries := lr_entries r', lr_tail := lr_tail r'\<rparr>"
    and "lr_inv r'" "lr_queue r' = drop n (lr_queue r)"
    using drain_loop_deliver [OF assms, of 0] by auto
  moreover have "lr_dropped r' = lr_dropped r" "lr_size r' = lr_size r"
    by (subst r', simp add: lr_size_def)+
  ultimately show ?thesis
    by (intro exI [of _ r']) (simp add: retrace_log_ring_drain_def flip: r')
qed


subsection \<open>The ring as a bounded queue\<close>

text \<open>
  The queue operations the contract speaks of: a push whose text copy is granted,
  and a drain whose callback keeps the first entry and stops at the second.
\<close>

definition log_push :: "log_item \<Rightarrow> log_ring \<Rightarrow> bool \<times> log_ring" where
  "log_push x r = (case x of (m, s, ts, tx) \<Rightarrow>
     case retrace_log_ring_push True (Some r) m s ts (Some tx) of (rc, r') \<Rightarrow> (rc = 0, the r'))"

definition take_one :: "log_entry \<Rightarrow> log_item option \<Rightarrow> int \<times> log_item option" where
  "take_one e got = (if got = None then (0, Some (entry_item e)) else (1, got))"

definition log_pop :: "log_ring \<Rightarrow> log_item option \<times> log_ring" where
  "log_pop r = (case retrace_log_ring_drain (Some r) (Some take_one) None of
     Some (_, got, Some r') \<Rightarrow> (got, r') | _ \<Rightarrow> (None, r))"

lemma log_push_spec:
  assumes inv: "lr_inv r" and p: "log_push x r = (ok, r')"
  shows "lr_inv r' \<and> lr_size r' = lr_size r \<and> lr_items r' = (if ok then lr_items r @ [x] else lr_items r) \<and>
    lr_dropped r' = (if ok then lr_dropped r else lr_dropped r + 1) \<and>
    (ok \<longleftrightarrow> Suc (lr_len r) < lr_size r)"
proof -
  obtain m s ts tx where x: "x = (m, s, ts, tx)" by (cases x)
  let ?e = "\<lparr>ts_ms = ts, module = m, sev = s, reserved = 0, le_text = Some tx\<rparr>"
  show ?thesis
  proof (cases "Suc (lr_len r) = lr_size r")
    case True
    then have "ok = False" "r' = r\<lparr>lr_dropped := lr_dropped r + 1\<rparr>"
      using p push_spec [OF inv] by (simp_all add: log_push_def x)
    then show ?thesis using inv True by (simp add: lr_items_queue)
  next
    case False
    then have room: "Suc (lr_len r) < lr_size r" using lr_len_less [of r] by simp
    have "ok" "r' = lr_put ?e r"
      using p push_spec [OF inv] False by (simp_all add: log_push_def x)
    then show ?thesis using lr_put_spec [OF inv room, of ?e] room x
      by (simp add: lr_items_queue entry_item_def)
  qed
qed

lemma deliver_take_one_Some: "deliver take_one es (Some x) = (0, Some x)"
  by (cases es) (simp_all add: take_one_def)

lemma deliver_take_one:
  "deliver take_one es None = (case es of [] \<Rightarrow> (0, None) | e # _ \<Rightarrow> (1, Some (entry_item e)))"
  by (cases es) (simp_all add: take_one_def deliver_take_one_Some)

lemma log_pop_spec:
  assumes inv: "lr_inv r" and p: "log_pop r = (v, r')"
  shows "lr_inv r' \<and> lr_size r' = lr_size r \<and> lr_dropped r' = lr_dropped r \<and>
    (case lr_items r of [] \<Rightarrow> v = None \<and> lr_items r' = [] | x # xs \<Rightarrow> v = Some x \<and> lr_items r' = xs)"
proof -
  obtain n got where d: "deliver take_one (lr_queue r) None = (n, got)" by (cases "deliver take_one (lr_queue r) None")
  obtain r1 where r1: "retrace_log_ring_drain (Some r) (Some take_one) None = Some (n, got, Some r1)"
      "lr_inv r1" "lr_queue r1 = drop n (lr_queue r)" "lr_dropped r1 = lr_dropped r" "lr_size r1 = lr_size r"
    using drain_deliver [OF inv d] by blast
  then have "v = got" "r' = r1" using p by (simp_all add: log_pop_def)
  then show ?thesis using r1 d deliver_take_one [of "lr_queue r"]
    by (cases "lr_queue r") (simp_all add: lr_items_queue)
qed

interpretation lr: bounded_fifo lr_inv lr_items "\<lambda>r. lr_size r - 1" lr_dropped log_push log_pop
proof (unfold_locales, goal_cases)
  case (1 q)
  then show ?case using lr_len_less [of q] by (simp add: lr_items_queue)
next
  case (2 q x ok q')
  then show ?case using log_push_spec [OF 2] by simp
next
  case (3 q x ok q')
  then show ?case using log_push_spec [OF 3] by blast
next
  case (4 q x ok q')
  then show ?case using log_push_spec [OF 4(1,2)] by (simp add: lr_items_queue)
next
  case (5 q v q')
  then show ?case using log_pop_spec [OF 5] by simp
next
  case (6 q v q')
  then show ?case using log_pop_spec [OF 6] by blast
qed


lemma nat_power_of_two:
  fixes n :: nat
  shows "0 < n \<Longrightarrow> n AND (n - 1) = 0 \<Longrightarrow> \<exists>k. n = 2 ^ k"
proof (induction n rule: less_induct)
  case (less n)
  show ?case
  proof (cases "even n")
    case True
    then obtain m where m: "n = 2 * m" "0 < m" using less.prems(1) by (auto elim: evenE)
    then have "n - 1 = 1 + 2 * (m - 1)" by simp
    then have "2 * (m AND (m - 1)) = 0" using less.prems(2) m(1) and_nat_rec [of n "n - 1"] by simp
    then obtain k where "m = 2 ^ k" using less.IH [of m] m by auto
    then have "n = 2 ^ Suc k" using m(1) by simp
    then show ?thesis ..
  next
    case False
    then obtain m where m: "n = 1 + 2 * m" by (metis oddE add.commute)
    then have "2 * (m AND m) = 0" using less.prems(2) and_nat_rec [of n "n - 1"] by simp
    then have "n = 2 ^ 0" using m by simp
    then show ?thesis ..
  qed
qed

lemma mask_of_power_of_two:
  fixes c :: "32 word"
  assumes "c \<noteq> 0" "c AND (c - 1) = 0"
  shows "\<exists>k<32. c - 1 = mask k"
proof -
  have "unat c AND (unat c - 1) = 0"
    using arg_cong [OF assms(2), of unat] assms(1) by (simp add: unsigned_and_eq unat_minus_one)
  then obtain k where k: "unat c = 2 ^ k" using nat_power_of_two [of "unat c"] assms(1) by (auto simp: unat_gt_0)
  moreover have "k < 32"
  proof (rule ccontr)
    assume "\<not> k < 32"
    then have "(2::nat) ^ 32 \<le> 2 ^ k" by (intro power_increasing) auto
    moreover have "unat c < 2 ^ LENGTH(32)" by (rule unsigned_less)
    ultimately show False using k by simp
  qed
  moreover have "c = of_nat (2 ^ k)" using k by (metis of_nat_unat ucast_id)
  then have "c - 1 = mask k" by (simp add: mask_eq_exp_minus_1)
  ultimately show ?thesis by blast
qed

lemma ring_alloc_inv:
  assumes "ring_alloc a b fresh c = Some r" "\<And>n. length (fresh n) = n"
  shows "lr_inv r \<and> lr_queue r = [] \<and> lr_size r = unat c \<and> lr_dropped r = 0"
proof -
  have r: "r = \<lparr>lr_mask = c - 1, lr_dropped = 0, lr_head = 0, lr_tail = 0, lr_entries = fresh (unat c)\<rparr>"
    and c: "c \<noteq> 0" "c AND (c - 1) = 0" using assms(1) by (auto simp: ring_alloc_def split: if_splits)
  have size: "lr_size r = unat c" using c(1) by (simp add: r lr_size_def unat_minus_one unat_gt_0)
  then have "lr_len r = 0" by (simp add: lr_len_def r)
  then show ?thesis using size mask_of_power_of_two [OF c] c(1) assms(2)
    by (simp add: lr_inv_def lr_queue_def) (simp add: r unat_gt_0)
qed


lemma power_of_two_between:
  fixes k :: nat
  assumes "64 \<le> (2::nat) ^ k" "(2::nat) ^ k \<le> 65536"
  shows "6 \<le> k \<and> k \<le> 16"
proof -
  have "(2::nat) ^ 6 \<le> 2 ^ k" "(2::nat) ^ k \<le> 2 ^ 16" using assms by simp_all
  then show ?thesis by (metis one_less_numeral_iff power_le_imp_le_exp semiring_norm(76))
qed

text \<open>
  C30. Whatever \<open>RETRACE_LOGGER_RING_CAP\<close> holds, the configured capacity is a power
  of two between 64 and 65536, so the allocation of a ring never refuses it.
\<close>

theorem ring_configured_cap_valid:
  "\<exists>k. 6 \<le> k \<and> k \<le> 16 \<and> ring_configured_cap env atoi = 2 ^ k"
proof -
  have default: "\<exists>k. 6 \<le> k \<and> k \<le> 16 \<and> of_nat LOG_RING_DEFAULT_CAP = (2 ^ k :: 32 word)"
    by (intro exI [of _ 10]) (simp add: LOG_RING_DEFAULT_CAP_def)
  have "\<exists>k. 6 \<le> k \<and> k \<le> 16 \<and> (word_of_int v :: 32 word) = 2 ^ k"
    if v: "64 \<le> v" "v \<le> 65536" "(word_of_int v :: 64 word) AND (word_of_int v - 1) = 0" for v
  proof -
    have u: "unat (word_of_int v :: 64 word) = nat v" using v(1,2)
      by (simp add: unat_eq_nat_uint uint_word_of_int)
    have "unat (word_of_int v - 1 :: 64 word) = nat v - 1"
      by (metis u unat_minus_one v(1) unat_0 zero_less_nat_eq less_numeral_extra(3) order_less_le_trans zero_less_numeral)
    then have "nat v AND (nat v - 1) = 0"
      using arg_cong [OF v(3), of unat] u by (simp add: unsigned_and_eq)
    then obtain k where k: "nat v = 2 ^ k" using nat_power_of_two [of "nat v"] v(1) by auto
    then have "6 \<le> k \<and> k \<le> 16" using v(1,2) by (intro power_of_two_between) (simp_all flip: k)
    moreover have "(word_of_int v :: 32 word) = 2 ^ k"
      using k v(1) by (metis nat_0_le of_int_power of_int_numeral of_nat_numeral of_nat_power order_trans zero_le_numeral)
    ultimately show ?thesis by blast
  qed
  then show ?thesis using default
    by (auto simp: ring_configured_cap_def Let_def LOG_RING_CAP_MIN_def LOG_RING_CAP_MAX_def split: option.split)
qed

text \<open>
  A run on the ring itself.  Each push comes with whether the copy of its text is granted;
  the run gives the entries accepted, the entries drained, the number of pushes that found
  the ring full, the number whose copy failed, and the ring.
\<close>

fun log_run :: "log_ring \<Rightarrow> (bool \<times> log_item) qop list \<Rightarrow> log_item list \<times> log_item list \<times> nat \<times> nat \<times> log_ring" where
  "log_run r [] = ([], [], 0, 0, r)"
| "log_run r (Push (copy_ok, m, s, ts, tx) # ops) =
     (case retrace_log_ring_push copy_ok (Some r) m s ts (Some tx) of (rc, r') \<Rightarrow>
        (case log_run (the r') ops of (acc, out, full, failed, q) \<Rightarrow>
           if rc = 0 then ((m, s, ts, tx) # acc, out, full, failed, q)
           else if copy_ok then (acc, out, Suc full, failed, q)
           else (acc, out, full, Suc failed, q)))"
| "log_run r (Pop # ops) =
     (case log_pop r of (v, r') \<Rightarrow>
        (case log_run r' ops of (acc, out, full, failed, q) \<Rightarrow>
           case v of None \<Rightarrow> (acc, out, full, failed, q) | Some x \<Rightarrow> (acc, x # out, full, failed, q)))"

text \<open>The operations left when the pushes without a copy are struck out, and their number.\<close>

fun granted :: "(bool \<times> log_item) qop list \<Rightarrow> log_item qop list" where
  "granted [] = []"
| "granted (Push (copy_ok, x) # ops) = (if copy_ok then Push x # granted ops else granted ops)"
| "granted (Pop # ops) = Pop # granted ops"

definition refused_copies :: "(bool \<times> log_item) qop list \<Rightarrow> nat" where
  "refused_copies ops = length (filter (\<lambda>op. case op of Push (copy_ok, _) \<Rightarrow> \<not> copy_ok | Pop \<Rightarrow> False) ops)"

lemma log_run_granted:
  "log_run r ops = (case q_run log_push log_pop r (granted ops) of (acc, out, lost, q) \<Rightarrow> (acc, out, lost, refused_copies ops, q))"
  by (induction r ops rule: log_run.induct)
    (auto simp: log_push_def refused_copies_def retrace_log_ring_push_def Let_def split: prod.splits option.splits)



text \<open>
  C29. A drain of a well-formed ring returns, whatever its callback does: the callback
  has been given the queued entries in order up to the one it stopped at, exactly the
  ones it accepted have left the queue, and the drop counter is untouched.  When the callback
  accepted all, the value returned is their number.  (\<open>drain_deliver\<close> has it in general; where
  the callback stopped early, \<open>log_ring.h\<close> says otherwise.)
\<close>

theorem log_ring_drain_total:
  assumes "lr_inv r" "deliver cb (lr_queue r) ctx = (n, ctx')"
  shows "\<exists>count r'. retrace_log_ring_drain (Some r) (Some cb) ctx = Some (count, ctx', Some r') \<and>
    (n = length (lr_queue r) \<longrightarrow> count = n) \<and>
    lr_inv r' \<and> lr_queue r' = drop n (lr_queue r) \<and>
    lr_dropped r' = lr_dropped r \<and> lr_size r' = lr_size r"
  using drain_deliver [OF assms] by blast

theorem log_ring_drain_total_witness:
  "\<exists>r'. retrace_log_ring_drain
      (Some \<lparr>lr_mask = 1, lr_dropped = 0, lr_head = 1, lr_tail = 0,
        lr_entries = [\<lparr>ts_ms = 7, module = 1, sev = 2, reserved = 0, le_text = Some ''hi''\<rparr>,
                      \<lparr>ts_ms = 0, module = 0, sev = 0, reserved = 0, le_text = None\<rparr>]\<rparr>)
      (Some (\<lambda>e seen. (0, seen @ [le_text e]))) [] = Some (1, [Some ''hi''], Some r') \<and> lr_queue r' = []"
proof -
  let ?e = "\<lparr>ts_ms = 7, module = 1, sev = 2, reserved = 0, le_text = Some ''hi''\<rparr>"
  let ?r = "\<lparr>lr_mask = 1, lr_dropped = 0, lr_head = 1, lr_tail = 0,
        lr_entries = [?e, \<lparr>ts_ms = 0, module = 0, sev = 0, reserved = 0, le_text = None\<rparr>]\<rparr> :: log_ring"
  have len: "lr_len ?r = 1" by (simp add: lr_len_def lr_size_def mod_Suc)
  have slot: "lr_slot ?r 0 = ?e" by (simp add: lr_slot_def)
  have "lr_inv ?r" unfolding lr_inv_def len using slot
    by (auto simp: lr_size_def intro: exI [of _ 1])
  moreover have q: "lr_queue ?r = [?e]" using slot by (simp add: lr_queue_def len)
  moreover have "deliver (\<lambda>e seen. (0, seen @ [le_text e])) (lr_queue ?r) [] = (1, [Some ''hi''])"
    by (simp add: q)
  ultimately show ?thesis using log_ring_drain_total [of ?r "\<lambda>e seen. (0, seen @ [le_text e])" "[]" 1 "[Some ''hi'']"]
    by fastforce
qed

end
