(* ===== verification/Log_Spsc.thy ===== *)
theory Log_Spsc
  imports Log_Ring
begin

section \<open>The logger ring shared by two threads (\<open>src/src/core/log_ring.c\<close>)\<close>

text \<open>
  \<open>retrace_log_ring_push\<close> runs in the owning thread while
  \<open>retrace_log_ring_drain\<close> runs in the flusher.  Here each is cut at its accesses
  to the shared head, tail and slots, and the two are interleaved in every order.  The
  release store of the head follows the slot's stores and the acquire load of the
  tail precedes them, so the interleavings of these steps are the ones the C11 orders
  allow for the locations involved.

  A producer that has loaded \<open>t\<close> may find it stale when it stores; a consumer
  drains up to the head it loaded.  Two history variables record the entries
  published and the entries the callback accepted.
\<close>

datatype producer =
  P_Idle
| P_Loaded log_entry "32 word" "32 word"
| P_Stored log_entry "32 word"

datatype consumer =
  C_Idle
| C_Drain "32 word" "32 word"

record spsc =
  sp_ring :: log_ring
  sp_prod :: producer
  sp_cons :: consumer
  sp_pushed :: "log_entry list"
  sp_delivered :: "log_entry list"

inductive spsc_step :: "spsc \<Rightarrow> spsc \<Rightarrow> bool" where
  load: "sp_prod s = P_Idle \<Longrightarrow> le_text e \<noteq> None \<Longrightarrow>
    spsc_step s (s\<lparr>sp_prod := P_Loaded e (lr_head (sp_ring s)) (lr_tail (sp_ring s))\<rparr>)"
| full: "sp_prod s = P_Loaded e h t \<Longrightarrow> (h + 1) AND lr_mask (sp_ring s) = t \<Longrightarrow>
    spsc_step s (s\<lparr>sp_prod := P_Idle,
      sp_ring := (sp_ring s)\<lparr>lr_dropped := lr_dropped (sp_ring s) + 1\<rparr>\<rparr>)"
| store: "sp_prod s = P_Loaded e h t \<Longrightarrow> (h + 1) AND lr_mask (sp_ring s) \<noteq> t \<Longrightarrow>
    spsc_step s (s\<lparr>sp_prod := P_Stored e ((h + 1) AND lr_mask (sp_ring s)),
      sp_ring := (sp_ring s)\<lparr>lr_entries := (lr_entries (sp_ring s))[unat h := e]\<rparr>\<rparr>)"
| publish: "sp_prod s = P_Stored e nx \<Longrightarrow>
    spsc_step s (s\<lparr>sp_prod := P_Idle, sp_ring := (sp_ring s)\<lparr>lr_head := nx\<rparr>,
      sp_pushed := sp_pushed s @ [e]\<rparr>)"
| start: "sp_cons s = C_Idle \<Longrightarrow>
    spsc_step s (s\<lparr>sp_cons := C_Drain (lr_tail (sp_ring s)) (lr_head (sp_ring s))\<rparr>)"
| accept: "sp_cons s = C_Drain t h \<Longrightarrow> t \<noteq> h \<Longrightarrow> e = lr_entries (sp_ring s) ! unat t \<Longrightarrow>
    spsc_step s (s\<lparr>sp_cons := C_Drain ((t + 1) AND lr_mask (sp_ring s)) h,
      sp_ring := (sp_ring s)\<lparr>lr_entries := (lr_entries (sp_ring s))[unat t := e\<lparr>le_text := None\<rparr>]\<rparr>,
      sp_delivered := sp_delivered s @ [e]\<rparr>)"
| stop: "sp_cons s = C_Drain t h \<Longrightarrow>
    spsc_step s (s\<lparr>sp_cons := C_Idle, sp_ring := (sp_ring s)\<lparr>lr_tail := t\<rparr>\<rparr>)"

inductive spsc_reach :: "spsc \<Rightarrow> spsc \<Rightarrow> bool" for s0 where
  here: "spsc_reach s0 s0"
| further: "spsc_reach s0 s \<Longrightarrow> spsc_step s s' \<Longrightarrow> spsc_reach s0 s'"

inductive_simps spsc_step_simps: "spsc_step s s'"

definition spsc_init :: "log_ring \<Rightarrow> spsc" where
  "spsc_init r = \<lparr>sp_ring = r, sp_prod = P_Idle, sp_cons = C_Idle, sp_pushed = [], sp_delivered = []\<rparr>"

subsection \<open>The invariant\<close>

text \<open>
  Indices are counts modulo the size: \<open>length (sp_pushed s)\<close> for the head,
  \<open>length (sp_delivered s)\<close> for the consumer's position, \<open>T\<close> for the published
  tail, \<open>U\<close> for the tail the producer loaded, \<open>V\<close> for the head the consumer loaded.
\<close>

definition prod_ok :: "nat \<Rightarrow> nat \<Rightarrow> spsc \<Rightarrow> bool" where
  "prod_ok T U s \<longleftrightarrow> (case sp_prod s of
     P_Idle \<Rightarrow> True
   | P_Loaded e h t \<Rightarrow> h = lr_head (sp_ring s) \<and> unat t = U mod lr_size (sp_ring s) \<and> U \<le> T \<and>
       length (sp_pushed s) < U + lr_size (sp_ring s) \<and> le_text e \<noteq> None
   | P_Stored e nx \<Rightarrow> unat nx = Suc (length (sp_pushed s)) mod lr_size (sp_ring s) \<and>
       Suc (length (sp_pushed s)) < T + lr_size (sp_ring s) \<and> le_text e \<noteq> None \<and>
       lr_entries (sp_ring s) ! (length (sp_pushed s) mod lr_size (sp_ring s)) = e)"

definition cons_ok :: "nat \<Rightarrow> nat \<Rightarrow> spsc \<Rightarrow> bool" where
  "cons_ok T V s \<longleftrightarrow> (case sp_cons s of
     C_Idle \<Rightarrow> T = length (sp_delivered s)
   | C_Drain t h \<Rightarrow> unat t = length (sp_delivered s) mod lr_size (sp_ring s) \<and>
       unat h = V mod lr_size (sp_ring s) \<and>
       length (sp_delivered s) \<le> V \<and> V \<le> length (sp_pushed s))"

definition ring_ok :: "nat \<Rightarrow> spsc \<Rightarrow> bool" where
  "ring_ok T s \<longleftrightarrow>
     (let r = sp_ring s; n = length (sp_pushed s); c = length (sp_delivered s) in
      (\<exists>k<32. lr_mask r = mask k) \<and> length (lr_entries r) = lr_size r \<and>
      unat (lr_head r) = n mod lr_size r \<and> unat (lr_tail r) = T mod lr_size r \<and>
      T \<le> c \<and> c \<le> n \<and> n < T + lr_size r \<and>
      (\<forall>i. c \<le> i \<and> i < n \<longrightarrow> lr_entries r ! (i mod lr_size r) = sp_pushed s ! i) \<and>
      sp_delivered s = take c (sp_pushed s) \<and> (\<forall>e\<in>set (sp_pushed s). le_text e \<noteq> None))"

definition spsc_inv :: "spsc \<Rightarrow> bool" where
  "spsc_inv s \<longleftrightarrow> (\<exists>T U V. ring_ok T s \<and> prod_ok T U s \<and> cons_ok T V s)"

lemma mod_eq_close:
  fixes i j n :: nat
  assumes "i mod n = j mod n" "i \<le> j" "j < i + n"
  shows "i = j"
proof -
  have "(i + 0) mod n = (i + (j - i)) mod n" using assms by simp
  moreover have "0 < n" "j - i < n" using assms by auto
  ultimately show ?thesis using assms(2) by (subst (asm) mod_add_inj) auto
qed

lemma lr_size_upd [simp]:
  "lr_size (r\<lparr>lr_dropped := d\<rparr>) = lr_size r" "lr_size (r\<lparr>lr_entries := es\<rparr>) = lr_size r"
  "lr_size (r\<lparr>lr_head := h\<rparr>) = lr_size r" "lr_size (r\<lparr>lr_tail := t\<rparr>) = lr_size r"
  by (simp_all add: lr_size_def)

lemma producer_step_inv:
  assumes ring: "ring_ok T s" and p: "prod_ok T U s" and c: "cons_ok T V s"
    and st: "sp_prod s = P_Loaded e h t" "(h + 1) AND lr_mask (sp_ring s) \<noteq> t"
  shows "Suc (length (sp_pushed s)) < T + lr_size (sp_ring s)"
proof (rule ccontr)
  let ?n = "lr_size (sp_ring s)" and ?H = "length (sp_pushed s)"
  assume "\<not> Suc ?H < T + ?n"
  moreover have u: "U \<le> T" "?H < U + ?n" "h = lr_head (sp_ring s)" "unat t = U mod ?n"
    using p st(1) by (auto simp: prod_ok_def)
  moreover have r: "\<exists>k<32. lr_mask (sp_ring s) = mask k" "unat (lr_head (sp_ring s)) = ?H mod ?n"
    using ring by (auto simp: ring_ok_def Let_def)
  ultimately have "Suc ?H = U + ?n" by auto
  then have "unat ((h + 1) AND lr_mask (sp_ring s)) = unat t"
    using next_index [OF r(1)] r(2) u(3,4) by (simp add: mod_Suc_eq)
  then show False using st(2) by (simp add: word_unat_eq_iff)
qed


text \<open>Each step keeps the invariant.\<close>

lemma store_inv:
  assumes ring: "ring_ok T s" and p: "prod_ok T U s" and c: "cons_ok T V s"
    and st: "sp_prod s = P_Loaded e h t" "(h + 1) AND lr_mask (sp_ring s) \<noteq> t"
  shows "spsc_inv (s\<lparr>sp_prod := P_Stored e ((h + 1) AND lr_mask (sp_ring s)),
      sp_ring := (sp_ring s)\<lparr>lr_entries := (lr_entries (sp_ring s))[unat h := e]\<rparr>\<rparr>)"
    (is "spsc_inv ?s")
proof -
  let ?n = "lr_size (sp_ring s)" and ?H = "length (sp_pushed s)"
  note room = producer_step_inv [OF assms]
  have h: "unat h = ?H mod ?n" "le_text e \<noteq> None" and r: "\<exists>k<32. lr_mask (sp_ring s) = mask k"
    and len: "length (lr_entries (sp_ring s)) = ?n"
    and bounds: "T \<le> length (sp_delivered s)" "?H < T + ?n"
    using ring p st(1) by (auto simp: ring_ok_def prod_ok_def Let_def)
  have "(lr_entries (sp_ring s))[?H mod ?n := e] ! (i mod ?n) = lr_entries (sp_ring s) ! (i mod ?n)"
    if "length (sp_delivered s) \<le> i" "i < ?H" for i
    using mod_eq_close [of i ?n ?H] that bounds by (intro nth_list_update_neq) auto
  then have "ring_ok T ?s"
    using ring h(1) by (auto simp: ring_ok_def Let_def)
  moreover have "prod_ok T U ?s"
    using next_index [OF r, of h] h room len by (simp add: prod_ok_def mod_Suc_eq)
  moreover have "cons_ok T V ?s"
    using c by (simp add: cons_ok_def split: consumer.splits)
  ultimately show ?thesis unfolding spsc_inv_def by blast
qed

lemma publish_inv:
  assumes ring: "ring_ok T s" and p: "prod_ok T U s" and c: "cons_ok T V s"
    and st: "sp_prod s = P_Stored e nx"
  shows "spsc_inv (s\<lparr>sp_prod := P_Idle, sp_ring := (sp_ring s)\<lparr>lr_head := nx\<rparr>,
      sp_pushed := sp_pushed s @ [e]\<rparr>)" (is "spsc_inv ?s")
proof -
  have "ring_ok T ?s"
    using ring p st by (auto simp: ring_ok_def prod_ok_def Let_def nth_append less_Suc_eq)
  moreover have "prod_ok T U ?s" by (simp add: prod_ok_def)
  moreover have "cons_ok T V ?s"
    using c by (auto simp: cons_ok_def split: consumer.splits)
  ultimately show ?thesis unfolding spsc_inv_def by blast
qed

lemma draining:
  assumes ring: "ring_ok T s" and c: "cons_ok T V s" and st: "sp_cons s = C_Drain t h" "t \<noteq> h"
  shows "unat t = length (sp_delivered s) mod lr_size (sp_ring s)"
    "length (sp_delivered s) < V" "V \<le> length (sp_pushed s)"
    "lr_entries (sp_ring s) ! unat t = sp_pushed s ! length (sp_delivered s)"
proof -
  have u: "unat t = length (sp_delivered s) mod lr_size (sp_ring s)" "unat h = V mod lr_size (sp_ring s)"
      "length (sp_delivered s) \<le> V" "V \<le> length (sp_pushed s)"
    using c st(1) by (auto simp: cons_ok_def)
  have "length (sp_delivered s) \<noteq> V" using u st(2) by (auto simp: word_unat_eq_iff)
  with u show "unat t = length (sp_delivered s) mod lr_size (sp_ring s)"
    and lt: "length (sp_delivered s) < V" and "V \<le> length (sp_pushed s)" by auto
  show "lr_entries (sp_ring s) ! unat t = sp_pushed s ! length (sp_delivered s)"
    using ring lt u(1,4) by (auto simp: ring_ok_def Let_def)
qed

lemma accept_inv:
  assumes ring: "ring_ok T s" and p: "prod_ok T U s" and c: "cons_ok T V s"
    and st: "sp_cons s = C_Drain t h" "t \<noteq> h" and e: "e = lr_entries (sp_ring s) ! unat t"
  shows "spsc_inv (s\<lparr>sp_cons := C_Drain ((t + 1) AND lr_mask (sp_ring s)) h,
      sp_ring := (sp_ring s)\<lparr>lr_entries := (lr_entries (sp_ring s))[unat t := e\<lparr>le_text := None\<rparr>]\<rparr>,
      sp_delivered := sp_delivered s @ [e]\<rparr>)" (is "spsc_inv ?s")
proof -
  let ?n = "lr_size (sp_ring s)" and ?H = "length (sp_pushed s)" and ?C = "length (sp_delivered s)"
  note d = draining [OF ring c st]
  have r: "\<exists>k<32. lr_mask (sp_ring s) = mask k" and bounds: "T \<le> ?C" "?H < T + ?n"
    and del: "sp_delivered s = take ?C (sp_pushed s)"
    using ring by (auto simp: ring_ok_def Let_def)
  have other: "(lr_entries (sp_ring s))[?C mod ?n := x] ! (i mod ?n) = lr_entries (sp_ring s) ! (i mod ?n)"
    if "?C < i" "i \<le> ?H" for i x
    using mod_eq_close [of ?C ?n i] that bounds by (intro nth_list_update_neq) auto
  have "sp_delivered s @ [e] = take (Suc ?C) (sp_pushed s)"
    using d e del by (simp add: take_Suc_conv_app_nth)
  then have "ring_ok T ?s"
    using ring d other by (auto simp: ring_ok_def Let_def)
  moreover have "prod_ok T U ?s"
    using p d(1) other [of ?H] d(2,3) by (auto simp: prod_ok_def split: producer.splits)
  moreover have "cons_ok T V ?s"
    using c st(1) d next_index [OF r, of t] by (simp add: cons_ok_def mod_Suc_eq)
  ultimately show ?thesis unfolding spsc_inv_def by blast
qed

lemma stop_inv:
  assumes ring: "ring_ok T s" and p: "prod_ok T U s" and c: "cons_ok T V s"
    and st: "sp_cons s = C_Drain t h"
  shows "spsc_inv (s\<lparr>sp_cons := C_Idle, sp_ring := (sp_ring s)\<lparr>lr_tail := t\<rparr>\<rparr>)" (is "spsc_inv ?s")
proof -
  let ?C = "length (sp_delivered s)"
  have "T \<le> ?C" using ring by (simp add: ring_ok_def Let_def)
  have "ring_ok ?C ?s"
    using ring c st by (auto simp: ring_ok_def cons_ok_def Let_def)
  moreover have "prod_ok ?C U ?s"
    using p \<open>T \<le> ?C\<close> by (auto simp: prod_ok_def split: producer.splits)
  moreover have "cons_ok ?C V ?s" by (simp add: cons_ok_def)
  ultimately show ?thesis unfolding spsc_inv_def by blast
qed

lemma spsc_step_inv:
  assumes "spsc_inv s" "spsc_step s s'"
  shows "spsc_inv s'"
  using assms(2,1)
proof cases
  case (load e)
  obtain T U V where inv: "ring_ok T s" "prod_ok T U s" "cons_ok T V s"
    using assms(1) by (auto simp: spsc_inv_def)
  then have "ring_ok T s'" "prod_ok T T s'" "cons_ok T V s'"
    using load by (auto simp: ring_ok_def prod_ok_def cons_ok_def Let_def split: consumer.splits)
  then show ?thesis unfolding spsc_inv_def by blast
next
  case (full e h t)
  obtain T U V where inv: "ring_ok T s" "prod_ok T U s" "cons_ok T V s"
    using assms(1) by (auto simp: spsc_inv_def)
  then have "ring_ok T s'" "prod_ok T U s'" "cons_ok T V s'"
    using full by (auto simp: ring_ok_def prod_ok_def cons_ok_def Let_def split: consumer.splits)
  then show ?thesis unfolding spsc_inv_def by blast
next
  case (start)
  obtain T U V where inv: "ring_ok T s" "prod_ok T U s" "cons_ok T V s"
    using assms(1) by (auto simp: spsc_inv_def)
  then have "ring_ok T s'" "prod_ok T U s'" "cons_ok T (length (sp_pushed s)) s'"
    using start by (auto simp: ring_ok_def prod_ok_def cons_ok_def Let_def split: producer.splits)
  then show ?thesis unfolding spsc_inv_def by blast
qed (use assms(1) store_inv publish_inv accept_inv stop_inv in \<open>auto simp: spsc_inv_def [of s]\<close>)


lemma spsc_inv_init:
  assumes "lr_inv r" "lr_head r = 0" "lr_tail r = 0"
  shows "spsc_inv (spsc_init r)"
proof -
  have "ring_ok 0 (spsc_init r)" "prod_ok 0 0 (spsc_init r)" "cons_ok 0 0 (spsc_init r)"
    using assms by (auto simp: ring_ok_def prod_ok_def cons_ok_def spsc_init_def lr_inv_def)
  then show ?thesis unfolding spsc_inv_def by blast
qed

lemma spsc_reach_inv: "spsc_reach s0 s \<Longrightarrow> spsc_inv s0 \<Longrightarrow> spsc_inv s"
  by (induction rule: spsc_reach.induct) (auto intro: spsc_step_inv)

lemma spsc_reach_size: "spsc_reach s0 s \<Longrightarrow> lr_size (sp_ring s) = lr_size (sp_ring s0)"
  by (induction rule: spsc_reach.induct) (auto simp: spsc_step_simps)

lemma spsc_reach_alloc:
  assumes "ring_alloc a b fresh c = Some r" "\<And>n. length (fresh n) = n" "spsc_reach (spsc_init r) s"
  shows "spsc_inv s" "lr_size (sp_ring s) = unat c"
proof -
  have "lr_head r = 0" "lr_tail r = 0" using assms(1) by (auto simp: ring_alloc_def split: if_splits)
  then show "spsc_inv s"
    using spsc_reach_inv [OF assms(3)] spsc_inv_init ring_alloc_inv [OF assms(1,2)] by blast
  show "lr_size (sp_ring s) = unat c"
    using spsc_reach_size [OF assms(3)] ring_alloc_inv [OF assms(1,2)] by (simp add: spsc_init_def)
qed

text \<open>A short run for the witnesses: one entry published, a drain begun, a second entry loaded.\<close>

definition demo_entry :: "32 word \<Rightarrow> log_entry" where
  "demo_entry n = \<lparr>ts_ms = n, module = 1, sev = 2, reserved = 0, le_text = Some ''line''\<rparr>"

definition demo_ring :: log_ring where
  "demo_ring = \<lparr>lr_mask = 3, lr_dropped = 0, lr_head = 0, lr_tail = 0, lr_entries = replicate 4 (demo_entry 0)\<rparr>"

definition demo_state :: spsc where
  "demo_state = \<lparr>sp_ring = demo_ring\<lparr>lr_head := 1, lr_entries := (replicate 4 (demo_entry 0))[0 := demo_entry 5]\<rparr>,
     sp_prod = P_Loaded (demo_entry 6) 1 0, sp_cons = C_Drain 0 1,
     sp_pushed = [demo_entry 5], sp_delivered = []\<rparr>"

lemma demo_alloc: "ring_alloc True True (\<lambda>n. replicate n (demo_entry 0)) 4 = Some demo_ring"
  by (simp add: ring_alloc_def demo_ring_def)

lemma demo_reach: "spsc_reach (spsc_init demo_ring) demo_state"
proof -
  note defs = demo_ring_def demo_entry_def spsc_init_def demo_state_def
  let ?r = "demo_ring\<lparr>lr_entries := (replicate 4 (demo_entry 0))[0 := demo_entry 5]\<rparr>"
  let ?s1 = "(spsc_init demo_ring)\<lparr>sp_prod := P_Loaded (demo_entry 5) 0 0\<rparr>"
  let ?s2 = "(spsc_init ?r)\<lparr>sp_prod := P_Stored (demo_entry 5) 1\<rparr>"
  let ?s3 = "(spsc_init (?r\<lparr>lr_head := 1\<rparr>))\<lparr>sp_pushed := [demo_entry 5]\<rparr>"
  let ?s4 = "?s3\<lparr>sp_cons := C_Drain 0 1\<rparr>"
  have "spsc_step (spsc_init demo_ring) ?s1"
    using spsc_step.load [of "spsc_init demo_ring" "demo_entry 5"] by (simp add: defs)
  moreover have "spsc_step ?s1 ?s2"
    using spsc_step.store [of ?s1 "demo_entry 5" 0 0] by (simp add: defs)
  moreover have "spsc_step ?s2 ?s3"
    using spsc_step.publish [of ?s2 "demo_entry 5" 1] by (simp add: defs)
  moreover have "spsc_step ?s3 ?s4"
    using spsc_step.start [of ?s3] by (simp add: defs)
  moreover have "spsc_step ?s4 demo_state"
    using spsc_step.load [of ?s4 "demo_entry 6"] by (simp add: defs)
  ultimately show ?thesis by (meson here further)
qed

text \<open>
  C15. Producer and flusher on one ring, in any interleaving of their accesses: what
  the flusher's callback has accepted is always a prefix of what the producer
  published, with the text intact, and the entries in flight are fewer than the
  capacity.
\<close>

theorem spsc_fifo:
  assumes "ring_alloc True True fresh c = Some r" "\<And>n. length (fresh n) = n"
    and "spsc_reach (spsc_init r) s"
  shows "prefix (sp_delivered s) (sp_pushed s) \<and>
    length (sp_pushed s) < length (sp_delivered s) + unat c \<and>
    (\<forall>e\<in>set (sp_delivered s). le_text e \<noteq> None)"
proof -
  obtain T U V where "ring_ok T s" using spsc_reach_alloc(1) [OF assms] by (auto simp: spsc_inv_def)
  then have d: "sp_delivered s = take (length (sp_delivered s)) (sp_pushed s)"
      "length (sp_pushed s) < length (sp_delivered s) + lr_size (sp_ring s)"
      "\<forall>e\<in>set (sp_pushed s). le_text e \<noteq> None"
    by (auto simp: ring_ok_def Let_def)
  then show ?thesis
    using spsc_reach_alloc(2) [OF assms] by (metis in_set_takeD take_is_prefix)
qed

theorem spsc_fifo_witness:
  "prefix (sp_delivered demo_state) (sp_pushed demo_state) \<and>
   length (sp_pushed demo_state) < length (sp_delivered demo_state) + 4"
  using spsc_fifo [OF demo_alloc _ demo_reach] by simp

text \<open>
  C16. No slot is written while it is read: whenever the producer is about to store
  an entry and the flusher is about to hand one to its callback, the two indices
  differ, however stale the tail the producer has loaded.
\<close>

theorem spsc_no_race:
  assumes "ring_alloc True True fresh c = Some r" "\<And>n. length (fresh n) = n"
    and "spsc_reach (spsc_init r) s"
    and "sp_prod s = P_Loaded e h t" "(h + 1) AND lr_mask (sp_ring s) \<noteq> t"
    and "sp_cons s = C_Drain t' h'" "t' \<noteq> h'"
  shows "h \<noteq> t'"
proof -
  obtain T U V where inv: "ring_ok T s" "prod_ok T U s" "cons_ok T V s"
    using spsc_reach_alloc(1) [OF assms(1-3)] by (auto simp: spsc_inv_def)
  note d = draining [OF inv(1,3) assms(6,7)]
  have "h = lr_head (sp_ring s)" using inv(2) assms(4) by (simp add: prod_ok_def)
  then have "unat h = length (sp_pushed s) mod lr_size (sp_ring s)" "T \<le> length (sp_delivered s)"
      "length (sp_pushed s) < T + lr_size (sp_ring s)"
    using inv(1) by (auto simp: ring_ok_def Let_def)
  then have "unat h \<noteq> unat t'"
    using mod_eq_close [of "length (sp_delivered s)" "lr_size (sp_ring s)" "length (sp_pushed s)"] d(1-3) by auto
  then show ?thesis by auto
qed


theorem spsc_no_race_witness:
  "sp_prod demo_state = P_Loaded (demo_entry 6) 1 0 \<and> sp_cons demo_state = C_Drain 0 1 \<and> (1 :: 32 word) \<noteq> 0"
proof (intro conjI)
  show "(1 :: 32 word) \<noteq> 0"
    by (rule spsc_no_race [OF demo_alloc _ demo_reach, of "demo_entry 6" 1 0 0 1])
      (simp_all add: demo_state_def demo_ring_def)
qed (simp_all add: demo_state_def)

end
