(* ===== verification/Log_Registry.thy ===== *)
theory Log_Registry
  imports Log_Ring
begin

section \<open>The registry of logger rings (\<open>src/src/core/log_ring.c\<close>)\<close>

text \<open>
  Rings live at addresses of a store, so that a freed ring is an address without a
  ring; the registry is the list of nodes from its head, and the thread-specific key
  maps threads to addresses.  Every system call that can fail takes its outcome as an
  argument: the address of a fresh ring block, and Booleans for the other requests.
\<close>

record log_globals =
  lg_rings :: "nat \<rightharpoonup> log_ring"
  lg_nodes :: "nat list"
  lg_tss :: "nat \<rightharpoonup> nat"
  lg_cap :: "32 word"
  lg_total_dropped :: "64 word"

text \<open>\<open>retrace_log_ring_init\<close>: the return value and the globals.\<close>

definition retrace_log_ring_init ::
    "cstr option \<Rightarrow> (cstr \<Rightarrow> int) option \<Rightarrow> int \<Rightarrow> int \<Rightarrow> log_globals \<Rightarrow> int \<times> log_globals" where
  "retrace_log_ring_init env atoi mutex_rc tss_rc g =
     (let g1 = g\<lparr>lg_cap := ring_configured_cap env atoi\<rparr>
      in if mutex_rc \<noteq> 0 then (-1, g1)
         else if tss_rc \<noteq> 0 then (-1, g1)
         else (0, g1\<lparr>lg_nodes := [], lg_total_dropped := 0\<rparr>))"

text \<open>\<open>registry_add\<close>: without a node the ring is freed again.\<close>

definition registry_add :: "bool \<Rightarrow> nat \<Rightarrow> log_globals \<Rightarrow> log_globals" where
  "registry_add node_ok a g =
     (if \<not> node_ok then g\<lparr>lg_rings := (lg_rings g)(a := None)\<rparr>
      else g\<lparr>lg_nodes := a # lg_nodes g\<rparr>)"

definition ring_key_destructor :: "nat \<Rightarrow> log_globals \<Rightarrow> log_globals" where
  "ring_key_destructor tid g = g\<lparr>lg_tss := (lg_tss g)(tid := None)\<rparr>"

text \<open>
  \<open>retrace_log_ring_get\<close> by thread \<open>tid\<close>: the returned pointer and the globals.
  \<open>ring_at\<close> is the address the allocator gives the ring block, if it does.
\<close>

definition retrace_log_ring_get ::
    "nat option \<Rightarrow> bool \<Rightarrow> bool \<Rightarrow> bool \<Rightarrow> (nat \<Rightarrow> log_entry list) \<Rightarrow> nat \<Rightarrow> log_globals \<Rightarrow> nat option \<times> log_globals" where
  "retrace_log_ring_get ring_at entries_ok node_ok tss_ok fresh tid g =
     (case lg_tss g tid of
        Some a \<Rightarrow> (Some a, g)
      | None \<Rightarrow>
          (case ring_at of
             None \<Rightarrow> (None, g)
           | Some a \<Rightarrow>
               (case ring_alloc True entries_ok fresh
                       (if lg_cap g \<noteq> 0 then lg_cap g else of_nat LOG_RING_DEFAULT_CAP) of
                  None \<Rightarrow> (None, g)
                | Some r \<Rightarrow>
                    let g1 = registry_add node_ok a (g\<lparr>lg_rings := (lg_rings g)(a \<mapsto> r)\<rparr>)
                    in if \<not> tss_ok then (None, g1)
                       else (Some a, g1\<lparr>lg_tss := (lg_tss g1)(tid \<mapsto> a)\<rparr>))))"

text \<open>
  \<open>retrace_log_ring_walk\<close>, with the callback as a function on the ring and a
  context, and the two sums of drop counters.
\<close>

fun walk_loop :: "(nat \<rightharpoonup> log_ring) \<Rightarrow> (log_ring \<Rightarrow> 'c \<Rightarrow> log_ring \<times> 'c) \<Rightarrow> nat list \<Rightarrow> 'c \<Rightarrow> (nat \<rightharpoonup> log_ring) \<times> 'c" where
  "walk_loop rings cb [] ctx = (rings, ctx)"
| "walk_loop rings cb (a # as) ctx =
     (case rings a of
        None \<Rightarrow> walk_loop rings cb as ctx
      | Some r \<Rightarrow> (case cb r ctx of (r', ctx') \<Rightarrow> walk_loop (rings(a \<mapsto> r')) cb as ctx'))"

definition retrace_log_ring_walk ::
    "(log_ring \<Rightarrow> 'c \<Rightarrow> log_ring \<times> 'c) option \<Rightarrow> 'c \<Rightarrow> log_globals \<Rightarrow> log_globals \<times> 'c" where
  "retrace_log_ring_walk cb ctx g =
     (case cb of
        None \<Rightarrow> (g, ctx)
      | Some f \<Rightarrow> (case walk_loop (lg_rings g) f (lg_nodes g) ctx of
                    (rings, ctx') \<Rightarrow> (g\<lparr>lg_rings := rings\<rparr>, ctx')))"

definition ring_dropped :: "log_globals \<Rightarrow> nat \<Rightarrow> 64 word" where
  "ring_dropped g a = (case lg_rings g a of None \<Rightarrow> 0 | Some r \<Rightarrow> ucast (lr_dropped r))"

fun total_loop :: "log_globals \<Rightarrow> nat list \<Rightarrow> 64 word \<Rightarrow> 64 word" where
  "total_loop g [] n = n"
| "total_loop g (a # as) n = total_loop g as (n + ring_dropped g a)"

definition retrace_log_ring_total_dropped :: "log_globals \<Rightarrow> 64 word" where
  "retrace_log_ring_total_dropped g = total_loop g (lg_nodes g) 0"

fun deinit_loop :: "nat list \<Rightarrow> log_globals \<Rightarrow> log_globals" where
  "deinit_loop [] g = g"
| "deinit_loop (a # as) g =
     deinit_loop as (g\<lparr>lg_total_dropped := lg_total_dropped g + ring_dropped g a,
                       lg_rings := (lg_rings g)(a := None)\<rparr>)"

definition retrace_log_ring_deinit :: "log_globals \<Rightarrow> log_globals" where
  "retrace_log_ring_deinit g = (deinit_loop (lg_nodes g) g)\<lparr>lg_nodes := []\<rparr>"

subsection \<open>What the registry guarantees\<close>

text \<open>
  The rings allocated are exactly the ones registered, once each; every thread's key
  points at one of them.
\<close>

definition lg_inv :: "log_globals \<Rightarrow> bool" where
  "lg_inv g \<longleftrightarrow> distinct (lg_nodes g) \<and> dom (lg_rings g) = set (lg_nodes g) \<and>
     ran (lg_tss g) \<subseteq> set (lg_nodes g) \<and> (\<forall>r\<in>ran (lg_rings g). lr_inv r)"

lemma lg_inv_pointwise:
  "lg_inv g \<longleftrightarrow> distinct (lg_nodes g) \<and> ran (lg_tss g) \<subseteq> set (lg_nodes g) \<and>
     (\<forall>a. a \<in> set (lg_nodes g) \<longleftrightarrow> lg_rings g a \<noteq> None) \<and> (\<forall>a r. lg_rings g a = Some r \<longrightarrow> lr_inv r)"
  unfolding lg_inv_def ran_def set_eq_iff domIff by blast

text \<open>The entries queued in the ring at an address.\<close>

definition queued :: "log_globals \<Rightarrow> nat \<Rightarrow> log_entry list" where
  "queued g a = (case lg_rings g a of None \<Rightarrow> [] | Some r \<Rightarrow> lr_queue r)"

lemma ring_get_keeps:
  assumes "lg_inv g" "\<And>n. length (fresh n) = n" "ring_at \<noteq> None \<Longrightarrow> the ring_at \<notin> dom (lg_rings g)"
    and "retrace_log_ring_get ring_at entries_ok True tss_ok fresh tid g = (p, g')"
  shows "lg_inv g' \<and> (\<forall>a. p = Some a \<longrightarrow> a \<in> set (lg_nodes g') \<and> lg_tss g' tid = Some a) \<and>
    (\<forall>t. t \<noteq> tid \<longrightarrow> lg_tss g' t = lg_tss g t) \<and> set (lg_nodes g) \<subseteq> set (lg_nodes g') \<and> queued g' = queued g"
proof -
  let ?c = "if lg_cap g \<noteq> 0 then lg_cap g else of_nat LOG_RING_DEFAULT_CAP"
  have get: "(p, g') = (case lg_tss g tid of Some a \<Rightarrow> (Some a, g) | None \<Rightarrow>
      case ring_at of None \<Rightarrow> (None, g) | Some a \<Rightarrow>
      case ring_alloc True entries_ok fresh ?c of None \<Rightarrow> (None, g) | Some r \<Rightarrow>
      let g1 = g\<lparr>lg_rings := (lg_rings g)(a \<mapsto> r), lg_nodes := a # lg_nodes g\<rparr> in
      if tss_ok then (Some a, g1\<lparr>lg_tss := (lg_tss g)(tid \<mapsto> a)\<rparr>) else (None, g1))"
    using assms(4) by (auto simp: retrace_log_ring_get_def registry_add_def Let_def
        simp del: of_nat_numeral split: option.split)
  consider (same) "g' = g" "p = None \<or> p = lg_tss g tid"
    | (new) a r where "lg_tss g tid = None" "ring_at = Some a" "ring_alloc True entries_ok fresh ?c = Some r"
    using get by (force split: option.splits)
  then show ?thesis
  proof cases
    case same
    moreover have "a \<in> set (lg_nodes g)" if "lg_tss g tid = Some a" for a
      using assms(1) that by (auto simp: lg_inv_def intro: ranI)
    ultimately show ?thesis using assms(1) by auto
  next
    case new
    have r: "lr_inv r" "lr_queue r = []" using ring_alloc_inv [OF new(3) assms(2)] by blast+
    have fresh: "a \<notin> dom (lg_rings g)" using assms(3) new(2) by simp
    then have "ran ((lg_rings g)(a \<mapsto> r)) = insert r (ran (lg_rings g))"
      by (simp add: domIff ran_map_upd)
    moreover have "ran ((lg_tss g)(tid \<mapsto> a)) = insert a (ran (lg_tss g))"
      using new(1) by (simp add: ran_map_upd)
    moreover have "queued g' = queued g"
      using get new fresh r(2) by (auto simp: queued_def fun_eq_iff Let_def domIff split: if_splits)
    ultimately show ?thesis
      using get new fresh assms(1) r(1) by (auto simp: lg_inv_def Let_def split: if_splits)
  qed
qed

text \<open>
  When the node of a new ring can be allocated, \<open>retrace_log_ring_get\<close> keeps the
  registry exact: the ring it returns is live and registered, no ring is registered
  twice or leaked, and every other thread keeps its own ring.
\<close>

theorem log_ring_get_registers:
  assumes "lg_inv g" "\<And>n. length (fresh n) = n" "ring_at \<noteq> None \<Longrightarrow> the ring_at \<notin> dom (lg_rings g)"
    and "retrace_log_ring_get ring_at entries_ok True tss_ok fresh tid g = (p, g')"
  shows "lg_inv g' \<and> (\<forall>a. p = Some a \<longrightarrow> a \<in> set (lg_nodes g') \<and> lg_tss g' tid = Some a) \<and>
    (\<forall>t. t \<noteq> tid \<longrightarrow> lg_tss g' t = lg_tss g t) \<and> set (lg_nodes g) \<subseteq> set (lg_nodes g')"
  using ring_get_keeps [OF assms] by blast

theorem log_ring_get_registers_witness:
  "\<exists>p g'. retrace_log_ring_get (Some 1) True True True (\<lambda>n. replicate n \<lparr>ts_ms = 0, module = 0, sev = 0, reserved = 0, le_text = None\<rparr>) 7
      \<lparr>lg_rings = Map.empty, lg_nodes = [], lg_tss = Map.empty, lg_cap = 64, lg_total_dropped = 0\<rparr> = (p, g') \<and>
    lg_inv g' \<and> p = Some 1 \<and> lg_nodes g' = [1]"
proof -
  let ?fresh = "\<lambda>n. replicate n \<lparr>ts_ms = 0, module = 0, sev = 0, reserved = 0, le_text = None\<rparr>"
  let ?g = "\<lparr>lg_rings = Map.empty, lg_nodes = [], lg_tss = Map.empty, lg_cap = 64, lg_total_dropped = 0\<rparr> :: log_globals"
  obtain p g' where get: "retrace_log_ring_get (Some 1) True True True ?fresh 7 ?g = (p, g')" by fastforce
  then have "p = Some 1" "lg_nodes g' = [1]"
    by (auto simp: retrace_log_ring_get_def registry_add_def ring_alloc_def Let_def)
  moreover have "lg_inv ?g" by (simp add: lg_inv_def)
  ultimately show ?thesis using log_ring_get_registers [OF _ _ _ get] get by simp
qed

text \<open>
  When the node of a new ring cannot be allocated, \<open>registry_add\<close> frees the ring
  and returns, but \<open>retrace_log_ring_get\<close> goes on to store the freed pointer in the
  thread's key and to return it; the comment in \<open>registry_add\<close> says the caller sees
  NULL.
\<close>

theorem log_ring_get_dangling:
  assumes "lg_tss g tid = None" "lg_cap g = 64"
  shows "\<exists>g'. retrace_log_ring_get (Some a) True False True fresh tid g = (Some a, g') \<and>
    lg_rings g' a = None \<and> lg_tss g' tid = Some a"
  using assms by (simp add: retrace_log_ring_get_def registry_add_def ring_alloc_def Let_def)

theorem log_ring_get_dangling_witness:
  "\<exists>g'. retrace_log_ring_get (Some 1) True False True (\<lambda>n. []) 7
      \<lparr>lg_rings = Map.empty, lg_nodes = [], lg_tss = Map.empty, lg_cap = 64, lg_total_dropped = 0\<rparr> = (Some 1, g') \<and>
    lg_rings g' 1 = None \<and> lg_tss g' 7 = Some 1"
  by (rule log_ring_get_dangling) simp_all

subsection \<open>Shutdown\<close>

lemma total_loop_sum: "total_loop g as n = n + sum_list (map (ring_dropped g) as)"
  by (induction as arbitrary: n) (simp_all add: add.assoc)

lemma deinit_loop_spec:
  "distinct as \<Longrightarrow> lg_total_dropped (deinit_loop as g) =
     lg_total_dropped g + sum_list (map (ring_dropped g) as) \<and>
   lg_rings (deinit_loop as g) = (lg_rings g) |` (- set as) \<and> lg_tss (deinit_loop as g) = lg_tss g"
proof (induction as arbitrary: g)
  case Nil
  then show ?case by simp
next
  case (Cons a as)
  let ?g = "g\<lparr>lg_total_dropped := lg_total_dropped g + ring_dropped g a, lg_rings := (lg_rings g)(a := None)\<rparr>"
  have same: "map (ring_dropped ?g) as = map (ring_dropped g) as"
    using Cons.prems by (intro map_cong) (auto simp: ring_dropped_def)
  have left: "lg_rings ?g |` (- set as) = lg_rings g |` (- set (a # as))"
    by (rule ext) (simp add: restrict_map_def)
  have "distinct as" using Cons.prems by simp
  from Cons.IH [OF this, of ?g] show ?case
    unfolding same left by (simp add: add.assoc)
qed

text \<open>
  Shutdown frees every ring exactly once and adds to the running total exactly the
  sum the registry reports; but the thread keys keep their pointers (the header says
  the key is destroyed), so a thread that asks again is handed a freed ring.
\<close>

theorem log_ring_deinit_frees_all:
  assumes "lg_inv g"
  shows "lg_rings (retrace_log_ring_deinit g) = Map.empty \<and> lg_nodes (retrace_log_ring_deinit g) = [] \<and>
    lg_total_dropped (retrace_log_ring_deinit g) =
      lg_total_dropped g + retrace_log_ring_total_dropped g \<and>
    (\<forall>tid a. lg_tss g tid = Some a \<longrightarrow>
       retrace_log_ring_get ring_at entries_ok node_ok tss_ok fresh tid (retrace_log_ring_deinit g) =
         (Some a, retrace_log_ring_deinit g))"
proof -
  have "lg_rings g |` (- set (lg_nodes g)) = Map.empty"
    using assms by (auto simp: lg_inv_def restrict_map_def domIff fun_eq_iff)
  then show ?thesis
    using deinit_loop_spec [of "lg_nodes g" g] assms
    by (simp add: retrace_log_ring_deinit_def retrace_log_ring_total_dropped_def total_loop_sum
        lg_inv_def retrace_log_ring_get_def)
qed

definition demo_globals :: log_globals where
  "demo_globals = \<lparr>lg_rings = [1 \<mapsto> \<lparr>lr_mask = 0, lr_dropped = 3, lr_head = 0, lr_tail = 0,
       lr_entries = [\<lparr>ts_ms = 0, module = 0, sev = 0, reserved = 0, le_text = None\<rparr>]\<rparr>],
     lg_nodes = [1], lg_tss = [7 \<mapsto> 1], lg_cap = 64, lg_total_dropped = 2\<rparr>"

theorem log_ring_deinit_frees_all_witness:
  "lg_rings (retrace_log_ring_deinit demo_globals) 1 = None \<and>
   lg_total_dropped (retrace_log_ring_deinit demo_globals) = 5 \<and>
   fst (retrace_log_ring_get None False False False (\<lambda>_. []) 7 (retrace_log_ring_deinit demo_globals)) = Some 1"
proof -
  have "lg_inv demo_globals"
    by (auto simp: lg_inv_def demo_globals_def lr_inv_def lr_size_def lr_len_def)
  then show ?thesis
    using log_ring_deinit_frees_all [of demo_globals None False False False "\<lambda>_. []"]
    by (auto simp: retrace_log_ring_total_dropped_def ring_dropped_def demo_globals_def)
qed

end
