(* ===== verification/Filter_Lex.thy ===== *)
theory Filter_Lex
  imports Retrace_Prelude
begin

section \<open>Lexical layer of the filter language (\<open>src/src/core/filter_dsl.c\<close>)\<close>

text \<open>
  The outcome of a parsing routine: a value; an error recorded by \<open>perr\<close> with its
  message and the input still unread at that point (the first error wins, so the
  first one ends the parse); undefined behaviour of the C program; or, for the
  recursive routines of the model, fuel exhausted.
\<close>

datatype 'a pres = Done 'a | Fails string cstr | Undef | Out_of_fuel

fun pbind :: "'a pres \<Rightarrow> ('a \<Rightarrow> 'b pres) \<Rightarrow> 'b pres" where
  "pbind (Done a) f = f a"
| "pbind (Fails msg at) f = Fails msg at"
| "pbind Undef f = Undef"
| "pbind Out_of_fuel f = Out_of_fuel"

lemma pbind_Done_iff: "pbind m f = Done b \<longleftrightarrow> (\<exists>a. m = Done a \<and> f a = Done b)"
  by (cases m) auto

definition is_digit :: "char \<Rightarrow> bool" where
  "is_digit c \<longleftrightarrow> in_range (CHR ''0'') (CHR ''9'') c"

definition is_alpha :: "char \<Rightarrow> bool" where
  "is_alpha c \<longleftrightarrow> in_range (CHR ''a'') (CHR ''z'') c \<or> in_range (CHR ''A'') (CHR ''Z'') c"

definition is_ident_char :: "char \<Rightarrow> bool" where
  "is_ident_char c \<longleftrightarrow> is_alpha c \<or> is_digit c \<or> c = CHR ''_''"

definition skip_ws :: "cstr \<Rightarrow> cstr" where
  "skip_ws q = dropWhile (\<lambda>c. c = CHR '' '' \<or> c = CHR 0x09) q"

definition at_keyword :: "cstr \<Rightarrow> cstr \<Rightarrow> bool" where
  "at_keyword q kw \<longleftrightarrow> strncmp_eq q kw (length kw) \<and> \<not> is_ident_char (cget q (length kw))"

text \<open>
  A quoted string takes two passes: the first finds the closing quote and counts the
  bytes of the value, the second copies them to the arena.
\<close>

function string_scan :: "nat \<Rightarrow> cstr \<Rightarrow> (nat \<times> cstr) option" where
  "string_scan n q =
     (if cget q 0 = CHR 0x22 then Some (n, q)
      else if cget q 0 = CHR 0x5C \<and> cget q 1 \<noteq> nul then string_scan (n + 1) (drop 2 q)
      else if cget q 0 = nul then None
      else string_scan (n + 1) (tl q))"
  by pat_completeness auto
termination
  by (relation "measure (\<lambda>(n, q). length q)") (auto simp: cget_def split: if_splits)

function string_copy :: "nat \<Rightarrow> cstr \<Rightarrow> cstr" where
  "string_copy e q =
     (if length q > e then
        if cget q 0 = CHR 0x5C \<and> cget q 1 \<noteq> nul then cget q 1 # string_copy e (drop 2 q)
        else cget q 0 # string_copy e (tl q)
      else [])"
  by pat_completeness auto
termination
  by (relation "measure (\<lambda>(e, q). length q)") auto

text \<open>The digits of a number; \<open>None\<close> is the overflow of the \<open>long long\<close>, undefined in C.\<close>

function num_loop :: "int \<Rightarrow> cstr \<Rightarrow> (int \<times> cstr) option" where
  "num_loop v q =
     (if is_digit (cget q 0) then
        if v * 10 + (char_val (cget q 0) - 48) < 2 ^ 63
        then num_loop (v * 10 + (char_val (cget q 0) - 48)) (tl q)
        else None
      else Some (v, q))"
  by pat_completeness auto
termination
  by (relation "measure (\<lambda>(v, q). length q)")
    (auto simp: cget_def is_digit_def in_range_def char_le_def char_val_def split: if_splits)

declare string_scan.simps [simp del] string_copy.simps [simp del] num_loop.simps [simp del]

text \<open>
  The operand at the cursor, after blanks.  A string carries its length, its first
  character and the position of the closing quote; a number and a name carry the
  position behind them.
\<close>

datatype lexeme = LStr nat cstr cstr | LNum int cstr | LName cstr cstr

definition err_operand :: string where
  "err_operand = ''expected operand (name, number, or '' @ [CHR 0x22] @ ''string'' @ [CHR 0x22] @ '')''"

definition lex_operand :: "cstr \<Rightarrow> lexeme pres" where
  "lex_operand q =
     (if cget q 0 = CHR 0x22 then
        (case string_scan 0 (tl q) of
           None \<Rightarrow> Fails ''unterminated string'' []
         | Some (len, r) \<Rightarrow> Done (LStr len (tl q) r))
      else if is_digit (cget q 0) \<or> cget q 0 = CHR ''-'' \<and> is_digit (cget q 1) then
        (let neg = (cget q 0 = CHR ''-''); start = (if neg then tl q else q)
         in case num_loop 0 start of
              None \<Rightarrow> Undef
            | Some (v, r) \<Rightarrow>
                if r = start then Fails ''bad number'' q
                else Done (LNum (if neg then - v else v) r))
      else if at_keyword q ''and'' \<or> at_keyword q ''or'' \<or> at_keyword q ''not'' then Fails err_operand q
      else if is_alpha (cget q 0) \<or> cget q 0 = CHR ''_'' then
        Done (LName (takeWhile is_ident_char q) (dropWhile is_ident_char q))
      else Fails err_operand q)"

text \<open>The comparison operators, in the order the parser tries them.\<close>

datatype fop_kind = FO_EQ | FO_NE | FO_LT | FO_LE | FO_GT | FO_GE | FO_GLOB | FO_NGLOB

definition err_operator :: string where
  "err_operator = ''expected operator (== != < <= > >= ~ !~)''"

definition lex_op :: "cstr \<Rightarrow> (fop_kind \<times> cstr) pres" where
  "lex_op q =
     (if strncmp_eq q ''=='' 2 then Done (FO_EQ, drop 2 q)
      else if strncmp_eq q ''!='' 2 then Done (FO_NE, drop 2 q)
      else if strncmp_eq q ''<='' 2 then Done (FO_LE, drop 2 q)
      else if strncmp_eq q ''>='' 2 then Done (FO_GE, drop 2 q)
      else if cget q 0 = CHR ''<'' then Done (FO_LT, drop 1 q)
      else if cget q 0 = CHR ''>'' then Done (FO_GT, drop 1 q)
      else if strncmp_eq q ''!~'' 2 then Done (FO_NGLOB, drop 2 q)
      else if cget q 0 = CHR ''~'' then Done (FO_GLOB, drop 1 q)
      else Fails err_operator q)"

definition err_paren :: string where
  "err_paren = ''expected '' @ [CHR 0x27, CHR '')'', CHR 0x27]"

datatype foperand_kind = FO_NUM | FO_STR | FO_PARAM | FO_FUNC | FO_RET | FO_CALLER

definition name_kind :: "cstr \<Rightarrow> foperand_kind" where
  "name_kind s =
     (if s = ''func'' then FO_FUNC else if s = ''ret'' then FO_RET
      else if s = ''caller'' then FO_CALLER else FO_PARAM)"

definition string_kind :: "foperand_kind \<Rightarrow> bool" where
  "string_kind k \<longleftrightarrow> k = FO_STR \<or> k = FO_FUNC \<or> k = FO_CALLER"

text \<open>The type rule of a comparison: \<open>None\<close> when it is met, else the message.\<close>

definition type_rule :: "fop_kind \<Rightarrow> foperand_kind \<Rightarrow> foperand_kind \<Rightarrow> string option" where
  "type_rule op l r =
     (if op \<in> {FO_LT, FO_LE, FO_GT, FO_GE} \<and> (string_kind l \<or> string_kind r)
      then Some ''relational operators need numeric operands''
      else if op \<in> {FO_GLOB, FO_NGLOB} \<and> r \<noteq> FO_STR
      then Some ''glob pattern must be a string literal''
      else None)"

subsection \<open>Facts about the lexical routines\<close>

lemma string_scan_copy:
  "string_scan n q = Some (m, r) \<Longrightarrow>
     m = n + length (string_copy (length r) q) \<and> suffix r q \<and> cget r 0 = CHR 0x22"
proof (induction n q arbitrary: m rule: string_scan.induct)
  case (1 n q)
  consider (quote) "cget q 0 = CHR 0x22"
    | (esc) "cget q 0 \<noteq> CHR 0x22" "cget q 0 = CHR 0x5C" "cget q 1 \<noteq> nul"
    | (char) "cget q 0 \<noteq> CHR 0x22" "\<not> (cget q 0 = CHR 0x5C \<and> cget q 1 \<noteq> nul)" "cget q 0 \<noteq> nul"
    using "1.prems" by (auto simp: string_scan.simps [of n q] split: if_splits)
  then show ?case
  proof cases
    case quote
    then have "r = q" "m = n" using "1.prems" by (simp_all add: string_scan.simps [of n q])
    then show ?thesis using quote by (simp add: string_copy.simps)
  next
    case esc
    then have s: "string_scan (n + 1) (drop 2 q) = Some (m, r)"
      using "1.prems" by (simp add: string_scan.simps [of n q])
    have len: "1 < length q" using esc(3) by (auto simp: cget_def split: if_splits)
    note ih = "1.IH"(1) [OF esc(1) _ s]
    then have "suffix r (drop 2 q)" using esc by blast
    then have "length r < length q" using len suffix_length_le [of r "drop 2 q"] by simp
    moreover have "suffix r q" using \<open>suffix r (drop 2 q)\<close> suffix_drop suffix_order.trans by blast
    ultimately show ?thesis using ih esc by (simp add: string_copy.simps [of "length r" q])
  next
    case char
    then have s: "string_scan (n + 1) (tl q) = Some (m, r)"
      using "1.prems" by (auto simp: string_scan.simps [of n q])
    have ne: "q \<noteq> []" using char(3) by auto
    have ih: "m = (n + 1) + length (string_copy (length r) (tl q)) \<and> suffix r (tl q) \<and> cget r 0 = CHR 0x22"
      using "1.IH"(2) [OF char(1,2,3) s] .
    then have "length r < length q" using ne suffix_length_le [of r "tl q"] by (cases q) auto
    moreover have "suffix r q" using ih suffix_tl suffix_order.trans by blast
    ultimately show ?thesis using ih char by (auto simp: string_copy.simps [of "length r" q])
  qed
qed

end
