(* ===== verification/Filter_Tree.thy ===== *)
theory Filter_Tree
  imports Filter_Lex
begin

section \<open>The filter language as trees\<close>

text \<open>
  The specification of the filter language of \<open>src/src/core/filter_dsl.h\<close>: the grammar
  of the header as a recursive-descent parser onto a tree datatype, without the
  arenas the code builds its nodes in, and the meaning of a tree.
\<close>

datatype toperand = TNum int | TStr cstr | TName cstr

datatype ftree =
  TOr ftree ftree
| TAnd ftree ftree
| TNot ftree
| TCmp fop_kind toperand toperand

fun operand_kind :: "toperand \<Rightarrow> foperand_kind" where
  "operand_kind (TNum n) = FO_NUM"
| "operand_kind (TStr s) = FO_STR"
| "operand_kind (TName s) = name_kind s"

definition t_operand :: "cstr \<Rightarrow> (toperand \<times> cstr) pres" where
  "t_operand q = pbind (lex_operand (skip_ws q)) (\<lambda>lx. case lx of
     LStr len s r \<Rightarrow> Done (TStr (string_copy (length r) s), tl r)
   | LNum v r \<Rightarrow> Done (TNum v, r)
   | LName s r \<Rightarrow> Done (TName s, r))"

definition t_cmp :: "cstr \<Rightarrow> (ftree \<times> cstr) pres" where
  "t_cmp q = pbind (t_operand q) (\<lambda>(l, q1). pbind (lex_op (skip_ws q1)) (\<lambda>(op, q2).
     pbind (t_operand q2) (\<lambda>(r, q3).
       case type_rule op (operand_kind l) (operand_kind r) of
         Some msg \<Rightarrow> Fails msg q3
       | None \<Rightarrow> Done (TCmp op l r, q3))))"

function t_or :: "nat \<Rightarrow> cstr \<Rightarrow> (ftree \<times> cstr) pres"
  and t_or_loop :: "nat \<Rightarrow> ftree \<Rightarrow> cstr \<Rightarrow> (ftree \<times> cstr) pres"
  and t_and :: "nat \<Rightarrow> cstr \<Rightarrow> (ftree \<times> cstr) pres"
  and t_and_loop :: "nat \<Rightarrow> ftree \<Rightarrow> cstr \<Rightarrow> (ftree \<times> cstr) pres"
  and t_not :: "nat \<Rightarrow> cstr \<Rightarrow> (ftree \<times> cstr) pres"
  and t_primary :: "nat \<Rightarrow> cstr \<Rightarrow> (ftree \<times> cstr) pres" where
  "t_or 0 q = Out_of_fuel"
| "t_or (Suc f) q = pbind (t_and f q) (\<lambda>(lhs, q1). t_or_loop f lhs q1)"
| "t_or_loop 0 lhs q = Out_of_fuel"
| "t_or_loop (Suc f) lhs q =
     (if at_keyword (skip_ws q) ''or''
      then pbind (t_and f (drop 2 (skip_ws q))) (\<lambda>(rhs, q1). t_or_loop f (TOr lhs rhs) q1)
      else Done (lhs, skip_ws q))"
| "t_and 0 q = Out_of_fuel"
| "t_and (Suc f) q = pbind (t_not f q) (\<lambda>(lhs, q1). t_and_loop f lhs q1)"
| "t_and_loop 0 lhs q = Out_of_fuel"
| "t_and_loop (Suc f) lhs q =
     (if at_keyword (skip_ws q) ''and''
      then pbind (t_not f (drop 3 (skip_ws q))) (\<lambda>(rhs, q1). t_and_loop f (TAnd lhs rhs) q1)
      else Done (lhs, skip_ws q))"
| "t_not 0 q = Out_of_fuel"
| "t_not (Suc f) q =
     (if at_keyword (skip_ws q) ''not''
      then pbind (t_not f (drop 3 (skip_ws q))) (\<lambda>(t, q1). Done (TNot t, q1))
      else t_primary f (skip_ws q))"
| "t_primary 0 q = Out_of_fuel"
| "t_primary (Suc f) q =
     (if cget (skip_ws q) 0 = CHR ''(''
      then pbind (t_or f (tl (skip_ws q))) (\<lambda>(t, q1).
             if cget (skip_ws q1) 0 \<noteq> CHR '')'' then Fails err_paren (skip_ws q1)
             else Done (t, tl (skip_ws q1)))
      else t_cmp (skip_ws q))"
  by pat_completeness auto
termination
  by (relation "measure (\<lambda>x. case x of
    Inl (Inl (f, _)) \<Rightarrow> f | Inl (Inr (Inl (f, _))) \<Rightarrow> f | Inl (Inr (Inr (f, _))) \<Rightarrow> f
  | Inr (Inl (f, _)) \<Rightarrow> f | Inr (Inr (Inl (f, _))) \<Rightarrow> f | Inr (Inr (Inr (f, _))) \<Rightarrow> f)") auto

end
