(* ===== verification/Filter_Parser.thy ===== *)
theory Filter_Parser
  imports Filter_Tree
begin

section \<open>The filter compiler on its arenas (\<open>src/src/core/filter_dsl.c\<close>)\<close>

text \<open>
  The compiler keeps its nodes in one growing block and its strings in another; a
  block that is full is replaced by a larger copy and freed.  A pointer is \<open>NULL\<close>, or
  an offset into a block, or a value that points into no live block.  Blocks are numbered:
  each replacement gets the next number, and an access through a pointer into any
  other block is undefined behaviour.

  The allocator is a function of the number of the request: whether it is granted.
\<close>

datatype ptr = Null | In nat nat | Wild

record foperand =
  fo_kind :: foperand_kind
  fo_num :: int
  fo_str :: ptr
  fo_str_len :: nat

datatype fnode =
  FN_OR ptr ptr
| FN_AND ptr ptr
| FN_NOT ptr
| FN_CMP fop_kind foperand foperand

record fparser =
  fp_rest :: cstr
  fp_arena_block :: nat
  fp_arena_cap :: nat
  fp_arena :: "char list"
  fp_nodes_block :: nat
  fp_node_cap :: nat
  fp_nodes :: "fnode list"
  fp_requests :: nat

definition arena_push :: "(nat \<Rightarrow> bool) \<Rightarrow> nat \<Rightarrow> fparser \<Rightarrow> (ptr \<times> fparser) pres" where
  "arena_push mem n p =
     (let len = length (fp_arena p); ext = fp_arena p @ replicate n nul in
      if len + n > fp_arena_cap p then
        if \<not> mem (fp_requests p) then Fails ''out of memory'' (fp_rest p)
        else Done (In (Suc (fp_arena_block p)) len,
                   p\<lparr>fp_arena_block := Suc (fp_arena_block p), fp_arena_cap := fp_arena_cap p * 2 + n + 64,
                     fp_arena := ext, fp_requests := Suc (fp_requests p)\<rparr>)
      else Done (In (fp_arena_block p) len, p\<lparr>fp_arena := ext\<rparr>))"

text \<open>A copied string and its terminator, stored through the pointer just handed out.\<close>

definition arena_write :: "ptr \<Rightarrow> cstr \<Rightarrow> fparser \<Rightarrow> fparser pres" where
  "arena_write q s p = (case q of
     In b off \<Rightarrow>
       if b = fp_arena_block p \<and> off + length s < length (fp_arena p)
       then Done (p\<lparr>fp_arena := take off (fp_arena p) @ s @ [nul] @ drop (off + length s + 1) (fp_arena p)\<rparr>)
       else Undef
   | _ \<Rightarrow> Undef)"

definition node_new :: "(nat \<Rightarrow> bool) \<Rightarrow> fparser \<Rightarrow> (ptr \<times> fparser) pres" where
  "node_new mem p =
     (let cnt = length (fp_nodes p); ext = fp_nodes p @ [FN_OR Null Null] in
      if cnt = fp_node_cap p then
        if \<not> mem (fp_requests p) then Fails ''out of memory'' (fp_rest p)
        else Done (In (Suc (fp_nodes_block p)) cnt,
                   p\<lparr>fp_nodes_block := Suc (fp_nodes_block p), fp_node_cap := fp_node_cap p * 2 + 16,
                     fp_nodes := ext, fp_requests := Suc (fp_requests p)\<rparr>)
      else Done (In (fp_nodes_block p) cnt, p\<lparr>fp_nodes := ext\<rparr>))"

text \<open>A store to a node; through a pointer into a freed block it is undefined.\<close>

definition node_write :: "ptr \<Rightarrow> fnode \<Rightarrow> fparser \<Rightarrow> fparser pres" where
  "node_write q n p = (case q of
     In b i \<Rightarrow> if b = fp_nodes_block p \<and> i < length (fp_nodes p)
               then Done (p\<lparr>fp_nodes := (fp_nodes p)[i := n]\<rparr>) else Undef
   | _ \<Rightarrow> Undef)"

definition store_string :: "(nat \<Rightarrow> bool) \<Rightarrow> foperand_kind \<Rightarrow> nat \<Rightarrow> cstr \<Rightarrow> fparser \<Rightarrow> (foperand \<times> fparser) pres" where
  "store_string mem k len s p = pbind (arena_push mem (len + 1) p) (\<lambda>(dst, p1).
     pbind (arena_write dst s p1) (\<lambda>p2.
       Done (\<lparr>fo_kind = k, fo_num = 0, fo_str = dst, fo_str_len = len\<rparr>, p2)))"

definition parse_operand :: "(nat \<Rightarrow> bool) \<Rightarrow> fparser \<Rightarrow> (foperand \<times> fparser) pres" where
  "parse_operand mem p = pbind (lex_operand (skip_ws (fp_rest p))) (\<lambda>lx. case lx of
     LStr len s r \<Rightarrow>
       pbind (store_string mem FO_STR len (string_copy (length r) s) (p\<lparr>fp_rest := r\<rparr>)) (\<lambda>(o1, p1).
         Done (o1, p1\<lparr>fp_rest := tl r\<rparr>))
   | LNum v r \<Rightarrow> Done (\<lparr>fo_kind = FO_NUM, fo_num = v, fo_str = Null, fo_str_len = 0\<rparr>, p\<lparr>fp_rest := r\<rparr>)
   | LName s r \<Rightarrow> store_string mem (name_kind s) (length s) s (p\<lparr>fp_rest := r\<rparr>))"

definition parse_cmp :: "(nat \<Rightarrow> bool) \<Rightarrow> fparser \<Rightarrow> (ptr \<times> fparser) pres" where
  "parse_cmp mem p = pbind (node_new mem p) (\<lambda>(n, p1).
     pbind (parse_operand mem p1) (\<lambda>(l, p2).
     pbind (lex_op (skip_ws (fp_rest p2))) (\<lambda>(op, q).
     pbind (parse_operand mem (p2\<lparr>fp_rest := q\<rparr>)) (\<lambda>(r, p3).
       case type_rule op (fo_kind l) (fo_kind r) of
         Some msg \<Rightarrow> Fails msg (fp_rest p3)
       | None \<Rightarrow> pbind (node_write n (FN_CMP op l r) p3) (\<lambda>p4. Done (n, p4))))))"

definition parse_bin ::
    "(nat \<Rightarrow> bool) \<Rightarrow> (ptr \<Rightarrow> ptr \<Rightarrow> fnode) \<Rightarrow> ptr \<Rightarrow> ptr \<Rightarrow> fparser \<Rightarrow> (ptr \<times> fparser) pres" where
  "parse_bin mem c lhs rhs p = pbind (node_new mem p) (\<lambda>(n, p1).
     pbind (node_write n (c lhs rhs) p1) (\<lambda>p2. Done (n, p2)))"

text \<open>
  The recursive routines.  The node of a \<open>not\<close> is taken before its operand is parsed
  and its child is stored afterwards, through the pointer taken before.
\<close>

function parse_or :: "(nat \<Rightarrow> bool) \<Rightarrow> nat \<Rightarrow> fparser \<Rightarrow> (ptr \<times> fparser) pres"
  and or_loop :: "(nat \<Rightarrow> bool) \<Rightarrow> nat \<Rightarrow> ptr \<Rightarrow> fparser \<Rightarrow> (ptr \<times> fparser) pres"
  and parse_and :: "(nat \<Rightarrow> bool) \<Rightarrow> nat \<Rightarrow> fparser \<Rightarrow> (ptr \<times> fparser) pres"
  and and_loop :: "(nat \<Rightarrow> bool) \<Rightarrow> nat \<Rightarrow> ptr \<Rightarrow> fparser \<Rightarrow> (ptr \<times> fparser) pres"
  and parse_not :: "(nat \<Rightarrow> bool) \<Rightarrow> nat \<Rightarrow> fparser \<Rightarrow> (ptr \<times> fparser) pres"
  and parse_primary :: "(nat \<Rightarrow> bool) \<Rightarrow> nat \<Rightarrow> fparser \<Rightarrow> (ptr \<times> fparser) pres" where
  "parse_or mem 0 p = Out_of_fuel"
| "parse_or mem (Suc f) p = pbind (parse_and mem f p) (\<lambda>(lhs, p1). or_loop mem f lhs p1)"
| "or_loop mem 0 lhs p = Out_of_fuel"
| "or_loop mem (Suc f) lhs p =
     (let q = skip_ws (fp_rest p) in
      if at_keyword q ''or'' then
        pbind (parse_and mem f (p\<lparr>fp_rest := drop 2 q\<rparr>)) (\<lambda>(rhs, p1).
        pbind (parse_bin mem FN_OR lhs rhs p1) (\<lambda>(n, p2). or_loop mem f n p2))
      else Done (lhs, p\<lparr>fp_rest := q\<rparr>))"
| "parse_and mem 0 p = Out_of_fuel"
| "parse_and mem (Suc f) p = pbind (parse_not mem f p) (\<lambda>(lhs, p1). and_loop mem f lhs p1)"
| "and_loop mem 0 lhs p = Out_of_fuel"
| "and_loop mem (Suc f) lhs p =
     (let q = skip_ws (fp_rest p) in
      if at_keyword q ''and'' then
        pbind (parse_not mem f (p\<lparr>fp_rest := drop 3 q\<rparr>)) (\<lambda>(rhs, p1).
        pbind (parse_bin mem FN_AND lhs rhs p1) (\<lambda>(n, p2). and_loop mem f n p2))
      else Done (lhs, p\<lparr>fp_rest := q\<rparr>))"
| "parse_not mem 0 p = Out_of_fuel"
| "parse_not mem (Suc f) p =
     (let q = skip_ws (fp_rest p) in
      if at_keyword q ''not'' then
        pbind (node_new mem (p\<lparr>fp_rest := drop 3 q\<rparr>)) (\<lambda>(n, p1).
        pbind (node_write n (FN_NOT Null) p1) (\<lambda>p2.
        pbind (parse_not mem f p2) (\<lambda>(child, p3).
        pbind (node_write n (FN_NOT child) p3) (\<lambda>p4. Done (n, p4)))))
      else parse_primary mem f (p\<lparr>fp_rest := q\<rparr>))"
| "parse_primary mem 0 p = Out_of_fuel"
| "parse_primary mem (Suc f) p =
     (let q = skip_ws (fp_rest p) in
      if cget q 0 = CHR ''('' then
        pbind (parse_or mem f (p\<lparr>fp_rest := tl q\<rparr>)) (\<lambda>(n, p1).
          let q1 = skip_ws (fp_rest p1) in
          if cget q1 0 \<noteq> CHR '')'' then Fails err_paren q1
          else Done (n, p1\<lparr>fp_rest := tl q1\<rparr>))
      else parse_cmp mem (p\<lparr>fp_rest := q\<rparr>))"
  by pat_completeness auto
termination
  by (relation "measure (\<lambda>x. case x of
    Inl (Inl (_, f, _)) \<Rightarrow> f | Inl (Inr (Inl (_, f, _))) \<Rightarrow> f | Inl (Inr (Inr (_, f, _))) \<Rightarrow> f
  | Inr (Inl (_, f, _)) \<Rightarrow> f | Inr (Inr (Inl (_, f, _))) \<Rightarrow> f | Inr (Inr (Inr (_, f, _))) \<Rightarrow> f)") auto

subsection \<open>Compilation\<close>

text \<open>
  The finished tree: strings and nodes copied into one new block each half of which is
  addressed by its own block number, and every stored pointer shifted by the distance between the new block and the block
  the compiler ended with.  A pointer into that last block lands on its copy; any other
  lands outside.
\<close>

record retrace_filter_ast =
  fa_strings_block :: nat
  fa_strings :: "char list"
  fa_nodes_block :: nat
  fa_nodes :: "fnode list"
  fa_root :: ptr

fun reloc :: "nat \<Rightarrow> nat \<Rightarrow> ptr \<Rightarrow> ptr" where
  "reloc old new Null = Null"
| "reloc old new Wild = Wild"
| "reloc old new (In b i) = (if b = old then In new i else Wild)"

definition reloc_operand :: "nat \<Rightarrow> nat \<Rightarrow> foperand \<Rightarrow> foperand" where
  "reloc_operand old new o1 = o1\<lparr>fo_str := reloc old new (fo_str o1)\<rparr>"

fun reloc_strings :: "nat \<Rightarrow> nat \<Rightarrow> fnode \<Rightarrow> fnode" where
  "reloc_strings old new (FN_CMP op l r) = FN_CMP op (reloc_operand old new l) (reloc_operand old new r)"
| "reloc_strings old new n = n"

fun reloc_node :: "nat \<Rightarrow> nat \<Rightarrow> fnode \<Rightarrow> fnode" where
  "reloc_node old new (FN_CMP op l r) = FN_CMP op l r"
| "reloc_node old new (FN_NOT c) = FN_NOT (reloc old new c)"
| "reloc_node old new (FN_OR l r) = FN_OR (reloc old new l) (reloc old new r)"
| "reloc_node old new (FN_AND l r) = FN_AND (reloc old new l) (reloc old new r)"

definition finish :: "ptr \<Rightarrow> fparser \<Rightarrow> retrace_filter_ast" where
  "finish root p =
     (let a = fp_arena_block p; n = fp_nodes_block p in
      \<lparr>fa_strings_block = Suc a, fa_strings = fp_arena p, fa_nodes_block = Suc n,
       fa_nodes = map (reloc_node n (Suc n)) (map (reloc_strings a (Suc a)) (fp_nodes p)),
       fa_root = reloc n (Suc n) root\<rparr>)"

text \<open>
  \<open>retrace_filter_compile\<close>.  An error carries the message and the 1-based offset that
  \<open>perr\<close> formats into the caller's buffer.
\<close>

datatype compiled = Compiled retrace_filter_ast | Compile_error string nat | Compile_undef | Compile_fuel

definition parse_fuel :: "cstr \<Rightarrow> nat" where
  "parse_fuel src = 4 * length src + 5"

definition fp_init :: "cstr \<Rightarrow> fparser" where
  "fp_init src = \<lparr>fp_rest = src, fp_arena_block = 0, fp_arena_cap = 128, fp_arena = [],
     fp_nodes_block = 0, fp_node_cap = 16, fp_nodes = [], fp_requests = 2\<rparr>"

definition retrace_filter_compile :: "(nat \<Rightarrow> bool) \<Rightarrow> cstr option \<Rightarrow> compiled" where
  "retrace_filter_compile mem expr =
     (case expr of
        None \<Rightarrow> Compile_error ''empty expression'' 1
      | Some src \<Rightarrow>
          if src = [] then Compile_error ''empty expression'' 1
          else if \<not> mem 0 \<or> \<not> mem 1 then Compile_error ''out of memory'' 1
          else
            (case parse_or mem (parse_fuel src) (fp_init src) of
               Fails msg at \<Rightarrow> Compile_error msg (length src - length at + 1)
             | Undef \<Rightarrow> Compile_undef
             | Out_of_fuel \<Rightarrow> Compile_fuel
             | Done (root, p) \<Rightarrow>
                 let q = skip_ws (fp_rest p) in
                 if q \<noteq> [] then Compile_error ''unexpected trailing input'' (length src - length q + 1)
                 else if \<not> mem (fp_requests p) \<or> \<not> mem (fp_requests p + 1)
                 then Compile_error ''out of memory'' 1
                 else Compiled (finish root p)))"

end
