(* ===== verification/Filter_Refine.thy ===== *)
theory Filter_Refine
  imports Filter_Parser
begin

section \<open>The compiler implements the grammar\<close>

subsection \<open>Fuel\<close>

lemma length_skip_ws: "length (skip_ws q) \<le> length q"
  by (simp add: skip_ws_def length_dropWhile_le)

lemma skip_ws_idem [simp]: "skip_ws (skip_ws q) = skip_ws q"
  by (simp add: skip_ws_def)

lemma at_keyword_length: "at_keyword q kw \<Longrightarrow> length kw \<le> length q"
  by (auto simp: at_keyword_def strncmp_eq_length dest: prefix_length_le)

lemma num_loop_length: "num_loop v q = Some (w, r) \<Longrightarrow> length r \<le> length q"
proof (induction v q rule: num_loop.induct)
  case (1 v q)
  then show ?case
    by (subst (asm) num_loop.simps) (fastforce split: if_splits intro: order_trans)
qed

lemma lex_operand_length:
  assumes "lex_operand q = Done lx"
  shows "case lx of LStr n s r \<Rightarrow> length (tl r) \<le> length q | LNum v r \<Rightarrow> length r \<le> length q
    | LName s r \<Rightarrow> length r \<le> length q"
proof -
  have str: "length (tl r) \<le> length q" if "string_scan 0 (tl q) = Some (n, r)" for n r
    using string_scan_copy [OF that] suffix_length_le [of r "tl q"] by simp
  have neg: "length r \<le> length q" if "num_loop 0 (tl q) = Some (v, r)" for v r
    using num_loop_length [OF that] by simp
  show ?thesis using assms str neg num_loop_length
    by (auto simp: lex_operand_def Let_def length_dropWhile_le split: if_splits option.splits)
qed

lemma lex_op_length: "lex_op q = Done (op, r) \<Longrightarrow> length r \<le> length q"
  by (auto simp: lex_op_def split: if_splits)

lemma t_operand_length:
  assumes "t_operand q = Done (x, r)" shows "length r \<le> length q"
proof -
  obtain lx where lx: "lex_operand (skip_ws q) = Done lx"
    using assms by (auto simp: t_operand_def pbind_Done_iff)
  show ?thesis
    using assms lex_operand_length [OF lx] lx length_skip_ws [of q]
    by (cases lx) (auto simp: t_operand_def)
qed

lemma t_cmp_Done:
  "t_cmp q = Done (t, q3) \<longleftrightarrow> (\<exists>l q1 op q2 r. t_operand q = Done (l, q1) \<and>
     lex_op (skip_ws q1) = Done (op, q2) \<and> t_operand q2 = Done (r, q3) \<and>
     type_rule op (operand_kind l) (operand_kind r) = None \<and> t = TCmp op l r)"
  by (auto simp: t_cmp_def pbind_Done_iff split: option.splits)

lemma t_cmp_length:
  assumes "t_cmp q = Done (t, r)" shows "length r \<le> length q"
proof -
  obtain l q1 op q2 x where "t_operand q = Done (l, q1)" "lex_op (skip_ws q1) = Done (op, q2)"
      "t_operand q2 = Done (x, r)"
    using assms by (auto simp: t_cmp_Done)
  then show ?thesis
    using t_operand_length [of q l q1] lex_op_length [of "skip_ws q1"] t_operand_length [of q2]
      length_skip_ws [of q1] by force
qed

lemma t_length:
  "t_or f q = Done (t, r) \<Longrightarrow> length r \<le> length q"
  "t_or_loop f l q = Done (t, r) \<Longrightarrow> length r \<le> length q"
  "t_and f q = Done (t, r) \<Longrightarrow> length r \<le> length q"
  "t_and_loop f l q = Done (t, r) \<Longrightarrow> length r \<le> length q"
  "t_not f q = Done (t, r) \<Longrightarrow> length r \<le> length q"
  "t_primary f q = Done (t, r) \<Longrightarrow> length r \<le> length q"
proof (induction f q and f l q and f q and f l q and f q and f q arbitrary: t r and t r and t r and t r and t r and t r
    rule: t_or_t_or_loop_t_and_t_and_loop_t_not_t_primary.induct)
  case (2 f q)
  then show ?case by (fastforce simp: pbind_Done_iff)
next
  case (4 f l q)
  then show ?case using length_skip_ws [of q]
    by (fastforce simp: pbind_Done_iff split: if_splits)
next
  case (6 f q)
  then show ?case by (fastforce simp: pbind_Done_iff)
next
  case (8 f l q)
  then show ?case using length_skip_ws [of q]
    by (fastforce simp: pbind_Done_iff split: if_splits)
next
  case (10 f q)
  then show ?case using length_skip_ws [of q]
    by (fastforce simp: pbind_Done_iff split: if_splits)
next
  case (12 f q)
  show ?case
  proof (cases "cget (skip_ws q) 0 = CHR ''(''")
    case True
    then obtain t1 q1 where "t_or f (tl (skip_ws q)) = Done (t1, q1)" "r = tl (skip_ws q1)"
      using "12.prems" by (auto simp: pbind_Done_iff split: if_splits)
    then show ?thesis using "12.IH" True length_skip_ws [of q] length_skip_ws [of q1] by fastforce
  next
    case False
    then show ?thesis using "12.prems" t_cmp_length [of "skip_ws q" t r] length_skip_ws [of q] by auto
  qed
qed auto


lemma pbind_fuel: "pbind m f = Out_of_fuel \<longleftrightarrow> m = Out_of_fuel \<or> (\<exists>a. m = Done a \<and> f a = Out_of_fuel)"
  by (cases m) auto

lemma lex_fuel [simp]: "lex_operand q \<noteq> Out_of_fuel" "lex_op q \<noteq> Out_of_fuel"
  by (auto simp: lex_operand_def lex_op_def Let_def split: option.splits prod.splits)

lemma t_operand_fuel [simp]: "t_operand q \<noteq> Out_of_fuel"
  by (auto simp: t_operand_def pbind_fuel split: lexeme.splits)

lemma t_cmp_fuel: "t_cmp q \<noteq> Out_of_fuel"
  by (auto simp: t_cmp_def pbind_fuel split: option.splits)

lemma t_fuel:
  "4 * length q + 3 < f \<Longrightarrow> t_or f q \<noteq> Out_of_fuel"
  "4 * length q < f \<Longrightarrow> t_or_loop f l q \<noteq> Out_of_fuel"
  "4 * length q + 2 < f \<Longrightarrow> t_and f q \<noteq> Out_of_fuel"
  "4 * length q < f \<Longrightarrow> t_and_loop f l q \<noteq> Out_of_fuel"
  "4 * length q + 1 < f \<Longrightarrow> t_not f q \<noteq> Out_of_fuel"
  "4 * length q < f \<Longrightarrow> t_primary f q \<noteq> Out_of_fuel"
proof (induction f q and f l q and f q and f l q and f q and f q
    rule: t_or_t_or_loop_t_and_t_and_loop_t_not_t_primary.induct)
  case (2 f q)
  then show ?case by (fastforce simp: pbind_fuel dest: t_length)
next
  case (4 f l q)
  show ?case
  proof (cases "at_keyword (skip_ws q) ''or''")
    case True
    then have "2 \<le> length (skip_ws q)" using at_keyword_length by force
    then show ?thesis using "4.IH" "4.prems" True length_skip_ws [of q]
      by (fastforce simp: pbind_fuel dest: t_length(3))
  qed simp
next
  case (6 f q)
  then show ?case by (fastforce simp: pbind_fuel dest: t_length)
next
  case (8 f l q)
  show ?case
  proof (cases "at_keyword (skip_ws q) ''and''")
    case True
    then have "3 \<le> length (skip_ws q)" using at_keyword_length by force
    then show ?thesis using "8.IH" "8.prems" True length_skip_ws [of q]
      by (fastforce simp: pbind_fuel dest: t_length(5))
  qed simp
next
  case (10 f q)
  show ?case
  proof (cases "at_keyword (skip_ws q) ''not''")
    case True
    then have "3 \<le> length (skip_ws q)" using at_keyword_length by force
    then show ?thesis using "10.IH"(1) [OF True] "10.prems" True length_skip_ws [of q]
      by (auto simp: pbind_fuel)
  next
    case False
    then show ?thesis using "10.IH"(2) [OF False] "10.prems" length_skip_ws [of q] by simp
  qed
next
  case (12 f q)
  show ?case
  proof (cases "cget (skip_ws q) 0 = CHR ''(''")
    case True
    then have "0 < length (skip_ws q)" by (cases "skip_ws q") auto
    then have "4 * length (tl (skip_ws q)) + 3 < f" using "12.prems" length_skip_ws [of q]
      by (cases "skip_ws q") auto
    then show ?thesis using "12.IH" [OF True] True
      by (auto simp: pbind_fuel split: if_splits)
  next
    case False
    then show ?thesis using t_cmp_fuel by simp
  qed
qed auto

subsection \<open>Control flow\<close>

text \<open>
  Whatever happens in the arenas, the compiler reads its input as the grammar does:
  unless it runs out of memory or into undefined behaviour, it fails where the grammar
  fails, with the same message, and succeeds where the grammar does, with the same rest.
\<close>

definition follows :: "(ptr \<times> fparser) pres \<Rightarrow> (ftree \<times> cstr) pres \<Rightarrow> bool" where
  "follows m t \<longleftrightarrow> (case m of
     Undef \<Rightarrow> True
   | Fails msg at \<Rightarrow> msg = ''out of memory'' \<or> t = Fails msg at
   | Out_of_fuel \<Rightarrow> t = Out_of_fuel
   | Done (n, p) \<Rightarrow> (\<exists>x. t = Done (x, fp_rest p)))"

lemma follows_simps [simp]:
  "follows Undef t" "follows (Fails ''out of memory'' at) t" "follows (Fails msg at) (Fails msg at)"
  "follows Out_of_fuel Out_of_fuel" "follows (Done (n, p)) (Done (x, q)) \<longleftrightarrow> q = fp_rest p"
  by (auto simp: follows_def)

lemma follows_bind:
  assumes "follows m t" "\<And>n p x. m = Done (n, p) \<Longrightarrow> t = Done (x, fp_rest p) \<Longrightarrow> follows (f n p) (g x (fp_rest p))"
  shows "follows (pbind m (\<lambda>(n, p). f n p)) (pbind t (\<lambda>(x, q). g x q))"
proof (cases m)
  case (Done a)
  obtain n p where a: "a = (n, p)" by (cases a)
  then obtain x where "t = Done (x, fp_rest p)" using assms(1) Done by (auto simp: follows_def)
  then show ?thesis using assms(2) Done a by simp
qed (use assms(1) in \<open>auto simp: follows_def\<close>)

lemma node_new_cases:
  "node_new mem p = Fails ''out of memory'' (fp_rest p) \<or> (\<exists>n p'. node_new mem p = Done (n, p') \<and> fp_rest p' = fp_rest p)"
  by (auto simp: node_new_def Let_def)

lemma node_write_cases:
  "node_write n c p = Undef \<or> (\<exists>p'. node_write n c p = Done p' \<and> fp_rest p' = fp_rest p)"
  by (auto simp: node_write_def split: ptr.splits)

lemma store_string_cases:
  "store_string mem k len s p = Undef \<or> store_string mem k len s p = Fails ''out of memory'' (fp_rest p) \<or>
   (\<exists>o1 p'. store_string mem k len s p = Done (o1, p') \<and> fp_rest p' = fp_rest p \<and> fo_kind o1 = k)"
  by (auto simp: store_string_def arena_push_def arena_write_def Let_def)


definition op_follows :: "(foperand \<times> fparser) pres \<Rightarrow> (toperand \<times> cstr) pres \<Rightarrow> bool" where
  "op_follows m t \<longleftrightarrow> (case m of
     Undef \<Rightarrow> True
   | Fails msg at \<Rightarrow> msg = ''out of memory'' \<or> t = Fails msg at
   | Out_of_fuel \<Rightarrow> False
   | Done (o1, p) \<Rightarrow> (\<exists>x. t = Done (x, fp_rest p) \<and> operand_kind x = fo_kind o1))"

lemma parse_operand_follows: "op_follows (parse_operand mem p) (t_operand (fp_rest p))"
proof (cases "lex_operand (skip_ws (fp_rest p))")
  case (Done lx)
  show ?thesis
  proof (cases lx)
    case (LStr n s r)
    then show ?thesis
      using Done store_string_cases [of mem FO_STR n "string_copy (length r) s" "p\<lparr>fp_rest := r\<rparr>"]
      by (auto simp: parse_operand_def t_operand_def op_follows_def)
  next
    case (LNum v r)
    then show ?thesis using Done by (simp add: parse_operand_def t_operand_def op_follows_def)
  next
    case (LName s r)
    then show ?thesis
      using Done store_string_cases [of mem "name_kind s" "length s" s "p\<lparr>fp_rest := r\<rparr>"]
      by (auto simp: parse_operand_def t_operand_def op_follows_def)
  qed
qed (auto simp: parse_operand_def t_operand_def op_follows_def)

lemma op_follows_bind:
  assumes "op_follows m t" "\<And>o1 p x. m = Done (o1, p) \<Longrightarrow> t = Done (x, fp_rest p) \<Longrightarrow>
    operand_kind x = fo_kind o1 \<Longrightarrow> follows (f o1 p) (g x (fp_rest p))"
  shows "follows (pbind m (\<lambda>(o1, p). f o1 p)) (pbind t (\<lambda>(x, q). g x q))"
proof (cases m)
  case (Done a)
  obtain o1 p where a: "a = (o1, p)" by (cases a)
  then obtain x where "t = Done (x, fp_rest p)" "operand_kind x = fo_kind o1"
    using assms(1) Done by (auto simp: op_follows_def)
  then show ?thesis using assms(2) Done a by simp
qed (use assms(1) in \<open>auto simp: op_follows_def follows_def\<close>)

lemma parse_cmp_follows: "follows (parse_cmp mem p) (t_cmp (fp_rest p))"
proof -
  consider "node_new mem p = Fails ''out of memory'' (fp_rest p)"
    | n p1 where "node_new mem p = Done (n, p1)" "fp_rest p1 = fp_rest p"
    using node_new_cases by blast
  then show ?thesis
  proof cases
    case (2 n p1)
    have last: "follows (case type_rule op (fo_kind l) (fo_kind r) of
          None \<Rightarrow> pbind (node_write n (FN_CMP op l r) p3) (\<lambda>p4. Done (n, p4))
        | Some msg \<Rightarrow> Fails msg (fp_rest p3))
      (case type_rule op (operand_kind x) (operand_kind y) of
          None \<Rightarrow> Done (TCmp op x y, fp_rest p3) | Some msg \<Rightarrow> Fails msg (fp_rest p3))"
      if "operand_kind x = fo_kind l" "operand_kind y = fo_kind r" for op l r x y p3
      using that node_write_cases [of n "FN_CMP op l r" p3] by (auto split: option.split)
    have mid: "follows (pbind (lex_op q) (\<lambda>(op, q2). pbind (parse_operand mem (p2\<lparr>fp_rest := q2\<rparr>)) (\<lambda>(r, p3).
          case type_rule op (fo_kind l) (fo_kind r) of
            Some msg \<Rightarrow> Fails msg (fp_rest p3)
          | None \<Rightarrow> pbind (node_write n (FN_CMP op l r) p3) (\<lambda>p4. Done (n, p4)))))
      (pbind (lex_op q) (\<lambda>(op, q2). pbind (t_operand q2) (\<lambda>(r, q3).
          case type_rule op (operand_kind x) (operand_kind r) of
            Some msg \<Rightarrow> Fails msg q3 | None \<Rightarrow> Done (TCmp op x r, q3))))"
      if "operand_kind x = fo_kind l" for q p2 l x
    proof (cases "lex_op q")
      case (Done a)
      obtain op q2 where a: "a = (op, q2)" by (cases a)
      have rhs: "op_follows (parse_operand mem (p2\<lparr>fp_rest := q2\<rparr>)) (t_operand q2)"
        using parse_operand_follows [of mem "p2\<lparr>fp_rest := q2\<rparr>"] by simp
      show ?thesis using Done a by (auto intro!: op_follows_bind [OF rhs] last that)
    qed auto
    show ?thesis
      unfolding parse_cmp_def t_cmp_def using 2 parse_operand_follows [of mem p1]
      by (auto intro!: op_follows_bind mid)
  qed (simp add: parse_cmp_def)
qed


lemma parse_bin_cases:
  "parse_bin mem c l r p = Undef \<or> (\<exists>at. parse_bin mem c l r p = Fails ''out of memory'' at) \<or>
   (\<exists>n p'. parse_bin mem c l r p = Done (n, p') \<and> fp_rest p' = fp_rest p)"
proof -
  consider (oom) "node_new mem p = Fails ''out of memory'' (fp_rest p)"
    | (new) n p1 where "node_new mem p = Done (n, p1)" "fp_rest p1 = fp_rest p"
    using node_new_cases [of mem p] by auto
  then show ?thesis
  proof cases
    case (new n p1)
    then show ?thesis using node_write_cases [of n "c l r" p1] by (auto simp: parse_bin_def)
  qed (simp add: parse_bin_def)
qed

text \<open>The step shared by the two loops: right operand, new node, next round.\<close>

lemma loop_follows:
  assumes rhs: "follows m t"
    and nxt: "\<And>n p x. follows (loop n p) (tloop x (fp_rest p))"
  shows "follows (pbind m (\<lambda>(rhs, p1). pbind (parse_bin mem c lhs rhs p1) (\<lambda>(n, p2). loop n p2)))
    (pbind t (\<lambda>(y, q1). tloop (k y) q1))"
proof (rule follows_bind [OF rhs])
  fix rhs p1 y
  show "follows (pbind (parse_bin mem c lhs rhs p1) (\<lambda>(n, p2). loop n p2)) (tloop (k y) (fp_rest p1))"
    using parse_bin_cases [of mem c lhs rhs p1] nxt by (auto, metis)
qed

lemma parse_follows:
  "follows (parse_or mem f p) (t_or f (fp_rest p))"
  "\<forall>l. follows (or_loop mem f lhs p) (t_or_loop f l (fp_rest p))"
  "follows (parse_and mem f p) (t_and f (fp_rest p))"
  "\<forall>l. follows (and_loop mem f lhs p) (t_and_loop f l (fp_rest p))"
  "follows (parse_not mem f p) (t_not f (fp_rest p))"
  "follows (parse_primary mem f p) (t_primary f (fp_rest p))"
proof (induction mem f p and mem f lhs p and mem f p and mem f lhs p and mem f p and mem f p
    rule: parse_or_or_loop_parse_and_and_loop_parse_not_parse_primary.induct)
  case (2 mem f p)
  then show ?case by (auto intro!: follows_bind)
next
  case (4 mem f lhs p)
  let ?q = "skip_ws (fp_rest p)"
  show ?case
  proof (intro allI, cases "at_keyword ?q ''or''")
    fix l
    case True
    have rhs: "follows (parse_and mem f (p\<lparr>fp_rest := drop 2 ?q\<rparr>)) (t_and f (drop 2 ?q))"
      using "4.IH"(1) [OF refl True] by simp
    have more: "follows (or_loop mem f n p') (t_or_loop f x (fp_rest p'))" for n p' x
      using "4.IH"(2) [OF refl True] by blast
    show "follows (or_loop mem (Suc f) lhs p) (t_or_loop (Suc f) l (fp_rest p))"
      using True loop_follows [where loop = "or_loop mem f" and tloop = "t_or_loop f" and k = "TOr l"
          and c = FN_OR and lhs = lhs and mem = mem, OF rhs more] by (simp add: Let_def)
  qed (simp add: Let_def)
next
  case (6 mem f p)
  then show ?case by (auto intro!: follows_bind)
next
  case (8 mem f lhs p)
  let ?q = "skip_ws (fp_rest p)"
  show ?case
  proof (intro allI, cases "at_keyword ?q ''and''")
    fix l
    case True
    have rhs: "follows (parse_not mem f (p\<lparr>fp_rest := drop 3 ?q\<rparr>)) (t_not f (drop 3 ?q))"
      using "8.IH"(1) [OF refl True] by simp
    have more: "follows (and_loop mem f n p') (t_and_loop f x (fp_rest p'))" for n p' x
      using "8.IH"(2) [OF refl True] by blast
    show "follows (and_loop mem (Suc f) lhs p) (t_and_loop (Suc f) l (fp_rest p))"
      using True loop_follows [where loop = "and_loop mem f" and tloop = "t_and_loop f" and k = "TAnd l"
          and c = FN_AND and lhs = lhs and mem = mem, OF rhs more] by (simp add: Let_def)
  qed (simp add: Let_def)
next
  case (10 mem f p)
  let ?q = "skip_ws (fp_rest p)"
  show ?case
  proof (cases "at_keyword ?q ''not''")
    case True
    let ?nn = "node_new mem (p\<lparr>fp_rest := drop 3 ?q\<rparr>)"
    consider (oom) "?nn = Fails ''out of memory'' (drop 3 ?q)"
      | (new) n p1 where "?nn = Done (n, p1)" "fp_rest p1 = drop 3 ?q"
      using node_new_cases [of mem "p\<lparr>fp_rest := drop 3 ?q\<rparr>"] by auto
    then show ?thesis
    proof cases
      case oom
      then show ?thesis using True by (simp add: Let_def)
    next
      case (new n p1)
      show ?thesis
      proof (cases "node_write n (FN_NOT Null) p1 = Undef")
        case u: True
        then show ?thesis using True new by (simp add: Let_def)
      next
        case False
        then obtain p2 where p2: "node_write n (FN_NOT Null) p1 = Done p2" "fp_rest p2 = drop 3 ?q"
          using node_write_cases [of n "FN_NOT Null" p1] new(2) by auto
      have "follows (parse_not mem f p2) (t_not f (fp_rest p2))"
        by (rule "10.IH"(1) [OF refl True])
      then have ih: "follows (parse_not mem f p2) (t_not f (drop 3 ?q))" by (simp add: p2(2))
      have "follows (pbind (node_write n (FN_NOT c) p3) (\<lambda>p4. Done (n, p4))) (Done (TNot t, fp_rest p3))" for c p3 t
        using node_write_cases [of n "FN_NOT c" p3] by auto
      then have "follows (pbind (parse_not mem f p2) (\<lambda>(child, p3).
            pbind (node_write n (FN_NOT child) p3) (\<lambda>p4. Done (n, p4))))
          (pbind (t_not f (drop 3 ?q)) (\<lambda>(t, q). Done (TNot t, q)))"
        by (rule follows_bind [OF ih])
      then show ?thesis using True new p2 by (simp add: Let_def)
      qed
    qed
  next
    case False
    then show ?thesis using "10.IH"(2) [OF refl False] by (simp add: Let_def)
  qed
next
  case (12 mem f p)
  let ?q = "skip_ws (fp_rest p)"
  show ?case
  proof (cases "cget ?q 0 = CHR ''(''")
    case True
    have ih: "follows (parse_or mem f (p\<lparr>fp_rest := tl ?q\<rparr>)) (t_or f (tl ?q))"
      using "12.IH" [OF refl True] by simp
    show ?thesis using True by (auto simp: Let_def intro!: follows_bind [OF ih])
  next
    case False
    then show ?thesis using parse_cmp_follows [of mem "p\<lparr>fp_rest := ?q\<rparr>"] by (simp add: Let_def)
  qed
qed auto

end
