(* ===== verification/Filter_Build.thy ===== *)
theory Filter_Build
  imports Filter_Refine
begin

section \<open>What the compiler leaves in its arenas\<close>

text \<open>
  \<open>rep\<close> says that the node a pointer designates, with everything below it, is a given
  tree: all nodes in block \<open>nb\<close> at index \<open>lo\<close> or above, all strings in block
  \<open>ab\<close>.  As long as neither arena has to grow, the tree the grammar gives is
  the one the compiler builds.
\<close>

definition string_at :: "char list \<Rightarrow> nat \<Rightarrow> cstr \<Rightarrow> bool" where
  "string_at str off s \<longleftrightarrow> (\<exists>pre post. str = pre @ s @ nul # post \<and> length pre = off)"

fun orep :: "nat \<Rightarrow> char list \<Rightarrow> foperand \<Rightarrow> toperand \<Rightarrow> bool" where
  "orep ab str o1 (TNum v) \<longleftrightarrow> fo_kind o1 = FO_NUM \<and> fo_num o1 = v"
| "orep ab str o1 (TStr s) \<longleftrightarrow> fo_kind o1 = FO_STR \<and> (\<exists>off. fo_str o1 = In ab off \<and> string_at str off s)"
| "orep ab str o1 (TName s) \<longleftrightarrow> fo_kind o1 = name_kind s \<and> (\<exists>off. fo_str o1 = In ab off \<and> string_at str off s)"

fun rep :: "nat \<Rightarrow> fnode list \<Rightarrow> nat \<Rightarrow> char list \<Rightarrow> nat \<Rightarrow> ptr \<Rightarrow> ftree \<Rightarrow> bool" where
  "rep nb ns ab str lo p (TOr l r) \<longleftrightarrow> (\<exists>i pl pr. p = In nb i \<and> lo \<le> i \<and> i < length ns \<and>
     ns ! i = FN_OR pl pr \<and> rep nb ns ab str lo pl l \<and> rep nb ns ab str lo pr r)"
| "rep nb ns ab str lo p (TAnd l r) \<longleftrightarrow> (\<exists>i pl pr. p = In nb i \<and> lo \<le> i \<and> i < length ns \<and>
     ns ! i = FN_AND pl pr \<and> rep nb ns ab str lo pl l \<and> rep nb ns ab str lo pr r)"
| "rep nb ns ab str lo p (TNot t) \<longleftrightarrow> (\<exists>i c. p = In nb i \<and> lo \<le> i \<and> i < length ns \<and>
     ns ! i = FN_NOT c \<and> rep nb ns ab str lo c t)"
| "rep nb ns ab str lo p (TCmp op l r) \<longleftrightarrow> (\<exists>i ol or. p = In nb i \<and> lo \<le> i \<and> i < length ns \<and>
     ns ! i = FN_CMP op ol or \<and> orep ab str ol l \<and> orep ab str or r)"

fun nsize :: "ftree \<Rightarrow> nat" where
  "nsize (TOr l r) = nsize l + nsize r + 1"
| "nsize (TAnd l r) = nsize l + nsize r + 1"
| "nsize (TNot t) = nsize t + 1"
| "nsize (TCmp op l r) = 1"

fun obytes :: "toperand \<Rightarrow> nat" where
  "obytes (TNum v) = 0"
| "obytes (TStr s) = length s + 1"
| "obytes (TName s) = length s + 1"

fun abytes :: "ftree \<Rightarrow> nat" where
  "abytes (TOr l r) = abytes l + abytes r"
| "abytes (TAnd l r) = abytes l + abytes r"
| "abytes (TNot t) = abytes t"
| "abytes (TCmp op l r) = obytes l + obytes r"

subsection \<open>Later allocations leave a built tree alone\<close>

lemma string_at_append: "string_at str off s \<Longrightarrow> prefix str str' \<Longrightarrow> string_at str' off s"
  by (fastforce simp: string_at_def prefix_def)

lemma orep_append: "orep ab str o1 t \<Longrightarrow> prefix str str' \<Longrightarrow> orep ab str' o1 t"
  by (cases t) (auto intro: string_at_append)

lemma rep_mono:
  assumes "rep nb ns ab str lo p t" "lo' \<le> lo" "prefix str str'" "length ns \<le> length ns'"
    and "\<And>i. lo \<le> i \<Longrightarrow> i < length ns \<Longrightarrow> ns' ! i = ns ! i"
  shows "rep nb ns' ab str' lo' p t"
  using assms
proof (induction t arbitrary: p)
  case (TCmp op l r)
  then show ?case by (fastforce intro: orep_append)
qed fastforce+

lemma prefix_nth: "prefix xs ys \<Longrightarrow> i < length xs \<Longrightarrow> ys ! i = xs ! i"
  by (auto simp: prefix_def nth_append)

lemma prefix_update: "prefix xs ys \<Longrightarrow> length xs \<le> i \<Longrightarrow> prefix xs (ys[i := v])"
  by (auto simp: prefix_def list_update_append)

lemma rep_append:
  "rep nb ns ab str lo p t \<Longrightarrow> prefix str str' \<Longrightarrow> prefix ns ns' \<Longrightarrow> lo' \<le> lo \<Longrightarrow> rep nb ns' ab str' lo' p t"
  by (erule rep_mono) (auto simp: prefix_nth prefix_length_le)

subsection \<open>Building\<close>

text \<open>
  \<open>builds p0 res t q\<close>: from the state \<open>p0\<close> the routine has returned with \<open>res\<close>,
  leaving \<open>q\<close> to read and the tree \<open>t\<close> behind what the arenas held.
\<close>

definition same_blocks :: "fparser \<Rightarrow> fparser \<Rightarrow> bool" where
  "same_blocks p p' \<longleftrightarrow> fp_arena_block p' = fp_arena_block p \<and> fp_arena_cap p' = fp_arena_cap p \<and>
     fp_nodes_block p' = fp_nodes_block p \<and> fp_node_cap p' = fp_node_cap p \<and> fp_requests p' = fp_requests p"

definition grown :: "fparser \<Rightarrow> fparser \<Rightarrow> nat \<Rightarrow> nat \<Rightarrow> bool" where
  "grown p p' n a \<longleftrightarrow> same_blocks p p' \<and> prefix (fp_nodes p) (fp_nodes p') \<and> prefix (fp_arena p) (fp_arena p') \<and>
     length (fp_nodes p') = length (fp_nodes p) + n \<and> length (fp_arena p') = length (fp_arena p) + a"

definition builds :: "fparser \<Rightarrow> (ptr \<times> fparser) pres \<Rightarrow> ftree \<Rightarrow> cstr \<Rightarrow> bool" where
  "builds p0 res t q \<longleftrightarrow> (\<exists>n p. res = Done (n, p) \<and> fp_rest p = q \<and> grown p0 p (nsize t) (abytes t) \<and>
     rep (fp_nodes_block p) (fp_nodes p) (fp_arena_block p) (fp_arena p) (length (fp_nodes p0)) n t)"

definition fits :: "fparser \<Rightarrow> nat \<Rightarrow> nat \<Rightarrow> bool" where
  "fits p n a \<longleftrightarrow> length (fp_nodes p) + n \<le> fp_node_cap p \<and> length (fp_arena p) + a \<le> fp_arena_cap p"

lemma grown_trans: "grown p p1 n a \<Longrightarrow> grown p1 p2 m b \<Longrightarrow> grown p p2 (n + m) (a + b)"
  by (auto simp: grown_def same_blocks_def intro: prefix_order.trans)

lemma grown_rest [simp]: "grown (p\<lparr>fp_rest := q\<rparr>) p' n a = grown p p' n a"
    "grown p (p'\<lparr>fp_rest := q\<rparr>) n a = grown p p' n a"
  by (simp_all add: grown_def same_blocks_def)

lemma builds_rest [simp]: "builds (p0\<lparr>fp_rest := q'\<rparr>) res t q = builds p0 res t q"
  by (simp add: builds_def)

lemma fits_rest [simp]: "fits (p\<lparr>fp_rest := q\<rparr>) n a = fits p n a"
  by (simp add: fits_def)

lemma fits_grown: "grown p0 p n a \<Longrightarrow> fits p0 (n + m) (a + b) \<Longrightarrow> fits p m b"
  by (simp add: fits_def grown_def same_blocks_def)

lemma store_string_builds:
  assumes "length s = len" "fits p 0 (len + 1)"
  shows "\<exists>o1 p'. store_string mem k len s p = Done (o1, p') \<and> fp_rest p' = fp_rest p \<and>
    grown p p' 0 (len + 1) \<and> fo_kind o1 = k \<and>
    (\<exists>off. fo_str o1 = In (fp_arena_block p') off \<and> string_at (fp_arena p') off s)"
proof -
  let ?n = "length (fp_arena p)"
  have push: "arena_push mem (len + 1) p = Done (In (fp_arena_block p) ?n, p\<lparr>fp_arena := fp_arena p @ replicate (len + 1) nul\<rparr>)"
    using assms(2) by (simp add: arena_push_def fits_def)
  show ?thesis
    unfolding store_string_def push using assms(1)
    by (auto simp: arena_write_def grown_def same_blocks_def string_at_def)
qed

lemma parse_operand_builds:
  assumes "t_operand (fp_rest p) = Done (x, q)" "fits p 0 (obytes x)"
  shows "\<exists>o1 p'. parse_operand mem p = Done (o1, p') \<and> fp_rest p' = q \<and> grown p p' 0 (obytes x) \<and>
    fo_kind o1 = operand_kind x \<and> orep (fp_arena_block p') (fp_arena p') o1 x"
proof -
  obtain lx where lx: "lex_operand (skip_ws (fp_rest p)) = Done lx"
    using assms(1) by (auto simp: t_operand_def pbind_Done_iff)
  show ?thesis
  proof (cases lx)
    case (LStr len s r)
    then have x: "x = TStr (string_copy (length r) s)" "q = tl r" using assms(1) lx by (auto simp: t_operand_def)
    have "len = length (string_copy (length r) s)"
      using lx LStr string_scan_copy [of 0 s len r]
      by (auto simp: lex_operand_def Let_def split: if_splits option.splits prod.splits)
    then show ?thesis
      using store_string_builds [of "string_copy (length r) s" len "p\<lparr>fp_rest := r\<rparr>" mem FO_STR] assms(2) lx LStr x
      by (fastforce simp: parse_operand_def)
  next
    case (LNum v r)
    then show ?thesis using assms(1) lx
      by (auto simp: parse_operand_def t_operand_def grown_def same_blocks_def)
  next
    case (LName s r)
    then have x: "x = TName s" "q = r" using assms(1) lx by (auto simp: t_operand_def)
    then show ?thesis
      using store_string_builds [of s "length s" "p\<lparr>fp_rest := r\<rparr>" mem "name_kind s"] assms(2) lx LName
      by (auto simp: parse_operand_def)
  qed
qed


lemma node_new_builds:
  assumes "fits p 1 0"
  shows "\<exists>p'. node_new mem p = Done (In (fp_nodes_block p') (length (fp_nodes p)), p') \<and>
    fp_rest p' = fp_rest p \<and> grown p p' 1 0"
  using assms by (auto simp: node_new_def fits_def grown_def same_blocks_def Let_def)

lemma parse_cmp_builds:
  assumes "t_cmp (fp_rest p) = Done (t, q)" "fits p (nsize t) (abytes t)"
  shows "builds p (parse_cmp mem p) t q"
proof -
  obtain l q1 op q2 r where l: "t_operand (fp_rest p) = Done (l, q1)" and op: "lex_op (skip_ws q1) = Done (op, q2)"
    and r: "t_operand q2 = Done (r, q)" and ty: "type_rule op (operand_kind l) (operand_kind r) = None"
    and t: "t = TCmp op l r"
    using assms(1) by (auto simp: t_cmp_Done)
  have "fits p 1 0" using assms(2) t by (simp add: fits_def)
  then obtain p1 where p1: "node_new mem p = Done (In (fp_nodes_block p1) (length (fp_nodes p)), p1)"
      "fp_rest p1 = fp_rest p" "grown p p1 1 0"
    using node_new_builds by blast
  have f1: "fits p1 0 (obytes l)" using fits_grown [OF p1(3), of 0 "obytes l"] assms(2) t by (simp add: fits_def)
  obtain ol p2 where p2: "parse_operand mem p1 = Done (ol, p2)" "fp_rest p2 = q1" "grown p1 p2 0 (obytes l)"
      "fo_kind ol = operand_kind l" "orep (fp_arena_block p2) (fp_arena p2) ol l"
    using parse_operand_builds [OF _ f1] l p1(2) by metis
  have g2: "grown p p2 1 (obytes l)" using grown_trans [OF p1(3) p2(3)] by simp
  have f2: "fits (p2\<lparr>fp_rest := q2\<rparr>) 0 (obytes r)"
    using fits_grown [OF g2, of 0 "obytes r"] assms(2) t by simp
  obtain or p3 where p3: "parse_operand mem (p2\<lparr>fp_rest := q2\<rparr>) = Done (or, p3)" "fp_rest p3 = q"
      "grown p2 p3 0 (obytes r)" "fo_kind or = operand_kind r" "orep (fp_arena_block p3) (fp_arena p3) or r"
    using parse_operand_builds [OF _ f2, of q mem] r by auto
  have g3: "grown p p3 1 (obytes l + obytes r)" using grown_trans [OF g2 p3(3)] by simp
  have ol: "orep (fp_arena_block p3) (fp_arena p3) ol l"
    using p2(5) p3(3) orep_append by (auto simp: grown_def same_blocks_def)
  have blk: "fp_nodes_block p3 = fp_nodes_block p1"
    using p2(3) p3(3) by (simp add: grown_def same_blocks_def)
  have len: "length (fp_nodes p3) = Suc (length (fp_nodes p))" "prefix (fp_nodes p) (fp_nodes p3)"
    using g3 by (simp_all add: grown_def)
  let ?i = "length (fp_nodes p)" and ?p4 = "p3\<lparr>fp_nodes := (fp_nodes p3)[length (fp_nodes p) := FN_CMP op ol or]\<rparr>"
  have res: "parse_cmp mem p = Done (In (fp_nodes_block p3) ?i, ?p4)"
    using p1(1) p2(1,2,4) p3(1,4) op ty len blk by (simp add: parse_cmp_def node_write_def)
  have "prefix (fp_nodes p) (fp_nodes ?p4)"
    using len(2) by (auto intro: prefix_update)
  then have "grown p ?p4 1 (obytes l + obytes r)" using g3 by (simp add: grown_def same_blocks_def)
  then show ?thesis unfolding builds_def res using p3(2,5) ol len t
    by (auto simp: grown_def same_blocks_def)
qed

lemma parse_bin_builds:
  assumes l: "builds p0 (Done (lhs, p)) l q" and r: "builds p (Done (rhs, p1)) r q1"
    and fit: "fits p0 (nsize t) (abytes t)" and t: "c = FN_OR \<and> t = TOr l r \<or> c = FN_AND \<and> t = TAnd l r"
  shows "builds p0 (parse_bin mem c lhs rhs p1) t q1"
proof -
  have sz: "nsize t = nsize l + nsize r + 1" "abytes t = abytes l + abytes r" using t by auto
  have gl: "grown p0 p (nsize l) (abytes l)" and gr: "grown p p1 (nsize r) (abytes r)" and q1: "fp_rest p1 = q1"
    and rl: "rep (fp_nodes_block p) (fp_nodes p) (fp_arena_block p) (fp_arena p) (length (fp_nodes p0)) lhs l"
    and rr: "rep (fp_nodes_block p1) (fp_nodes p1) (fp_arena_block p1) (fp_arena p1) (length (fp_nodes p)) rhs r"
    using l r by (auto simp: builds_def)
  have g1: "grown p0 p1 (nsize l + nsize r) (abytes l + abytes r)" by (rule grown_trans [OF gl gr])
  have "fits p1 1 0" using fits_grown [OF g1, of 1 0] fit sz by simp
  then obtain p2 where p2: "node_new mem p1 = Done (In (fp_nodes_block p2) (length (fp_nodes p1)), p2)"
      "fp_rest p2 = fp_rest p1" "grown p1 p2 1 0"
    using node_new_builds by blast
  let ?i = "length (fp_nodes p1)"
  let ?p3 = "p2\<lparr>fp_nodes := (fp_nodes p2)[?i := c lhs rhs]\<rparr>"
  have len: "length (fp_nodes p2) = Suc ?i" using p2(3) by (simp add: grown_def)
  have res: "parse_bin mem c lhs rhs p1 = Done (In (fp_nodes_block p2) ?i, ?p3)"
    using p2(1) len by (simp add: parse_bin_def node_write_def)
  have pre: "prefix (fp_nodes p1) (fp_nodes ?p3)" using p2(3) by (auto simp: grown_def intro: prefix_update)
  have g3: "grown p0 ?p3 (nsize t) (abytes t)"
    using grown_trans [OF g1 p2(3)] pre sz g1
    by (auto simp: grown_def same_blocks_def intro: prefix_order.trans)
  have same: "fp_nodes_block ?p3 = fp_nodes_block p" "fp_arena_block ?p3 = fp_arena_block p"
      "fp_nodes_block p1 = fp_nodes_block p" "fp_arena_block p1 = fp_arena_block p"
      "prefix (fp_arena p1) (fp_arena ?p3)" "prefix (fp_arena p) (fp_arena ?p3)" "prefix (fp_nodes p) (fp_nodes ?p3)"
      "length (fp_nodes p0) \<le> length (fp_nodes p)"
    using gl gr p2(3) pre by (auto simp: grown_def same_blocks_def intro: prefix_order.trans)
  have "rep (fp_nodes_block ?p3) (fp_nodes ?p3) (fp_arena_block ?p3) (fp_arena ?p3) (length (fp_nodes p0)) lhs l"
    using rep_append [OF rl same(6,7) order.refl] same(1,2) by simp
  moreover have "rep (fp_nodes_block ?p3) (fp_nodes ?p3) (fp_arena_block ?p3) (fp_arena ?p3) (length (fp_nodes p0)) rhs r"
    using rep_append [OF rr same(5) pre same(8)] same(1-4) by simp
  moreover have "length (fp_nodes p0) \<le> ?i" using g1 by (simp add: grown_def)
  ultimately show ?thesis unfolding builds_def res using g3 p2(2) q1 len t by auto
qed


lemma t_loop_sizes:
  "True"
  "t_or_loop f l q = Done (t, r) \<Longrightarrow> nsize l \<le> nsize t \<and> abytes l \<le> abytes t"
  "True"
  "t_and_loop f l q = Done (t, r) \<Longrightarrow> nsize l \<le> nsize t \<and> abytes l \<le> abytes t"
  "True" "True"
proof (induction f q and f l q and f q and f l q and f q and f q arbitrary: and t r and and t r and and
    rule: t_or_t_or_loop_t_and_t_and_loop_t_not_t_primary.induct)
  case (4 f l q)
  then show ?case by (fastforce simp: pbind_Done_iff split: if_splits)
next
  case (8 f l q)
  then show ?case by (fastforce simp: pbind_Done_iff split: if_splits)
qed auto


text \<open>One round of the \<open>and\<close> and \<open>or\<close> loops.\<close>

lemma loop_builds:
  assumes lhs: "builds p0 (Done (lhs, p)) l q"
    and rhs: "fits p (nsize y) (abytes y) \<Longrightarrow> builds p m y q1"
    and more: "\<And>n p2. builds p0 (Done (n, p2)) t1 q1 \<Longrightarrow> builds p0 (loop n p2) t q'"
    and t1: "c = FN_OR \<and> t1 = TOr l y \<or> c = FN_AND \<and> t1 = TAnd l y"
    and sz: "nsize t1 \<le> nsize t \<and> abytes t1 \<le> abytes t" and fit: "fits p0 (nsize t) (abytes t)"
  shows "builds p0 (pbind m (\<lambda>(rhs, p1). pbind (parse_bin mem c lhs rhs p1) (\<lambda>(n, p2). loop n p2))) t q'"
proof -
  have fit1: "fits p0 (nsize t1) (abytes t1)" using fit sz by (simp add: fits_def)
  have gl: "grown p0 p (nsize l) (abytes l)" using lhs by (auto simp: builds_def)
  have "fits p0 (nsize l + nsize y) (abytes l + abytes y)" using fit1 t1 by (auto simp: fits_def)
  from rhs [OF fits_grown [OF gl this]] obtain rhs p1 where
    b: "m = Done (rhs, p1)" "builds p (Done (rhs, p1)) y q1"
    by (auto simp: builds_def)
  from parse_bin_builds [OF lhs b(2) fit1 t1, of mem] obtain n p2 where
    "parse_bin mem c lhs rhs p1 = Done (n, p2)" "builds p0 (Done (n, p2)) t1 q1"
    by (auto simp: builds_def)
  then show ?thesis using b(1) more by simp
qed

text \<open>The node of a \<open>not\<close> is written twice, around its operand.\<close>

lemma not_builds:
  assumes fit: "fits p (nsize t + 1) (abytes t)"
    and child: "\<And>p2. fp_rest p2 = q \<Longrightarrow> fits p2 (nsize t) (abytes t) \<Longrightarrow> builds p2 (m p2) t q'"
  shows "builds p (pbind (node_new mem (p\<lparr>fp_rest := q\<rparr>)) (\<lambda>(n, p1).
      pbind (node_write n (FN_NOT Null) p1) (\<lambda>p2. pbind (m p2) (\<lambda>(c, p3).
      pbind (node_write n (FN_NOT c) p3) (\<lambda>p4. Done (n, p4)))))) (TNot t) q'"
proof -
  have "fits (p\<lparr>fp_rest := q\<rparr>) 1 0" using fit by (simp add: fits_def)
  then obtain p1 where p1: "node_new mem (p\<lparr>fp_rest := q\<rparr>) = Done (In (fp_nodes_block p1) (length (fp_nodes p)), p1)"
      "fp_rest p1 = q" "grown p p1 1 0"
    using node_new_builds [of "p\<lparr>fp_rest := q\<rparr>" mem] by auto
  let ?i = "length (fp_nodes p)"
  let ?p2 = "p1\<lparr>fp_nodes := (fp_nodes p1)[?i := FN_NOT Null]\<rparr>"
  have len: "length (fp_nodes p1) = Suc ?i" using p1(3) by (simp add: grown_def)
  have g2: "grown p ?p2 1 0"
    using p1(3) by (auto simp: grown_def same_blocks_def intro: prefix_update)
  obtain c p3 where c: "m ?p2 = Done (c, p3)" "fp_rest p3 = q'" "grown ?p2 p3 (nsize t) (abytes t)"
      "rep (fp_nodes_block p3) (fp_nodes p3) (fp_arena_block p3) (fp_arena p3) (Suc ?i) c t"
    using child [of ?p2] p1(2) fits_grown [OF g2, of "nsize t" "abytes t"] fit len
    by (auto simp: builds_def add.commute)
  let ?p4 = "p3\<lparr>fp_nodes := (fp_nodes p3)[?i := FN_NOT c]\<rparr>"
  have g3: "grown p p3 (nsize t + 1) (abytes t)" using grown_trans [OF g2 c(3)] by (simp add: add.commute)
  then have len3: "?i < length (fp_nodes p3)" by (simp add: grown_def)
  have blk: "fp_nodes_block p3 = fp_nodes_block p1" using c(3) by (simp add: grown_def same_blocks_def)
  have "grown p ?p4 (nsize t + 1) (abytes t)"
    using g3 by (auto simp: grown_def same_blocks_def intro: prefix_update)
  moreover have "rep (fp_nodes_block p3) (fp_nodes ?p4) (fp_arena_block p3) (fp_arena p3) ?i c t"
    by (rule rep_mono [OF c(4)]) auto
  ultimately show ?thesis
    using p1(1) len c(1,2) len3 blk by (simp add: node_write_def builds_def)
qed

lemma parse_builds:
  "t_or f (fp_rest p) = Done (t, q') \<Longrightarrow> fits p (nsize t) (abytes t) \<Longrightarrow> builds p (parse_or mem f p) t q'"
  "builds p0 (Done (lhs, p)) l (fp_rest p) \<Longrightarrow> t_or_loop f l (fp_rest p) = Done (t, q') \<Longrightarrow>
     fits p0 (nsize t) (abytes t) \<Longrightarrow> builds p0 (or_loop mem f lhs p) t q'"
  "t_and f (fp_rest p) = Done (t, q') \<Longrightarrow> fits p (nsize t) (abytes t) \<Longrightarrow> builds p (parse_and mem f p) t q'"
  "builds p0 (Done (lhs, p)) l (fp_rest p) \<Longrightarrow> t_and_loop f l (fp_rest p) = Done (t, q') \<Longrightarrow>
     fits p0 (nsize t) (abytes t) \<Longrightarrow> builds p0 (and_loop mem f lhs p) t q'"
  "t_not f (fp_rest p) = Done (t, q') \<Longrightarrow> fits p (nsize t) (abytes t) \<Longrightarrow> builds p (parse_not mem f p) t q'"
  "t_primary f (fp_rest p) = Done (t, q') \<Longrightarrow> fits p (nsize t) (abytes t) \<Longrightarrow> builds p (parse_primary mem f p) t q'"
proof (induction mem f p and mem f lhs p and mem f p and mem f lhs p and mem f p and mem f p
    arbitrary: t q' and p0 l t q' and t q' and p0 l t q' and t q' and t q'
    rule: parse_or_or_loop_parse_and_and_loop_parse_not_parse_primary.induct)
  case (2 mem f p)
  obtain l q1 where l: "t_and f (fp_rest p) = Done (l, q1)" "t_or_loop f l q1 = Done (t, q')"
    using "2.prems"(1) by (auto simp: pbind_Done_iff)
  then have "fits p (nsize l) (abytes l)" using t_loop_sizes(2) [OF l(2)] "2.prems"(2) by (simp add: fits_def)
  with "2.IH"(1) [OF l(1)] obtain n p1 where
    n: "parse_and mem f p = Done (n, p1)" "builds p (Done (n, p1)) l q1" "fp_rest p1 = q1"
    by (auto simp: builds_def)
  then show ?case using "2.IH"(2) [of p n p1 l t q'] l(2) "2.prems"(2) by simp
next
  case (4 mem f lhs p)
  let ?q = "skip_ws (fp_rest p)"
  show ?case
  proof (cases "at_keyword ?q ''or''")
    case True
    obtain y q1 where y: "t_and f (drop 2 ?q) = Done (y, q1)" "t_or_loop f (TOr l y) q1 = Done (t, q')"
      using "4.prems"(2) True by (auto simp: pbind_Done_iff)
    have rhs: "fits p (nsize y) (abytes y) \<Longrightarrow> builds p (parse_and mem f (p\<lparr>fp_rest := drop 2 ?q\<rparr>)) y q1"
      using "4.IH"(1) [OF refl True, of y q1] y(1) by simp
    have more: "builds p0 (or_loop mem f n p2) t q'" if "builds p0 (Done (n, p2)) (TOr l y) q1" for n p2
    proof -
      have "fp_rest p2 = q1" using that by (simp add: builds_def)
      then show ?thesis using "4.IH"(2) [OF refl True, of p0 n p2] that y(2) "4.prems"(3) by simp
    qed
    show ?thesis
      using loop_builds [where loop = "or_loop mem f" and c = FN_OR and mem = mem,
          OF "4.prems"(1) rhs more _ _ "4.prems"(3)] t_loop_sizes(2) [OF y(2)] True
      by (simp add: Let_def)
  next
    case False
    then show ?thesis using "4.prems" by (auto simp: Let_def builds_def)
  qed
next
  case (6 mem f p)
  obtain l q1 where l: "t_not f (fp_rest p) = Done (l, q1)" "t_and_loop f l q1 = Done (t, q')"
    using "6.prems"(1) by (auto simp: pbind_Done_iff)
  then have "fits p (nsize l) (abytes l)" using t_loop_sizes(4) [OF l(2)] "6.prems"(2) by (simp add: fits_def)
  with "6.IH"(1) [OF l(1)] obtain n p1 where
    n: "parse_not mem f p = Done (n, p1)" "builds p (Done (n, p1)) l q1" "fp_rest p1 = q1"
    by (auto simp: builds_def)
  then show ?case using "6.IH"(2) [of p n p1 l t q'] l(2) "6.prems"(2) by simp
next
  case (8 mem f lhs p)
  let ?q = "skip_ws (fp_rest p)"
  show ?case
  proof (cases "at_keyword ?q ''and''")
    case True
    obtain y q1 where y: "t_not f (drop 3 ?q) = Done (y, q1)" "t_and_loop f (TAnd l y) q1 = Done (t, q')"
      using "8.prems"(2) True by (auto simp: pbind_Done_iff)
    have rhs: "fits p (nsize y) (abytes y) \<Longrightarrow> builds p (parse_not mem f (p\<lparr>fp_rest := drop 3 ?q\<rparr>)) y q1"
      using "8.IH"(1) [OF refl True, of y q1] y(1) by simp
    have more: "builds p0 (and_loop mem f n p2) t q'" if "builds p0 (Done (n, p2)) (TAnd l y) q1" for n p2
    proof -
      have "fp_rest p2 = q1" using that by (simp add: builds_def)
      then show ?thesis using "8.IH"(2) [OF refl True, of p0 n p2] that y(2) "8.prems"(3) by simp
    qed
    show ?thesis
      using loop_builds [where loop = "and_loop mem f" and c = FN_AND and mem = mem,
          OF "8.prems"(1) rhs more _ _ "8.prems"(3)] t_loop_sizes(4) [OF y(2)] True
      by (simp add: Let_def)
  next
    case False
    then show ?thesis using "8.prems" by (auto simp: Let_def builds_def)
  qed
next
  case (10 mem f p)
  let ?q = "skip_ws (fp_rest p)"
  show ?case
  proof (cases "at_keyword ?q ''not''")
    case True
    then obtain t1 where t1: "t_not f (drop 3 ?q) = Done (t1, q')" "t = TNot t1"
      using "10.prems"(1) by (auto simp: pbind_Done_iff)
    have "builds p2 (parse_not mem f p2) t1 q'"
      if "fp_rest p2 = drop 3 ?q" "fits p2 (nsize t1) (abytes t1)" for p2
      using "10.IH"(1) [OF refl True] t1 that by simp
    then show ?thesis
      using not_builds [where m = "parse_not mem f" and mem = mem] "10.prems"(2) t1(2) True by (simp add: Let_def)
  next
    case False
    then show ?thesis using "10.IH"(2) [OF refl False] "10.prems" by (simp add: Let_def)
  qed
next
  case (12 mem f p)
  let ?q = "skip_ws (fp_rest p)"
  show ?case
  proof (cases "cget ?q 0 = CHR ''(''")
    case True
    then obtain q1 where q1: "t_or f (tl ?q) = Done (t, q1)" "cget (skip_ws q1) 0 = CHR '')''" "q' = tl (skip_ws q1)"
      using "12.prems"(1) by (auto simp: pbind_Done_iff split: if_splits)
    then have "builds p (parse_or mem f (p\<lparr>fp_rest := tl ?q\<rparr>)) t q1"
      using "12.IH" [OF refl True] "12.prems"(2) by simp
    then show ?thesis using True q1 by (auto simp: Let_def builds_def)
  next
    case False
    then show ?thesis using parse_cmp_builds [of "p\<lparr>fp_rest := ?q\<rparr>" t q' mem] "12.prems" by (simp add: Let_def)
  qed
qed auto

end
