(* ===== verification/Memo_Cache.thy ===== *)
theory Memo_Cache
  imports Retrace_Prelude
begin

section \<open>The contract of a memo table\<close>

text \<open>
  A fixed-size table in front of a lookup that is costly: it may forget, but what it
  answers it has been told.  The caller cache (\<open>src/src/core/caller_cache.c\<close>) keeps
  \<open>dladdr\<close> results this way and the engine its resolved functions.  A client that fills
  the table only with the answers of the lookup behind it cannot tell the two apart.
\<close>

locale memo_cache =
  fixes invar :: "'c \<Rightarrow> bool"
    and lookup :: "'c \<Rightarrow> 'k \<Rightarrow> 'v option"
    and insert :: "'k \<Rightarrow> 'v \<Rightarrow> 'c \<Rightarrow> 'c"
    and valid :: "'k \<Rightarrow> bool"
  assumes insert_invar: "invar c \<Longrightarrow> valid k \<Longrightarrow> invar (insert k v c)"
    and lookup_insert: "invar c \<Longrightarrow> valid k \<Longrightarrow> lookup (insert k v c) k' = Some w \<Longrightarrow>
      k' = k \<and> w = v \<or> lookup c k' = Some w"
begin

definition faithful :: "('k \<Rightarrow> 'v option) \<Rightarrow> 'c \<Rightarrow> bool" where
  "faithful f c \<longleftrightarrow> invar c \<and> (\<forall>k v. lookup c k = Some v \<longrightarrow> f k = Some v)"

definition memo :: "('k \<Rightarrow> 'v option) \<Rightarrow> 'c \<Rightarrow> 'k \<Rightarrow> 'v option \<times> 'c" where
  "memo f c k = (case lookup c k of
     Some v \<Rightarrow> (Some v, c)
   | None \<Rightarrow> (case f k of None \<Rightarrow> (None, c) | Some v \<Rightarrow> (Some v, insert k v c)))"

theorem memo_transparent:
  assumes "faithful f c" "valid k"
  shows "fst (memo f c k) = f k \<and> faithful f (snd (memo f c k))"
  using assms insert_invar lookup_insert
  by (auto simp: memo_def faithful_def split: option.split) blast

text \<open>A sequence of queries through the table answers as the lookup behind it does.\<close>

fun memo_run :: "('k \<Rightarrow> 'v option) \<Rightarrow> 'c \<Rightarrow> 'k list \<Rightarrow> 'v option list \<times> 'c" where
  "memo_run f c [] = ([], c)"
| "memo_run f c (k # ks) = (case memo f c k of (v, c1) \<Rightarrow>
     (case memo_run f c1 ks of (vs, c2) \<Rightarrow> (v # vs, c2)))"

theorem memo_run_transparent:
  assumes "faithful f c" "list_all valid ks"
  shows "fst (memo_run f c ks) = map f ks \<and> faithful f (snd (memo_run f c ks))"
  using assms
proof (induction ks arbitrary: c)
  case (Cons k ks)
  obtain v c1 where m: "memo f c k = (v, c1)" by (cases "memo f c k")
  have "v = f k" "faithful f c1" using memo_transparent [of f c k] Cons.prems m by auto
  then show ?case using Cons.IH [of c1] Cons.prems m by (auto split: prod.splits)
qed simp

end

end
