(* ===== verification/Caller_Cache.thy ===== *)
theory Caller_Cache
  imports Memo_Cache
begin

section \<open>Caller cache and caller matching (\<open>src/src/core/caller_cache.c\<close>, \<open>caller_match.c\<close>)\<close>

text \<open>
  \<open>dladdr\<close> is a parameter: the module and symbol it reports for an address, or
  nothing.  The cache is an array of 256 entries; address 0 marks an empty slot.  The
  mutex makes each operation atomic and is not modelled.
\<close>

type_synonym addr = "64 word"

record rc_dl_info =
  dli_fname :: "cstr option"
  dli_fbase :: addr
  dli_sname :: "cstr option"
  dli_saddr :: addr

record caller_cache_entry =
  cce_ret_addr :: addr
  cce_info :: rc_dl_info

record caller_cache =
  g_cache :: "caller_cache_entry list"
  g_cache_hits :: "64 word"
  g_cache_misses :: "64 word"

definition CALLER_CACHE_SIZE :: nat where "CALLER_CACHE_SIZE = 256"

text \<open>The scans of the three loops: the first slot that holds an address.\<close>

fun find_slot :: "addr \<Rightarrow> nat \<Rightarrow> caller_cache_entry list \<Rightarrow> nat option" where
  "find_slot a i [] = None"
| "find_slot a i (e # es) = (if cce_ret_addr e = a then Some i else find_slot a (Suc i) es)"

definition retrace_caller_cache_lookup :: "addr \<Rightarrow> caller_cache \<Rightarrow> rc_dl_info option \<times> caller_cache" where
  "retrace_caller_cache_lookup a c =
     (if a = 0 then (None, c)
      else case find_slot a 0 (g_cache c) of
             Some i \<Rightarrow> (Some (cce_info (g_cache c ! i)), c\<lparr>g_cache_hits := g_cache_hits c + 1\<rparr>)
           | None \<Rightarrow> (None, c\<lparr>g_cache_misses := g_cache_misses c + 1\<rparr>))"

definition retrace_caller_cache_insert :: "addr \<Rightarrow> rc_dl_info \<Rightarrow> caller_cache \<Rightarrow> caller_cache" where
  "retrace_caller_cache_insert a info c =
     (if a = 0 then c
      else
        let slot = (case find_slot a 0 (g_cache c) of
                      Some i \<Rightarrow> i
                    | None \<Rightarrow> (case find_slot 0 0 (g_cache c) of Some i \<Rightarrow> i | None \<Rightarrow> 0))
        in c\<lparr>g_cache := (g_cache c)[slot := \<lparr>cce_ret_addr = a, cce_info = info\<rparr>]\<rparr>)"

definition retrace_caller_cache_clear :: "caller_cache \<Rightarrow> caller_cache" where
  "retrace_caller_cache_clear c =
     c\<lparr>g_cache := map (\<lambda>e. e\<lparr>cce_ret_addr := 0\<rparr>) (g_cache c), g_cache_hits := 0, g_cache_misses := 0\<rparr>"

definition retrace_caller_cache_stats :: "caller_cache \<Rightarrow> 64 word \<times> 64 word" where
  "retrace_caller_cache_stats c = (g_cache_hits c, g_cache_misses c)"

subsection \<open>Matching\<close>

fun path_basename_loop :: "cstr \<Rightarrow> cstr option \<Rightarrow> cstr option" where
  "path_basename_loop [] slash = slash"
| "path_basename_loop (c # p) slash = path_basename_loop p (if c = CHR ''/'' then Some (c # p) else slash)"

definition path_basename :: "cstr \<Rightarrow> cstr" where
  "path_basename path = (case path_basename_loop path None of Some s \<Rightarrow> tl s | None \<Rightarrow> path)"

definition cached_dladdr ::
    "(addr \<Rightarrow> rc_dl_info option) \<Rightarrow> addr \<Rightarrow> caller_cache \<Rightarrow> rc_dl_info option \<times> caller_cache" where
  "cached_dladdr dladdr a c =
     (case retrace_caller_cache_lookup a c of
        (Some info, c1) \<Rightarrow> (Some info, c1)
      | (None, c1) \<Rightarrow>
          (case dladdr a of
             None \<Rightarrow> (None, c1)
           | Some info \<Rightarrow> (Some info, retrace_caller_cache_insert a info c1)))"

definition retrace_caller_match_address :: "addr \<Rightarrow> 64 word \<Rightarrow> int" where
  "retrace_caller_match_address a expected = (if a = 0 then -1 else if a = expected then 1 else 0)"

definition retrace_caller_match_symbol ::
    "(addr \<Rightarrow> rc_dl_info option) \<Rightarrow> addr \<Rightarrow> cstr option \<Rightarrow> caller_cache \<Rightarrow> int \<times> caller_cache" where
  "retrace_caller_match_symbol dladdr a expected c =
     (case expected of
        None \<Rightarrow> (-1, c)
      | Some name \<Rightarrow>
          if a = 0 \<or> name = [] then (-1, c)
          else (case cached_dladdr dladdr a c of
                  (None, c1) \<Rightarrow> (-1, c1)
                | (Some info, c1) \<Rightarrow>
                    ((case dli_sname info of
                        None \<Rightarrow> 0
                      | Some s \<Rightarrow> if s = [] then 0 else if s = name then 1 else 0), c1)))"

definition retrace_caller_match_module_offset ::
    "(addr \<Rightarrow> rc_dl_info option) \<Rightarrow> addr \<Rightarrow> cstr option \<Rightarrow> 64 word \<Rightarrow> caller_cache \<Rightarrow> int \<times> caller_cache" where
  "retrace_caller_match_module_offset dladdr a expected off c =
     (case expected of
        None \<Rightarrow> (-1, c)
      | Some base \<Rightarrow>
          if a = 0 \<or> base = [] then (-1, c)
          else (case cached_dladdr dladdr a c of
                  (None, c1) \<Rightarrow> (-1, c1)
                | (Some info, c1) \<Rightarrow>
                    ((case dli_fname info of
                        None \<Rightarrow> 0
                      | Some f \<Rightarrow>
                          if dli_fbase info = 0 then 0
                          else if path_basename f \<noteq> base then 0
                          else if a - dli_fbase info = off then 1 else 0), c1)))"

datatype caller_match_kind = CM_UNKNOWN | CM_ADDRESS | CM_SYMBOL | CM_MODULE_OFFSET

definition retrace_caller_match_kind_from_string :: "cstr option \<Rightarrow> caller_match_kind" where
  "retrace_caller_match_kind_from_string s =
     (if s = None then CM_UNKNOWN
      else if s = Some ''address'' then CM_ADDRESS
      else if s = Some ''symbol'' then CM_SYMBOL
      else if s = Some ''offset_in_module'' then CM_MODULE_OFFSET
      else CM_UNKNOWN)"

subsection \<open>The cache as a memo table\<close>

text \<open>No address is cached twice.\<close>

definition cc_inv :: "caller_cache \<Rightarrow> bool" where
  "cc_inv c \<longleftrightarrow> length (g_cache c) = CALLER_CACHE_SIZE \<and>
     (\<forall>i<length (g_cache c). \<forall>j<length (g_cache c). cce_ret_addr (g_cache c ! i) \<noteq> 0 \<longrightarrow>
        cce_ret_addr (g_cache c ! i) = cce_ret_addr (g_cache c ! j) \<longrightarrow> i = j)"

definition cc_lookup :: "caller_cache \<Rightarrow> addr \<Rightarrow> rc_dl_info option" where
  "cc_lookup c a = fst (retrace_caller_cache_lookup a c)"

lemma find_slot_None: "find_slot a i es = None \<longleftrightarrow> (\<forall>j<length es. cce_ret_addr (es ! j) \<noteq> a)"
  by (induction a i es rule: find_slot.induct) (auto simp: All_less_Suc2)

lemma find_slot_Some:
  "find_slot a i es = Some k \<Longrightarrow> i \<le> k \<and> k - i < length es \<and> cce_ret_addr (es ! (k - i)) = a"
proof (induction a i es rule: find_slot.induct)
  case (2 a i e es)
  then show ?case by (auto split: if_splits simp: nth_Cons' Suc_le_eq)
qed simp

lemmas find_slot0 = find_slot_Some [where i = 0, simplified]

lemma cc_lookup_iff:
  assumes "cc_inv c"
  shows "cc_lookup c a = Some w \<longleftrightarrow>
    a \<noteq> 0 \<and> (\<exists>i<length (g_cache c). cce_ret_addr (g_cache c ! i) = a \<and> cce_info (g_cache c ! i) = w)"
proof (cases "find_slot a 0 (g_cache c)")
  case None
  then have "cc_lookup c a = None" by (simp add: cc_lookup_def retrace_caller_cache_lookup_def)
  then show ?thesis using None by (auto simp: find_slot_None)
next
  case (Some k)
  note k = find_slot0 [OF Some]
  show ?thesis
  proof (cases "a = 0")
    case False
    then have "cc_lookup c a = Some (cce_info (g_cache c ! k))"
      using Some by (simp add: cc_lookup_def retrace_caller_cache_lookup_def)
    moreover have "i = k" if "i < length (g_cache c)" "cce_ret_addr (g_cache c ! i) = a" for i
      using assms that k False by (auto simp: cc_inv_def)
    ultimately show ?thesis using k False by auto
  qed (simp add: cc_lookup_def retrace_caller_cache_lookup_def)
qed

definition insert_slot :: "addr \<Rightarrow> caller_cache \<Rightarrow> nat" where
  "insert_slot a c = (case find_slot a 0 (g_cache c) of
     Some i \<Rightarrow> i | None \<Rightarrow> (case find_slot 0 0 (g_cache c) of Some i \<Rightarrow> i | None \<Rightarrow> 0))"

lemma insert_slot_entries:
  "a \<noteq> 0 \<Longrightarrow> g_cache (retrace_caller_cache_insert a info c) =
     (g_cache c)[insert_slot a c := \<lparr>cce_ret_addr = a, cce_info = info\<rparr>]"
  by (simp add: retrace_caller_cache_insert_def insert_slot_def Let_def)

text \<open>The slot an address is written to is the only one that may hold it.\<close>

lemma insert_slot_unique:
  assumes "cc_inv c" "a \<noteq> 0"
  shows "insert_slot a c < length (g_cache c) \<and>
    (\<forall>j<length (g_cache c). cce_ret_addr (g_cache c ! j) = a \<longrightarrow> j = insert_slot a c)"
proof (cases "find_slot a 0 (g_cache c)")
  case None
  then have "\<forall>j<length (g_cache c). cce_ret_addr (g_cache c ! j) \<noteq> a" by (simp add: find_slot_None)
  moreover have "insert_slot a c < length (g_cache c)"
    using None assms(1) find_slot0 [of 0 "g_cache c"]
    by (auto simp: insert_slot_def cc_inv_def CALLER_CACHE_SIZE_def split: option.split)
  ultimately show ?thesis by blast
next
  case (Some k)
  then have "insert_slot a c = k" by (simp add: insert_slot_def)
  then show ?thesis using find_slot0 [OF Some] assms by (auto simp: cc_inv_def)
qed

lemma cc_insert_inv:
  assumes "cc_inv c" "a \<noteq> 0" shows "cc_inv (retrace_caller_cache_insert a info c)"
proof -
  let ?es = "g_cache c" and ?s = "insert_slot a c" and ?e = "\<lparr>cce_ret_addr = a, cce_info = info\<rparr>"
  note u = insert_slot_unique [OF assms]
  have upd: "cce_ret_addr (?es[?s := ?e] ! i) = (if i = ?s then a else cce_ret_addr (?es ! i))"
    if "i < length ?es" for i using that by (simp add: nth_list_update)
  have uniq: "i = j" if "i < length ?es" "j < length ?es" "cce_ret_addr (?es ! i) \<noteq> 0"
      "cce_ret_addr (?es ! i) = cce_ret_addr (?es ! j)" for i j
    using assms(1) that by (simp add: cc_inv_def)
  have new: "i = j" if "i < length ?es" "j < length ?es" "cce_ret_addr (?es[?s := ?e] ! i) \<noteq> 0"
      "cce_ret_addr (?es[?s := ?e] ! i) = cce_ret_addr (?es[?s := ?e] ! j)" for i j
  proof (cases "i = ?s")
    case True
    then have "j = ?s \<or> cce_ret_addr (?es ! j) = a" using that(1,2,4) upd [of i] upd [of j]
      by (auto split: if_splits)
    then have "j = ?s" using conjunct2 [OF u] that(2) by metis
    then show ?thesis using True by simp
  next
    case False
    show ?thesis
    proof (cases "j = ?s")
      case True
      then have "cce_ret_addr (?es ! i) = a" using False that(1,2,4) upd [of i] upd [of j] by (simp split: if_splits)
      then show ?thesis using conjunct2 [OF u] that(1) False by metis
    next
      case j: False
      have "cce_ret_addr (?es ! i) \<noteq> 0" "cce_ret_addr (?es ! i) = cce_ret_addr (?es ! j)"
        using that upd [OF that(1)] upd [OF that(2)] False j by simp_all
      then show ?thesis using uniq that(1,2) by metis
    qed
  qed
  have "length ?es = CALLER_CACHE_SIZE" using assms(1) by (simp add: cc_inv_def)
  then show ?thesis unfolding cc_inv_def insert_slot_entries [OF assms(2)]
    by (intro conjI allI impI, simp) (rule new, simp_all)
qed

lemma cc_lookup_insert:
  assumes "cc_inv c" "a \<noteq> 0"
  shows "cc_lookup (retrace_caller_cache_insert a info c) b = Some w \<longleftrightarrow>
    (if a = b then w = info
     else cc_lookup c b = Some w \<and> cce_ret_addr (g_cache c ! insert_slot a c) \<noteq> b)"
proof -
  let ?es = "g_cache c" and ?s = "insert_slot a c" and ?e = "\<lparr>cce_ret_addr = a, cce_info = info\<rparr>"
  note u = insert_slot_unique [OF assms]
  have "cc_lookup (retrace_caller_cache_insert a info c) b = Some w \<longleftrightarrow>
      b \<noteq> 0 \<and> (\<exists>i<length ?es. cce_ret_addr (?es[?s := ?e] ! i) = b \<and> cce_info (?es[?s := ?e] ! i) = w)"
    by (simp add: cc_lookup_iff [OF cc_insert_inv [OF assms]] insert_slot_entries [OF assms(2)])
  also have "(\<exists>i<length ?es. cce_ret_addr (?es[?s := ?e] ! i) = b \<and> cce_info (?es[?s := ?e] ! i) = w) \<longleftrightarrow>
      a = b \<and> info = w \<or> (\<exists>i<length ?es. i \<noteq> ?s \<and> cce_ret_addr (?es ! i) = b \<and> cce_info (?es ! i) = w)"
    (is "?l \<longleftrightarrow> ?r")
  proof
    assume ?l
    then obtain i where "i < length ?es" "cce_ret_addr (?es[?s := ?e] ! i) = b" "cce_info (?es[?s := ?e] ! i) = w"
      by blast
    then show ?r by (cases "i = ?s") auto
  next
    assume ?r
    then show ?l
    proof (elim disjE exE conjE)
      assume "a = b" "info = w"
      then show ?l using u by (intro exI [of _ ?s]) simp
    next
      fix i assume "i < length ?es" "i \<noteq> ?s" "cce_ret_addr (?es ! i) = b" "cce_info (?es ! i) = w"
      then show ?l by (intro exI [of _ i]) simp
    qed
  qed
  finally have new: "cc_lookup (retrace_caller_cache_insert a info c) b = Some w \<longleftrightarrow>
      b \<noteq> 0 \<and> (a = b \<and> info = w \<or> (\<exists>i<length ?es. i \<noteq> ?s \<and> cce_ret_addr (?es ! i) = b \<and> cce_info (?es ! i) = w))" .
  show ?thesis
  proof (cases "a = b")
    case True
    then show ?thesis unfolding new using u assms(2) by auto
  next
    case False
    have "i = ?s" if "i < length ?es" "cce_ret_addr (?es ! i) = b" "cce_ret_addr (?es ! ?s) = b" "b \<noteq> 0" for i
      using that conjunct1 [OF u] conjunct2 [OF assms(1) [unfolded cc_inv_def], rule_format, of i ?s] by simp
    then have "(\<exists>i<length ?es. i \<noteq> ?s \<and> cce_ret_addr (?es ! i) = b \<and> cce_info (?es ! i) = w) \<longleftrightarrow>
        (\<exists>i<length ?es. cce_ret_addr (?es ! i) = b \<and> cce_info (?es ! i) = w) \<and> cce_ret_addr (?es ! ?s) \<noteq> b"
      if "b \<noteq> 0" using that by blast
    then show ?thesis unfolding new cc_lookup_iff [OF assms(1)] using False by (cases "b = 0") simp_all
  qed
qed

interpretation cc: memo_cache cc_inv cc_lookup retrace_caller_cache_insert "\<lambda>a. a \<noteq> 0"
proof (unfold_locales, goal_cases)
  case (1 c k v)
  then show ?case by (rule cc_insert_inv)
next
  case (2 c k v k' w)
  then show ?case using cc_lookup_insert [of c k v k' w] by (simp split: if_splits)
qed

text \<open>The counters do not matter to what the cache holds.\<close>

lemma cc_lookup_stats: "g_cache c = g_cache c' \<Longrightarrow> cc_lookup c a = cc_lookup c' a"
  by (simp add: cc_lookup_def retrace_caller_cache_lookup_def split: option.split)

lemma cc_faithful_stats: "g_cache c = g_cache c' \<Longrightarrow> cc.faithful f c = cc.faithful f c'"
  using cc_lookup_stats [of c c'] by (simp add: cc.faithful_def cc_inv_def)

lemma cached_dladdr_memo:
  assumes "a \<noteq> 0"
  shows "fst (cached_dladdr dladdr a c) = fst (cc.memo dladdr c a) \<and>
    g_cache (snd (cached_dladdr dladdr a c)) = g_cache (snd (cc.memo dladdr c a))"
  using assms
  by (auto simp: cached_dladdr_def cc.memo_def cc_lookup_def retrace_caller_cache_lookup_def
      retrace_caller_cache_insert_def Let_def split: option.split)

lemma cached_dladdr_faithful:
  assumes "cc.faithful dladdr c" "a \<noteq> 0"
  shows "fst (cached_dladdr dladdr a c) = dladdr a \<and> cc.faithful dladdr (snd (cached_dladdr dladdr a c))"
  using cc.memo_transparent [OF assms] cached_dladdr_memo [OF assms(2), of dladdr c]
    cc_faithful_stats [of "snd (cached_dladdr dladdr a c)" "snd (cc.memo dladdr c a)"] by simp


definition cache_ok :: "(addr \<Rightarrow> rc_dl_info option) \<Rightarrow> caller_cache \<Rightarrow> bool" where
  "cache_ok dladdr c \<longleftrightarrow> cc_inv c \<and> (\<forall>a info. cc_lookup c a = Some info \<longrightarrow> dladdr a = Some info)"

lemma cache_ok_faithful: "cache_ok dladdr c = cc.faithful dladdr c"
  by (simp add: cache_ok_def cc.faithful_def)

definition symbol_match :: "(addr \<Rightarrow> rc_dl_info option) \<Rightarrow> addr \<Rightarrow> cstr \<Rightarrow> int" where
  "symbol_match dladdr a s = (case dladdr a of
     None \<Rightarrow> -1 | Some info \<Rightarrow> if dli_sname info = Some s then 1 else 0)"

definition module_match :: "(addr \<Rightarrow> rc_dl_info option) \<Rightarrow> addr \<Rightarrow> cstr \<Rightarrow> 64 word \<Rightarrow> int" where
  "module_match dladdr a base off = (case dladdr a of
     None \<Rightarrow> -1
   | Some info \<Rightarrow>
       if (\<exists>f. dli_fname info = Some f \<and> path_basename f = base) \<and> dli_fbase info \<noteq> 0 \<and>
          a = dli_fbase info + off then 1 else 0)"

lemma symbol_match_cached:
  "a \<noteq> 0 \<Longrightarrow> s \<noteq> [] \<Longrightarrow> cached_dladdr dladdr a c = (dladdr a, c1) \<Longrightarrow>
     retrace_caller_match_symbol dladdr a (Some s) c = (symbol_match dladdr a s, c1)"
  by (auto simp: retrace_caller_match_symbol_def symbol_match_def split: option.split)

lemma module_match_cached:
  "a \<noteq> 0 \<Longrightarrow> base \<noteq> [] \<Longrightarrow> cached_dladdr dladdr a c = (dladdr a, c1) \<Longrightarrow>
     retrace_caller_match_module_offset dladdr a (Some base) off c = (module_match dladdr a base off, c1)"
  by (auto simp: retrace_caller_match_module_offset_def module_match_def algebra_simps split: option.split)

text \<open>
  C31. The cache is invisible: over a cache that holds only what \<open>dladdr\<close> answered
  before, matching a caller by symbol or by module and offset gives what the match
  computed from \<open>dladdr\<close> itself gives, and the cache stays that way.
\<close>

theorem caller_match_transparent:
  assumes "cache_ok dladdr c" "a \<noteq> 0" "s \<noteq> []"
  shows "fst (retrace_caller_match_symbol dladdr a (Some s) c) = symbol_match dladdr a s \<and>
    cache_ok dladdr (snd (retrace_caller_match_symbol dladdr a (Some s) c)) \<and>
    fst (retrace_caller_match_module_offset dladdr a (Some s) off c) = module_match dladdr a s off \<and>
    cache_ok dladdr (snd (retrace_caller_match_module_offset dladdr a (Some s) off c))"
proof -
  obtain c1 where "cached_dladdr dladdr a c = (dladdr a, c1)" "cache_ok dladdr c1"
    using cached_dladdr_faithful [of dladdr c a] assms(1,2)
    by (metis cache_ok_faithful prod.collapse)
  then show ?thesis
    using symbol_match_cached module_match_cached assms(2,3) by simp
qed

definition empty_cache :: caller_cache where
  "empty_cache = \<lparr>g_cache = replicate CALLER_CACHE_SIZE
     \<lparr>cce_ret_addr = 0, cce_info = \<lparr>dli_fname = None, dli_fbase = 0, dli_sname = None, dli_saddr = 0\<rparr>\<rparr>,
     g_cache_hits = 0, g_cache_misses = 0\<rparr>"

lemma empty_cache_ok: "cache_ok dladdr empty_cache"
proof -
  have inv: "cc_inv empty_cache" by (simp add: cc_inv_def empty_cache_def)
  show ?thesis unfolding cache_ok_def cc_lookup_iff [OF inv] by (simp add: inv) (auto simp: empty_cache_def)
qed

theorem caller_match_transparent_witness:
  "fst (retrace_caller_match_symbol
      (\<lambda>a. Some \<lparr>dli_fname = Some ''/usr/lib/libc.so'', dli_fbase = 4096, dli_sname = Some ''main'', dli_saddr = 4096\<rparr>)
      4100 (Some ''main'') empty_cache) = 1"
  using caller_match_transparent [OF empty_cache_ok, of 4100 "''main''"
      "\<lambda>a. Some \<lparr>dli_fname = Some ''/usr/lib/libc.so'', dli_fbase = 4096, dli_sname = Some ''main'', dli_saddr = 4096\<rparr>"]
  by (simp add: symbol_match_def)

text \<open>
  A full cache replaces slot 0 every time: of two new addresses inserted one after
  the other the first is forgotten at once, while every older entry but one stays.  The
  header describes the eviction as overwriting the oldest slot by a circular index.
\<close>

theorem caller_cache_full_evicts_newest:
  assumes "cc_inv c" "\<forall>i<256. cce_ret_addr (g_cache c ! i) \<noteq> 0" "a \<noteq> b" "a \<noteq> 0" "b \<noteq> 0"
    and "cc_lookup c a = None" "cc_lookup c b = None"
  shows "cc_lookup (retrace_caller_cache_insert b ib (retrace_caller_cache_insert a ia c)) a = None \<and>
    (\<forall>i. 0 < i \<and> i < 256 \<longrightarrow> g_cache (retrace_caller_cache_insert b ib (retrace_caller_cache_insert a ia c)) ! i = g_cache c ! i)"
proof -
  let ?c1 = "retrace_caller_cache_insert a ia c"
  have len: "length (g_cache c) = 256" using assms(1) by (simp add: cc_inv_def CALLER_CACHE_SIZE_def)
  have none: "find_slot x 0 (g_cache c) = None" if "cc_lookup c x = None" "x \<noteq> 0" for x
    using that by (auto simp: cc_lookup_def retrace_caller_cache_lookup_def split: option.splits)
  have free: "find_slot 0 0 (g_cache c) = None" using assms(2) len by (simp add: find_slot_None)
  have s1: "insert_slot a c = 0" using none [OF assms(6,4)] free by (simp add: insert_slot_def)
  then have g1: "g_cache ?c1 = (g_cache c)[0 := \<lparr>cce_ret_addr = a, cce_info = ia\<rparr>]"
    using insert_slot_entries [OF assms(4)] by simp
  have "cce_ret_addr (g_cache ?c1 ! i) \<noteq> b \<and> cce_ret_addr (g_cache ?c1 ! i) \<noteq> 0" if "i < 256" for i
    using none [OF assms(7,5)] that assms(2,3,4) len by (cases i) (auto simp: g1 find_slot_None)
  then have "find_slot b 0 (g_cache ?c1) = None" "find_slot 0 0 (g_cache ?c1) = None"
    using len g1 by (simp_all add: find_slot_None)
  then have "insert_slot b ?c1 = 0" by (simp add: insert_slot_def)
  then show ?thesis
    using insert_slot_entries [OF assms(5), of ib ?c1] g1 cc_lookup_insert [OF cc_insert_inv [OF assms(1,4)] assms(5), of ib ia a]
      assms(3) len
    by (auto simp: option.discI)
qed


definition full_cache :: caller_cache where
  "full_cache = \<lparr>g_cache = map (\<lambda>i. \<lparr>cce_ret_addr = of_nat (i + 1),
       cce_info = \<lparr>dli_fname = None, dli_fbase = 0, dli_sname = None, dli_saddr = 0\<rparr>\<rparr>) [0..<256],
     g_cache_hits = 0, g_cache_misses = 0\<rparr>"

lemma full_cache_addr: "i < 256 \<Longrightarrow> unat (cce_ret_addr (g_cache full_cache ! i)) = i + 1"
  by (simp only: full_cache_def caller_cache.select_convs nth_map length_upt diff_zero
      caller_cache_entry.select_convs nth_upt add_0 unat_of_nat) simp

lemma full_cache_length: "length (g_cache full_cache) = 256"
  by (simp only: full_cache_def caller_cache.select_convs length_map length_upt)

lemma full_cache_inv: "cc_inv full_cache"
proof -
  have "i = j" if "i < 256" "j < 256"
      "cce_ret_addr (g_cache full_cache ! i) = cce_ret_addr (g_cache full_cache ! j)" for i j
  proof -
    have "i + 1 = j + 1"
      using arg_cong [OF that(3), of unat] full_cache_addr [OF that(1)] full_cache_addr [OF that(2)] by metis
    then show ?thesis by simp
  qed
  then show ?thesis unfolding cc_inv_def CALLER_CACHE_SIZE_def full_cache_length by blast
qed

lemma full_cache_none:
  assumes "257 < unat a" shows "cc_lookup full_cache a = None"
proof (rule ccontr)
  assume "cc_lookup full_cache a \<noteq> None"
  then obtain i where "i < 256" "cce_ret_addr (g_cache full_cache ! i) = a"
    unfolding not_None_eq cc_lookup_iff [OF full_cache_inv] full_cache_length by blast
  then have "unat a = i + 1" using full_cache_addr by blast
  then show False using assms \<open>i < 256\<close> by simp
qed

theorem caller_cache_full_evicts_newest_witness:
  "cc_lookup (retrace_caller_cache_insert 2000 (cce_info (g_cache full_cache ! 0))
     (retrace_caller_cache_insert 1000 (cce_info (g_cache full_cache ! 0)) full_cache)) 1000 = None"
proof -
  have full: "\<forall>i<256. cce_ret_addr (g_cache full_cache ! i) \<noteq> 0"
  proof (intro allI impI)
    fix i :: nat assume "i < 256"
    from full_cache_addr [OF this] show "cce_ret_addr (g_cache full_cache ! i) \<noteq> 0" by auto
  qed
  show ?thesis
    by (rule conjunct1 [OF caller_cache_full_evicts_newest [OF full_cache_inv full]])
      (simp_all add: full_cache_none)
qed

end
