(* ===== verification/Filter_Eval.thy ===== *)
theory Filter_Eval
  imports Filter_Build Filter_Glob Caller_Cache
begin

section \<open>Evaluating a compiled filter (\<open>src/src/core/filter_dsl.c\<close>)\<close>

text \<open>
  A resolver answers names: as a number, or as a string, where a name may resolve
  without being a string (\<open>Some None\<close>, a \<open>NULL\<close> result with return value 1).
\<close>

record filter_resolver =
  res_num :: "cstr \<Rightarrow> int option"
  res_str :: "cstr \<Rightarrow> cstr option option"

text \<open>
  A string obtained by \<open>operand_lookup\<close> is \<open>NULL\<close>, a pointer into the compiled
  block (read only when it is used), or a string of the resolver's domain.  Reading
  through a pointer outside the block is undefined, written \<open>None\<close>.
\<close>

datatype sval = S_Null | S_Ptr ptr | S_Val cstr

definition read_string :: "retrace_filter_ast \<Rightarrow> ptr \<Rightarrow> cstr option" where
  "read_string ast p = (case p of
     In b off \<Rightarrow> if b = fa_strings_block ast \<and> off < length (fa_strings ast)
                 then Some (takeWhile (\<lambda>c. c \<noteq> nul) (drop off (fa_strings ast))) else None
   | _ \<Rightarrow> None)"

definition deref :: "retrace_filter_ast \<Rightarrow> sval \<Rightarrow> cstr option" where
  "deref ast v = (case v of S_Null \<Rightarrow> None | S_Ptr p \<Rightarrow> read_string ast p | S_Val s \<Rightarrow> Some s)"

definition lookup_str :: "retrace_filter_ast \<Rightarrow> filter_resolver \<Rightarrow> foperand \<Rightarrow> sval option option" where
  "lookup_str ast rs o1 = (case fo_kind o1 of
     FO_STR \<Rightarrow> Some (Some (if fo_str o1 = Null then S_Null else S_Ptr (fo_str o1)))
   | FO_NUM \<Rightarrow> Some None
   | _ \<Rightarrow> (case read_string ast (fo_str o1) of
             None \<Rightarrow> None
           | Some name \<Rightarrow> Some (case res_str rs name of
               None \<Rightarrow> None | Some None \<Rightarrow> Some S_Null | Some (Some s) \<Rightarrow> Some (S_Val s))))"

definition lookup_num :: "retrace_filter_ast \<Rightarrow> filter_resolver \<Rightarrow> foperand \<Rightarrow> int option option" where
  "lookup_num ast rs o1 = (case fo_kind o1 of
     FO_STR \<Rightarrow> Some None
   | FO_NUM \<Rightarrow> Some (Some (fo_num o1))
   | _ \<Rightarrow> (case read_string ast (fo_str o1) of None \<Rightarrow> None | Some name \<Rightarrow> Some (res_num rs name)))"

fun compare_num :: "fop_kind \<Rightarrow> int \<Rightarrow> int \<Rightarrow> bool" where
  "compare_num FO_EQ l r \<longleftrightarrow> l = r"
| "compare_num FO_NE l r \<longleftrightarrow> l \<noteq> r"
| "compare_num FO_LT l r \<longleftrightarrow> l < r"
| "compare_num FO_LE l r \<longleftrightarrow> l \<le> r"
| "compare_num FO_GT l r \<longleftrightarrow> l > r"
| "compare_num FO_GE l r \<longleftrightarrow> l \<ge> r"
| "compare_num FO_GLOB l r \<longleftrightarrow> False"
| "compare_num FO_NGLOB l r \<longleftrightarrow> False"

definition eval_glob :: "retrace_filter_ast \<Rightarrow> filter_resolver \<Rightarrow> fop_kind \<Rightarrow> foperand \<Rightarrow> foperand \<Rightarrow> bool option" where
  "eval_glob ast rs op l r = (case lookup_str ast rs l of
     None \<Rightarrow> None
   | Some None \<Rightarrow> Some False
   | Some (Some S_Null) \<Rightarrow> Some False
   | Some (Some v) \<Rightarrow>
       if fo_str r = Null then Some (op = FO_NGLOB)
       else (case (read_string ast (fo_str r), deref ast v) of
               (Some pat, Some s) \<Rightarrow> Some (retrace_filter_glob_match (Some pat) (Some s) = (op = FO_GLOB))
             | _ \<Rightarrow> None))"

definition eval_num :: "retrace_filter_ast \<Rightarrow> filter_resolver \<Rightarrow> fop_kind \<Rightarrow> foperand \<Rightarrow> foperand \<Rightarrow> bool option" where
  "eval_num ast rs op l r = (case lookup_num ast rs l of
     None \<Rightarrow> None
   | Some None \<Rightarrow> Some False
   | Some (Some x) \<Rightarrow>
       (case lookup_num ast rs r of
          None \<Rightarrow> None
        | Some None \<Rightarrow> Some False
        | Some (Some y) \<Rightarrow> Some (compare_num op x y)))"

text \<open>\<open>==\<close> and \<open>!=\<close>: both sides as strings when both resolve as strings, else as numbers.\<close>

definition eval_eq :: "retrace_filter_ast \<Rightarrow> filter_resolver \<Rightarrow> fop_kind \<Rightarrow> foperand \<Rightarrow> foperand \<Rightarrow> bool option" where
  "eval_eq ast rs op l r = (case lookup_str ast rs l of
     None \<Rightarrow> None
   | Some lv \<Rightarrow>
       (case lookup_str ast rs r of
          None \<Rightarrow> None
        | Some rv \<Rightarrow>
            (case (lv, rv) of
               (Some x, Some y) \<Rightarrow>
                 if x = S_Null \<or> y = S_Null
                 then Some (if x = y then op = FO_EQ else op = FO_NE)
                 else (case (deref ast x, deref ast y) of
                         (Some s, Some t) \<Rightarrow> Some ((s = t) = (op = FO_EQ))
                       | _ \<Rightarrow> None)
             | _ \<Rightarrow> eval_num ast rs op l r)))"

definition eval_cmp :: "retrace_filter_ast \<Rightarrow> filter_resolver \<Rightarrow> fop_kind \<Rightarrow> foperand \<Rightarrow> foperand \<Rightarrow> bool option" where
  "eval_cmp ast rs op l r =
     (if op \<in> {FO_GLOB, FO_NGLOB} then eval_glob ast rs op l r
      else if op \<in> {FO_EQ, FO_NE} then eval_eq ast rs op l r
      else eval_num ast rs op l r)"

definition node_at :: "retrace_filter_ast \<Rightarrow> ptr \<Rightarrow> fnode option" where
  "node_at ast p = (case p of
     In b i \<Rightarrow> if b = fa_nodes_block ast \<and> i < length (fa_nodes ast) then Some (fa_nodes ast ! i) else None
   | _ \<Rightarrow> None)"

partial_function (option) eval_node :: "retrace_filter_ast \<Rightarrow> filter_resolver \<Rightarrow> ptr \<Rightarrow> bool option" where
  "eval_node ast rs p = (case node_at ast p of
     None \<Rightarrow> None
   | Some (FN_OR l r) \<Rightarrow> Option.bind (eval_node ast rs l) (\<lambda>b. if b then Some True else eval_node ast rs r)
   | Some (FN_AND l r) \<Rightarrow> Option.bind (eval_node ast rs l) (\<lambda>b. if b then eval_node ast rs r else Some False)
   | Some (FN_NOT c) \<Rightarrow> Option.bind (eval_node ast rs c) (\<lambda>b. Some (\<not> b))
   | Some (FN_CMP op l r) \<Rightarrow> eval_cmp ast rs op l r)"

definition retrace_filter_eval_resolved :: "retrace_filter_ast option \<Rightarrow> filter_resolver \<Rightarrow> bool option" where
  "retrace_filter_eval_resolved ast rs = (case ast of
     None \<Rightarrow> Some True | Some a \<Rightarrow> eval_node a rs (fa_root a))"

subsection \<open>The meaning of a tree\<close>

fun t_str :: "filter_resolver \<Rightarrow> toperand \<Rightarrow> cstr option option" where
  "t_str rs (TNum n) = None"
| "t_str rs (TStr s) = Some (Some s)"
| "t_str rs (TName s) = res_str rs s"

fun t_num :: "filter_resolver \<Rightarrow> toperand \<Rightarrow> int option" where
  "t_num rs (TNum n) = Some n"
| "t_num rs (TStr s) = None"
| "t_num rs (TName s) = res_num rs s"

definition t_glob :: "filter_resolver \<Rightarrow> toperand \<Rightarrow> toperand \<Rightarrow> bool option" where
  "t_glob rs l r = (case (t_str rs l, r) of
     (Some (Some s), TStr pat) \<Rightarrow> Some (retrace_filter_glob_match (Some pat) (Some s))
   | _ \<Rightarrow> None)"

definition t_numeric :: "filter_resolver \<Rightarrow> fop_kind \<Rightarrow> toperand \<Rightarrow> toperand \<Rightarrow> bool" where
  "t_numeric rs op l r = (case (t_num rs l, t_num rs r) of (Some a, Some b) \<Rightarrow> compare_num op a b | _ \<Rightarrow> False)"

fun t_compare :: "filter_resolver \<Rightarrow> fop_kind \<Rightarrow> toperand \<Rightarrow> toperand \<Rightarrow> bool" where
  "t_compare rs FO_GLOB l r = (t_glob rs l r = Some True)"
| "t_compare rs FO_NGLOB l r = (t_glob rs l r = Some False)"
| "t_compare rs FO_EQ l r =
     (case (t_str rs l, t_str rs r) of (Some x, Some y) \<Rightarrow> x = y | _ \<Rightarrow> t_numeric rs FO_EQ l r)"
| "t_compare rs FO_NE l r =
     (case (t_str rs l, t_str rs r) of (Some x, Some y) \<Rightarrow> x \<noteq> y | _ \<Rightarrow> t_numeric rs FO_NE l r)"
| "t_compare rs op l r = t_numeric rs op l r"

fun t_eval :: "filter_resolver \<Rightarrow> ftree \<Rightarrow> bool" where
  "t_eval rs (TOr l r) \<longleftrightarrow> t_eval rs l \<or> t_eval rs r"
| "t_eval rs (TAnd l r) \<longleftrightarrow> t_eval rs l \<and> t_eval rs r"
| "t_eval rs (TNot t) \<longleftrightarrow> \<not> t_eval rs t"
| "t_eval rs (TCmp op l r) \<longleftrightarrow> t_compare rs op l r"


subsection \<open>Trees the grammar accepts\<close>

text \<open>Strings without NUL bytes, and every comparison well typed.\<close>

fun wf_operand :: "toperand \<Rightarrow> bool" where
  "wf_operand (TNum n) = True"
| "wf_operand (TStr s) = (nul \<notin> set s)"
| "wf_operand (TName s) = (nul \<notin> set s)"

fun wf_tree :: "ftree \<Rightarrow> bool" where
  "wf_tree (TOr l r) \<longleftrightarrow> wf_tree l \<and> wf_tree r"
| "wf_tree (TAnd l r) \<longleftrightarrow> wf_tree l \<and> wf_tree r"
| "wf_tree (TNot t) \<longleftrightarrow> wf_tree t"
| "wf_tree (TCmp op l r) \<longleftrightarrow> wf_operand l \<and> wf_operand r \<and> type_rule op (operand_kind l) (operand_kind r) = None"

lemma set_skip_ws: "set (skip_ws q) \<subseteq> set q"
  by (auto simp: skip_ws_def dest: set_dropWhileD)

lemma set_tl: "set (tl q) \<subseteq> set q"
  by (cases q) auto

lemma nul_drop: "nul \<notin> set q \<Longrightarrow> nul \<notin> set (drop n q)" "nul \<notin> set q \<Longrightarrow> nul \<notin> set (tl q)"
    "nul \<notin> set q \<Longrightarrow> nul \<notin> set (skip_ws q)"
  using set_drop_subset [of n q] set_tl [of q] set_skip_ws [of q] by auto

lemma nul_suffix: "suffix r q \<Longrightarrow> nul \<notin> set q \<Longrightarrow> nul \<notin> set r"
  by (auto simp: suffix_def)

lemma nul_string_copy: "nul \<notin> set q \<Longrightarrow> nul \<notin> set (string_copy e q)"
proof (induction e q rule: string_copy.induct)
  case (1 e q)
  show ?case
  proof (cases "length q > e")
    case True
    then have "cget q 0 \<noteq> nul" using 1(3) by (cases q) auto
    then show ?thesis using 1 True nul_drop [OF 1(3)]
      by (auto simp: string_copy.simps [of e q])
  qed (simp add: string_copy.simps)
qed

lemma num_loop_suffix: "num_loop v q = Some (w, r) \<Longrightarrow> suffix r q"
proof (induction v q rule: num_loop.induct)
  case (1 v q)
  show ?case
  proof (cases "is_digit (cget q 0)")
    case True
    then have "num_loop (v * 10 + (char_val (cget q 0) - 48)) (tl q) = Some (w, r)"
        "v * 10 + (char_val (cget q 0) - 48) < 2 ^ 63"
      using "1.prems" by (auto simp: num_loop.simps [of v q] split: if_splits)
    then have "suffix r (tl q)" using "1.IH" True by blast
    then show ?thesis using suffix_tl suffix_order.trans by blast
  qed (use "1.prems" in \<open>simp add: num_loop.simps [of v q]\<close>)
qed

lemma t_operand_wf:
  assumes "nul \<notin> set q" "t_operand q = Done (x, r)"
  shows "wf_operand x \<and> nul \<notin> set r"
proof -
  let ?q = "skip_ws q"
  have q: "nul \<notin> set ?q" "nul \<notin> set (tl ?q)" using nul_drop assms(1) by blast+
  obtain lx where lx: "lex_operand ?q = Done lx"
    using assms(2) by (auto simp: t_operand_def pbind_Done_iff)
  show ?thesis
  proof (cases lx)
    case (LStr len s r')
    then have s: "string_scan 0 s = Some (len, r')" "s = tl ?q"
      using lx by (auto simp: lex_operand_def Let_def split: if_splits option.splits prod.splits)
    have "nul \<notin> set r'" using string_scan_copy [OF s(1)] nul_suffix q(2) s(2) by blast
    then show ?thesis
      using assms(2) lx LStr q(2) s(2) nul_drop(2) nul_string_copy [of s] by (auto simp: t_operand_def)
  next
    case (LNum v r')
    then obtain start w where "num_loop 0 start = Some (w, r')" "start = ?q \<or> start = tl ?q"
      using lx by (auto simp: lex_operand_def Let_def split: if_splits option.splits prod.splits)
    then have "nul \<notin> set r'" using num_loop_suffix nul_suffix q by blast
    then show ?thesis using assms(2) lx LNum by (auto simp: t_operand_def)
  next
    case (LName s r')
    then have "s = takeWhile is_ident_char ?q" "r' = dropWhile is_ident_char ?q"
      using lx by (auto simp: lex_operand_def Let_def split: if_splits option.splits prod.splits)
    then show ?thesis using assms(2) lx LName q(1)
      by (auto simp: t_operand_def dest: set_takeWhileD set_dropWhileD)
  qed
qed

lemma lex_op_nul: "nul \<notin> set q \<Longrightarrow> lex_op q = Done (op, r) \<Longrightarrow> nul \<notin> set r"
  using nul_drop(1) [of q] by (auto simp: lex_op_def split: if_splits)

lemma t_cmp_wf:
  assumes "nul \<notin> set q" "t_cmp q = Done (t, r)" shows "wf_tree t \<and> nul \<notin> set r"
proof -
  obtain l q1 op q2 x where s: "t_operand q = Done (l, q1)" "lex_op (skip_ws q1) = Done (op, q2)"
      "t_operand q2 = Done (x, r)" "type_rule op (operand_kind l) (operand_kind x) = None" "t = TCmp op l x"
    using assms(2) by (auto simp: t_cmp_Done)
  have "nul \<notin> set q2" using t_operand_wf [OF assms(1) s(1)] lex_op_nul [OF _ s(2)] nul_drop(3) by blast
  then show ?thesis using t_operand_wf [OF _ s(3)] t_operand_wf [OF assms(1) s(1)] s(4,5) by simp
qed

end
