(* ===== verification/Filter_Correct.thy ===== *)
theory Filter_Correct
  imports Filter_Eval
begin

section \<open>Compiled filters mean what their text means\<close>

text \<open>A result is clean when its tree is well formed and no NUL is left to read.\<close>

definition clean :: "(ftree \<times> cstr) pres \<Rightarrow> bool" where
  "clean m \<longleftrightarrow> (\<forall>t r. m = Done (t, r) \<longrightarrow> wf_tree t \<and> nul \<notin> set r)"

lemma clean_simps [simp]:
  "clean (Done (t, r)) \<longleftrightarrow> wf_tree t \<and> nul \<notin> set r" "clean (Fails msg at)" "clean Undef" "clean Out_of_fuel"
  by (auto simp: clean_def)

lemma clean_bind:
  assumes "clean m" "\<And>t r. wf_tree t \<Longrightarrow> nul \<notin> set r \<Longrightarrow> clean (g t r)"
  shows "clean (pbind m (\<lambda>(t, r). g t r))"
  using assms by (cases m) auto

lemma clean_t_cmp: "nul \<notin> set q \<Longrightarrow> clean (t_cmp q)"
  using t_cmp_wf by (auto simp: clean_def)

lemma clean_parse:
  "nul \<notin> set q \<Longrightarrow> clean (t_or f q)"
  "nul \<notin> set q \<Longrightarrow> wf_tree l \<Longrightarrow> clean (t_or_loop f l q)"
  "nul \<notin> set q \<Longrightarrow> clean (t_and f q)"
  "nul \<notin> set q \<Longrightarrow> wf_tree l \<Longrightarrow> clean (t_and_loop f l q)"
  "nul \<notin> set q \<Longrightarrow> clean (t_not f q)"
  "nul \<notin> set q \<Longrightarrow> clean (t_primary f q)"
proof (induction f q and f l q and f q and f l q and f q and f q
    rule: t_or_t_or_loop_t_and_t_and_loop_t_not_t_primary.induct)
  case (2 f q)
  then show ?case by (auto intro!: clean_bind)
next
  case (4 f l q)
  then show ?case using nul_drop(1,3) by (auto intro!: clean_bind)
next
  case (6 f q)
  then show ?case by (auto intro!: clean_bind)
next
  case (8 f l q)
  then show ?case using nul_drop(1,3) by (auto intro!: clean_bind)
next
  case (10 f q)
  then show ?case using nul_drop(1,3) by (auto intro!: clean_bind)
next
  case (12 f q)
  have q: "nul \<notin> set (skip_ws q)" "nul \<notin> set (tl (skip_ws q))" using "12.prems" nul_drop by blast+
  show ?case
  proof (cases "cget (skip_ws q) 0 = CHR ''(''")
    case True
    have "clean (pbind (t_or f (tl (skip_ws q))) (\<lambda>(t, q1).
        if cget (skip_ws q1) 0 \<noteq> CHR '')'' then Fails err_paren (skip_ws q1) else Done (t, tl (skip_ws q1))))"
      by (rule clean_bind [OF "12.IH" [OF True q(2)]]) (simp add: nul_drop)
    then show ?thesis using True by simp
  next
    case False
    then show ?thesis using clean_t_cmp [OF q(1)] by simp
  qed
qed auto

subsection \<open>Relocation\<close>

lemma orep_reloc: "orep a str o1 x \<Longrightarrow> orep (Suc a) str (reloc_operand a (Suc a) o1) x"
  by (cases x) (auto simp: reloc_operand_def)

lemma rep_reloc:
  "rep n ns a str lo p t \<Longrightarrow>
   rep (Suc n) (map (reloc_node n (Suc n)) (map (reloc_strings a (Suc a)) ns)) (Suc a) str lo (reloc n (Suc n) p) t"
proof (induction t arbitrary: p)
  case (TCmp op l r)
  then show ?case by (fastforce dest: orep_reloc)
qed fastforce+

definition ast_rep :: "retrace_filter_ast \<Rightarrow> ptr \<Rightarrow> ftree \<Rightarrow> bool" where
  "ast_rep ast p t \<longleftrightarrow> rep (fa_nodes_block ast) (fa_nodes ast) (fa_strings_block ast) (fa_strings ast) 0 p t"

lemma finish_rep:
  assumes "builds (fp_init src) (Done (root, p)) t q"
  shows "ast_rep (finish root p) (fa_root (finish root p)) t"
  using assms rep_reloc
  by (auto simp: builds_def ast_rep_def finish_def Let_def fp_init_def simp del: map_map)

subsection \<open>Evaluation of a represented tree\<close>

lemma read_string_at:
  "string_at (fa_strings ast) off s \<Longrightarrow> nul \<notin> set s \<Longrightarrow> read_string ast (In (fa_strings_block ast) off) = Some s"
  by (auto simp: string_at_def read_string_def takeWhile_append takeWhile_eq_all_conv [THEN iffD2])

abbreviation (input) operand_ok :: "retrace_filter_ast \<Rightarrow> foperand \<Rightarrow> toperand \<Rightarrow> bool" where
  "operand_ok ast o1 x \<equiv> orep (fa_strings_block ast) (fa_strings ast) o1 x \<and> wf_operand x"

lemma name_kind_cases: "name_kind s \<noteq> FO_NUM" "name_kind s \<noteq> FO_STR"
  by (simp_all add: name_kind_def)

lemma lookup_str_rep:
  assumes "operand_ok ast o1 x"
  shows "\<exists>v. lookup_str ast rs o1 = Some v \<and>
    (case t_str rs x of None \<Rightarrow> v = None | Some None \<Rightarrow> v = Some S_Null
     | Some (Some s) \<Rightarrow> (\<exists>w. v = Some w \<and> w \<noteq> S_Null \<and> deref ast w = Some s))"
proof (cases x)
  case (TName s)
  then have "read_string ast (fo_str o1) = Some s" "fo_kind o1 \<noteq> FO_NUM" "fo_kind o1 \<noteq> FO_STR"
    using assms read_string_at name_kind_cases by auto
  then show ?thesis using TName
    by (auto simp: lookup_str_def deref_def split: option.split foperand_kind.split)
next
  case (TStr s)
  then show ?thesis using assms read_string_at by (auto simp: lookup_str_def deref_def)
qed (use assms in \<open>auto simp: lookup_str_def\<close>)

lemma lookup_num_rep:
  assumes "operand_ok ast o1 x"
  shows "lookup_num ast rs o1 = Some (t_num rs x)"
proof (cases x)
  case (TName s)
  then have "read_string ast (fo_str o1) = Some s" "fo_kind o1 \<noteq> FO_NUM" "fo_kind o1 \<noteq> FO_STR"
    using assms read_string_at name_kind_cases by auto
  then show ?thesis using TName by (auto simp: lookup_num_def split: foperand_kind.split)
qed (use assms in \<open>auto simp: lookup_num_def\<close>)

lemma eval_num_rep:
  "operand_ok ast o1 l \<Longrightarrow> operand_ok ast o2 r \<Longrightarrow>
   eval_num ast rs op o1 o2 = Some (t_numeric rs op l r)"
  by (simp add: eval_num_def t_numeric_def lookup_num_rep split: option.split)

lemma eval_eq_rep:
  assumes l: "operand_ok ast o1 l" and r: "operand_ok ast o2 r" and op: "op = FO_EQ \<or> op = FO_NE"
  shows "eval_eq ast rs op o1 o2 = Some (t_compare rs op l r)"
proof -
  obtain v where v: "lookup_str ast rs o1 = Some v" "case t_str rs l of None \<Rightarrow> v = None | Some None \<Rightarrow> v = Some S_Null
     | Some (Some s) \<Rightarrow> (\<exists>w. v = Some w \<and> w \<noteq> S_Null \<and> deref ast w = Some s)"
    using lookup_str_rep [OF l] by blast
  obtain u where u: "lookup_str ast rs o2 = Some u" "case t_str rs r of None \<Rightarrow> u = None | Some None \<Rightarrow> u = Some S_Null
     | Some (Some s) \<Rightarrow> (\<exists>w. u = Some w \<and> w \<noteq> S_Null \<and> deref ast w = Some s)"
    using lookup_str_rep [OF r] by blast
  show ?thesis
    using v u op eval_num_rep [OF l r, of rs op]
    by (auto simp: eval_eq_def split: option.splits if_splits)
qed


lemma eval_glob_rep:
  assumes l: "operand_ok ast o1 l" and r: "operand_ok ast o2 (TStr pat)" and op: "op = FO_GLOB \<or> op = FO_NGLOB"
  shows "eval_glob ast rs op o1 o2 = Some (t_compare rs op l (TStr pat))"
proof -
  obtain v where v: "lookup_str ast rs o1 = Some v" "case t_str rs l of None \<Rightarrow> v = None | Some None \<Rightarrow> v = Some S_Null
     | Some (Some s) \<Rightarrow> (\<exists>w. v = Some w \<and> w \<noteq> S_Null \<and> deref ast w = Some s)"
    using lookup_str_rep [OF l] by blast
  have p: "read_string ast (fo_str o2) = Some pat" "fo_str o2 \<noteq> Null"
    using r read_string_at by auto
  show ?thesis
  proof (cases "t_str rs l")
    case None
    then show ?thesis using v op by (auto simp: eval_glob_def t_glob_def)
  next
    case (Some x)
    show ?thesis
    proof (cases x)
      case None
      then show ?thesis using v op Some by (auto simp: eval_glob_def t_glob_def)
    next
      case (Some s)
      then obtain w where "v = Some w" "w \<noteq> S_Null" "deref ast w = Some s"
        using v \<open>t_str rs l = Some x\<close> by auto
      then show ?thesis using v op p Some \<open>t_str rs l = Some x\<close>
        by (cases w) (auto simp: eval_glob_def t_glob_def)
    qed
  qed
qed

lemma eval_cmp_rep:
  assumes l: "operand_ok ast o1 l" and r: "operand_ok ast o2 r"
    and ty: "type_rule op (operand_kind l) (operand_kind r) = None"
  shows "eval_cmp ast rs op o1 o2 = Some (t_compare rs op l r)"
proof -
  consider (glob) "op = FO_GLOB \<or> op = FO_NGLOB" | (eq) "op = FO_EQ \<or> op = FO_NE"
    | (rel) "op \<in> {FO_LT, FO_LE, FO_GT, FO_GE}" by (cases op) auto
  then show ?thesis
  proof cases
    case glob
    then have "operand_kind r = FO_STR" using ty by (auto simp: type_rule_def split: if_splits)
    then obtain pat where "r = TStr pat" using name_kind_cases by (cases r) auto
    then show ?thesis using eval_glob_rep [OF l _ glob, of o2 pat rs] r glob by (auto simp: eval_cmp_def)
  next
    case eq
    then show ?thesis using eval_eq_rep [OF l r eq, of rs] by (auto simp: eval_cmp_def)
  next
    case rel
    then have "t_compare rs op l r = t_numeric rs op l r" by auto
    then show ?thesis using eval_num_rep [OF l r, of rs op] rel by (auto simp: eval_cmp_def)
  qed
qed

lemma eval_node_rep: "ast_rep ast p t \<Longrightarrow> wf_tree t \<Longrightarrow> eval_node ast rs p = Some (t_eval rs t)"
proof (induction t arbitrary: p)
  case (TCmp op l r)
  then obtain i o1 o2 where "p = In (fa_nodes_block ast) i" "i < length (fa_nodes ast)"
      "fa_nodes ast ! i = FN_CMP op o1 o2" "operand_ok ast o1 l" "operand_ok ast o2 r"
    by (auto simp: ast_rep_def)
  then show ?case using eval_cmp_rep TCmp.prems(2) by (subst eval_node.simps) (simp add: node_at_def)
qed (auto simp: ast_rep_def node_at_def eval_node.simps)

subsection \<open>The compiler against the grammar\<close>

datatype verdict = Accepts ftree | Rejects string nat | Overflows

definition t_compile :: "cstr \<Rightarrow> verdict" where
  "t_compile src =
     (if src = [] then Rejects ''empty expression'' 1
      else case t_or (parse_fuel src) src of
             Done (t, q) \<Rightarrow>
               if skip_ws q = [] then Accepts t
               else Rejects ''unexpected trailing input'' (length src - length (skip_ws q) + 1)
           | Fails msg at \<Rightarrow> Rejects msg (length src - length at + 1)
           | _ \<Rightarrow> Overflows)"

lemma parse_fuel_enough: "t_or (parse_fuel src) src \<noteq> Out_of_fuel"
  by (rule t_fuel(1)) (simp add: parse_fuel_def)

lemma compile_follows:
  "follows (parse_or mem (parse_fuel src) (fp_init src)) (t_or (parse_fuel src) src)"
  using parse_follows(1) [of mem "parse_fuel src" "fp_init src"] by (simp add: fp_init_def)

text \<open>
  Compilation of any text, under any allocator, comes to an end; when it reports an
  error other than exhausted memory, the grammar of the header rejects the text with
  that message at that offset; and what it compiles the grammar accepts.
\<close>

theorem filter_compile_follows_grammar:
  "retrace_filter_compile mem expr \<noteq> Compile_fuel \<and>
   (\<forall>src msg at. expr = Some src \<and> retrace_filter_compile mem expr = Compile_error msg at \<and> msg \<noteq> ''out of memory'' \<longrightarrow>
      t_compile src = Rejects msg at) \<and>
   (\<forall>src ast. expr = Some src \<and> retrace_filter_compile mem expr = Compiled ast \<longrightarrow>
      (\<exists>t. t_compile src = Accepts t))"
proof (cases expr)
  case (Some src)
  show ?thesis
    using compile_follows [of mem src] parse_fuel_enough [of src] Some
    by (cases "parse_or mem (parse_fuel src) (fp_init src)")
      (auto simp: retrace_filter_compile_def t_compile_def follows_def Let_def split: if_splits)
qed (simp add: retrace_filter_compile_def)

theorem filter_compile_follows_grammar_witness:
  "retrace_filter_compile (\<lambda>_. True) (Some ''fd'') = Compile_error err_operator 3 \<and>
   t_compile ''fd'' = Rejects err_operator 3"
proof -
  have "retrace_filter_compile (\<lambda>_. True) (Some ''fd'') = Compile_error err_operator 3" by code_simp
  moreover have "err_operator \<noteq> ''out of memory''" by (simp add: err_operator_def)
  ultimately show ?thesis using filter_compile_follows_grammar [of "\<lambda>_. True" "Some ''fd''"] by blast
qed

lemma compile_correct:
  assumes "nul \<notin> set src" "t_compile src = Accepts t" "nsize t \<le> 16" "abytes t \<le> 128" "\<And>n. mem n"
  shows "\<exists>ast. retrace_filter_compile mem (Some src) = Compiled ast \<and>
    (\<forall>rs. retrace_filter_eval_resolved (Some ast) rs = Some (t_eval rs t))"
proof -
  obtain q where q: "t_or (parse_fuel src) src = Done (t, q)" "skip_ws q = []" "src \<noteq> []"
    using assms(2) by (auto simp: t_compile_def split: if_splits pres.splits)
  have "fits (fp_init src) (nsize t) (abytes t)" using assms(3,4) by (simp add: fits_def fp_init_def)
  then have "builds (fp_init src) (parse_or mem (parse_fuel src) (fp_init src)) t q"
    using parse_builds(1) [of "parse_fuel src" "fp_init src" t q mem] q(1) by (simp add: fp_init_def)
  then obtain root p where p: "parse_or mem (parse_fuel src) (fp_init src) = Done (root, p)" "fp_rest p = q"
      "builds (fp_init src) (Done (root, p)) t q" by (auto simp: builds_def)
  have "retrace_filter_compile mem (Some src) = Compiled (finish root p)"
    using p(1,2) q(2,3) assms(5) by (simp add: retrace_filter_compile_def Let_def)
  moreover have "wf_tree t" using clean_parse(1) [OF assms(1), of "parse_fuel src"] q(1) by simp
  ultimately show ?thesis
    using eval_node_rep [OF finish_rep [OF p(3)]] by (simp add: retrace_filter_eval_resolved_def)
qed

text \<open>
  C11. A filter whose text the grammar accepts, with at most 16 nodes and 128 bytes of
  names and strings (the arenas' first sizes), compiles when memory is available, and
  evaluating the result under any resolver ends with the value the text's tree has.
\<close>

theorem filter_compile_correct:
  assumes "nul \<notin> set src" "t_compile src = Accepts t" "nsize t \<le> 16" "abytes t \<le> 128" "\<And>n. mem n"
  shows "\<exists>ast. retrace_filter_compile mem (Some src) = Compiled ast \<and>
    (\<forall>rs. retrace_filter_eval_resolved (Some ast) rs = Some (t_eval rs t))"
  by (rule compile_correct [OF assms])

theorem filter_compile_correct_witness:
  "\<exists>ast. retrace_filter_compile (\<lambda>_. True) (Some ''fd == 3 or fd == 4'') = Compiled ast \<and>
    (\<forall>rs. retrace_filter_eval_resolved (Some ast) rs =
      Some (t_eval rs (TOr (TCmp FO_EQ (TName ''fd'') (TNum 3)) (TCmp FO_EQ (TName ''fd'') (TNum 4)))))"
proof -
  have "t_compile ''fd == 3 or fd == 4'' =
      Accepts (TOr (TCmp FO_EQ (TName ''fd'') (TNum 3)) (TCmp FO_EQ (TName ''fd'') (TNum 4)))" by code_simp
  from filter_compile_correct [OF _ this, of "\<lambda>_. True"] show ?thesis by simp
qed

end
