(* ===== verification/Filter_Print.thy ===== *)
theory Filter_Print
  imports Filter_Correct
begin

section \<open>Every filter can be written\<close>

text \<open>
  A tree written out in the concrete syntax, every subexpression in parentheses, is a text
  for that tree: the compiler accepts it and what it compiles means the tree.  So every tree
  is the meaning of some text, whatever the names, strings and numbers in it.
\<close>

fun escape :: "cstr \<Rightarrow> cstr" where
  "escape [] = []"
| "escape (c # s) = (if c = CHR 0x22 \<or> c = CHR 0x5C then [CHR 0x5C, c] else [c]) @ escape s"

fun show_operand :: "toperand \<Rightarrow> cstr" where
  "show_operand (TNum v) = (if v < 0 then ''-'' else []) @ dec (nat \<bar>v\<bar>)"
| "show_operand (TStr s) = [CHR 0x22] @ escape s @ [CHR 0x22]"
| "show_operand (TName s) = s"

fun show_op :: "fop_kind \<Rightarrow> cstr" where
  "show_op FO_EQ = ''==''" | "show_op FO_NE = ''!=''" | "show_op FO_LT = ''<''" | "show_op FO_LE = ''<=''"
| "show_op FO_GT = ''>''" | "show_op FO_GE = ''>=''" | "show_op FO_GLOB = ''~''" | "show_op FO_NGLOB = ''!~''"

fun show_tree :: "ftree \<Rightarrow> cstr" where
  "show_tree (TOr l r) = ''('' @ show_tree l @ '') or ('' @ show_tree r @ '')''"
| "show_tree (TAnd l r) = ''('' @ show_tree l @ '') and ('' @ show_tree r @ '')''"
| "show_tree (TNot t) = ''not ('' @ show_tree t @ '')''"
| "show_tree (TCmp op l r) = show_operand l @ '' '' @ show_op op @ '' '' @ show_operand r"

text \<open>What can be written: identifiers that are no keywords, strings without NUL, 64-bit numbers.\<close>

definition ident :: "cstr \<Rightarrow> bool" where
  "ident s \<longleftrightarrow> s \<noteq> [] \<and> (is_alpha (hd s) \<or> hd s = CHR ''_'') \<and> list_all is_ident_char s \<and>
     s \<notin> {''and'', ''or'', ''not''}"

fun writable_operand :: "toperand \<Rightarrow> bool" where
  "writable_operand (TNum v) \<longleftrightarrow> \<bar>v\<bar> < 2 ^ 63"
| "writable_operand (TStr s) \<longleftrightarrow> nul \<notin> set s"
| "writable_operand (TName s) \<longleftrightarrow> ident s"

text \<open>Relational operators need numbers on both sides, glob operators a string as their pattern.\<close>

fun textual :: "toperand \<Rightarrow> bool" where
  "textual (TNum v) = False"
| "textual (TStr s) = True"
| "textual (TName s) = (s = ''func'' \<or> s = ''caller'')"

fun well_typed :: "fop_kind \<Rightarrow> toperand \<Rightarrow> toperand \<Rightarrow> bool" where
  "well_typed op l r =
     ((op \<in> {FO_LT, FO_LE, FO_GT, FO_GE} \<longrightarrow> \<not> textual l \<and> \<not> textual r) \<and>
      (op \<in> {FO_GLOB, FO_NGLOB} \<longrightarrow> (case r of TStr _ \<Rightarrow> True | _ \<Rightarrow> False)))"

lemma well_typed_rule: "well_typed op l r \<longleftrightarrow> type_rule op (operand_kind l) (operand_kind r) = None"
  by (cases l; cases r) (auto simp: type_rule_def string_kind_def name_kind_def)

declare well_typed.simps [simp del]
declare well_typed_rule [simp]

fun writable :: "ftree \<Rightarrow> bool" where
  "writable (TOr l r) \<longleftrightarrow> writable l \<and> writable r"
| "writable (TAnd l r) \<longleftrightarrow> writable l \<and> writable r"
| "writable (TNot t) \<longleftrightarrow> writable t"
| "writable (TCmp op l r) \<longleftrightarrow> writable_operand l \<and> writable_operand r \<and> well_typed op l r"

subsection \<open>Characters\<close>

lemma digit_char:
  assumes "d < 10"
  shows "is_digit (dec_digit d)" "char_val (dec_digit d) - 48 = int d"
    "dec_digit d \<noteq> CHR 0x22" "dec_digit d \<noteq> CHR ''-''" "dec_digit d \<noteq> CHR ''(''"
proof -
  have "d \<in> {0, 1, 2, 3, 4, 5, 6, 7, 8, 9}" using assms by auto
  then show "is_digit (dec_digit d)" "char_val (dec_digit d) - 48 = int d"
    "dec_digit d \<noteq> CHR 0x22" "dec_digit d \<noteq> CHR ''-''" "dec_digit d \<noteq> CHR ''(''"
    by (auto simp: dec_digit_def is_digit_def in_range_def char_le_def char_val_def)
qed

lemma dec_digits: "list_all is_digit (dec n)" "dec n \<noteq> []"
proof -
  show "list_all is_digit (dec n)"
    by (induction n rule: dec.induct) (subst dec.simps, simp add: digit_char)
  show "dec n \<noteq> []" by (subst dec.simps) simp
qed

lemma num_loop_append:
  "0 \<le> v \<Longrightarrow> v * 10 ^ length (dec n) + int n < 2 ^ 63 \<Longrightarrow>
     num_loop v (dec n @ rest) = num_loop (v * 10 ^ length (dec n) + int n) rest"
proof (induction n arbitrary: rest rule: dec.induct)
  case (1 n)
  have one: "num_loop w (dec_digit d # rest) = num_loop (w * 10 + int d) rest"
    if "d < 10" "w * 10 + int d < 2 ^ 63" for w d
    using digit_char [OF that(1)] that(2) by (simp add: num_loop.simps [of w])
  show ?case
  proof (cases "n < 10")
    case True
    then show ?thesis using one [of n v] "1.prems" by (simp add: dec.simps [of n])
  next
    case False
    let ?m = "n div 10" and ?d = "n mod 10"
    have n: "int n = int ?m * 10 + int ?d" by (simp add: zdiv_int zmod_int)
    have dec: "dec n = dec ?m @ [dec_digit ?d]" using False by (simp add: dec.simps [of n])
    have sum: "v * 10 ^ length (dec n) + int n = (v * 10 ^ length (dec ?m) + int ?m) * 10 + int ?d"
      using n dec by (simp add: algebra_simps)
    then have "v * 10 ^ length (dec ?m) + int ?m < 2 ^ 63" using "1.prems" by simp
    then have "num_loop v (dec n @ rest) = num_loop (v * 10 ^ length (dec ?m) + int ?m) (dec_digit ?d # rest)"
      using "1.IH" [OF False "1.prems"(1), of "dec_digit ?d # rest"] dec by simp
    then show ?thesis using one [of ?d] sum "1.prems"(2) by simp
  qed
qed

lemma string_scan_Cons:
  "string_scan n (c # q) =
     (if c = CHR 0x22 then Some (n, c # q)
      else if c = CHR 0x5C \<and> cget q 0 \<noteq> nul then string_scan (Suc n) (tl q)
      else if c = nul then None else string_scan (Suc n) q)"
  by (simp add: string_scan.simps [of n "c # q"] drop_Suc numeral_2_eq_2)

lemma string_copy_Cons:
  "e \<le> length q \<Longrightarrow> string_copy e (c # q) =
     (if c = CHR 0x5C \<and> cget q 0 \<noteq> nul then cget q 0 # string_copy e (tl q) else c # string_copy e q)"
  by (simp add: string_copy.simps [of e "c # q"] drop_Suc numeral_2_eq_2)

lemma string_scan_escape:
  "nul \<notin> set s \<Longrightarrow> string_scan n (escape s @ CHR 0x22 # rest) = Some (n + length s, CHR 0x22 # rest)"
  by (induction s arbitrary: n) (auto simp: string_scan_Cons)

lemma string_copy_escape: "nul \<notin> set s \<Longrightarrow> string_copy (length rest) (escape s @ rest) = s"
proof (induction s)
  case Nil
  then show ?case by (simp add: string_copy.simps [of "length rest" rest])
next
  case (Cons c s)
  then show ?case by (auto simp: string_copy_Cons)
qed

subsection \<open>Operands\<close>

text \<open>What may follow an operand in printed text.\<close>

definition stop :: "cstr \<Rightarrow> bool" where
  "stop rest \<longleftrightarrow> rest = [] \<or> hd rest = CHR '')''"

lemma ident_chars [simp]:
  "\<not> is_ident_char nul" "\<not> is_ident_char (CHR '' '')" "\<not> is_ident_char (CHR '')'')" "\<not> is_ident_char (CHR ''('')"
  "\<not> is_ident_char (CHR 0x22)" "\<not> is_ident_char (CHR ''-'')" "\<not> is_digit nul" "\<not> is_digit (CHR '' '')" "\<not> is_digit (CHR '')'')"
  "\<not> is_digit (CHR ''_'')" "\<not> is_alpha (CHR 0x22)" "\<not> is_alpha (CHR ''-'')"
  by (simp_all add: is_ident_char_def is_alpha_def is_digit_def in_range_def char_le_def char_val_def)

lemma at_keyword_iff:
  assumes "list_all is_ident_char kw"
  shows "at_keyword q kw \<longleftrightarrow> takeWhile is_ident_char q = kw"
proof
  assume k: "at_keyword q kw"
  then obtain r where q: "q = kw @ r" by (auto simp: at_keyword_def strncmp_eq_length prefix_def)
  then have "\<not> is_ident_char (cget r 0)" using k by (cases r) (auto simp: at_keyword_def cget_def)
  then show "takeWhile is_ident_char q = kw"
    using assms q by (cases r) (auto simp: takeWhile_append list_all_iff)
next
  assume t: "takeWhile is_ident_char q = kw"
  then have q: "q = kw @ dropWhile is_ident_char q" by (metis takeWhile_dropWhile_id)
  have "\<not> is_ident_char (cget (dropWhile is_ident_char q) 0)"
    using hd_dropWhile [of is_ident_char q]
    by (cases "dropWhile is_ident_char q") (auto simp del: dropWhile_eq_Nil_conv)
  then have "\<not> is_ident_char (cget q (length kw))"
    using arg_cong [OF q, of "\<lambda>x. cget x (length kw)"]
    by (cases "dropWhile is_ident_char q") (auto simp: cget_def nth_append split: if_splits)
  then show "at_keyword q kw" using q by (simp add: at_keyword_def strncmp_eq_length prefix_def) blast
qed

lemma keywords_ident:
  "list_all is_ident_char ''and''" "list_all is_ident_char ''or''" "list_all is_ident_char ''not''"
  by (simp_all add: is_ident_char_def is_alpha_def in_range_def char_le_def char_val_def)


lemmas keyword_at = at_keyword_iff [OF keywords_ident(1)] at_keyword_iff [OF keywords_ident(2)]
  at_keyword_iff [OF keywords_ident(3)]

text \<open>After an operand comes a blank or the end of the expression.\<close>

definition ends :: "cstr \<Rightarrow> bool" where
  "ends rest \<longleftrightarrow> rest = [] \<or> hd rest = CHR '')'' \<or> hd rest = CHR '' ''"

lemma ends_chars: "ends rest \<Longrightarrow> \<not> is_ident_char (cget rest 0) \<and> \<not> is_digit (cget rest 0)"
  by (cases rest) (auto simp: ends_def)

lemma takeWhile_ends:
  assumes "list_all is_ident_char s" "ends rest"
  shows "takeWhile is_ident_char (s @ rest) = s \<and> dropWhile is_ident_char (s @ rest) = rest"
  using assms ends_chars [OF assms(2)] by (cases rest) (auto simp: list_all_iff takeWhile_append dropWhile_append)

lemma skip_ws_start: "c \<noteq> CHR '' '' \<Longrightarrow> c \<noteq> CHR 0x09 \<Longrightarrow> skip_ws (c # s) = c # s"
  by (simp add: skip_ws_def)

lemma skip_ws_blank [simp]: "skip_ws (CHR '' '' # s) = skip_ws s"
  by (simp add: skip_ws_def)

lemma digit_ident: "is_digit c \<Longrightarrow> is_ident_char c"
  by (simp add: is_ident_char_def)

text \<open>The printed form of an operand starts with no blank, no parenthesis and no keyword.\<close>

lemma blank_not_ident: "is_ident_char c \<Longrightarrow> c \<noteq> CHR '' '' \<and> c \<noteq> CHR 0x09 \<and> c \<noteq> CHR ''('' \<and> c \<noteq> CHR 0x22 \<and> c \<noteq> CHR ''-''"
  by (auto simp: is_ident_char_def is_alpha_def is_digit_def in_range_def char_le_def char_val_def)

definition operand_text :: "cstr \<Rightarrow> bool" where
  "operand_text q \<longleftrightarrow> skip_ws q = q \<and> cget q 0 \<noteq> CHR ''('' \<and> takeWhile is_ident_char q \<notin> {''and'', ''or'', ''not''}"

lemma show_operand_text:
  assumes "writable_operand x" "ends rest"
  shows "operand_text (show_operand x @ rest)"
proof (cases x)
  case (TNum v)
  obtain d ds where d: "dec (nat \<bar>v\<bar>) = d # ds" using dec_digits(2) by (cases "dec (nat \<bar>v\<bar>)") auto
  then have dig: "is_digit d" using dec_digits(1) [of "nat \<bar>v\<bar>"] by simp
  have "is_ident_char d" "d \<noteq> CHR ''a''" "d \<noteq> CHR ''o''" "d \<noteq> CHR ''n''"
    using dig by (auto simp: digit_ident is_digit_def in_range_def char_le_def char_val_def)
  then show ?thesis using TNum d blank_not_ident [of d]
    by (auto simp: operand_text_def skip_ws_start)
next
  case (TStr s)
  then show ?thesis by (auto simp: operand_text_def skip_ws_start)
next
  case (TName s)
  then have "ident s" using assms(1) by simp
  moreover from this obtain c s' where "s = c # s'" by (cases s) (auto simp: ident_def)
  ultimately show ?thesis using TName assms(2) takeWhile_ends [of s rest] blank_not_ident [of c]
    by (auto simp: operand_text_def ident_def skip_ws_start)
qed

lemma t_operand_show:
  assumes "writable_operand x" "ends rest"
  shows "t_operand (show_operand x @ rest) = Done (x, rest)"
proof -
  let ?q = "show_operand x @ rest"
  note shown = show_operand_text [OF assms]
  have kw: "\<not> at_keyword ?q ''and''" "\<not> at_keyword ?q ''or''" "\<not> at_keyword ?q ''not''"
    using shown by (simp_all add: keyword_at operand_text_def)
  have ws: "skip_ws ?q = ?q" using shown by (simp add: operand_text_def)
  show ?thesis
  proof (cases x)
    case (TStr s)
    then have s: "nul \<notin> set s" using assms(1) by simp
    show ?thesis using string_scan_escape [OF s, of 0 rest] string_copy_escape [OF s, of "CHR 0x22 # rest"] TStr ws
      by (simp add: t_operand_def lex_operand_def)
  next
    case (TName s)
    then have s: "ident s" using assms(1) by simp
    then obtain c s' where c: "s = c # s'" by (cases s) (auto simp: ident_def)
    then have "is_alpha c \<or> c = CHR ''_''" "list_all is_ident_char s" using s by (auto simp: ident_def)
    moreover have "\<not> is_digit c" "c \<noteq> CHR 0x22" "c \<noteq> CHR ''-''"
      using calculation(1) by (auto simp: is_alpha_def is_digit_def in_range_def char_le_def char_val_def)
    ultimately show ?thesis using TName c ws kw takeWhile_ends [of s rest] assms(2)
      by (simp add: t_operand_def lex_operand_def)
  next
    case (TNum v)
    let ?n = "nat \<bar>v\<bar>"
    obtain d ds where d: "dec ?n = d # ds" using dec_digits(2) by (cases "dec ?n") auto
    then have dig: "is_digit d" "d \<noteq> CHR 0x22" "d \<noteq> CHR ''-''"
      using dec_digits(1) [of ?n] blank_not_ident [of d] digit_ident by auto
    have "num_loop 0 (dec ?n @ rest) = num_loop \<bar>v\<bar> rest"
      using num_loop_append [of 0 ?n rest] assms(1) TNum by simp
    then have loop: "num_loop 0 (dec ?n @ rest) = Some (\<bar>v\<bar>, rest)"
      using ends_chars [OF assms(2)] by (simp add: num_loop.simps [of "\<bar>v\<bar>"])
    have ne: "rest \<noteq> d # ds @ rest" by (metis append_Cons append_self_conv2 list.distinct(1))
    show ?thesis using TNum ws loop d dig ne
      by (cases "v < 0") (simp_all add: t_operand_def lex_operand_def Let_def)
  qed
qed


subsection \<open>Expressions\<close>

lemma lex_op_show: "skip_ws (show_op op @ CHR '' '' # q) = show_op op @ CHR '' '' # q"
    "lex_op (show_op op @ CHR '' '' # q) = Done (op, CHR '' '' # q)"
  by (cases op; simp add: skip_ws_start lex_op_def strncmp_eq_def numeral_2_eq_2)+

lemma t_operand_blank: "t_operand (CHR '' '' # q) = t_operand q"
  by (simp add: t_operand_def)

lemma t_cmp_show:
  assumes "writable (TCmp op l r)" "ends rest"
  shows "t_cmp (show_tree (TCmp op l r) @ rest) = Done (TCmp op l r, rest)"
proof -
  let ?q1 = "CHR '' '' # show_op op @ CHR '' '' # show_operand r @ rest"
  have "t_operand (show_operand l @ ?q1) = Done (l, ?q1)"
    using t_operand_show [of l ?q1] assms(1) by (simp add: ends_def)
  then show ?thesis
    using lex_op_show [of op "show_operand r @ rest"] t_operand_show [of r rest] assms
    by (simp add: t_cmp_def t_operand_blank)
qed

lemma stop_skip: "stop rest \<Longrightarrow> skip_ws rest = rest \<and> \<not> at_keyword rest ''and'' \<and> \<not> at_keyword rest ''or''"
  by (cases rest) (auto simp: stop_def skip_ws_def keyword_at)

lemma stop_ends: "stop rest \<Longrightarrow> ends rest"
  by (auto simp: stop_def ends_def)

text \<open>Text that the grammar reads as one operand of \<open>and\<close> is read as an expression.\<close>

lemma t_or_of_not:
  assumes "t_not f q = Done (t, rest)" "stop rest" "0 < f"
  shows "t_and (Suc f) q = Done (t, rest)" "t_or (Suc (Suc f)) q = Done (t, rest)"
proof -
  obtain g where g: "f = Suc g" using assms(3) by (cases f) auto
  show "t_and (Suc f) q = Done (t, rest)" using assms(1) stop_skip [OF assms(2)] g by simp
  then show "t_or (Suc (Suc f)) q = Done (t, rest)" using stop_skip [OF assms(2)] by simp
qed

lemma t_not_paren:
  assumes "t_or f (show_tree t @ CHR '')'' # rest) = Done (t, CHR '')'' # rest)"
  shows "t_not (Suc (Suc f)) (CHR ''('' # show_tree t @ CHR '')'' # rest) = Done (t, rest)"
  using assms by (simp add: skip_ws_start keyword_at)

lemma t_not_blank: "t_not f (CHR '' '' # q) = t_not f q"
  by (cases f) simp_all

lemma t_and_blank: "t_and f (CHR '' '' # q) = t_and f q"
  by (cases f) (simp_all add: t_not_blank)

lemma not_word:
  "at_keyword (CHR ''n'' # CHR ''o'' # CHR ''t'' # CHR '' '' # q) ''not''"
  "at_keyword (CHR ''a'' # CHR ''n'' # CHR ''d'' # CHR '' '' # q) ''and''"
  "at_keyword (CHR ''o'' # CHR ''r'' # CHR '' '' # q) ''or''"
  "\<not> at_keyword (CHR ''o'' # CHR ''r'' # CHR '' '' # q) ''and''"
  by (simp_all add: at_keyword_def strncmp_eq_def numeral_2_eq_2 numeral_3_eq_3)

lemma show_parse:
  "writable t \<Longrightarrow> stop rest \<Longrightarrow> 4 * length (show_tree t @ rest) + 3 < f \<Longrightarrow>
     t_or f (show_tree t @ rest) = Done (t, rest)"
proof (induction t arbitrary: rest f)
  case (TCmp op l r)
  obtain g where g: "f = Suc (Suc (Suc (Suc g)))" using TCmp.prems(3)
    by (intro that [of "f - 4"]) simp
  have "operand_text (show_tree (TCmp op l r) @ rest)"
    using show_operand_text [of l "CHR '' '' # show_op op @ CHR '' '' # show_operand r @ rest"] TCmp.prems(1)
    by (simp add: ends_def)
  then have "t_not (Suc (Suc g)) (show_tree (TCmp op l r) @ rest) = Done (TCmp op l r, rest)"
    using t_cmp_show [OF TCmp.prems(1) stop_ends [OF TCmp.prems(2)]]
    by (simp add: operand_text_def keyword_at del: show_tree.simps)
  then show ?case using t_or_of_not(2) TCmp.prems(2) g by blast
next
  case (TNot t)
  obtain g where g: "f = Suc (Suc (Suc (Suc (Suc g))))" using TNot.prems(3)
    by (intro that [of "f - 5"]) simp
  have "t_not (Suc (Suc g)) (CHR ''('' # show_tree t @ CHR '')'' # rest) = Done (t, rest)"
    by (intro t_not_paren TNot.IH) (use TNot.prems g in \<open>simp_all add: stop_def\<close>)
  then have "t_not (Suc (Suc (Suc g))) (show_tree (TNot t) @ rest) = Done (TNot t, rest)"
    by (subst t_not.simps) (simp add: skip_ws_start not_word t_not_blank del: t_not.simps)
  then show ?case using t_or_of_not(2) TNot.prems(2) g by blast
next
  case (TAnd l r)
  obtain g where g: "f = Suc (Suc (Suc (Suc (Suc g))))" using TAnd.prems(3)
    by (intro that [of "f - 5"]) simp
  let ?x = "'' and ('' @ show_tree r @ CHR '')'' # rest"
  have l: "t_not (Suc (Suc (Suc g))) (CHR ''('' # show_tree l @ CHR '')'' # ?x) = Done (l, ?x)"
    by (intro t_not_paren TAnd.IH(1)) (use TAnd.prems g in \<open>simp_all add: stop_def\<close>)
  have r: "t_not (Suc (Suc g)) (CHR ''('' # show_tree r @ CHR '')'' # rest) = Done (r, rest)"
    by (intro t_not_paren TAnd.IH(2)) (use TAnd.prems g in \<open>simp_all add: stop_def\<close>)
  have "t_and_loop (Suc (Suc (Suc g))) l ?x = Done (TAnd l r, rest)"
    using r stop_skip [OF TAnd.prems(2)]
    by (simp add: skip_ws_start not_word t_not_blank del: t_not.simps)
  then have "t_and (Suc (Suc (Suc (Suc g)))) (show_tree (TAnd l r) @ rest) = Done (TAnd l r, rest)"
    using l by (simp del: t_not.simps t_and_loop.simps)
  then show ?case using stop_skip [OF TAnd.prems(2)] g by (simp del: t_and.simps)
next
  case (TOr l r)
  obtain g where g: "f = Suc (Suc (Suc (Suc (Suc g))))" using TOr.prems(3)
    by (intro that [of "f - 5"]) simp
  let ?x = "'' or ('' @ show_tree r @ CHR '')'' # rest"
  have l: "t_not (Suc (Suc (Suc g))) (CHR ''('' # show_tree l @ CHR '')'' # ?x) = Done (l, ?x)"
    by (intro t_not_paren TOr.IH(1)) (use TOr.prems g in \<open>simp_all add: stop_def\<close>)
  have r: "t_and (Suc (Suc (Suc g))) (CHR ''('' # show_tree r @ CHR '')'' # rest) = Done (r, rest)"
    by (intro t_or_of_not(1) t_not_paren TOr.IH(2)) (use TOr.prems g in \<open>simp_all add: stop_def\<close>)
  have "t_and (Suc (Suc (Suc (Suc g)))) (show_tree (TOr l r) @ rest) = Done (l, tl ?x)"
    using l by (simp add: skip_ws_start not_word del: t_not.simps)
  moreover have "t_or_loop (Suc (Suc (Suc (Suc g)))) l (tl ?x) = Done (TOr l r, rest)"
    using r stop_skip [OF TOr.prems(2)] by (simp add: skip_ws_start not_word t_and_blank del: t_and.simps)
  ultimately show ?case using g by (simp del: t_and.simps t_or_loop.simps)
qed


lemma show_accepted:
  assumes "writable t"
  shows "t_compile (show_tree t) = Accepts t"
proof -
  have "t_or (parse_fuel (show_tree t)) (show_tree t) = Done (t, [])"
    using show_parse [OF assms, of "[]" "parse_fuel (show_tree t)"] by (simp add: stop_def parse_fuel_def)
  moreover have "show_tree t \<noteq> []" by (cases t) auto
  ultimately show ?thesis by (simp add: t_compile_def skip_ws_def)
qed

lemma digits_no_nul: "nul \<notin> set (dec n)"
  using dec_digits(1) [of n] by (auto simp: list_all_iff is_digit_def in_range_def char_le_def char_val_def)

lemma escape_no_nul: "nul \<notin> set s \<Longrightarrow> nul \<notin> set (escape s)"
  by (induction s rule: escape.induct) auto

lemma operand_no_nul: "writable_operand x \<Longrightarrow> nul \<notin> set (show_operand x)"
  by (cases x) (auto simp: digits_no_nul escape_no_nul ident_def list_all_iff)

lemma show_no_nul: "writable t \<Longrightarrow> nul \<notin> set (show_tree t)"
proof (induction t)
  case (TCmp op l r)
  then show ?case by (cases op) (auto dest: operand_no_nul)
qed auto



end
