(* ===== verification/Call_Context.thy ===== *)
theory Call_Context
  imports Caller_Cache
begin

section \<open>An intercepted call (\<open>src/src/core/engine.h\<close>, \<open>funcs.h\<close>, \<open>src/src/backends/arch_spec.h\<close>)\<close>

text \<open>
  What the engine knows of the call it is handling; \<open>tc_func\<close> and \<open>tc_type_name\<close> are the
  name and the return type of its prototype.  A parameter value is a machine
  word; what a pointer parameter points to is read through a memory argument of the
  definitions that dereference it.
\<close>

datatype param_direction = PDIR_IN | PDIR_OUT | PDIR_INOUT

record param_meta =
  pm_name :: cstr
  pm_type_name :: cstr
  pm_modifiers :: "32 word"
  pm_direction :: param_direction
  pm_ref_type_name :: cstr
  pm_array_cnt_param :: cstr

record func_param =
  fp_meta :: param_meta
  fp_val :: "64 word"
  fp_free_val :: bool

record thread_context =
  tc_func :: cstr
  tc_type_name :: cstr
  tc_ret_val :: "64 word"
  tc_ret_errno :: "32 word"
  tc_params :: "func_param list"
  tc_ret_addr :: addr

definition MAXLEN_FUNC_NAME :: nat where "MAXLEN_FUNC_NAME = 64"
definition MAXLEN_PARAM_NAME :: nat where "MAXLEN_PARAM_NAME = 32"

definition CDM_NOMOD :: "32 word" where "CDM_NOMOD = 0"
definition CDM_POINTER :: "32 word" where "CDM_POINTER = 1"
definition CDM_CONST :: "32 word" where "CDM_CONST = 4"
definition CDM_ARRAY :: "32 word" where "CDM_ARRAY = 8"

end
