(* ===== verification/Filter_Context.thy ===== *)
theory Filter_Context
  imports Filter_Correct Call_Context
begin

unbundle bit_operations_syntax

section \<open>Filters over the intercepted call (\<open>src/src/core/filter_dsl.c\<close>)\<close>

text \<open>
  The resolver the engine installs.  \<open>mem\<close> gives the string at an address of the
  traced process.  The caller's symbol comes from the caller cache as it stands.
\<close>

definition string_param :: "func_param \<Rightarrow> bool" where
  "string_param fp \<longleftrightarrow> pm_modifiers (fp_meta fp) AND CDM_POINTER \<noteq> 0 \<and> fp_val fp \<noteq> 0 \<and>
     pm_ref_type_name (fp_meta fp) = ''sz''"

fun find_param :: "cstr \<Rightarrow> func_param list \<Rightarrow> func_param option" where
  "find_param name [] = None"
| "find_param name (fp # fps) = (if pm_name (fp_meta fp) = name then Some fp else find_param name fps)"

definition tctx_str :: "(addr \<Rightarrow> cstr) \<Rightarrow> caller_cache \<Rightarrow> thread_context \<Rightarrow> cstr option \<Rightarrow> cstr \<Rightarrow> cstr option option" where
  "tctx_str mem cache t func_name name =
     (if name = ''func'' then Some func_name
      else if name = ''caller'' then
        (if tc_ret_addr t = 0 then Some None
         else case fst (retrace_caller_cache_lookup (tc_ret_addr t) cache) of
                None \<Rightarrow> Some None
              | Some info \<Rightarrow> Some (dli_sname info))
      else case find_param name (tc_params t) of
             None \<Rightarrow> None
           | Some fp \<Rightarrow> Some (if string_param fp then Some (mem (fp_val fp)) else None))"

definition tctx_num :: "thread_context \<Rightarrow> cstr \<Rightarrow> int option" where
  "tctx_num t name =
     (if name = ''ret'' then Some (sint (tc_ret_val t))
      else case find_param name (tc_params t) of
             None \<Rightarrow> None
           | Some fp \<Rightarrow> if string_param fp then None else Some (sint (fp_val fp)))"

definition tctx_resolver :: "(addr \<Rightarrow> cstr) \<Rightarrow> caller_cache \<Rightarrow> thread_context \<Rightarrow> cstr option \<Rightarrow> filter_resolver" where
  "tctx_resolver mem cache t func_name =
     \<lparr>res_num = tctx_num t, res_str = tctx_str mem cache t func_name\<rparr>"

definition retrace_filter_eval ::
    "(addr \<Rightarrow> cstr) \<Rightarrow> caller_cache \<Rightarrow> retrace_filter_ast option \<Rightarrow> thread_context option \<Rightarrow> cstr option \<Rightarrow> bool option" where
  "retrace_filter_eval mem cache ast t_ctx func_name =
     (case t_ctx of
        None \<Rightarrow> Some False
      | Some t \<Rightarrow> retrace_filter_eval_resolved ast (tctx_resolver mem cache t func_name))"

lemma eval_compiled:
  assumes "nul \<notin> set src" "t_compile src = Accepts t" "nsize t \<le> 16" "abytes t \<le> 128"
  shows "\<exists>ast. retrace_filter_compile (\<lambda>_. True) (Some src) = Compiled ast \<and>
    (\<forall>mem cache ctx func. retrace_filter_eval mem cache (Some ast) (Some ctx) func =
       Some (t_eval (tctx_resolver mem cache ctx func) t))"
  using compile_correct [OF assms, of "\<lambda>_. True"] by (auto simp: retrace_filter_eval_def)


subsection \<open>Where the filter departs from its description\<close>

text \<open>A call \<open>f(fd, nbyte)\<close> with two integer parameters.\<close>

definition int_param :: "cstr \<Rightarrow> 64 word \<Rightarrow> func_param" where
  "int_param name v = \<lparr>fp_meta = \<lparr>pm_name = name, pm_type_name = ''int'', pm_modifiers = 0, pm_direction = PDIR_IN, pm_ref_type_name = [], pm_array_cnt_param = []\<rparr>, fp_val = v, fp_free_val = False\<rparr>"

definition two_ints :: "64 word \<Rightarrow> 64 word \<Rightarrow> thread_context" where
  "two_ints x y = \<lparr>tc_func = ''f'', tc_type_name = ''int'', tc_ret_val = 0, tc_ret_errno = 0,
     tc_params = [int_param ''fd'' x, int_param ''nbyte'' y], tc_ret_addr = 0\<rparr>"

lemma two_ints_str: "s \<in> {''fd'', ''nbyte''} \<Longrightarrow> tctx_str mem cache (two_ints x y) func s = Some None"
  by (auto simp: tctx_str_def two_ints_def int_param_def string_param_def)

text \<open>
  Comparing two integer parameters with \<open>==\<close> is always true and with \<open>!=\<close> always
  false, whatever their values: each resolves as a string that is \<open>NULL\<close>, and two
  \<open>NULL\<close>s are equal.  The header says such parameters compare as integers.
\<close>

theorem filter_int_params_always_equal:
  "\<exists>eq ne. retrace_filter_compile (\<lambda>_. True) (Some ''fd == nbyte'') = Compiled eq \<and>
     retrace_filter_compile (\<lambda>_. True) (Some ''fd != nbyte'') = Compiled ne \<and>
     (\<forall>mem cache func x y.
        retrace_filter_eval mem cache (Some eq) (Some (two_ints x y)) func = Some True \<and>
        retrace_filter_eval mem cache (Some ne) (Some (two_ints x y)) func = Some False)"
proof -
  have eq: "t_compile ''fd == nbyte'' = Accepts (TCmp FO_EQ (TName ''fd'') (TName ''nbyte''))" by code_simp
  have ne: "t_compile ''fd != nbyte'' = Accepts (TCmp FO_NE (TName ''fd'') (TName ''nbyte''))" by code_simp
  obtain a where "retrace_filter_compile (\<lambda>_. True) (Some ''fd == nbyte'') = Compiled a"
      "\<And>mem cache ctx func. retrace_filter_eval mem cache (Some a) (Some ctx) func =
         Some (t_eval (tctx_resolver mem cache ctx func) (TCmp FO_EQ (TName ''fd'') (TName ''nbyte'')))"
    using eval_compiled [OF _ eq] by auto
  moreover obtain b where "retrace_filter_compile (\<lambda>_. True) (Some ''fd != nbyte'') = Compiled b"
      "\<And>mem cache ctx func. retrace_filter_eval mem cache (Some b) (Some ctx) func =
         Some (t_eval (tctx_resolver mem cache ctx func) (TCmp FO_NE (TName ''fd'') (TName ''nbyte'')))"
    using eval_compiled [OF _ ne] by auto
  ultimately show ?thesis
    using two_ints_str by (simp add: tctx_resolver_def)
qed

text \<open>
  The operand \<open>caller\<close> is answered from the caller cache alone: while the return
  address is not cached no \<open>caller ~ pattern\<close> filter matches, whatever symbol
  \<open>dladdr\<close> would give for it.
\<close>

theorem filter_caller_only_from_cache:
  assumes "fst (retrace_caller_cache_lookup (tc_ret_addr ctx) cache) = None"
  shows "t_eval (tctx_resolver mem cache ctx func) (TCmp FO_GLOB (TName ''caller'') (TStr pat)) = False"
  using assms by (simp add: tctx_resolver_def tctx_str_def t_glob_def)

theorem filter_caller_only_from_cache_witness:
  "t_eval (tctx_resolver (\<lambda>_. []) empty_cache ((two_ints 1 2)\<lparr>tc_ret_addr := 4096\<rparr>) None)
     (TCmp FO_GLOB (TName ''caller'') (TStr ''*'')) = False"
proof (rule filter_caller_only_from_cache)
  have "cc_lookup empty_cache 4096 = None"
    using empty_cache_ok [of "\<lambda>_. None"] by (cases "cc_lookup empty_cache 4096") (auto simp: cache_ok_def)
  then show "fst (retrace_caller_cache_lookup (tc_ret_addr ((two_ints 1 2)\<lparr>tc_ret_addr := 4096\<rparr>)) empty_cache) = None"
    by (simp add: cc_lookup_def)
qed

subsection \<open>Arenas that grow\<close>

definition nine :: cstr where
  "nine = ''a==1 and b==2 and c==3 and d==4 and e==5 and f==6 and g==7 and h==8 and i==9''"

definition sixteen_nots :: cstr where
  "sixteen_nots = concat (replicate 16 ''not '') @ ''a==1''"

lemma wild_root:
  "node_at ast (fa_root ast) = Some (FN_AND Wild r) \<Longrightarrow> retrace_filter_eval_resolved (Some ast) rs = None"
  by (simp add: retrace_filter_eval_resolved_def eval_node.simps node_at_def)

lemma nine_compiled:
  "case retrace_filter_compile (\<lambda>_. True) (Some nine) of
     Compiled ast \<Rightarrow> node_at ast (fa_root ast) = Some (FN_AND Wild Wild) | _ \<Rightarrow> False"
  by code_simp

text \<open>
  The seventeenth node makes the node arena grow, and the tree built so far is left
  behind: nine comparisons joined by \<open>and\<close> compile, yet evaluating them reads through a
  pointer outside the compiled block; sixteen nested \<open>not\<close>s already write through a
  pointer into the freed arena while compiling.  The grammar accepts both.
\<close>

theorem filter_growth_loses_nodes:
  "(\<exists>t. t_compile nine = Accepts t) \<and>
   (\<exists>ast. retrace_filter_compile (\<lambda>_. True) (Some nine) = Compiled ast \<and>
     (\<forall>rs. retrace_filter_eval_resolved (Some ast) rs = None)) \<and>
   (\<exists>t. t_compile sixteen_nots = Accepts t) \<and>
   retrace_filter_compile (\<lambda>_. True) (Some sixteen_nots) = Compile_undef"
proof (intro conjI)
  show "\<exists>t. t_compile nine = Accepts t"
    by (cases "t_compile nine") (simp_all, code_simp+)
  show "\<exists>ast. retrace_filter_compile (\<lambda>_. True) (Some nine) = Compiled ast \<and>
     (\<forall>rs. retrace_filter_eval_resolved (Some ast) rs = None)"
    using nine_compiled wild_root
    by (cases "retrace_filter_compile (\<lambda>_. True) (Some nine)") auto
  show "\<exists>t. t_compile sixteen_nots = Accepts t"
    by (cases "t_compile sixteen_nots") (simp_all, code_simp+)
  show "retrace_filter_compile (\<lambda>_. True) (Some sixteen_nots) = Compile_undef" by code_simp
qed

end
