(* ===== verification/Json.thy ===== *)
theory Json
  imports Complex_Main Retrace_Prelude
begin

section \<open>JSON trees (\<open>src/src/config/json/parson.c\<close>)\<close>

text \<open>
  The values configuration is made of, and the accessors the engine reads them with.
  An object is its names and values in the order they were added; a number is a finite
  double, hence a rational.  A pointer that may be \<open>NULL\<close> is an option throughout, and
  every accessor is total, as in the source.
\<close>

datatype json =
  JSONNull
| JSONString cstr
| JSONNumber rat
| JSONObject "(cstr \<times> json) list"
| JSONArray "json list"
| JSONBoolean bool

type_synonym json_object = "(cstr \<times> json) list"
type_synonym json_array = "json list"

subsection \<open>Values\<close>

fun json_value_get_object :: "json option \<Rightarrow> json_object option" where
  "json_value_get_object (Some (JSONObject ob)) = Some ob"
| "json_value_get_object _ = None"

fun json_value_get_array :: "json option \<Rightarrow> json_array option" where
  "json_value_get_array (Some (JSONArray xs)) = Some xs"
| "json_value_get_array _ = None"

fun json_value_get_string :: "json option \<Rightarrow> cstr option" where
  "json_value_get_string (Some (JSONString s)) = Some s"
| "json_value_get_string _ = None"

fun json_value_get_number :: "json option \<Rightarrow> rat" where
  "json_value_get_number (Some (JSONNumber x)) = x"
| "json_value_get_number _ = 0"

fun json_value_get_boolean :: "json option \<Rightarrow> int" where
  "json_value_get_boolean (Some (JSONBoolean b)) = (if b then 1 else 0)"
| "json_value_get_boolean _ = -1"

subsection \<open>Objects\<close>

definition json_object_get_count :: "json_object option \<Rightarrow> nat" where
  "json_object_get_count ob = (case ob of None \<Rightarrow> 0 | Some fields \<Rightarrow> length fields)"

fun json_object_nget_value :: "json_object \<Rightarrow> cstr \<Rightarrow> nat \<Rightarrow> json option" where
  "json_object_nget_value [] name n = None"
| "json_object_nget_value ((k, v) # fields) name n =
     (if length k = n \<and> strncmp_eq k name n then Some v else json_object_nget_value fields name n)"

definition json_object_get_value :: "json_object option \<Rightarrow> cstr \<Rightarrow> json option" where
  "json_object_get_value ob name = (case ob of
     None \<Rightarrow> None | Some fields \<Rightarrow> json_object_nget_value fields name (length name))"

definition json_object_get_string :: "json_object option \<Rightarrow> cstr \<Rightarrow> cstr option" where
  "json_object_get_string ob name = json_value_get_string (json_object_get_value ob name)"

definition json_object_get_number :: "json_object option \<Rightarrow> cstr \<Rightarrow> rat" where
  "json_object_get_number ob name = json_value_get_number (json_object_get_value ob name)"

definition json_object_get_object :: "json_object option \<Rightarrow> cstr \<Rightarrow> json_object option" where
  "json_object_get_object ob name = json_value_get_object (json_object_get_value ob name)"

definition json_object_get_array :: "json_object option \<Rightarrow> cstr \<Rightarrow> json_array option" where
  "json_object_get_array ob name = json_value_get_array (json_object_get_value ob name)"

definition json_object_get_boolean :: "json_object option \<Rightarrow> cstr \<Rightarrow> int" where
  "json_object_get_boolean ob name = json_value_get_boolean (json_object_get_value ob name)"

definition json_object_has_value :: "json_object option \<Rightarrow> cstr \<Rightarrow> bool" where
  "json_object_has_value ob name \<longleftrightarrow> json_object_get_value ob name \<noteq> None"

subsection \<open>Arrays\<close>

definition json_array_get_count :: "json_array option \<Rightarrow> nat" where
  "json_array_get_count xs = (case xs of None \<Rightarrow> 0 | Some ys \<Rightarrow> length ys)"

definition json_array_get_value :: "json_array option \<Rightarrow> nat \<Rightarrow> json option" where
  "json_array_get_value xs i = (case xs of
     None \<Rightarrow> None | Some ys \<Rightarrow> if i \<ge> json_array_get_count xs then None else Some (ys ! i))"

definition json_array_get_string :: "json_array option \<Rightarrow> nat \<Rightarrow> cstr option" where
  "json_array_get_string xs i = json_value_get_string (json_array_get_value xs i)"

definition json_array_get_number :: "json_array option \<Rightarrow> nat \<Rightarrow> rat" where
  "json_array_get_number xs i = json_value_get_number (json_array_get_value xs i)"

definition json_array_get_object :: "json_array option \<Rightarrow> nat \<Rightarrow> json_object option" where
  "json_array_get_object xs i = json_value_get_object (json_array_get_value xs i)"

subsection \<open>Facts\<close>

lemma same_name: "(length k = length name \<and> strncmp_eq k name (length name)) = (k = name)"
  by (auto simp: strncmp_eq_def)

lemma nget_value_map: "json_object_nget_value fields name (length name) = map_of fields name"
proof (induction fields)
  case (Cons kv fields)
  obtain k v where "kv = (k, v)" by (cases kv)
  then show ?case using Cons same_name [of k name] by simp
qed simp

lemma json_object_get_value_map: "json_object_get_value (Some fields) name = map_of fields name"
  by (simp add: json_object_get_value_def nget_value_map)

lemma get_value_smaller:
  "json_object_get_value (Some obj) key = Some v \<Longrightarrow> size v < Suc (size_list (size_prod (\<lambda>_. 0) size) obj)"
proof (induction obj)
  case (Cons kv obj)
  then show ?case by (cases kv) (auto simp: json_object_get_value_map split: if_splits)
qed (simp add: json_object_get_value_map)

text \<open>
  A double converted to an integer type: the part before the point when the type can
  hold it; C leaves any other conversion open.
\<close>

definition rat_trunc :: "rat \<Rightarrow> int" where
  "rat_trunc x = (if 0 \<le> x then \<lfloor>x\<rfloor> else \<lceil>x\<rceil>)"

definition double_to_u64 :: "rat \<Rightarrow> 64 word" where
  "double_to_u64 x = (if -1 < x \<and> x < 2 ^ 64 then word_of_int (rat_trunc x) else undefined)"

definition double_to_s64 :: "rat \<Rightarrow> 64 word" where
  "double_to_s64 x = (if - (2 ^ 63) - 1 < x \<and> x < 2 ^ 63 then word_of_int (rat_trunc x) else undefined)"

definition double_to_s32 :: "rat \<Rightarrow> 32 word" where
  "double_to_s32 x = (if - (2 ^ 31) - 1 < x \<and> x < 2 ^ 31 then word_of_int (rat_trunc x) else undefined)"

end
