(* ===== verification/Call_Counters.thy ===== *)
theory Call_Counters
  imports Call_Context Json
begin

section \<open>Counting actions (\<open>src/src/core/actions/call_count_limit.c\<close>, \<open>fail_first.c\<close>)\<close>

text \<open>
  Two actions keep a table of 64 counters keyed by function name, each claimed by the
  first call of its function.  An entry whose name is empty is free.  A \<open>long\<close> is a
  64-bit word read with \<open>sint\<close>.  A thread context without a prototype has the empty
  function name.
\<close>

definition MAX_TRACKED_FUNCS :: nat where "MAX_TRACKED_FUNCS = 64"

record count_entry =
  ce_name :: cstr
  ce_count :: "64 word"
  ce_limit :: "64 word"

record fail_entry = count_entry +
  fe_retval :: "64 word"

text \<open>The scan: the slot of the name, or the first free slot, if any.\<close>

fun claim_scan :: "cstr \<Rightarrow> nat \<Rightarrow> nat option \<Rightarrow> 'a count_entry_scheme list \<Rightarrow> bool \<times> nat option" where
  "claim_scan name i first_empty [] = (False, first_empty)"
| "claim_scan name i first_empty (e # es) =
     (if ce_name e \<noteq> [] \<and> ce_name e = name then (True, Some i)
      else claim_scan name (Suc i) (if first_empty = None \<and> ce_name e = [] then Some i else first_empty) es)"

definition find_or_claim ::
    "cstr \<Rightarrow> 64 word \<Rightarrow> 'a count_entry_scheme list \<Rightarrow> nat option \<times> 'a count_entry_scheme list" where
  "find_or_claim name limit es =
     (case claim_scan name 0 None es of
        (True, i) \<Rightarrow> (i, es)
      | (False, None) \<Rightarrow> (None, es)
      | (False, Some i) \<Rightarrow> (Some i, es[i := (es ! i)\<lparr>ce_name := name, ce_count := 0, ce_limit := limit\<rparr>]))"

definition ia_call_count_limit ::
    "thread_context \<Rightarrow> json_object option \<Rightarrow> count_entry list \<Rightarrow> int \<times> count_entry list" where
  "ia_call_count_limit t action_params es =
     (if action_params = None then (-1, es)
      else if \<not> json_object_has_value action_params ''limit'' then (-1, es)
      else
        let limit = double_to_s64 (json_object_get_number action_params ''limit'') in
        if tc_func t = [] then (-1, es)
        else case find_or_claim (tc_func t) limit es of
            (None, es1) \<Rightarrow> (0, es1)
          | (Some i, es1) \<Rightarrow>
              let e = (es1 ! i)\<lparr>ce_count := ce_count (es1 ! i) + 1\<rparr> in
              (if sint (ce_count e) > sint (ce_limit e) then -1 else 0, es1[i := e]))"

definition ia_fail_first ::
    "thread_context \<Rightarrow> json_object option \<Rightarrow> fail_entry list \<Rightarrow> int \<times> thread_context \<times> fail_entry list" where
  "ia_fail_first t action_params es =
     (if action_params = None then (-1, t, es)
      else if \<not> json_object_has_value action_params ''fails'' \<or> \<not> json_object_has_value action_params ''retval_int''
      then (-1, t, es)
      else
        let fails = double_to_s64 (json_object_get_number action_params ''fails'');
            retval = double_to_s64 (json_object_get_number action_params ''retval_int'') in
        if tc_func t = [] then (-1, t, es)
        else case find_or_claim (tc_func t) fails es of
            (None, es1) \<Rightarrow> (0, t, es1)
          | (Some i, es1) \<Rightarrow>
              let e = (es1 ! i)\<lparr>ce_count := ce_count (es1 ! i) + 1, fe_retval := retval\<rparr> in
              if sint (ce_count e) \<le> sint (ce_limit e) then (-1, t\<lparr>tc_ret_val := fe_retval e\<rparr>, es1[i := e])
              else (0, t, es1[i := e]))"

subsection \<open>The table as a map\<close>

definition tracked :: "'a count_entry_scheme list \<Rightarrow> cstr \<Rightarrow> (64 word \<times> 64 word) option" where
  "tracked es f = map_option (\<lambda>e. (ce_count e, ce_limit e)) (find (\<lambda>e. ce_name e = f) es)"

definition table_inv :: "'a count_entry_scheme list \<Rightarrow> bool" where
  "table_inv es \<longleftrightarrow> length es = MAX_TRACKED_FUNCS \<and>
     (\<forall>i<length es. \<forall>j<length es. ce_name (es ! i) \<noteq> [] \<longrightarrow> ce_name (es ! i) = ce_name (es ! j) \<longrightarrow> i = j)"

definition names :: "'a count_entry_scheme list \<Rightarrow> cstr set" where
  "names es = ce_name ` set es - {[]}"

lemma claim_scan_found:
  "name \<noteq> [] \<Longrightarrow> name \<in> ce_name ` set es \<Longrightarrow>
   \<exists>k<length es. claim_scan name i fe es = (True, Some (i + k)) \<and> ce_name (es ! k) = name"
proof (induction es arbitrary: i fe)
  case (Cons e es)
  show ?case
  proof (cases "ce_name e = name")
    case True
    then show ?thesis using Cons.prems by (intro exI [of _ 0]) simp
  next
    case False
    then obtain k where "k < length es"
        "claim_scan name (Suc i) (if fe = None \<and> ce_name e = [] then Some i else fe) es = (True, Some (Suc i + k))"
        "ce_name (es ! k) = name"
      using Cons.IH [of "Suc i"] Cons.prems by auto
    then show ?thesis using False by (intro exI [of _ "Suc k"]) simp
  qed
qed simp

lemma claim_scan_absent:
  "name \<noteq> [] \<Longrightarrow> name \<notin> ce_name ` set es \<Longrightarrow>
   claim_scan name i fe es = (False, if fe \<noteq> None then fe
     else map_option (\<lambda>k. i + k) (find (\<lambda>k. ce_name (es ! k) = []) [0..<length es]))"
proof (induction es arbitrary: i fe)
  case (Cons e es)
  have "[0..<length (e # es)] = 0 # map Suc [0..<length es]" by (simp add: upt_conv_Cons map_Suc_upt del: upt_Suc)
  moreover have "find P (map Suc xs) = map_option Suc (find (\<lambda>k. P (Suc k)) xs)" for P and xs :: "nat list"
    by (induction xs) auto
  ultimately show ?case using Cons
    by (cases "find (\<lambda>k. ce_name (es ! k) = []) [0..<length es]") (auto simp del: upt_Suc)
qed simp

lemma find_nth_unique:
  assumes "table_inv es" "i < length es" "ce_name (es ! i) = f" "f \<noteq> []"
  shows "find (\<lambda>e. ce_name e = f) es = Some (es ! i)"
proof -
  have "ce_name (es ! j) \<noteq> f" if "j < i" for j
    using assms that unfolding table_inv_def by (metis less_trans nat_neq_iff)
  then show ?thesis using assms(2,3) by (auto simp: find_Some_iff)
qed

lemma find_absent: "f \<notin> ce_name ` set es \<Longrightarrow> find (\<lambda>e. ce_name e = f) es = None"
  by (auto simp: find_None_iff)

text \<open>Writing one entry back, its name kept or newly claimed, updates the map at that name.\<close>

lemma tracked_update:
  assumes inv: "table_inv es" and i: "i < length es" and f: "f \<noteq> []" "ce_name e = f"
    and slot: "ce_name (es ! i) = f \<or> ce_name (es ! i) = [] \<and> f \<notin> ce_name ` set es"
  shows "table_inv (es[i := e]) \<and> tracked (es[i := e]) f = Some (ce_count e, ce_limit e) \<and>
    (\<forall>g. g \<noteq> [] \<longrightarrow> g \<noteq> f \<longrightarrow> tracked (es[i := e]) g = tracked es g) \<and> names (es[i := e]) = insert f (names es)"
proof -
  have other: "ce_name (es ! j) \<noteq> f" if "j < length es" "j \<noteq> i" for j
    using slot inv that i f(1) unfolding table_inv_def by (metis image_eqI nth_mem)
  have inv': "table_inv (es[i := e])"
    unfolding table_inv_def
  proof (intro conjI allI impI)
    fix a b assume ab: "a < length (es[i := e])" "b < length (es[i := e])"
      "ce_name (es[i := e] ! a) \<noteq> []" "ce_name (es[i := e] ! a) = ce_name (es[i := e] ! b)"
    then show "a = b"
      using inv other f unfolding table_inv_def by (cases "a = i"; cases "b = i") auto
  qed (use inv in \<open>simp add: table_inv_def\<close>)
  moreover have "tracked (es[i := e]) f = Some (ce_count e, ce_limit e)"
    using find_nth_unique [OF inv', of i f] i f by (simp add: tracked_def)
  moreover have "tracked (es[i := e]) g = tracked es g" if "g \<noteq> []" "g \<noteq> f" for g
  proof (cases "g \<in> ce_name ` set es")
    case True
    then obtain j where j: "j < length es" "ce_name (es ! j) = g" by (auto simp: in_set_conv_nth)
    then have "j \<noteq> i" using slot that by auto
    then show ?thesis using find_nth_unique [OF inv j(1,2) that(1)] find_nth_unique [OF inv' _ _ that(1), of j] j
      by (simp add: tracked_def)
  next
    case False
    moreover from False have "g \<notin> ce_name ` set (es[i := e])"
      using that f set_update_subset_insert [of es i e] by auto
    ultimately show ?thesis by (simp add: tracked_def find_absent)
  qed
  moreover have "names (es[i := e]) = insert f (names es)"
  proof -
    have "ce_name ` set (es[i := e]) - {[]} = insert f (ce_name ` set es - {[]})" (is "?L = ?R")
    proof (intro equalityI subsetI)
      have fL: "f \<in> ?L" using f set_update_memI [OF i, of e] by (metis Diff_iff empty_iff image_eqI insert_iff)
      fix x assume "x \<in> ?R"
      then consider "x = f" | j where "j < length es" "x = ce_name (es ! j)" "x \<noteq> []" by (auto simp: in_set_conv_nth)
      then show "x \<in> ?L"
      proof cases
        case 1
        then show ?thesis using fL by simp
      next
        case 2
        then show ?thesis
        proof (cases "j = i")
          case True
          then have "x = f" using 2 slot by auto
          then show ?thesis using fL by simp
        next
          case False
          then have "es ! j \<in> set (es[i := e])" using 2 by (metis length_list_update nth_list_update_neq nth_mem)
          then show ?thesis using 2 by auto
        qed
      qed
    qed (use f set_update_subset_insert [of es i e] in auto)
    then show ?thesis by (simp add: names_def)
  qed
  ultimately show ?thesis by blast
qed

text \<open>The slot an operation works on, after the claim.\<close>

lemma find_or_claim_spec:
  assumes inv: "table_inv es" and f: "f \<noteq> []"
  shows "if f \<in> names es \<or> card (names es) < MAX_TRACKED_FUNCS
    then \<exists>i es1. find_or_claim f limit es = (Some i, es1) \<and> i < length es1 \<and> table_inv es1 \<and>
      ce_name (es1 ! i) = f \<and> names es1 = insert f (names es) \<and>
      (ce_count (es1 ! i), ce_limit (es1 ! i)) = (case tracked es f of None \<Rightarrow> (0, limit) | Some cl \<Rightarrow> cl) \<and>
      (\<forall>g. g \<noteq> [] \<longrightarrow> g \<noteq> f \<longrightarrow> tracked es1 g = tracked es g)
    else find_or_claim f limit es = (None, es)"
proof (cases "f \<in> names es")
  case True
  then obtain k where k: "k < length es" "claim_scan f 0 None es = (True, Some k)" "ce_name (es ! k) = f"
    using claim_scan_found [OF f, of es 0 None] by (auto simp: names_def)
  have "tracked es f = Some (ce_count (es ! k), ce_limit (es ! k))"
    using find_nth_unique [OF inv k(1,3) f] by (simp add: tracked_def)
  then show ?thesis using True k inv by (auto simp: find_or_claim_def insert_absorb)
next
  case False
  then have absent: "f \<notin> ce_name ` set es" using f by (simp add: names_def)
  note scan = claim_scan_absent [OF f absent, of 0 None]
  have none: "tracked es f = None" using absent by (simp add: tracked_def find_absent)
  have len: "length es = MAX_TRACKED_FUNCS" using inv by (simp add: table_inv_def)
  show ?thesis
  proof (cases "find (\<lambda>k. ce_name (es ! k) = []) [0..<length es]")
    case None
    have "inj_on ce_name (set es) \<and> [] \<notin> ce_name ` set es \<and> distinct es"
    proof -
      have ne: "ce_name (es ! k) \<noteq> []" if "k < length es" for k using None that by (auto simp: find_None_iff)
      then have "distinct (map ce_name es)"
        using inv by (auto simp: distinct_conv_nth table_inv_def)
      moreover have "[] \<notin> ce_name ` set es" using ne by (metis imageE in_set_conv_nth)
      ultimately show ?thesis by (simp add: distinct_map)
    qed
    then have "card (names es) = length es"
      by (simp add: names_def card_image distinct_card)
    then show ?thesis using None scan False len by (simp add: find_or_claim_def)
  next
    case (Some i)
    then have i: "i < length es" "ce_name (es ! i) = []" by (auto simp: find_Some_iff)
    have "names es \<subseteq> ce_name ` (set es - {es ! i})" using i by (auto simp: names_def)
    then have "card (names es) \<le> card (ce_name ` (set es - {es ! i}))" by (rule card_mono [rotated]) simp
    also have "\<dots> \<le> card (set es - {es ! i})" by (rule card_image_le) simp
    also have "\<dots> < card (set es)" by (rule card_Diff1_less) (simp_all add: i(1))
    also have "\<dots> \<le> length es" by (rule card_length)
    finally have room: "card (names es) < MAX_TRACKED_FUNCS" by (simp add: len)
    let ?e = "(es ! i)\<lparr>ce_name := f, ce_count := 0, ce_limit := limit\<rparr>"
    have "find_or_claim f limit es = (Some i, es[i := ?e])" using scan Some by (simp add: find_or_claim_def)
    then show ?thesis using tracked_update [OF inv i(1) f, of ?e] i absent room none by simp
  qed
qed

subsection \<open>One call\<close>

definition limit_of :: "json_object \<Rightarrow> cstr \<Rightarrow> 64 word" where
  "limit_of params key = double_to_s64 (json_object_get_number (Some params) key)"

text \<open>The counter a call of \<open>f\<close> finds or claims, before it counts.\<close>

definition counter :: "'a count_entry_scheme list \<Rightarrow> cstr \<Rightarrow> 64 word \<Rightarrow> 64 word \<times> 64 word" where
  "counter es f limit = (case tracked es f of None \<Rightarrow> (0, limit) | Some cl \<Rightarrow> cl)"

definition admitted :: "'a count_entry_scheme list \<Rightarrow> cstr \<Rightarrow> bool" where
  "admitted es f \<longleftrightarrow> f \<in> names es \<or> card (names es) < MAX_TRACKED_FUNCS"

definition counted :: "'a count_entry_scheme list \<Rightarrow> cstr \<Rightarrow> 64 word \<Rightarrow> 'a count_entry_scheme list \<Rightarrow> bool" where
  "counted es f limit es' \<longleftrightarrow> table_inv es' \<and> names es' = insert f (names es) \<and>
     tracked es' f = Some (fst (counter es f limit) + 1, snd (counter es f limit)) \<and>
     (\<forall>g. g \<noteq> [] \<longrightarrow> g \<noteq> f \<longrightarrow> tracked es' g = tracked es g)"

lemma counted_claim:
  assumes "table_inv es" "f \<noteq> []" "admitted es f"
  obtains i es1 where "find_or_claim f limit es = (Some i, es1)"
    "ce_count (es1 ! i) = fst (counter es f limit)" "ce_limit (es1 ! i) = snd (counter es f limit)"
    "\<And>e. ce_name e = f \<Longrightarrow> ce_count e = fst (counter es f limit) + 1 \<Longrightarrow> ce_limit e = snd (counter es f limit) \<Longrightarrow>
       counted es f limit (es1[i := e])"
    "ce_name (es1 ! i) = f"
proof -
  from find_or_claim_spec [OF assms(1,2), of limit] assms(3) obtain i es1 where
    c: "find_or_claim f limit es = (Some i, es1)" "i < length es1" "table_inv es1" "ce_name (es1 ! i) = f"
      "names es1 = insert f (names es)" "(ce_count (es1 ! i), ce_limit (es1 ! i)) = counter es f limit"
      "\<forall>g. g \<noteq> [] \<longrightarrow> g \<noteq> f \<longrightarrow> tracked es1 g = tracked es g"
    unfolding admitted_def counter_def by auto
  have "counted es f limit (es1[i := e])"
    if "ce_name e = f" "ce_count e = fst (counter es f limit) + 1" "ce_limit e = snd (counter es f limit)" for e
    using tracked_update [OF c(3,2) assms(2) that(1)] c(4,5,7) that by (simp add: counted_def)
  then show thesis using that [OF c(1)] c(4,6) by (metis fst_conv snd_conv)
qed

lemma not_admitted: "table_inv es \<Longrightarrow> f \<noteq> [] \<Longrightarrow> \<not> admitted es f \<Longrightarrow> find_or_claim f limit es = (None, es)"
  using find_or_claim_spec [of es f limit] by (auto simp: admitted_def)

lemma call_count_limit_step:
  assumes "table_inv es" "tc_func t \<noteq> []" "json_object_has_value (Some params) ''limit''" "admitted es (tc_func t)"
  shows "\<exists>es'. ia_call_count_limit t (Some params) es =
      (if sint (fst (counter es (tc_func t) (limit_of params ''limit'')) + 1) >
          sint (snd (counter es (tc_func t) (limit_of params ''limit''))) then -1 else 0, es') \<and>
    counted es (tc_func t) (limit_of params ''limit'') es'"
proof -
  from counted_claim [OF assms(1,2,4), of "limit_of params ''limit''"] obtain i es1 where
    c: "find_or_claim (tc_func t) (limit_of params ''limit'') es = (Some i, es1)"
      "ce_count (es1 ! i) = fst (counter es (tc_func t) (limit_of params ''limit''))"
      "ce_limit (es1 ! i) = snd (counter es (tc_func t) (limit_of params ''limit''))"
      "\<And>e. ce_name e = tc_func t \<Longrightarrow> ce_count e = fst (counter es (tc_func t) (limit_of params ''limit'')) + 1 \<Longrightarrow>
         ce_limit e = snd (counter es (tc_func t) (limit_of params ''limit'')) \<Longrightarrow>
         counted es (tc_func t) (limit_of params ''limit'') (es1[i := e])"
      "ce_name (es1 ! i) = tc_func t" by blast
  have "counted es (tc_func t) (limit_of params ''limit'') (es1[i := (es1 ! i)\<lparr>ce_count := ce_count (es1 ! i) + 1\<rparr>])"
    by (rule c(4)) (simp_all add: c(2,3,5))
  then show ?thesis using c(1,2,3) assms(2,3) by (simp add: ia_call_count_limit_def limit_of_def Let_def)
qed

lemma fail_first_step:
  assumes "table_inv es" "tc_func t \<noteq> []" "json_object_has_value (Some params) ''fails''"
    "json_object_has_value (Some params) ''retval_int''" "admitted es (tc_func t)"
  shows "\<exists>es'. ia_fail_first t (Some params) es =
      (if sint (fst (counter es (tc_func t) (limit_of params ''fails'')) + 1) \<le>
          sint (snd (counter es (tc_func t) (limit_of params ''fails'')))
       then (-1, t\<lparr>tc_ret_val := limit_of params ''retval_int''\<rparr>, es') else (0, t, es')) \<and>
    counted es (tc_func t) (limit_of params ''fails'') es'"
proof -
  from counted_claim [OF assms(1,2,5), of "limit_of params ''fails''"] obtain i es1 where
    c: "find_or_claim (tc_func t) (limit_of params ''fails'') es = (Some i, es1)"
      "ce_count (es1 ! i) = fst (counter es (tc_func t) (limit_of params ''fails''))"
      "ce_limit (es1 ! i) = snd (counter es (tc_func t) (limit_of params ''fails''))"
      "\<And>e. ce_name e = tc_func t \<Longrightarrow> ce_count e = fst (counter es (tc_func t) (limit_of params ''fails'')) + 1 \<Longrightarrow>
         ce_limit e = snd (counter es (tc_func t) (limit_of params ''fails'')) \<Longrightarrow>
         counted es (tc_func t) (limit_of params ''fails'') (es1[i := e])"
      "ce_name (es1 ! i) = tc_func t" by blast
  have "counted es (tc_func t) (limit_of params ''fails'')
      (es1[i := (es1 ! i)\<lparr>ce_count := ce_count (es1 ! i) + 1, fe_retval := limit_of params ''retval_int''\<rparr>])"
    by (rule c(4)) (simp_all add: c(2,3,5))
  then show ?thesis using c(1,2,3) assms(2,3,4) by (simp add: ia_fail_first_def limit_of_def Let_def)
qed

subsection \<open>Sequences of calls\<close>

text \<open>A call is the function's name and the parameters of the action in its script.\<close>

type_synonym counted_call = "cstr \<times> json_object"

definition calls_of :: "cstr \<Rightarrow> counted_call list \<Rightarrow> counted_call list" where
  "calls_of f cs = filter (\<lambda>c. fst c = f) cs"

definition limit_run :: "thread_context \<Rightarrow> counted_call list \<Rightarrow> count_entry list \<Rightarrow> count_entry list" where
  "limit_run t cs es = fold (\<lambda>(f, p) es. snd (ia_call_count_limit (t\<lparr>tc_func := f\<rparr>) (Some p) es)) cs es"

definition fail_run :: "thread_context \<Rightarrow> counted_call list \<Rightarrow> fail_entry list \<Rightarrow> fail_entry list" where
  "fail_run t cs es = fold (\<lambda>(f, p) es. snd (snd (ia_fail_first (t\<lparr>tc_func := f\<rparr>) (Some p) es))) cs es"

definition no_counters :: "count_entry list" where
  "no_counters = replicate MAX_TRACKED_FUNCS \<lparr>ce_name = [], ce_count = 0, ce_limit = 0\<rparr>"

definition no_fails :: "fail_entry list" where
  "no_fails = replicate MAX_TRACKED_FUNCS \<lparr>ce_name = [], ce_count = 0, ce_limit = 0, fe_retval = 0\<rparr>"

text \<open>The table after the calls \<open>cs\<close>: one counter for each function, with the first call's limit.\<close>

definition after_calls :: "cstr \<Rightarrow> counted_call list \<Rightarrow> 'a count_entry_scheme list \<Rightarrow> bool" where
  "after_calls key cs es \<longleftrightarrow> table_inv es \<and> names es = fst ` set cs \<and>
     (\<forall>f. f \<noteq> [] \<longrightarrow> tracked es f = (case calls_of f cs of [] \<Rightarrow> None
        | c # _ \<Rightarrow> Some (of_nat (length (calls_of f cs)), limit_of (snd c) key)))"

lemma after_calls_counted:
  assumes "after_calls key cs es" "counted es f (limit_of p key) es'" "f \<noteq> []"
  shows "after_calls key (cs @ [(f, p)]) es'"
  unfolding after_calls_def
proof (intro conjI allI impI)
  fix g :: cstr assume g: "g \<noteq> []"
  show "tracked es' g = (case calls_of g (cs @ [(f, p)]) of [] \<Rightarrow> None
        | c # _ \<Rightarrow> Some (of_nat (length (calls_of g (cs @ [(f, p)]))), limit_of (snd c) key))"
  proof (cases "g = f")
    case True
    then show ?thesis using assms
      by (auto simp: after_calls_def counted_def counter_def calls_of_def split: list.splits)
  next
    case False
    then have same: "calls_of g (cs @ [(f, p)]) = calls_of g cs" by (simp add: calls_of_def)
    show ?thesis unfolding same using assms g False by (simp add: after_calls_def counted_def)
  qed
qed (use assms in \<open>auto simp: after_calls_def counted_def\<close>)

lemma after_calls_admitted:
  assumes "after_calls key cs es" "card (insert f (fst ` set cs)) \<le> MAX_TRACKED_FUNCS"
  shows "admitted es f"
proof (cases "f \<in> fst ` set cs")
  case False
  then have "card (insert f (fst ` set cs)) = Suc (card (fst ` set cs))" by simp
  then show ?thesis using assms by (auto simp: admitted_def after_calls_def)
qed (use assms in \<open>auto simp: admitted_def after_calls_def\<close>)

lemma after_no_calls: "after_calls key [] no_counters" "after_calls key [] no_fails"
  by (auto simp: after_calls_def table_inv_def names_def tracked_def calls_of_def no_counters_def no_fails_def find_None_iff)

definition countable_calls :: "cstr list \<Rightarrow> counted_call list \<Rightarrow> bool" where
  "countable_calls keys cs \<longleftrightarrow> (\<forall>(f, p)\<in>set cs. f \<noteq> [] \<and> (\<forall>key\<in>set keys. json_object_has_value (Some p) key)) \<and>
     card (fst ` set cs) \<le> MAX_TRACKED_FUNCS \<and> length cs < 2 ^ 63"

lemma countable_calls_snoc:
  "countable_calls keys (cs @ [(f, p)]) \<Longrightarrow> countable_calls keys cs \<and> f \<noteq> [] \<and>
     (\<forall>key\<in>set keys. json_object_has_value (Some p) key) \<and> card (insert f (fst ` set cs)) \<le> MAX_TRACKED_FUNCS"
  using card_mono [of "insert f (fst ` set cs)" "fst ` set cs"]
  by (auto simp: countable_calls_def subset_insertI intro: le_trans)

lemma limit_run_after:
  "countable_calls [''limit''] cs \<Longrightarrow> after_calls ''limit'' cs (limit_run t cs no_counters)"
proof (induction cs rule: rev_induct)
  case Nil
  then show ?case using after_no_calls by (simp add: limit_run_def)
next
  case (snoc c cs)
  obtain f p where c: "c = (f, p)" by (cases c)
  from countable_calls_snoc [OF snoc.prems [unfolded c]] have
    s: "countable_calls [''limit''] cs" "f \<noteq> []" "json_object_has_value (Some p) ''limit''"
      "card (insert f (fst ` set cs)) \<le> MAX_TRACKED_FUNCS" by simp_all
  note IH = snoc.IH [OF s(1)]
  have "table_inv (limit_run t cs no_counters)" using IH by (simp add: after_calls_def)
  from call_count_limit_step [OF this, of "t\<lparr>tc_func := f\<rparr>" p] after_calls_admitted [OF IH s(4)] s(2,3)
  have "counted (limit_run t cs no_counters) f (limit_of p ''limit'') (limit_run t (cs @ [(f, p)]) no_counters)"
    by (auto simp: limit_run_def)
  then show ?case using after_calls_counted [OF IH _ s(2)] c by simp
qed

lemma fail_run_after:
  "countable_calls [''fails'', ''retval_int''] cs \<Longrightarrow> after_calls ''fails'' cs (fail_run t cs no_fails)"
proof (induction cs rule: rev_induct)
  case Nil
  then show ?case using after_no_calls by (simp add: fail_run_def)
next
  case (snoc c cs)
  obtain f p where c: "c = (f, p)" by (cases c)
  from countable_calls_snoc [OF snoc.prems [unfolded c]] have
    s: "countable_calls [''fails'', ''retval_int''] cs" "f \<noteq> []" "json_object_has_value (Some p) ''fails''"
      "json_object_has_value (Some p) ''retval_int''" "card (insert f (fst ` set cs)) \<le> MAX_TRACKED_FUNCS" by simp_all
  note IH = snoc.IH [OF s(1)]
  have "table_inv (fail_run t cs no_fails)" using IH by (simp add: after_calls_def)
  from fail_first_step [OF this, of "t\<lparr>tc_func := f\<rparr>" p] after_calls_admitted [OF IH s(5)] s(2,3,4)
  have "counted (fail_run t cs no_fails) f (limit_of p ''fails'') (fail_run t (cs @ [(f, p)]) no_fails)"
    by (auto simp: fail_run_def split: if_splits)
  then show ?case using after_calls_counted [OF IH _ s(2)] c by simp
qed

text \<open>What the counter of a function holds when its next call comes.\<close>

lemma after_calls_counter:
  assumes "after_calls key cs es" "f \<noteq> []" "length cs < 2 ^ 63 - 1"
  shows "sint (fst (counter es f (limit_of p key)) + 1) = int (length (calls_of f (cs @ [(f, p)])))"
    "snd (counter es f (limit_of p key)) = limit_of (snd (hd (calls_of f (cs @ [(f, p)])))) key"
proof -
  let ?n = "length (calls_of f cs)"
  have n: "?n < 2 ^ 63 - 1" using assms(3) length_filter_le [of _ cs] by (metis calls_of_def le_less_trans)
  have "fst (counter es f (limit_of p key)) = of_nat ?n"
    using assms(1,2) by (auto simp: counter_def after_calls_def split: list.split)
  moreover have "sint (of_nat (Suc ?n) :: 64 word) = int (Suc ?n)"
    using n by (simp only: signed_of_nat) (simp add: signed_take_bit_int_eq_self)
  ultimately show "sint (fst (counter es f (limit_of p key)) + 1) = int (length (calls_of f (cs @ [(f, p)])))"
    by (simp add: calls_of_def add.commute)
  show "snd (counter es f (limit_of p key)) = limit_of (snd (hd (calls_of f (cs @ [(f, p)])))) key"
    using assms(1,2) by (auto simp: counter_def after_calls_def calls_of_def hd_append split: list.splits)
qed

lemma countable_length: "countable_calls keys (cs @ [c]) \<Longrightarrow> length cs < 2 ^ 63 - 1"
  by (simp add: countable_calls_def)

text \<open>
  C35. After any calls of at most 64 functions, the next call of a function passes while
  the calls of that function so far, this one included, are within the limit that the
  first of them gave, and is stopped from then on, whatever the other functions did
  and whatever limits later calls gave.
\<close>

theorem call_count_limit_exact:
  assumes "countable_calls [''limit''] (cs @ [(f, p)])"
  shows "fst (ia_call_count_limit (t\<lparr>tc_func := f\<rparr>) (Some p) (limit_run t cs no_counters)) =
    (if int (length (calls_of f (cs @ [(f, p)]))) > sint (limit_of (snd (hd (calls_of f (cs @ [(f, p)])))) ''limit'')
     then -1 else 0)"
proof -
  from countable_calls_snoc [OF assms] have
    s: "countable_calls [''limit''] cs" "f \<noteq> []" "json_object_has_value (Some p) ''limit''"
      "card (insert f (fst ` set cs)) \<le> MAX_TRACKED_FUNCS" by simp_all
  note run = limit_run_after [OF s(1), of t]
  have "table_inv (limit_run t cs no_counters)" using run by (simp add: after_calls_def)
  from call_count_limit_step [OF this, of "t\<lparr>tc_func := f\<rparr>" p] after_calls_admitted [OF run s(4)] s(2,3)
  show ?thesis using after_calls_counter [OF run s(2) countable_length [OF assms]] by auto
qed

definition call_with :: "(cstr \<times> rat) list \<Rightarrow> cstr \<Rightarrow> counted_call" where
  "call_with ps f = (f, map (\<lambda>(k, x). (k, JSONNumber x)) ps)"

definition some_context :: thread_context where
  "some_context = \<lparr>tc_func = [], tc_type_name = ''int'', tc_ret_val = 0, tc_ret_errno = 0, tc_params = [], tc_ret_addr = 0\<rparr>"

lemmas call_eval = countable_calls_def call_with_def json_object_has_value_def json_object_get_value_map calls_of_def
  limit_of_def json_object_get_number_def double_to_s64_def rat_trunc_def MAX_TRACKED_FUNCS_def

theorem call_count_limit_exact_witness:
  "fst (ia_call_count_limit (some_context\<lparr>tc_func := ''open''\<rparr>) (Some (snd (call_with [(''limit'', 9)] ''open'')))
      (limit_run some_context [call_with [(''limit'', 1)] ''open'', call_with [(''limit'', 0)] ''read''] no_counters)) = -1"
  using call_count_limit_exact [of "[call_with [(''limit'', 1)] ''open'', call_with [(''limit'', 0)] ''read'']" "''open''"
      "snd (call_with [(''limit'', 9)] ''open'')" some_context]
  by (simp add: call_eval card_insert_if)

text \<open>
  After any calls of at most 64 functions, the next call of a function fails, with
  the return value its own script gives, while the calls of that function so far, this one
  included, are within the number of failures that the first of them gave; from then on
  it passes and the call's return value is untouched.
\<close>

theorem fail_first_exact:
  assumes "countable_calls [''fails'', ''retval_int''] (cs @ [(f, p)])"
  shows "\<exists>es. ia_fail_first (t\<lparr>tc_func := f\<rparr>) (Some p) (fail_run t cs no_fails) =
    (if int (length (calls_of f (cs @ [(f, p)]))) \<le> sint (limit_of (snd (hd (calls_of f (cs @ [(f, p)])))) ''fails'')
     then (-1, t\<lparr>tc_func := f, tc_ret_val := limit_of p ''retval_int''\<rparr>, es) else (0, t\<lparr>tc_func := f\<rparr>, es))"
proof -
  from countable_calls_snoc [OF assms] have
    s: "countable_calls [''fails'', ''retval_int''] cs" "f \<noteq> []" "json_object_has_value (Some p) ''fails''"
      "json_object_has_value (Some p) ''retval_int''" "card (insert f (fst ` set cs)) \<le> MAX_TRACKED_FUNCS" by simp_all
  note run = fail_run_after [OF s(1), of t]
  have "table_inv (fail_run t cs no_fails)" using run by (simp add: after_calls_def)
  from fail_first_step [OF this, of "t\<lparr>tc_func := f\<rparr>" p] after_calls_admitted [OF run s(5)] s(2,3,4)
  show ?thesis using after_calls_counter [OF run s(2) countable_length [OF assms]] by auto
qed

theorem fail_first_exact_witness:
  "\<exists>es. ia_fail_first (some_context\<lparr>tc_func := ''open''\<rparr>) (Some (snd (call_with [(''fails'', 2), (''retval_int'', -11)] ''open'')))
      (fail_run some_context [call_with [(''fails'', 2), (''retval_int'', -1)] ''open''] no_fails) =
    (-1, some_context\<lparr>tc_func := ''open'', tc_ret_val := -11\<rparr>, es)"
  using fail_first_exact [of "[call_with [(''fails'', 2), (''retval_int'', -1)] ''open'']" "''open''"
      "snd (call_with [(''fails'', 2), (''retval_int'', -11)] ''open'')" some_context]
  by (simp add: call_eval)

end
