(* ===== verification/Sockaddr.thy ===== *)
theory Sockaddr
  imports Json Call_Context
begin

unbundle bit_operations_syntax

section \<open>Network destinations (\<open>src/src/core/sockaddr_inspect.c\<close>, \<open>actions/addr_deny.c\<close>)\<close>

text \<open>
  A socket address is the bytes at its pointer, a function of the offset; \<open>NULL\<close> is \<open>None\<close>.
  The layout is that of Linux: the family in the first two bytes, low byte first, then the
  port in network order; an IPv4 address at offset 4, an IPv6 address at offset 8, the path
  of a local socket at offset 2.
\<close>

type_synonym bytes_at = "nat \<Rightarrow> 8 word"

definition RETRACE_SOCKADDR_IP_LEN :: nat where "RETRACE_SOCKADDR_IP_LEN = 64"
definition RETRACE_SOCKADDR_PATH_LEN :: nat where "RETRACE_SOCKADDR_PATH_LEN = 108"
definition MIN_HEADER_LEN :: nat where "MIN_HEADER_LEN = 2"

datatype sockaddr_family_group = RETRACE_SAF_UNKNOWN | RETRACE_SAF_INET | RETRACE_SAF_INET6 | RETRACE_SAF_UNIX

record sockaddr_info =
  si_family :: nat
  si_group :: sockaddr_family_group
  si_expected_len :: nat
  si_ip :: cstr
  si_port :: "16 word"
  si_path :: cstr

definition zero_info :: sockaddr_info where
  "zero_info = \<lparr>si_family = 0, si_group = RETRACE_SAF_UNKNOWN, si_expected_len = 0, si_ip = [], si_port = 0, si_path = []\<rparr>"

definition net16 :: "bytes_at \<Rightarrow> nat \<Rightarrow> 16 word" where
  "net16 sa i = of_nat (256 * unat (sa i) + unat (sa (i + 1)))"

definition format_ipv4 :: "bytes_at \<Rightarrow> nat \<Rightarrow> nat \<Rightarrow> cstr" where
  "format_ipv4 sa i buflen =
     (if buflen < 16 then []
      else dec (unat (sa i)) @ ''.'' @ dec (unat (sa (i + 1))) @ ''.'' @ dec (unat (sa (i + 2))) @ ''.'' @ dec (unat (sa (i + 3))))"

fun ipv6_loop :: "bytes_at \<Rightarrow> nat \<Rightarrow> nat \<Rightarrow> nat list \<Rightarrow> cstr \<Rightarrow> cstr" where
  "ipv6_loop sa off buflen [] buf = buf"
| "ipv6_loop sa off buflen (i # is) buf =
     (let v = net16 sa (off + 2 * i);
          piece = (if i = 0 then hex (unat v) else CHR '':'' # hex (unat v)) in
      if length piece \<ge> buflen - length buf then buf @ take (buflen - length buf - 1) piece
      else ipv6_loop sa off buflen is (buf @ piece))"

definition format_ipv6 :: "bytes_at \<Rightarrow> nat \<Rightarrow> nat \<Rightarrow> cstr" where
  "format_ipv6 sa off buflen = (if buflen < 40 then [] else ipv6_loop sa off buflen [0..<8] [])"

fun unix_path :: "bytes_at \<Rightarrow> nat \<Rightarrow> nat \<Rightarrow> cstr" where
  "unix_path sa off 0 = []"
| "unix_path sa off (Suc n) = (if sa off = 0 then [] else char_of (unat (sa off)) # unix_path sa (Suc off) n)"

definition retrace_sockaddr_inspect :: "bytes_at option \<Rightarrow> nat \<Rightarrow> sockaddr_info \<Rightarrow> int \<times> sockaddr_info" where
  "retrace_sockaddr_inspect sa_p addrlen info =
     (case sa_p of
        None \<Rightarrow> (-1, info)
      | Some sa \<Rightarrow>
          if addrlen \<noteq> 0 \<and> addrlen < MIN_HEADER_LEN then (-1, zero_info)
          else
            let family = unat (sa 0) + 256 * unat (sa 1); out = zero_info\<lparr>si_family := family\<rparr> in
            if family = 2 then
              if addrlen \<noteq> 0 \<and> addrlen < 16 then (-1, out)
              else (0, out\<lparr>si_group := RETRACE_SAF_INET, si_expected_len := 16, si_port := net16 sa 2,
                           si_ip := format_ipv4 sa 4 RETRACE_SOCKADDR_IP_LEN\<rparr>)
            else if family = 10 then
              if addrlen \<noteq> 0 \<and> addrlen < 28 then (-1, out)
              else (0, out\<lparr>si_group := RETRACE_SAF_INET6, si_expected_len := 28, si_port := net16 sa 2,
                           si_ip := format_ipv6 sa 8 RETRACE_SOCKADDR_IP_LEN\<rparr>)
            else if family = 1 then
              if addrlen \<noteq> 0 \<and> addrlen < 2 then (-1, out)
              else
                let pathlen = (if addrlen \<noteq> 0 \<and> addrlen - 2 < 108 then addrlen - 2 else 108);
                    pathlen2 = (if pathlen > RETRACE_SOCKADDR_PATH_LEN - 1 then RETRACE_SOCKADDR_PATH_LEN - 1 else pathlen) in
                (0, out\<lparr>si_group := RETRACE_SAF_UNIX, si_expected_len := 110, si_path := unix_path sa 2 pathlen2\<rparr>)
            else (0, out))"

subsection \<open>Matching a specification\<close>

definition find_char :: "cstr \<Rightarrow> char \<Rightarrow> bool" where
  "find_char s c = list_ex (\<lambda>x. x = c) s"

fun find_byte :: "cstr \<Rightarrow> char \<Rightarrow> cstr option" where
  "find_byte [] c = None"
| "find_byte (x # s) c = (if x = c then Some (x # s) else find_byte s c)"

fun port_loop :: "int \<Rightarrow> cstr \<Rightarrow> (int \<times> cstr) option" where
  "port_loop v [] = Some (v, [])"
| "port_loop v (c # s) =
     (if in_range (CHR ''0'') (CHR ''9'') c then
        (let v1 = v * 10 + (char_val c - 48) in if v1 > 65535 then None else port_loop v1 s)
      else Some (v, c # s))"

definition parse_port :: "cstr \<Rightarrow> int option" where
  "parse_port s =
     (if \<not> in_range (CHR ''0'') (CHR ''9'') (cget s 0) then None
      else (case port_loop 0 s of
              None \<Rightarrow> None
            | Some (v, rest) \<Rightarrow> if cget rest 0 \<noteq> nul then None else Some v))"

text \<open>A port part: no port for \<open>*\<close>, the number otherwise; \<open>None\<close> is malformed.\<close>

definition port_part :: "cstr \<Rightarrow> int option option" where
  "port_part port_str =
     (if cget port_str 0 = CHR ''*'' \<and> cget port_str 1 = nul then Some None
      else (case parse_port port_str of None \<Rightarrow> None | Some v \<Rightarrow> Some (Some v)))"

definition parse_host_port :: "cstr \<Rightarrow> nat \<Rightarrow> (cstr \<times> int option) option" where
  "parse_host_port spec host_cap =
     (let r = (if cget spec 0 = CHR ''['' then
                 (case find_byte spec (CHR '']'') of
                    None \<Rightarrow> None
                  | Some close \<Rightarrow>
                      let host = take (length spec - 1 - length close) (tl spec) in
                      if cget close 1 = nul then Some (host, None)
                      else if cget close 1 = CHR '':'' then map_option (Pair host) (port_part (drop 2 close))
                      else None)
               else
                 (case find_byte spec (CHR '':'') of
                    None \<Rightarrow> Some (spec, None)
                  | Some colon \<Rightarrow>
                      map_option (Pair (take (length spec - length colon) spec)) (port_part (tl colon)))) in
      case r of
        None \<Rightarrow> None
      | Some (host, port) \<Rightarrow> if length host = 0 \<or> length host \<ge> host_cap then None else Some (host, port))"

definition retrace_sockaddr_match :: "sockaddr_info \<Rightarrow> cstr \<Rightarrow> int" where
  "retrace_sockaddr_match info spec =
     (if cget spec 0 = CHR ''*'' \<and> cget spec 1 = nul then 1
      else if si_group info = RETRACE_SAF_UNIX then
        (if find_char spec (CHR '':'') then 0 else if spec = si_path info then 1 else 0)
      else if si_group info \<noteq> RETRACE_SAF_INET \<and> si_group info \<noteq> RETRACE_SAF_INET6 \<and> \<not> find_char spec (CHR '':'') then 0
      else (case parse_host_port spec RETRACE_SOCKADDR_IP_LEN of
              None \<Rightarrow> -1
            | Some (host, port) \<Rightarrow>
                if \<not> (length host = 1 \<and> host ! 0 = CHR ''*'') \<and> host \<noteq> si_ip info then 0
                else (case port of
                        None \<Rightarrow> 1
                      | Some v \<Rightarrow> if si_port info \<noteq> word_of_int v then 0 else 1)))"

subsection \<open>The deny action\<close>

definition ECONNREFUSED :: "64 word" where "ECONNREFUSED = 111"

definition is_addr_param_name :: "cstr \<Rightarrow> bool" where
  "is_addr_param_name name \<longleftrightarrow> name = ''addr'' \<or> name = ''dest_addr'' \<or> name = ''src_addr''"

fun find_sockaddr :: "func_param list \<Rightarrow> 64 word" where
  "find_sockaddr [] = 0"
| "find_sockaddr (p # ps) = (if is_addr_param_name (pm_name (fp_meta p)) then fp_val p else find_sockaddr ps)"

fun deny_loop :: "sockaddr_info \<Rightarrow> json_array \<Rightarrow> bool" where
  "deny_loop info [] = False"
| "deny_loop info (v # vs) =
     (case json_value_get_string (Some v) of
        None \<Rightarrow> deny_loop info vs
      | Some spec \<Rightarrow>
          let match = retrace_sockaddr_match info spec in
          if match < 0 then deny_loop info vs else if match \<noteq> 0 then True else deny_loop info vs)"

definition ia_addr_deny ::
    "(64 word \<Rightarrow> bytes_at) \<Rightarrow> thread_context \<Rightarrow> json_object option \<Rightarrow> int \<times> thread_context" where
  "ia_addr_deny heap t action_params =
     (case action_params of
        None \<Rightarrow> (-1, t)
      | Some params \<Rightarrow>
          (case json_object_get_array (Some params) ''deny_addrs'' of
             None \<Rightarrow> (-1, t)
           | Some deny_addrs \<Rightarrow>
               let sa = find_sockaddr (tc_params t) in
               if sa = 0 then (0, t)
               else (case retrace_sockaddr_inspect (Some (heap sa)) 0 zero_info of
                       (rc, info) \<Rightarrow>
                         if rc \<noteq> 0 then (0, t)
                         else if deny_loop info deny_addrs then (-1, t\<lparr>tc_ret_val := - ECONNREFUSED\<rparr>)
                         else (0, t))))"

subsection \<open>What a specification denotes\<close>

text \<open>The value of a string of decimal digits, most significant first.\<close>

definition digits_val :: "int \<Rightarrow> cstr \<Rightarrow> int" where
  "digits_val v s = foldl (\<lambda>v c. v * 10 + (char_val c - 48)) v s"

abbreviation is_dec :: "char \<Rightarrow> bool" where
  "is_dec \<equiv> in_range (CHR ''0'') (CHR ''9'')"

definition all_digits :: "cstr \<Rightarrow> bool" where
  "all_digits s \<longleftrightarrow> s \<noteq> [] \<and> list_all is_dec s"

lemma is_dec_val: "is_dec c \<Longrightarrow> 0 \<le> char_val c - 48"
  by (auto simp: in_range_def char_le_def char_val_def Let_def split: if_splits)

lemma digits_val_mono: "0 \<le> v \<Longrightarrow> list_all is_dec s \<Longrightarrow> v \<le> digits_val v s"
proof (induction s arbitrary: v)
  case (Cons c s)
  have "v \<le> v * 10 + (char_val c - 48)" "0 \<le> v * 10 + (char_val c - 48)" using Cons.prems is_dec_val [of c] by auto
  moreover have "v * 10 + (char_val c - 48) \<le> digits_val (v * 10 + (char_val c - 48)) s"
    using Cons.IH [OF calculation(2)] Cons.prems(2) by simp
  ultimately show ?case by (simp add: digits_val_def)
qed (simp add: digits_val_def)

lemma port_loop_all:
  "0 \<le> v \<Longrightarrow> v \<le> 65535 \<Longrightarrow> nul \<notin> set s \<Longrightarrow>
   (case port_loop v s of None \<Rightarrow> None | Some (w, rest) \<Rightarrow> if cget rest 0 \<noteq> nul then None else Some w) =
   (if list_all is_dec s \<and> digits_val v s \<le> 65535 then Some (digits_val v s) else None)"
proof (induction v s rule: port_loop.induct)
  case (2 v c s)
  show ?case
  proof (cases "is_dec c")
    case True
    let ?v = "v * 10 + (char_val c - 48)"
    have ge: "0 \<le> ?v" using is_dec_val [OF True] 2(2) by simp
    show ?thesis
    proof (cases "?v > 65535")
      case big: True
      then have "\<not> (list_all is_dec s \<and> digits_val ?v s \<le> 65535)" using digits_val_mono [OF ge, of s] by auto
      then show ?thesis using True big by (simp add: digits_val_def)
    next
      case False
      then show ?thesis using 2(1) [OF _ refl] True ge 2(4) by (simp add: digits_val_def)
    qed
  next
    case False
    then show ?thesis using 2(4) by auto
  qed
qed (simp add: digits_val_def)

lemma parse_port_iff:
  assumes "nul \<notin> set s"
  shows "parse_port s = (if all_digits s \<and> digits_val 0 s \<le> 65535 then Some (digits_val 0 s) else None)"
proof (cases s)
  case Nil
  then show ?thesis by (simp add: parse_port_def all_digits_def in_range_def char_le_def char_val_def)
next
  case (Cons c r)
  then show ?thesis using port_loop_all [of 0 s] assms by (auto simp: parse_port_def all_digits_def)
qed

lemma find_byte_split:
  "find_byte s c = (if c \<in> set s then Some (dropWhile (\<lambda>x. x \<noteq> c) s) else None)"
  by (induction s) auto

text \<open>The texts a port part may have, with the port they give.\<close>

definition port_text :: "cstr \<Rightarrow> int option \<Rightarrow> bool" where
  "port_text pt port \<longleftrightarrow> pt = [] \<and> port = None \<or> pt = '':*'' \<and> port = None \<or>
     (\<exists>ds. pt = CHR '':'' # ds \<and> all_digits ds \<and> digits_val 0 ds \<le> 65535 \<and> port = Some (digits_val 0 ds))"

lemma port_part_iff:
  assumes "nul \<notin> set s"
  shows "port_part s = Some port \<longleftrightarrow> port_text (CHR '':'' # s) port"
proof -
  have "cget s 0 = CHR ''*'' \<and> cget s 1 = nul \<longleftrightarrow> s = ''*''"
    using assms by (cases s; cases "tl s") auto
  moreover have "\<not> all_digits ''*''" by (simp add: all_digits_def in_range_def char_le_def char_val_def)
  ultimately show ?thesis
    using parse_port_iff [OF assms] by (auto simp: port_part_def port_text_def split: option.splits if_splits)
qed

lemma split_at:
  assumes "c \<in> set s"
  shows "s = takeWhile (\<lambda>x. x \<noteq> c) s @ c # tl (dropWhile (\<lambda>x. x \<noteq> c) s)"
proof -
  have "dropWhile (\<lambda>x. x \<noteq> c) s \<noteq> []" using assms by (auto simp: dropWhile_eq_Nil_conv)
  moreover have "hd (dropWhile (\<lambda>x. x \<noteq> c) s) = c" using hd_dropWhile [OF calculation] by simp
  ultimately show ?thesis by (metis hd_Cons_tl takeWhile_dropWhile_id)
qed

lemma takeWhile_before: "c \<notin> set h \<Longrightarrow> takeWhile (\<lambda>x. x \<noteq> c) (h @ c # q) = h"
  by (induction h) auto

lemma parse_host_port_plain:
  assumes "nul \<notin> set spec" "cget spec 0 \<noteq> CHR ''[''"
  shows "parse_host_port spec cap = Some (host, port) \<longleftrightarrow>
    host \<noteq> [] \<and> length host < cap \<and> CHR '':'' \<notin> set host \<and> (\<exists>pt. spec = host @ pt \<and> port_text pt port)"
proof (cases "CHR '':'' \<in> set spec")
  case False
  have "(\<exists>pt. spec = host @ pt \<and> port_text pt port) \<longleftrightarrow> host = spec \<and> port = None"
    using False by (auto simp: port_text_def)
  moreover have "parse_host_port spec cap = (if spec = [] \<or> cap \<le> length spec then None else Some (spec, None))"
    using assms(2) False by (simp add: parse_host_port_def find_byte_split)
  ultimately show ?thesis using False by auto
next
  case True
  let ?h = "takeWhile (\<lambda>x. x \<noteq> CHR '':'') spec" and ?r = "tl (dropWhile (\<lambda>x. x \<noteq> CHR '':'') spec)"
  have spec: "spec = ?h @ CHR '':'' # ?r" by (rule split_at [OF True])
  have r: "nul \<notin> set ?r" using assms(1) spec by (metis Un_iff list.set_intros(2) set_append)
  have len: "take (length spec - length (dropWhile (\<lambda>x. x \<noteq> CHR '':'') spec)) spec = ?h"
    by (metis add_diff_cancel_right' append_eq_conv_conj length_append takeWhile_dropWhile_id)
  have h: "CHR '':'' \<notin> set ?h" by (auto dest: set_takeWhileD)
  have texts: "(\<exists>pt. spec = host @ pt \<and> port_text pt port) \<longleftrightarrow> host = ?h \<and> port_text (CHR '':'' # ?r) port"
    if nc: "CHR '':'' \<notin> set host" for host
  proof
    assume "\<exists>pt. spec = host @ pt \<and> port_text pt port"
    then obtain pt where pt: "spec = host @ pt" "port_text pt port" by blast
    then obtain q where q: "pt = CHR '':'' # q" using True nc by (auto simp: port_text_def)
    then have "host = ?h" using pt(1) nc by (simp add: takeWhile_before)
    then show "host = ?h \<and> port_text (CHR '':'' # ?r) port" using pt q spec by (metis append_same_eq same_append_eq)
  next
    assume "host = ?h \<and> port_text (CHR '':'' # ?r) port"
    then show "\<exists>pt. spec = host @ pt \<and> port_text pt port" using spec by metis
  qed
  have "parse_host_port spec cap = (case port_part ?r of None \<Rightarrow> None
      | Some q \<Rightarrow> if ?h = [] \<or> cap \<le> length ?h then None else Some (?h, q))"
    using assms(2) True len by (simp add: parse_host_port_def find_byte_split split: option.split)
  then have "parse_host_port spec cap = Some (host, port) \<longleftrightarrow>
      ?h \<noteq> [] \<and> length ?h < cap \<and> host = ?h \<and> port_text (CHR '':'' # ?r) port"
    unfolding port_part_iff [OF r, symmetric] by (auto split: option.splits if_splits)
  then show ?thesis using texts [of host] h by auto
qed

lemma parse_host_port_bracket:
  assumes "nul \<notin> set spec"
  shows "parse_host_port (CHR ''['' # spec) cap = Some (host, port) \<longleftrightarrow>
    host \<noteq> [] \<and> length host < cap \<and> CHR '']'' \<notin> set host \<and> (\<exists>pt. spec = host @ CHR '']'' # pt \<and> port_text pt port)"
proof (cases "CHR '']'' \<in> set spec")
  case False
  then show ?thesis by (auto simp: parse_host_port_def find_byte_split)
next
  case True
  let ?h = "takeWhile (\<lambda>x. x \<noteq> CHR '']'') spec"
  obtain r where spec: "spec = ?h @ CHR '']'' # r" using split_at [OF True] by blast
  then have d: "dropWhile (\<lambda>x. x \<noteq> CHR '']'') spec = CHR '']'' # r" by (metis takeWhile_dropWhile_id same_append_eq)
  have nr: "nul \<notin> set r" using assms spec by (metis Un_iff list.set_intros(2) set_append)
  have len: "take (length spec - length (dropWhile (\<lambda>x. x \<noteq> CHR '']'') spec)) spec = ?h"
    by (metis add_diff_cancel_right' append_eq_conv_conj length_append takeWhile_dropWhile_id)
  have h: "CHR '']'' \<notin> set ?h" by (auto dest: set_takeWhileD)
  have texts: "(\<exists>pt. spec = host @ CHR '']'' # pt \<and> port_text pt port) \<longleftrightarrow> host = ?h \<and> port_text r port"
    if nc: "CHR '']'' \<notin> set host" for host
  proof
    assume "\<exists>pt. spec = host @ CHR '']'' # pt \<and> port_text pt port"
    then obtain pt where pt: "spec = host @ CHR '']'' # pt" "port_text pt port" by blast
    then have "host = ?h" using nc by (simp add: takeWhile_before)
    then show "host = ?h \<and> port_text r port" using pt spec by (metis same_append_eq list.inject)
  next
    assume "host = ?h \<and> port_text r port"
    then show "\<exists>pt. spec = host @ CHR '']'' # pt \<and> port_text pt port" using spec by metis
  qed
  let ?p = "if r = [] then Some None else if hd r = CHR '':'' then port_part (tl r) else None"
  have "parse_host_port (CHR ''['' # spec) cap = (case ?p of None \<Rightarrow> None
      | Some q \<Rightarrow> if ?h = [] \<or> cap \<le> length ?h then None else Some (?h, q))"
  proof -
    have fb: "find_byte (CHR ''['' # spec) (CHR '']'') = Some (CHR '']'' # r)" using True d by (simp add: find_byte_split)
    have tk: "take (length spec - length (CHR '']'' # r)) spec = ?h" using len by (simp only: d)
    show ?thesis
    proof (cases r)
      case Nil
      then show ?thesis using fb tk by (simp add: parse_host_port_def)
    next
      case (Cons c q)
      moreover have "c \<noteq> nul" using nr Cons by auto
      ultimately show ?thesis using fb tk by (simp add: parse_host_port_def split: option.split)
    qed
  qed
  moreover have "?p = Some port \<longleftrightarrow> port_text r port"
  proof (cases r)
    case Nil
    then show ?thesis by (auto simp: port_text_def)
  next
    case (Cons c q)
    then have "nul \<notin> set q" using nr by simp
    from port_part_iff [OF this, of port] Cons show ?thesis by (auto simp: port_text_def)
  qed
  ultimately have "parse_host_port (CHR ''['' # spec) cap = Some (host, port) \<longleftrightarrow>
      ?h \<noteq> [] \<and> length ?h < cap \<and> host = ?h \<and> port_text r port"
    by (auto split: option.splits if_splits)
  then show ?thesis using texts [of host] h by auto
qed

text \<open>
  The texts that denote an address with the given presentation and port: the bare star, or
  a host part that is the star or the presentation, in brackets or, when it has no colon,
  plain, followed by a port part that is absent, a star, or the port in decimal.
\<close>

definition denotes :: "cstr \<Rightarrow> 16 word \<Rightarrow> cstr \<Rightarrow> bool" where
  "denotes ip port spec \<longleftrightarrow> spec = ''*'' \<or>
     (\<exists>host pt q. (host = ''*'' \<or> host = ip) \<and> port_text pt q \<and> (q = None \<or> q = Some (uint port)) \<and>
        (spec = CHR ''['' # host @ CHR '']'' # pt \<or> CHR '':'' \<notin> set host \<and> spec = host @ pt))"

lemma port_text_eq:
  assumes "port_text pt (Some v)"
  shows "(w :: 16 word) = word_of_int v \<longleftrightarrow> v = uint w"
proof -
  have "0 \<le> v \<and> v < 2 ^ 16" using assms digits_val_mono [of 0] by (auto simp: port_text_def all_digits_def)
  then have "uint (word_of_int v :: 16 word) = v" by (simp add: take_bit_int_eq_self unsigned_of_int)
  then show ?thesis by auto
qed

text \<open>What the inspection guarantees of a presentation.\<close>

definition plain_ip :: "cstr \<Rightarrow> bool" where
  "plain_ip ip \<longleftrightarrow> ip \<noteq> [] \<and> length ip < RETRACE_SOCKADDR_IP_LEN \<and> CHR '']'' \<notin> set ip \<and> hd ip \<noteq> CHR ''['' "

lemma match_denotes:
  assumes "nul \<notin> set spec" "plain_ip (si_ip info)" "si_group info = RETRACE_SAF_INET \<or> si_group info = RETRACE_SAF_INET6"
  shows "retrace_sockaddr_match info spec = 1 \<longleftrightarrow> denotes (si_ip info) (si_port info) spec"
proof (cases "spec = ''*''")
  case True
  then show ?thesis by (simp add: retrace_sockaddr_match_def denotes_def)
next
  case False
  have star: "\<not> (cget spec 0 = CHR ''*'' \<and> cget spec 1 = nul)"
    using False assms(1) by (cases spec; cases "tl spec") auto
  have wild: "length host = 1 \<and> host ! 0 = CHR ''*'' \<longleftrightarrow> host = ''*''" for host :: cstr
    by (cases host; cases "tl host") auto
  have code: "retrace_sockaddr_match info spec = (case parse_host_port spec RETRACE_SOCKADDR_IP_LEN of
      None \<Rightarrow> -1
    | Some (host, port) \<Rightarrow>
        if host \<noteq> ''*'' \<and> host \<noteq> si_ip info then 0
        else (case port of None \<Rightarrow> 1 | Some v \<Rightarrow> if si_port info \<noteq> word_of_int v then 0 else 1))"
    using assms(3) unfolding retrace_sockaddr_match_def wild if_not_P [OF star] by (elim disjE) simp_all
  have m: "retrace_sockaddr_match info spec = 1 \<longleftrightarrow>
      (\<exists>host port. parse_host_port spec RETRACE_SOCKADDR_IP_LEN = Some (host, port) \<and> (host = ''*'' \<or> host = si_ip info) \<and>
        (port = None \<or> port = Some (uint (si_port info))))"
  proof (cases "parse_host_port spec RETRACE_SOCKADDR_IP_LEN")
    case None
    then show ?thesis by (simp add: code)
  next
    case (Some hp)
    obtain host port where hp: "hp = (host, port)" by (cases hp)
    have "port_text pt port \<Longrightarrow> (case port of None \<Rightarrow> True | Some v \<Rightarrow> si_port info = word_of_int v) \<longleftrightarrow>
        (port = None \<or> port = Some (uint (si_port info)))" for pt
      using port_text_eq [of pt] by (cases port) auto
    moreover have "\<exists>pt. port_text pt port"
      using Some hp parse_host_port_plain [OF assms(1), of RETRACE_SOCKADDR_IP_LEN host port]
        parse_host_port_bracket [of "tl spec" RETRACE_SOCKADDR_IP_LEN host port] assms(1)
      by (cases spec; cases "hd spec = CHR ''[''") auto
    ultimately have "(case port of None \<Rightarrow> True | Some v \<Rightarrow> si_port info = word_of_int v) \<longleftrightarrow>
        (port = None \<or> port = Some (uint (si_port info)))" by blast
    moreover have "retrace_sockaddr_match info spec = 1 \<longleftrightarrow> (host = ''*'' \<or> host = si_ip info) \<and>
        (case port of None \<Rightarrow> True | Some v \<Rightarrow> si_port info = word_of_int v)"
      using Some hp by (simp add: code split: option.split)
    ultimately show ?thesis using Some hp by simp
  qed
  have hosts: "host \<noteq> [] \<and> length host < RETRACE_SOCKADDR_IP_LEN \<and> CHR '']'' \<notin> set host \<and> hd host \<noteq> CHR ''[''"
    if "host = ''*'' \<or> host = si_ip info" for host
    using that assms(2) by (auto simp: plain_ip_def RETRACE_SOCKADDR_IP_LEN_def)
  show ?thesis
  proof (cases "cget spec 0 = CHR ''[''")
    case True
    then obtain r where r: "spec = CHR ''['' # r" by (cases spec) auto
    have nr: "nul \<notin> set r" using assms(1) r by simp
    have plain: "spec \<noteq> host @ pt" if "host = ''*'' \<or> host = si_ip info" for host pt
      using hosts [OF that] r by (cases host) auto
    have "denotes (si_ip info) (si_port info) spec \<longleftrightarrow>
        (\<exists>host port. (host = ''*'' \<or> host = si_ip info) \<and> (port = None \<or> port = Some (uint (si_port info))) \<and>
          (\<exists>pt. r = host @ CHR '']'' # pt \<and> port_text pt port))"
      (is "_ \<longleftrightarrow> ?B")
    proof
      assume "denotes (si_ip info) (si_port info) spec"
      then obtain host pt q where d: "host = ''*'' \<or> host = si_ip info" "port_text pt q"
          "q = None \<or> q = Some (uint (si_port info))" "spec = CHR ''['' # host @ CHR '']'' # pt"
        unfolding denotes_def using False plain by blast
      then have "r = host @ CHR '']'' # pt" using r by simp
      then show ?B using d(1-3) by blast
    next
      assume ?B
      then obtain host port pt where d: "host = ''*'' \<or> host = si_ip info" "port = None \<or> port = Some (uint (si_port info))"
          "r = host @ CHR '']'' # pt" "port_text pt port" by blast
      then have "spec = CHR ''['' # host @ CHR '']'' # pt" using r by simp
      then show "denotes (si_ip info) (si_port info) spec" unfolding denotes_def using d(1,2,4) by blast
    qed
    moreover have "retrace_sockaddr_match info spec = 1 \<longleftrightarrow>
        (\<exists>host port. (host = ''*'' \<or> host = si_ip info) \<and> (port = None \<or> port = Some (uint (si_port info))) \<and>
          (\<exists>pt. r = host @ CHR '']'' # pt \<and> port_text pt port))"
      unfolding m unfolding r parse_host_port_bracket [OF nr] using hosts by (intro ex_cong1) blast
    ultimately show ?thesis by simp
  next
    case br: False
    then have bracket: "spec \<noteq> CHR ''['' # r" for r by auto
    have "denotes (si_ip info) (si_port info) spec \<longleftrightarrow>
        (\<exists>host port. (host = ''*'' \<or> host = si_ip info) \<and> (port = None \<or> port = Some (uint (si_port info))) \<and>
          CHR '':'' \<notin> set host \<and> (\<exists>pt. spec = host @ pt \<and> port_text pt port))"
      unfolding denotes_def using bracket False by blast
    moreover have "retrace_sockaddr_match info spec = 1 \<longleftrightarrow>
        (\<exists>host port. (host = ''*'' \<or> host = si_ip info) \<and> (port = None \<or> port = Some (uint (si_port info))) \<and>
          CHR '':'' \<notin> set host \<and> (\<exists>pt. spec = host @ pt \<and> port_text pt port))"
      unfolding m parse_host_port_plain [OF assms(1) br] using hosts by (intro ex_cong1) blast
    ultimately show ?thesis by simp
  qed
qed

subsection \<open>Denying IPv4 destinations\<close>

lemma dec_chars: "list_all is_dec (dec n)" "dec n \<noteq> []"
proof -
  have "d \<in> {0, 1, 2, 3, 4, 5, 6, 7, 8, 9} \<Longrightarrow> is_dec (dec_digit d)" for d
    by (auto simp: dec_digit_def in_range_def char_le_def char_val_def)
  moreover have "d < 10 \<Longrightarrow> d \<in> {0, 1, 2, 3, 4, 5, 6, 7, 8, 9}" for d :: nat by auto
  ultimately have "d < 10 \<Longrightarrow> is_dec (dec_digit d)" for d by blast
  then show "list_all is_dec (dec n)" by (induction n rule: dec.induct) (subst dec.simps, simp)
  show "dec n \<noteq> []" by (subst dec.simps) simp
qed

lemma dec_byte_length: "n < 256 \<Longrightarrow> length (dec n) \<le> 3"
  by (simp add: dec.simps [of n] dec.simps [of "n div 10"] dec.simps [of "n div 10 div 10"])

lemma dec_no: "c \<in> set (dec n) \<Longrightarrow> is_dec c"
  using dec_chars(1) [of n] by (simp add: list_all_iff)

definition dotted :: "8 word \<Rightarrow> 8 word \<Rightarrow> 8 word \<Rightarrow> 8 word \<Rightarrow> cstr" where
  "dotted a b c d = dec (unat a) @ ''.'' @ dec (unat b) @ ''.'' @ dec (unat c) @ ''.'' @ dec (unat d)"

lemma dotted_plain: "plain_ip (dotted a b c d)"
proof -
  have "length (dec (unat x)) \<le> 3" for x :: "8 word" using unsigned_less [of x] by (intro dec_byte_length) simp
  from this [of a] this [of b] this [of c] this [of d] have "length (dotted a b c d) \<le> 15" by (simp add: dotted_def)
  moreover have "\<not> is_dec (CHR '']'')" "\<not> is_dec (CHR ''['')" by (simp_all add: in_range_def char_le_def char_val_def)
  moreover from this(2) have "hd (dec (unat a)) \<noteq> CHR ''[''" using dec_chars(2) [of "unat a"] dec_no hd_in_set by metis
  ultimately show ?thesis using dec_no dec_chars(2) [of "unat a"]
    by (auto simp: plain_ip_def RETRACE_SOCKADDR_IP_LEN_def dotted_def)
qed

lemma deny_loop_ex:
  "deny_loop info vs \<longleftrightarrow> (\<exists>spec. JSONString spec \<in> set vs \<and> retrace_sockaddr_match info spec = 1)"
proof (induction vs)
  case (Cons v vs)
  have range: "retrace_sockaddr_match info spec \<in> {-1, 0, 1}" for spec
    by (simp add: retrace_sockaddr_match_def split: option.split prod.split)
  show ?case
  proof (cases v)
    case (JSONString spec)
    then show ?thesis using Cons range [of spec] by (auto simp: Let_def)
  qed (use Cons in auto)
qed simp

definition inet_at :: "bytes_at \<Rightarrow> 8 word \<Rightarrow> 8 word \<Rightarrow> 8 word \<Rightarrow> 8 word \<Rightarrow> 16 word \<Rightarrow> bool" where
  "inet_at sa a b c d port \<longleftrightarrow> sa 0 = 2 \<and> sa 1 = 0 \<and> net16 sa 2 = port \<and> sa 4 = a \<and> sa 5 = b \<and> sa 6 = c \<and> sa 7 = d"

text \<open>
  C20. A call with an IPv4 destination is refused by the deny action, with a refused
  connection as its return value, exactly when a text of the list denotes the
  destination; otherwise it goes through untouched.
\<close>

theorem addr_deny_exact:
  assumes "json_object_get_array (Some params) ''deny_addrs'' = Some specs" "\<forall>spec. JSONString spec \<in> set specs \<longrightarrow> nul \<notin> set spec"
    and "find_sockaddr (tc_params t) \<noteq> 0" "inet_at (heap (find_sockaddr (tc_params t))) a b c d port"
  shows "ia_addr_deny heap t (Some params) =
    (if \<exists>spec. JSONString spec \<in> set specs \<and> denotes (dotted a b c d) port spec
     then (-1, t\<lparr>tc_ret_val := - ECONNREFUSED\<rparr>) else (0, t))"
proof -
  let ?sa = "heap (find_sockaddr (tc_params t))"
  obtain info where i: "retrace_sockaddr_inspect (Some ?sa) 0 zero_info = (0, info)" "si_group info = RETRACE_SAF_INET"
      "si_ip info = dotted a b c d" "si_port info = port"
    using assms(4) by (simp add: retrace_sockaddr_inspect_def inet_at_def dotted_def format_ipv4_def RETRACE_SOCKADDR_IP_LEN_def)
  have "deny_loop info specs \<longleftrightarrow> (\<exists>spec. JSONString spec \<in> set specs \<and> denotes (dotted a b c d) port spec)"
    unfolding deny_loop_ex using match_denotes [of _ info] i(2-4) dotted_plain assms(2) by auto
  then show ?thesis using assms(1,3) i(1) by (simp add: ia_addr_deny_def)
qed

definition loopback4 :: bytes_at where
  "loopback4 i = (if i = 0 then 2 else if i = 2 then 1 else if i = 3 then 187 else if i = 4 then 127 else if i = 7 then 1 else 0)"

definition addr_call :: thread_context where
  "addr_call = \<lparr>tc_func = ''connect'', tc_type_name = ''int'', tc_ret_val = 0, tc_ret_errno = 0,
     tc_params = [\<lparr>fp_meta = \<lparr>pm_name = ''addr'', pm_type_name = ''ptr'', pm_modifiers = 1, pm_direction = PDIR_IN, pm_ref_type_name = [], pm_array_cnt_param = []\<rparr>,
       fp_val = 64, fp_free_val = False\<rparr>], tc_ret_addr = 0\<rparr>"

theorem addr_deny_exact_witness:
  "ia_addr_deny (\<lambda>_. loopback4) addr_call (Some [(''deny_addrs'', JSONArray [JSONString ''*:443''])]) =
    (-1, addr_call\<lparr>tc_ret_val := - ECONNREFUSED\<rparr>)"
proof -
  have arr: "json_object_get_array (Some [(''deny_addrs'', JSONArray [JSONString ''*:443''])]) ''deny_addrs'' = Some [JSONString ''*:443'']"
    by (simp add: json_object_get_array_def json_object_get_value_map)
  have sa: "find_sockaddr (tc_params addr_call) \<noteq> 0" by (simp add: addr_call_def is_addr_param_name_def)
  have at: "inet_at loopback4 127 0 0 1 443" by (simp add: inet_at_def loopback4_def net16_def)
  have "port_text '':443'' (Some (uint (443 :: 16 word)))"
    by (simp add: port_text_def all_digits_def digits_val_def in_range_def char_le_def char_val_def)
  then have "denotes (dotted 127 0 0 1) 443 ''*:443''"
    unfolding denotes_def by (intro disjI2 exI [of _ "''*''"] exI [of _ "'':443''"]) auto
  then show ?thesis
    using addr_deny_exact [OF arr _ sa, of "\<lambda>_. loopback4" 127 0 0 1 443] at by auto
qed

text \<open>
  An IPv6 address is presented without shortening runs of zeros, so the loopback address
  does not match the texts the header and the action give for it.
\<close>

definition loopback6 :: bytes_at where
  "loopback6 i = (if i = 0 then 10 else if i = 2 then 1 else if i = 3 then 187 else if i = 23 then 1 else 0)"

theorem ipv6_short_form_never_matches:
  "let info = snd (retrace_sockaddr_inspect (Some loopback6) 0 zero_info) in
   si_ip info = ''0:0:0:0:0:0:0:1'' \<and> si_port info = 443 \<and>
   retrace_sockaddr_match info ''[::1]:443'' = 0 \<and> retrace_sockaddr_match info ''[0:0:0:0:0:0:0:1]:443'' = 1"
  by code_simp

end
