(* ===== verification/Open_Addressing.thy ===== *)
theory Open_Addressing
  imports Retrace_Prelude
begin

text \<open>
  Open addressing with linear probing, the table layout of the script name index in
  \<open>src/config_cache.c\<close> and of the resolved-function cache in \<open>src/engine.c\<close>: the probe
  loop, building an index of numbered items, and the proof that a search ends at the
  first matching item.
\<close>

unbundle bit_operations_syntax

section \<open>Linear probing in a power-of-two table\<close>

text \<open>
  The loop of every open-addressed table in the program: step to the next bucket, masked
  by the table size minus one, until a condition on the bucket holds.  Not ending is
  the value \<open>None\<close>.
\<close>

partial_function (option) probe :: "(nat \<Rightarrow> bool) \<Rightarrow> nat \<Rightarrow> nat \<Rightarrow> nat option" where
  "probe stop msk b = (if stop b then Some b else probe stop msk ((b + 1) AND msk))"

lemma and_mask_mod: "(x :: nat) AND (2 ^ k - 1) = x mod 2 ^ k"
  using take_bit_eq_mask [of k x] take_bit_eq_mod [of k x] mask_eq_exp_minus_1 [of k, where 'a = nat] by metis

lemma and_mask_mod' [simp]: "(x :: nat) AND (2 ^ k - Suc 0) = x mod 2 ^ k"
  using and_mask_mod [of x k] by simp

lemma probe_reaches:
  assumes "stop ((b + d) mod 2 ^ k)" "\<And>e. e < d \<Longrightarrow> \<not> stop ((b + e) mod 2 ^ k)"
  shows "probe stop (2 ^ k - 1) (b mod 2 ^ k) = Some ((b + d) mod 2 ^ k)"
  using assms
proof (induction d arbitrary: b)
  case 0
  then show ?case by (simp add: probe.simps)
next
  case (Suc d)
  have "\<not> stop (b mod 2 ^ k)" using Suc.prems(2) [of 0] by simp
  then have "probe stop (2 ^ k - 1) (b mod 2 ^ k) = probe stop (2 ^ k - 1) ((b + 1) mod 2 ^ k)"
    by (subst probe.simps) (simp add: mod_Suc_eq)
  also have "\<dots> = Some ((b + 1 + d) mod 2 ^ k)"
  proof (rule Suc.IH)
    show "stop ((b + 1 + d) mod 2 ^ k)" using Suc.prems(1) by simp
    show "\<not> stop ((b + 1 + e) mod 2 ^ k)" if "e < d" for e
      using Suc.prems(2) [of "Suc e"] that by simp
  qed
  finally show ?case by simp
qed

text \<open>Some bucket stops the loop, hence the loop ends at the first one.\<close>

lemma probe_ends:
  assumes "c < 2 ^ k" "stop c"
  shows "\<exists>d. probe stop (2 ^ k - 1) (b mod 2 ^ k) = Some ((b + d) mod 2 ^ k) \<and> stop ((b + d) mod 2 ^ k) \<and>
    (\<forall>e<d. \<not> stop ((b + e) mod 2 ^ k))"
proof -
  have "(b + (c + 2 ^ k - b mod 2 ^ k)) mod 2 ^ k = c"
  proof -
    have "b mod 2 ^ k \<le> c + 2 ^ k" by (meson le_add2 le_trans less_imp_le mod_less_divisor zero_less_numeral zero_less_power)
    then have "(b mod 2 ^ k + (c + 2 ^ k - b mod 2 ^ k)) mod 2 ^ k = c mod 2 ^ k" by simp
    then show ?thesis using assms(1) by (simp add: mod_add_left_eq)
  qed
  then have ex: "\<exists>d. stop ((b + d) mod 2 ^ k)" using assms(2) by metis
  define d where "d = (LEAST d. stop ((b + d) mod 2 ^ k))"
  have s: "stop ((b + d) mod 2 ^ k)" unfolding d_def by (rule LeastI_ex [OF ex])
  have n: "\<not> stop ((b + e) mod 2 ^ k)" if "e < d" for e
    using that not_less_Least unfolding d_def by blast
  show ?thesis using probe_reaches [of stop b d k, OF s] s n by blast
qed

subsection \<open>An index of numbered items\<close>

text \<open>
  Items \<open>0, 1, \<dots>\<close> with a hash each are entered one after the other, item \<open>i\<close> as the value
  \<open>i + 1\<close> in the first free bucket from its hash on.
\<close>

definition oa_enter :: "nat list \<Rightarrow> nat \<Rightarrow> nat \<Rightarrow> nat list option" where
  "oa_enter bs h i =
     (case probe (\<lambda>b. bs ! b = 0) (length bs - 1) (h AND (length bs - 1)) of
        None \<Rightarrow> None
      | Some b \<Rightarrow> Some (bs[b := i + 1]))"

fun oa_fill :: "nat list \<Rightarrow> nat list \<Rightarrow> nat \<Rightarrow> nat list option" where
  "oa_fill bs [] i = Some bs"
| "oa_fill bs (h # hs) i = (case oa_enter bs h i of None \<Rightarrow> None | Some bs' \<Rightarrow> oa_fill bs' hs (Suc i))"

definition oa_find :: "nat list \<Rightarrow> (nat \<Rightarrow> bool) \<Rightarrow> nat \<Rightarrow> nat option option" where
  "oa_find bs match h =
     (case probe (\<lambda>b. bs ! b = 0 \<or> match (bs ! b - 1)) (length bs - 1) (h AND (length bs - 1)) of
        None \<Rightarrow> None
      | Some b \<Rightarrow> Some (if bs ! b = 0 then None else Some (bs ! b - 1)))"

text \<open>
  The invariant after \<open>n\<close> items: item \<open>i\<close> is met from its hash on before any free bucket
  and before any later item, and only the \<open>n\<close> items occupy buckets.
\<close>

definition oa_inv :: "nat \<Rightarrow> (nat \<Rightarrow> nat) \<Rightarrow> nat \<Rightarrow> nat list \<Rightarrow> bool" where
  "oa_inv k hash n bs \<longleftrightarrow> length bs = 2 ^ k \<and>
     (\<forall>i<n. \<exists>d. bs ! ((hash i + d) mod 2 ^ k) = i + 1 \<and>
        (\<forall>e<d. 0 < bs ! ((hash i + e) mod 2 ^ k) \<and> bs ! ((hash i + e) mod 2 ^ k) \<le> i)) \<and>
     (\<forall>b<2 ^ k. bs ! b \<le> n) \<and> card {b. b < 2 ^ k \<and> bs ! b \<noteq> 0} \<le> n"

lemma oa_inv_empty: "oa_inv k hash 0 (replicate (2 ^ k) 0)"
  by (auto simp: oa_inv_def card_eq_0_iff)

lemma oa_free:
  assumes "oa_inv k hash n bs" "n < 2 ^ k" shows "\<exists>b<2 ^ k. bs ! b = 0"
proof (rule ccontr)
  assume "\<not> ?thesis"
  then have "{b. b < 2 ^ k \<and> bs ! b \<noteq> 0} = {..<2 ^ k}" by auto
  then show False using assms by (simp add: oa_inv_def)
qed

lemma oa_enter_inv:
  assumes inv: "oa_inv k hash n bs" and room: "n < 2 ^ k"
  shows "\<exists>bs'. oa_enter bs (hash n) n = Some bs' \<and> oa_inv k hash (Suc n) bs'"
proof -
  have len: "length bs = 2 ^ k" using inv by (simp add: oa_inv_def)
  obtain c where "c < 2 ^ k" "bs ! c = 0" using oa_free [OF assms] by blast
  from probe_ends [of c k "\<lambda>b. bs ! b = 0", OF this, of "hash n"] obtain d where
    p: "probe (\<lambda>b. bs ! b = 0) (2 ^ k - 1) (hash n mod 2 ^ k) = Some ((hash n + d) mod 2 ^ k)"
    and free: "bs ! ((hash n + d) mod 2 ^ k) = 0"
    and before: "\<forall>e<d. bs ! ((hash n + e) mod 2 ^ k) \<noteq> 0" by blast
  let ?s = "(hash n + d) mod 2 ^ k"
  let ?bs = "bs[?s := n + 1]"
  have s: "?s < length bs" by (simp add: len)
  have keep: "?bs ! b = bs ! b" if "bs ! b \<noteq> 0" for b using that free by (cases "b = ?s") auto
  have "\<exists>d. ?bs ! ((hash i + d) mod 2 ^ k) = i + 1 \<and>
        (\<forall>e<d. 0 < ?bs ! ((hash i + e) mod 2 ^ k) \<and> ?bs ! ((hash i + e) mod 2 ^ k) \<le> i)" if "i < Suc n" for i
  proof (cases "i = n")
    case True
    have "?bs ! ((hash n + e) mod 2 ^ k) \<le> n \<and> 0 < ?bs ! ((hash n + e) mod 2 ^ k)" if "e < d" for e
      using before that keep inv by (auto simp: oa_inv_def)
    then show ?thesis using True s by (intro exI [of _ d]) auto
  next
    case False
    then have "i < n" using that by simp
    moreover have "\<forall>i<n. \<exists>d. bs ! ((hash i + d) mod 2 ^ k) = i + 1 \<and>
        (\<forall>e<d. 0 < bs ! ((hash i + e) mod 2 ^ k) \<and> bs ! ((hash i + e) mod 2 ^ k) \<le> i)"
      using inv by (simp add: oa_inv_def)
    ultimately obtain d' where "bs ! ((hash i + d') mod 2 ^ k) = i + 1"
        "\<forall>e<d'. 0 < bs ! ((hash i + e) mod 2 ^ k) \<and> bs ! ((hash i + e) mod 2 ^ k) \<le> i"
      by blast
    then show ?thesis using keep by (intro exI [of _ d']) (metis less_numeral_extra(3) nat.simps(3) add_eq_0_iff_both_eq_0 zero_neq_one)
  qed
  moreover have "card {b. b < 2 ^ k \<and> ?bs ! b \<noteq> 0} \<le> Suc n"
  proof -
    have "{b. b < 2 ^ k \<and> ?bs ! b \<noteq> 0} \<subseteq> insert ?s {b. b < 2 ^ k \<and> bs ! b \<noteq> 0}"
      by (auto simp: nth_list_update split: if_splits)
    then have "card {b. b < 2 ^ k \<and> ?bs ! b \<noteq> 0} \<le> card (insert ?s {b. b < 2 ^ k \<and> bs ! b \<noteq> 0})"
      by (intro card_mono) auto
    also have "\<dots> \<le> Suc (card {b. b < 2 ^ k \<and> bs ! b \<noteq> 0})" by (simp add: card_insert_if)
    finally show ?thesis using inv by (simp add: oa_inv_def)
  qed
  moreover have "?bs ! b \<le> Suc n" if "b < 2 ^ k" for b
    using inv that len by (cases "b = ?s") (auto simp: oa_inv_def nth_list_update le_Suc_eq)
  ultimately have "oa_inv k hash (Suc n) ?bs" using len unfolding oa_inv_def by auto
  then show ?thesis using p len by (simp add: oa_enter_def and_mask_mod)
qed

text \<open>Filling never runs out of free buckets while fewer items than buckets are entered.\<close>

lemma oa_fill_inv:
  assumes "oa_inv k hash n bs" "hs = map hash [n..<n + length hs]" "n + length hs \<le> 2 ^ k"
  shows "\<exists>bs'. oa_fill bs hs n = Some bs' \<and> oa_inv k hash (n + length hs) bs'"
  using assms
proof (induction hs arbitrary: n bs)
  case Nil
  then show ?case by simp
next
  case (Cons h hs)
  from Cons.prems(2) have h: "h = hash n" and hs: "hs = map hash [Suc n..<Suc n + length hs]"
    by (simp_all add: upt_conv_Cons del: upt_Suc)
  have "n < 2 ^ k" using Cons.prems(3) by simp
  from oa_enter_inv [OF Cons.prems(1) this] obtain bs1 where
    1: "oa_enter bs (hash n) n = Some bs1" "oa_inv k hash (Suc n) bs1" by blast
  show ?case using Cons.IH [OF 1(2) hs] Cons.prems(3) 1(1) h by simp
qed

text \<open>
  A search whose key has the hash of every item it matches ends and finds the first
  item that matches, provided a bucket is free.
\<close>

lemma oa_find_first:
  assumes inv: "oa_inv k hash n bs" and room: "n < 2 ^ k"
    and match: "\<And>i. i < n \<Longrightarrow> match i \<Longrightarrow> hash i = h"
  shows "oa_find bs match h = Some (find match [0..<n])"
proof -
  have len: "length bs = 2 ^ k" and le: "\<And>b. b < 2 ^ k \<Longrightarrow> bs ! b \<le> n"
    using inv by (simp_all add: oa_inv_def)
  let ?stop = "\<lambda>b. bs ! b = 0 \<or> match (bs ! b - 1)"
  obtain c where c: "c < 2 ^ k" "?stop c" using oa_free [OF inv room] by blast
  from probe_ends [of c k ?stop, OF c, of h] obtain d where
    p: "probe ?stop (2 ^ k - 1) (h mod 2 ^ k) = Some ((h + d) mod 2 ^ k)"
    and s: "?stop ((h + d) mod 2 ^ k)" and before: "\<forall>e<d. \<not> ?stop ((h + e) mod 2 ^ k)" by blast
  let ?x = "bs ! ((h + d) mod 2 ^ k)"
  have x: "?x \<le> n" by (rule le) simp
  have first: "?x \<noteq> 0 \<and> ?x \<le> Suc i" if "i < n" "match i" for i
  proof -
    have "\<forall>i<n. \<exists>d. bs ! ((hash i + d) mod 2 ^ k) = i + 1 \<and>
        (\<forall>e<d. 0 < bs ! ((hash i + e) mod 2 ^ k) \<and> bs ! ((hash i + e) mod 2 ^ k) \<le> i)"
      using inv by (simp add: oa_inv_def)
    then obtain d' where d': "bs ! ((h + d') mod 2 ^ k) = i + 1"
        "\<forall>e<d'. 0 < bs ! ((h + e) mod 2 ^ k) \<and> bs ! ((h + e) mod 2 ^ k) \<le> i"
      using match [OF \<open>i < n\<close> \<open>match i\<close>] \<open>i < n\<close> by metis
    have "\<not> d' < d" using before d'(1) that(2) by auto
    then consider "d = d'" | "d < d'" by linarith
    then show ?thesis
    proof cases
      case 1
      then show ?thesis using d'(1) by simp
    next
      case 2
      then show ?thesis using d'(2) by fastforce
    qed
  qed
  have r: "oa_find bs match h = Some (if ?x = 0 then None else Some (?x - 1))"
    using p len by (simp add: oa_find_def)
  show ?thesis
  proof (cases "?x = 0")
    case True
    then have "find match [0..<n] = None" using first by (auto simp: find_None_iff)
    then show ?thesis using r True by simp
  next
    case False
    then have m: "match (?x - 1)" "?x - 1 < n" using s x by auto
    have "\<not> match i" if "i < ?x - 1" for i using first [of i] that m(2) by auto
    then have "find match [0..<n] = Some (?x - 1)"
      using m by (auto simp: find_Some_iff intro!: exI [of _ "?x - 1"])
    then show ?thesis using r False by simp
  qed
qed

end
