(* ===== verification/Name_Registry.thy ===== *)
theory Name_Registry
  imports Call_Context
begin

section \<open>Registries by name (\<open>src/src/core/funcs.c\<close>, \<open>actions.c\<close>, \<open>data_types.c\<close>)\<close>

text \<open>
  Prototypes, actions and data types are each registered once from an array the linker
  collects, in a table of chained buckets.  The three tables differ in their size and
  in what they hold.  A bucket is the list of its chain, the embedded first cell
  included.  Allocating the cell of entry \<open>i\<close> succeeds when \<open>malloc_ok i\<close>; the code does not
  test the outcome, so a failure is a write through \<open>NULL\<close>, the value \<open>None\<close>.
\<close>

fun hash_string_loop :: "64 word \<Rightarrow> cstr \<Rightarrow> 64 word" where
  "hash_string_loop h [] = h"
| "hash_string_loop h (c # s) = hash_string_loop (h * 31 + word_of_int (char_val c)) s"

definition hash_string :: "nat \<Rightarrow> cstr \<Rightarrow> nat" where
  "hash_string entries str = unat (hash_string_loop 7 str mod of_nat entries)"

text \<open>The walk both loops do: to the cell with the name, or to the last one.\<close>

fun chain_stop :: "('a \<Rightarrow> cstr) \<Rightarrow> cstr \<Rightarrow> 'a \<Rightarrow> 'a list \<Rightarrow> 'a" where
  "chain_stop name key h [] = h"
| "chain_stop name key h (h' # t) = (if name h \<noteq> key then chain_stop name key h' t else h)"

datatype 'a chained = Chained 'a | Exists | NullWrite

definition chain_add :: "('a \<Rightarrow> cstr) \<Rightarrow> bool \<Rightarrow> 'a \<Rightarrow> 'a list \<Rightarrow> 'a list chained" where
  "chain_add name malloc_ok p chain =
     (case chain of
        [] \<Rightarrow> Chained [p]
      | h # t \<Rightarrow>
          if name (chain_stop name (name p) h t) = name p then Exists
          else if malloc_ok then Chained (chain @ [p]) else NullWrite)"

fun registry_init ::
    "(cstr \<Rightarrow> nat) \<Rightarrow> ('a \<Rightarrow> cstr) \<Rightarrow> (nat \<Rightarrow> bool) \<Rightarrow> nat \<Rightarrow> 'a list \<Rightarrow> 'a list list \<Rightarrow> (int \<times> 'a list list) option" where
  "registry_init hash name malloc_ok i [] table = Some (0, table)"
| "registry_init hash name malloc_ok i (p # ps) table =
     (case chain_add name (malloc_ok i) p (table ! hash (name p)) of
        Exists \<Rightarrow> Some (-1, table)
      | NullWrite \<Rightarrow> None
      | Chained chain \<Rightarrow> registry_init hash name malloc_ok (Suc i) ps (table[hash (name p) := chain]))"

definition registry_get :: "(cstr \<Rightarrow> nat) \<Rightarrow> ('a \<Rightarrow> cstr) \<Rightarrow> cstr \<Rightarrow> 'a list list \<Rightarrow> 'a option" where
  "registry_get hash name key table =
     (case table ! hash key of
        [] \<Rightarrow> None
      | h # t \<Rightarrow> let e = chain_stop name key h t in if name e = key then Some e else None)"

subsection \<open>What a registry does\<close>

lemma chain_stop_find:
  "name (chain_stop name key h t) = key \<longleftrightarrow> key \<in> name ` set (h # t)"
  by (induction t arbitrary: h) auto

lemma chain_stop_first:
  "key \<in> name ` set (h # t) \<Longrightarrow> find (\<lambda>e. name e = key) (h # t) = Some (chain_stop name key h t)"
proof (induction t arbitrary: h)
  case (Cons a t)
  then show ?case using Cons.IH [of a] by (cases "name h = key") auto
qed auto

lemma find_filter_hash: "find (\<lambda>e. name e = key) (filter (\<lambda>p. hash (name p) = hash key) ps) = find (\<lambda>e. name e = key) ps"
  by (induction ps) auto

locale name_registry =
  fixes entries :: nat and hash :: "cstr \<Rightarrow> nat" and name :: "'a \<Rightarrow> cstr"
  assumes hash_less: "hash key < entries"
begin

definition holds :: "'a list list \<Rightarrow> 'a list \<Rightarrow> bool" where
  "holds table ps \<longleftrightarrow> length table = entries \<and> distinct (map name ps) \<and>
     (\<forall>b<entries. table ! b = filter (\<lambda>p. hash (name p) = b) ps)"

lemma holds_empty: "holds (replicate entries []) []"
  by (simp add: holds_def)

lemma get_holds:
  assumes "holds table ps"
  shows "registry_get hash name key table = find (\<lambda>p. name p = key) ps"
proof -
  have t: "table ! hash key = filter (\<lambda>p. hash (name p) = hash key) ps"
    using assms hash_less by (simp add: holds_def)
  show ?thesis
  proof (cases "table ! hash key")
    case Nil
    then show ?thesis using find_filter_hash [of name key hash ps] t by (simp add: registry_get_def)
  next
    case (Cons h r)
    then have f: "find (\<lambda>p. name p = key) ps = find (\<lambda>p. name p = key) (h # r)"
      using find_filter_hash [of name key hash ps] t by simp
    show ?thesis
    proof (cases "key \<in> name ` set (h # r)")
      case True
      then show ?thesis using f chain_stop_first [OF True] chain_stop_find [of name key h r] Cons
        by (simp add: registry_get_def Let_def)
    next
      case False
      moreover from False have "find (\<lambda>p. name p = key) (h # r) = None" unfolding find_None_iff by auto
      ultimately show ?thesis using f chain_stop_find [of name key h r] Cons by (simp add: registry_get_def Let_def)
    qed
  qed
qed

lemma add_holds:
  assumes "holds table ps" and "malloc_ok"
  shows "if name p \<in> name ` set ps then chain_add name malloc_ok p (table ! hash (name p)) = Exists
    else \<exists>chain. chain_add name malloc_ok p (table ! hash (name p)) = Chained chain \<and>
      holds (table[hash (name p) := chain]) (ps @ [p])"
proof -
  let ?c = "table ! hash (name p)"
  have t: "?c = filter (\<lambda>q. hash (name q) = hash (name p)) ps" and len: "length table = entries"
    using assms(1) hash_less by (simp_all add: holds_def)
  have mem: "name p \<in> name ` set ?c \<longleftrightarrow> name p \<in> name ` set ps" unfolding t by (auto simp: image_iff)
  show ?thesis
  proof (cases "name p \<in> name ` set ps")
    case True
    then show ?thesis using mem chain_stop_find [of name "name p"] by (cases ?c) (auto simp: chain_add_def)
  next
    case False
    then have "chain_add name malloc_ok p ?c = Chained (?c @ [p])"
      using mem chain_stop_find [of name "name p"] assms(2) by (cases ?c) (auto simp: chain_add_def)
    moreover have "holds (table[hash (name p) := ?c @ [p]]) (ps @ [p])"
      using assms(1) False hash_less unfolding holds_def by (auto simp: nth_list_update)
    ultimately show ?thesis using False by simp
  qed
qed

text \<open>Registration stops at the first name that is taken; all before it can be found.\<close>

lemma init_holds:
  assumes "holds table ps" and "\<forall>i. malloc_ok i"
  shows "\<exists>rc table'. registry_init hash name malloc_ok i qs table = Some (rc, table') \<and>
    (rc = 0 \<longleftrightarrow> distinct (map name (ps @ qs))) \<and>
    (if rc = 0 then holds table' (ps @ qs)
     else \<exists>qs1 q qs2. qs = qs1 @ q # qs2 \<and> name q \<in> name ` set (ps @ qs1) \<and> holds table' (ps @ qs1))"
  using assms(1)
proof (induction qs arbitrary: i ps table)
  case Nil
  then show ?case by (simp add: holds_def)
next
  case (Cons q qs)
  show ?case
  proof (cases "name q \<in> name ` set ps")
    case True
    then have "\<not> distinct (map name (ps @ q # qs))" by auto
    moreover have "registry_init hash name malloc_ok i (q # qs) table = Some (-1, table)"
      using True add_holds [OF Cons.prems, of "malloc_ok i" q] assms(2) by simp
    moreover have "\<exists>qs1 q' qs2. q # qs = qs1 @ q' # qs2 \<and> name q' \<in> name ` set (ps @ qs1) \<and> holds table (ps @ qs1)"
      using True Cons.prems by (intro exI [of _ "[]"] exI [of _ q] exI [of _ qs]) simp
    ultimately show ?thesis by auto
  next
    case False
    then obtain chain where chain: "chain_add name (malloc_ok i) q (table ! hash (name q)) = Chained chain"
        "holds (table[hash (name q) := chain]) (ps @ [q])"
      using add_holds [OF Cons.prems, of "malloc_ok i" q] assms(2) by auto
    from Cons.IH [OF chain(2), of "Suc i"] obtain rc table' where
      r: "registry_init hash name malloc_ok (Suc i) qs (table[hash (name q) := chain]) = Some (rc, table')"
        "rc = 0 \<longleftrightarrow> distinct (map name (ps @ q # qs))"
        "if rc = 0 then holds table' (ps @ q # qs)
         else \<exists>qs1 q' qs2. qs = qs1 @ q' # qs2 \<and> name q' \<in> name ` set (ps @ q # qs1) \<and> holds table' (ps @ q # qs1)"
      unfolding append_assoc append_Cons append_Nil by blast
    have "\<exists>qs1 q' qs2. q # qs = qs1 @ q' # qs2 \<and> name q' \<in> name ` set (ps @ qs1) \<and> holds table' (ps @ qs1)" if "rc \<noteq> 0"
      using r(3) that by (metis append_Cons)
    moreover have "registry_init hash name malloc_ok i (q # qs) table = Some (rc, table')" using r(1) chain(1) by simp
    ultimately show ?thesis using r(2,3) by (intro exI conjI) (assumption | simp)+
  qed
qed

lemma init_get:
  assumes "\<forall>i. malloc_ok i"
  obtains rc table where "registry_init hash name malloc_ok 0 ps (replicate entries []) = Some (rc, table)"
    "rc = 0 \<longleftrightarrow> distinct (map name ps)"
    "rc = 0 \<Longrightarrow> registry_get hash name key table = find (\<lambda>p. name p = key) ps"
  using init_holds [OF holds_empty assms, of 0 ps] get_holds by fastforce

end

lemma hash_string_less: "0 < entries \<Longrightarrow> entries < 2 ^ 64 \<Longrightarrow> hash_string entries s < entries"
  by (simp add: hash_string_def unat_mod unat_of_nat)

end
