(* ===== verification/Registries.thy ===== *)
theory Registries
  imports Name_Registry Json
begin

section \<open>Prototypes and actions (\<open>src/src/core/funcs.c\<close>, \<open>actions.c\<close>, \<open>action_runner.c\<close>)\<close>

text \<open>
  The prototype table and the action table as instances of the name registry, and the
  loop that runs the actions of a script.  An action takes the state of the call and
  its parameters and returns a code and the new state.
\<close>

definition MAXCOUNT_FUNCS_HASH_ENTRIES :: nat where "MAXCOUNT_FUNCS_HASH_ENTRIES = 128"
definition MAXCOUNT_ACTS_HASH_ENTRIES :: nat where "MAXCOUNT_ACTS_HASH_ENTRIES = 32"

subsection \<open>Prototypes\<close>

datatype format_arch = FAT_NOVARARGS | FAT_PRINTF | FAT_SCANF | FAT_STRFTIME

record func_prototype =
  fpr_name :: cstr
  fpr_params :: "param_meta list"
  fpr_type_name :: cstr
  fpr_fmt :: format_arch
  fpr_fmt_param_idx :: nat

definition retrace_funcs_init ::
    "(nat \<Rightarrow> bool) \<Rightarrow> func_prototype list \<Rightarrow> func_prototype list list \<Rightarrow> (int \<times> func_prototype list list) option" where
  "retrace_funcs_init malloc_ok protos funcs_hash =
     registry_init (hash_string MAXCOUNT_FUNCS_HASH_ENTRIES) fpr_name malloc_ok 0 protos funcs_hash"

definition retrace_func_get :: "cstr \<Rightarrow> func_prototype list list \<Rightarrow> func_prototype option" where
  "retrace_func_get func_name funcs_hash =
     registry_get (hash_string MAXCOUNT_FUNCS_HASH_ENTRIES) fpr_name func_name funcs_hash"

interpretation fr: name_registry MAXCOUNT_FUNCS_HASH_ENTRIES "hash_string MAXCOUNT_FUNCS_HASH_ENTRIES" fpr_name
  by unfold_locales (rule hash_string_less; simp add: MAXCOUNT_FUNCS_HASH_ENTRIES_def)

text \<open>
  C33. Registering prototypes succeeds exactly when no two have the same name.  After it a
  look-up gives the registered prototype of that name and nothing for any other name; after
  a failure it still does so for the prototypes before the first repeated name, and
  only for those.
\<close>

theorem funcs_registry:
  assumes "\<forall>i. malloc_ok i"
  shows "\<exists>rc table. retrace_funcs_init malloc_ok protos (replicate MAXCOUNT_FUNCS_HASH_ENTRIES []) = Some (rc, table) \<and>
    (rc = 0 \<longleftrightarrow> distinct (map fpr_name protos)) \<and>
    (\<exists>reg rest. protos = reg @ rest \<and> (rc = 0 \<longleftrightarrow> rest = []) \<and>
       (rest = [] \<or> fpr_name (hd rest) \<in> fpr_name ` set reg) \<and>
       (\<forall>name. retrace_func_get name table = find (\<lambda>p. fpr_name p = name) reg))"
proof -
  from fr.init_holds [OF fr.holds_empty assms, of 0 protos] obtain rc table where
    r: "retrace_funcs_init malloc_ok protos (replicate MAXCOUNT_FUNCS_HASH_ENTRIES []) = Some (rc, table)"
      "rc = 0 \<longleftrightarrow> distinct (map fpr_name protos)"
      "if rc = 0 then fr.holds table protos
       else \<exists>qs1 q qs2. protos = qs1 @ q # qs2 \<and> fpr_name q \<in> fpr_name ` set qs1 \<and> fr.holds table qs1"
    unfolding retrace_funcs_init_def append_Nil by blast
  have get: "retrace_func_get name table = find (\<lambda>p. fpr_name p = name) reg" if "fr.holds table reg" for reg name
    using fr.get_holds [OF that] by (simp add: retrace_func_get_def)
  show ?thesis
  proof (cases "rc = 0")
    case True
    then show ?thesis using r get by (intro exI [of _ rc] exI [of _ table] conjI exI [of _ protos] exI [of _ "[]"]) auto
  next
    case False
    then obtain qs1 q qs2 where q: "protos = qs1 @ q # qs2" "fpr_name q \<in> fpr_name ` set qs1" "fr.holds table qs1"
      using r(3) by auto
    then show ?thesis using r False get [OF q(3)]
      by (intro exI [of _ rc] exI [of _ table] conjI exI [of _ qs1] exI [of _ "q # qs2"]) simp_all
  qed
qed

theorem funcs_registry_witness:
  "\<exists>rc table. retrace_funcs_init (\<lambda>_. True)
      [\<lparr>fpr_name = ''open'', fpr_params = [], fpr_type_name = ''int'', fpr_fmt = FAT_NOVARARGS, fpr_fmt_param_idx = 0\<rparr>,
       \<lparr>fpr_name = ''open'', fpr_params = [], fpr_type_name = ''long'', fpr_fmt = FAT_NOVARARGS, fpr_fmt_param_idx = 0\<rparr>]
      (replicate MAXCOUNT_FUNCS_HASH_ENTRIES []) = Some (rc, table) \<and> rc \<noteq> 0"
  using funcs_registry [of "\<lambda>_. True" "[\<lparr>fpr_name = ''open'', fpr_params = [], fpr_type_name = ''int'', fpr_fmt = FAT_NOVARARGS, fpr_fmt_param_idx = 0\<rparr>,
       \<lparr>fpr_name = ''open'', fpr_params = [], fpr_type_name = ''long'', fpr_fmt = FAT_NOVARARGS, fpr_fmt_param_idx = 0\<rparr>]"] by auto

subsection \<open>Actions\<close>

type_synonym 's action_fun = "'s \<Rightarrow> json_object option \<Rightarrow> int \<times> 's"

record 's action =
  act_name :: cstr
  act_action :: "'s action_fun"

definition retrace_actions_init ::
    "(nat \<Rightarrow> bool) \<Rightarrow> 's action list \<Rightarrow> 's action list list \<Rightarrow> (int \<times> 's action list list) option" where
  "retrace_actions_init malloc_ok acts actions_hash =
     registry_init (hash_string MAXCOUNT_ACTS_HASH_ENTRIES) act_name malloc_ok 0 acts actions_hash"

definition retrace_actions_get :: "cstr \<Rightarrow> 's action list list \<Rightarrow> 's action_fun option" where
  "retrace_actions_get action_name actions_hash =
     map_option act_action (registry_get (hash_string MAXCOUNT_ACTS_HASH_ENTRIES) act_name action_name actions_hash)"

interpretation acr: name_registry MAXCOUNT_ACTS_HASH_ENTRIES "hash_string MAXCOUNT_ACTS_HASH_ENTRIES"
    "act_name :: 's action \<Rightarrow> cstr"
  by unfold_locales (rule hash_string_less; simp add: MAXCOUNT_ACTS_HASH_ENTRIES_def)

subsection \<open>Running a script\<close>

fun run_actions :: "'s action list list \<Rightarrow> json_array \<Rightarrow> 's \<Rightarrow> 's" where
  "run_actions actions_hash [] s = s"
| "run_actions actions_hash (v # vs) s =
     (let i_action = json_value_get_object (Some v) in
      case json_object_get_string i_action ''action_name'' of
        None \<Rightarrow> s
      | Some i_action_name \<Rightarrow>
          (case retrace_actions_get i_action_name actions_hash of
             None \<Rightarrow> s
           | Some action_func \<Rightarrow>
               (case action_func s (json_object_get_object i_action ''action_params'') of
                  (rc, s1) \<Rightarrow> if rc \<noteq> 0 then s1 else run_actions actions_hash vs s1)))"

definition retrace_action_runner_run :: "'s action list list \<Rightarrow> json_object option \<Rightarrow> 's \<Rightarrow> 's" where
  "retrace_action_runner_run actions_hash i_script s =
     (case json_object_get_array i_script ''actions'' of
        None \<Rightarrow> s
      | Some i_actions \<Rightarrow> if json_array_get_count (Some i_actions) = 0 then s else run_actions actions_hash i_actions s)"

text \<open>The registered action an entry of a script names.\<close>

definition entry_action :: "'s action list \<Rightarrow> json \<Rightarrow> ('s action_fun \<times> json_object option) option" where
  "entry_action acts v =
     Option.bind (json_object_get_string (json_value_get_object (Some v)) ''action_name'')
       (\<lambda>n. map_option (\<lambda>a. (act_action a, json_object_get_object (json_value_get_object (Some v)) ''action_params''))
              (find (\<lambda>a. act_name a = n) acts))"

text \<open>The entries executed one after the other, whatever they return.\<close>

fun run_all :: "('s action_fun \<times> json_object option) list \<Rightarrow> 's \<Rightarrow> 's" where
  "run_all [] s = s"
| "run_all ((f, ps) # es) s = run_all es (snd (f s ps))"

text \<open>The codes they return on the way.\<close>

fun run_codes :: "('s action_fun \<times> json_object option) list \<Rightarrow> 's \<Rightarrow> int list" where
  "run_codes [] s = []"
| "run_codes ((f, ps) # es) s = fst (f s ps) # run_codes es (snd (f s ps))"

lemma run_actions_prefix:
  assumes get: "\<And>n. retrace_actions_get n tab = map_option act_action (find (\<lambda>a. act_name a = n) acts)"
  shows "\<exists>k es. k \<le> length vs \<and> map (entry_action acts) (take k vs) = map Some es \<and>
      run_actions tab vs s = run_all es s \<and>
      (\<forall>rc\<in>set (butlast (run_codes es s)). rc = 0) \<and>
      (k = length vs \<or> entry_action acts (vs ! k) = None \<or> es \<noteq> [] \<and> last (run_codes es s) \<noteq> 0)"
proof (induction vs arbitrary: s)
  case Nil
  then show ?case by (intro exI [of _ 0] exI [of _ "[]"]) simp
next
  case (Cons v vs)
  show ?case
  proof (cases "entry_action acts v")
    case None
    then have "run_actions tab (v # vs) s = s"
      by (auto simp: entry_action_def get Let_def bind_eq_None_conv split: option.split)
    then show ?thesis using None by (intro exI [of _ 0] exI [of _ "[]"]) simp
  next
    case (Some e)
    obtain f ps where e: "e = (f, ps)" by (cases e)
    obtain rc s1 where fs: "f s ps = (rc, s1)" by (cases "f s ps")
    have run: "run_actions tab (v # vs) s = (if rc \<noteq> 0 then s1 else run_actions tab vs s1)"
      using Some fs by (auto simp: entry_action_def get Let_def bind_eq_Some_conv e)
    show ?thesis
    proof (cases "rc = 0")
      case False
      then show ?thesis using run Some e fs by (intro exI [of _ 1] exI [of _ "[(f, ps)]"]) simp
    next
      case True
      from Cons.IH [of s1] obtain k es where k: "k \<le> length vs" "map (entry_action acts) (take k vs) = map Some es"
          "run_actions tab vs s1 = run_all es s1" "\<forall>rc\<in>set (butlast (run_codes es s1)). rc = 0"
          "k = length vs \<or> entry_action acts (vs ! k) = None \<or> es \<noteq> [] \<and> last (run_codes es s1) \<noteq> 0" by blast
      have ne: "es \<noteq> [] \<Longrightarrow> run_codes es s1 \<noteq> []" by (cases es) auto
      show ?thesis using k run True Some e fs ne
        by (intro exI [of _ "Suc k"] exI [of _ "(f, ps) # es"]) (auto simp del: run_actions.simps)
    qed
  qed
qed

text \<open>
  C34. Over a table of registered actions, running a script performs its first \<open>k\<close>
  entries in order, each with its own parameters on the state its predecessor left.
  All of them but possibly the last return 0, and it stops after \<open>k\<close> only at the end of
  the script, before an entry that names no registered action, or after an entry
  that returned non-zero.
\<close>

theorem action_runner_prefix:
  assumes "retrace_actions_init malloc_ok acts (replicate MAXCOUNT_ACTS_HASH_ENTRIES []) = Some (0, tab)"
    and "\<forall>i. malloc_ok i" and "json_object_get_array i_script ''actions'' = Some vs"
  shows "\<exists>k es. k \<le> length vs \<and> map (entry_action acts) (take k vs) = map Some es \<and>
    retrace_action_runner_run tab i_script s = run_all es s \<and>
    (\<forall>rc\<in>set (butlast (run_codes es s)). rc = 0) \<and>
    (k = length vs \<or> entry_action acts (vs ! k) = None \<or> es \<noteq> [] \<and> last (run_codes es s) \<noteq> 0)"
proof -
  have "acr.holds tab acts"
    using acr.init_holds [OF acr.holds_empty assms(2), of 0 acts] assms(1) by (auto simp: retrace_actions_init_def)
  then have "retrace_actions_get n tab = map_option act_action (find (\<lambda>a. act_name a = n) acts)" for n
    by (simp add: retrace_actions_get_def acr.get_holds)
  from run_actions_prefix [OF this, of vs s] show ?thesis
    using assms(3) by (cases vs) (auto simp: retrace_action_runner_run_def json_array_get_count_def)
qed

theorem action_runner_prefix_witness:
  "\<exists>tab. retrace_actions_init (\<lambda>_. True) [\<lparr>act_name = ''tick'', act_action = \<lambda>s _. (0, s + 1)\<rparr>,
      \<lparr>act_name = ''stop'', act_action = \<lambda>s _. (-1, s)\<rparr>] (replicate MAXCOUNT_ACTS_HASH_ENTRIES []) = Some (0, tab) \<and>
    retrace_action_runner_run tab (Some [(''actions'', JSONArray [JSONObject [(''action_name'', JSONString ''tick'')]])]) (41 :: int) = 42"
proof -
  let ?acts = "[\<lparr>act_name = ''tick'', act_action = \<lambda>s _. (0, s + 1)\<rparr>,
      \<lparr>act_name = ''stop'', act_action = \<lambda>s _. (-1, s)\<rparr>] :: int action list"
  let ?s = "Some [(''actions'', JSONArray [JSONObject [(''action_name'', JSONString ''tick'')]])]"
  let ?vs = "[JSONObject [(''action_name'', JSONString ''tick'')]]"
  obtain tab where tab: "retrace_actions_init (\<lambda>_. True) ?acts (replicate MAXCOUNT_ACTS_HASH_ENTRIES []) = Some (0, tab)"
    using acr.init_get [of "\<lambda>_. True" ?acts] by (auto simp: retrace_actions_init_def)
  have arr: "json_object_get_array ?s ''actions'' = Some ?vs"
    by (simp add: json_object_get_array_def json_object_get_value_map)
  from action_runner_prefix [OF tab _ arr, of 41] obtain k es where
    k: "map (entry_action ?acts) (take k ?vs) = map Some es" "retrace_action_runner_run tab ?s 41 = run_all es 41"
      "k = length ?vs \<or> entry_action ?acts (?vs ! k) = None \<or> es \<noteq> []" by auto
  have tick: "entry_action ?acts (hd ?vs) = Some (\<lambda>s _. (0, s + 1), None)"
    by (simp add: entry_action_def json_object_get_string_def json_object_get_value_map json_object_get_object_def)
  then have "es = [(\<lambda>s _. (0, s + 1), None)]" using k(1,3) by (cases k) auto
  then show ?thesis using tab k(2) by auto
qed

end
