(* ===== verification/Real_Cache.thy ===== *)
theory Real_Cache
  imports Open_Addressing Registries Caller_Cache
begin

unbundle bit_operations_syntax

section \<open>Resolved functions (\<open>src/src/core/engine.c\<close>)\<close>

text \<open>
  The table from function names to real implementations and prototypes that every
  intercepted call consults first: a hash per name, linear probing, and on a miss a
  look-up of the implementation whose answer is kept.  A slot pointer is an index into
  the table; a null implementation is the address 0.  The probe has no bound of its own,
  so its result is an option.
\<close>

definition REAL_CACHE_SLOTS :: nat where "REAL_CACHE_SLOTS = 2048"

record real_cache_el =
  rc_hash :: "64 word"
  rc_real :: addr
  rc_name :: cstr
  rc_proto :: "func_prototype option"

definition empty_real_cache :: "real_cache_el list" where
  "empty_real_cache = replicate REAL_CACHE_SLOTS \<lparr>rc_hash = 0, rc_real = 0, rc_name = [], rc_proto = None\<rparr>"

definition DARWIN_EXTSN :: cstr where "DARWIN_EXTSN = CHR 0x24 # ''DARWIN_EXTSN''"

definition strip_darwin_extsn :: "cstr \<Rightarrow> nat \<Rightarrow> cstr" where
  "strip_darwin_extsn name bufsz =
     (let slen = length DARWIN_EXTSN; n = length name in
      if n \<le> slen then name
      else if drop (n - slen) name \<noteq> DARWIN_EXTSN then name
      else if n - slen \<ge> bufsz then name
      else take (n - slen) name)"

fun real_hash_loop :: "64 word \<Rightarrow> cstr \<Rightarrow> 64 word" where
  "real_hash_loop h [] = h"
| "real_hash_loop h (c # s) = real_hash_loop ((h XOR of_char c) * 1099511628211) s"

definition real_name_hash :: "cstr \<Rightarrow> 64 word" where
  "real_name_hash s = real_hash_loop 14695981039346656037 s"

text \<open>
  The members resolved at start-up are addresses, 0 while unresolved; \<open>get_real\<close> is the
  loader's symbol look-up.
\<close>

record real_members =
  rm_strcmp :: addr
  rm_free :: addr
  rm_malloc :: addr

definition retrace_real_impl_resolve :: "real_members \<Rightarrow> (cstr \<Rightarrow> addr) \<Rightarrow> cstr \<Rightarrow> addr" where
  "retrace_real_impl_resolve m get_real func_name =
     (if rm_strcmp m \<noteq> 0 \<and> rm_free m \<noteq> 0 \<and> func_name = ''free'' then rm_free m
      else if rm_strcmp m \<noteq> 0 \<and> rm_malloc m \<noteq> 0 \<and> func_name = ''malloc'' then rm_malloc m
      else get_real func_name)"

definition slot_stops :: "real_cache_el list \<Rightarrow> cstr \<Rightarrow> nat \<Rightarrow> bool" where
  "slot_stops cache func_name i =
     (let el = cache ! i in
      rc_hash el = real_name_hash func_name \<and> rc_name el = func_name \<or> rc_hash el = 0)"

definition name_slot_lookup ::
    "real_members \<Rightarrow> (cstr \<Rightarrow> addr) \<Rightarrow> bool \<Rightarrow> cstr \<Rightarrow> real_cache_el list \<Rightarrow>
     (nat option \<times> addr \<times> real_cache_el list) option" where
  "name_slot_lookup m get_real inited func_name cache =
     (if \<not> inited then Some (None, get_real func_name, cache)
      else
        let h = real_name_hash func_name in
        case probe (slot_stops cache func_name) (REAL_CACHE_SLOTS - 1) (unat h AND (REAL_CACHE_SLOTS - 1)) of
          None \<Rightarrow> None
        | Some i \<Rightarrow>
            let el = cache ! i in
            if rc_hash el = h \<and> rc_name el = func_name then Some (Some i, rc_real el, cache)
            else
              let r = retrace_real_impl_resolve m get_real func_name in
              Some (Some i, r,
                cache[i := \<lparr>rc_hash = h, rc_real = r, rc_name = take (MAXLEN_FUNC_NAME - 1) func_name, rc_proto = None\<rparr>]))"

definition slot_proto ::
    "func_prototype list list \<Rightarrow> nat option \<Rightarrow> cstr \<Rightarrow> real_cache_el list \<Rightarrow>
     func_prototype option \<times> real_cache_el list" where
  "slot_proto funcs_hash slot func_name cache =
     (case slot of
        None \<Rightarrow> (retrace_func_get func_name funcs_hash, cache)
      | Some i \<Rightarrow>
          if rc_proto (cache ! i) \<noteq> None then (rc_proto (cache ! i), cache)
          else
            let proto = retrace_func_get func_name funcs_hash in
            (proto, cache[i := (cache ! i)\<lparr>rc_proto := proto\<rparr>]))"

definition retrace_name_lookup ::
    "real_members \<Rightarrow> (cstr \<Rightarrow> addr) \<Rightarrow> func_prototype list list \<Rightarrow> bool \<Rightarrow> cstr \<Rightarrow> real_cache_el list \<Rightarrow>
     (addr \<times> func_prototype option \<times> real_cache_el list) option" where
  "retrace_name_lookup m get_real funcs_hash inited func_name cache =
     (case name_slot_lookup m get_real inited func_name cache of
        None \<Rightarrow> None
      | Some (el, r, cache1) \<Rightarrow>
          (case slot_proto funcs_hash el func_name cache1 of (proto, cache2) \<Rightarrow> Some (r, proto, cache2)))"

subsection \<open>What the table holds\<close>

text \<open>
  The abstract state is a finite map from names to implementations.  The table holds it
  when its occupied slots are exactly the names of the map, and every name is met from
  its hash on before a free slot.
\<close>

definition slot_of :: "cstr \<Rightarrow> nat \<Rightarrow> nat" where
  "slot_of f d = (unat (real_name_hash f) + d) mod REAL_CACHE_SLOTS"

definition cache_holds :: "real_cache_el list \<Rightarrow> (cstr \<rightharpoonup> addr) \<Rightarrow> bool" where
  "cache_holds c M \<longleftrightarrow> length c = REAL_CACHE_SLOTS \<and> finite (dom M) \<and>
     (\<forall>i<REAL_CACHE_SLOTS. rc_hash (c ! i) \<noteq> 0 \<longrightarrow>
        M (rc_name (c ! i)) = Some (rc_real (c ! i)) \<and> rc_hash (c ! i) = real_name_hash (rc_name (c ! i))) \<and>
     (\<forall>f. f \<in> dom M \<longrightarrow> (\<exists>d. rc_hash (c ! slot_of f d) \<noteq> 0 \<and> rc_name (c ! slot_of f d) = f \<and>
        (\<forall>e<d. rc_hash (c ! slot_of f e) \<noteq> 0 \<and> rc_name (c ! slot_of f e) \<noteq> f))) \<and>
     card {i. i < REAL_CACHE_SLOTS \<and> rc_hash (c ! i) \<noteq> 0} \<le> card (dom M)"

text \<open>A name the table can keep: it fits a slot, and its hash is not the mark of a free slot.\<close>

definition keepable :: "cstr \<Rightarrow> bool" where
  "keepable f \<longleftrightarrow> length f < MAXLEN_FUNC_NAME \<and> real_name_hash f \<noteq> 0"

lemma slots_pow: "REAL_CACHE_SLOTS = 2 ^ 11" by (simp add: REAL_CACHE_SLOTS_def)

lemma slots_and: "x AND (REAL_CACHE_SLOTS - 1) = x mod REAL_CACHE_SLOTS"
  unfolding slots_pow by (rule and_mask_mod)

lemma slot_of_less [simp]: "slot_of f d < REAL_CACHE_SLOTS"
  by (simp add: slot_of_def REAL_CACHE_SLOTS_def)

lemma cache_holds_empty: "cache_holds empty_real_cache Map.empty"
  by (simp add: cache_holds_def empty_real_cache_def)

lemma probe_slot:
  assumes "slot_stops c f (slot_of f d)" "\<And>e. e < d \<Longrightarrow> \<not> slot_stops c f (slot_of f e)"
  shows "probe (slot_stops c f) (REAL_CACHE_SLOTS - 1) (unat (real_name_hash f) AND (REAL_CACHE_SLOTS - 1)) = Some (slot_of f d)"
  using probe_reaches [of "slot_stops c f" "unat (real_name_hash f)" d 11] assms
  unfolding slots_and unfolding slot_of_def slots_pow by blast

lemma lookup_hit:
  assumes "cache_holds c M" "M f = Some a" "keepable f"
  shows "\<exists>i. name_slot_lookup m g True f c = Some (Some i, a, c) \<and> i < REAL_CACHE_SLOTS \<and> rc_name (c ! i) = f \<and> rc_hash (c ! i) \<noteq> 0"
proof -
  have in_dom: "f \<in> dom M" using assms(2) by blast
  from assms(1) in_dom have "\<exists>d. rc_hash (c ! slot_of f d) \<noteq> 0 \<and> rc_name (c ! slot_of f d) = f \<and>
      (\<forall>e<d. rc_hash (c ! slot_of f e) \<noteq> 0 \<and> rc_name (c ! slot_of f e) \<noteq> f)"
    unfolding cache_holds_def by blast
  then obtain d where d: "rc_hash (c ! slot_of f d) \<noteq> 0" "rc_name (c ! slot_of f d) = f"
      "\<And>e. e < d \<Longrightarrow> rc_hash (c ! slot_of f e) \<noteq> 0 \<and> rc_name (c ! slot_of f e) \<noteq> f" by blast
  have "\<forall>i<REAL_CACHE_SLOTS. rc_hash (c ! i) \<noteq> 0 \<longrightarrow> M (rc_name (c ! i)) = Some (rc_real (c ! i)) \<and>
      rc_hash (c ! i) = real_name_hash (rc_name (c ! i))" using assms(1) by (simp add: cache_holds_def)
  from spec [OF this, of "slot_of f d"] have here: "rc_hash (c ! slot_of f d) = real_name_hash f" "rc_real (c ! slot_of f d) = a"
    using assms(2) d(1,2) by simp_all
  have "probe (slot_stops c f) (REAL_CACHE_SLOTS - 1) (unat (real_name_hash f) AND (REAL_CACHE_SLOTS - 1)) = Some (slot_of f d)"
    using d here by (intro probe_slot) (auto simp: slot_stops_def)
  then show ?thesis using d here by (simp add: name_slot_lookup_def)
qed

lemma free_slot:
  assumes "cache_holds c M" "card (dom M) < REAL_CACHE_SLOTS"
  shows "\<exists>i<REAL_CACHE_SLOTS. rc_hash (c ! i) = 0"
proof (rule ccontr)
  assume "\<not> ?thesis"
  then have "{i. i < REAL_CACHE_SLOTS \<and> rc_hash (c ! i) \<noteq> 0} = {..<REAL_CACHE_SLOTS}" by auto
  then show False using assms by (simp add: cache_holds_def)
qed

lemma miss_slot:
  assumes "cache_holds c M" "card (dom M) < REAL_CACHE_SLOTS" "f \<notin> dom M"
  shows "\<exists>d. probe (slot_stops c f) (REAL_CACHE_SLOTS - 1) (unat (real_name_hash f) AND (REAL_CACHE_SLOTS - 1)) = Some (slot_of f d) \<and>
    rc_hash (c ! slot_of f d) = 0 \<and> (\<forall>e<d. rc_hash (c ! slot_of f e) \<noteq> 0)"
proof -
  have stops: "slot_stops c f i \<longleftrightarrow> rc_hash (c ! i) = 0" if "i < REAL_CACHE_SLOTS" for i
    using assms(1,3) that by (auto simp: slot_stops_def Let_def cache_holds_def)
  obtain i where "i < 2 ^ 11" "slot_stops c f i" using free_slot [OF assms(1,2)] stops by (auto simp: slots_pow)
  from probe_ends [of i 11 "slot_stops c f", OF this, of "unat (real_name_hash f)"] obtain d where
    d: "probe (slot_stops c f) (REAL_CACHE_SLOTS - 1) (unat (real_name_hash f) mod REAL_CACHE_SLOTS) = Some (slot_of f d)"
      "slot_stops c f (slot_of f d)" "\<forall>e<d. \<not> slot_stops c f (slot_of f e)" unfolding slot_of_def slots_pow by blast
  then show ?thesis unfolding slots_and by (auto simp: stops)
qed

lemma insert_holds:
  assumes c: "cache_holds c M" and f: "f \<notin> dom M" "keepable f"
    and free: "rc_hash (c ! slot_of f d) = 0" "\<forall>e<d. rc_hash (c ! slot_of f e) \<noteq> 0"
  shows "cache_holds (c[slot_of f d := \<lparr>rc_hash = real_name_hash f, rc_real = a, rc_name = f, rc_proto = p\<rparr>]) (M(f \<mapsto> a))"
    (is "cache_holds ?c ?M")
proof -
  let ?i = "slot_of f d"
  have len: "length c = REAL_CACHE_SLOTS" and fin: "finite (dom M)" using c by (auto simp: cache_holds_def)
  have h: "real_name_hash f \<noteq> 0" using f(2) by (simp add: keepable_def)
  have keep: "?c ! j = c ! j" if "rc_hash (c ! j) \<noteq> 0" for j using that free(1) by (cases "j = ?i") auto
  have here: "?c ! ?i = \<lparr>rc_hash = real_name_hash f, rc_real = a, rc_name = f, rc_proto = p\<rparr>" using len by simp
  have old: "rc_name (c ! j) \<noteq> f" if "rc_hash (c ! j) \<noteq> 0" "j < REAL_CACHE_SLOTS" for j
    using c f(1) that by (auto simp: cache_holds_def)
  have occ: "?M (rc_name (?c ! j)) = Some (rc_real (?c ! j)) \<and> rc_hash (?c ! j) = real_name_hash (rc_name (?c ! j))"
    if "j < REAL_CACHE_SLOTS" "rc_hash (?c ! j) \<noteq> 0" for j
  proof (cases "j = ?i")
    case False
    then have "rc_hash (c ! j) \<noteq> 0" "?c ! j = c ! j" using that(2) by auto
    then show ?thesis using c that(1) old [of j] by (auto simp: cache_holds_def)
  qed (simp add: here)
  have met: "\<exists>d. rc_hash (?c ! slot_of g d) \<noteq> 0 \<and> rc_name (?c ! slot_of g d) = g \<and>
      (\<forall>e<d. rc_hash (?c ! slot_of g e) \<noteq> 0 \<and> rc_name (?c ! slot_of g e) \<noteq> g)" if "g \<in> dom ?M" for g
  proof (cases "g = f")
    case True
    then show ?thesis using here h free(2) keep old by (intro exI [of _ d]) auto
  next
    case False
    then have "g \<in> dom M" using that by auto
    then show ?thesis using c keep unfolding cache_holds_def by (metis (no_types, lifting))
  qed
  have "{j. j < REAL_CACHE_SLOTS \<and> rc_hash (?c ! j) \<noteq> 0} \<subseteq> insert ?i {j. j < REAL_CACHE_SLOTS \<and> rc_hash (c ! j) \<noteq> 0}"
    by (auto simp: nth_list_update split: if_splits)
  then have "card {j. j < REAL_CACHE_SLOTS \<and> rc_hash (?c ! j) \<noteq> 0} \<le> card (insert ?i {j. j < REAL_CACHE_SLOTS \<and> rc_hash (c ! j) \<noteq> 0})"
    by (intro card_mono) auto
  also have "\<dots> \<le> Suc (card (dom M))" using c by (auto simp: cache_holds_def card_insert_if)
  also have "\<dots> = card (dom ?M)" using f(1) fin by simp
  finally show ?thesis using occ met len fin by (simp add: cache_holds_def)
qed

lemma lookup_miss:
  assumes "cache_holds c M" "f \<notin> dom M" "keepable f" "card (dom M) < REAL_CACHE_SLOTS"
  shows "\<exists>i c'. name_slot_lookup m g True f c = Some (Some i, retrace_real_impl_resolve m g f, c') \<and>
    cache_holds c' (M(f \<mapsto> retrace_real_impl_resolve m g f)) \<and> i < REAL_CACHE_SLOTS \<and> rc_name (c' ! i) = f \<and> rc_hash (c' ! i) \<noteq> 0"
proof -
  from miss_slot [OF assms(1,4,2)] obtain d where
    d: "probe (slot_stops c f) (REAL_CACHE_SLOTS - 1) (unat (real_name_hash f) AND (REAL_CACHE_SLOTS - 1)) = Some (slot_of f d)"
      "rc_hash (c ! slot_of f d) = 0" "\<forall>e<d. rc_hash (c ! slot_of f e) \<noteq> 0" by blast
  have len: "length c = REAL_CACHE_SLOTS" using assms(1) by (simp add: cache_holds_def)
  have name: "take (MAXLEN_FUNC_NAME - 1) f = f" "real_name_hash f \<noteq> 0" using assms(3) by (auto simp: keepable_def)
  let ?a = "retrace_real_impl_resolve m g f"
  let ?c = "c[slot_of f d := \<lparr>rc_hash = real_name_hash f, rc_real = ?a, rc_name = f, rc_proto = None\<rparr>]"
  have "name_slot_lookup m g True f c = Some (Some (slot_of f d), ?a, ?c)"
    using d(1,2) name by (simp add: name_slot_lookup_def Let_def)
  then show ?thesis using insert_holds [OF assms(1-3) d(2,3), of ?a None] len name by (intro exI) auto
qed

text \<open>
  One look-up refines the memo on the abstract map: a known name is answered from the map,
  an unknown one by the resolver, and the answer is kept.
\<close>

lemma lookup_refines:
  assumes "cache_holds c M" "keepable f" "card (dom M) < REAL_CACHE_SLOTS \<or> f \<in> dom M"
  shows "\<exists>i c'. name_slot_lookup m g True f c =
      Some (Some i, case M f of None \<Rightarrow> retrace_real_impl_resolve m g f | Some a \<Rightarrow> a, c') \<and>
    cache_holds c' (M(f \<mapsto> case M f of None \<Rightarrow> retrace_real_impl_resolve m g f | Some a \<Rightarrow> a)) \<and>
    i < REAL_CACHE_SLOTS \<and> rc_name (c' ! i) = f \<and> rc_hash (c' ! i) \<noteq> 0"
proof (cases "M f")
  case None
  then show ?thesis using lookup_miss [OF assms(1) _ assms(2)] assms(3) by auto
next
  case (Some a)
  then show ?thesis using lookup_hit [OF assms(1) Some assms(2), of m g] assms(1)
    by (metis map_upd_triv option.simps(5))
qed

subsection \<open>Sequences of look-ups\<close>

fun lookup_run ::
    "real_members \<Rightarrow> (nat \<Rightarrow> cstr \<Rightarrow> addr) \<Rightarrow> nat \<Rightarrow> cstr list \<Rightarrow> real_cache_el list \<Rightarrow> (addr list \<times> real_cache_el list) option" where
  "lookup_run m g i [] c = Some ([], c)"
| "lookup_run m g i (f # fs) c =
     (case name_slot_lookup m (g i) True f c of
        None \<Rightarrow> None
      | Some (_, r, c1) \<Rightarrow> map_option (apfst (Cons r)) (lookup_run m g (Suc i) fs c1))"

definition first_at :: "cstr \<Rightarrow> cstr list \<Rightarrow> nat" where
  "first_at f fs = length (takeWhile (\<lambda>x. x \<noteq> f) fs)"

definition kept :: "real_members \<Rightarrow> (nat \<Rightarrow> cstr \<Rightarrow> addr) \<Rightarrow> cstr list \<Rightarrow> cstr \<rightharpoonup> addr" where
  "kept m g ps = (\<lambda>f. if f \<in> set ps then Some (retrace_real_impl_resolve m (g (first_at f ps)) f) else None)"

lemma first_at_known: "f \<in> set ps \<Longrightarrow> first_at f (ps @ qs) = first_at f ps"
  by (auto simp: first_at_def takeWhile_append1)

lemma first_at_new: "f \<notin> set ps \<Longrightarrow> first_at f (ps @ f # qs) = length ps"
  by (simp add: first_at_def takeWhile_append)

lemma dom_kept: "dom (kept m g ps) = set ps"
  by (auto simp: kept_def split: if_splits)

lemma kept_snoc:
  "kept m g (ps @ [f]) = (kept m g ps)(f \<mapsto> case kept m g ps f of None \<Rightarrow> retrace_real_impl_resolve m (g (length ps)) f | Some a \<Rightarrow> a)"
  by (rule ext) (auto simp: kept_def first_at_known first_at_new [of _ _ "[]"])

lemma lookup_run_kept:
  assumes "cache_holds c (kept m g ps)" "list_all keepable fs" "card (set (ps @ fs)) \<le> REAL_CACHE_SLOTS"
  shows "\<exists>c'. lookup_run m g (length ps) fs c =
    Some (map (\<lambda>f. retrace_real_impl_resolve m (g (first_at f (ps @ fs))) f) fs, c')"
  using assms
proof (induction fs arbitrary: ps c)
  case (Cons f fs)
  have "card (set ps) < REAL_CACHE_SLOTS \<or> f \<in> set ps"
  proof (rule disjCI)
    assume "f \<notin> set ps"
    then have "card (insert f (set ps)) = Suc (card (set ps))" by simp
    moreover have "card (insert f (set ps)) \<le> card (set (ps @ f # fs))" by (intro card_mono) auto
    ultimately show "card (set ps) < REAL_CACHE_SLOTS" using Cons.prems(3) by simp
  qed
  then obtain i c' where
    l: "name_slot_lookup m (g (length ps)) True f c =
        Some (Some i, case kept m g ps f of None \<Rightarrow> retrace_real_impl_resolve m (g (length ps)) f | Some a \<Rightarrow> a, c')"
      "cache_holds c' (kept m g (ps @ [f]))"
    using lookup_refines [OF Cons.prems(1), of f m "g (length ps)"] Cons.prems(2) by (auto simp: dom_kept kept_snoc)
  have now: "(case kept m g ps f of None \<Rightarrow> retrace_real_impl_resolve m (g (length ps)) f | Some a \<Rightarrow> a) =
      retrace_real_impl_resolve m (g (first_at f (ps @ f # fs))) f"
    by (auto simp: kept_def first_at_known first_at_new)
  show ?case using Cons.IH [OF l(2)] Cons.prems(2,3) l(1) by (auto simp: now)
qed simp

text \<open>
  The table resolves each function once.  Whatever the loader answers at each time,
  any sequence of look-ups of at most 2048 functions whose names a slot can keep returns,
  and every look-up of a function gives the implementation resolved at the first one,
  with the start-up members in place of the loader for \<open>free\<close> and \<open>malloc\<close>.
\<close>

theorem real_cache_resolves_once:
  assumes "list_all keepable fs" "card (set fs) \<le> REAL_CACHE_SLOTS"
  shows "\<exists>c. lookup_run m g 0 fs empty_real_cache =
    Some (map (\<lambda>f. retrace_real_impl_resolve m (g (first_at f fs)) f) fs, c)"
proof -
  have "kept m g [] = Map.empty" by (rule ext) (simp add: kept_def)
  then show ?thesis using lookup_run_kept [of empty_real_cache m g "[]" fs] assms cache_holds_empty by simp
qed

theorem real_cache_resolves_once_witness:
  "\<exists>c. lookup_run \<lparr>rm_strcmp = 1, rm_free = 0, rm_malloc = 77\<rparr> (\<lambda>i f. of_nat (100 + i)) 0
      [''open'', ''malloc'', ''open''] empty_real_cache = Some ([100, 77, 100], c)"
proof -
  have "list_all keepable [''open'', ''malloc'', ''open'']" by code_simp
  moreover have "card (set [''open'', ''malloc'', ''open'']) \<le> REAL_CACHE_SLOTS"
    by (rule order_trans [OF card_length]) (simp add: REAL_CACHE_SLOTS_def)
  ultimately show ?thesis
    using real_cache_resolves_once [of "[''open'', ''malloc'', ''open'']"
        "\<lparr>rm_strcmp = 1, rm_free = 0, rm_malloc = 77\<rparr>" "\<lambda>i f. of_nat (100 + i)"]
    by (simp add: first_at_def retrace_real_impl_resolve_def del: lookup_run.simps)
qed

end
