(* ===== verification/Data_Types.thy ===== *)
theory Data_Types
  imports Name_Registry
begin

unbundle bit_operations_syntax

section \<open>Data types and printf arguments (\<open>src/src/core/data_types.c\<close>, \<open>printf_compat.h\<close>)\<close>

text \<open>
  The data type registry with the table that maps printf argument types to data types,
  the decoding of an argument type, and the format scanner used where the C library
  has none.  A read outside a table is \<open>None\<close>.
\<close>

definition MAXCOUNT_DT_HASH_ENTRIES :: nat where "MAXCOUNT_DT_HASH_ENTRIES = 16"

subsection \<open>Registration\<close>

abbreviation (input) "PBT_UNK \<equiv> 0 :: nat"
abbreviation (input) "PBT_INT \<equiv> 1 :: nat"
abbreviation (input) "PBT_CHAR \<equiv> 2 :: nat"
abbreviation (input) "PBT_POINTER \<equiv> 4 :: nat"
abbreviation (input) "PBT_CNT \<equiv> 7 :: nat"
abbreviation (input) "PFM_UNK \<equiv> 0 :: nat"
abbreviation (input) "PFM_PTR \<equiv> 1 :: nat"
abbreviation (input) "PFM_SHORT \<equiv> 2 :: nat"
abbreviation (input) "PFM_LONG \<equiv> 3 :: nat"
abbreviation (input) "PFM_LONG_LONG \<equiv> 4 :: nat"
abbreviation (input) "PFM_CNT \<equiv> 5 :: nat"

text \<open>
  A data type names one of the families of four functions (print, size of the print,
  conversion to \<open>size_t\<close>, size of the object); every table entry takes its four
  functions from one family.  The list of members is empty for anything but structures.
\<close>

datatype dt_family = FUnk | FInt | FUint | FInt16 | FLong | FUlong | FLonglong | FSz | FSizet | FChar | FPtr | FStruct

record struct_member =
  sm_name :: cstr
  sm_type :: cstr
  sm_modifiers :: "32 word"
  sm_ref_type_name :: cstr
  sm_array_cnt :: nat

record data_type =
  dt_name :: cstr
  dt_pa_basic_type :: nat
  dt_pa_flag :: nat
  dt_value_size :: nat
  dt_family :: dt_family
  dt_struct_members :: "struct_member list"

record dt_tables =
  dts_hash :: "data_type list list"
  gnu_fmt_to_dt :: "data_type option list list"

definition fmt_add :: "data_type \<Rightarrow> data_type option list list \<Rightarrow> data_type option list list option" where
  "fmt_add p tab =
     (if dt_pa_basic_type p \<ge> PBT_CNT then None
      else if dt_pa_flag p \<ge> PFM_CNT then None
      else if dt_pa_basic_type p \<noteq> PBT_UNK then
        (if tab ! dt_pa_basic_type p ! dt_pa_flag p \<noteq> None then None
         else Some (tab[dt_pa_basic_type p := (tab ! dt_pa_basic_type p)[dt_pa_flag p := Some p]]))
      else Some tab)"

fun datatypes_loop :: "(nat \<Rightarrow> bool) \<Rightarrow> nat \<Rightarrow> data_type list \<Rightarrow> dt_tables \<Rightarrow> (int \<times> dt_tables) option" where
  "datatypes_loop malloc_ok i [] t = Some (0, t)"
| "datatypes_loop malloc_ok i (p # ps) t =
     (let h = hash_string MAXCOUNT_DT_HASH_ENTRIES (dt_name p) in
      case chain_add dt_name (malloc_ok i) p (dts_hash t ! h) of
        Exists \<Rightarrow> Some (-1, t)
      | NullWrite \<Rightarrow> None
      | Chained chain \<Rightarrow>
          let t1 = t\<lparr>dts_hash := (dts_hash t)[h := chain]\<rparr> in
          (case fmt_add p (gnu_fmt_to_dt t1) of
             None \<Rightarrow> Some (-1, t1)
           | Some tab \<Rightarrow> datatypes_loop malloc_ok (Suc i) ps (t1\<lparr>gnu_fmt_to_dt := tab\<rparr>)))"

definition retrace_datatypes_init :: "(nat \<Rightarrow> bool) \<Rightarrow> data_type list \<Rightarrow> dt_tables \<Rightarrow> (int \<times> dt_tables) option" where
  "retrace_datatypes_init malloc_ok types t = datatypes_loop malloc_ok 0 types t"

definition retrace_datatype_get :: "cstr \<Rightarrow> dt_tables \<Rightarrow> data_type option" where
  "retrace_datatype_get name t =
     registry_get (hash_string MAXCOUNT_DT_HASH_ENTRIES) dt_name name (dts_hash t)"

definition no_types :: dt_tables where
  "no_types = \<lparr>dts_hash = replicate MAXCOUNT_DT_HASH_ENTRIES [],
     gnu_fmt_to_dt = replicate PBT_CNT (replicate PFM_CNT None)\<rparr>"

interpretation dtr: name_registry MAXCOUNT_DT_HASH_ENTRIES "hash_string MAXCOUNT_DT_HASH_ENTRIES" dt_name
  by unfold_locales (rule hash_string_less; simp add: MAXCOUNT_DT_HASH_ENTRIES_def)

subsection \<open>Decoding an argument type\<close>

record pa_flags =
  PA_FLAG_SHORT :: int
  PA_FLAG_LONG :: int
  PA_FLAG_LONG_LONG :: int
  PA_FLAG_LONG_DOUBLE :: int
  PA_FLAG_PTR :: int
  PA_FLAG_MASK :: int

text \<open>The values of \<open>printf_compat.h\<close>, and those of the GNU C library's \<open>printf.h\<close>.\<close>

definition compat_flags :: pa_flags where
  "compat_flags = \<lparr>PA_FLAG_SHORT = 0x04, PA_FLAG_LONG = 0x08, PA_FLAG_LONG_LONG = 0x10, PA_FLAG_LONG_DOUBLE = 0x20,
     PA_FLAG_PTR = 0x100, PA_FLAG_MASK = 0x100 OR 0x20 OR 0x10 OR 0x08 OR 0x04\<rparr>"

definition glibc_flags :: pa_flags where
  "glibc_flags = \<lparr>PA_FLAG_SHORT = 0x400, PA_FLAG_LONG = 0x200, PA_FLAG_LONG_LONG = 0x100, PA_FLAG_LONG_DOUBLE = 0x100,
     PA_FLAG_PTR = 0x800, PA_FLAG_MASK = 0xff00\<rparr>"

definition gnu_fmt_to_pbt :: "nat list" where
  "gnu_fmt_to_pbt = [PBT_INT, PBT_CHAR, PBT_UNK, PBT_POINTER, PBT_UNK, PBT_POINTER, PBT_UNK, PBT_UNK]"

definition gnu_modflag_to_pfm :: "pa_flags \<Rightarrow> int \<Rightarrow> nat" where
  "gnu_modflag_to_pfm fl pa_flag =
     (if pa_flag = PA_FLAG_LONG_LONG fl \<or> pa_flag = PA_FLAG_LONG_DOUBLE fl then PFM_LONG_LONG
      else if pa_flag = PA_FLAG_LONG fl then PFM_LONG
      else if pa_flag = PA_FLAG_SHORT fl then PFM_SHORT
      else if pa_flag = PA_FLAG_PTR fl then PFM_PTR
      else PFM_UNK)"

definition unk_dt :: data_type where
  "unk_dt = \<lparr>dt_name = ''unknown_type'', dt_pa_basic_type = 0, dt_pa_flag = 0, dt_value_size = 0, dt_family = FUnk,
     dt_struct_members = []\<rparr>"

text \<open>
  The bound is tested on addresses: the address of the element against the address
  after the whole array, in bytes of 4 per element.
\<close>

definition retrace_datatype_printf_to_dt :: "pa_flags \<Rightarrow> int \<Rightarrow> dt_tables \<Rightarrow> data_type option" where
  "retrace_datatype_printf_to_dt fl argtype t =
     (let basic_type = argtype AND (NOT (PA_FLAG_MASK fl));
          flag_mod = argtype AND PA_FLAG_MASK fl in
      if 4 * basic_type > 4 * int (length gnu_fmt_to_pbt) then Some unk_dt
      else if basic_type < 0 \<or> basic_type \<ge> int (length gnu_fmt_to_pbt) then None
      else
        let b = gnu_fmt_to_pbt ! nat basic_type; f = gnu_modflag_to_pfm fl flag_mod in
        case gnu_fmt_to_dt t ! b ! f of
          None \<Rightarrow> Some unk_dt
        | Some dt \<Rightarrow> Some dt)"

subsection \<open>Scanning a format\<close>

abbreviation (input) "PA_INT \<equiv> 0 :: int"
abbreviation (input) "PA_CHAR \<equiv> 1 :: int"
abbreviation (input) "PA_WCHAR \<equiv> 2 :: int"
abbreviation (input) "PA_STRING \<equiv> 3 :: int"
abbreviation (input) "PA_WSTRING \<equiv> 4 :: int"
abbreviation (input) "PA_POINTER \<equiv> 5 :: int"
abbreviation (input) "PA_DOUBLE \<equiv> 7 :: int"

text \<open>
  The two counters of the source move together and are one here.  The caller's array is
  an option, \<open>None\<close> being \<open>NULL\<close>.
\<close>

definition ppf_store :: "int \<Rightarrow> nat \<Rightarrow> int \<Rightarrow> int list option \<Rightarrow> int list option" where
  "ppf_store n i v argtypes = (if n > 0 \<and> int i < n then map_option (\<lambda>xs. xs[i := v]) argtypes else argtypes)"

definition ppf_flags :: "cstr \<Rightarrow> cstr" where
  "ppf_flags p = dropWhile (\<lambda>c. c \<in> set ''-+ #0'' \<or> c = CHR 0x27) p"

definition ppf_star :: "int \<Rightarrow> cstr \<Rightarrow> nat \<Rightarrow> int list option \<Rightarrow> cstr \<times> nat \<times> int list option" where
  "ppf_star n p count argtypes =
     (if cget p 0 = CHR ''*'' then (tl p, count + 1, ppf_store n count PA_INT argtypes)
      else (dropWhile (in_range (CHR ''0'') (CHR ''9'')) p, count, argtypes))"

definition ppf_prec :: "int \<Rightarrow> cstr \<Rightarrow> nat \<Rightarrow> int list option \<Rightarrow> cstr \<times> nat \<times> int list option" where
  "ppf_prec n p count argtypes = (if cget p 0 = CHR ''.'' then ppf_star n (tl p) count argtypes else (p, count, argtypes))"

definition ppf_length :: "cstr \<Rightarrow> int \<times> cstr" where
  "ppf_length p =
     (if cget p 0 = CHR ''h'' \<and> cget p 1 = CHR ''h'' then (PA_FLAG_SHORT compat_flags, drop 2 p)
      else if cget p 0 = CHR ''l'' \<and> cget p 1 = CHR ''l'' then (PA_FLAG_LONG_LONG compat_flags, drop 2 p)
      else if cget p 0 = CHR ''h'' then (PA_FLAG_SHORT compat_flags, tl p)
      else if cget p 0 = CHR ''l'' then (PA_FLAG_LONG compat_flags, tl p)
      else if cget p 0 = CHR ''L'' then (PA_FLAG_LONG_DOUBLE compat_flags, tl p)
      else if cget p 0 \<in> set ''jztq'' then (PA_FLAG_LONG_LONG compat_flags, tl p)
      else (0, p))"

text \<open>The conversion: its base type, whether it is floating point, and where the scan goes on.\<close>

definition ppf_conv :: "cstr \<Rightarrow> int \<times> bool \<times> cstr" where
  "ppf_conv p =
     (let c = cget p 0 in
      if c \<in> set ''diuxXo'' then (PA_INT, False, tl p)
      else if c = CHR ''c'' then (PA_CHAR, False, tl p)
      else if c = CHR ''C'' then (PA_WCHAR, False, tl p)
      else if c = CHR ''s'' then (PA_STRING, False, tl p)
      else if c = CHR ''S'' then (PA_WSTRING, False, tl p)
      else if c = CHR ''p'' then (PA_POINTER, False, tl p)
      else if c \<in> set ''fFeEgGaA'' then (PA_DOUBLE, True, p)
      else if c = CHR ''n'' then (PA_POINTER OR PA_FLAG_PTR compat_flags, False, tl p)
      else (PA_INT, False, tl p))"

lemma length_ppf_star: "ppf_star n p c a = (p', r) \<Longrightarrow> length p' \<le> length p"
  by (auto simp: ppf_star_def length_dropWhile_le split: if_splits)

lemma length_ppf_prec: "ppf_prec n p c a = (p', r) \<Longrightarrow> length p' \<le> length p"
  by (auto simp: ppf_prec_def split: if_splits dest: length_ppf_star)

lemma length_ppf_length: "ppf_length p = (f, p') \<Longrightarrow> length p' \<le> length p"
  by (auto simp: ppf_length_def split: if_splits)

lemma length_ppf_conv: "ppf_conv p = (b, f, p') \<Longrightarrow> length p' \<le> length p"
  by (auto simp: ppf_conv_def Let_def split: if_splits)

lemma length_ppf_flags: "length (ppf_flags p) \<le> length p"
  by (simp add: ppf_flags_def length_dropWhile_le)

function ppf_loop :: "int \<Rightarrow> cstr \<Rightarrow> nat \<Rightarrow> bool \<Rightarrow> int list option \<Rightarrow> nat \<times> int list option" where
  "ppf_loop n [] count has_fp argtypes = (if has_fp then 0 else count, argtypes)"
| "ppf_loop n (c # p) count has_fp argtypes =
     (if c \<noteq> CHR ''%'' then ppf_loop n p count has_fp argtypes
      else if cget p 0 = CHR ''%'' then ppf_loop n (tl p) count has_fp argtypes
      else
        let (p2, count2, arg2) = ppf_star n (ppf_flags p) count argtypes;
            (p3, count3, arg3) = ppf_prec n p2 count2 arg2;
            (flag, p4) = ppf_length p3 in
        if p4 = [] then (count3, arg3)
        else
          let (base, fp, p5) = ppf_conv p4 in
          ppf_loop n p5 (count3 + 1) (has_fp \<or> fp) (ppf_store n count3 (base OR flag) arg3))"
  by pat_completeness auto

termination
proof (relation "measure (\<lambda>(n, p, _). length p)", goal_cases)
  case (4 n c p count has_fp argtypes x p2 y count2 arg2 x3 p3 y3 count3 arg3 x4 flag p4 x5 base y5 fp p5)
  have "length p2 \<le> length (ppf_flags p)" by (rule length_ppf_star [where r = "(count2, arg2)"]) (use 4 in simp)
  moreover have "length p3 \<le> length p2" by (rule length_ppf_prec [where r = "(count3, arg3)"]) (use 4 in simp)
  moreover have "length p4 \<le> length p3" by (rule length_ppf_length [where f = flag]) (use 4 in simp)
  moreover have "length p5 \<le> length p4" by (rule length_ppf_conv [where b = base and f = fp]) (use 4 in simp)
  ultimately show ?case using length_ppf_flags [of p] by simp
qed auto

definition parse_printf_format :: "cstr \<Rightarrow> int \<Rightarrow> int list option \<Rightarrow> nat \<times> int list option" where
  "parse_printf_format fmt n argtypes = ppf_loop n fmt 0 False argtypes"

subsection \<open>What registration establishes\<close>

text \<open>The types the printf table can hold, and that it holds exactly those.\<close>

definition fmt_key :: "data_type \<Rightarrow> nat \<times> nat" where
  "fmt_key p = (dt_pa_basic_type p, dt_pa_flag p)"

definition in_fmt :: "data_type \<Rightarrow> bool" where
  "in_fmt p \<longleftrightarrow> dt_pa_basic_type p \<noteq> PBT_UNK"

definition fmt_holds :: "data_type option list list \<Rightarrow> data_type list \<Rightarrow> bool" where
  "fmt_holds tab ps \<longleftrightarrow> length tab = PBT_CNT \<and> (\<forall>b<PBT_CNT. length (tab ! b) = PFM_CNT) \<and>
     (\<forall>b<PBT_CNT. \<forall>f<PFM_CNT. tab ! b ! f = find (\<lambda>p. in_fmt p \<and> fmt_key p = (b, f)) ps)"

definition types_ok :: "data_type list \<Rightarrow> bool" where
  "types_ok ps \<longleftrightarrow> distinct (map dt_name ps) \<and>
     (\<forall>p\<in>set ps. dt_pa_basic_type p < PBT_CNT \<and> dt_pa_flag p < PFM_CNT) \<and> distinct (map fmt_key (filter in_fmt ps))"

lemma find_append: "find P (xs @ ys) = (case find P xs of None \<Rightarrow> find P ys | Some x \<Rightarrow> Some x)"
  by (induction xs) auto

lemma fmt_add_holds:
  assumes "fmt_holds tab ps"
  shows "if dt_pa_basic_type p < PBT_CNT \<and> dt_pa_flag p < PFM_CNT \<and> (in_fmt p \<longrightarrow> fmt_key p \<notin> fmt_key ` set (filter in_fmt ps))
    then \<exists>tab'. fmt_add p tab = Some tab' \<and> fmt_holds tab' (ps @ [p]) else fmt_add p tab = None"
proof -
  let ?b = "dt_pa_basic_type p" and ?f = "dt_pa_flag p"
  show ?thesis
  proof (cases "?b < PBT_CNT \<and> ?f < PFM_CNT")
    case False
    then show ?thesis by (auto simp: fmt_add_def)
  next
    case True
    have cell: "tab ! ?b ! ?f = find (\<lambda>q. in_fmt q \<and> fmt_key q = fmt_key p) ps"
      using assms True by (simp add: fmt_holds_def fmt_key_def)
    have taken: "tab ! ?b ! ?f = None \<longleftrightarrow> fmt_key p \<notin> fmt_key ` set (filter in_fmt ps)"
      unfolding cell find_None_iff by (auto simp: image_iff)
    show ?thesis
    proof (cases "in_fmt p")
      case False
      then have "fmt_add p tab = Some tab" using True by (simp add: fmt_add_def in_fmt_def)
      moreover have "fmt_holds tab (ps @ [p])" using assms False by (auto simp: fmt_holds_def find_append split: option.split)
      ultimately show ?thesis using True False by simp
    next
      case inf: True
      show ?thesis
      proof (cases "tab ! ?b ! ?f")
        case (Some q)
        then have "fmt_add p tab = None" using True inf by (simp add: fmt_add_def in_fmt_def)
        then show ?thesis using taken Some True inf by simp
      next
        case None
        let ?tab = "tab[?b := (tab ! ?b)[?f := Some p]]"
        have "fmt_add p tab = Some ?tab" using True inf None by (simp add: fmt_add_def in_fmt_def)
        moreover have "fmt_holds ?tab (ps @ [p])"
          unfolding fmt_holds_def
        proof (intro conjI allI impI)
          fix b f assume "b < PBT_CNT" "f < PFM_CNT"
          then have old: "tab ! b ! f = find (\<lambda>q. in_fmt q \<and> fmt_key q = (b, f)) ps"
            using assms by (simp add: fmt_holds_def)
          have len: "length tab = PBT_CNT" "length (tab ! ?b) = PFM_CNT" using assms True by (simp_all add: fmt_holds_def)
          show "?tab ! b ! f = find (\<lambda>q. in_fmt q \<and> fmt_key q = (b, f)) (ps @ [p])"
          proof (cases "(b, f) = fmt_key p")
            case True
            then show ?thesis using None cell len inf \<open>b < PBT_CNT\<close> \<open>f < PFM_CNT\<close>
              by (auto simp: find_append fmt_key_def)
          next
            case False
            then have "?tab ! b ! f = tab ! b ! f" using len \<open>b < PBT_CNT\<close> by (cases "b = ?b") (auto simp: fmt_key_def)
            then show ?thesis using old False by (auto simp: find_append split: option.split)
          qed
        qed (use assms True in \<open>auto simp: fmt_holds_def nth_list_update\<close>)
        ultimately show ?thesis using taken None True inf by simp
      qed
    qed
  qed
qed

lemma and_not_disjoint: "(a :: int) AND m = 0 \<Longrightarrow> a AND NOT m = a"
proof (rule bit_eqI)
  fix n assume "a AND m = 0"
  then have "\<not> bit (a AND m) n" by simp
  then show "bit (a AND NOT m) n \<longleftrightarrow> bit a n" by (auto simp: bit_and_iff bit_not_iff)
qed

lemma types_ok_snoc:
  "types_ok (ps @ [p]) \<longleftrightarrow> types_ok ps \<and> dt_name p \<notin> dt_name ` set ps \<and>
     dt_pa_basic_type p < PBT_CNT \<and> dt_pa_flag p < PFM_CNT \<and> (in_fmt p \<longrightarrow> fmt_key p \<notin> fmt_key ` set (filter in_fmt ps))"
  by (auto simp: types_ok_def)

lemma types_ok_append: "types_ok (ps @ qs) \<Longrightarrow> types_ok ps"
  by (auto simp: types_ok_def)

lemma datatypes_loop_holds:
  assumes "dtr.holds (dts_hash t) ps" "fmt_holds (gnu_fmt_to_dt t) ps" "types_ok ps" "\<forall>i. malloc_ok i"
  shows "\<exists>rc t'. datatypes_loop malloc_ok i qs t = Some (rc, t') \<and> (rc = 0 \<longleftrightarrow> types_ok (ps @ qs)) \<and>
    (rc = 0 \<longrightarrow> dtr.holds (dts_hash t') (ps @ qs) \<and> fmt_holds (gnu_fmt_to_dt t') (ps @ qs))"
  using assms(1-3)
proof (induction qs arbitrary: i ps t)
  case Nil
  then show ?case by simp
next
  case (Cons q qs)
  let ?h = "hash_string MAXCOUNT_DT_HASH_ENTRIES (dt_name q)"
  have bad: "\<not> types_ok (ps @ q # qs)" if "\<not> types_ok (ps @ [q])"
    using that types_ok_append [of "ps @ [q]" qs] by auto
  note add = dtr.add_holds [OF Cons.prems(1), of "malloc_ok i" q]
  note fmt = fmt_add_holds [OF Cons.prems(2), of q]
  show ?case
  proof (cases "dt_name q \<in> dt_name ` set ps")
    case True
    then have "datatypes_loop malloc_ok i (q # qs) t = Some (-1, t)" using add assms(4) by simp
    moreover have "\<not> types_ok (ps @ [q])" using True by (simp add: types_ok_snoc)
    ultimately show ?thesis using bad by simp
  next
    case False
    then obtain chain where chain: "chain_add dt_name (malloc_ok i) q (dts_hash t ! ?h) = Chained chain"
        "dtr.holds ((dts_hash t)[?h := chain]) (ps @ [q])" using add assms(4) by auto
    show ?thesis
    proof (cases "types_ok (ps @ [q])")
      case True
      then obtain tab where tab: "fmt_add q (gnu_fmt_to_dt t) = Some tab" "fmt_holds tab (ps @ [q])"
        using fmt by (auto simp: types_ok_snoc)
      let ?t = "t\<lparr>dts_hash := (dts_hash t)[?h := chain], gnu_fmt_to_dt := tab\<rparr>"
      have "datatypes_loop malloc_ok i (q # qs) t = datatypes_loop malloc_ok (Suc i) qs ?t"
        using chain(1) tab(1) by (simp add: Let_def)
      then show ?thesis using Cons.IH [of ?t "ps @ [q]" "Suc i"] chain(2) tab(2) True by simp
    next
      case False
      then have "fmt_add q (gnu_fmt_to_dt t) = None"
        using fmt Cons.prems(3) \<open>dt_name q \<notin> dt_name ` set ps\<close> by (auto simp: types_ok_snoc split: if_splits)
      then show ?thesis using chain(1) bad [OF False] by (simp add: Let_def)
    qed
  qed
qed

lemma no_types_holds: "dtr.holds (dts_hash no_types) []" "fmt_holds (gnu_fmt_to_dt no_types) []" "types_ok []"
  using dtr.holds_empty by (simp_all add: no_types_def fmt_holds_def types_ok_def)

text \<open>
  Registering data types succeeds exactly when no two share a name, every printf
  type and modifier is in range, and no two claim the same printf argument type.  After it a
  look-up by name gives the type of that name, and the decoding of an argument type
  gives the registered type for its base type and modifier, or the unknown type.
\<close>

theorem datatypes_registry:
  assumes "\<forall>i. malloc_ok i"
  shows "\<exists>rc t. retrace_datatypes_init malloc_ok types no_types = Some (rc, t) \<and> (rc = 0 \<longleftrightarrow> types_ok types) \<and>
    (rc = 0 \<longrightarrow> (\<forall>name. retrace_datatype_get name t = find (\<lambda>p. dt_name p = name) types) \<and>
       (\<forall>fl base flag. 0 \<le> base \<and> base < 8 \<and> base AND PA_FLAG_MASK fl = 0 \<and> flag AND PA_FLAG_MASK fl = flag \<longrightarrow>
          retrace_datatype_printf_to_dt fl (base OR flag) t =
            Some (case find (\<lambda>p. in_fmt p \<and> fmt_key p = (gnu_fmt_to_pbt ! nat base, gnu_modflag_to_pfm fl flag)) types of
                    None \<Rightarrow> unk_dt | Some dt \<Rightarrow> dt)))"
proof -
  from datatypes_loop_holds [OF no_types_holds assms, of 0 types] obtain rc t where
    r: "retrace_datatypes_init malloc_ok types no_types = Some (rc, t)" "rc = 0 \<longleftrightarrow> types_ok types"
      "rc = 0 \<Longrightarrow> dtr.holds (dts_hash t) types" "rc = 0 \<Longrightarrow> fmt_holds (gnu_fmt_to_dt t) types"
    unfolding append_Nil retrace_datatypes_init_def by blast
  have dec: "retrace_datatype_printf_to_dt fl (base OR flag) t =
      Some (case find (\<lambda>p. in_fmt p \<and> fmt_key p = (gnu_fmt_to_pbt ! nat base, gnu_modflag_to_pfm fl flag)) types of
              None \<Rightarrow> unk_dt | Some dt \<Rightarrow> dt)"
    if "rc = 0" "0 \<le> base" "base < 8" "base AND PA_FLAG_MASK fl = 0" "flag AND PA_FLAG_MASK fl = flag" for fl base flag
  proof -
    have "(base OR flag) AND PA_FLAG_MASK fl = flag" using that(4,5) by (simp add: bit.conj_disj_distrib2)
    moreover have "(base OR flag) AND NOT (PA_FLAG_MASK fl) = base"
    proof -
      have "base AND NOT (PA_FLAG_MASK fl) = base"
        by (rule and_not_disjoint) (rule that(4))
      moreover have "flag AND NOT (PA_FLAG_MASK fl) = 0"
        using that(5) by (metis and.assoc bit.conj_cancel_right bit.conj_zero_right)
      ultimately show ?thesis by (simp add: bit.conj_disj_distrib2)
    qed
    moreover have "gnu_fmt_to_pbt ! nat base < PBT_CNT"
      using that(2,3) by (auto simp: gnu_fmt_to_pbt_def nth_Cons' )
    moreover have "gnu_modflag_to_pfm fl flag < PFM_CNT" by (simp add: gnu_modflag_to_pfm_def)
    ultimately show ?thesis using r(4) [OF that(1)] that(2,3)
      by (simp add: retrace_datatype_printf_to_dt_def Let_def fmt_holds_def gnu_fmt_to_pbt_def split: option.split)
  qed
  show ?thesis using r(1,2) dec dtr.get_holds [OF r(3)] by (auto simp: retrace_datatype_get_def)
qed

definition scalar_type :: "cstr \<Rightarrow> nat \<Rightarrow> nat \<Rightarrow> nat \<Rightarrow> dt_family \<Rightarrow> data_type" where
  "scalar_type name value_size pa_basic_type pa_flag family =
     \<lparr>dt_name = name, dt_pa_basic_type = pa_basic_type, dt_pa_flag = pa_flag, dt_value_size = value_size, dt_family = family,
      dt_struct_members = []\<rparr>"

definition basic_datatypes :: "data_type list" where
  "basic_datatypes =
     [scalar_type ''int'' 4 PBT_INT PFM_UNK FInt,
      scalar_type ''unsigned int'' 4 PBT_UNK PFM_UNK FUint,
      scalar_type ''int16_t'' 2 PBT_INT PFM_SHORT FInt16,
      scalar_type ''long'' 8 PBT_INT PFM_LONG FLong,
      scalar_type ''unsigned long'' 8 PBT_UNK PFM_UNK FUlong,
      scalar_type ''long long'' 8 PBT_INT PFM_LONG_LONG FLonglong,
      scalar_type ''sz'' 8 PBT_UNK PFM_UNK FSz,
      scalar_type ''size_t'' 8 PBT_UNK PFM_UNK FSizet,
      scalar_type ''char'' 1 PBT_CHAR PFM_UNK FChar,
      scalar_type ''ptr'' 8 PBT_POINTER PFM_UNK FPtr,
      scalar_type ''intptr_t'' 8 PBT_UNK PFM_UNK FPtr]"

definition uio_datatypes :: "data_type list" where
  "uio_datatypes =
     [\<lparr>dt_name = ''iovec'', dt_pa_basic_type = PBT_UNK, dt_pa_flag = PFM_UNK, dt_value_size = 0, dt_family = FStruct,
       dt_struct_members =
         [\<lparr>sm_name = ''iov_base'', sm_type = ''ptr'', sm_modifiers = 0, sm_ref_type_name = [], sm_array_cnt = 0\<rparr>,
          \<lparr>sm_name = ''iov_len'', sm_type = ''size_t'', sm_modifiers = 0, sm_ref_type_name = [], sm_array_cnt = 0\<rparr>]\<rparr>]"

definition unistd_datatypes :: "data_type list" where
  "unistd_datatypes =
     [scalar_type ''useconds_t'' 8 PBT_UNK PFM_UNK FUlong,
      scalar_type ''gid_t'' 4 PBT_UNK PFM_UNK FUint,
      scalar_type ''pid_t'' 4 PBT_UNK PFM_UNK FUint,
      scalar_type ''uid_t'' 4 PBT_UNK PFM_UNK FUint,
      scalar_type ''off_t'' 4 PBT_UNK PFM_UNK FInt]"

text \<open>The types of a build for a POSIX system; the decoders of the Windows kernel's structures are not part of it.\<close>

definition shipped_types :: "data_type list" where
  "shipped_types = basic_datatypes @ uio_datatypes @ unistd_datatypes"

lemmas shipped_types_defs = shipped_types_def basic_datatypes_def uio_datatypes_def unistd_datatypes_def scalar_type_def

lemma shipped_types_ok: "types_ok shipped_types"
  by (simp add: types_ok_def shipped_types_defs in_fmt_def fmt_key_def)

theorem datatypes_registry_witness:
  "\<exists>t. retrace_datatypes_init (\<lambda>_. True) shipped_types no_types = Some (0, t) \<and>
    retrace_datatype_printf_to_dt glibc_flags (PA_INT OR 0x200) t =
      Some (scalar_type ''long'' 8 PBT_INT PFM_LONG FLong)"
proof -
  obtain t where t: "retrace_datatypes_init (\<lambda>_. True) shipped_types no_types = Some (0, t)"
    "\<forall>fl base flag. 0 \<le> base \<and> base < 8 \<and> base AND PA_FLAG_MASK fl = 0 \<and> flag AND PA_FLAG_MASK fl = flag \<longrightarrow>
          retrace_datatype_printf_to_dt fl (base OR flag) t =
            Some (case find (\<lambda>p. in_fmt p \<and> fmt_key p = (gnu_fmt_to_pbt ! nat base, gnu_modflag_to_pfm fl flag)) shipped_types of
                    None \<Rightarrow> unk_dt | Some dt \<Rightarrow> dt)"
    using datatypes_registry [of "\<lambda>_. True" shipped_types] shipped_types_ok by auto
  have "retrace_datatype_printf_to_dt glibc_flags (PA_INT OR 0x200) t =
      Some (case find (\<lambda>p. in_fmt p \<and> fmt_key p = (gnu_fmt_to_pbt ! nat 0, gnu_modflag_to_pfm glibc_flags 0x200)) shipped_types of
                    None \<Rightarrow> unk_dt | Some dt \<Rightarrow> dt)"
    by (rule t(2) [rule_format]) (simp add: glibc_flags_def)
  also have "\<dots> = Some (scalar_type ''long'' 8 PBT_INT PFM_LONG FLong)"
    by code_simp
  finally show ?thesis using t(1) by blast
qed

text \<open>
  Where the C library has no \<open>printf.h\<close>, the scanner reports a pointer conversion
  with the base type of pointers, but decoding takes one of its bits for the short
  modifier, so the argument is looked up as a short character and comes out unknown with
  the shipped types; the modifier values overlap the base types although they are
  said to mirror the GNU C library.  With the library's own values pointers are decoded
  as pointers, but the first argument type past its list passes the bound and reads
  beyond the table.
\<close>

theorem printf_pointer_decoded_as_char:
  "parse_printf_format ''%p'' 1 (Some [0]) = (1, Some [PA_POINTER]) \<and>
   (\<exists>t. retrace_datatypes_init (\<lambda>_. True) shipped_types no_types = Some (0, t) \<and>
     retrace_datatype_printf_to_dt compat_flags PA_POINTER t = Some unk_dt \<and>
     map_option dt_name (retrace_datatype_printf_to_dt glibc_flags PA_POINTER t) = Some ''ptr'' \<and>
     retrace_datatype_printf_to_dt glibc_flags 8 t = None)"
proof (intro conjI)
  show "parse_printf_format ''%p'' 1 (Some [0]) = (1, Some [PA_POINTER])" by code_simp
  obtain t where t: "retrace_datatypes_init (\<lambda>_. True) shipped_types no_types = Some (0, t)"
      "fmt_holds (gnu_fmt_to_dt t) shipped_types"
    using datatypes_loop_holds [OF no_types_holds, of "\<lambda>_. True" 0 shipped_types] shipped_types_ok
    unfolding retrace_datatypes_init_def by auto
  have cell: "gnu_fmt_to_dt t ! b ! f = find (\<lambda>p. in_fmt p \<and> fmt_key p = (b, f)) shipped_types" if "b < PBT_CNT" "f < PFM_CNT" for b f
    using t(2) that by (simp add: fmt_holds_def)
  have "retrace_datatype_printf_to_dt compat_flags PA_POINTER t = Some unk_dt"
    by (simp add: retrace_datatype_printf_to_dt_def compat_flags_def gnu_fmt_to_pbt_def gnu_modflag_to_pfm_def cell
        shipped_types_defs in_fmt_def fmt_key_def)
  moreover have "map_option dt_name (retrace_datatype_printf_to_dt glibc_flags PA_POINTER t) = Some ''ptr''"
    by (simp add: retrace_datatype_printf_to_dt_def glibc_flags_def gnu_fmt_to_pbt_def gnu_modflag_to_pfm_def cell
        shipped_types_defs in_fmt_def fmt_key_def)
  moreover have "retrace_datatype_printf_to_dt glibc_flags 8 t = None"
    by (simp add: retrace_datatype_printf_to_dt_def glibc_flags_def gnu_fmt_to_pbt_def)
  ultimately show "\<exists>t. retrace_datatypes_init (\<lambda>_. True) shipped_types no_types = Some (0, t) \<and>
     retrace_datatype_printf_to_dt compat_flags PA_POINTER t = Some unk_dt \<and>
     map_option dt_name (retrace_datatype_printf_to_dt glibc_flags PA_POINTER t) = Some ''ptr'' \<and>
     retrace_datatype_printf_to_dt glibc_flags 8 t = None" using t(1) by blast
qed

end
