(* ===== verification/As_Ops.thy ===== *)
theory As_Ops
  imports Registries Data_Types
begin

unbundle bit_operations_syntax

section \<open>Frames of intercepted calls (\<open>src/src/backends/as_ops.c\<close> and the lanes behind it)\<close>

text \<open>
  The engine drives the frame of a call only through five operations.  The preload lane
  implements them on the frame its x86-64 trampoline builds
  (\<open>preload_elf/x86_64/arch_spec_bottom.c\<close>), the syscall lane on the registers of a traced
  process (\<open>ptrace/as_ptrace.c\<close>).  The operation that writes a return value gets the
  \<open>ret_errno\<close> of the thread's context.  Setting up parameters works on the parameter
  array of the context, whose length is the space there is, and returns the valid
  parameters; \<open>None\<close> is an access outside an array or through a null pointer.
\<close>

definition ENGINE_MAXCOUNT_PARAMS :: nat where "ENGINE_MAXCOUNT_PARAMS = 32"

definition zero_param :: func_param where
  "zero_param = \<lparr>fp_meta = \<lparr>pm_name = [], pm_type_name = [], pm_modifiers = 0, pm_direction = PDIR_IN,
     pm_ref_type_name = [], pm_array_cnt_param = []\<rparr>, fp_val = 0, fp_free_val = False\<rparr>"

record ('f, 'x) as_ops =
  sched_real :: "'f \<Rightarrow> addr \<Rightarrow> 'f"
  cancel_sched_real :: "'f \<Rightarrow> 'f"
  set_ret_val :: "32 word \<Rightarrow> 'f \<Rightarrow> 64 word \<Rightarrow> 'f"
  setup_params :: "'f \<Rightarrow> func_prototype \<Rightarrow> func_param list \<Rightarrow> (bool \<times> func_param list) option"
  call_real :: "'f \<Rightarrow> addr \<Rightarrow> func_param list \<Rightarrow> 'x \<Rightarrow> 64 word \<times> 'f \<times> 'x"

record ('f, 'x) engine_context = thread_context +
  ec_prototype :: "func_prototype option"
  ec_real_impl :: addr
  ec_lane_ops :: "('f, 'x) as_ops option"
  ec_dispatch_depth :: int

definition zero_context :: "('f, 'x) engine_context" where
  "zero_context = \<lparr>tc_func = [], tc_type_name = [], tc_ret_val = 0, tc_ret_errno = 0, tc_params = [], tc_ret_addr = 0,
     ec_prototype = None, ec_real_impl = 0, ec_lane_ops = None, ec_dispatch_depth = 0\<rparr>"

subsection \<open>The dispatcher\<close>

text \<open>The table of an installed lane; \<open>None\<close> is the default table.\<close>

definition lane_ops_for :: "('f, 'x) engine_context option \<Rightarrow> ('f, 'x) as_ops option" where
  "lane_ops_for ctx =
     (case ctx of
        None \<Rightarrow> None
      | Some c \<Rightarrow> if ec_lane_ops c \<noteq> None \<and> ec_dispatch_depth c \<le> 1 then ec_lane_ops c else None)"

definition ops_for :: "('f, 'x) as_ops \<Rightarrow> ('f, 'x) engine_context option \<Rightarrow> ('f, 'x) as_ops" where
  "ops_for dflt ctx = (case lane_ops_for ctx of None \<Rightarrow> dflt | Some ops \<Rightarrow> ops)"

definition retrace_as_sched_real :: "('f, 'x) as_ops \<Rightarrow> ('f, 'x) engine_context option \<Rightarrow> 'f \<Rightarrow> addr \<Rightarrow> 'f" where
  "retrace_as_sched_real dflt ctx frame real_impl = sched_real (ops_for dflt ctx) frame real_impl"

definition retrace_as_cancel_sched_real :: "('f, 'x) as_ops \<Rightarrow> ('f, 'x) engine_context option \<Rightarrow> 'f \<Rightarrow> 'f" where
  "retrace_as_cancel_sched_real dflt ctx frame = cancel_sched_real (ops_for dflt ctx) frame"

definition retrace_as_set_ret_val :: "('f, 'x) as_ops \<Rightarrow> ('f, 'x) engine_context option \<Rightarrow> 'f \<Rightarrow> 64 word \<Rightarrow> 'f" where
  "retrace_as_set_ret_val dflt ctx frame ret_val =
     (let e = (case ctx of None \<Rightarrow> 0 | Some c \<Rightarrow> tc_ret_errno c);
          v = (if lane_ops_for ctx \<noteq> None \<and> ret_val = -1 \<and> sint e > 0 \<and> sint e < 4096
               then - scast e else ret_val) in
      set_ret_val (ops_for dflt ctx) e frame v)"

definition retrace_as_setup_params ::
    "('f, 'x) as_ops \<Rightarrow> ('f, 'x) engine_context option \<Rightarrow> 'f \<Rightarrow> func_prototype \<Rightarrow> func_param list \<Rightarrow> (bool \<times> func_param list) option" where
  "retrace_as_setup_params dflt ctx frame proto params = setup_params (ops_for dflt ctx) frame proto params"

definition retrace_as_call_real ::
    "('f, 'x) as_ops \<Rightarrow> ('f, 'x) engine_context option \<Rightarrow> 'f \<Rightarrow> addr \<Rightarrow> func_param list \<Rightarrow> 'x \<Rightarrow> 64 word \<times> 'f \<times> 'x" where
  "retrace_as_call_real dflt ctx frame real_impl params w = call_real (ops_for dflt ctx) frame real_impl params w"

subsection \<open>Calling through a pointer (\<open>src/src/core/as_call_real.c\<close>)\<close>

text \<open>
  \<open>apply_fn\<close> is what the machine does when the address is called with the given
  arguments: the value returned, and what becomes of the process and the world around it.
  The allocation of the argument array is an outcome.
\<close>

type_synonym 'x machine_call = "addr \<Rightarrow> 64 word list \<Rightarrow> 'x \<Rightarrow> 64 word \<times> 'x"

definition retrace_as_call_real_dispatch ::
    "'x machine_call \<Rightarrow> bool \<Rightarrow> addr \<Rightarrow> func_param list \<Rightarrow> 'x \<Rightarrow> 64 word \<times> 'x" where
  "retrace_as_call_real_dispatch apply_fn malloc_ok real_impl params w =
     (if \<not> malloc_ok \<and> length params > 0 then (-1, w)
      else if length params \<le> 12 then apply_fn real_impl (map fp_val params) w
      else (-1, w))"

definition retrace_as_call_real_variadic ::
    "'x machine_call \<Rightarrow> bool \<Rightarrow> addr \<Rightarrow> func_param list \<Rightarrow> nat \<Rightarrow> 'x \<Rightarrow> 64 word \<times> 'x" where
  "retrace_as_call_real_variadic apply_fn malloc_ok real_impl params named w =
     (let named_count = (if named > length params then length params else named) in
      if \<not> malloc_ok \<and> length params > 0 then (-1, w)
      else if named_count = 1 then
        (if 1 \<le> length params \<and> length params \<le> 6 then apply_fn real_impl (map fp_val params) w else (-1, w))
      else if named_count = 2 then
        (if 2 \<le> length params \<and> length params \<le> 6 then apply_fn real_impl (map fp_val params) w else (-1, w))
      else (-1, w))"

subsection \<open>The trampoline frame\<close>

text \<open>The vector registers are saved and restored by the trampoline alone and are left out.\<close>

record sysv_frame =
  call_real_flag :: "64 word"
  sf_real_impl :: addr
  sf_ret_val :: "64 word"
  real_r9 :: "64 word"
  real_r8 :: "64 word"
  real_rcx :: "64 word"
  real_rdx :: "64 word"
  real_rsi :: "64 word"
  real_rdi :: "64 word"
  real_rsp :: "64 word"

definition retrace_as_trampoline_sched_real :: "sysv_frame \<Rightarrow> addr \<Rightarrow> sysv_frame" where
  "retrace_as_trampoline_sched_real frame real_impl = frame\<lparr>call_real_flag := 1, sf_real_impl := real_impl\<rparr>"

definition retrace_as_trampoline_cancel_sched_real :: "sysv_frame \<Rightarrow> sysv_frame" where
  "retrace_as_trampoline_cancel_sched_real frame = frame\<lparr>call_real_flag := 0\<rparr>"

definition retrace_as_trampoline_set_ret_val :: "sysv_frame \<Rightarrow> 64 word \<Rightarrow> sysv_frame" where
  "retrace_as_trampoline_set_ret_val frame ret_val = frame\<lparr>sf_ret_val := ret_val\<rparr>"

definition frame_value :: "sysv_frame \<Rightarrow> int \<Rightarrow> nat \<Rightarrow> 64 word" where
  "frame_value frame params_on_stack param_idx =
     (if param_idx < 6 then
        [real_rdi frame, real_rsi frame, real_rdx frame, real_rcx frame, real_r8 frame, real_r9 frame] ! param_idx
      else real_rsp frame + 8 * of_int (params_on_stack - int param_idx))"

text \<open>
  The scanner of formats is an argument: the C library's where it has one, the one of
  \<open>printf_compat.h\<close> elsewhere.
\<close>

type_synonym format_scanner = "cstr \<Rightarrow> int \<Rightarrow> int list option \<Rightarrow> nat \<times> int list option"

definition is_fp_type :: "pa_flags \<Rightarrow> int \<Rightarrow> bool" where
  "is_fp_type fl t = (let basic = t AND NOT (PA_FLAG_MASK fl) in basic = 6 \<or> basic = PA_DOUBLE)"

definition vararg_name :: "nat \<Rightarrow> cstr" where
  "vararg_name i = ''vararg'' @ (if i < 10 then ''0'' else '''') @ dec i"

definition vararg_meta :: "pa_flags \<Rightarrow> nat \<Rightarrow> int \<Rightarrow> data_type \<Rightarrow> param_meta" where
  "vararg_meta fl i t dt =
     (let str = t AND NOT (PA_FLAG_MASK fl) = PA_STRING in
      \<lparr>pm_name = vararg_name i, pm_type_name = dt_name dt, pm_modifiers = (if str then CDM_POINTER else 0),
       pm_direction = PDIR_IN, pm_ref_type_name = (if str then ''sz'' else []), pm_array_cnt_param = []\<rparr>)"

fun proto_loop :: "sysv_frame \<Rightarrow> int \<Rightarrow> nat \<Rightarrow> param_meta list \<Rightarrow> func_param list \<Rightarrow> func_param list" where
  "proto_loop frame on_stack idx [] params = params"
| "proto_loop frame on_stack idx (meta # ms) params =
     proto_loop frame on_stack (Suc idx) ms
       (params[idx := (params ! idx)\<lparr>fp_meta := meta, fp_val := frame_value frame on_stack idx\<rparr>])"

fun vararg_loop ::
    "pa_flags \<Rightarrow> dt_tables \<Rightarrow> sysv_frame \<Rightarrow> int \<Rightarrow> nat \<Rightarrow> nat \<Rightarrow> int list \<Rightarrow> func_param list \<Rightarrow> func_param list option" where
  "vararg_loop fl dts frame on_stack i param_idx [] params = Some params"
| "vararg_loop fl dts frame on_stack i param_idx (t # ts) params =
     (case retrace_datatype_printf_to_dt fl t dts of
        None \<Rightarrow> None
      | Some dt \<Rightarrow>
          if param_idx \<ge> length params then None
          else vararg_loop fl dts frame on_stack (Suc i) (Suc param_idx) ts
                 (params[param_idx := (params ! param_idx)\<lparr>fp_meta := vararg_meta fl i t dt,
                    fp_val := frame_value frame on_stack param_idx\<rparr>]))"

definition setup_varargs ::
    "pa_flags \<Rightarrow> dt_tables \<Rightarrow> bool \<Rightarrow> format_scanner \<Rightarrow> cstr \<Rightarrow> sysv_frame \<Rightarrow> nat \<Rightarrow> func_param list \<Rightarrow>
     (bool \<times> func_param list) option" where
  "setup_varargs fl dts malloc_ok scan fmt frame n ps =
     (case scan fmt 0 None of
        (printf_params, _) \<Rightarrow>
          if printf_params = 0 then Some (True, take n ps)
          else if \<not> malloc_ok then None
          else
            (case scan fmt (int printf_params) (Some (replicate printf_params 0)) of
               (_, None) \<Rightarrow> None
             | (printf_params2, Some arr) \<Rightarrow>
                 let types = take printf_params2 arr in
                 if printf_params2 > length arr then None
                 else if list_ex (is_fp_type fl) types then Some (False, take n ps)
                 else map_option (\<lambda>ps1. (True, take (n + length types) ps1))
                        (vararg_loop fl dts frame (int n - 6) 0 n types ps)))"

definition retrace_as_trampoline_setup_params ::
    "pa_flags \<Rightarrow> dt_tables \<Rightarrow> bool \<Rightarrow> format_scanner \<Rightarrow> (addr \<Rightarrow> cstr) \<Rightarrow> sysv_frame \<Rightarrow> func_prototype \<Rightarrow> func_param list \<Rightarrow>
     (bool \<times> func_param list) option" where
  "retrace_as_trampoline_setup_params fl dts malloc_ok scan mem frame proto params =
     (let n = length (fpr_params proto) in
      if length params < n then Some (False, params)
      else
        let ps = proto_loop frame (int n - 6) 0 (fpr_params proto) params in
        case fpr_fmt proto of
          FAT_NOVARARGS \<Rightarrow> Some (True, take n ps)
        | FAT_STRFTIME \<Rightarrow> Some (False, ps)
        | _ \<Rightarrow> setup_varargs fl dts malloc_ok scan (mem (fp_val (ps ! fpr_fmt_param_idx proto))) frame n ps)"

definition retrace_as_ops_default ::
    "pa_flags \<Rightarrow> dt_tables \<Rightarrow> bool \<Rightarrow> format_scanner \<Rightarrow> (addr \<Rightarrow> cstr) \<Rightarrow> 'x machine_call \<Rightarrow>
     (sysv_frame, 'x) as_ops" where
  "retrace_as_ops_default fl dts malloc_ok scan mem apply_fn =
     \<lparr>sched_real = retrace_as_trampoline_sched_real,
      cancel_sched_real = retrace_as_trampoline_cancel_sched_real,
      set_ret_val = (\<lambda>_. retrace_as_trampoline_set_ret_val),
      setup_params = retrace_as_trampoline_setup_params fl dts malloc_ok scan mem,
      call_real = (\<lambda>frame real_impl params w.
        case retrace_as_call_real_dispatch apply_fn malloc_ok real_impl params w of (v, w1) \<Rightarrow> (v, frame, w1))\<rparr>"

subsection \<open>The syscall lane\<close>

text \<open>
  The fields of the frame the operations touch.  \<open>vm_read\<close> is the system's read of
  another process's memory: the bytes it delivered, none when it failed.  \<open>place\<close>
  gives the address of the buffer that holds a copied string.
\<close>

record ptrace_frame =
  arg_in :: "64 word list"
  skip_real :: bool
  forced_retval :: "64 word"
  exit_override :: bool
  exit_retval :: "64 word"

definition RETRACE_PTRACE_MAX_ARGS :: nat where "RETRACE_PTRACE_MAX_ARGS = 6"
definition PTRACE_SZ_CAP :: nat where "PTRACE_SZ_CAP = 4096"
definition PTRACE_SZ_CHUNK :: nat where "PTRACE_SZ_CHUNK = 256"
definition PTRACE_RET_DEFERRED :: "64 word" where "PTRACE_RET_DEFERRED = 4503599627370497"

function read_sz_loop :: "(nat \<Rightarrow> nat \<Rightarrow> string) \<Rightarrow> nat \<Rightarrow> string \<Rightarrow> cstr option" where
  "read_sz_loop vm_read remote buf =
     (if length buf < PTRACE_SZ_CAP then
        (let want = PTRACE_SZ_CAP - length buf;
             chunk = (if want < PTRACE_SZ_CHUNK then want else PTRACE_SZ_CHUNK);
             data = vm_read (remote + length buf) chunk in
         if data = [] then (if buf = [] then None else Some buf)
         else if nul \<in> set data then Some (buf @ takeWhile (\<lambda>c. c \<noteq> nul) data)
         else if length data < chunk then Some (buf @ data)
         else read_sz_loop vm_read remote (buf @ data))
      else Some buf)"
  by pat_completeness auto
termination
  by (relation "measure (\<lambda>(v, r, buf). PTRACE_SZ_CAP - length buf)") (auto simp: PTRACE_SZ_CAP_def PTRACE_SZ_CHUNK_def)

declare read_sz_loop.simps [simp del]

definition tracee_read_sz :: "bool \<Rightarrow> (nat \<Rightarrow> nat \<Rightarrow> string) \<Rightarrow> nat \<Rightarrow> cstr option" where
  "tracee_read_sz malloc_ok vm_read remote = (if malloc_ok then read_sz_loop vm_read remote [] else None)"

definition ptrace_sched_real :: "ptrace_frame \<Rightarrow> addr \<Rightarrow> ptrace_frame" where
  "ptrace_sched_real frame real_impl = frame\<lparr>skip_real := False\<rparr>"

definition ptrace_cancel_sched_real :: "ptrace_frame \<Rightarrow> ptrace_frame" where
  "ptrace_cancel_sched_real frame = frame\<lparr>skip_real := True, forced_retval := - 38\<rparr>"

definition ptrace_set_ret_val :: "32 word \<Rightarrow> 32 word \<Rightarrow> ptrace_frame \<Rightarrow> 64 word \<Rightarrow> ptrace_frame" where
  "ptrace_set_ret_val errno ret_errno frame ret_val =
     (if \<not> skip_real frame then
        (if ret_val \<noteq> PTRACE_RET_DEFERRED then frame\<lparr>exit_override := True, exit_retval := ret_val\<rparr> else frame)
      else if ret_val = -1 then
        let e = (if sint ret_errno > 0 \<and> sint ret_errno < 4096 then ret_errno
                 else if sint errno \<le> 0 \<or> sint errno \<ge> 4096 then 1 else errno) in
        frame\<lparr>forced_retval := scast (- e)\<rparr>
      else frame\<lparr>forced_retval := ret_val\<rparr>)"

definition ptrace_param :: "(addr \<Rightarrow> cstr option) \<Rightarrow> (cstr \<Rightarrow> addr) \<Rightarrow> ptrace_frame \<Rightarrow> nat \<Rightarrow> param_meta \<Rightarrow> func_param" where
  "ptrace_param read_sz place frame i meta =
     (let val = (if i < RETRACE_PTRACE_MAX_ARGS then arg_in frame ! i else 0) in
      if pm_modifiers meta AND CDM_POINTER \<noteq> 0 \<and> val \<noteq> 0 \<and> pm_ref_type_name meta = ''sz'' then
        (case read_sz val of
           Some s \<Rightarrow> \<lparr>fp_meta = meta, fp_val = place s, fp_free_val = True\<rparr>
         | None \<Rightarrow> \<lparr>fp_meta = meta, fp_val = 0, fp_free_val = False\<rparr>)
      else if pm_modifiers meta AND CDM_POINTER \<noteq> 0 then \<lparr>fp_meta = meta, fp_val = 0, fp_free_val = False\<rparr>
      else \<lparr>fp_meta = meta, fp_val = val, fp_free_val = False\<rparr>)"

definition ptrace_setup_params ::
    "(addr \<Rightarrow> cstr option) \<Rightarrow> (cstr \<Rightarrow> addr) \<Rightarrow> ptrace_frame \<Rightarrow> func_prototype \<Rightarrow> func_param list \<Rightarrow> (bool \<times> func_param list) option" where
  "ptrace_setup_params read_sz place frame proto params =
     (if length params < length (fpr_params proto) then Some (False, params)
      else if fpr_fmt proto \<noteq> FAT_NOVARARGS then Some (False, params)
      else Some (True, map (\<lambda>i. ptrace_param read_sz place frame i (fpr_params proto ! i)) [0..<length (fpr_params proto)]))"

definition ptrace_call_real :: "ptrace_frame \<Rightarrow> addr \<Rightarrow> func_param list \<Rightarrow> 'x \<Rightarrow> 64 word \<times> ptrace_frame \<times> 'x" where
  "ptrace_call_real frame real_impl params w = (PTRACE_RET_DEFERRED, frame\<lparr>skip_real := False\<rparr>, w)"

definition retrace_as_ops_ptrace ::
    "bool \<Rightarrow> (nat \<Rightarrow> nat \<Rightarrow> string) \<Rightarrow> (cstr \<Rightarrow> addr) \<Rightarrow> 32 word \<Rightarrow> (ptrace_frame, 'x) as_ops" where
  "retrace_as_ops_ptrace malloc_ok vm_read place errno =
     \<lparr>sched_real = ptrace_sched_real, cancel_sched_real = ptrace_cancel_sched_real,
      set_ret_val = ptrace_set_ret_val errno,
      setup_params = ptrace_setup_params (\<lambda>a. tracee_read_sz malloc_ok vm_read (unat a)) place,
      call_real = ptrace_call_real\<rparr>"

subsection \<open>The contract of a lane\<close>

text \<open>
  What the engine relies on, whichever lane it runs on: a scheduled call runs the real
  implementation and leaves the caller's view of it alone; a cancelled call does not
  run it, and then the caller sees the value written last, with the error number in
  place of -1 where the lane returns error numbers.
\<close>

locale as_lane =
  fixes ops :: "('f, 'x) as_ops"
    and runs_real :: "'f \<Rightarrow> addr \<Rightarrow> bool"
    and returns :: "'f \<Rightarrow> 64 word option"
    and seen :: "32 word \<Rightarrow> 64 word \<Rightarrow> 64 word"
  assumes sched_runs: "runs_real (sched_real ops f a) a"
    and cancel_stops: "\<not> runs_real (cancel_sched_real ops f) a"
    and set_ret_stopped: "(\<forall>a. \<not> runs_real f a) \<Longrightarrow> \<not> runs_real (set_ret_val ops e f v) a"
    and set_ret_returns: "(\<forall>a. \<not> runs_real f a) \<Longrightarrow> returns (set_ret_val ops e f v) = Some (seen e v)"
begin

lemma denied:
  "returns (set_ret_val ops e (cancel_sched_real ops f) v) = Some (seen e v)"
  "\<not> runs_real (set_ret_val ops e (cancel_sched_real ops f) v) a"
  using cancel_stops set_ret_returns set_ret_stopped by blast+

end

definition sysv_runs :: "sysv_frame \<Rightarrow> addr \<Rightarrow> bool" where
  "sysv_runs f a \<longleftrightarrow> call_real_flag f \<noteq> 0 \<and> sf_real_impl f = a"

definition sysv_returns :: "sysv_frame \<Rightarrow> 64 word option" where
  "sysv_returns f = (if call_real_flag f = 0 then Some (sf_ret_val f) else None)"

interpretation sysv: as_lane "retrace_as_ops_default fl dts malloc_ok scan mem apply_fn" sysv_runs sysv_returns "\<lambda>_ v. v"
  by unfold_locales
    (auto simp: retrace_as_ops_default_def sysv_runs_def sysv_returns_def retrace_as_trampoline_sched_real_def
       retrace_as_trampoline_cancel_sched_real_def retrace_as_trampoline_set_ret_val_def)

definition ptrace_seen :: "32 word \<Rightarrow> 32 word \<Rightarrow> 64 word \<Rightarrow> 64 word" where
  "ptrace_seen errno e v =
     (if v = -1 then scast (- (if sint e > 0 \<and> sint e < 4096 then e else if sint errno \<le> 0 \<or> sint errno \<ge> 4096 then 1 else errno))
      else v)"

definition ptrace_returns :: "ptrace_frame \<Rightarrow> 64 word option" where
  "ptrace_returns f = (if skip_real f then Some (forced_retval f) else None)"

interpretation pt: as_lane "retrace_as_ops_ptrace malloc_ok vm_read place errno" "\<lambda>f _. \<not> skip_real f" ptrace_returns
    "ptrace_seen errno"
  by unfold_locales
    (auto simp: retrace_as_ops_ptrace_def ptrace_returns_def ptrace_seen_def ptrace_sched_real_def
       ptrace_cancel_sched_real_def ptrace_set_ret_val_def Let_def)

subsection \<open>Strings of a traced process\<close>

text \<open>
  The system's read as it is documented: a request for one stretch of memory is answered
  whole or fails, it is never cut.  Here the first \<open>k\<close> bytes at an address can be read.
\<close>

definition reads_whole :: "(nat \<Rightarrow> nat \<Rightarrow> string) \<Rightarrow> (nat \<Rightarrow> char) \<Rightarrow> nat \<Rightarrow> nat \<Rightarrow> bool" where
  "reads_whole vm_read mem remote k \<longleftrightarrow>
     (\<forall>i n. vm_read (remote + i) n = (if i + n \<le> k then map (\<lambda>j. mem (remote + j)) [i..<i + n] else []))"

text \<open>The bytes in whole chunks that can be read, as far as the copy holds them.\<close>

definition chunked :: "nat \<Rightarrow> nat" where
  "chunked k = min (k div PTRACE_SZ_CHUNK * PTRACE_SZ_CHUNK) PTRACE_SZ_CAP"

lemma map_upt_append: "i \<le> j \<Longrightarrow> j \<le> k \<Longrightarrow> map f [i..<j] @ map f [j..<k] = map f [i..<k]"
  by (metis map_append le_Suc_ex upt_add_eq_append)

lemma whole_chunks: "q * 256 \<le> k \<Longrightarrow> k < q * 256 + 256 \<Longrightarrow> k div 256 * 256 = q * (256 :: nat)"
  by (simp add: Euclidean_Rings.div_nat_eqI)

lemma read_sz_loop_step:
  assumes "reads_whole vm_read mem remote k" "m = q * PTRACE_SZ_CHUNK" "m < PTRACE_SZ_CAP"
    "buf = map (\<lambda>j. mem (remote + j)) [0..<m]"
  shows "read_sz_loop vm_read remote buf =
    (let data = (if m + PTRACE_SZ_CHUNK \<le> k then map (\<lambda>j. mem (remote + j)) [m..<m + PTRACE_SZ_CHUNK] else []) in
     if data = [] then (if buf = [] then None else Some buf)
     else if nul \<in> set data then Some (buf @ takeWhile (\<lambda>c. c \<noteq> nul) data)
     else read_sz_loop vm_read remote (buf @ data))"
proof -
  have len: "length buf = m" using assms(4) by simp
  have chunk: "\<not> PTRACE_SZ_CAP - m < PTRACE_SZ_CHUNK"
    using assms(2,3) by (simp add: PTRACE_SZ_CAP_def PTRACE_SZ_CHUNK_def)
  have vm: "vm_read (remote + m) PTRACE_SZ_CHUNK =
      (if m + PTRACE_SZ_CHUNK \<le> k then map (\<lambda>j. mem (remote + j)) [m..<m + PTRACE_SZ_CHUNK] else [])"
    using assms(1) by (simp add: reads_whole_def)
  show ?thesis
    unfolding read_sz_loop.simps [of vm_read remote buf] len Let_def if_not_P [OF chunk] vm using assms(3) by auto
qed

lemma read_sz_loop_reads:
  assumes "reads_whole vm_read mem remote k" "m = q * PTRACE_SZ_CHUNK" "m \<le> k" "m \<le> PTRACE_SZ_CAP"
    "buf = map (\<lambda>j. mem (remote + j)) [0..<m]" "nul \<notin> set buf"
  shows "read_sz_loop vm_read remote buf =
    (if chunked k = 0 then None else Some (takeWhile (\<lambda>c. c \<noteq> nul) (map (\<lambda>j. mem (remote + j)) [0..<chunked k])))"
  using assms
proof (induction "PTRACE_SZ_CAP - m" arbitrary: m q buf rule: less_induct)
  case less
  let ?b = "\<lambda>j. mem (remote + j)" and ?nn = "\<lambda>c. c \<noteq> nul"
  have own: "takeWhile ?nn buf = buf" using less.prems(6) by (auto intro: takeWhile_eq_all_conv [THEN iffD2])
  note size = PTRACE_SZ_CAP_def PTRACE_SZ_CHUNK_def
  consider (full) "m = PTRACE_SZ_CAP" | (last) "m < PTRACE_SZ_CAP" "k < m + PTRACE_SZ_CHUNK"
    | (next_one) "m < PTRACE_SZ_CAP" "m + PTRACE_SZ_CHUNK \<le> k" using less.prems(4) by linarith
  then show ?case
  proof cases
    case full
    then have "chunked k = m" using div_le_mono [OF less.prems(3), of 256] by (simp add: chunked_def size min_def)
    moreover have "read_sz_loop vm_read remote buf = Some buf" using full less.prems(5) by (simp add: read_sz_loop.simps)
    moreover have "m \<noteq> 0" using full by (simp add: size)
    ultimately show ?thesis using own unfolding less.prems(5) by (simp only: if_False)
  next
    case last
    then have "chunked k = m" using whole_chunks [of q k] less.prems(2,3) by (simp add: chunked_def size min_def)
    moreover have "read_sz_loop vm_read remote buf = (if m = 0 then None else Some buf)"
      using read_sz_loop_step [OF less.prems(1,2) last(1) less.prems(5)] last(2) less.prems(5) by simp
    ultimately show ?thesis using own unfolding less.prems(5) by (simp only:)
  next
    case next_one
    define data where "data = map ?b [m..<m + PTRACE_SZ_CHUNK]"
    have step: "read_sz_loop vm_read remote buf =
        (if nul \<in> set data then Some (buf @ takeWhile ?nn data) else read_sz_loop vm_read remote (buf @ data))"
      using read_sz_loop_step [OF less.prems(1,2) next_one(1) less.prems(5)] next_one(2)
      by (simp add: data_def Let_def size)
    have e: "m + PTRACE_SZ_CHUNK = (q + 1) * PTRACE_SZ_CHUNK" "m + PTRACE_SZ_CHUNK \<le> PTRACE_SZ_CAP"
      using less.prems(2) next_one(1) by (simp_all add: size)
    have "m + PTRACE_SZ_CHUNK \<le> chunked k"
      using e div_le_mono [OF next_one(2), of PTRACE_SZ_CHUNK] unfolding chunked_def by (simp add: size)
    have all': "buf @ data = map ?b [0..<m + PTRACE_SZ_CHUNK]" using less.prems(5) by (simp add: map_upt_append data_def)
    have split: "map ?b [0..<chunked k] = (buf @ data) @ map ?b [m + PTRACE_SZ_CHUNK..<chunked k]"
      unfolding all' using \<open>m + PTRACE_SZ_CHUNK \<le> chunked k\<close> by (simp add: map_upt_append)
    have pos: "chunked k \<noteq> 0" using \<open>m + PTRACE_SZ_CHUNK \<le> chunked k\<close> by (simp add: size)
    show ?thesis
    proof (cases "nul \<in> set data")
      case True
      then have "takeWhile ?nn (map ?b [0..<chunked k]) = buf @ takeWhile ?nn data"
        unfolding split append_assoc using less.prems(6) takeWhile_append1 [of nul data ?nn] by (subst takeWhile_append2) auto
      then show ?thesis using step True pos by simp
    next
      case False
      have "PTRACE_SZ_CAP - (m + PTRACE_SZ_CHUNK) < PTRACE_SZ_CAP - m" using e(2) by (simp add: size)
      from less.hyps [OF this less.prems(1) e(1) next_one(2) e(2) all'] show ?thesis
        using step False less.prems(6) by simp
    qed
  qed
qed

text \<open>
  What is copied in general: the text before the first NUL among the bytes of the readable whole
  chunks, and of the first 4096.
\<close>

lemma read_sz_exact:
  assumes "reads_whole vm_read mem remote k"
  shows "tracee_read_sz malloc_ok vm_read remote =
    (if malloc_ok \<and> 256 \<le> k
     then Some (takeWhile (\<lambda>c. c \<noteq> nul) (map (\<lambda>j. mem (remote + j)) [0..<min (k div 256 * 256) 4096])) else None)"
proof -
  have "chunked k = 0 \<longleftrightarrow> k < 256" by (auto simp: chunked_def PTRACE_SZ_CAP_def PTRACE_SZ_CHUNK_def min_def)
  then show ?thesis
    using read_sz_loop_reads [OF assms, of 0 0]
    by (simp add: tracee_read_sz_def chunked_def PTRACE_SZ_CAP_def PTRACE_SZ_CHUNK_def)
qed

text \<open>
  C37. A string of a traced process is copied, cut off after 4096 characters, however it lies
  across the chunks of 256 bytes in which it is read, if the chunks it lies in can be read whole,
  as far as the first 4096 bytes go, and the buffer can be allocated.  Reads of a chunk are
  answered whole or fail.
\<close>

theorem tracee_read_sz_chunks:
  assumes "reads_whole vm_read mem remote k"
    and "nul \<notin> set s" "map (\<lambda>j. mem (remote + j)) [0..<length s + 1] = s @ [nul]"
    and "min ((length s div 256 + 1) * 256) 4096 \<le> k"
  shows "tracee_read_sz malloc_ok vm_read remote = (if malloc_ok then Some (take 4096 s) else None)"
proof -
  let ?n = "min (k div 256 * 256) 4096" and ?b = "\<lambda>j. mem (remote + j)"
  have k: "256 \<le> k" using assms(4) by (simp add: min_def split: if_splits)
  have "takeWhile (\<lambda>c. c \<noteq> nul) (map ?b [0..<?n]) = take 4096 s"
  proof (cases "length s < 4096")
    case True
    then have "length s div 256 < 16" by (simp add: div_less_iff_less_mult)
    then have "(length s div 256 + 1) * 256 \<le> k" using assms(4) by simp
    then have "(length s div 256 + 1) \<le> k div 256" by (simp add: less_eq_div_iff_mult_less_eq)
    moreover have "length s < (length s div 256 + 1) * 256" using div_mult_mod_eq [of "length s" 256] by simp
    ultimately have "length s < k div 256 * 256" by (meson less_le_trans mult_le_mono1)
    then have n: "length s < ?n" using True by (simp only: min_less_iff_conj)
    have "map ?b [0..<?n] = (s @ [nul]) @ map ?b [length s + 1..<?n]"
      unfolding assms(3) [symmetric] using n by (intro map_upt_append [symmetric]) simp_all
    then show ?thesis using assms(2) True by (simp only: append_assoc) (subst takeWhile_append2; auto)
  next
    case False
    then have "16 \<le> length s div 256" by (simp add: less_eq_div_iff_mult_less_eq)
    then have "4096 \<le> k" using assms(4) by (simp add: min_def split: if_splits)
    then have "16 \<le> k div 256" by (simp add: less_eq_div_iff_mult_less_eq)
    then have n: "?n = 4096" by simp
    have "map ?b [0..<4096] = take 4096 (map ?b [0..<length s + 1])" using False by (simp add: take_map)
    then have "map ?b [0..<?n] = take 4096 (s @ [nul])" unfolding assms(3) n .
    then have "map ?b [0..<?n] = take 4096 s" using False by (simp only: take_append) simp
    moreover have "nul \<notin> set (take 4096 s)" using assms(2) in_set_takeD [of nul 4096 s] by blast
    ultimately show ?thesis using takeWhile_eq_all_conv [of "\<lambda>c. c \<noteq> nul" "take 4096 s"] by auto
  qed
  then show ?thesis using read_sz_exact [OF assms(1)] k by simp
qed

definition demo_mem :: "nat \<Rightarrow> char" where
  "demo_mem a = (if a < 300 then CHR ''x'' else nul)"

definition demo_vm :: "nat \<Rightarrow> nat \<Rightarrow> nat \<Rightarrow> string" where
  "demo_vm k a n = (if a + n \<le> k then map demo_mem [a..<a + n] else [])"

lemma demo_vm_whole: "reads_whole (demo_vm k) demo_mem 0 k"
  by (simp add: reads_whole_def demo_vm_def)

theorem tracee_read_sz_chunks_witness:
  "tracee_read_sz True (demo_vm 600) 0 = Some (replicate 300 (CHR ''x''))"
proof -
  let ?s = "replicate 300 (CHR ''x'')"
  have s: "map (\<lambda>j. demo_mem (0 + j)) [0..<length ?s + 1] = ?s @ [nul]" by code_simp
  have l: "nul \<notin> set ?s" "min ((length ?s div 256 + 1) * 256) 4096 \<le> 600" "take 4096 ?s = ?s" by simp_all
  show ?thesis using tracee_read_sz_chunks [OF demo_vm_whole l(1) s l(2), of True] unfolding l(3) by (simp only: if_True)
qed

text \<open>
  A string in the last bytes of a mapping is cut or lost: of the 300 characters here, with 301
  readable bytes, the first 256 are copied, and with fewer than 256 readable bytes none are.
\<close>

lemma string_before_hole:
  "tracee_read_sz True (demo_vm 301) 0 = Some (replicate 256 (CHR ''x''))" "k < 256 \<Longrightarrow> tracee_read_sz True (demo_vm k) 0 = None"
proof -
  have "tracee_read_sz True (demo_vm k) 0 =
      (if chunked k = 0 then None else Some (takeWhile (\<lambda>c. c \<noteq> nul) (map (\<lambda>j. demo_mem (0 + j)) [0..<chunked k])))" for k
    using read_sz_loop_reads [OF demo_vm_whole, of 0 0] by (simp add: tracee_read_sz_def)
  moreover have "chunked 301 = 256" "k < 256 \<Longrightarrow> chunked k = 0" by (simp_all add: chunked_def PTRACE_SZ_CAP_def PTRACE_SZ_CHUNK_def)
  moreover have "takeWhile (\<lambda>c. c \<noteq> nul) (map (\<lambda>j. demo_mem (0 + j)) [0..<256]) = replicate 256 (CHR ''x'')" by code_simp
  ultimately show "tracee_read_sz True (demo_vm 301) 0 = Some (replicate 256 (CHR ''x''))"
    "k < 256 \<Longrightarrow> tracee_read_sz True (demo_vm k) 0 = None" by simp_all
qed

subsection \<open>Parameters from the trampoline frame\<close>

lemma length_proto_loop [simp]: "length (proto_loop frame on_stack idx ms params) = length params"
  by (induction frame on_stack idx ms params rule: proto_loop.induct) auto

lemma nth_proto_loop:
  "idx + length ms \<le> length params \<Longrightarrow> i < length params \<Longrightarrow>
   proto_loop frame on_stack idx ms params ! i =
     (if idx \<le> i \<and> i < idx + length ms
      then (params ! i)\<lparr>fp_meta := ms ! (i - idx), fp_val := frame_value frame on_stack i\<rparr> else params ! i)"
proof (induction frame on_stack idx ms params rule: proto_loop.induct)
  case (2 frame on_stack idx meta ms params)
  then show ?case by (cases "i = idx") (auto simp: nth_Cons' Suc_le_eq)
qed auto

text \<open>
  The parameters of a function without variable arguments: name and type from the
  prototype, and the value of the argument register for the first six.
\<close>

lemma trampoline_setup_fixed:
  assumes "fpr_fmt proto = FAT_NOVARARGS" "length (fpr_params proto) \<le> length params"
  shows "\<exists>ps. retrace_as_trampoline_setup_params fl dts malloc_ok scan mem frame proto params = Some (True, ps) \<and>
    map fp_meta ps = fpr_params proto \<and>
    map fp_val ps = map (frame_value frame (int (length (fpr_params proto)) - 6)) [0..<length (fpr_params proto)]"
  using assms by (auto simp: retrace_as_trampoline_setup_params_def Let_def nth_proto_loop intro!: nth_equalityI)

text \<open>
  An argument passed on the stack is not read: the value recorded for it is an address
  below the stack pointer, and the same one whatever the stack holds.
\<close>

theorem stack_argument_is_an_address:
  "frame_value frame 1 6 = real_rsp frame - 40"
  by (simp add: frame_value_def)

text \<open>
  Nothing bounds the number of variable arguments: when the format has more
  conversions than there is room left in the parameter array, and none of them is a
  floating-point one, setting up writes past the array.
\<close>

lemma vararg_loop_overflow:
  "param_idx \<le> length params \<Longrightarrow> length params < param_idx + length ts \<Longrightarrow>
   vararg_loop fl dts frame on_stack i param_idx ts params = None"
  by (induction fl dts frame on_stack i param_idx ts params rule: vararg_loop.induct) (auto split: option.split)

theorem vararg_overflow:
  assumes "fpr_fmt proto = FAT_PRINTF" "length (fpr_params proto) \<le> ENGINE_MAXCOUNT_PARAMS"
    and "\<forall>fmt. scan fmt 0 None = (k, None) \<and> scan fmt (int k) (Some (replicate k 0)) = (k, Some types)"
    and "length types = k" "list_all (\<lambda>t. \<not> is_fp_type fl t) types"
    and "ENGINE_MAXCOUNT_PARAMS < length (fpr_params proto) + k"
  shows "retrace_as_trampoline_setup_params fl dts True scan mem frame proto (replicate ENGINE_MAXCOUNT_PARAMS zero_param) = None"
proof -
  have "k \<noteq> 0" using assms(2,6) by auto
  moreover have "\<not> list_ex (is_fp_type fl) types" using assms(5) by (auto simp: list_ex_iff list_all_iff)
  ultimately show ?thesis
    using assms by (simp add: retrace_as_trampoline_setup_params_def setup_varargs_def Let_def vararg_loop_overflow)
qed

text \<open>
  A function with three named parameters before its variable arguments is never called:
  the pointer is not applied, and the result is -1.
\<close>

theorem three_named_not_called:
  "length params \<ge> 3 \<Longrightarrow> retrace_as_call_real_variadic apply_fn True real_impl params 3 w = (-1, w)"
  by (simp add: retrace_as_call_real_variadic_def Let_def)

end
