(* ===== verification/Func_Filter.thy ===== *)
theory Func_Filter
  imports Retrace_Prelude
begin

section \<open>The per-function log filter (\<open>src/src/core/logger.c\<close>)\<close>

text \<open>
  Two lists of function names read from the environment: an allow list that applies when
  it is not empty, and a deny list.  The engine asks it before it runs any action.
\<close>

definition LOGGER_FUNC_FILTER_MAX :: nat where "LOGGER_FUNC_FILTER_MAX = 64"
definition LOGGER_MAXLEN_FUNC_NAME :: nat where "LOGGER_MAXLEN_FUNC_NAME = 64"

definition filter_store :: "cstr \<Rightarrow> cstr list \<Rightarrow> cstr list" where
  "filter_store item names =
     (if 0 < length item \<and> length names < LOGGER_FUNC_FILTER_MAX
      then names @ [take LOGGER_MAXLEN_FUNC_NAME item] else names)"

fun filter_scan :: "cstr \<Rightarrow> cstr \<Rightarrow> cstr list \<Rightarrow> cstr list" where
  "filter_scan item [] names = filter_store item names"
| "filter_scan item (c # p) names =
     (if c = CHR '','' then filter_scan [] p (filter_store item names) else filter_scan (item @ [c]) p names)"

definition logger_parse_func_filter :: "cstr option \<Rightarrow> cstr list \<Rightarrow> cstr list" where
  "logger_parse_func_filter env_val names = (case env_val of None \<Rightarrow> names | Some s \<Rightarrow> filter_scan [] s [])"

definition logger_filter_contains :: "cstr list \<Rightarrow> cstr \<Rightarrow> bool" where
  "logger_filter_contains names name = list_ex (\<lambda>n. n = name) names"

definition retrace_logger_func_loggable :: "cstr list \<Rightarrow> cstr list \<Rightarrow> cstr \<Rightarrow> bool" where
  "retrace_logger_func_loggable allowed excluded func_name =
     (if length allowed > 0 \<and> \<not> logger_filter_contains allowed func_name then False
      else if logger_filter_contains excluded func_name then False
      else True)"

text \<open>The items of a comma-separated text, in order, the empty ones left out.\<close>

fun csv_items :: "cstr \<Rightarrow> cstr \<Rightarrow> cstr list" where
  "csv_items item [] = (if item = [] then [] else [item])"
| "csv_items item (c # p) =
     (if c = CHR '','' then (if item = [] then [] else [item]) @ csv_items [] p else csv_items (item @ [c]) p)"

lemma filter_scan_items:
  "length names \<le> LOGGER_FUNC_FILTER_MAX \<Longrightarrow>
   filter_scan item p names =
     names @ take (LOGGER_FUNC_FILTER_MAX - length names) (map (take LOGGER_MAXLEN_FUNC_NAME) (csv_items item p))"
  by (induction item p names rule: filter_scan.induct) (auto simp: filter_store_def take_Cons')

lemma parse_func_filter:
  "logger_parse_func_filter (Some s) names =
     take LOGGER_FUNC_FILTER_MAX (map (take LOGGER_MAXLEN_FUNC_NAME) (csv_items [] s))"
  by (simp add: logger_parse_func_filter_def filter_scan_items)

lemma loggable_iff:
  "retrace_logger_func_loggable allowed excluded f \<longleftrightarrow> (allowed = [] \<or> f \<in> set allowed) \<and> f \<notin> set excluded"
  by (auto simp: retrace_logger_func_loggable_def logger_filter_contains_def list_ex_iff)

end
