(* ===== verification/Call_Hash.thy ===== *)
theory Call_Hash
  imports Retrace_Prelude
begin

unbundle bit_operations_syntax

section \<open>Hashes of call sequences (\<open>src/src/core/call_hash.c\<close>)\<close>

text \<open>
  Each thread has a node with a running FNV-1a hash over the names and argument counts
  of its calls.  A node is a position in the list of nodes, oldest first; the registry
  walks it newest first.  Allocation and the thread-specific store can fail.
\<close>

definition FNV_OFFSET :: "64 word" where "FNV_OFFSET = 0xcbf29ce484222325"
definition FNV_PRIME :: "64 word" where "FNV_PRIME = 0x100000001b3"

record thread_hash =
  th_hash :: "64 word"
  th_observed :: bool

record call_hash =
  ch_enabled :: bool
  ch_nodes :: "thread_hash list"
  ch_tss :: "nat \<rightharpoonup> nat"
  retrace_call_hash_last :: "64 word"

definition retrace_call_hash_init :: "cstr option \<Rightarrow> int \<Rightarrow> int \<Rightarrow> call_hash \<Rightarrow> int \<times> call_hash" where
  "retrace_call_hash_init env mutex_rc tss_rc g =
     (let g1 = g\<lparr>ch_enabled := (case env of None \<Rightarrow> False | Some s \<Rightarrow> cget s 0 \<noteq> nul \<and> cget s 0 \<noteq> CHR ''0'')\<rparr> in
      if mutex_rc \<noteq> 0 then (-1, g1) else if tss_rc \<noteq> 0 then (-1, g1) else (0, g1\<lparr>ch_nodes := []\<rparr>))"

definition thread_hash_get :: "bool \<Rightarrow> bool \<Rightarrow> nat \<Rightarrow> call_hash \<Rightarrow> nat option \<times> call_hash" where
  "thread_hash_get malloc_ok tss_ok tid g =
     (case ch_tss g tid of
        Some i \<Rightarrow> (Some i, g)
      | None \<Rightarrow>
          if \<not> malloc_ok then (None, g)
          else
            let i = length (ch_nodes g);
                g1 = g\<lparr>ch_nodes := ch_nodes g @ [\<lparr>th_hash = FNV_OFFSET, th_observed = False\<rparr>]\<rparr> in
            if \<not> tss_ok then (None, g1) else (Some i, g1\<lparr>ch_tss := (ch_tss g1)(tid \<mapsto> i)\<rparr>))"

definition hash_key_destructor :: "nat \<Rightarrow> call_hash \<Rightarrow> call_hash" where
  "hash_key_destructor tid g = g\<lparr>ch_tss := (ch_tss g)(tid := None)\<rparr>"

fun name_mix :: "64 word \<Rightarrow> cstr \<Rightarrow> 64 word" where
  "name_mix h [] = h"
| "name_mix h (c # s) = name_mix ((h XOR of_char c) * FNV_PRIME) s"

definition call_mix :: "64 word \<Rightarrow> cstr \<times> nat \<Rightarrow> 64 word" where
  "call_mix h c = (name_mix h (fst c) XOR of_nat (snd c)) * FNV_PRIME"

definition retrace_call_hash_observe ::
    "bool \<Rightarrow> bool \<Rightarrow> nat \<Rightarrow> cstr option \<Rightarrow> nat \<Rightarrow> call_hash \<Rightarrow> call_hash" where
  "retrace_call_hash_observe malloc_ok tss_ok tid func_name arg_count g =
     (case func_name of
        None \<Rightarrow> g
      | Some f \<Rightarrow>
          if \<not> ch_enabled g then g
          else
            (case thread_hash_get malloc_ok tss_ok tid g of
               (None, g1) \<Rightarrow> g1
             | (Some i, g1) \<Rightarrow>
                 let h = call_mix (th_hash (ch_nodes g1 ! i)) (f, arg_count) in
                 g1\<lparr>ch_nodes := (ch_nodes g1)[i := \<lparr>th_hash = h, th_observed = True\<rparr>],
                    retrace_call_hash_last := h\<rparr>))"

definition retrace_call_hash_get :: "bool \<Rightarrow> bool \<Rightarrow> nat \<Rightarrow> call_hash \<Rightarrow> 64 word \<times> call_hash" where
  "retrace_call_hash_get malloc_ok tss_ok tid g =
     (case thread_hash_get malloc_ok tss_ok tid g of
        (None, g1) \<Rightarrow> (0, g1)
      | (Some i, g1) \<Rightarrow> (if th_observed (ch_nodes g1 ! i) then th_hash (ch_nodes g1 ! i) else 0, g1))"

definition retrace_call_hash_walk :: "call_hash \<Rightarrow> 64 word list" where
  "retrace_call_hash_walk g = map th_hash (filter th_observed (rev (ch_nodes g)))"

definition retrace_call_hash_deinit :: "call_hash \<Rightarrow> call_hash" where
  "retrace_call_hash_deinit g = g\<lparr>ch_nodes := []\<rparr>"

subsection \<open>A thread's hash is that of its own calls\<close>

fun observe_run :: "(nat \<times> cstr \<times> nat) list \<Rightarrow> call_hash \<Rightarrow> call_hash" where
  "observe_run [] g = g"
| "observe_run ((tid, f, n) # cs) g = observe_run cs (retrace_call_hash_observe True True tid (Some f) n g)"

definition thread_calls :: "nat \<Rightarrow> (nat \<times> cstr \<times> nat) list \<Rightarrow> (cstr \<times> nat) list" where
  "thread_calls tid cs = map snd (filter (\<lambda>c. fst c = tid) cs)"

definition hash_of :: "(cstr \<times> nat) list \<Rightarrow> 64 word" where
  "hash_of cs = foldl call_mix FNV_OFFSET cs"

text \<open>The nodes are exactly those of the threads that have made a call.\<close>

definition ch_holds :: "call_hash \<Rightarrow> (nat \<times> cstr \<times> nat) list \<Rightarrow> bool" where
  "ch_holds g cs \<longleftrightarrow> ch_enabled g \<and> inj_on (ch_tss g) (dom (ch_tss g)) \<and>
     (\<forall>tid. case ch_tss g tid of
        None \<Rightarrow> thread_calls tid cs = []
      | Some i \<Rightarrow> i < length (ch_nodes g) \<and> thread_calls tid cs \<noteq> [] \<and>
          ch_nodes g ! i = \<lparr>th_hash = hash_of (thread_calls tid cs), th_observed = True\<rparr>)"

lemma thread_calls_snoc: "thread_calls tid (cs @ [(t, f, n)]) = thread_calls tid cs @ (if t = tid then [(f, n)] else [])"
  by (simp add: thread_calls_def)

text \<open>What the thread's entry says, for one thread.\<close>

definition hash_node_ok :: "call_hash \<Rightarrow> (nat \<times> cstr \<times> nat) list \<Rightarrow> nat \<Rightarrow> bool" where
  "hash_node_ok g cs tid \<longleftrightarrow>
     (case ch_tss g tid of
        None \<Rightarrow> thread_calls tid cs = []
      | Some i \<Rightarrow> i < length (ch_nodes g) \<and> thread_calls tid cs \<noteq> [] \<and>
          ch_nodes g ! i = \<lparr>th_hash = hash_of (thread_calls tid cs), th_observed = True\<rparr>)"

lemma ch_holds_node: "ch_holds g cs \<longleftrightarrow> ch_enabled g \<and> inj_on (ch_tss g) (dom (ch_tss g)) \<and> (\<forall>tid. hash_node_ok g cs tid)"
  by (simp add: ch_holds_def hash_node_ok_def)

lemma observe_known:
  assumes "ch_holds g cs" "ch_tss g tid = Some i"
  shows "ch_holds (retrace_call_hash_observe True True tid (Some f) n g) (cs @ [(tid, f, n)])"
proof -
  let ?h = "call_mix (th_hash (ch_nodes g ! i)) (f, n)"
  let ?g = "g\<lparr>ch_nodes := (ch_nodes g)[i := \<lparr>th_hash = ?h, th_observed = True\<rparr>], retrace_call_hash_last := ?h\<rparr>"
  have g': "retrace_call_hash_observe True True tid (Some f) n g = ?g"
    using assms by (simp add: retrace_call_hash_observe_def thread_hash_get_def ch_holds_def Let_def)
  have mine: "hash_node_ok g cs tid" and inj: "inj_on (ch_tss g) (dom (ch_tss g))" using assms(1) by (auto simp: ch_holds_node)
  have "hash_node_ok ?g (cs @ [(tid, f, n)]) t" for t
  proof (cases "t = tid")
    case True
    then show ?thesis using mine assms(2) by (simp add: hash_node_ok_def thread_calls_snoc hash_of_def)
  next
    case False
    have "ch_tss g t \<noteq> Some i" using inj False assms(2) by (metis domI inj_onD)
    moreover have "hash_node_ok g cs t" using assms(1) by (simp add: ch_holds_node)
    ultimately show ?thesis using False by (auto simp: hash_node_ok_def thread_calls_snoc split: option.split_asm option.split)
  qed
  then show ?thesis unfolding g' using assms(1) by (simp add: ch_holds_node)
qed

lemma observe_new:
  assumes "ch_holds g cs" "ch_tss g tid = None"
  shows "ch_holds (retrace_call_hash_observe True True tid (Some f) n g) (cs @ [(tid, f, n)])"
proof -
  let ?i = "length (ch_nodes g)"
  let ?h = "call_mix FNV_OFFSET (f, n)"
  let ?g = "g\<lparr>ch_nodes := ch_nodes g @ [\<lparr>th_hash = ?h, th_observed = True\<rparr>], ch_tss := (ch_tss g)(tid \<mapsto> ?i),
     retrace_call_hash_last := ?h\<rparr>"
  have g': "retrace_call_hash_observe True True tid (Some f) n g = ?g"
    using assms by (simp add: retrace_call_hash_observe_def thread_hash_get_def ch_holds_def Let_def list_update_append)
  have new: "ch_tss g t \<noteq> Some ?i" for t
  proof -
    have "hash_node_ok g cs t" using assms(1) by (simp add: ch_holds_node)
    then show ?thesis by (auto simp: hash_node_ok_def split: option.split_asm)
  qed
  have inj: "inj_on ((ch_tss g)(tid \<mapsto> ?i)) (insert tid (dom (ch_tss g)))"
  proof (rule inj_onI)
    fix x y assume "x \<in> insert tid (dom (ch_tss g))" "y \<in> insert tid (dom (ch_tss g))"
      and eq: "((ch_tss g)(tid \<mapsto> ?i)) x = ((ch_tss g)(tid \<mapsto> ?i)) y"
    moreover have "inj_on (ch_tss g) (dom (ch_tss g))" using assms(1) by (simp add: ch_holds_def)
    ultimately show "x = y" using new new [symmetric] by (cases "x = tid"; cases "y = tid") (auto dest: inj_onD)
  qed
  have "hash_node_ok ?g (cs @ [(tid, f, n)]) t" for t
  proof -
    have "hash_node_ok g cs t" "hash_node_ok g cs tid" using assms(1) by (auto simp: ch_holds_node)
    then show ?thesis using assms(2)
      by (cases "t = tid") (auto simp: hash_node_ok_def thread_calls_snoc hash_of_def nth_append split: option.split_asm option.split)
  qed
  then show ?thesis unfolding g' using assms(1) inj by (simp add: ch_holds_node)
qed

lemma observe_run_holds: "ch_holds g cs \<Longrightarrow> ch_holds (observe_run ds g) (cs @ ds)"
proof (induction ds arbitrary: g cs)
  case (Cons d ds)
  obtain tid f n where d: "d = (tid, f, n)" by (cases d)
  have "ch_holds (retrace_call_hash_observe True True tid (Some f) n g) (cs @ [d])"
    using observe_known [OF Cons.prems] observe_new [OF Cons.prems] d by (cases "ch_tss g tid") auto
  from Cons.IH [OF this] show ?case by (simp add: d)
qed simp

definition empty_call_hash :: call_hash where
  "empty_call_hash = \<lparr>ch_enabled = True, ch_nodes = [], ch_tss = Map.empty, retrace_call_hash_last = 0\<rparr>"

text \<open>
  With hashing enabled and no allocation failing, after any interleaving of calls by any
  threads a thread's hash is that of its own calls in order, independent of what the
  other threads did, and 0 for a thread that made none.
\<close>

theorem call_hash_per_thread:
  "fst (retrace_call_hash_get True True tid (observe_run cs empty_call_hash)) =
     (if thread_calls tid cs = [] then 0 else hash_of (thread_calls tid cs))"
proof -
  let ?g = "observe_run cs empty_call_hash"
  have "ch_holds empty_call_hash []" by (simp add: ch_holds_def empty_call_hash_def thread_calls_def)
  then have "hash_node_ok ?g cs tid" using observe_run_holds [of empty_call_hash "[]" cs] by (simp add: ch_holds_node)
  then show ?thesis
    by (auto simp: hash_node_ok_def retrace_call_hash_get_def thread_hash_get_def Let_def split: option.split_asm)
qed

end
