(* ===== verification/Config_Cache.thy ===== *)
theory Config_Cache
  imports Json Open_Addressing
begin

unbundle bit_operations_syntax

section \<open>The script name index (\<open>src/src/core/config_cache.c\<close>)\<close>

text \<open>
  A snapshot of the scripts that name one function, in the order of the configuration,
  with a hash index over it.  The published pointer \<open>g_snap\<close> is an option; a build makes a
  new snapshot and replaces it.  A script is the JSON object itself.  The two allocations
  of a build are Boolean outcomes, and a loop without a bound of its own is an option.
\<close>

definition CONFIG_CACHE_MAX_ENTRIES :: nat where "CONFIG_CACHE_MAX_ENTRIES = 256"

record cache_entry =
  ce_func_name :: cstr
  ce_script :: json_object

record cache_snap =
  cs_entries :: "cache_entry list"
  cs_buckets :: "nat list"
  cs_nbuckets :: nat

fun name_hash_loop :: "32 word \<Rightarrow> cstr \<Rightarrow> 32 word" where
  "name_hash_loop h [] = h"
| "name_hash_loop h (c # s) = name_hash_loop ((h XOR of_char c) * 16777619) s"

definition name_hash :: "cstr \<Rightarrow> 32 word" where
  "name_hash s = name_hash_loop 2166136261 s"

fun cache_collect :: "json_array \<Rightarrow> cache_entry list \<Rightarrow> cache_entry list" where
  "cache_collect [] es = es"
| "cache_collect (v # vs) es =
     (if length es < CONFIG_CACHE_MAX_ENTRIES then
        (case json_value_get_object (Some v) of
           None \<Rightarrow> cache_collect vs es
         | Some script \<Rightarrow>
             (case json_object_get_string (Some script) ''func_name'' of
                None \<Rightarrow> cache_collect vs es
              | Some name \<Rightarrow>
                  if name = [] then cache_collect vs es
                  else if name = ''*'' then cache_collect vs es
                  else cache_collect vs (es @ [\<lparr>ce_func_name = name, ce_script = script\<rparr>])))
      else es)"

partial_function (option) bucket_count :: "nat \<Rightarrow> nat \<Rightarrow> nat option" where
  "bucket_count nb count = (if nb < count * 4 then bucket_count (push_bit 1 nb) count else Some nb)"

definition cache_index :: "cache_entry list \<Rightarrow> bool \<Rightarrow> cache_snap option" where
  "cache_index es buckets_ok =
     (case bucket_count 8 (length es) of
        None \<Rightarrow> None
      | Some nb \<Rightarrow>
          if buckets_ok then
            (case oa_fill (replicate nb 0) (map (\<lambda>e. unat (name_hash (ce_func_name e))) es) 0 of
               None \<Rightarrow> None
             | Some bs \<Rightarrow> Some \<lparr>cs_entries = es, cs_buckets = bs, cs_nbuckets = nb\<rparr>)
          else Some \<lparr>cs_entries = es, cs_buckets = [], cs_nbuckets = 0\<rparr>)"

definition retrace_config_cache_build ::
    "bool \<Rightarrow> bool \<Rightarrow> json_object option \<Rightarrow> cache_snap option \<Rightarrow> (int \<times> cache_snap option) option" where
  "retrace_config_cache_build snap_ok buckets_ok conf g_snap =
     (case conf of
        None \<Rightarrow> Some (-1, g_snap)
      | Some _ \<Rightarrow>
          (case json_object_get_array conf ''intercept_scripts'' of
             None \<Rightarrow> Some (-1, g_snap)
           | Some scripts \<Rightarrow>
               if \<not> snap_ok then Some (-1, g_snap)
               else
                 (case cache_index (cache_collect scripts []) buckets_ok of
                    None \<Rightarrow> None
                  | Some snap \<Rightarrow> Some (0, Some snap))))"

fun linear_lookup :: "cache_entry list \<Rightarrow> cstr \<Rightarrow> json_object option" where
  "linear_lookup [] func_name = None"
| "linear_lookup (e # es) func_name =
     (if ce_func_name e = func_name then Some (ce_script e) else linear_lookup es func_name)"

definition retrace_config_cache_lookup ::
    "cstr option \<Rightarrow> cache_snap option \<Rightarrow> json_object option option" where
  "retrace_config_cache_lookup func_name g_snap =
     (case (func_name, g_snap) of
        (Some f, Some snap) \<Rightarrow>
          if 0 < cs_nbuckets snap then
            (case oa_find (cs_buckets snap) (\<lambda>i. ce_func_name (cs_entries snap ! i) = f)
                    (unat (name_hash f)) of
               None \<Rightarrow> None
             | Some hit \<Rightarrow> Some (map_option (\<lambda>i. ce_script (cs_entries snap ! i)) hit))
          else Some (linear_lookup (cs_entries snap) f)
      | _ \<Rightarrow> Some None)"

definition retrace_config_cache_clear :: "bool \<Rightarrow> cache_snap option \<Rightarrow> cache_snap option" where
  "retrace_config_cache_clear calloc_ok g_snap =
     (if calloc_ok then Some \<lparr>cs_entries = [], cs_buckets = [], cs_nbuckets = 0\<rparr> else g_snap)"

definition retrace_config_cache_count :: "cache_snap option \<Rightarrow> nat" where
  "retrace_config_cache_count g_snap = (case g_snap of None \<Rightarrow> 0 | Some snap \<Rightarrow> length (cs_entries snap))"

subsection \<open>The number of buckets\<close>

text \<open>Doubling from a power of two ends, at a power of two that leaves a bucket free.\<close>

lemma bucket_count_returns: "\<exists>j\<ge>k. bucket_count (2 ^ k) n = Some (2 ^ j) \<and> n * 4 \<le> 2 ^ j"
proof (induction "n * 4 - 2 ^ k" arbitrary: k rule: less_induct)
  case less
  show ?case
  proof (cases "(2::nat) ^ k < n * 4")
    case True
    have "\<exists>j\<ge>Suc k. bucket_count (2 ^ Suc k) n = Some (2 ^ j) \<and> n * 4 \<le> 2 ^ j"
      using True by (intro less) (simp add: diff_less_mono2)
    moreover have "bucket_count (2 ^ k) n = bucket_count (2 ^ Suc k) n"
      using True by (subst bucket_count.simps) (simp add: push_bit_eq_mult mult.commute)
    ultimately show ?thesis by (metis Suc_leD)
  next
    case False
    then show ?thesis by (intro exI [of _ k]) (simp add: bucket_count.simps)
  qed
qed

subsection \<open>The index finds what a scan finds\<close>

definition snap_inv :: "cache_snap \<Rightarrow> bool" where
  "snap_inv s \<longleftrightarrow> cs_nbuckets s = 0 \<or>
     (\<exists>k. length (cs_entries s) < 2 ^ k \<and>
        oa_inv k (\<lambda>i. unat (name_hash (ce_func_name (cs_entries s ! i)))) (length (cs_entries s)) (cs_buckets s))"

lemma linear_lookup_find:
  "linear_lookup es f =
     map_option (\<lambda>i. ce_script (es ! i)) (find (\<lambda>i. ce_func_name (es ! i) = f) [0..<length es])"
proof (induction es)
  case (Cons e es)
  have "[0..<length (e # es)] = 0 # map Suc [0..<length es]" by (simp add: upt_conv_Cons map_Suc_upt del: upt_Suc)
  moreover have "find P (map Suc xs) = map_option Suc (find (\<lambda>i. P (Suc i)) xs)" for P and xs :: "nat list"
    by (induction xs) auto
  ultimately show ?case using Cons by (simp add: option.map_comp comp_def del: upt_Suc)
qed simp

lemma snap_inv_lookup:
  assumes "snap_inv s"
  shows "retrace_config_cache_lookup (Some f) (Some s) = Some (linear_lookup (cs_entries s) f)"
proof (cases "cs_nbuckets s = 0")
  case True
  then show ?thesis by (simp add: retrace_config_cache_lookup_def)
next
  case False
  with assms obtain k where
    k: "length (cs_entries s) < 2 ^ k"
      "oa_inv k (\<lambda>i. unat (name_hash (ce_func_name (cs_entries s ! i)))) (length (cs_entries s)) (cs_buckets s)"
    by (auto simp: snap_inv_def)
  show ?thesis using False oa_find_first [OF k(2,1), of "\<lambda>i. ce_func_name (cs_entries s ! i) = f" "unat (name_hash f)"]
    by (simp add: retrace_config_cache_lookup_def linear_lookup_find)
qed

lemma cache_index_ok: "\<exists>s. cache_index es buckets_ok = Some s \<and> snap_inv s \<and> cs_entries s = es"
proof -
  obtain k where k: "bucket_count 8 (length es) = Some (2 ^ k)" "length es * 4 \<le> 2 ^ k" "3 \<le> k"
    using bucket_count_returns [of 3 "length es"] by auto
  have "(8 :: nat) \<le> 2 ^ k" using power_increasing [OF k(3), of "2 :: nat"] by simp
  then have room: "length es < 2 ^ k" using k(2) by (cases "length es") auto
  let ?h = "\<lambda>i. unat (name_hash (ce_func_name (es ! i)))"
  define hs where "hs = map (\<lambda>e. unat (name_hash (ce_func_name e))) es"
  have len: "length hs = length es" by (simp add: hs_def)
  have hs: "hs = map ?h [0..<0 + length hs]"
    by (rule nth_equalityI) (simp_all add: hs_def)
  have "0 + length hs \<le> 2 ^ k" using room by (simp add: len)
  from oa_fill_inv [OF oa_inv_empty hs this] obtain bs where
    bs: "oa_fill (replicate (2 ^ k) 0) hs 0 = Some bs" "oa_inv k ?h (length es) bs" by (auto simp: len)
  show ?thesis
  proof (cases buckets_ok)
    case True
    then show ?thesis using k(1) bs room by (auto simp: cache_index_def snap_inv_def hs_def)
  next
    case False
    then show ?thesis using k(1) by (simp add: cache_index_def snap_inv_def)
  qed
qed

subsection \<open>Which script a name finds\<close>

definition script_name :: "json \<Rightarrow> cstr option" where
  "script_name v = json_object_get_string (json_value_get_object (Some v)) ''func_name''"

text \<open>The scripts that name one function, with their names, in order.\<close>

fun named_scripts :: "json_array \<Rightarrow> (cstr \<times> json_object) list" where
  "named_scripts [] = []"
| "named_scripts (v # vs) =
     (case json_value_get_object (Some v) of
        None \<Rightarrow> named_scripts vs
      | Some script \<Rightarrow>
          (case script_name v of
             None \<Rightarrow> named_scripts vs
           | Some name \<Rightarrow> if name \<in> {[], ''*''} then named_scripts vs else (name, script) # named_scripts vs))"

lemma cache_collect_named:
  "length es \<le> CONFIG_CACHE_MAX_ENTRIES \<Longrightarrow>
   map (\<lambda>e. (ce_func_name e, ce_script e)) (cache_collect vs es) =
   take CONFIG_CACHE_MAX_ENTRIES (map (\<lambda>e. (ce_func_name e, ce_script e)) es @ named_scripts vs)"
proof (induction vs arbitrary: es)
  case (Cons v vs)
  show ?case
  proof (cases "length es < CONFIG_CACHE_MAX_ENTRIES")
    case True
    have step: "cache_collect (v # vs) es =
        (case json_value_get_object (Some v) of None \<Rightarrow> cache_collect vs es
         | Some script \<Rightarrow> (case script_name v of None \<Rightarrow> cache_collect vs es
             | Some name \<Rightarrow> if name \<in> {[], ''*''} then cache_collect vs es
                 else cache_collect vs (es @ [\<lparr>ce_func_name = name, ce_script = script\<rparr>])))"
      using True by (auto simp: script_name_def split: option.split)
    consider "named_scripts (v # vs) = named_scripts vs" "cache_collect (v # vs) es = cache_collect vs es"
      | name script where "named_scripts (v # vs) = (name, script) # named_scripts vs"
          "cache_collect (v # vs) es = cache_collect vs (es @ [\<lparr>ce_func_name = name, ce_script = script\<rparr>])"
      unfolding step named_scripts.simps 
      by (cases "json_value_get_object (Some v)"; cases "script_name v"; cases "the (script_name v) \<in> {[], ''*''}") auto
    then show ?thesis
    proof cases
      case 1
      then show ?thesis using Cons by simp
    next
      case 2
      then show ?thesis using Cons.IH [of "es @ [\<lparr>ce_func_name = name, ce_script = script\<rparr>]"] True
        by (simp del: cache_collect.simps named_scripts.simps)
    qed
  next
    case False
    then show ?thesis using Cons.prems by simp
  qed
qed simp

lemma linear_lookup_map_of:
  "linear_lookup es f = map_of (map (\<lambda>e. (ce_func_name e, ce_script e)) es) f"
  by (induction es) auto

lemma config_cache_built:
  assumes "json_object_get_array conf ''intercept_scripts'' = Some scripts"
  obtains s where "retrace_config_cache_build calloc_ok buckets_ok conf g =
      Some (if calloc_ok then (0, Some s) else (-1, g))"
    "\<And>f. retrace_config_cache_lookup (Some f) (Some s) =
      Some (map_of (take CONFIG_CACHE_MAX_ENTRIES (named_scripts scripts)) f)"
proof -
  obtain ob where ob: "conf = Some ob"
    using assms by (cases conf) (auto simp: json_object_get_array_def json_object_get_value_def)
  obtain s where s: "cache_index (cache_collect scripts []) buckets_ok = Some s" "snap_inv s"
      "cs_entries s = cache_collect scripts []" using cache_index_ok by blast
  show thesis
  proof
    show "retrace_config_cache_build calloc_ok buckets_ok conf g =
        Some (if calloc_ok then (0, Some s) else (-1, g))"
      using assms s(1) ob by (simp add: retrace_config_cache_build_def)
    show "retrace_config_cache_lookup (Some f) (Some s) =
        Some (map_of (take CONFIG_CACHE_MAX_ENTRIES (named_scripts scripts)) f)" for f
      using snap_inv_lookup [OF s(2)] s(3) cache_collect_named [of "[]" scripts] by (simp add: linear_lookup_map_of)
  qed
qed

text \<open>
  A build always returns, and only replaces the published snapshot when it reports
  success.  It succeeds exactly when there is a configuration with a script array and the
  snapshot can be allocated.  After it a look-up of any name always returns and
  gives the first script of that name among the first 256 scripts that name one function,
  whatever the hash values and whether or not the index could be allocated.
\<close>

theorem config_cache_lookup_first:
  "\<exists>rc g'. retrace_config_cache_build calloc_ok buckets_ok conf g = Some (rc, g') \<and>
     (rc = 0 \<longleftrightarrow> calloc_ok \<and> json_object_get_array conf ''intercept_scripts'' \<noteq> None) \<and>
     (case json_object_get_array conf ''intercept_scripts'' of
        Some scripts \<Rightarrow> if calloc_ok
          then \<forall>f. retrace_config_cache_lookup (Some f) g' =
                 Some (map_of (take CONFIG_CACHE_MAX_ENTRIES (named_scripts scripts)) f)
          else g' = g
      | None \<Rightarrow> g' = g)"
proof (cases "json_object_get_array conf ''intercept_scripts''")
  case None
  then show ?thesis by (cases conf) (simp_all add: retrace_config_cache_build_def)
next
  case (Some scripts)
  from config_cache_built [OF Some, of calloc_ok buckets_ok g] obtain s where
    "retrace_config_cache_build calloc_ok buckets_ok conf g = Some (if calloc_ok then (0, Some s) else (-1, g))"
    "\<And>f. retrace_config_cache_lookup (Some f) (Some s) =
      Some (map_of (take CONFIG_CACHE_MAX_ENTRIES (named_scripts scripts)) f)" by blast
  then show ?thesis using Some by simp
qed

end
