(* ===== verification/Script_Resolver.thy ===== *)
theory Script_Resolver
  imports Config_Cache Caller_Cache
begin

section \<open>Choosing the script of a call (\<open>src/src/core/script_resolver.c\<close>)\<close>

text \<open>
  The resolver first asks the name index for a script without call-site conditions, then
  scans the configured scripts in order.  Call-site conditions are evaluated through the
  caller cache, which is threaded through; \<open>dladdr\<close> is the system's symbol look-up.
  The 64-bit address and the \<open>long long\<close> it is compared as are the same word.
\<close>

definition eval_caller_match_entry ::
    "(addr \<Rightarrow> rc_dl_info option) \<Rightarrow> addr \<Rightarrow> json_object option \<Rightarrow> caller_cache \<Rightarrow> int \<times> caller_cache" where
  "eval_caller_match_entry dladdr a entry c =
     (if entry = None then (-1, c)
      else case retrace_caller_match_kind_from_string (json_object_get_string entry ''match_type'') of
          CM_ADDRESS \<Rightarrow> (retrace_caller_match_address a (double_to_u64 (json_object_get_number entry ''value'')), c)
        | CM_SYMBOL \<Rightarrow> retrace_caller_match_symbol dladdr a (json_object_get_string entry ''value'') c
        | CM_MODULE_OFFSET \<Rightarrow>
            retrace_caller_match_module_offset dladdr a (json_object_get_string entry ''module'')
              (double_to_u64 (json_object_get_number entry ''offset'')) c
        | CM_UNKNOWN \<Rightarrow> (-1, c))"

fun caller_matches_loop ::
    "(addr \<Rightarrow> rc_dl_info option) \<Rightarrow> addr \<Rightarrow> json_array \<Rightarrow> bool \<Rightarrow> caller_cache \<Rightarrow> int \<times> caller_cache" where
  "caller_matches_loop dladdr a [] any_evaluated c = (if any_evaluated then 0 else -1, c)"
| "caller_matches_loop dladdr a (v # vs) any_evaluated c =
     (case eval_caller_match_entry dladdr a (json_value_get_object (Some v)) c of
        (rc, c1) \<Rightarrow>
          if rc = 1 then (1, c1)
          else caller_matches_loop dladdr a vs (any_evaluated \<or> rc \<noteq> -1) c1)"

definition eval_caller_matches ::
    "(addr \<Rightarrow> rc_dl_info option) \<Rightarrow> addr \<Rightarrow> json_object option \<Rightarrow> caller_cache \<Rightarrow> int \<times> caller_cache" where
  "eval_caller_matches dladdr a i_script c =
     (case json_object_get_array i_script ''caller_matches'' of
        None \<Rightarrow> (-1, c)
      | Some matches \<Rightarrow> caller_matches_loop dladdr a matches False c)"

fun script_scan ::
    "(addr \<Rightarrow> rc_dl_info option) \<Rightarrow> json_array \<Rightarrow> cstr \<Rightarrow> addr \<Rightarrow> json_object option \<Rightarrow> caller_cache \<Rightarrow>
     json_object option \<times> caller_cache" where
  "script_scan dladdr [] func_name a ret_cand c = (ret_cand, c)"
| "script_scan dladdr (v # vs) func_name a ret_cand c =
     (let i_script = json_value_get_object (Some v) in
      case json_object_get_string i_script ''func_name'' of
        None \<Rightarrow> script_scan dladdr vs func_name a ret_cand c
      | Some i_func \<Rightarrow>
          if i_func = ''*'' then (i_script, c)
          else if i_func = func_name then
            (case eval_caller_matches dladdr a i_script c of
               (rc, c1) \<Rightarrow>
                 if rc = 1 then (i_script, c1)
                 else if rc = 0 then script_scan dladdr vs func_name a ret_cand c1
                 else if a = 0 then (i_script, c1)
                 else
                   let i_ret_addr = json_object_get_number i_script ''return_addr'' in
                   if i_ret_addr = 0 then
                     script_scan dladdr vs func_name a (if ret_cand = None then i_script else ret_cand) c1
                   else if a = double_to_s64 i_ret_addr then (i_script, c1)
                   else script_scan dladdr vs func_name a ret_cand c1)
          else script_scan dladdr vs func_name a ret_cand c)"

definition retrace_script_find ::
    "(addr \<Rightarrow> rc_dl_info option) \<Rightarrow> cache_snap option \<Rightarrow> json_array option \<Rightarrow> cstr \<Rightarrow> addr \<Rightarrow> caller_cache \<Rightarrow>
     (json_object option \<times> caller_cache) option" where
  "retrace_script_find dladdr g_snap i_array func_name a c =
     (case retrace_config_cache_lookup (Some func_name) g_snap of
        None \<Rightarrow> None
      | Some cached \<Rightarrow>
          if cached \<noteq> None \<and> json_object_get_array cached ''caller_matches'' = None \<and>
             json_object_get_number cached ''return_addr'' = 0
          then Some (cached, c)
          else Some (script_scan dladdr (case i_array of None \<Rightarrow> [] | Some vs \<Rightarrow> vs) func_name a None c))"

subsection \<open>What a call-site condition says, without the cache\<close>

definition entry_verdict :: "(addr \<Rightarrow> rc_dl_info option) \<Rightarrow> addr \<Rightarrow> json \<Rightarrow> int" where
  "entry_verdict dladdr a v =
     (let entry = json_value_get_object (Some v) in
      if entry = None \<or> a = 0 then -1
      else case retrace_caller_match_kind_from_string (json_object_get_string entry ''match_type'') of
          CM_ADDRESS \<Rightarrow> if a = double_to_u64 (json_object_get_number entry ''value'') then 1 else 0
        | CM_SYMBOL \<Rightarrow>
            (case json_object_get_string entry ''value'' of
               None \<Rightarrow> -1 | Some s \<Rightarrow> if s = [] then -1 else symbol_match dladdr a s)
        | CM_MODULE_OFFSET \<Rightarrow>
            (case json_object_get_string entry ''module'' of
               None \<Rightarrow> -1
             | Some base \<Rightarrow> if base = [] then -1
                 else module_match dladdr a base (double_to_u64 (json_object_get_number entry ''offset'')))
        | CM_UNKNOWN \<Rightarrow> -1)"

definition script_verdict :: "(addr \<Rightarrow> rc_dl_info option) \<Rightarrow> addr \<Rightarrow> json \<Rightarrow> int" where
  "script_verdict dladdr a v =
     (case json_object_get_array (json_value_get_object (Some v)) ''caller_matches'' of
        None \<Rightarrow> -1
      | Some entries \<Rightarrow>
          if list_ex (\<lambda>e. entry_verdict dladdr a e = 1) entries then 1
          else if list_ex (\<lambda>e. entry_verdict dladdr a e \<noteq> -1) entries then 0 else -1)"

lemma cached_dladdr_ok:
  assumes "cache_ok dladdr c" "a \<noteq> 0"
  obtains c1 where "cached_dladdr dladdr a c = (dladdr a, c1)" "cache_ok dladdr c1"
  using cached_dladdr_faithful [of dladdr c a] assms by (metis cache_ok_faithful prod.collapse)

lemma symbol_verdict:
  assumes "cache_ok dladdr c"
  shows "\<exists>c'. retrace_caller_match_symbol dladdr a s c =
      ((if a = 0 then -1 else case s of None \<Rightarrow> -1 | Some n \<Rightarrow> if n = [] then -1 else symbol_match dladdr a n), c') \<and>
    cache_ok dladdr c'"
proof (cases "a = 0 \<or> s = None \<or> s = Some []")
  case True
  then show ?thesis using assms by (auto simp: retrace_caller_match_symbol_def split: option.split)
next
  case False
  then obtain n where n: "s = Some n" "n \<noteq> []" "a \<noteq> 0" by auto
  obtain c1 where "cached_dladdr dladdr a c = (dladdr a, c1)" "cache_ok dladdr c1"
    using cached_dladdr_ok [OF assms n(3)] by blast
  then show ?thesis using symbol_match_cached n by simp
qed

lemma module_verdict:
  assumes "cache_ok dladdr c"
  shows "\<exists>c'. retrace_caller_match_module_offset dladdr a s off c =
      ((if a = 0 then -1 else case s of None \<Rightarrow> -1 | Some n \<Rightarrow> if n = [] then -1 else module_match dladdr a n off), c') \<and>
    cache_ok dladdr c'"
proof (cases "a = 0 \<or> s = None \<or> s = Some []")
  case True
  then show ?thesis using assms by (auto simp: retrace_caller_match_module_offset_def split: option.split)
next
  case False
  then obtain n where n: "s = Some n" "n \<noteq> []" "a \<noteq> 0" by auto
  obtain c1 where "cached_dladdr dladdr a c = (dladdr a, c1)" "cache_ok dladdr c1"
    using cached_dladdr_ok [OF assms n(3)] by blast
  then show ?thesis using module_match_cached n by simp
qed

lemma entry_verdict_eval:
  assumes "cache_ok dladdr c"
  shows "\<exists>c'. eval_caller_match_entry dladdr a (json_value_get_object (Some v)) c = (entry_verdict dladdr a v, c') \<and>
    cache_ok dladdr c'"
proof (cases "retrace_caller_match_kind_from_string (json_object_get_string (json_value_get_object (Some v)) ''match_type'')")
  case CM_SYMBOL
  then show ?thesis using assms symbol_verdict [OF assms, of a "json_object_get_string (json_value_get_object (Some v)) ''value''"]
    by (auto simp: eval_caller_match_entry_def entry_verdict_def Let_def)
next
  case CM_MODULE_OFFSET
  then show ?thesis using assms module_verdict [OF assms, of a "json_object_get_string (json_value_get_object (Some v)) ''module''"
        "double_to_u64 (json_object_get_number (json_value_get_object (Some v)) ''offset'')"]
    by (auto simp: eval_caller_match_entry_def entry_verdict_def Let_def)
qed (use assms in \<open>auto simp: eval_caller_match_entry_def entry_verdict_def Let_def retrace_caller_match_address_def\<close>)

lemma caller_matches_loop_verdict:
  assumes "cache_ok dladdr c"
  shows "\<exists>c'. caller_matches_loop dladdr a vs any c =
      (if list_ex (\<lambda>e. entry_verdict dladdr a e = 1) vs then 1
       else if any \<or> list_ex (\<lambda>e. entry_verdict dladdr a e \<noteq> -1) vs then 0 else -1, c') \<and> cache_ok dladdr c'"
  using assms
proof (induction vs arbitrary: any c)
  case (Cons v vs)
  obtain c1 where c1: "eval_caller_match_entry dladdr a (json_value_get_object (Some v)) c = (entry_verdict dladdr a v, c1)"
      "cache_ok dladdr c1" using entry_verdict_eval [OF Cons.prems] by blast
  show ?case
    using Cons.IH [OF c1(2), of "any \<or> entry_verdict dladdr a v \<noteq> -1"] c1
    by (cases "entry_verdict dladdr a v = 1") auto
qed simp

lemma script_verdict_eval:
  assumes "cache_ok dladdr c"
  obtains c1 where "eval_caller_matches dladdr a (json_value_get_object (Some v)) c = (script_verdict dladdr a v, c1)"
    "cache_ok dladdr c1"
proof (cases "json_object_get_array (json_value_get_object (Some v)) ''caller_matches''")
  case None
  then show thesis using assms that by (simp add: eval_caller_matches_def script_verdict_def)
next
  case (Some vs)
  then show thesis using caller_matches_loop_verdict [OF assms, of a vs False] that
    by (auto simp: eval_caller_matches_def script_verdict_def)
qed

subsection \<open>Which script is chosen\<close>

text \<open>A script that ends the scan, and one that is kept as a candidate.\<close>

definition script_ret_addr :: "json \<Rightarrow> rat" where
  "script_ret_addr v = json_object_get_number (json_value_get_object (Some v)) ''return_addr''"

definition script_claims :: "(addr \<Rightarrow> rc_dl_info option) \<Rightarrow> cstr \<Rightarrow> addr \<Rightarrow> json \<Rightarrow> bool" where
  "script_claims dladdr f a v \<longleftrightarrow> script_name v = Some ''*'' \<or>
     script_name v = Some f \<and>
       (script_verdict dladdr a v = 1 \<or>
        script_verdict dladdr a v \<noteq> 0 \<and>
          (a = 0 \<or> script_ret_addr v \<noteq> 0 \<and> a = double_to_s64 (script_ret_addr v)))"

definition script_candidate :: "(addr \<Rightarrow> rc_dl_info option) \<Rightarrow> cstr \<Rightarrow> addr \<Rightarrow> json \<Rightarrow> bool" where
  "script_candidate dladdr f a v \<longleftrightarrow> script_name v = Some f \<and> script_verdict dladdr a v = -1 \<and> script_ret_addr v = 0"

definition script_unconditional :: "json_object \<Rightarrow> bool" where
  "script_unconditional s \<longleftrightarrow> json_object_get_array (Some s) ''caller_matches'' = None \<and>
     json_object_get_number (Some s) ''return_addr'' = 0"

definition first_script :: "(json \<Rightarrow> bool) \<Rightarrow> json_array \<Rightarrow> json_object option" where
  "first_script P vs = Option.bind (find P vs) (\<lambda>v. json_value_get_object (Some v))"

definition resolve :: "(addr \<Rightarrow> rc_dl_info option) \<Rightarrow> json_array \<Rightarrow> cstr \<Rightarrow> addr \<Rightarrow> json_object option" where
  "resolve dladdr scripts f a =
     (case map_of (take CONFIG_CACHE_MAX_ENTRIES (named_scripts scripts)) f of
        Some s \<Rightarrow> if script_unconditional s then Some s
          else (case first_script (script_claims dladdr f a) scripts of
                  None \<Rightarrow> first_script (script_candidate dladdr f a) scripts | Some s \<Rightarrow> Some s)
      | None \<Rightarrow> (case first_script (script_claims dladdr f a) scripts of
                  None \<Rightarrow> first_script (script_candidate dladdr f a) scripts | Some s \<Rightarrow> Some s))"

lemma script_verdict_range: "script_verdict dladdr a v \<in> {-1, 0, 1}"
  by (simp add: script_verdict_def split: option.split)

lemma script_name_object: "script_name v = Some f \<Longrightarrow> \<exists>s. json_value_get_object (Some v) = Some s"
  by (cases "json_value_get_object (Some v)")
    (auto simp: script_name_def json_object_get_string_def json_object_get_value_def)

lemma first_script_simps [simp]:
  "first_script P [] = None"
  "first_script P (v # vs) = (if P v then json_value_get_object (Some v) else first_script P vs)"
  by (simp_all add: first_script_def)

lemma script_scan_resolves:
  assumes "cache_ok dladdr c" "f \<noteq> ''*''"
  shows "\<exists>c'. script_scan dladdr vs f a cand c =
      ((case first_script (script_claims dladdr f a) vs of
          Some s \<Rightarrow> Some s
        | None \<Rightarrow> if cand = None then first_script (script_candidate dladdr f a) vs else cand), c') \<and>
    cache_ok dladdr c'"
  using assms(1)
proof (induction vs arbitrary: cand c)
  case Nil
  then show ?case by simp
next
  case (Cons v vs)
  note IH = Cons.IH
  consider (star) "script_name v = Some ''*''" | (other) "script_name v \<noteq> Some ''*''" "script_name v \<noteq> Some f"
    | (own) "script_name v = Some f" using assms(2) by auto
  then show ?case
  proof cases
    case star
    then show ?thesis using Cons.prems script_name_object [OF star]
      by (auto simp: script_claims_def script_name_def [symmetric])
  next
    case other
    then have "script_scan dladdr (v # vs) f a cand c = script_scan dladdr vs f a cand c"
      by (auto simp: script_name_def Let_def split: option.split)
    moreover have "\<not> script_claims dladdr f a v" "\<not> script_candidate dladdr f a v"
      using other by (auto simp: script_claims_def script_candidate_def)
    ultimately show ?thesis using IH [OF Cons.prems, of cand] by (auto simp del: script_scan.simps cong: option.case_cong)
  next
    case own
    obtain s where s: "json_value_get_object (Some v) = Some s" using script_name_object [OF own] by blast
    obtain c1 where c1: "eval_caller_matches dladdr a (Some s) c = (script_verdict dladdr a v, c1)" "cache_ok dladdr c1"
      using script_verdict_eval [OF Cons.prems, of a v] s by auto
    have name: "json_object_get_string (Some s) ''func_name'' = Some f" using own s by (simp add: script_name_def)
    have claims: "script_claims dladdr f a v \<longleftrightarrow> script_verdict dladdr a v = 1 \<or>
        script_verdict dladdr a v \<noteq> 0 \<and> (a = 0 \<or> script_ret_addr v \<noteq> 0 \<and> a = double_to_s64 (script_ret_addr v))"
      using own assms(2) by (simp add: script_claims_def)
    have cand: "script_candidate dladdr f a v \<longleftrightarrow> script_verdict dladdr a v = -1 \<and> script_ret_addr v = 0"
      using own by (simp add: script_candidate_def)
    have "script_scan dladdr (v # vs) f a cand c =
        (if script_claims dladdr f a v then (Some s, c1)
         else if script_candidate dladdr f a v then script_scan dladdr vs f a (if cand = None then Some s else cand) c1
         else script_scan dladdr vs f a cand c1)"
      unfolding claims cand using script_verdict_range [of dladdr a v] c1(1) name s assms(2)
      by (auto simp: script_ret_addr_def Let_def)
    then show ?thesis using IH [OF c1(2), of cand] IH [OF c1(2), of "if cand = None then Some s else cand"] c1(2) s
      by (auto simp del: script_scan.simps cong: option.case_cong)
  qed
qed

lemma script_find_built:
  assumes "cache_ok dladdr c" "f \<noteq> ''*''"
    and "\<And>f. retrace_config_cache_lookup (Some f) g = Some (map_of (take CONFIG_CACHE_MAX_ENTRIES (named_scripts scripts)) f)"
  shows "\<exists>c'. retrace_script_find dladdr g (Some scripts) f a c = Some (resolve dladdr scripts f a, c') \<and> cache_ok dladdr c'"
  using script_scan_resolves [OF assms(1,2), of scripts a None] assms(1,3)
  by (auto simp: retrace_script_find_def resolve_def script_unconditional_def split: option.split)

lemma script_find_indexed:
  assumes "retrace_config_cache_build True buckets_ok conf g0 = Some (0, g)"
    and "json_object_get_array conf ''intercept_scripts'' = Some scripts"
    and "cache_ok dladdr c" "f \<noteq> ''*''"
  shows "\<exists>c'. retrace_script_find dladdr g (Some scripts) f a c = Some (resolve dladdr scripts f a, c') \<and>
    cache_ok dladdr c'"
proof -
  from config_cache_built [OF assms(2), where calloc_ok = True and buckets_ok = buckets_ok and g = g0] obtain s where
    "g = Some s" "\<And>f. retrace_config_cache_lookup (Some f) (Some s) =
      Some (map_of (take CONFIG_CACHE_MAX_ENTRIES (named_scripts scripts)) f)" using assms(1) by auto
  then show ?thesis using script_find_built [OF assms(3,4)] by simp
qed

subsection \<open>The choice that is documented\<close>

text \<open>
  The first script that matches the call is said to win: one for the function or for every
  function, whose call-site condition holds if it has one.
\<close>

definition named_or_any :: "cstr \<Rightarrow> json \<Rightarrow> bool" where
  "named_or_any f v \<longleftrightarrow> script_name v = Some ''*'' \<or> script_name v = Some f"

definition site_bound :: "json \<Rightarrow> bool" where
  "site_bound v = (case json_value_get_object (Some v) of None \<Rightarrow> False | Some s \<Rightarrow> \<not> script_unconditional s)"

definition site_listed :: "json \<Rightarrow> bool" where
  "site_listed v \<longleftrightarrow> json_object_get_array (json_value_get_object (Some v)) ''caller_matches'' \<noteq> None"

definition site_holds :: "(addr \<Rightarrow> rc_dl_info option) \<Rightarrow> addr \<Rightarrow> json \<Rightarrow> bool" where
  "site_holds dladdr a v \<longleftrightarrow>
     (if site_listed v then script_verdict dladdr a v = 1 else a = double_to_s64 (script_ret_addr v))"

definition matching :: "(addr \<Rightarrow> rc_dl_info option) \<Rightarrow> cstr \<Rightarrow> addr \<Rightarrow> json \<Rightarrow> bool" where
  "matching dladdr f a v \<longleftrightarrow> named_or_any f v \<and> (site_bound v \<longrightarrow> site_holds dladdr a v)"

text \<open>
  Configurations in the order the documentation asks for: the scripts of the function that are
  bound to call sites come first, then its other scripts, then those for every function, which
  are not bound to call sites.  The call sites are decided by what is known of the caller, the
  index has room for all names, and not all three kinds are there at once.
\<close>

definition orderly :: "(addr \<Rightarrow> rc_dl_info option) \<Rightarrow> json_array \<Rightarrow> cstr \<Rightarrow> addr \<Rightarrow> bool" where
  "orderly dladdr scripts f a \<longleftrightarrow>
     length (named_scripts scripts) \<le> CONFIG_CACHE_MAX_ENTRIES \<and>
     (\<forall>v\<in>set scripts. (script_name v = Some ''*'' \<longrightarrow> \<not> site_bound v) \<and>
       (script_name v = Some f \<and> site_bound v \<longrightarrow> a \<noteq> 0 \<and> (site_listed v \<longrightarrow> script_verdict dladdr a v \<noteq> -1))) \<and>
     sorted_wrt (\<lambda>v w. script_name w = Some f \<longrightarrow> script_name v \<noteq> Some ''*'' \<and>
       (script_name v = Some f \<and> site_bound w \<longrightarrow> site_bound v)) scripts \<and>
     \<not> (list_ex (\<lambda>v. script_name v = Some f \<and> site_bound v) scripts \<and>
        list_ex (\<lambda>v. script_name v = Some f \<and> \<not> site_bound v) scripts \<and> list_ex (\<lambda>v. script_name v = Some ''*'') scripts)"

lemma first_script_cong: "(\<And>v. v \<in> set vs \<Longrightarrow> P v = Q v) \<Longrightarrow> first_script P vs = first_script Q vs"
  by (induction vs) auto

lemma first_script_found: "first_script P vs = Some s \<Longrightarrow> \<exists>v\<in>set vs. P v \<and> json_value_get_object (Some v) = Some s"
  by (induction vs) (auto split: if_splits)

lemma first_script_none:
  "first_script P vs = None \<Longrightarrow> \<forall>v\<in>set vs. P v \<longrightarrow> json_value_get_object (Some v) \<noteq> None \<Longrightarrow> \<forall>v\<in>set vs. \<not> P v"
  by (induction vs) (auto split: if_splits)

lemma first_script_or:
  assumes "sorted_wrt (\<lambda>v w. \<not> (Q v \<and> P w)) vs" "\<And>v. v \<in> set vs \<Longrightarrow> P v \<or> Q v \<Longrightarrow> json_value_get_object (Some v) \<noteq> None"
  shows "(case first_script P vs of None \<Rightarrow> first_script Q vs | Some s \<Rightarrow> Some s) = first_script (\<lambda>v. P v \<or> Q v) vs"
  using assms
proof (induction vs)
  case (Cons v vs)
  then show ?case
  proof (cases "Q v \<and> \<not> P v")
    case True
    then have "first_script P vs = None" using Cons.prems(1) by (induction vs) auto
    then show ?thesis using True Cons.prems(2) [of v] by (auto split: option.split)
  next
    case False
    moreover have "P v \<Longrightarrow> json_value_get_object (Some v) \<noteq> None" using Cons.prems(2) [of v] by simp
    moreover have "(case first_script P vs of None \<Rightarrow> first_script Q vs | Some s \<Rightarrow> Some s) = first_script (\<lambda>v. P v \<or> Q v) vs"
      using Cons.IH Cons.prems by simp
    ultimately show ?thesis by (auto split: option.split)
  qed
qed simp

lemma index_first: "f \<noteq> ''*'' \<Longrightarrow> f \<noteq> [] \<Longrightarrow> map_of (named_scripts vs) f = first_script (\<lambda>v. script_name v = Some f) vs"
proof (induction vs)
  case (Cons v vs)
  then show ?case using script_name_object [of v f] by (auto split: option.split)
qed simp

lemma script_unbound: "script_name v = Some f \<Longrightarrow> \<not> site_bound v \<longleftrightarrow> \<not> site_listed v \<and> script_ret_addr v = 0"
  using script_name_object [of v f]
  by (auto simp: site_bound_def site_listed_def script_unconditional_def script_ret_addr_def)

lemma unlisted_verdict: "\<not> site_listed v \<Longrightarrow> script_verdict dladdr a v = -1"
  by (simp add: site_listed_def script_verdict_def)

lemma bound_claims:
  assumes "a \<noteq> 0" "script_name v = Some f \<and> site_bound v \<Longrightarrow> a \<noteq> 0 \<and> (site_listed v \<longrightarrow> script_verdict dladdr a v \<noteq> -1)" "f \<noteq> ''*''"
  shows "script_claims dladdr f a v \<longleftrightarrow>
    script_name v = Some ''*'' \<or> (script_name v = Some f \<and> site_bound v) \<and> site_holds dladdr a v"
proof (cases "script_name v = Some f")
  case True
  then show ?thesis
    using assms script_unbound [OF True] unlisted_verdict [of v dladdr a] script_verdict_range [of dladdr a v]
    by (cases "site_listed v") (auto simp: script_claims_def site_holds_def)
qed (simp add: script_claims_def)

lemma bound_candidate:
  assumes "script_name v = Some f \<and> site_bound v \<Longrightarrow> a \<noteq> 0 \<and> (site_listed v \<longrightarrow> script_verdict dladdr a v \<noteq> -1)"
  shows "script_candidate dladdr f a v \<longleftrightarrow> script_name v = Some f \<and> \<not> site_bound v"
proof (cases "script_name v = Some f")
  case True
  then show ?thesis
    using assms script_unbound [OF True] unlisted_verdict [of v dladdr a]
    by (cases "site_listed v") (auto simp: script_candidate_def)
qed (simp add: script_candidate_def)

definition site_script :: "cstr \<Rightarrow> json \<Rightarrow> bool" where
  "site_script f v \<longleftrightarrow> script_name v = Some f \<and> site_bound v"

lemma orderlyD:
  assumes "orderly dladdr scripts f a" "f \<noteq> ''*''" "f \<noteq> []"
  shows "map_of (take CONFIG_CACHE_MAX_ENTRIES (named_scripts scripts)) f = first_script (\<lambda>v. script_name v = Some f) scripts"
    and "\<And>v. v \<in> set scripts \<Longrightarrow> script_name v = Some ''*'' \<Longrightarrow> \<not> site_bound v"
    and "\<And>v. v \<in> set scripts \<Longrightarrow> script_name v = Some f \<and> site_bound v \<Longrightarrow>
      a \<noteq> 0 \<and> (site_listed v \<longrightarrow> script_verdict dladdr a v \<noteq> -1)"
    and "sorted_wrt (\<lambda>v w. script_name w = Some f \<longrightarrow> script_name v \<noteq> Some ''*'' \<and>
      (script_name v = Some f \<and> site_bound w \<longrightarrow> site_bound v)) scripts"
    and "\<not> (list_ex (site_script f) scripts \<and> list_ex (\<lambda>v. script_name v = Some f \<and> \<not> site_bound v) scripts \<and>
      list_ex (\<lambda>v. script_name v = Some ''*'') scripts)"
  using assms index_first [OF assms(2,3)] by (auto simp: orderly_def site_script_def [abs_def])

text \<open>With no script of the function bound to call sites, and with one.\<close>

lemma resolve_plain:
  assumes "orderly dladdr scripts f a" "f \<noteq> ''*''" "f \<noteq> []" "\<not> list_ex (site_script f) scripts"
  shows "resolve dladdr scripts f a = first_script (matching dladdr f a) scripts"
proof -
  let ?own = "\<lambda>v. script_name v = Some f" and ?any = "\<lambda>v. script_name v = Some ''*''"
  note d = orderlyD [OF assms(1-3)]
  have unbound: "\<not> site_bound v" if "v \<in> set scripts" "?own v" for v using that assms(4) by (auto simp: list_ex_iff site_script_def)
  have obj: "json_value_get_object (Some v) \<noteq> None" if "?own v \<or> ?any v" for v using that script_name_object [of v] by auto
  have m: "first_script (matching dladdr f a) scripts = first_script (\<lambda>v. ?own v \<or> ?any v) scripts"
    using unbound d(2) by (intro first_script_cong) (auto simp: matching_def named_or_any_def)
  have "sorted_wrt (\<lambda>v w. \<not> (?any v \<and> ?own w)) scripts" using d(4) by (rule sorted_wrt_mono_rel [rotated]) auto
  then have or: "first_script (\<lambda>v. ?own v \<or> ?any v) scripts =
      (case first_script ?own scripts of None \<Rightarrow> first_script ?any scripts | Some s \<Rightarrow> Some s)"
    using first_script_or [of ?any ?own scripts] obj by simp
  show ?thesis
  proof (cases "first_script ?own scripts")
    case (Some s)
    then obtain v where v: "v \<in> set scripts" "?own v" "json_value_get_object (Some v) = Some s"
      using first_script_found [OF Some] by blast
    then have "script_unconditional s" using unbound [of v] by (simp add: site_bound_def)
    then show ?thesis using Some d(1) m or by (simp add: resolve_def)
  next
    case None
    then have "\<not> ?own v" if "v \<in> set scripts" for v
      using that first_script_none [OF None] obj by blast
    then have c: "first_script (script_claims dladdr f a) scripts = first_script ?any scripts"
        "first_script (script_candidate dladdr f a) scripts = first_script (\<lambda>v. False) scripts"
      by (auto intro!: first_script_cong simp: script_claims_def script_candidate_def)
    have "first_script (\<lambda>v. False) vs = None" for vs by (induction vs) auto
    then show ?thesis using None d(1) m or c by (auto simp: resolve_def split: option.split)
  qed
qed

lemma site_script_first:
  assumes "list_ex (site_script f) vs" "first_script (\<lambda>v. script_name v = Some f) vs = Some s"
    "sorted_wrt (\<lambda>v w. script_name w = Some f \<longrightarrow> script_name v \<noteq> Some ''*'' \<and>
      (script_name v = Some f \<and> site_bound w \<longrightarrow> site_bound v)) vs"
  shows "\<not> script_unconditional s"
  using assms
proof (induction vs)
  case (Cons v vs)
  then show ?case by (cases "script_name v = Some f") (auto simp: site_script_def site_bound_def list_ex_iff split: option.splits)
qed simp

lemma resolve_site:
  assumes "orderly dladdr scripts f a" "f \<noteq> ''*''" "f \<noteq> []" "list_ex (site_script f) scripts"
  shows "resolve dladdr scripts f a = first_script (matching dladdr f a) scripts"
proof -
  let ?own = "\<lambda>v. script_name v = Some f" and ?any = "\<lambda>v. script_name v = Some ''*''"
  let ?P = "script_claims dladdr f a" and ?Q = "script_candidate dladdr f a"
  note d = orderlyD [OF assms(1-3)]
  have scan: "resolve dladdr scripts f a = (case first_script ?P scripts of None \<Rightarrow> first_script ?Q scripts | Some s \<Rightarrow> Some s)"
    using d(1) site_script_first [OF assms(4) _ d(4)] by (auto simp: resolve_def split: option.split)
  have a: "a \<noteq> 0" using assms(4) d(3) by (auto simp: list_ex_iff site_script_def)
  have claims: "?P v \<longleftrightarrow> ?any v \<or> (?own v \<and> site_bound v) \<and> site_holds dladdr a v" if "v \<in> set scripts" for v
    by (rule bound_claims [OF a d(3) [OF that] assms(2)])
  have cand: "?Q v \<longleftrightarrow> ?own v \<and> \<not> site_bound v" if "v \<in> set scripts" for v by (rule bound_candidate [OF d(3) [OF that]])
  have obj: "json_value_get_object (Some v) \<noteq> None" if "v \<in> set scripts" "?P v \<or> ?Q v" for v
    using that script_name_object [of v] claims [OF that(1)] cand [OF that(1)] by auto
  have "sorted_wrt (\<lambda>v w. \<not> (?Q v \<and> ?P w)) scripts"
  proof (rule sorted_wrt_mono_rel [OF _ d(4)])
    fix v w
    assume vw: "v \<in> set scripts" "w \<in> set scripts" "?own w \<longrightarrow> \<not> ?any v \<and> (?own v \<and> site_bound w \<longrightarrow> site_bound v)"
    show "\<not> (?Q v \<and> ?P w)"
      using vw d(5) assms(4) claims [OF vw(2)] cand [OF vw(1)] by (auto simp: list_ex_iff)
  qed
  note or = first_script_or [OF this obj]
  have "first_script (\<lambda>v. ?P v \<or> ?Q v) scripts = first_script (matching dladdr f a) scripts"
  proof (rule first_script_cong)
    fix v
    assume v: "v \<in> set scripts"
    show "(?P v \<or> ?Q v) = matching dladdr f a v"
      using claims [OF v] cand [OF v] d(2) [OF v] by (auto simp: matching_def named_or_any_def)
  qed
  then show ?thesis using scan or by simp
qed

lemma resolve_orderly:
  "orderly dladdr scripts f a \<Longrightarrow> f \<noteq> ''*'' \<Longrightarrow> f \<noteq> [] \<Longrightarrow> resolve dladdr scripts f a = first_script (matching dladdr f a) scripts"
  using resolve_plain resolve_site by blast

text \<open>
  C26. Over a name index built from the configuration and a caller cache that holds only what
  \<open>dladdr\<close> answered, resolving a call returns the first script that matches it, whatever the
  caches hold, for configurations in the order the documentation asks for.  For others the
  choice is \<open>resolve\<close> (\<open>script_find_indexed\<close>), and \<open>script_find_order\<close> has cases in which it
  is not the documented one.
\<close>

theorem script_find_correct:
  assumes "retrace_config_cache_build True buckets_ok conf g0 = Some (0, g)"
    and "json_object_get_array conf ''intercept_scripts'' = Some scripts"
    and "cache_ok dladdr c" "f \<noteq> ''*''" "f \<noteq> []" "orderly dladdr scripts f a"
  shows "\<exists>c'. retrace_script_find dladdr g (Some scripts) f a c = Some (first_script (matching dladdr f a) scripts, c') \<and>
    cache_ok dladdr c'"
  using script_find_indexed [OF assms(1-4), of a] resolve_orderly [OF assms(6,4,5)] by simp

definition script_for :: "cstr \<Rightarrow> json_object \<Rightarrow> json" where
  "script_for f rest = JSONObject ((''func_name'', JSONString f) # rest)"

definition conf_of :: "json_array \<Rightarrow> json_object" where
  "conf_of scripts = [(''intercept_scripts'', JSONArray scripts)]"

lemma conf_of_scripts: "json_object_get_array (Some (conf_of scripts)) ''intercept_scripts'' = Some scripts"
  by (simp add: conf_of_def json_object_get_array_def json_object_get_value_map)

definition from_address :: "rat \<Rightarrow> json_object" where
  "from_address x = [(''caller_matches'', JSONArray
     [JSONObject [(''match_type'', JSONString ''address''), (''value'', JSONNumber x)]])]"

lemmas resolve_eval = resolve_def first_script_def script_claims_def script_candidate_def script_verdict_def
  script_ret_addr_def script_name_def script_unconditional_def script_for_def from_address_def entry_verdict_def
  CONFIG_CACHE_MAX_ENTRIES_def json_object_get_array_def json_object_get_string_def json_object_get_number_def
  json_object_get_value_map retrace_caller_match_kind_from_string_def double_to_u64_def rat_trunc_def

theorem script_find_correct_witness:
  "\<exists>g c'. retrace_config_cache_build True True (Some (conf_of [script_for ''getenv'' (from_address 4096), script_for ''*'' []]))
      None = Some (0, g) \<and>
    retrace_script_find (\<lambda>_. None) g (Some [script_for ''getenv'' (from_address 4096), script_for ''*'' []])
      ''getenv'' 4096 empty_cache = Some (Some ((''func_name'', JSONString ''getenv'') # from_address 4096), c')"
proof -
  let ?scripts = "[script_for ''getenv'' (from_address 4096), script_for ''*'' []]"
  from config_cache_built [OF conf_of_scripts, where calloc_ok = True and buckets_ok = True and g = None and scripts = ?scripts] obtain s where
    s: "retrace_config_cache_build True True (Some (conf_of ?scripts)) None = Some (0, Some s)" by auto
  have "first_script (matching (\<lambda>_. None) ''getenv'' 4096) ?scripts = Some ((''func_name'', JSONString ''getenv'') # from_address 4096)"
    "orderly (\<lambda>_. None) ?scripts ''getenv'' 4096"
    by (simp_all add: resolve_eval orderly_def matching_def named_or_any_def site_bound_def site_listed_def site_holds_def Let_def)
  then show ?thesis
    using script_find_correct [OF s conf_of_scripts empty_cache_ok, of "''getenv''" "\<lambda>_. None" 4096] s by auto
qed

lemma script_find_conf:
  assumes "resolve (\<lambda>_. None) scripts ''getenv'' 4096 = r"
  shows "\<exists>g c'. retrace_config_cache_build True True (Some (conf_of scripts)) None = Some (0, g) \<and>
      retrace_script_find (\<lambda>_. None) g (Some scripts) ''getenv'' 4096 empty_cache = Some (r, c')"
proof -
  from config_cache_built [OF conf_of_scripts, where calloc_ok = True and buckets_ok = True and g = None and scripts = scripts]
  obtain s where
    s: "retrace_config_cache_build True True (Some (conf_of scripts)) None = Some (0, Some s)"
      "\<And>f. retrace_config_cache_lookup (Some f) (Some s) =
      Some (map_of (take CONFIG_CACHE_MAX_ENTRIES (named_scripts scripts)) f)" by auto
  then show ?thesis
    using script_find_built [OF empty_cache_ok, of "''getenv''" "Some s" scripts "\<lambda>_. None" 4096] assms by auto
qed

text \<open>
  Five configurations where the choice, the script at the given index, departs from the headers
  and the documentation.  A script for every function that comes first does not win over a
  later script of the function's name, although the first matching script is said to win.  A
  name-only script loses to a later script for every function once an earlier script of the
  name carries a call-site condition, although scripts of the name are said to take precedence.
  The call-site condition of a script for every function is not looked at.  A name-only script
  that comes first wins over the script with the return address of the call, although the
  latter is said to win as the most specific one.  And a script none of whose call-site
  conditions can be evaluated is chosen, although it is said to be skipped.
\<close>

definition from_symbol :: "cstr \<Rightarrow> json_object" where
  "from_symbol n = [(''caller_matches'', JSONArray
     [JSONObject [(''match_type'', JSONString ''symbol''), (''value'', JSONString n)]])]"

lemma script_find_order:
  "list_all (\<lambda>(scripts, i). \<exists>g c'.
      retrace_config_cache_build True True (Some (conf_of scripts)) None = Some (0, g) \<and>
      retrace_script_find (\<lambda>_. None) g (Some scripts) ''getenv'' 4096 empty_cache =
        Some (json_value_get_object (Some (scripts ! i)), c'))
    [([script_for ''*'' [], script_for ''getenv'' []], 1),
     ([script_for ''getenv'' (from_address 8192), script_for ''getenv'' [], script_for ''*'' []], 2),
     ([script_for ''*'' (from_address 8192)], 0),
     ([script_for ''getenv'' [], script_for ''getenv'' [(''return_addr'', JSONNumber 4096)]], 0),
     ([script_for ''getenv'' (from_symbol ''main'')], 0)]"
  unfolding list.pred_inject prod.case
  by (intro conjI TrueI script_find_conf) (simp_all add: resolve_eval from_symbol_def symbol_match_def Let_def)

end
