(* ===== verification/Engine.thy ===== *)
theory Engine
  imports Real_Cache As_Ops Func_Filter Call_Hash Script_Resolver
begin

section \<open>The dispatch of an intercepted call (\<open>src/src/core/engine.c\<close>)\<close>

text \<open>
  What every trampoline calls, with the modules it orchestrates: the thread's context
  (\<open>thread_context.c\<close>, \<open>cleanup.c\<close>, \<open>reentrance_guard.c\<close>), the table of resolved
  functions, the operations on the frame, the log filter, the call hash, the script
  resolver and the action runner.

  The state is what a dispatch by one thread can change, \<open>en_ctx\<close> being that thread's
  context; an action is a function on the frame and this state and may change any of it.
  What is fixed while a process runs is the environment.  \<open>None\<close> is a dispatch that does
  not return or accesses memory out of bounds.
\<close>

record ('f, 'x) engine =
  en_inited :: bool
  en_cache :: "real_cache_el list"
  en_ctx :: "('f, 'x) engine_context option"
  en_hash :: call_hash
  en_callers :: caller_cache
  en_freed :: "addr list"
  en_rest :: 'x

record ('f, 'x) engine_env =
  ev_ops :: "('f, 'x) as_ops"
  ev_members :: real_members
  ev_get_real :: "cstr \<Rightarrow> addr"
  ev_funcs :: "func_prototype list list"
  ev_actions :: "('f \<times> ('f, 'x) engine) action list list"
  ev_conf :: "json_object option"
  ev_snap :: "cache_snap option"
  ev_dladdr :: "addr \<Rightarrow> rc_dl_info option"
  ev_allowed :: "cstr list"
  ev_excluded :: "cstr list"
  ev_malloc_ok :: bool
  ev_tss_ok :: bool
  ev_tid :: nat
  ev_agent_kick :: "'x \<Rightarrow> 'x"

subsection \<open>The thread's context\<close>

definition retrace_thread_context_get ::
    "bool \<Rightarrow> bool \<Rightarrow> ('f, 'x) engine \<Rightarrow> ('f, 'x) engine_context option \<times> ('f, 'x) engine" where
  "retrace_thread_context_get malloc_ok tss_ok s =
     (case en_ctx s of
        Some c \<Rightarrow> (Some c, s)
      | None \<Rightarrow>
          if \<not> malloc_ok then (None, s)
          else if \<not> tss_ok then (None, s)
          else (Some zero_context, s\<lparr>en_ctx := Some zero_context\<rparr>))"

definition retrace_thread_context_clear :: "('f, 'x) engine_context \<Rightarrow> ('f, 'x) engine \<Rightarrow> ('f, 'x) engine" where
  "retrace_thread_context_clear c s =
     s\<lparr>en_freed := en_freed s @ map fp_val (filter fp_free_val (tc_params c)), en_ctx := Some zero_context\<rparr>"

definition thread_ctx_destructor :: "('f, 'x) engine \<Rightarrow> ('f, 'x) engine" where
  "thread_ctx_destructor s = s\<lparr>en_ctx := None\<rparr>"

definition retrace_as_ops_set :: "bool \<Rightarrow> bool \<Rightarrow> ('f, 'x) as_ops option \<Rightarrow> ('f, 'x) engine \<Rightarrow> ('f, 'x) engine" where
  "retrace_as_ops_set malloc_ok tss_ok ops s =
     (case retrace_thread_context_get malloc_ok tss_ok s of
        (None, s1) \<Rightarrow> s1
      | (Some c, s1) \<Rightarrow> s1\<lparr>en_ctx := Some (c\<lparr>ec_lane_ops := ops\<rparr>)\<rparr>)"

definition retrace_as_ops_get :: "bool \<Rightarrow> bool \<Rightarrow> ('f, 'x) as_ops \<Rightarrow> ('f, 'x) engine \<Rightarrow> ('f, 'x) as_ops \<times> ('f, 'x) engine" where
  "retrace_as_ops_get malloc_ok tss_ok dflt s =
     (case retrace_thread_context_get malloc_ok tss_ok s of (ctx, s1) \<Rightarrow> (ops_for dflt ctx, s1))"

definition retrace_reentrance_guard_active :: "('f, 'x) engine_context \<Rightarrow> bool" where
  "retrace_reentrance_guard_active c \<longleftrightarrow> ec_real_impl c \<noteq> 0"

definition retrace_reentrance_guard_enter :: "addr \<Rightarrow> ('f, 'x) engine_context \<Rightarrow> ('f, 'x) engine_context" where
  "retrace_reentrance_guard_enter real_impl c = c\<lparr>ec_real_impl := real_impl\<rparr>"

definition retrace_reentrance_guard_enter_permanent :: "('f, 'x) engine_context \<Rightarrow> ('f, 'x) engine_context" where
  "retrace_reentrance_guard_enter_permanent c = c\<lparr>ec_real_impl := 1\<rparr>"

subsection \<open>The dispatch\<close>

definition set_prototype :: "func_prototype option \<Rightarrow> ('f, 'x) engine_context \<Rightarrow> ('f, 'x) engine_context" where
  "set_prototype p c =
     c\<lparr>ec_prototype := p, tc_func := (case p of None \<Rightarrow> [] | Some q \<Rightarrow> fpr_name q),
       tc_type_name := (case p of None \<Rightarrow> [] | Some q \<Rightarrow> fpr_type_name q)\<rparr>"

text \<open>
  The end of a dispatch, with the context as it is then; an action may have replaced
  the context, and the pointer the engine holds is to the same storage.
\<close>

definition clean_up :: "'f \<times> ('f, 'x) engine \<Rightarrow> 'f \<times> ('f, 'x) engine" where
  "clean_up r = (case r of (frame, s) \<Rightarrow>
     (frame, case en_ctx s of None \<Rightarrow> s | Some c \<Rightarrow> retrace_thread_context_clear c s))"

text \<open>From the prototype to the script: what is returned is the script, if one is to run.\<close>

definition find_script ::
    "('f, 'x) engine_env \<Rightarrow> cstr \<Rightarrow> 'f \<Rightarrow> func_prototype option \<Rightarrow> ('f, 'x) engine_context \<Rightarrow> ('f, 'x) engine \<Rightarrow>
     (json_object option \<times> ('f, 'x) engine) option" where
  "find_script ev func_name frame proto c s =
     (case proto of
        None \<Rightarrow> Some (None, s)
      | Some p \<Rightarrow>
          if \<not> retrace_logger_func_loggable (ev_allowed ev) (ev_excluded ev) func_name then Some (None, s)
          else
            (case retrace_as_setup_params (ev_ops ev) (Some c) frame p (replicate ENGINE_MAXCOUNT_PARAMS zero_param) of
               None \<Rightarrow> None
             | Some (ok, params) \<Rightarrow>
                 let c1 = c\<lparr>tc_params := params\<rparr>; s1 = s\<lparr>en_ctx := Some c1\<rparr> in
                 if \<not> ok then Some (None, s1)
                 else
                   (case json_object_get_array (ev_conf ev) ''intercept_scripts'' of
                      None \<Rightarrow> Some (None, s1)
                    | Some i_scripts \<Rightarrow>
                        (case retrace_script_find (ev_dladdr ev) (ev_snap ev) (Some i_scripts) func_name
                                (tc_ret_addr c1) (en_callers s1) of
                           None \<Rightarrow> None
                         | Some (i_script, callers) \<Rightarrow> Some (i_script, s1\<lparr>en_callers := callers\<rparr>)))))"

definition run_script ::
    "('f, 'x) engine_env \<Rightarrow> 'f \<Rightarrow> json_object \<Rightarrow> ('f, 'x) engine \<Rightarrow> 'f \<times> ('f, 'x) engine" where
  "run_script ev frame i_script s =
     (case retrace_action_runner_run (ev_actions ev) (Some i_script)
             (retrace_as_cancel_sched_real (ev_ops ev) (en_ctx s) frame, s) of
        (frame1, s1) \<Rightarrow>
          (retrace_as_set_ret_val (ev_ops ev) (en_ctx s1) frame1
             (case en_ctx s1 of None \<Rightarrow> 0 | Some c \<Rightarrow> tc_ret_val c), s1))"

text \<open>A dispatch past the reentrance guard.\<close>

definition intercept ::
    "('f, 'x) engine_env \<Rightarrow> cstr \<Rightarrow> nat option \<Rightarrow> addr \<Rightarrow> 'f \<Rightarrow> ('f, 'x) engine_context \<Rightarrow> ('f, 'x) engine \<Rightarrow>
     ('f \<times> ('f, 'x) engine) option" where
  "intercept ev func_name name_slot real_impl frame c s =
     (let c1 = retrace_reentrance_guard_enter real_impl c;
          s1 = s\<lparr>en_rest := ev_agent_kick ev (en_rest s)\<rparr> in
      case slot_proto (ev_funcs ev) name_slot func_name (en_cache s1) of
        (proto, cache) \<Rightarrow>
          let c2 = set_prototype proto c1;
              argc = (case proto of None \<Rightarrow> 0 | Some p \<Rightarrow> length (fpr_params p));
              h = (if ch_enabled (en_hash s1)
                   then retrace_call_hash_observe (ev_malloc_ok ev) (ev_tss_ok ev) (ev_tid ev) (Some func_name) argc (en_hash s1)
                   else en_hash s1);
              s2 = s1\<lparr>en_cache := cache, en_hash := h, en_ctx := Some c2\<rparr> in
          case find_script ev func_name frame proto c2 s2 of
            None \<Rightarrow> None
          | Some (None, s3) \<Rightarrow> Some (clean_up (frame, s3))
          | Some (Some i_script, s3) \<Rightarrow> Some (clean_up (run_script ev frame i_script s3)))"

definition retrace_engine_wrapper ::
    "('f, 'x) engine_env \<Rightarrow> cstr \<Rightarrow> 'f \<Rightarrow> ('f, 'x) engine \<Rightarrow> ('f \<times> ('f, 'x) engine) option" where
  "retrace_engine_wrapper ev name frame s =
     (let func_name = strip_darwin_extsn name 64 in
      case name_slot_lookup (ev_members ev) (ev_get_real ev) (en_inited s) func_name (en_cache s) of
        None \<Rightarrow> None
      | Some (name_slot, real_impl, cache) \<Rightarrow>
          let s1 = s\<lparr>en_cache := cache\<rparr> in
          if \<not> en_inited s1 then Some (retrace_as_sched_real (ev_ops ev) None frame real_impl, s1)
          else
            (case retrace_thread_context_get (ev_malloc_ok ev) (ev_tss_ok ev) s1 of
               (None, s2) \<Rightarrow> Some (frame, s2)
             | (Some c, s2) \<Rightarrow>
                 let c1 = c\<lparr>ec_dispatch_depth := ec_dispatch_depth c + 1\<rparr>; s3 = s2\<lparr>en_ctx := Some c1\<rparr> in
                 if real_impl = 0 then
                   Some (retrace_as_set_ret_val (ev_ops ev) (Some c1) frame (-1),
                         s3\<lparr>en_ctx := Some (c1\<lparr>ec_dispatch_depth := ec_dispatch_depth c1 - 1\<rparr>)\<rparr>)
                 else
                   let frame1 = retrace_as_sched_real (ev_ops ev) (Some c1) frame real_impl in
                   if retrace_reentrance_guard_active c1 then
                     Some (frame1, s3\<lparr>en_ctx := Some (c1\<lparr>ec_dispatch_depth := ec_dispatch_depth c1 - 1\<rparr>)\<rparr>)
                   else intercept ev func_name name_slot real_impl frame1 c1 s3))"

subsection \<open>What the table of resolved functions gives a dispatch\<close>

text \<open>The prototypes kept in the table are those of the registry.\<close>

definition protos_hold :: "func_prototype list list \<Rightarrow> real_cache_el list \<Rightarrow> bool" where
  "protos_hold funcs c \<longleftrightarrow>
     list_all (\<lambda>el. rc_proto el = None \<or> rc_proto el = retrace_func_get (rc_name el) funcs) c"

definition real_of :: "('f, 'x) engine_env \<Rightarrow> (cstr \<rightharpoonup> addr) \<Rightarrow> cstr \<Rightarrow> addr" where
  "real_of ev M f = (case M f of None \<Rightarrow> retrace_real_impl_resolve (ev_members ev) (ev_get_real ev) f | Some a \<Rightarrow> a)"

definition table_ok :: "('f, 'x) engine_env \<Rightarrow> (cstr \<rightharpoonup> addr) \<Rightarrow> cstr \<Rightarrow> real_cache_el list \<Rightarrow> bool" where
  "table_ok ev M f c \<longleftrightarrow> cache_holds c M \<and> protos_hold (ev_funcs ev) c \<and> keepable f \<and>
     (card (dom M) < REAL_CACHE_SLOTS \<or> f \<in> dom M)"

lemma list_all_update: "list_all P xs \<Longrightarrow> P x \<Longrightarrow> list_all P (xs[i := x])"
  using set_update_subset_insert [of xs i x] by (auto simp: list_all_iff)

lemma name_slot_protos:
  assumes "name_slot_lookup m g True f c = Some (slot, a, c')" "protos_hold funcs c"
  shows "protos_hold funcs c'"
  using assms by (auto simp: name_slot_lookup_def protos_hold_def Let_def list_all_update split: option.splits if_splits)

lemma table_lookup:
  assumes "table_ok ev M f c"
  shows "\<exists>i c'. name_slot_lookup (ev_members ev) (ev_get_real ev) True f c = Some (Some i, real_of ev M f, c') \<and>
    cache_holds c' (M(f \<mapsto> real_of ev M f)) \<and> protos_hold (ev_funcs ev) c' \<and> i < length c' \<and> rc_name (c' ! i) = f"
proof -
  have c: "cache_holds c M" "keepable f" "card (dom M) < REAL_CACHE_SLOTS \<or> f \<in> dom M" "protos_hold (ev_funcs ev) c"
    using assms by (auto simp: table_ok_def)
  from lookup_refines [OF c(1-3), of "ev_members ev" "ev_get_real ev"] obtain i c' where
    l: "name_slot_lookup (ev_members ev) (ev_get_real ev) True f c = Some (Some i, real_of ev M f, c')"
      "cache_holds c' (M(f \<mapsto> real_of ev M f))" "i < REAL_CACHE_SLOTS" "rc_name (c' ! i) = f"
    unfolding real_of_def by blast
  moreover have "length c' = REAL_CACHE_SLOTS" using l(2) by (simp add: cache_holds_def)
  ultimately show ?thesis using name_slot_protos [OF l(1) c(4)] by auto
qed

lemma cache_holds_proto: "cache_holds c M \<Longrightarrow> cache_holds (c[i := (c ! i)\<lparr>rc_proto := p\<rparr>]) M"
proof -
  assume c: "cache_holds c M"
  let ?c = "c[i := (c ! i)\<lparr>rc_proto := p\<rparr>]"
  have same: "rc_hash (?c ! j) = rc_hash (c ! j)" "rc_name (?c ! j) = rc_name (c ! j)" "rc_real (?c ! j) = rc_real (c ! j)" for j
    by (cases "i < length c"; simp add: nth_list_update list_update_beyond)+
  show ?thesis using c unfolding cache_holds_def same by simp
qed

lemma slot_proto_get:
  assumes "protos_hold funcs c" "i < length c" "rc_name (c ! i) = f" "cache_holds c M"
  shows "\<exists>c'. slot_proto funcs (Some i) f c = (retrace_func_get f funcs, c') \<and> cache_holds c' M \<and> protos_hold funcs c'"
proof -
  have "rc_proto (c ! i) = None \<or> rc_proto (c ! i) = retrace_func_get f funcs"
    using assms(1-3) by (auto simp: protos_hold_def list_all_length)
  then show ?thesis using assms cache_holds_proto [OF assms(4)]
    by (cases "rc_proto (c ! i)") (auto simp: slot_proto_def Let_def protos_hold_def list_all_update)
qed

subsection \<open>A nested call passes through\<close>

text \<open>
  C38. While a thread is inside an intercepted call, whatever its actions, its agent or its
  logging call is passed on: the dispatch returns, it schedules the resolved real
  implementation on the default frame operations, and it leaves the thread's context,
  the call hash, the caller cache and everything else as they were.
\<close>

theorem nested_call_passes:
  assumes "en_inited s" "table_ok ev M (strip_darwin_extsn name 64) (en_cache s)"
    and "real_of ev M (strip_darwin_extsn name 64) \<noteq> 0"
    and "en_ctx s = Some c" "retrace_reentrance_guard_active c" "1 \<le> ec_dispatch_depth c"
  shows "\<exists>cache. retrace_engine_wrapper ev name frame s =
      Some (sched_real (ev_ops ev) frame (real_of ev M (strip_darwin_extsn name 64)), s\<lparr>en_cache := cache\<rparr>) \<and>
    cache_holds cache (M(strip_darwin_extsn name 64 \<mapsto> real_of ev M (strip_darwin_extsn name 64)))"
proof -
  from table_lookup [OF assms(2)] obtain i cache where
    l: "name_slot_lookup (ev_members ev) (ev_get_real ev) True (strip_darwin_extsn name 64) (en_cache s) =
        Some (Some i, real_of ev M (strip_darwin_extsn name 64), cache)"
      "cache_holds cache (M(strip_darwin_extsn name 64 \<mapsto> real_of ev M (strip_darwin_extsn name 64)))" by blast
  have "s\<lparr>en_cache := cache, en_ctx := Some c\<rparr> = s\<lparr>en_cache := cache\<rparr>" using assms(4) by simp
  then show ?thesis using assms l
    by (intro exI [of _ cache]) (simp add: retrace_engine_wrapper_def retrace_thread_context_get_def retrace_reentrance_guard_active_def
        retrace_as_sched_real_def ops_for_def lane_ops_for_def Let_def)
qed

subsection \<open>The script of a dispatch\<close>

text \<open>
  No backend stores the caller's address in the context, so the resolver is always asked
  with the address 0, for which every call-site condition is undecided: a script bound to call
  sites runs for every caller.  Scripts that are not bound to call sites are chosen as
  documented, the first that matches, if those of the function come before those for every
  function and the index has room.
\<close>

definition engine_script :: "json_array \<Rightarrow> cstr \<Rightarrow> json_object option" where
  "engine_script scripts f =
     (case map_of (take CONFIG_CACHE_MAX_ENTRIES (named_scripts scripts)) f of
        Some s \<Rightarrow> if script_unconditional s then Some s else first_script (named_or_any f) scripts
      | None \<Rightarrow> first_script (named_or_any f) scripts)"

lemma script_verdict_0: "script_verdict dladdr 0 v = -1"
proof -
  have "entry_verdict dladdr 0 e = -1" for e by (simp add: entry_verdict_def)
  then show ?thesis by (simp add: script_verdict_def list_ex_iff split: option.split)
qed

lemma claims_0: "script_claims dladdr f 0 = named_or_any f"
  by (rule ext) (auto simp: script_claims_def named_or_any_def script_verdict_0)

lemma no_candidate_0: "first_script (named_or_any f) vs = None \<Longrightarrow> first_script (script_candidate dladdr f 0) vs = None"
proof (induction vs)
  case (Cons v vs)
  have "\<not> named_or_any f v" using Cons.prems script_name_object [of v]
    by (auto simp: named_or_any_def split: if_splits)
  then show ?case using Cons by (auto simp: script_candidate_def named_or_any_def)
qed simp

lemma resolve_0: "resolve dladdr scripts f 0 = engine_script scripts f"
  by (auto simp: resolve_def engine_script_def claims_0 no_candidate_0 split: option.split)

definition plain_scripts :: "json_array \<Rightarrow> cstr \<Rightarrow> bool" where
  "plain_scripts scripts f \<longleftrightarrow> length (named_scripts scripts) \<le> CONFIG_CACHE_MAX_ENTRIES \<and>
     (\<forall>v\<in>set scripts. named_or_any f v \<longrightarrow> \<not> site_bound v) \<and>
     sorted_wrt (\<lambda>v w. script_name w = Some f \<longrightarrow> script_name v \<noteq> Some ''*'') scripts"

lemma engine_script_plain:
  assumes "plain_scripts scripts f" "f \<noteq> ''*''" "f \<noteq> []"
  shows "engine_script scripts f = first_script (named_or_any f) scripts"
proof -
  have s: "\<And>v. v \<in> set scripts \<Longrightarrow> named_or_any f v \<Longrightarrow> \<not> site_bound v"
      "sorted_wrt (\<lambda>v w. script_name w = Some f \<longrightarrow> script_name v \<noteq> Some ''*'') scripts"
    using assms(1) by (auto simp: plain_scripts_def)
  have "sorted_wrt (\<lambda>v w. script_name w = Some f \<longrightarrow> script_name v \<noteq> Some ''*'' \<and>
      (script_name v = Some f \<and> site_bound w \<longrightarrow> site_bound v)) scripts"
    by (rule sorted_wrt_mono_rel [OF _ s(2)]) (use s(1) in \<open>auto simp: named_or_any_def\<close>)
  moreover have "\<not> list_ex (\<lambda>v. script_name v = Some f \<and> site_bound v) scripts"
    using s(1) by (auto simp: list_ex_iff named_or_any_def)
  ultimately have "orderly (\<lambda>_. None) scripts f 0"
    using assms(1) s(1) by (auto simp: orderly_def plain_scripts_def named_or_any_def)
  then have "engine_script scripts f = first_script (matching (\<lambda>_. None) f 0) scripts"
    using resolve_orderly [OF _ assms(2,3)] resolve_0 by metis
  also have "\<dots> = first_script (named_or_any f) scripts"
    by (rule first_script_cong) (use s(1) in \<open>auto simp: matching_def\<close>)
  finally show ?thesis .
qed

subsection \<open>What a dispatch does\<close>

definition call_params :: "('f, 'x) engine_env \<Rightarrow> 'f \<Rightarrow> func_prototype \<Rightarrow> bool \<times> func_param list" where
  "call_params ev frame p =
     (case setup_params (ev_ops ev) frame p (replicate ENGINE_MAXCOUNT_PARAMS zero_param) of
        None \<Rightarrow> (False, []) | Some r \<Rightarrow> r)"

text \<open>
  The parameters a dispatch sets up and the script it runs: none of either for a function
  without a prototype or excluded by the log filter.
\<close>

definition selected ::
    "('f, 'x) engine_env \<Rightarrow> json_array \<Rightarrow> cstr \<Rightarrow> 'f \<Rightarrow> (func_prototype \<times> func_param list \<times> json_object option) option" where
  "selected ev scripts f frame =
     (case retrace_func_get f (ev_funcs ev) of
        None \<Rightarrow> None
      | Some p \<Rightarrow>
          if (ev_allowed ev \<noteq> [] \<and> f \<notin> set (ev_allowed ev)) \<or> f \<in> set (ev_excluded ev) then None
          else (case call_params ev frame p of
                  (ok, params) \<Rightarrow> Some (p, params, if ok then engine_script scripts f else None)))"

definition call_context :: "addr \<Rightarrow> func_prototype option \<Rightarrow> func_param list \<Rightarrow> ('f, 'x) engine_context" where
  "call_context a p params =
     (set_prototype p (zero_context\<lparr>ec_dispatch_depth := 1, ec_real_impl := a\<rparr>))\<lparr>tc_params := params\<rparr>"

lemma find_script_selected:
  assumes "retrace_config_cache_build True buckets_ok (ev_conf ev) g0 = Some (0, ev_snap ev)"
    and "json_object_get_array (ev_conf ev) ''intercept_scripts'' = Some scripts"
    and "cache_ok (ev_dladdr ev) (en_callers s)" "f \<noteq> ''*''"
    and "\<And>p. retrace_func_get f (ev_funcs ev) = Some p \<Longrightarrow>
               setup_params (ev_ops ev) frame p (replicate ENGINE_MAXCOUNT_PARAMS zero_param) \<noteq> None"
    and "proto = retrace_func_get f (ev_funcs ev)" "c = set_prototype proto (zero_context\<lparr>ec_dispatch_depth := 1, ec_real_impl := a\<rparr>)"
    and "en_ctx s = Some c"
  shows "case selected ev scripts f frame of
      None \<Rightarrow> find_script ev f frame proto c s = Some (None, s)
    | Some (p, params, script) \<Rightarrow> proto = Some p \<and>
        (\<exists>callers. find_script ev f frame proto c s =
           Some (script, s\<lparr>en_ctx := Some (call_context a (Some p) params), en_callers := callers\<rparr>) \<and>
         cache_ok (ev_dladdr ev) callers)"
proof (cases proto)
  case None
  then show ?thesis using assms(6) by (simp add: selected_def find_script_def)
next
  case (Some p)
  have get: "retrace_func_get f (ev_funcs ev) = Some p" using assms(6) Some by simp
  have ops: "ops_for (ev_ops ev) (Some c) = ev_ops ev"
    using assms(7) by (simp add: ops_for_def lane_ops_for_def set_prototype_def zero_context_def)
  obtain ok params where su: "setup_params (ev_ops ev) frame p (replicate ENGINE_MAXCOUNT_PARAMS zero_param) = Some (ok, params)"
    using assms(5) [OF get] by auto
  have cp: "call_params ev frame p = (ok, params)" using su by (simp add: call_params_def)
  let ?c = "c\<lparr>tc_params := params\<rparr>"
  have c': "?c = call_context a (Some p) params" using assms(7) Some by (simp add: call_context_def)
  have ra: "tc_ret_addr ?c = 0" using assms(7) by (simp add: set_prototype_def zero_context_def)
  have loggable: "retrace_logger_func_loggable (ev_allowed ev) (ev_excluded ev) f \<longleftrightarrow>
      \<not> ((ev_allowed ev \<noteq> [] \<and> f \<notin> set (ev_allowed ev)) \<or> f \<in> set (ev_excluded ev))" by (auto simp: loggable_iff)
  obtain callers where
    sf: "retrace_script_find (ev_dladdr ev) (ev_snap ev) (Some scripts) f 0 (en_callers s) = Some (engine_script scripts f, callers)"
      "cache_ok (ev_dladdr ev) callers"
    using script_find_indexed [OF assms(1-4), of 0] unfolding resolve_0 by blast
  show ?thesis
  proof (cases "retrace_logger_func_loggable (ev_allowed ev) (ev_excluded ev) f")
    case False
    then have "(ev_allowed ev \<noteq> [] \<and> f \<notin> set (ev_allowed ev)) \<or> f \<in> set (ev_excluded ev)" unfolding loggable by blast
    then have "selected ev scripts f frame = None" using get by (auto simp: selected_def)
    then show ?thesis using Some False by (simp add: find_script_def)
  next
    case True
    then have sel: "selected ev scripts f frame = Some (p, params, if ok then engine_script scripts f else None)"
      using get loggable cp by (simp add: selected_def)
    have "find_script ev f frame proto c s =
        (if ok then Some (engine_script scripts f, s\<lparr>en_ctx := Some ?c, en_callers := callers\<rparr>)
         else Some (None, s\<lparr>en_ctx := Some ?c\<rparr>))"
      using Some True su ops assms(2) ra sf(1) by (simp add: find_script_def retrace_as_setup_params_def Let_def)
    moreover have "s\<lparr>en_ctx := Some ?c, en_callers := en_callers s\<rparr> = s\<lparr>en_ctx := Some ?c\<rparr>" by simp
    ultimately show ?thesis unfolding sel c' using Some sf(2) assms(3)
      by (cases ok) (auto intro: exI [of _ "en_callers s"])
  qed
qed

lemma dispatch_selected:
  assumes "en_inited s" "table_ok ev M f (en_cache s)" "f = strip_darwin_extsn name 64" "f \<noteq> ''*''" "real_of ev M f \<noteq> 0"
    and "en_ctx s = Some zero_context \<or> en_ctx s = None \<and> ev_malloc_ok ev \<and> ev_tss_ok ev"
    and "retrace_config_cache_build True buckets_ok (ev_conf ev) g0 = Some (0, ev_snap ev)"
    and "json_object_get_array (ev_conf ev) ''intercept_scripts'' = Some scripts"
    and "cache_ok (ev_dladdr ev) (en_callers s)"
    and "\<And>p. retrace_func_get f (ev_funcs ev) = Some p \<Longrightarrow>
               setup_params (ev_ops ev) (sched_real (ev_ops ev) frame (real_of ev M f)) p
                 (replicate ENGINE_MAXCOUNT_PARAMS zero_param) \<noteq> None"
  shows "case selected ev scripts f (sched_real (ev_ops ev) frame (real_of ev M f)) of
      None \<Rightarrow> \<exists>s'. retrace_engine_wrapper ev name frame s = Some (sched_real (ev_ops ev) frame (real_of ev M f), s') \<and>
        en_ctx s' = Some zero_context \<and> en_freed s' = en_freed s \<and> en_rest s' = ev_agent_kick ev (en_rest s)
    | Some (p, params, None) \<Rightarrow>
        \<exists>s'. retrace_engine_wrapper ev name frame s = Some (sched_real (ev_ops ev) frame (real_of ev M f), s') \<and>
          en_ctx s' = Some zero_context \<and> en_freed s' = en_freed s @ map fp_val (filter fp_free_val params) \<and>
          en_rest s' = ev_agent_kick ev (en_rest s)
    | Some (p, params, Some script) \<Rightarrow>
        \<exists>s1. en_ctx s1 = Some (call_context (real_of ev M f) (Some p) params) \<and> en_freed s1 = en_freed s \<and>
          en_rest s1 = ev_agent_kick ev (en_rest s) \<and>
          retrace_engine_wrapper ev name frame s =
            Some (clean_up (run_script ev (sched_real (ev_ops ev) frame (real_of ev M f)) script s1))"
proof -
  let ?a = "real_of ev M f" and ?frame = "sched_real (ev_ops ev) frame (real_of ev M f)"
  from table_lookup [OF assms(2)] obtain i cache where
    l: "name_slot_lookup (ev_members ev) (ev_get_real ev) True f (en_cache s) = Some (Some i, ?a, cache)"
      "cache_holds cache (M(f \<mapsto> ?a))" "protos_hold (ev_funcs ev) cache" "i < length cache" "rc_name (cache ! i) = f" by blast
  obtain cache2 where sp: "slot_proto (ev_funcs ev) (Some i) f cache = (retrace_func_get f (ev_funcs ev), cache2)"
    using slot_proto_get [OF l(3-5,2)] by blast
  let ?p = "retrace_func_get f (ev_funcs ev)"
  let ?c = "set_prototype ?p (zero_context\<lparr>ec_dispatch_depth := 1, ec_real_impl := ?a\<rparr>)"
  define h where "h = (if ch_enabled (en_hash s) then retrace_call_hash_observe (ev_malloc_ok ev) (ev_tss_ok ev) (ev_tid ev)
      (Some f) (case ?p of None \<Rightarrow> 0 | Some p \<Rightarrow> length (fpr_params p)) (en_hash s) else en_hash s)"
  define s3 where "s3 = s\<lparr>en_cache := cache, en_ctx := Some (zero_context\<lparr>ec_dispatch_depth := 1\<rparr>)\<rparr>"
  define s2 where "s2 = s3\<lparr>en_rest := ev_agent_kick ev (en_rest s3), en_cache := cache2, en_hash := h, en_ctx := Some ?c\<rparr>"
  have s2: "en_ctx s2 = Some ?c" "en_freed s2 = en_freed s" "en_callers s2 = en_callers s"
      "en_rest s2 = ev_agent_kick ev (en_rest s)" by (simp_all add: s2_def s3_def)
  have "retrace_engine_wrapper ev name frame s = intercept ev f (Some i) ?a ?frame (zero_context\<lparr>ec_dispatch_depth := 1\<rparr>) s3"
    using assms(1,5,6) l(1) unfolding retrace_engine_wrapper_def assms(3) [symmetric]
    by (auto simp: retrace_thread_context_get_def Let_def retrace_reentrance_guard_active_def
        zero_context_def retrace_as_sched_real_def ops_for_def lane_ops_for_def s3_def)
  also have "\<dots> = (case find_script ev f ?frame ?p ?c s2 of
         None \<Rightarrow> None
       | Some (None, s3) \<Rightarrow> Some (clean_up (?frame, s3))
       | Some (Some i_script, s3) \<Rightarrow> Some (clean_up (run_script ev ?frame i_script s3)))"
  proof -
    have "en_cache (s3\<lparr>en_rest := ev_agent_kick ev (en_rest s3)\<rparr>) = cache" "en_hash (s3\<lparr>en_rest := ev_agent_kick ev (en_rest s3)\<rparr>) = en_hash s"
      by (simp_all add: s3_def)
    then show ?thesis unfolding intercept_def Let_def retrace_reentrance_guard_enter_def
      by (simp only: sp prod.case s2_def h_def engine_context.simps)
  qed
  finally have w: "retrace_engine_wrapper ev name frame s = (case find_script ev f ?frame ?p ?c s2 of
         None \<Rightarrow> None
       | Some (None, s3) \<Rightarrow> Some (clean_up (?frame, s3))
       | Some (Some i_script, s3) \<Rightarrow> Some (clean_up (run_script ev ?frame i_script s3)))" .
  note fs = find_script_selected [OF assms(7,8) _ assms(4,10) refl refl s2(1), unfolded s2(3), OF assms(9)]
  show ?thesis
  proof (cases "selected ev scripts f ?frame")
    case None
    then show ?thesis using fs w s2 by (simp add: clean_up_def retrace_thread_context_clear_def zero_context_def set_prototype_def)
  next
    case (Some sel)
    obtain p params script where sel: "sel = (p, params, script)" by (cases sel)
    then obtain callers where c: "?p = Some p"
        "find_script ev f ?frame ?p ?c s2 = Some (script, s2\<lparr>en_ctx := Some (call_context ?a (Some p) params), en_callers := callers\<rparr>)"
      using fs Some by auto
    let ?s = "s2\<lparr>en_ctx := Some (call_context ?a (Some p) params), en_callers := callers\<rparr>"
    show ?thesis
    proof (cases script)
      case None
      then have "retrace_engine_wrapper ev name frame s = Some (clean_up (?frame, ?s))" using w c(2) by simp
      then show ?thesis using Some sel None s2(2,4)
        by (simp add: clean_up_def retrace_thread_context_clear_def call_context_def)
    next
      case (Some sc)
      then have "retrace_engine_wrapper ev name frame s = Some (clean_up (run_script ev ?frame sc ?s))" using w c(2) by simp
      then show ?thesis using \<open>selected ev scripts f ?frame = Some sel\<close> sel Some s2(2,4)
        by (auto intro: exI [of _ ?s])
    qed
  qed
qed

text \<open>
  The log filter is asked before any script is looked for: a function it does not let through is
  not intercepted at all, whatever actions its script has.
\<close>

lemma filtered_not_intercepted:
  assumes "en_inited s" "table_ok ev M f (en_cache s)" "f = strip_darwin_extsn name 64" "f \<noteq> ''*''" "real_of ev M f \<noteq> 0"
    and "en_ctx s = Some zero_context \<or> en_ctx s = None \<and> ev_malloc_ok ev \<and> ev_tss_ok ev"
    and "retrace_config_cache_build True buckets_ok (ev_conf ev) g0 = Some (0, ev_snap ev)"
    and "json_object_get_array (ev_conf ev) ''intercept_scripts'' = Some scripts"
    and "cache_ok (ev_dladdr ev) (en_callers s)"
    and "\<And>p. retrace_func_get f (ev_funcs ev) = Some p \<Longrightarrow>
               setup_params (ev_ops ev) (sched_real (ev_ops ev) frame (real_of ev M f)) p
                 (replicate ENGINE_MAXCOUNT_PARAMS zero_param) \<noteq> None"
    and "(ev_allowed ev \<noteq> [] \<and> f \<notin> set (ev_allowed ev)) \<or> f \<in> set (ev_excluded ev)"
  shows "\<exists>s'. retrace_engine_wrapper ev name frame s = Some (sched_real (ev_ops ev) frame (real_of ev M f), s') \<and>
    en_ctx s' = Some zero_context \<and> en_rest s' = ev_agent_kick ev (en_rest s)"
proof -
  have "selected ev scripts f (sched_real (ev_ops ev) frame (real_of ev M f)) = None"
    using assms(11) by (simp add: selected_def split: option.split)
  then show ?thesis using dispatch_selected [OF assms(1-10)] by auto
qed

text \<open>
  C5. The outermost dispatch of a call whose real implementation is known returns, for a
  function the log filter lets through, whose parameters can be set up within the bounds of the
  parameter array, and whose scripts are not bound to call sites.  The script is then the first
  in the configuration that is for the function or for every function, where those of the
  function come first.  There is none for a function without a prototype or with parameters
  that cannot be set up.  With no script, the only change to the frame is that the real implementation is
  scheduled.  With one, its actions run on the frame with that schedule cancelled and on
  a context that holds the function, its prototype and its parameters, and the return
  value they leave is written to the frame.  Either way the parameters the context owns
  are freed and the context is left empty.
\<close>

theorem engine_dispatch:
  assumes "en_inited s" "table_ok ev M f (en_cache s)" "f = strip_darwin_extsn name 64" "f \<noteq> ''*''" "real_of ev M f \<noteq> 0"
    and "en_ctx s = Some zero_context \<or> en_ctx s = None \<and> ev_malloc_ok ev \<and> ev_tss_ok ev"
    and "retrace_config_cache_build True buckets_ok (ev_conf ev) g0 = Some (0, ev_snap ev)"
    and "json_object_get_array (ev_conf ev) ''intercept_scripts'' = Some scripts"
    and "cache_ok (ev_dladdr ev) (en_callers s)"
    and "\<And>p. retrace_func_get f (ev_funcs ev) = Some p \<Longrightarrow>
               setup_params (ev_ops ev) (sched_real (ev_ops ev) frame (real_of ev M f)) p
                 (replicate ENGINE_MAXCOUNT_PARAMS zero_param) \<noteq> None"
    and "f \<noteq> []" "ev_allowed ev = [] \<or> f \<in> set (ev_allowed ev)" "f \<notin> set (ev_excluded ev)" "plain_scripts scripts f"
  shows "case retrace_func_get f (ev_funcs ev) of
      None \<Rightarrow> \<exists>s'. retrace_engine_wrapper ev name frame s = Some (sched_real (ev_ops ev) frame (real_of ev M f), s') \<and>
        en_ctx s' = Some zero_context \<and> en_freed s' = en_freed s \<and> en_rest s' = ev_agent_kick ev (en_rest s)
    | Some p \<Rightarrow> (case call_params ev (sched_real (ev_ops ev) frame (real_of ev M f)) p of (ok, params) \<Rightarrow>
        (case if ok then first_script (named_or_any f) scripts else None of
           None \<Rightarrow>
             \<exists>s'. retrace_engine_wrapper ev name frame s = Some (sched_real (ev_ops ev) frame (real_of ev M f), s') \<and>
               en_ctx s' = Some zero_context \<and> en_freed s' = en_freed s @ map fp_val (filter fp_free_val params) \<and>
               en_rest s' = ev_agent_kick ev (en_rest s)
         | Some script \<Rightarrow>
             \<exists>s1 frame2 s2. en_ctx s1 = Some (call_context (real_of ev M f) (Some p) params) \<and> en_freed s1 = en_freed s \<and>
               en_rest s1 = ev_agent_kick ev (en_rest s) \<and>
               retrace_action_runner_run (ev_actions ev) (Some script)
                 (cancel_sched_real (ev_ops ev) (sched_real (ev_ops ev) frame (real_of ev M f)), s1) = (frame2, s2) \<and>
               retrace_engine_wrapper ev name frame s =
                 Some (retrace_as_set_ret_val (ev_ops ev) (en_ctx s2) frame2 (case en_ctx s2 of None \<Rightarrow> 0 | Some c \<Rightarrow> tc_ret_val c),
                   case en_ctx s2 of None \<Rightarrow> s2
                   | Some c \<Rightarrow> s2\<lparr>en_ctx := Some zero_context, en_freed := en_freed s2 @ map fp_val (filter fp_free_val (tc_params c))\<rparr>)))"
proof (cases "retrace_func_get f (ev_funcs ev)")
  case None
  then have "selected ev scripts f (sched_real (ev_ops ev) frame (real_of ev M f)) = None" by (simp add: selected_def)
  then show ?thesis using dispatch_selected [OF assms(1-10)] None by simp
next
  case (Some p)
  let ?frame = "sched_real (ev_ops ev) frame (real_of ev M f)"
  obtain ok params where cp: "call_params ev ?frame p = (ok, params)" by (cases "call_params ev ?frame p")
  define script where "script = (if ok then first_script (named_or_any f) scripts else None)"
  have sel: "selected ev scripts f ?frame = Some (p, params, script)"
    using Some cp assms(12,13) engine_script_plain [OF assms(14,4,11)] by (auto simp: selected_def script_def)
  show ?thesis
  proof (cases script)
    case None
    then show ?thesis using dispatch_selected [OF assms(1-10)] sel Some cp script_def by auto
  next
    case (Some sc)
    obtain s1 where s1: "en_ctx s1 = Some (call_context (real_of ev M f) (Some p) params)" "en_freed s1 = en_freed s"
        "en_rest s1 = ev_agent_kick ev (en_rest s)" "retrace_engine_wrapper ev name frame s = Some (clean_up (run_script ev ?frame sc s1))"
      using dispatch_selected [OF assms(1-10)] sel Some by auto
    have cancel: "retrace_as_cancel_sched_real (ev_ops ev) (en_ctx s1) ?frame = cancel_sched_real (ev_ops ev) ?frame"
      using s1(1) by (simp add: retrace_as_cancel_sched_real_def ops_for_def lane_ops_for_def call_context_def set_prototype_def zero_context_def)
    obtain frame2 s2 where r: "retrace_action_runner_run (ev_actions ev) (Some sc) (cancel_sched_real (ev_ops ev) ?frame, s1) = (frame2, s2)"
      by (cases "retrace_action_runner_run (ev_actions ev) (Some sc) (cancel_sched_real (ev_ops ev) ?frame, s1)")
    have "retrace_engine_wrapper ev name frame s =
        Some (retrace_as_set_ret_val (ev_ops ev) (en_ctx s2) frame2 (case en_ctx s2 of None \<Rightarrow> 0 | Some c \<Rightarrow> tc_ret_val c),
          case en_ctx s2 of None \<Rightarrow> s2
          | Some c \<Rightarrow> s2\<lparr>en_ctx := Some zero_context, en_freed := en_freed s2 @ map fp_val (filter fp_free_val (tc_params c))\<rparr>)"
      using s1(4) r by (simp add: run_script_def cancel clean_up_def retrace_thread_context_clear_def split: option.split)
    then show ?thesis using s1(1-3) r \<open>retrace_func_get f (ev_funcs ev) = Some p\<close> cp Some script_def by auto
  qed
qed

text \<open>A process on the trampoline lane whose every function resolves to one address.\<close>

definition demo_ops :: "(sysv_frame, unit) as_ops" where
  "demo_ops = retrace_as_ops_default compat_flags no_types True parse_printf_format (\<lambda>_. []) (\<lambda>_ _ w. (0, w))"

definition demo_env :: "cache_snap option \<Rightarrow> (sysv_frame, unit) engine_env" where
  "demo_env g = \<lparr>ev_ops = demo_ops, ev_members = \<lparr>rm_strcmp = 1, rm_free = 1, rm_malloc = 1\<rparr>, ev_get_real = (\<lambda>_. 4096),
     ev_funcs = replicate MAXCOUNT_FUNCS_HASH_ENTRIES [\<lparr>fpr_name = ''getpid'', fpr_params = [], fpr_type_name = ''int'',
       fpr_fmt = FAT_NOVARARGS, fpr_fmt_param_idx = 0\<rparr>],
     ev_actions = replicate MAXCOUNT_ACTS_HASH_ENTRIES [], ev_conf = Some (conf_of [script_for ''open'' []]), ev_snap = g,
     ev_dladdr = (\<lambda>_. None), ev_allowed = [], ev_excluded = [], ev_malloc_ok = True, ev_tss_ok = True, ev_tid = 0,
     ev_agent_kick = id\<rparr>"

definition demo_engine :: "(sysv_frame, unit) engine_context option \<Rightarrow> (sysv_frame, unit) engine" where
  "demo_engine c = \<lparr>en_inited = True, en_cache = empty_real_cache, en_ctx = c,
     en_hash = empty_call_hash, en_callers = empty_cache, en_freed = [], en_rest = ()\<rparr>"

definition demo_frame :: sysv_frame where
  "demo_frame = \<lparr>call_real_flag = 0, sf_real_impl = 0, sf_ret_val = 0, real_r9 = 9, real_r8 = 8, real_rcx = 3, real_rdx = 2,
     real_rsi = 1, real_rdi = 7, real_rsp = 1024\<rparr>"

lemma demo_table: "table_ok (demo_env g) Map.empty ''getpid'' empty_real_cache"
proof -
  have "keepable ''getpid''" by code_simp
  then show ?thesis using cache_holds_empty
    by (simp add: table_ok_def protos_hold_def empty_real_cache_def REAL_CACHE_SLOTS_def list_all_iff)
qed

lemma demo_real: "real_of (demo_env g) Map.empty ''getpid'' = 4096"
  by (simp add: real_of_def demo_env_def retrace_real_impl_resolve_def)

lemma demo_strip: "strip_darwin_extsn ''getpid'' 64 = ''getpid''"
  by (simp add: strip_darwin_extsn_def DARWIN_EXTSN_def)

theorem nested_call_passes_witness:
  "\<exists>cache. retrace_engine_wrapper (demo_env None) ''getpid'' demo_frame
      (demo_engine (Some (zero_context\<lparr>ec_dispatch_depth := 1, ec_real_impl := 77\<rparr>))) =
    Some (demo_frame\<lparr>call_real_flag := 1, sf_real_impl := 4096\<rparr>,
      (demo_engine (Some (zero_context\<lparr>ec_dispatch_depth := 1, ec_real_impl := 77\<rparr>)))\<lparr>en_cache := cache\<rparr>)"
proof -
  let ?c = "zero_context\<lparr>ec_dispatch_depth := 1, ec_real_impl := 77\<rparr> :: (sysv_frame, unit) engine_context"
  have f: "sched_real (ev_ops (demo_env None)) demo_frame 4096 = demo_frame\<lparr>call_real_flag := 1, sf_real_impl := 4096\<rparr>"
    by (simp add: demo_env_def demo_ops_def retrace_as_ops_default_def retrace_as_trampoline_sched_real_def)
  have "table_ok (demo_env None) Map.empty (strip_darwin_extsn ''getpid'' 64) (en_cache (demo_engine (Some ?c)))"
    using demo_table unfolding demo_strip by (simp add: demo_engine_def)
  from nested_call_passes [OF _ this, of ?c demo_frame] show ?thesis
    unfolding demo_strip demo_real f by (auto simp: demo_engine_def retrace_reentrance_guard_active_def)
qed

theorem engine_dispatch_witness:
  "\<exists>g s'. retrace_config_cache_build True True (Some (conf_of [script_for ''open'' []])) None = Some (0, g) \<and>
    retrace_engine_wrapper (demo_env g) ''getpid'' demo_frame (demo_engine None) =
      Some (demo_frame\<lparr>call_real_flag := 1, sf_real_impl := 4096\<rparr>, s') \<and> en_ctx s' = Some zero_context"
proof -
  from config_cache_built [OF conf_of_scripts, where calloc_ok = True and buckets_ok = True and g = None and scripts = "[script_for ''open'' []]"]
  obtain sn where g: "retrace_config_cache_build True True (Some (conf_of [script_for ''open'' []])) None = Some (0, Some sn)" by auto
  let ?ev = "demo_env (Some sn)"
  have f: "sched_real (ev_ops ?ev) demo_frame 4096 = demo_frame\<lparr>call_real_flag := 1, sf_real_impl := 4096\<rparr>"
    by (simp add: demo_env_def demo_ops_def retrace_as_ops_default_def retrace_as_trampoline_sched_real_def)
  have conf: "ev_conf ?ev = Some (conf_of [script_for ''open'' []])" "ev_snap ?ev = Some sn" "ev_dladdr ?ev = (\<lambda>_. None)"
    by (simp_all add: demo_env_def)
  have get: "retrace_func_get ''getpid'' (ev_funcs ?ev) = Some \<lparr>fpr_name = ''getpid'', fpr_params = [], fpr_type_name = ''int'',
      fpr_fmt = FAT_NOVARARGS, fpr_fmt_param_idx = 0\<rparr>"
    using hash_string_less [of MAXCOUNT_FUNCS_HASH_ENTRIES "''getpid''"]
    by (simp add: demo_env_def retrace_func_get_def registry_get_def MAXCOUNT_FUNCS_HASH_ENTRIES_def)
  have su: "setup_params (ev_ops ?ev) (sched_real (ev_ops ?ev) demo_frame (real_of ?ev Map.empty ''getpid'')) p
      (replicate ENGINE_MAXCOUNT_PARAMS zero_param) = Some (True, [])"
    if "retrace_func_get ''getpid'' (ev_funcs ?ev) = Some p" for p
    using that unfolding get by (auto simp: demo_env_def demo_ops_def retrace_as_ops_default_def retrace_as_trampoline_setup_params_def)
  have none: "call_params ?ev (sched_real (ev_ops ?ev) demo_frame (real_of ?ev Map.empty ''getpid'')) p = (True, [])"
    if "retrace_func_get ''getpid'' (ev_funcs ?ev) = Some p" for p
    using su [OF that] by (simp add: call_params_def)
  have scripts: "plain_scripts [script_for ''open'' []] ''getpid''" "first_script (named_or_any ''getpid'') [script_for ''open'' []] = None"
    by (simp_all add: plain_scripts_def named_or_any_def resolve_eval)
  note d = engine_dispatch [where ev = ?ev and M = Map.empty and f = "''getpid''" and name = "''getpid''" and
      s = "demo_engine None" and buckets_ok = True and ?g0.0 = None and scripts = "[script_for ''open'' []]" and frame = demo_frame]
  have "\<exists>s'. retrace_engine_wrapper ?ev ''getpid'' demo_frame (demo_engine None) =
      Some (sched_real (ev_ops ?ev) demo_frame (real_of ?ev Map.empty ''getpid''), s') \<and> en_ctx s' = Some zero_context"
    using d demo_table demo_strip demo_real empty_cache_ok su g conf conf_of_scripts scripts none [OF get]
    unfolding get by (auto simp: demo_engine_def demo_env_def)
  then show ?thesis unfolding demo_real f using g by auto
qed

end
