(* ===== verification/Path_Set.thy ===== *)
theory Path_Set
  imports Json
begin

unbundle bit_operations_syntax

section \<open>Compiled path lists (\<open>src/src/core/actions/sandbox.c\<close>)\<close>

text \<open>
  The policy lists of the sandbox are compiled into buckets by the first path component
  and kept in a cache of eight sets keyed by the address of the list.  A list is its
  address and its contents.  Building a set succeeds or fails as a whole, a Boolean
  argument: when one of its three allocations fails, the code frees the rest.
\<close>

definition PATH_BUCKETS :: nat where "PATH_BUCKETS = 32"
definition PATH_SETS_MAX :: nat where "PATH_SETS_MAX = 8"

subsection \<open>Matching one entry\<close>

definition is_sep :: "char \<Rightarrow> bool" where
  "is_sep c \<longleftrightarrow> c = CHR ''/'' \<or> c = CHR 0x5C"

definition path_matches :: "cstr \<Rightarrow> cstr \<Rightarrow> bool" where
  "path_matches path_arg entry =
     (if length entry = 0 then False
      else if is_sep (entry ! (length entry - 1)) then strncmp_eq path_arg entry (length entry)
      else path_arg = entry)"

fun comp_hash_loop :: "32 word \<Rightarrow> cstr \<Rightarrow> 32 word" where
  "comp_hash_loop h [] = h"
| "comp_hash_loop h (c # p) = (if c \<noteq> CHR ''/'' \<and> c \<noteq> CHR 0x5C then comp_hash_loop ((h XOR of_char c) * 16777619) p else h)"

definition first_comp_hash :: "cstr \<Rightarrow> 32 word" where
  "first_comp_hash s = comp_hash_loop 2166136261 (if cget s 0 = CHR ''/'' then tl s else s)"

definition entry_bucket :: "cstr \<Rightarrow> nat" where
  "entry_bucket entry =
     (if length entry = 0 \<or> entry ! 0 \<noteq> CHR ''/'' then PATH_BUCKETS
      else if is_sep (entry ! (length entry - 1)) \<and> length entry = 1 then PATH_BUCKETS
      else unat (first_comp_hash entry mod of_nat PATH_BUCKETS))"

subsection \<open>Building a set\<close>

record path_set =
  ps_count :: nat
  ps_first_copy :: "cstr option"
  ps_last_copy :: "cstr option"
  ps_off :: "nat list"
  ps_idx :: "nat list"

definition bucket_at :: "json_array \<Rightarrow> nat \<Rightarrow> nat" where
  "bucket_at list i = (case json_array_get_string (Some list) i of Some e \<Rightarrow> entry_bucket e | None \<Rightarrow> PATH_BUCKETS)"

fun count_loop :: "nat list \<Rightarrow> nat list \<Rightarrow> nat list" where
  "count_loop counts [] = counts"
| "count_loop counts (b # bs) = count_loop (counts[b := counts ! b + 1]) bs"

fun off_loop :: "nat \<Rightarrow> nat list \<Rightarrow> nat list" where
  "off_loop off [] = [off]"
| "off_loop off (c # counts) = off # off_loop (off + c) counts"

fun fill_loop :: "nat list \<Rightarrow> nat list \<Rightarrow> nat \<Rightarrow> nat list \<Rightarrow> nat list" where
  "fill_loop idx cursor i [] = idx"
| "fill_loop idx cursor i (b # bs) = fill_loop (idx[cursor ! b := i]) (cursor[b := cursor ! b + 1]) (Suc i) bs"

definition path_set_build :: "bool \<Rightarrow> json_array \<Rightarrow> path_set option" where
  "path_set_build malloc_ok list =
     (let n = json_array_get_count (Some list);
          first = json_array_get_string (Some list) 0;
          last = json_array_get_string (Some list) (n - 1);
          buckets = map (bucket_at list) [0..<n];
          off = off_loop 0 (count_loop (replicate (PATH_BUCKETS + 1) 0) buckets) in
      if \<not> malloc_ok then None
      else if n > 0 \<and> (first = None \<or> last = None) then None
      else Some \<lparr>ps_count = n, ps_first_copy = (if n > 0 then first else None), ps_last_copy = (if n > 0 then last else None),
                 ps_off = off, ps_idx = fill_loop (replicate n 0) off 0 buckets\<rparr>)"

subsection \<open>The cache of sets\<close>

record path_set_cache =
  g_path_sets :: "(64 word \<times> path_set option) list"
  g_path_set_next :: nat

definition path_set_valid :: "path_set option \<Rightarrow> json_array \<Rightarrow> nat \<Rightarrow> bool" where
  "path_set_valid set_p list n =
     (case set_p of
        None \<Rightarrow> False
      | Some s \<Rightarrow>
          if ps_count s \<noteq> n then False
          else if n = 0 then True
          else
            let first = json_array_get_string (Some list) 0; last = json_array_get_string (Some list) (n - 1) in
            if first = None \<or> last = None \<or> ps_first_copy s = None \<or> ps_last_copy s = None then False
            else first = ps_first_copy s \<and> last = ps_last_copy s)"

fun cached_set :: "(64 word \<times> path_set option) list \<Rightarrow> 64 word \<Rightarrow> json_array \<Rightarrow> path_set option" where
  "cached_set [] a list = None"
| "cached_set ((arr, s) # sets) a list =
     (if arr = a \<and> path_set_valid s list (json_array_get_count (Some list)) then s else cached_set sets a list)"

definition matches_at :: "cstr \<Rightarrow> json_array \<Rightarrow> nat \<Rightarrow> bool" where
  "matches_at path_arg list j =
     (case json_array_get_string (Some list) j of None \<Rightarrow> False | Some e \<Rightarrow> path_matches path_arg e)"

definition bucket_hit :: "cstr \<Rightarrow> json_array \<Rightarrow> path_set \<Rightarrow> nat \<Rightarrow> bool" where
  "bucket_hit path_arg list s b =
     list_ex (\<lambda>i. matches_at path_arg list (ps_idx s ! i)) [ps_off s ! b..<ps_off s ! (b + 1)]"

definition set_contains :: "cstr \<Rightarrow> json_array \<Rightarrow> path_set \<Rightarrow> bool" where
  "set_contains path_arg list s \<longleftrightarrow>
     bucket_hit path_arg list s (unat (first_comp_hash path_arg mod of_nat PATH_BUCKETS)) \<or>
     bucket_hit path_arg list s PATH_BUCKETS"

definition list_walk :: "cstr \<Rightarrow> json_array \<Rightarrow> bool" where
  "list_walk path_arg list = list_ex (matches_at path_arg list) [0..<json_array_get_count (Some list)]"

definition list_contains ::
    "bool \<Rightarrow> 64 word \<Rightarrow> cstr \<Rightarrow> json_array \<Rightarrow> path_set_cache \<Rightarrow> bool \<times> path_set_cache" where
  "list_contains malloc_ok a path_arg list c =
     (case cached_set (g_path_sets c) a list of
        Some s \<Rightarrow> (set_contains path_arg list s, c)
      | None \<Rightarrow>
          (case path_set_build malloc_ok list of
             None \<Rightarrow> (list_walk path_arg list, c)
           | Some s \<Rightarrow>
               (set_contains path_arg list s,
                c\<lparr>g_path_sets := (g_path_sets c)[g_path_set_next c := (a, Some s)],
                  g_path_set_next := (g_path_set_next c + 1) mod PATH_SETS_MAX\<rparr>)))"

subsection \<open>The buckets partition the list\<close>

text \<open>The places of bucket \<open>b\<close> among the first \<open>m\<close> entries.\<close>

definition places :: "nat list \<Rightarrow> nat \<Rightarrow> nat \<Rightarrow> nat list" where
  "places bs b m = filter (\<lambda>i. bs ! i = b) [0..<m]"

lemma places_Suc: "places bs b (Suc m) = places bs b m @ (if bs ! m = b then [m] else [])"
  by (simp add: places_def)

lemma places_le: "m \<le> n \<Longrightarrow> length (places bs b m) \<le> length (places bs b n)"
  by (induction rule: inc_induct) (auto simp: places_Suc intro: le_trans)

lemma count_loop_places:
  "\<forall>b\<in>set bs. b < length counts \<Longrightarrow> b < length counts \<Longrightarrow>
   length (count_loop counts bs) = length counts \<and> count_loop counts bs ! b = counts ! b + length (filter (\<lambda>x. x = b) bs)"
  by (induction counts bs rule: count_loop.induct) (auto simp: nth_list_update)

lemma places_count: "length (places bs b (length bs)) = length (filter (\<lambda>x. x = b) bs)"
proof -
  have "filter (\<lambda>x. x = b) bs = map (\<lambda>i. bs ! i) (places bs b (length bs))"
    unfolding places_def by (metis (mono_tags, lifting) comp_apply filter_cong filter_map map_nth)
  then show ?thesis by simp
qed

lemma off_loop_nth:
  "length (off_loop off counts) = Suc (length counts)"
  "b \<le> length counts \<Longrightarrow> off_loop off counts ! b = off + sum_list (take b counts)"
  by (induction off counts arbitrary: b rule: off_loop.induct) (auto simp: nth_Cons take_Cons split: nat.split)

definition offs :: "nat \<Rightarrow> nat list \<Rightarrow> nat list" where
  "offs nb bs = off_loop 0 (count_loop (replicate nb 0) bs)"

lemma offs_step:
  assumes "\<forall>b\<in>set bs. b < nb" "b < nb"
  shows "offs nb bs ! Suc b = offs nb bs ! b + length (places bs b (length bs))"
proof -
  have c: "length (count_loop (replicate nb 0) bs) = nb"
    "count_loop (replicate nb 0) bs ! b = length (places bs b (length bs))"
    using count_loop_places [of bs "replicate nb 0" b] assms by (simp_all add: places_count)
  then show ?thesis using assms(2) unfolding offs_def by (simp add: off_loop_nth take_Suc_conv_app_nth)
qed

lemma offs_mono:
  assumes "\<forall>b\<in>set bs. b < nb" "b \<le> b'" "b' \<le> nb"
  shows "offs nb bs ! b \<le> offs nb bs ! b'"
  using assms(2,3) by (induction rule: inc_induct) (auto simp: offs_step [OF assms(1)] intro: le_trans)

lemma offs_total:
  assumes "\<forall>b\<in>set bs. b < nb"
  shows "offs nb bs ! nb = length bs"
proof -
  have "offs nb bs ! k = length (filter (\<lambda>x. x < k) bs)" if "k \<le> nb" for k
    using that
  proof (induction k)
    case 0
    then show ?case by (simp add: offs_def off_loop_nth)
  next
    case (Suc k)
    have "length (filter (\<lambda>x. x < Suc k) bs) = length (filter (\<lambda>x. x < k) bs) + length (filter (\<lambda>x. x = k) bs)"
      by (induction bs) auto
    then show ?case using Suc offs_step [OF assms, of k] by (simp add: places_count)
  qed
  from this [of nb] show ?thesis using assms by (simp add: filter_True)
qed

text \<open>The filling loop puts the places of each bucket next to each other, in order.\<close>

definition filled :: "nat \<Rightarrow> nat list \<Rightarrow> nat \<Rightarrow> nat list \<Rightarrow> nat list \<Rightarrow> bool" where
  "filled nb bs m idx cursor \<longleftrightarrow> length idx = length bs \<and> nb \<le> length cursor \<and>
     (\<forall>b<nb. cursor ! b = offs nb bs ! b + length (places bs b m) \<and>
        (\<forall>j<length (places bs b m). idx ! (offs nb bs ! b + j) = places bs b m ! j))"

lemma slot_apart:
  assumes bs: "\<forall>b\<in>set bs. b < nb" and "b < nb" "b' < nb" "b \<noteq> b'"
    and "j < length (places bs b (length bs))" "j' < length (places bs b' (length bs))"
  shows "offs nb bs ! b + j \<noteq> offs nb bs ! b' + j'"
proof (cases "b < b'")
  case True
  then have "offs nb bs ! Suc b \<le> offs nb bs ! b'" using offs_mono [OF bs, of "Suc b" b'] assms(3) by simp
  then show ?thesis using offs_step [OF bs assms(2)] assms(5) by simp
next
  case False
  then have "offs nb bs ! Suc b' \<le> offs nb bs ! b" using offs_mono [OF bs, of "Suc b'" b] assms(2,4) by simp
  then show ?thesis using offs_step [OF bs assms(3)] assms(6) by simp
qed

lemma filled_step:
  assumes bs: "\<forall>b\<in>set bs. b < nb" and m: "m < length bs" and f: "filled nb bs m idx cursor"
  shows "filled nb bs (Suc m) (idx[cursor ! (bs ! m) := m]) (cursor[bs ! m := cursor ! (bs ! m) + 1])"
proof -
  let ?b = "bs ! m"
  let ?k = "length (places bs ?b m)"
  have b: "?b < nb" using bs m by simp
  have cur: "cursor ! ?b = offs nb bs ! ?b + ?k" using f b by (simp add: filled_def)
  have k: "?k < length (places bs ?b (length bs))"
    using places_le [of "Suc m" "length bs" bs ?b] m by (simp add: places_Suc)
  have in_range: "cursor ! ?b < length idx"
  proof -
    have "cursor ! ?b < offs nb bs ! Suc ?b" using cur k offs_step [OF bs b] by simp
    also have "\<dots> \<le> length bs" using offs_mono [OF bs, of "Suc ?b" nb] offs_total [OF bs] b by simp
    finally show ?thesis using f by (simp add: filled_def)
  qed
  show ?thesis
    unfolding filled_def
  proof (intro conjI allI impI)
    fix b assume b': "b < nb"
    show "cursor[?b := cursor ! ?b + 1] ! b = offs nb bs ! b + length (places bs b (Suc m))"
      using f b' by (cases "b = ?b") (auto simp: filled_def places_Suc)
    fix j assume j: "j < length (places bs b (Suc m))"
    show "idx[cursor ! ?b := m] ! (offs nb bs ! b + j) = places bs b (Suc m) ! j"
    proof (cases "b = ?b \<and> j = ?k")
      case True
      then show ?thesis using in_range cur by (simp add: places_Suc)
    next
      case False
      then have old: "j < length (places bs b m)" using j by (auto simp: places_Suc split: if_splits)
      have "length (places bs b m) \<le> length (places bs b (length bs))" using places_le m by simp
      then have "offs nb bs ! b + j \<noteq> cursor ! ?b"
        using False slot_apart [OF bs b' b, of j ?k] k old cur by (cases "b = ?b") auto
      then show ?thesis using f b' old by (simp add: filled_def places_Suc nth_append)
    qed
  qed (use f in \<open>simp_all add: filled_def\<close>)
qed

lemma fill_loop_filled:
  assumes "\<forall>b\<in>set bs. b < nb" "filled nb bs m idx cursor" "m \<le> length bs"
  shows "\<exists>cursor'. filled nb bs (length bs) (fill_loop idx cursor m (drop m bs)) cursor'"
  using assms(2,3)
proof (induction "length bs - m" arbitrary: m idx cursor)
  case 0
  then show ?case by auto
next
  case (Suc k)
  then have m: "m < length bs" by simp
  then have "drop m bs = bs ! m # drop (Suc m) bs" by (rule Cons_nth_drop_Suc [symmetric])
  then show ?case using Suc.hyps(1) [OF _ filled_step [OF assms(1) m Suc.prems(1)]] Suc.hyps(2) m by simp
qed

text \<open>So a bucket's slice of the index holds the places of the bucket's entries.\<close>

lemma fill_loop_slice:
  assumes "\<forall>b\<in>set bs. b < nb" "b < nb"
  shows "set (map (\<lambda>i. fill_loop (replicate (length bs) 0) (offs nb bs) 0 bs ! i) [offs nb bs ! b..<offs nb bs ! (b + 1)]) =
    {i. i < length bs \<and> bs ! i = b}"
proof -
  let ?idx = "fill_loop (replicate (length bs) 0) (offs nb bs) 0 bs"
  have "length (offs nb bs) = Suc nb" using count_loop_places [of bs "replicate nb 0" b] assms by (simp add: offs_def off_loop_nth)
  then have "filled nb bs 0 (replicate (length bs) 0) (offs nb bs)" by (simp add: filled_def places_def)
  from fill_loop_filled [OF assms(1) this] obtain cursor where f: "filled nb bs (length bs) ?idx cursor" by auto
  have "map (\<lambda>i. ?idx ! i) [offs nb bs ! b..<offs nb bs ! (b + 1)] = places bs b (length bs)"
  proof (rule nth_equalityI)
    show "length (map (\<lambda>i. ?idx ! i) [offs nb bs ! b..<offs nb bs ! (b + 1)]) = length (places bs b (length bs))"
      using offs_step [OF assms] by simp
    fix i assume "i < length (map (\<lambda>i. ?idx ! i) [offs nb bs ! b..<offs nb bs ! (b + 1)])"
    then show "map (\<lambda>i. ?idx ! i) [offs nb bs ! b..<offs nb bs ! (b + 1)] ! i = places bs b (length bs) ! i"
      using f assms(2) offs_step [OF assms] by (simp add: filled_def)
  qed
  then show ?thesis by (auto simp: places_def)
qed

subsection \<open>A set finds what a walk finds\<close>

lemma comp_hash_prefix:
  "is_sep (last e) \<Longrightarrow> e \<noteq> [] \<Longrightarrow> comp_hash_loop h (e @ p) = comp_hash_loop h e"
proof (induction e arbitrary: h)
  case (Cons a e)
  then show ?case by (cases "e = []") (auto simp: is_sep_def)
qed simp

text \<open>A path an entry matches lies in the entry's bucket, or the entry is in the last one.\<close>

lemma path_matches_bucket:
  assumes "path_matches path e"
  shows "entry_bucket e = PATH_BUCKETS \<or> entry_bucket e = unat (first_comp_hash path mod of_nat PATH_BUCKETS)"
proof (cases "e = [] \<or> e ! 0 \<noteq> CHR ''/'' \<or> is_sep (e ! (length e - 1)) \<and> length e = 1")
  case True
  then show ?thesis by (auto simp: entry_bucket_def)
next
  case False
  then have e: "e \<noteq> []" "hd e = CHR ''/''" "entry_bucket e = unat (first_comp_hash e mod of_nat PATH_BUCKETS)"
    by (auto simp: entry_bucket_def hd_conv_nth)
  have "first_comp_hash path = first_comp_hash e"
  proof (cases "is_sep (e ! (length e - 1))")
    case True
    then have "take (length e) path = e" using assms e(1) by (simp add: path_matches_def strncmp_eq_def)
    then obtain rest where p: "path = e @ rest" by (metis append_take_drop_id)
    obtain c t where t: "e = c # t" using e(1) by (cases e) auto
    then have "t \<noteq> []" using False True by auto
    moreover have "is_sep (last t)" using True t \<open>t \<noteq> []\<close> by (simp add: last_conv_nth)
    ultimately show ?thesis using p t e(2) by (simp add: first_comp_hash_def comp_hash_prefix)
  next
    case False
    then show ?thesis using assms e(1) by (simp add: path_matches_def split: if_splits)
  qed
  then show ?thesis using e(3) by simp
qed

lemma mod_buckets_less: "unat (h mod of_nat PATH_BUCKETS :: 32 word) < PATH_BUCKETS"
  by (simp add: PATH_BUCKETS_def unat_mod)

lemma bucket_at_less: "bucket_at list i < PATH_BUCKETS + 1"
  using mod_buckets_less
  by (auto simp: bucket_at_def entry_bucket_def less_Suc_eq split: option.split)

lemma set_contains_build:
  assumes "path_set_build malloc_ok list = Some s"
  shows "set_contains path list s = list_walk path list"
proof -
  let ?n = "json_array_get_count (Some list)"
  let ?bs = "map (bucket_at list) [0..<?n]"
  let ?nb = "PATH_BUCKETS + 1"
  have bs: "\<forall>b\<in>set ?bs. b < ?nb" using bucket_at_less by auto
  have s: "ps_off s = offs ?nb ?bs" "ps_idx s = fill_loop (replicate ?n 0) (offs ?nb ?bs) 0 ?bs"
    using assms by (auto simp: path_set_build_def Let_def offs_def split: if_splits)
  have hit: "bucket_hit path list s b \<longleftrightarrow> (\<exists>j<?n. bucket_at list j = b \<and> matches_at path list j)" if "b < ?nb" for b
  proof -
    have "set (map (\<lambda>i. ps_idx s ! i) [ps_off s ! b..<ps_off s ! (b + 1)]) = {i. i < ?n \<and> bucket_at list i = b}"
      using fill_loop_slice [OF bs that] unfolding s by auto
    moreover have "bucket_hit path list s b \<longleftrightarrow>
        (\<exists>j\<in>set (map (\<lambda>i. ps_idx s ! i) [ps_off s ! b..<ps_off s ! (b + 1)]). matches_at path list j)"
      by (simp add: bucket_hit_def list_ex_iff)
    ultimately show ?thesis by auto
  qed
  have "bucket_at list j \<in> {unat (first_comp_hash path mod of_nat PATH_BUCKETS), PATH_BUCKETS}" if "matches_at path list j" for j
    using that path_matches_bucket by (auto simp: matches_at_def bucket_at_def split: option.splits)
  then have "list_walk path list \<longleftrightarrow>
      (\<exists>j<?n. bucket_at list j = unat (first_comp_hash path mod of_nat PATH_BUCKETS) \<and> matches_at path list j) \<or>
      (\<exists>j<?n. bucket_at list j = PATH_BUCKETS \<and> matches_at path list j)"
    unfolding list_walk_def list_ex_iff by fastforce
  then show ?thesis
    using hit [of PATH_BUCKETS] hit [of "unat (first_comp_hash path mod of_nat PATH_BUCKETS)"] mod_buckets_less [of "first_comp_hash path"]
    by (simp add: set_contains_def)
qed

text \<open>
  The cache holds sets of the lists that are at their addresses: every cached set was
  built from the list that \<open>heap\<close> has there.
\<close>

definition sets_from :: "(64 word \<Rightarrow> json_array) \<Rightarrow> path_set_cache \<Rightarrow> bool" where
  "sets_from heap c \<longleftrightarrow> g_path_set_next c < PATH_SETS_MAX \<and> length (g_path_sets c) = PATH_SETS_MAX \<and>
     (\<forall>(a, s)\<in>set (g_path_sets c). s = None \<or> s = path_set_build True (heap a))"

lemma cached_set_in: "cached_set sets a list = Some s \<Longrightarrow> (a, Some s) \<in> set sets"
  by (induction sets a list rule: cached_set.induct) (auto split: if_splits)

lemma path_set_build_True: "path_set_build malloc_ok list = Some s \<Longrightarrow> path_set_build True list = Some s"
  by (auto simp: path_set_build_def Let_def split: if_splits)

lemma list_contains_walk:
  assumes "sets_from heap c" "heap a = list"
  shows "fst (list_contains malloc_ok a path list c) = list_walk path list"
    "sets_from heap (snd (list_contains malloc_ok a path list c))"
proof -
  show "fst (list_contains malloc_ok a path list c) = list_walk path list"
  proof (cases "cached_set (g_path_sets c) a list")
    case None
    then show ?thesis using set_contains_build by (auto simp: list_contains_def split: option.split)
  next
    case (Some s)
    then have "path_set_build True list = Some s" using cached_set_in [OF Some] assms by (auto simp: sets_from_def)
    then show ?thesis using Some set_contains_build by (simp add: list_contains_def)
  qed
  show "sets_from heap (snd (list_contains malloc_ok a path list c))"
  proof (cases "cached_set (g_path_sets c) a list = None \<and> path_set_build malloc_ok list \<noteq> None")
    case False
    then show ?thesis using assms by (auto simp: list_contains_def split: option.split)
  next
    case True
    then obtain s where s: "path_set_build malloc_ok list = Some s" by auto
    then have "path_set_build True (heap a) = Some s" using path_set_build_True assms(2) by simp
    then show ?thesis using assms(1) True s set_update_subset_insert [of "g_path_sets c" "g_path_set_next c" "(a, Some s)"]
      by (fastforce simp: list_contains_def sets_from_def PATH_SETS_MAX_def)
  qed
qed

definition no_sets :: path_set_cache where
  "no_sets = \<lparr>g_path_sets = replicate PATH_SETS_MAX (0, None), g_path_set_next = 0\<rparr>"

lemma no_sets_from: "sets_from heap no_sets"
  by (auto simp: sets_from_def no_sets_def PATH_SETS_MAX_def)

text \<open>
  C36. While no list is replaced by another at the same address, looking a path up in a
  policy list through the compiled buckets and the cache gives what comparing it with
  every entry gives, whether or not memory for the buckets can be had; and the cache stays
  one of lists at their addresses.
\<close>

theorem list_contains_correct:
  assumes "sets_from heap c"
  shows "fst (list_contains malloc_ok a path (heap a) c) = list_walk path (heap a) \<and>
    sets_from heap (snd (list_contains malloc_ok a path (heap a) c))"
  using list_contains_walk [OF assms] by simp

theorem list_contains_correct_witness:
  "fst (list_contains True 64 ''/root/.ssh'' [JSONString ''/etc/shadow'', JSONString ''/root/''] no_sets)"
  using list_contains_correct [OF no_sets_from, where heap = "\<lambda>_. [JSONString ''/etc/shadow'', JSONString ''/root/'']",
      of True 64 "''/root/.ssh''"]
  by (simp add: list_walk_def json_array_get_count_def matches_at_def json_array_get_string_def json_array_get_value_def
      path_matches_def strncmp_eq_def is_sep_def)

text \<open>
  Once a list has been looked up, a list that replaces it at the same address with
  the same length and the same first and last entries is looked up through the old
  buckets: its other entries are missed.  The cache's validation is said to be exact.
\<close>

theorem list_contains_stale:
  "list_walk ''/secret'' [JSONString ''/a'', JSONString ''/secret'', JSONString ''/c''] \<and>
   \<not> fst (list_contains True 64 ''/secret'' [JSONString ''/a'', JSONString ''/secret'', JSONString ''/c'']
        (snd (list_contains True 64 ''/a'' [JSONString ''/a'', JSONString ''/b'', JSONString ''/c''] no_sets)))"
  by code_simp

end
