(* ===== verification/Sandbox.thy ===== *)
theory Sandbox
  imports Path_Set Call_Context
begin

unbundle bit_operations_syntax

section \<open>The sandbox action (\<open>src/src/core/actions/sandbox.c\<close>)\<close>

text \<open>
  File, class and environment policies on an intercepted call.  The memory maps the
  address of a string to the string.  What a call finds outside is one record: the
  addresses of the policy lists, by their keys, whether compiling each can get memory,
  whether the decoy's path can, and at which address.  Logging and the two event
  streams are left out.  After the code comes the policy as the documents describe it, in terms
  of its own, and that the code enforces it.
\<close>

type_synonym memory = "64 word \<Rightarrow> cstr"

record sandbox_env =
  arr_addr :: "cstr \<Rightarrow> 64 word"
  build_ok :: "cstr \<Rightarrow> bool"
  decoy_ok :: bool
  decoy_addr :: "64 word"

definition EACCES :: "32 word" where "EACCES = 13"

definition deny_ret :: "thread_context \<Rightarrow> 64 word" where
  "deny_ret t = (if tc_type_name t = ''ptr'' then 0 else -1)"

definition g_write_funcs :: "cstr list" where
  "g_write_funcs = [''unlink'', ''unlinkat'', ''rename'', ''renameat'', ''renameat2'', ''remove'', ''link'', ''linkat'',
     ''symlink'', ''symlinkat'', ''mkdir'', ''mkdirat'', ''rmdir'', ''truncate'', ''ftruncate'', ''creat'',
     ''chmod'', ''fchmod'', ''fchmodat'', ''chown'', ''lchown'', ''fchownat'', ''NtWriteFile'']"

definition is_write_func :: "cstr \<Rightarrow> bool" where
  "is_write_func name = list_ex (\<lambda>w. cget w 0 = cget name 0 \<and> name = w) g_write_funcs"

definition call_is_write :: "memory \<Rightarrow> thread_context \<Rightarrow> bool" where
  "call_is_write mem t =
     (if is_write_func (tc_func t) then True
      else if tc_func t = ''fopen'' \<and> length (tc_params t) > 1 then
        (let mode = tc_params t ! 1 in
         if pm_modifiers (fp_meta mode) AND CDM_POINTER \<noteq> 0 \<and> fp_val mode \<noteq> 0
         then list_ex (\<lambda>m. m = CHR ''w'' \<or> m = CHR ''a'' \<or> m = CHR ''+'') (mem (fp_val mode)) else False)
      else if (tc_func t = ''open'' \<or> tc_func t = ''openat'') \<and> length (tc_params t) > 1 then
        (let flags = fp_val (tc_params t ! 1) AND 3 in flags = 1 \<or> flags = 2)
      else False)"

definition classes_deny :: "memory \<Rightarrow> thread_context \<Rightarrow> json_array \<Rightarrow> bool" where
  "classes_deny mem t deny_classes =
     (if \<not> call_is_write mem t then False
      else list_ex (\<lambda>i. json_array_get_string (Some deny_classes) i = Some ''write'')
             [0..<json_array_get_count (Some deny_classes)])"

definition g_env_funcs :: "cstr list" where
  "g_env_funcs = [''getenv'', ''setenv'', ''putenv'', ''unsetenv'', ''_putenv'']"

definition is_env_func :: "cstr \<Rightarrow> bool" where
  "is_env_func name = list_ex (\<lambda>f. name = f) g_env_funcs"

definition deny :: "thread_context \<Rightarrow> thread_context" where
  "deny t = t\<lparr>tc_ret_errno := EACCES, tc_ret_val := deny_ret t\<rparr>"

fun decoy_base :: "cstr \<Rightarrow> cstr \<Rightarrow> cstr" where
  "decoy_base base [] = base"
| "decoy_base base (c # scan) = decoy_base (if is_sep c then scan else base) scan"

definition decoy :: "sandbox_env \<Rightarrow> nat \<Rightarrow> cstr \<Rightarrow> cstr \<Rightarrow> thread_context \<times> memory \<Rightarrow> (thread_context \<times> memory) option" where
  "decoy env arg_idx path_arg decoy_dir tm =
     (if \<not> decoy_ok env then None
      else
        let base = decoy_base path_arg path_arg; p = tc_params (fst tm) ! arg_idx in
        Some ((fst tm)\<lparr>tc_params := (tc_params (fst tm))[arg_idx := p\<lparr>fp_val := decoy_addr env, fp_free_val := True\<rparr>]\<rparr>,
              (snd tm)(decoy_addr env := decoy_dir @ ''/'' @ base)))"

fun path_param :: "nat \<Rightarrow> func_param list \<Rightarrow> nat option" where
  "path_param i [] = None"
| "path_param i (p # ps) =
     (if i \<ge> 2 then None
      else if pm_modifiers (fp_meta p) AND CDM_POINTER \<noteq> 0 \<and> fp_val p \<noteq> 0 \<and>
              strncmp_eq (pm_ref_type_name (fp_meta p) @ [nul]) (''sz'' @ [nul]) 3
      then Some i else path_param (Suc i) ps)"

text \<open>A look-up in the list of a key, when the list is there.\<close>

definition lookup_in ::
    "sandbox_env \<Rightarrow> cstr \<Rightarrow> cstr \<Rightarrow> json_array \<Rightarrow> path_set_cache \<Rightarrow> bool \<times> path_set_cache" where
  "lookup_in env key path_arg list c = list_contains (build_ok env key) (arr_addr env key) path_arg list c"

definition env_check ::
    "sandbox_env \<Rightarrow> json_object \<Rightarrow> thread_context \<Rightarrow> cstr \<Rightarrow> path_set_cache \<Rightarrow> bool \<times> path_set_cache" where
  "env_check env params t path_arg c =
     (let allow_env = json_object_get_array (Some params) ''allow_env'';
          deny_env = json_object_get_array (Some params) ''deny_env'' in
      if (allow_env \<noteq> None \<or> deny_env \<noteq> None) \<and> is_env_func (tc_func t) then
        (let (hit, c1) = (case deny_env of None \<Rightarrow> (False, c) | Some l \<Rightarrow> lookup_in env ''deny_env'' path_arg l c) in
         if hit then (True, c1)
         else (case allow_env of
                 None \<Rightarrow> (False, c1)
               | Some l \<Rightarrow> (let (hit2, c2) = lookup_in env ''allow_env'' path_arg l c1 in (\<not> hit2, c2))))
      else (False, c))"

definition redirect_or_deny ::
    "sandbox_env \<Rightarrow> json_object \<Rightarrow> nat \<Rightarrow> cstr \<Rightarrow> thread_context \<times> memory \<Rightarrow> int \<times> thread_context \<times> memory" where
  "redirect_or_deny env params path_idx path_arg tm =
     (case json_object_get_string (Some params) ''decoy_dir'' of
        None \<Rightarrow> (-1, deny (fst tm), snd tm)
      | Some decoy_dir \<Rightarrow>
          if call_is_write (snd tm) (fst tm) then (-1, deny (fst tm), snd tm)
          else (case decoy env path_idx path_arg decoy_dir tm of
                  None \<Rightarrow> (-1, deny (fst tm), snd tm)
                | Some (t1, mem1) \<Rightarrow> (0, t1, mem1)))"

definition path_check ::
    "sandbox_env \<Rightarrow> json_object \<Rightarrow> cstr \<Rightarrow> path_set_cache \<Rightarrow> bool \<times> path_set_cache" where
  "path_check env params path_arg c =
     (let (allowed, c1) = (case json_object_get_array (Some params) ''allow_paths'' of
            None \<Rightarrow> (True, c) | Some l \<Rightarrow> lookup_in env ''allow_paths'' path_arg l c) in
      if \<not> allowed then (True, c1)
      else (case json_object_get_array (Some params) ''deny_paths'' of
              None \<Rightarrow> (False, c1) | Some l \<Rightarrow> lookup_in env ''deny_paths'' path_arg l c1))"

definition has_policy :: "json_object \<Rightarrow> bool" where
  "has_policy params \<longleftrightarrow> list_ex (\<lambda>key. json_object_get_array (Some params) key \<noteq> None)
     [''deny_paths'', ''allow_paths'', ''deny_classes'', ''allow_env'', ''deny_env'']"

definition ia_sandbox ::
    "sandbox_env \<Rightarrow> json_object option \<Rightarrow> path_set_cache \<Rightarrow> thread_context \<times> memory \<Rightarrow>
     (int \<times> thread_context \<times> memory) \<times> path_set_cache" where
  "ia_sandbox env action_params c tm =
     (let (t, mem) = tm in
      case action_params of
        None \<Rightarrow> ((-1, t\<lparr>tc_ret_val := -1\<rparr>, mem), c)
      | Some params \<Rightarrow>
          if \<not> has_policy params then ((-1, t\<lparr>tc_ret_val := -1\<rparr>, mem), c)
          else
            let path_idx = path_param 0 (tc_params t) in
            if (case json_object_get_array (Some params) ''deny_classes'' of
                  None \<Rightarrow> False | Some l \<Rightarrow> classes_deny mem t l)
            then ((-1, deny t, mem), c)
            else
              (case path_idx of
                 None \<Rightarrow> ((0, t, mem), c)
               | Some i \<Rightarrow>
                   let path_arg = mem (fp_val (tc_params t ! i)) in
                   (case env_check env params t path_arg c of
                      (True, c1) \<Rightarrow> ((-1, deny t, mem), c1)
                    | (False, c1) \<Rightarrow>
                        (case path_check env params path_arg c1 of
                           (False, c2) \<Rightarrow> ((0, t, mem), c2)
                         | (True, c2) \<Rightarrow> (redirect_or_deny env params i path_arg tm, c2)))))"

subsection \<open>The policy\<close>

text \<open>
  The policy as \<open>sandbox.c\<close> and the documentation describe it, over what the call is.  A call
  is a write by its function, or by the mode of \<open>fopen\<close> or the access mode in the flags of
  \<open>open\<close> and \<open>openat\<close>, their second and their third argument.
\<close>

definition text_param :: "func_param \<Rightarrow> bool" where
  "text_param p \<longleftrightarrow> pm_modifiers (fp_meta p) AND CDM_POINTER \<noteq> 0 \<and> fp_val p \<noteq> 0"

definition opens_for_writing :: "64 word \<Rightarrow> bool" where
  "opens_for_writing flags \<longleftrightarrow> unat flags mod 4 \<in> {1, 2}"

definition write_functions :: "cstr set" where
  "write_functions = {''creat'', ''truncate'', ''ftruncate'', ''mkdir'', ''mkdirat'', ''rmdir'', ''unlink'', ''unlinkat'', ''remove'',
     ''rename'', ''renameat'', ''renameat2'', ''link'', ''linkat'', ''symlink'', ''symlinkat'',
     ''chmod'', ''fchmod'', ''fchmodat'', ''chown'', ''lchown'', ''fchownat'', ''NtWriteFile''}"

definition write_call :: "memory \<Rightarrow> thread_context \<Rightarrow> bool" where
  "write_call mem t \<longleftrightarrow> tc_func t \<in> write_functions \<or>
     tc_func t = ''fopen'' \<and> 1 < length (tc_params t) \<and> text_param (tc_params t ! 1) \<and>
       set (mem (fp_val (tc_params t ! 1))) \<inter> set ''wa+'' \<noteq> {} \<or>
     tc_func t = ''open'' \<and> 1 < length (tc_params t) \<and> opens_for_writing (fp_val (tc_params t ! 1)) \<or>
     tc_func t = ''openat'' \<and> 2 < length (tc_params t) \<and> opens_for_writing (fp_val (tc_params t ! 2))"

text \<open>
  The string a policy is about is the first of the first two arguments that is one.  The
  variable an environment function names is that string, or what comes before the equals sign
  of \<open>putenv\<close>.  An entry of a list stands for itself, and for all that begins with it if it
  ends in a separator.
\<close>

definition policed :: "thread_context \<Rightarrow> memory \<Rightarrow> (nat \<times> cstr) option" where
  "policed t mem =
     (case filter (\<lambda>i. text_param (tc_params t ! i) \<and> takeWhile (\<lambda>c. c \<noteq> nul) (pm_ref_type_name (fp_meta (tc_params t ! i))) = ''sz'')
             [0..<min 2 (length (tc_params t))] of
        [] \<Rightarrow> None | i # _ \<Rightarrow> Some (i, mem (fp_val (tc_params t ! i))))"

definition variable :: "thread_context \<Rightarrow> cstr \<Rightarrow> cstr" where
  "variable t arg = (if tc_func t \<in> {''putenv'', ''_putenv''} then takeWhile (\<lambda>c. c \<noteq> CHR ''='') arg else arg)"

definition stands_for :: "cstr \<Rightarrow> cstr \<Rightarrow> bool" where
  "stands_for e arg \<longleftrightarrow> e \<noteq> [] \<and> (arg = e \<or> is_sep (last e) \<and> prefix e arg)"

definition has_list :: "json_object \<Rightarrow> cstr \<Rightarrow> bool" where
  "has_list params key \<longleftrightarrow> json_object_get_array (Some params) key \<noteq> None"

definition on_list :: "json_object \<Rightarrow> cstr \<Rightarrow> cstr \<Rightarrow> bool" where
  "on_list params key arg \<longleftrightarrow>
     (\<exists>l e. json_object_get_array (Some params) key = Some l \<and> JSONString e \<in> set l \<and> stands_for e arg)"

definition class_ok :: "json_object \<Rightarrow> memory \<Rightarrow> thread_context \<Rightarrow> bool" where
  "class_ok params mem t \<longleftrightarrow> \<not> (write_call mem t \<and>
     (\<exists>l. json_object_get_array (Some params) ''deny_classes'' = Some l \<and> JSONString ''write'' \<in> set l))"

definition env_ok :: "json_object \<Rightarrow> thread_context \<Rightarrow> cstr \<Rightarrow> bool" where
  "env_ok params t arg \<longleftrightarrow> (tc_func t \<in> {''getenv'', ''setenv'', ''unsetenv'', ''putenv'', ''_putenv''} \<longrightarrow>
     \<not> on_list params ''deny_env'' (variable t arg) \<and> (has_list params ''allow_env'' \<longrightarrow> on_list params ''allow_env'' (variable t arg)))"

definition path_ok :: "json_object \<Rightarrow> cstr \<Rightarrow> bool" where
  "path_ok params arg \<longleftrightarrow> (has_list params ''allow_paths'' \<longrightarrow> on_list params ''allow_paths'' arg) \<and>
     \<not> on_list params ''deny_paths'' arg"

definition admits :: "json_object \<Rightarrow> memory \<Rightarrow> thread_context \<Rightarrow> bool" where
  "admits params mem t \<longleftrightarrow> class_ok params mem t \<and>
     (case policed t mem of None \<Rightarrow> True | Some (i, arg) \<Rightarrow> env_ok params t arg \<and> path_ok params arg)"

text \<open>
  Where the code does what the policy says: not where the class of an \<open>openat\<close> or the variable
  of a \<open>putenv\<close> matters.  And decoys are said to be for paths that are not on the list of
  allowed ones; the code has them for denied ones too.
\<close>

definition as_described :: "json_object \<Rightarrow> thread_context \<Rightarrow> bool" where
  "as_described params t \<longleftrightarrow>
     (tc_func t = ''openat'' \<longrightarrow> \<not> has_list params ''deny_classes'' \<and> json_object_get_string (Some params) ''decoy_dir'' = None) \<and>
     (tc_func t \<in> {''putenv'', ''_putenv''} \<longrightarrow> \<not> has_list params ''allow_env'' \<and> \<not> has_list params ''deny_env'') \<and>
     (json_object_get_string (Some params) ''decoy_dir'' \<noteq> None \<longrightarrow> \<not> has_list params ''deny_paths'')"

subsection \<open>The code and the policy\<close>

lemma path_matches_stands: "path_matches arg e = stands_for e arg"
proof (cases "e = []")
  case False
  have "strncmp_eq arg e (length e) \<longleftrightarrow> prefix e arg"
    by (auto simp: strncmp_eq_def prefix_def intro: exI [of _ "drop (length e) arg"]) (metis append_take_drop_id)
  then show ?thesis using False by (auto simp: path_matches_def stands_for_def last_conv_nth)
qed (simp add: path_matches_def stands_for_def)

lemma list_walk_stands: "list_walk arg l \<longleftrightarrow> (\<exists>e. JSONString e \<in> set l \<and> stands_for e arg)"
proof -
  have "matches_at arg l j \<longleftrightarrow> (\<exists>e. l ! j = JSONString e \<and> stands_for e arg)" if "j < length l" for j
    using that
    by (cases "l ! j") (simp_all add: matches_at_def json_array_get_string_def json_array_get_value_def json_array_get_count_def path_matches_stands)
  then show ?thesis
    by (fastforce simp: list_walk_def list_ex_iff json_array_get_count_def in_set_conv_nth)
qed

lemma access_mode: "(flags AND 3 = 1 \<or> flags AND 3 = 2) = opens_for_writing (flags :: 64 word)"
proof -
  have m: "unat (flags AND 3) = unat flags mod 4"
    using unsigned_take_bit_eq [of 2 flags, where ?'a = nat] take_bit_eq_mask [of 2 "unat flags"] take_bit_eq_mod [of 2 "unat flags"]
    by (simp add: take_bit_eq_mask mask_eq_exp_minus_1)
  have "flags AND 3 = 1 \<longleftrightarrow> unat (flags AND 3) = 1" "flags AND 3 = 2 \<longleftrightarrow> unat (flags AND 3) = 2" by (simp_all add: word_unat_eq_iff)
  then show ?thesis unfolding m by (simp add: opens_for_writing_def)
qed

lemma is_write_func_iff: "is_write_func f \<longleftrightarrow> f \<in> write_functions"
proof -
  have "is_write_func f \<longleftrightarrow> f \<in> set g_write_funcs" by (auto simp: is_write_func_def list_ex_iff)
  also have "set g_write_funcs = write_functions"
    unfolding g_write_funcs_def write_functions_def list.set by (intro equalityI insert_subsetI empty_subsetI) (simp_all only: insertI1 insertI2)
  finally show ?thesis .
qed

lemma call_is_write_iff: "tc_func t \<noteq> ''openat'' \<Longrightarrow> call_is_write mem t = write_call mem t"
proof -
  assume "tc_func t \<noteq> ''openat''"
  moreover have "list_ex (\<lambda>m. m = CHR ''w'' \<or> m = CHR ''a'' \<or> m = CHR ''+'') s \<longleftrightarrow> set s \<inter> set ''wa+'' \<noteq> {}" for s
    by (auto simp: list_ex_iff)
  ultimately show ?thesis
    by (cases "tc_func t = ''fopen''"; cases "tc_func t = ''open''")
      (simp_all add: call_is_write_def write_call_def text_param_def is_write_func_iff access_mode Let_def)
qed

lemma is_env_func_iff: "is_env_func f \<longleftrightarrow> f \<in> {''getenv'', ''setenv'', ''unsetenv'', ''putenv'', ''_putenv''}"
  by (auto simp: is_env_func_def g_env_funcs_def)

lemma sz_name: "strncmp_eq (n @ [nul]) [CHR ''s'', CHR ''z'', nul] 3 \<longleftrightarrow> takeWhile (\<lambda>c. c \<noteq> nul) n = ''sz''"
proof -
  consider "n = []" | c where "n = [c]" | c d where "n = [c, d]" | c d e r where "n = c # d # e # r"
    by (metis neq_Nil_conv)
  then show ?thesis by cases (auto simp: strncmp_eq_def)
qed

lemma policed_param: "policed t mem = map_option (\<lambda>i. (i, mem (fp_val (tc_params t ! i)))) (path_param 0 (tc_params t))"
proof -
  consider "tc_params t = []" | p where "tc_params t = [p]" | p q r where "tc_params t = p # q # r" by (metis neq_Nil_conv)
  then show ?thesis
  proof cases
    case 3
    have "path_param 2 r = None" by (cases r) simp_all
    moreover have "[0..<min 2 (length (p # q # r))] = [0, 1]" by (simp add: upt_rec)
    ultimately show ?thesis using 3 by (simp add: policed_def text_param_def sz_name numeral_2_eq_2)
  qed (simp_all add: policed_def text_param_def sz_name upt_rec)
qed

definition lists_at :: "sandbox_env \<Rightarrow> json_object \<Rightarrow> (64 word \<Rightarrow> json_array) \<Rightarrow> bool" where
  "lists_at env params heap \<longleftrightarrow> (\<forall>key l. json_object_get_array (Some params) key = Some l \<longrightarrow> heap (arr_addr env key) = l)"

lemma on_list_walk: "json_object_get_array (Some params) key = Some l \<Longrightarrow> on_list params key arg = list_walk arg l"
  by (simp add: on_list_def list_walk_stands)

lemma lookup_in_walk:
  assumes "sets_from heap c" "lists_at env params heap" "json_object_get_array (Some params) key = Some l"
  shows "\<exists>c'. lookup_in env key path_arg l c = (on_list params key path_arg, c') \<and> sets_from heap c'"
proof -
  have h: "heap (arr_addr env key) = l" using assms(2,3) by (simp add: lists_at_def)
  show ?thesis using list_contains_walk [OF assms(1) h] on_list_walk [OF assms(3)]
    by (intro exI [of _ "snd (lookup_in env key path_arg l c)"]) (simp add: lookup_in_def prod_eq_iff)
qed

text \<open>The same for a list that may be absent, with the answer the code takes then.\<close>

lemma optional_lookup_walk:
  assumes "sets_from heap c" "lists_at env params heap"
  shows "\<exists>c'. (case json_object_get_array (Some params) key of
      None \<Rightarrow> (absent, c) | Some l \<Rightarrow> lookup_in env key path_arg l c) =
      (if has_list params key then on_list params key path_arg else absent, c') \<and> sets_from heap c'"
proof (cases "json_object_get_array (Some params) key")
  case (Some l)
  then show ?thesis using lookup_in_walk [OF assms Some, of path_arg] by (auto simp: has_list_def)
qed (use assms in \<open>simp add: has_list_def\<close>)

lemma env_check_walk:
  assumes "sets_from heap c" "lists_at env params heap"
  obtains c' where "env_check env params t path_arg c =
    (is_env_func (tc_func t) \<and> (on_list params ''deny_env'' path_arg \<or> has_list params ''allow_env'' \<and> \<not> on_list params ''allow_env'' path_arg), c')" "sets_from heap c'"
proof -
  obtain c1 where c1: "(case json_object_get_array (Some params) ''deny_env'' of
      None \<Rightarrow> (False, c) | Some l \<Rightarrow> lookup_in env ''deny_env'' path_arg l c) = (on_list params ''deny_env'' path_arg, c1)"
      "sets_from heap c1"
    using optional_lookup_walk [OF assms, where key = "''deny_env''" and absent = False and path_arg = path_arg] by (auto simp: has_list_def on_list_def split: if_splits)
  have "\<exists>c2. (case json_object_get_array (Some params) ''allow_env'' of
      None \<Rightarrow> (False, c1) | Some l \<Rightarrow> (let (hit2, c2) = lookup_in env ''allow_env'' path_arg l c1 in (\<not> hit2, c2))) =
      (has_list params ''allow_env'' \<and> \<not> on_list params ''allow_env'' path_arg, c2) \<and> sets_from heap c2"
  proof (cases "json_object_get_array (Some params) ''allow_env''")
    case (Some l)
    then show ?thesis using lookup_in_walk [OF c1(2) assms(2) Some, of path_arg] by (auto simp: has_list_def)
  qed (use c1(2) in \<open>simp add: has_list_def\<close>)
  then obtain c2 where c2: "(case json_object_get_array (Some params) ''allow_env'' of
      None \<Rightarrow> (False, c1) | Some l \<Rightarrow> (let (hit2, c2) = lookup_in env ''allow_env'' path_arg l c1 in (\<not> hit2, c2))) =
      (has_list params ''allow_env'' \<and> \<not> on_list params ''allow_env'' path_arg, c2)" "sets_from heap c2" by blast
  show thesis
  proof (cases "is_env_func (tc_func t) \<and> (has_list params ''allow_env'' \<or> has_list params ''deny_env'')")
    case False
    then have "env_check env params t path_arg c = (False, c)" "\<not> (is_env_func (tc_func t) \<and>
        (on_list params ''deny_env'' path_arg \<or> has_list params ''allow_env'' \<and> \<not> on_list params ''allow_env'' path_arg))"
      by (auto simp: env_check_def has_list_def on_list_def)
    then show thesis using that assms(1) by simp
  next
    case True
    then have "env_check env params t path_arg c =
        (if on_list params ''deny_env'' path_arg then (True, c1)
         else (has_list params ''allow_env'' \<and> \<not> on_list params ''allow_env'' path_arg, c2))"
      using c1(1) c2(1) by (auto simp: env_check_def has_list_def Let_def)
    then show thesis using that [of "if on_list params ''deny_env'' path_arg then c1 else c2"] True c1(2) c2(2)
      by (auto split: if_splits)
  qed
qed

lemma path_check_walk:
  assumes "sets_from heap c" "lists_at env params heap"
  obtains c' where "path_check env params path_arg c = (\<not> path_ok params path_arg, c')" "sets_from heap c'"
proof -
  obtain c1 where c1: "(case json_object_get_array (Some params) ''allow_paths'' of
      None \<Rightarrow> (True, c) | Some l \<Rightarrow> lookup_in env ''allow_paths'' path_arg l c) =
      (has_list params ''allow_paths'' \<longrightarrow> on_list params ''allow_paths'' path_arg, c1)" "sets_from heap c1"
    using optional_lookup_walk [OF assms, where key = "''allow_paths''" and absent = True and path_arg = path_arg] by (auto split: if_splits)
  obtain c2 where c2: "(case json_object_get_array (Some params) ''deny_paths'' of
      None \<Rightarrow> (False, c1) | Some l \<Rightarrow> lookup_in env ''deny_paths'' path_arg l c1) =
      (on_list params ''deny_paths'' path_arg, c2)" "sets_from heap c2"
    using optional_lookup_walk [OF c1(2) assms(2), where key = "''deny_paths''" and absent = False and path_arg = path_arg]
    by (auto simp: has_list_def on_list_def split: if_splits)
  have "path_check env params path_arg c =
      (if has_list params ''allow_paths'' \<longrightarrow> on_list params ''allow_paths'' path_arg
       then (on_list params ''deny_paths'' path_arg, c2) else (True, c1))"
    using c1(1) c2(1) by (auto simp: path_check_def Let_def)
  then show thesis using that [of "if has_list params ''allow_paths'' \<longrightarrow> on_list params ''allow_paths'' path_arg then c2 else c1"]
      c1(2) c2(2) by (auto simp: path_ok_def split: if_splits)
qed

lemma classes_deny_iff:
  "(case json_object_get_array (Some params) ''deny_classes'' of None \<Rightarrow> False | Some l \<Rightarrow> classes_deny mem t l) \<longleftrightarrow>
   call_is_write mem t \<and> (\<exists>l. json_object_get_array (Some params) ''deny_classes'' = Some l \<and> JSONString ''write'' \<in> set l)"
proof (cases "json_object_get_array (Some params) ''deny_classes''")
  case (Some l)
  have "list_ex (\<lambda>i. json_array_get_string (Some l) i = Some ''write'') [0..<length l] \<longleftrightarrow> JSONString ''write'' \<in> set l"
  proof -
    have "json_value_get_string (Some v) = Some ''write'' \<longleftrightarrow> v = JSONString ''write''" for v by (cases v) auto
    then show ?thesis
      by (auto simp: list_ex_iff json_array_get_string_def json_array_get_value_def json_array_get_count_def in_set_conv_nth)
  qed
  then show ?thesis using Some by (simp add: classes_deny_def json_array_get_count_def)
qed simp

subsection \<open>Enforcement\<close>

text \<open>The last component of a path.\<close>

definition base_name :: "cstr \<Rightarrow> cstr" where
  "base_name path = rev (takeWhile (\<lambda>c. \<not> is_sep c) (rev path))"

lemma decoy_base_name: "decoy_base base path = (if list_ex is_sep path then base_name path else base)"
proof (induction base path rule: decoy_base.induct)
  case (2 base c scan)
  have "base_name (c # scan) = (if list_ex is_sep scan then base_name scan else if is_sep c then scan else c # scan)"
    by (simp add: base_name_def takeWhile_append list_ex_iff)
  then show ?case using 2 by simp
qed simp

lemma decoy_base_self: "decoy_base path path = base_name path"
proof (cases "list_ex is_sep path")
  case False
  then have "base_name path = path"
    by (simp add: base_name_def list_ex_iff) (metis rev_rev_ident set_rev takeWhile_eq_all_conv)
  then show ?thesis using False by (simp add: decoy_base_name)
qed (simp add: decoy_base_name)

text \<open>The context and memory of a redirected call.\<close>

definition redirected :: "sandbox_env \<Rightarrow> nat \<Rightarrow> cstr \<Rightarrow> cstr \<Rightarrow> thread_context \<times> memory \<Rightarrow> thread_context \<times> memory" where
  "redirected env i path dir tm =
     ((fst tm)\<lparr>tc_params := (tc_params (fst tm))[i := (tc_params (fst tm) ! i)\<lparr>fp_val := decoy_addr env, fp_free_val := True\<rparr>]\<rparr>,
      (snd tm)(decoy_addr env := dir @ ''/'' @ base_name path))"

lemma redirect_or_deny_cases:
  "redirect_or_deny env params i path (t, mem) =
     (case json_object_get_string (Some params) ''decoy_dir'' of
        None \<Rightarrow> (-1, deny t, mem)
      | Some dir \<Rightarrow> if \<not> call_is_write mem t \<and> decoy_ok env then (0, redirected env i path dir (t, mem)) else (-1, deny t, mem))"
  by (auto simp: redirect_or_deny_def decoy_def redirected_def decoy_base_self Let_def split: option.split)

text \<open>What the action does, in every case.\<close>

lemma sandbox_runs:
  assumes "sets_from heap c" "lists_at env params heap" "has_policy params"
  shows "\<exists>c'. sets_from heap c' \<and> ia_sandbox env (Some params) c (t, mem) =
    (if call_is_write mem t \<and> (\<exists>l. json_object_get_array (Some params) ''deny_classes'' = Some l \<and> JSONString ''write'' \<in> set l)
     then (-1, deny t, mem)
     else (case policed t mem of
        None \<Rightarrow> (0, t, mem)
      | Some (i, arg) \<Rightarrow>
          if is_env_func (tc_func t) \<and> (on_list params ''deny_env'' arg \<or> has_list params ''allow_env'' \<and> \<not> on_list params ''allow_env'' arg)
          then (-1, deny t, mem)
          else if path_ok params arg then (0, t, mem) else redirect_or_deny env params i arg (t, mem)), c')"
proof (cases "call_is_write mem t \<and> (\<exists>l. json_object_get_array (Some params) ''deny_classes'' = Some l \<and> JSONString ''write'' \<in> set l)")
  case True
  then show ?thesis using assms(1,3) by (simp add: ia_sandbox_def classes_deny_iff)
next
  case False
  note cls = False
  show ?thesis
  proof (cases "path_param 0 (tc_params t)")
    case None
    then show ?thesis using assms(1,3) cls by (simp add: ia_sandbox_def classes_deny_iff policed_param)
  next
    case (Some i)
    let ?path = "mem (fp_val (tc_params t ! i))"
    define env_bad where "env_bad \<longleftrightarrow> is_env_func (tc_func t) \<and>
      (on_list params ''deny_env'' ?path \<or> has_list params ''allow_env'' \<and> \<not> on_list params ''allow_env'' ?path)"
    obtain c1 where c1: "env_check env params t ?path c = (env_bad, c1)" "sets_from heap c1"
      using env_check_walk [OF assms(1,2)] unfolding env_bad_def by blast
    obtain c2 where c2: "path_check env params ?path c1 = (\<not> path_ok params ?path, c2)" "sets_from heap c2"
      using path_check_walk [OF c1(2) assms(2)] by blast
    have dc: "\<not> (case json_object_get_array (Some params) ''deny_classes'' of None \<Rightarrow> False | Some l \<Rightarrow> classes_deny mem t l)"
      using cls unfolding classes_deny_iff .
    have "ia_sandbox env (Some params) c (t, mem) =
        (if env_bad then ((-1, deny t, mem), c1)
         else if path_ok params ?path then ((0, t, mem), c2) else (redirect_or_deny env params i ?path (t, mem), c2))"
      unfolding ia_sandbox_def prod.case option.case if_not_P [OF dc] Let_def Some c1(1) using assms(3) c2(1)
      by (cases env_bad; cases "path_ok params ?path") simp_all
    moreover have "policed t mem = Some (i, ?path)" using Some by (simp add: policed_param)
    ultimately show ?thesis using c1(2) c2(2) unfolding if_not_P [OF cls]
      by (intro exI [of _ "if env_bad then c1 else c2"]) (simp flip: env_bad_def)
  qed
qed

text \<open>What the policy asks for: the call as it is, a refusal, or a redirected read.\<close>

definition refused :: "thread_context \<Rightarrow> thread_context" where
  "refused t = t\<lparr>tc_ret_errno := 13, tc_ret_val := (if tc_type_name t = ''ptr'' then 0 else -1)\<rparr>"

definition outcome :: "sandbox_env \<Rightarrow> json_object \<Rightarrow> memory \<Rightarrow> thread_context \<Rightarrow> int \<times> thread_context \<times> memory" where
  "outcome env params mem t =
     (if admits params mem t then (0, t, mem)
      else (case (policed t mem, json_object_get_string (Some params) ''decoy_dir'') of
        (Some (i, path), Some dir) \<Rightarrow>
          if class_ok params mem t \<and> env_ok params t path \<and> \<not> write_call mem t \<and> decoy_ok env
          then (0, redirected env i path dir (t, mem)) else (-1, refused t, mem)
      | _ \<Rightarrow> (-1, refused t, mem)))"

lemma deny_refused: "deny t = refused t"
  by (simp add: deny_def refused_def deny_ret_def EACCES_def)

lemma env_ok_iff:
  assumes "as_described params t"
  shows "is_env_func (tc_func t) \<and> (on_list params ''deny_env'' arg \<or> has_list params ''allow_env'' \<and> \<not> on_list params ''allow_env'' arg) \<longleftrightarrow>
    \<not> env_ok params t arg"
proof (cases "tc_func t \<in> {''putenv'', ''_putenv''}")
  case True
  then have "\<not> has_list params ''allow_env''" "\<And>a. \<not> on_list params ''deny_env'' a"
    using assms by (auto simp: as_described_def has_list_def on_list_def)
  then show ?thesis by (simp add: env_ok_def)
next
  case False
  then show ?thesis by (auto simp: env_ok_def variable_def is_env_func_iff)
qed

lemma sandbox_decides:
  assumes "sets_from heap c" "lists_at env params heap" "has_policy params" "as_described params t"
  shows "\<exists>c'. sets_from heap c' \<and> ia_sandbox env (Some params) c (t, mem) = (outcome env params mem t, c')"
proof -
  have w: "call_is_write mem t = write_call mem t" if "has_list params ''deny_classes'' \<or> json_object_get_string (Some params) ''decoy_dir'' \<noteq> None"
    using that assms(4) call_is_write_iff by (auto simp: as_described_def)
  have cls: "call_is_write mem t \<and> (\<exists>l. json_object_get_array (Some params) ''deny_classes'' = Some l \<and> JSONString ''write'' \<in> set l) \<longleftrightarrow>
      \<not> class_ok params mem t"
    using w by (auto simp: class_ok_def has_list_def)
  have "redirect_or_deny env params i path (t, mem) =
     (case json_object_get_string (Some params) ''decoy_dir'' of
        None \<Rightarrow> (-1, refused t, mem)
      | Some dir \<Rightarrow> if \<not> write_call mem t \<and> decoy_ok env then (0, redirected env i path dir (t, mem)) else (-1, refused t, mem))" for i path
    using w by (auto simp: redirect_or_deny_cases deny_refused split: option.split)
  then show ?thesis
    using sandbox_runs [OF assms(1-3), of t mem] unfolding cls env_ok_iff [OF assms(4)]
    by (auto simp: outcome_def admits_def deny_refused split: option.splits if_splits)
qed


definition sz_param :: "64 word \<Rightarrow> func_param" where
  "sz_param v = \<lparr>fp_meta = \<lparr>pm_name = ''path'', pm_type_name = ''ptr'', pm_modifiers = 5, pm_direction = PDIR_IN, pm_ref_type_name = ''sz'', pm_array_cnt_param = []\<rparr>,
     fp_val = v, fp_free_val = False\<rparr>"

definition num_param :: "64 word \<Rightarrow> func_param" where
  "num_param v = \<lparr>fp_meta = \<lparr>pm_name = ''flags'', pm_type_name = ''int'', pm_modifiers = 0, pm_direction = PDIR_IN, pm_ref_type_name = [], pm_array_cnt_param = []\<rparr>,
     fp_val = v, fp_free_val = False\<rparr>"

definition call_of :: "cstr \<Rightarrow> func_param list \<Rightarrow> thread_context" where
  "call_of f ps = \<lparr>tc_func = f, tc_type_name = ''int'', tc_ret_val = 0, tc_ret_errno = 0, tc_params = ps, tc_ret_addr = 0\<rparr>"

definition plain_env :: sandbox_env where
  "plain_env = \<lparr>arr_addr = (\<lambda>_. 64), build_ok = (\<lambda>_. True), decoy_ok = True, decoy_addr = 4096\<rparr>"

definition deny_shadow :: json_object where
  "deny_shadow = [(''deny_paths'', JSONArray [JSONString ''/etc/shadow''])]"

lemma deny_shadow_at: "lists_at plain_env deny_shadow (\<lambda>_. [JSONString ''/etc/shadow''])"
  by (auto simp: lists_at_def deny_shadow_def json_object_get_array_def json_object_get_value_map split: if_splits)

lemmas policy_eval = admits_def policed_def call_of_def sz_param_def num_param_def CDM_POINTER_def text_param_def path_ok_def env_ok_def
  class_ok_def on_list_def has_list_def stands_for_def as_described_def json_object_get_array_def json_object_get_string_def
  json_object_get_value_map


text \<open>
  A decoy is also used for a path on the list of denied ones.  And \<open>putenv\<close> sets a variable
  whose name is denied: its whole argument is compared with the names.
\<close>

lemma denied_path_decoyed:
  "\<exists>c'. ia_sandbox plain_env (Some ((''decoy_dir'', JSONString ''/decoy'') # deny_shadow)) no_sets
      (call_of ''open'' [sz_param 8, num_param 0], \<lambda>_. ''/etc/shadow'') =
    ((0, redirected plain_env 0 ''/etc/shadow'' ''/decoy'' (call_of ''open'' [sz_param 8, num_param 0], \<lambda>_. ''/etc/shadow'')), c')"
proof -
  let ?P = "(''decoy_dir'', JSONString ''/decoy'') # deny_shadow" and ?t = "call_of ''open'' [sz_param 8, num_param 0]"
  have at: "lists_at plain_env ?P (\<lambda>_. [JSONString ''/etc/shadow''])" "has_policy ?P"
    by (auto simp: lists_at_def has_policy_def deny_shadow_def json_object_get_array_def json_object_get_value_map split: if_splits)
  have "policed ?t (\<lambda>_. ''/etc/shadow'') = Some (0, ''/etc/shadow'')" "\<not> path_ok ?P ''/etc/shadow''"
    "\<not> is_env_func (tc_func ?t)" "json_object_get_array (Some ?P) ''deny_classes'' = None"
    "json_object_get_string (Some ?P) ''decoy_dir'' = Some ''/decoy''"
    by (simp_all add: policy_eval deny_shadow_def upt_rec is_env_func_iff)
  moreover have "\<not> call_is_write (\<lambda>_. ''/etc/shadow'') ?t"
    by (simp add: call_is_write_iff write_call_def write_functions_def opens_for_writing_def call_of_def num_param_def)
  ultimately show ?thesis
    using sandbox_runs [OF no_sets_from at, of ?t "\<lambda>_. ''/etc/shadow''"] by (auto simp: redirect_or_deny_cases plain_env_def)
qed

lemma denied_variable_put:
  "\<exists>c'. ia_sandbox plain_env (Some [(''deny_env'', JSONArray [JSONString ''PATH''])]) no_sets
      (call_of ''putenv'' [sz_param 8], \<lambda>_. ''PATH=/tmp'') = ((0, call_of ''putenv'' [sz_param 8], \<lambda>_. ''PATH=/tmp''), c')"
proof -
  let ?P = "[(''deny_env'', JSONArray [JSONString ''PATH''])]" and ?t = "call_of ''putenv'' [sz_param 8]"
  have at: "lists_at plain_env ?P (\<lambda>_. [JSONString ''PATH''])" "has_policy ?P"
    by (auto simp: lists_at_def has_policy_def json_object_get_array_def json_object_get_value_map split: if_splits)
  have "policed ?t (\<lambda>_. ''PATH=/tmp'') = Some (0, ''PATH=/tmp'')" "path_ok ?P ''PATH=/tmp''" "\<not> on_list ?P ''deny_env'' ''PATH=/tmp''"
    "\<not> has_list ?P ''allow_env''" "json_object_get_array (Some ?P) ''deny_classes'' = None"
    by (simp_all add: policy_eval upt_rec is_sep_def)
  then show ?thesis using sandbox_runs [OF no_sets_from at, of ?t "\<lambda>_. ''PATH=/tmp''"] by auto
qed

text \<open>
  Whether an \<open>openat\<close> call counts as a write depends on the two low bits of the
  pointer to its path, its second argument, and on nothing else: the flags are its third
  argument and are not read.  Through a path at an address divisible by four, a read-only
  policy therefore lets a write open through, although \<open>openat\<close> is said to be classed by
  its flags.
\<close>

lemma sandbox_openat_flags_ignored:
  "call_is_write mem (call_of ''openat'' [num_param dirfd, sz_param p, num_param flags]) =
     (p AND 3 = 1 \<or> p AND 3 = 2) \<and>
   ia_sandbox plain_env (Some [(''deny_classes'', JSONArray [JSONString ''write''])]) no_sets
     (call_of ''openat'' [num_param dirfd, sz_param 4096, num_param 1], mem) =
   ((0, call_of ''openat'' [num_param dirfd, sz_param 4096, num_param 1], mem), no_sets)"
proof -
  have w: "call_is_write mem (call_of ''openat'' [num_param dirfd, sz_param p, num_param flags]) =
     (p AND 3 = 1 \<or> p AND 3 = 2)" for p flags
    by (simp add: call_is_write_def call_of_def is_write_func_def g_write_funcs_def sz_param_def Let_def)
  have "\<not> call_is_write mem (call_of ''openat'' [num_param dirfd, sz_param 4096, num_param 1])" by (simp add: w)
  then have "ia_sandbox plain_env (Some [(''deny_classes'', JSONArray [JSONString ''write''])]) no_sets
     (call_of ''openat'' [num_param dirfd, sz_param 4096, num_param 1], mem) =
   ((0, call_of ''openat'' [num_param dirfd, sz_param 4096, num_param 1], mem), no_sets)"
    by (simp add: ia_sandbox_def has_policy_def json_object_get_array_def json_object_get_value_map classes_deny_def
        env_check_def path_check_def split: option.split)
  then show ?thesis using w by blast
qed

end
