(* ===== verification/Basic_Actions.thy ===== *)
theory Basic_Actions
  imports Engine Sandbox
begin

unbundle bit_operations_syntax

section \<open>Actions on a dispatch (\<open>src/src/core/actions/basic.c\<close>)\<close>

text \<open>
  The actions that change a call and make it.  An action on the call's context alone works
  on the fields of the context the prototype fills and on the rest of the process: the
  strings in memory, the compiled path lists of the sandbox, the world of files and whatever
  else functions act on, and a record only the model keeps, the addresses freed.  \<open>malloc\<close>
  gives the address of a new string.
\<close>

record 'o proc =
  pr_mem :: memory
  pr_sets :: path_set_cache
  pr_world :: 'o
  pr_freed :: "addr list"

fun find_param_from :: "nat \<Rightarrow> func_param list \<Rightarrow> cstr \<Rightarrow> int" where
  "find_param_from i [] name = -1"
| "find_param_from i (p # ps) name = (if pm_name (fp_meta p) = name then int i else find_param_from (Suc i) ps name)"

definition retrace_action_find_param :: "thread_context \<Rightarrow> cstr \<Rightarrow> int" where
  "retrace_action_find_param t name = find_param_from 0 (tc_params t) name"

type_synonym 'o call_state = "thread_context \<times> 'o proc"

definition ia_modify_in_param_str :: "(cstr \<Rightarrow> addr) \<Rightarrow> 'o call_state action_fun" where
  "ia_modify_in_param_str malloc st action_params =
     (case st of (t, w) \<Rightarrow>
      if action_params = None then (-1, st)
      else (case json_object_get_string action_params ''param_name'' of
        None \<Rightarrow> (-1, st)
      | Some param_name \<Rightarrow>
          let idx = retrace_action_find_param t param_name in
          if idx < 0 then (-1, st)
          else
            let param = tc_params t ! nat idx in
            if pm_direction (fp_meta param) \<noteq> PDIR_IN then (-1, st)
            else if pm_modifiers (fp_meta param) AND CDM_POINTER = 0 \<or> pm_ref_type_name (fp_meta param) \<noteq> ''sz'' then (-1, st)
            else (case json_object_get_string action_params ''new_str'' of
              None \<Rightarrow> (-1, st)
            | Some new_str \<Rightarrow>
                if (case json_object_get_string action_params ''match_str'' of
                      None \<Rightarrow> False | Some m \<Rightarrow> m \<noteq> pr_mem w (fp_val param))
                then (0, st)
                else
                  let a = malloc new_str in
                  (0, t\<lparr>tc_params := (tc_params t)[nat idx := param\<lparr>fp_val := a, fp_free_val := True\<rparr>]\<rparr>,
                      w\<lparr>pr_mem := (pr_mem w)(a := new_str),
                         pr_freed := pr_freed w @ (if fp_free_val param then [fp_val param] else [])\<rparr>))))"

definition ia_modify_in_param_int :: "'o call_state action_fun" where
  "ia_modify_in_param_int st action_params =
     (case st of (t, w) \<Rightarrow>
      if action_params = None then (-1, st)
      else (case json_object_get_string action_params ''param_name'' of
        None \<Rightarrow> (-1, st)
      | Some param_name \<Rightarrow>
          let idx = retrace_action_find_param t param_name in
          if idx < 0 then (-1, st)
          else
            let param = tc_params t ! nat idx in
            if pm_direction (fp_meta param) \<noteq> PDIR_IN then (-1, st)
            else if \<not> json_object_has_value action_params ''new_int'' then (-1, st)
            else
              let new_int = json_object_get_number action_params ''new_int'' in
              if json_object_has_value action_params ''match_int'' \<and>
                 (ucast (fp_val param) :: 32 word) \<noteq>
                   word_of_int (rat_trunc (json_object_get_number action_params ''match_int''))
              then (0, st)
              else (0, t\<lparr>tc_params := (tc_params t)[nat idx := param\<lparr>fp_val := double_to_s64 new_int\<rparr>]\<rparr>, w)))"

definition ia_modify_return_value_int :: "'o call_state action_fun" where
  "ia_modify_return_value_int st action_params =
     (case st of (t, w) \<Rightarrow>
      if action_params = None then (-1, st)
      else if \<not> json_object_has_value action_params ''retval_int'' then (-1, st)
      else (0, t\<lparr>tc_ret_val := double_to_s64 (json_object_get_number action_params ''retval_int'')\<rparr>, w))"

text \<open>
  Making the real call.  On the trampoline lane the implementation is called here and
  now, and does to the process and the world what it does.  The entry with the duration of the
  call that the action logs is left out.
\<close>

definition ia_call_real ::
    "'o proc machine_call \<Rightarrow> bool \<Rightarrow> ('f, 'o proc) as_ops \<Rightarrow> ('f \<times> ('f, 'o proc) engine) action_fun" where
  "ia_call_real apply_fn malloc_ok ops fs action_params =
     (case fs of (frame, s) \<Rightarrow>
      case en_ctx s of
        None \<Rightarrow> (0, fs)
      | Some c \<Rightarrow>
          let fmt = (case ec_prototype c of None \<Rightarrow> FAT_NOVARARGS | Some p \<Rightarrow> fpr_fmt p);
              named = (case ec_prototype c of None \<Rightarrow> 0 | Some p \<Rightarrow> length (fpr_params p));
              (v, frame1, w1) = (if fmt = FAT_PRINTF \<or> fmt = FAT_SCANF
                 then (case retrace_as_call_real_variadic apply_fn malloc_ok (ec_real_impl c) (tc_params c) named (en_rest s) of
                         (v, w1) \<Rightarrow> (v, frame, w1))
                 else retrace_as_call_real ops (Some c) frame (ec_real_impl c) (tc_params c) (en_rest s)) in
          (0, (frame1, s\<lparr>en_ctx := Some (c\<lparr>tc_ret_val := v\<rparr>), en_rest := w1\<rparr>)))"

subsection \<open>Actions of the context within a dispatch\<close>

definition on_context :: "'o call_state action_fun \<Rightarrow> ('f \<times> ('f, 'o proc) engine) action_fun" where
  "on_context act fs action_params =
     (case fs of (frame, s) \<Rightarrow>
      case en_ctx s of
        None \<Rightarrow> (-1, fs)
      | Some c \<Rightarrow>
          (case act (thread_context.truncate c, en_rest s) action_params of
             (rc, t, w) \<Rightarrow> (rc, (frame, s\<lparr>en_ctx := Some (thread_context.extend t (thread_context.more c)), en_rest := w\<rparr>))))"

definition sandbox_action :: "sandbox_env \<Rightarrow> 'o call_state action_fun" where
  "sandbox_action env st action_params =
     (case st of (t, w) \<Rightarrow>
      case ia_sandbox env action_params (pr_sets w) (t, pr_mem w) of
        ((rc, t1, mem1), sets) \<Rightarrow> (rc, t1, w\<lparr>pr_mem := mem1, pr_sets := sets\<rparr>))"

subsection \<open>Who owns a modified parameter\<close>

text \<open>
  Replacing a parameter by a number keeps the mark that its value is owned.  After a
  string has been put in place of the parameter, the number is what the end of the
  dispatch frees.
\<close>

theorem modify_int_frees_number:
  assumes "json_object_get_string (Some ps) ''param_name'' = Some name" "retrace_action_find_param t name = int i"
    and "pm_direction (fp_meta (tc_params t ! i)) = PDIR_IN" "fp_free_val (tc_params t ! i)" "i < length (tc_params t)"
    and "json_object_has_value (Some ps) ''new_int''" "\<not> json_object_has_value (Some ps) ''match_int''"
    and "ia_modify_in_param_int (t, w) (Some ps) = (rc, t1, w1)"
  shows "double_to_s64 (json_object_get_number (Some ps) ''new_int'') \<in>
    set (en_freed (retrace_thread_context_clear (thread_context.extend t1 rest) s))"
proof -
  let ?p = "(tc_params t ! i)\<lparr>fp_val := double_to_s64 (json_object_get_number (Some ps) ''new_int'')\<rparr>"
  have "t1 = t\<lparr>tc_params := (tc_params t)[i := ?p]\<rparr>"
    using assms by (simp add: ia_modify_in_param_int_def Let_def)
  then have "tc_params (thread_context.extend t1 rest) = (tc_params t)[i := ?p]" by (simp add: thread_context.defs)
  moreover have "?p \<in> set ((tc_params t)[i := ?p])" "fp_free_val ?p" using assms(4,5) by (simp_all add: set_update_memI)
  ultimately show ?thesis by (force simp: retrace_thread_context_clear_def image_iff)
qed

end
