(* ===== verification/Enforcement.thy ===== *)
theory Enforcement
  imports Basic_Actions
begin

section \<open>A sandboxed call through the whole engine\<close>

text \<open>
  The script \<open>sandbox, call_real\<close> on the trampoline lane: from the registers the
  trampoline saved to what the caller sees.
\<close>

definition arg_regs :: "sysv_frame \<Rightarrow> 64 word list" where
  "arg_regs fr = [real_rdi fr, real_rsi fr, real_rdx fr, real_rcx fr, real_r8 fr, real_r9 fr]"

definition fixed_params :: "func_prototype \<Rightarrow> sysv_frame \<Rightarrow> func_param list" where
  "fixed_params p fr = map (\<lambda>i. zero_param\<lparr>fp_meta := fpr_params p ! i, fp_val := arg_regs fr ! i\<rparr>) [0..<length (fpr_params p)]"

definition call_seen :: "func_prototype \<Rightarrow> sysv_frame \<Rightarrow> thread_context" where
  "call_seen p fr = \<lparr>tc_func = fpr_name p, tc_type_name = fpr_type_name p, tc_ret_val = 0, tc_ret_errno = 0,
     tc_params = fixed_params p fr, tc_ret_addr = 0\<rparr>"

definition sandbox_entry :: "json_object \<Rightarrow> json" where
  "sandbox_entry P = JSONObject [(''action_name'', JSONString ''sandbox''), (''action_params'', JSONObject P)]"

definition call_real_entry :: json where
  "call_real_entry = JSONObject [(''action_name'', JSONString ''call_real'')]"

lemma setup_fixed:
  assumes "fpr_fmt p = FAT_NOVARARGS" "length (fpr_params p) \<le> 6"
  shows "retrace_as_trampoline_setup_params fl dts ok scan mem fr p (replicate ENGINE_MAXCOUNT_PARAMS zero_param) =
    Some (True, fixed_params p fr)"
proof -
  let ?n = "length (fpr_params p)"
  have n: "?n \<le> ENGINE_MAXCOUNT_PARAMS" using assms(2) by (simp add: ENGINE_MAXCOUNT_PARAMS_def)
  have "take ?n (proto_loop fr (int ?n - 6) 0 (fpr_params p) (replicate ENGINE_MAXCOUNT_PARAMS zero_param)) = fixed_params p fr"
    using n assms(2) by (intro nth_equalityI) (auto simp: nth_proto_loop fixed_params_def frame_value_def arg_regs_def)
  then show ?thesis using assms(1) n by (simp add: retrace_as_trampoline_setup_params_def Let_def)
qed

lemma call_seen_context: "thread_context.truncate (call_context a (Some p) (fixed_params p fr)) = call_seen p fr"
  by (simp add: call_seen_def call_context_def set_prototype_def zero_context_def thread_context.defs)

text \<open>The two entries run one after the other, the second only when the first returns 0.\<close>

lemma run_two:
  assumes "retrace_actions_get ''sandbox'' tab = Some sb" "retrace_actions_get ''call_real'' tab = Some cr"
    and "json_object_get_array (Some script) ''actions'' = Some [sandbox_entry P, call_real_entry]"
  shows "retrace_action_runner_run tab (Some script) st =
    (case sb st (Some P) of (rc, st1) \<Rightarrow> if rc \<noteq> 0 then st1 else snd (cr st1 None))"
  using assms
  by (auto simp: retrace_action_runner_run_def json_array_get_count_def sandbox_entry_def call_real_entry_def Let_def
      json_object_get_string_def json_object_get_object_def json_object_get_value_map split: prod.split)

text \<open>What the sandbox leaves of the call's context and of the process.\<close>

definition with_call :: "thread_context \<Rightarrow> addr \<Rightarrow> func_prototype \<Rightarrow> ('f, 'x) engine_context" where
  "with_call t a p = thread_context.extend t (thread_context.more (call_context a (Some p) []))"

lemma call_context_lane [simp]: "ec_lane_ops (call_context a p params) = None"
  by (simp add: call_context_def set_prototype_def zero_context_def)

lemma with_call_fields [simp]:
  "ec_lane_ops (with_call t a p) = None" "ec_prototype (with_call t a p) = Some p" "ec_real_impl (with_call t a p) = a"
  "tc_params (with_call t a p) = tc_params t" "tc_ret_val (with_call t a p) = tc_ret_val t" "tc_ret_errno (with_call t a p) = tc_ret_errno t"
  by (simp_all add: with_call_def call_context_def set_prototype_def zero_context_def thread_context.defs)

lemma outcome_shape:
  assumes "outcome senv P mem t = (rc, t1, mem1)"
  shows "rc = 0 \<or> rc = -1 \<and> mem1 = mem" "length (tc_params t1) = length (tc_params t)"
  using assms by (auto simp: outcome_def refused_def redirected_def split: if_splits option.splits prod.splits)

lemma outcome_refusal: "outcome senv P mem t = (rc, t1, mem1) \<Longrightarrow> rc \<noteq> 0 \<Longrightarrow> tc_ret_val t1 = (if tc_type_name t = ''ptr'' then 0 else -1)"
  by (auto simp: outcome_def refused_def split: if_splits option.splits prod.splits)

lemma sandbox_step:
  assumes "en_ctx s = Some (call_context a (Some p) (fixed_params p fr))"
    and "sets_from heap (pr_sets (en_rest s))" "lists_at senv P heap" "has_policy P" "as_described P (call_seen p fr)"
    and "outcome senv P (pr_mem (en_rest s)) (call_seen p fr) = (rc, t1, mem1)"
  shows "\<exists>sets. sets_from heap sets \<and> on_context (sandbox_action senv) (frame, s) (Some P) =
      (rc, (frame, s\<lparr>en_ctx := Some (with_call t1 a p), en_rest := (en_rest s)\<lparr>pr_mem := mem1, pr_sets := sets\<rparr>\<rparr>))"
proof -
  let ?t = "call_seen p fr" and ?mem = "pr_mem (en_rest s)" and ?c = "call_context a (Some p) (fixed_params p fr) :: ('a, 'b proc) engine_context"
  from sandbox_decides [OF assms(2-5), of ?mem] obtain sets where
    r: "sets_from heap sets" "ia_sandbox senv (Some P) (pr_sets (en_rest s)) (?t, ?mem) = ((rc, t1, mem1), sets)"
    unfolding assms(6) by blast
  have "thread_context.extend t1 (thread_context.more ?c) = with_call t1 a p"
    by (simp add: with_call_def call_context_def set_prototype_def zero_context_def thread_context.defs)
  then show ?thesis
    using assms(1) r by (intro exI [of _ sets]) (simp add: on_context_def sandbox_action_def call_seen_context)
qed

lemma default_lane: "ec_lane_ops c = None \<Longrightarrow> ops_for ops (Some c) = ops" "ec_lane_ops c = None \<Longrightarrow> lane_ops_for (Some c) = None"
  by (simp_all add: ops_for_def lane_ops_for_def)

lemma run_sandboxed:
  assumes ctx: "en_ctx s = Some (call_context a (Some p) (fixed_params p fr))"
    and sb: "sets_from heap (pr_sets (en_rest s))" "lists_at senv P heap" "has_policy P" "as_described P (call_seen p fr)"
    and ops: "ev_ops ev = retrace_as_ops_default fl dts True scan mem apply_fn"
    and p: "fpr_fmt p = FAT_NOVARARGS" "length (fpr_params p) \<le> 6"
    and acts: "retrace_actions_get ''sandbox'' (ev_actions ev) = Some (on_context (sandbox_action senv))"
      "retrace_actions_get ''call_real'' (ev_actions ev) = Some (ia_call_real apply_fn True (ev_ops ev))"
    and script: "json_object_get_array (Some script) ''actions'' = Some [sandbox_entry P, call_real_entry]"
    and out: "outcome senv P (pr_mem (en_rest s)) (call_seen p fr) = (rc, t1, mem1)"
  shows "\<exists>fr' s' sets. run_script ev fr0 script s = (fr', s') \<and> (\<forall>b. \<not> sysv_runs fr' b) \<and> en_ctx s' \<noteq> None \<and> sets_from heap sets \<and>
    (if rc = 0
     then \<exists>v. sysv_returns fr' = Some v \<and>
       (v, en_rest s') = apply_fn a (map fp_val (tc_params t1)) ((en_rest s)\<lparr>pr_mem := mem1, pr_sets := sets\<rparr>)
     else sysv_returns fr' = Some (tc_ret_val t1) \<and> en_rest s' = (en_rest s)\<lparr>pr_sets := sets\<rparr>)"
proof -
  let ?fr = "cancel_sched_real (ev_ops ev) fr0" and ?c = "with_call t1 a p"
  have cancel: "retrace_as_cancel_sched_real (ev_ops ev) (en_ctx s) fr0 = ?fr"
    using ctx by (simp add: retrace_as_cancel_sched_real_def default_lane)
  from sandbox_step [OF ctx sb out, of ?fr] obtain sets where
    st: "sets_from heap sets" "on_context (sandbox_action senv) (?fr, s) (Some P) =
      (rc, (?fr, s\<lparr>en_ctx := Some ?c, en_rest := (en_rest s)\<lparr>pr_mem := mem1, pr_sets := sets\<rparr>\<rparr>))" by blast
  have len: "length (tc_params t1) \<le> 12" using outcome_shape(2) [OF out] p(2) by (simp add: call_seen_def fixed_params_def)
  note denied = sysv.denied [of fl dts True scan mem apply_fn, folded ops]
  show ?thesis
  proof (cases "rc = 0")
    case False
    then have "mem1 = pr_mem (en_rest s)" using outcome_shape(1) [OF out] by auto
    then have "run_script ev fr0 script s = (set_ret_val (ev_ops ev) (tc_ret_errno t1) ?fr (tc_ret_val t1),
        s\<lparr>en_ctx := Some ?c, en_rest := (en_rest s)\<lparr>pr_sets := sets\<rparr>\<rparr>)"
      using st(2) False
      by (simp add: run_script_def cancel run_two [OF acts script] retrace_as_set_ret_val_def default_lane Let_def)
    then show ?thesis using False st(1) denied by auto
  next
    case True
    let ?w = "(en_rest s)\<lparr>pr_mem := mem1, pr_sets := sets\<rparr>"
    obtain v w1 where v: "apply_fn a (map fp_val (tc_params t1)) ?w = (v, w1)" by (cases "apply_fn a (map fp_val (tc_params t1)) ?w")
    have call: "retrace_as_call_real (ev_ops ev) (Some ?c) ?fr a (tc_params t1) ?w = (v, ?fr, w1)"
      unfolding retrace_as_call_real_def default_lane(1) [OF with_call_fields(1)] ops
      using len v by (simp add: retrace_as_ops_default_def retrace_as_call_real_dispatch_def)
    let ?s = "s\<lparr>en_ctx := Some (?c\<lparr>tc_ret_val := v\<rparr>), en_rest := w1\<rparr>"
    have "ia_call_real apply_fn True (ev_ops ev) (?fr, s\<lparr>en_ctx := Some ?c, en_rest := ?w\<rparr>) None = (0, (?fr, ?s))"
      using p(1) call by (simp add: ia_call_real_def Let_def)
    then have "run_script ev fr0 script s = (set_ret_val (ev_ops ev) (tc_ret_errno (?c\<lparr>tc_ret_val := v\<rparr>)) ?fr v, ?s)"
      using st(2) True
      by (simp add: run_script_def cancel run_two [OF acts script] retrace_as_set_ret_val_def default_lane Let_def)
    then show ?thesis using True st(1) denied v by auto
  qed
qed

end
