(* ===== verification/Logger.thy ===== *)
theory Logger
  imports Redact Log_Registry Json Func_Filter
begin

section \<open>The logger (\<open>src/src/core/logger.c\<close>, \<open>log_flusher.c\<close>)\<close>

text \<open>
  From a message to the log document: the configuration read from the environment, the
  JSON entry built around a message, its way through the thread's ring to the flusher or
  straight to the outputs, redaction, the registered sinks, and the framing of the
  document.  An output is the text written to it; the log file is an option, \<open>None\<close> while
  it is not open; it is opened for appending, so its text is what this process adds.  A sink is the list of entries it has been given.  The texts of entries
  come from the JSON serialiser, which is an argument, as are the clock, the process and
  thread numbers, and the outcomes of system calls.  The routines of \<open>retrace_real_impls\<close>
  are taken as resolved, and the flusher is stopped as on Linux and BSD, by joining it.
  A result \<open>None\<close> of an operation is undefined behaviour of the C code.  A drain is one
  step here; the interleaving of one push with one drain is the subject of \<open>Log_Spsc\<close>.
\<close>

definition RETRACE_LOG_SINKS_MAX :: nat where "RETRACE_LOG_SINKS_MAX = 4"

record logger =
  lo_ena :: bool
  lo_stdout_ena :: bool
  lo_stdout :: string
  lo_logfile :: "string option"
  lo_jsonl :: bool
  lo_first_json :: bool
  lo_ring_enabled :: bool
  lo_ring_ready :: bool
  lo_active :: bool
  lo_flusher_spawned :: bool
  lo_flusher_running :: bool
  lo_patterns :: "cstr list"
  lo_sinks :: "string list option list"
  lo_allowed :: "cstr list"
  lo_excluded :: "cstr list"

definition initial_logger :: logger where
  "initial_logger = \<lparr>lo_ena = True, lo_stdout_ena = True, lo_stdout = [], lo_logfile = None, lo_jsonl = False,
     lo_first_json = False, lo_ring_enabled = False, lo_ring_ready = False, lo_active = False, lo_flusher_spawned = False, lo_flusher_running = False,
     lo_patterns = [], lo_sinks = replicate RETRACE_LOG_SINKS_MAX None, lo_allowed = [], lo_excluded = []\<rparr>"

subsection \<open>Writing entries\<close>

definition logger_write_entry_line :: "logger \<Rightarrow> string \<Rightarrow> cstr \<Rightarrow> string" where
  "logger_write_entry_line lo out txt =
     (if lo_jsonl lo then out @ txt @ [CHR 0x0A]
      else if lo_first_json lo then out @ '','' @ [CHR 0x0A] @ txt @ [CHR 0x0A]
      else out @ txt @ [CHR 0x0A])"

definition write_outputs :: "cstr \<Rightarrow> logger \<Rightarrow> logger" where
  "write_outputs txt lo =
     lo\<lparr>lo_stdout := (if lo_stdout_ena lo then logger_write_entry_line lo (lo_stdout lo) txt else lo_stdout lo),
        lo_logfile := map_option (\<lambda>f. logger_write_entry_line lo f txt) (lo_logfile lo)\<rparr>"

definition logger_emit_entry :: "log_entry \<Rightarrow> logger \<Rightarrow> int \<times> logger" where
  "logger_emit_entry entry lo =
     (case le_text entry of
        None \<Rightarrow> (0, lo)
      | Some txt0 \<Rightarrow>
          let txt = (if retrace_redact_active (lo_patterns lo) then retrace_redact_apply (lo_patterns lo) txt0 else txt0);
              lo1 = write_outputs txt lo;
              lo2 = lo1\<lparr>lo_sinks := map (map_option (\<lambda>given. given @ [txt])) (lo_sinks lo1)\<rparr> in
          (0, lo2\<lparr>lo_first_json := True\<rparr>))"

fun sink_slot :: "nat \<Rightarrow> string list option list \<Rightarrow> int" where
  "sink_slot i [] = -1"
| "sink_slot i (s # ss) = (if s = None then int i else sink_slot (Suc i) ss)"

definition retrace_log_sink_register :: "bool \<Rightarrow> logger \<Rightarrow> int \<times> logger" where
  "retrace_log_sink_register has_fn lo =
     (if \<not> has_fn then (-1, lo)
      else let i = sink_slot 0 (lo_sinks lo) in
        if i < 0 then (-1, lo) else (i, lo\<lparr>lo_sinks := (lo_sinks lo)[nat i := Some []]\<rparr>))"

subsection \<open>The flusher\<close>

type_synonym drain_ctx = "logger \<times> nat \<times> bool"

definition drain_adapter :: "log_entry \<Rightarrow> drain_ctx \<Rightarrow> int \<times> drain_ctx" where
  "drain_adapter e c =
     (case c of (lo, emitted, stop) \<Rightarrow>
        if stop then (1, c)
        else (case logger_emit_entry e lo of
                (rc, lo1) \<Rightarrow> if rc \<noteq> 0 then (rc, lo1, emitted, True) else (rc, lo1, emitted + 1, stop)))"

definition ring_walk_drain :: "log_ring \<Rightarrow> drain_ctx \<Rightarrow> log_ring \<times> drain_ctx" where
  "ring_walk_drain r c =
     (case c of (lo, emitted, stop) \<Rightarrow>
        if stop then (r, c)
        else (case retrace_log_ring_drain (Some r) (Some drain_adapter) c of
                Some (_, c1, Some r1) \<Rightarrow> (r1, c1)
              | _ \<Rightarrow> (r, c)))"

definition retrace_log_flusher_drain_all :: "logger \<Rightarrow> log_globals \<Rightarrow> nat \<times> logger \<times> log_globals" where
  "retrace_log_flusher_drain_all lo g =
     (case retrace_log_ring_walk (Some ring_walk_drain) (lo, 0, False) g of
        (g1, lo1, emitted, stop) \<Rightarrow> (emitted, lo1, g1))"

subsection \<open>Start and end\<close>

definition env_flag :: "(cstr \<Rightarrow> cstr option) \<Rightarrow> (cstr \<Rightarrow> int) \<Rightarrow> cstr \<Rightarrow> bool \<Rightarrow> bool" where
  "env_flag getenv atoi name old = (case getenv name of None \<Rightarrow> old | Some v \<Rightarrow> atoi v \<noteq> 0)"

text \<open>\<open>retrace_logger_init\<close> in its three parts: the environment, the opening of the document, the ring.\<close>

definition logger_read_env :: "(cstr \<Rightarrow> cstr option) \<Rightarrow> (cstr \<Rightarrow> int) \<Rightarrow> bool \<Rightarrow> logger \<Rightarrow> logger" where
  "logger_read_env getenv atoi fopen_ok lo =
     lo\<lparr>lo_ena := env_flag getenv atoi ''RETRACE_LOGGER_DEF_ENA'' (lo_ena lo),
        lo_stdout_ena := env_flag getenv atoi ''RETRACE_LOGGER_DEF_STDOUT_ENA'' (lo_stdout_ena lo),
        lo_logfile := (case getenv ''RETRACE_LOGGER_DEF_FN'' of
           None \<Rightarrow> lo_logfile lo | Some _ \<Rightarrow> if fopen_ok then Some [] else None),
        lo_jsonl := (if getenv ''RETRACE_LOGGER_FMT'' = Some ''jsonl'' then True else lo_jsonl lo),
        lo_allowed := logger_parse_func_filter (getenv ''RETRACE_LOGGER_ALLOWED_FUNCS'') (lo_allowed lo),
        lo_excluded := logger_parse_func_filter (getenv ''RETRACE_LOGGER_EXCLUDED_FUNCS'') (lo_excluded lo)\<rparr>"

definition write_framing :: "string \<Rightarrow> logger \<Rightarrow> logger" where
  "write_framing t lo =
     lo\<lparr>lo_stdout := (if lo_stdout_ena lo then lo_stdout lo @ t else lo_stdout lo),
        lo_logfile := map_option (\<lambda>f. f @ t) (lo_logfile lo)\<rparr>"

definition logger_init_ring ::
    "(cstr \<Rightarrow> cstr option) \<Rightarrow> (cstr \<Rightarrow> int) \<Rightarrow> int \<Rightarrow> int \<Rightarrow> logger \<Rightarrow> log_globals \<Rightarrow> logger \<times> log_globals" where
  "logger_init_ring getenv atoi mutex_rc tss_rc lo g =
     (let ring = (case getenv ''RETRACE_LOGGER_RING'' of None \<Rightarrow> True | Some v \<Rightarrow> cget v 0 \<noteq> CHR ''0'') in
      if ring then
        (case retrace_log_ring_init (getenv ''RETRACE_LOGGER_RING_CAP'') (Some atoi) mutex_rc tss_rc g of
           (rc, g1) \<Rightarrow> if rc \<noteq> 0 then (lo\<lparr>lo_ring_enabled := False\<rparr>, g1)
                       else (lo\<lparr>lo_ring_enabled := True, lo_ring_ready := True\<rparr>, g1))
      else (lo\<lparr>lo_ring_enabled := False\<rparr>, g))"

definition retrace_logger_init ::
    "(cstr \<Rightarrow> cstr option) \<Rightarrow> (cstr \<Rightarrow> int) \<Rightarrow> bool \<Rightarrow> int \<Rightarrow> int \<Rightarrow> logger \<Rightarrow> log_globals \<Rightarrow> logger \<times> log_globals" where
  "retrace_logger_init getenv atoi fopen_ok mutex_rc tss_rc lo g =
     (let lo1 = logger_read_env getenv atoi fopen_ok lo in
      case (if lo_ena lo1 \<and> (lo_stdout_ena lo1 \<or> lo_logfile lo1 \<noteq> None)
            then logger_init_ring getenv atoi mutex_rc tss_rc
                   (if lo_jsonl lo1 then lo1 else write_framing (''['' @ [CHR 0x0A]) lo1) g
            else (lo1, g)) of
        (lo2, g2) \<Rightarrow> (lo2\<lparr>lo_active := True\<rparr>, g2))"

text \<open>
  \<open>retrace_log_flusher_stop\<close>: the signalled thread drains once more, clears \<open>running\<close>
  and is joined.  A flusher that is not running is not waited for.
\<close>

definition retrace_log_flusher_stop :: "logger \<Rightarrow> log_globals \<Rightarrow> logger \<times> log_globals" where
  "retrace_log_flusher_stop lo g =
     (if \<not> lo_flusher_running lo then (lo, g)
      else (case retrace_log_flusher_drain_all lo g of
              (_, lo1, g1) \<Rightarrow> (lo1\<lparr>lo_flusher_running := False\<rparr>, g1)))"

definition retrace_logger_deinit :: "logger \<Rightarrow> log_globals \<Rightarrow> logger \<times> log_globals" where
  "retrace_logger_deinit lo g =
     (let ring_was_ready = lo_ring_ready lo;
          lo1 = lo\<lparr>lo_active := False, lo_ring_ready := False\<rparr>;
          (lo2, g2) = (if ring_was_ready \<and> lo_flusher_spawned lo1
                       then retrace_log_flusher_stop lo1 g else (lo1, g));
          g3 = (if ring_was_ready then retrace_log_ring_deinit g2 else g2) in
      (if \<not> lo_jsonl lo2 \<and> lo_ena lo2 \<and> (lo_stdout_ena lo2 \<or> lo_logfile lo2 \<noteq> None)
       then write_framing ('']'' @ [CHR 0x0A]) lo2 else lo2, g3))"

subsection \<open>Logging a message\<close>

definition g_retrace_module_pref :: "cstr list" where
  "g_retrace_module_pref = [''ACT'', ''CONF'', ''TYPES'', ''ENGINE'', ''FUNCS'', ''MAIN'', ''ARCH'']"

definition g_retrace_severities :: "cstr list" where
  "g_retrace_severities = [''DEBUG'', ''INFO'', ''WARN'', ''ERROR'']"

definition modules_ena :: "bool list" where "modules_ena = replicate 7 True"

definition severities_ena :: "bool list" where "severities_ena = [False, True, True, True]"

definition FUNCS :: nat where "FUNCS = 4"
definition SEVERITY_ERROR :: nat where "SEVERITY_ERROR = 3"

text \<open>What the surroundings decide about one call: the calling thread and the outcomes of requests.\<close>

record log_call =
  lc_disabled :: bool
  lc_inited :: bool
  lc_time :: "64 word"
  lc_pid :: int
  lc_tid :: int
  lc_thread :: nat
  lc_ring_at :: "nat option"
  lc_entries_ok :: bool
  lc_node_ok :: bool
  lc_tss_ok :: bool
  lc_copy_ok :: bool

type_synonym serializer = "bool \<Rightarrow> json \<Rightarrow> cstr option"
type_synonym written = "nat option \<times> cstr"
type_synonym logged = "written list \<times> logger \<times> log_globals"

definition log_value :: "log_call \<Rightarrow> nat \<Rightarrow> nat \<Rightarrow> json \<Rightarrow> json" where
  "log_value c m sv msg = JSONObject
     [(''time'', JSONNumber (of_int (sint (lc_time c)))), (''pid'', JSONNumber (of_int (lc_pid c))),
      (''tid'', JSONNumber (of_int (lc_tid c))), (''module'', JSONString (g_retrace_module_pref ! m)),
      (''severity'', JSONString (g_retrace_severities ! sv)), (''message'', msg)]"

text \<open>
  The two ends of \<open>retrace_logger_log_json\<close>.  The list says what was taken: an entry with
  the address of the ring that took it, or with \<open>None\<close> when it was written at once.  A
  pointer to a freed ring is undefined.
\<close>

definition log_to_ring ::
    "(nat \<Rightarrow> log_entry list) \<Rightarrow> log_call \<Rightarrow> nat \<Rightarrow> nat \<Rightarrow> cstr option \<Rightarrow> logger \<Rightarrow> log_globals \<Rightarrow> logged option" where
  "log_to_ring fresh c m sv txt lo g =
     (case retrace_log_ring_get (lc_ring_at c) (lc_entries_ok c) (lc_node_ok c) (lc_tss_ok c) fresh (lc_thread c) g of
        (None, g1) \<Rightarrow> Some ([], lo, g1)
      | (Some a, g1) \<Rightarrow>
          (case lg_rings g1 a of
             None \<Rightarrow> None
           | Some r \<Rightarrow>
               (case retrace_log_ring_push (lc_copy_ok c) (Some r) (of_nat m) (of_nat sv) (ucast (lc_time c)) txt of
                  (rc, r1) \<Rightarrow> Some (if rc = 0 then [(Some a, the txt)] else [], lo,
                                    g1\<lparr>lg_rings := (lg_rings g1)(a := r1)\<rparr>))))"

definition log_direct :: "cstr option \<Rightarrow> logger \<Rightarrow> log_globals \<Rightarrow> logged option" where
  "log_direct txt lo g =
     (if lo_stdout_ena lo \<or> lo_logfile lo \<noteq> None then
        map_option (\<lambda>t. ([(None, t)], (write_outputs t lo)\<lparr>lo_first_json := True\<rparr>, g)) txt
      else Some ([], lo, g))"

text \<open>\<open>retrace_logger_log_json\<close>, with what \<open>ensure_flusher_running\<close> does as an argument.\<close>

definition log_json_with ::
    "(logger \<Rightarrow> log_globals \<Rightarrow> logged option) \<Rightarrow> serializer \<Rightarrow> (nat \<Rightarrow> log_entry list) \<Rightarrow> log_call \<Rightarrow> nat \<Rightarrow> nat \<Rightarrow> json \<Rightarrow>
     logger \<Rightarrow> log_globals \<Rightarrow> logged option" where
  "log_json_with ensure serialize fresh c m sv msg lo g =
     (if lc_disabled c then Some ([], lo, g)
      else if \<not> lo_active lo then Some ([], lo, g)
      else if \<not> (lo_ena lo \<and> (lo_stdout_ena lo \<or> lo_logfile lo \<noteq> None)) then Some ([], lo, g)
      else if length modules_ena \<le> m \<or> length severities_ena \<le> sv then None
      else if \<not> (modules_ena ! m \<and> severities_ena ! sv) then Some ([], lo, g)
      else
        let txt = serialize (\<not> lo_jsonl lo) (log_value c m sv msg) in
        if lo_ring_ready lo \<and> lo_ring_enabled lo \<and> lc_inited c then
          (case ensure lo g of
             None \<Rightarrow> None
           | Some (ws, lo1, g1) \<Rightarrow>
               map_option (\<lambda>(ws2, st). (ws @ ws2, st)) (log_to_ring fresh c m sv txt lo1 g1))
        else log_direct txt lo g)"

text \<open>
  \<open>retrace_logger_log\<close> with the formatted text, as \<open>log_err\<close> calls it.  Below
  \<open>ensure_flusher_running\<close> the flag is already taken, so the nested call spawns nothing.
\<close>

definition log_err_nested ::
    "serializer \<Rightarrow> (nat \<Rightarrow> log_entry list) \<Rightarrow> log_call \<Rightarrow> cstr \<Rightarrow> logger \<Rightarrow> log_globals \<Rightarrow> logged option" where
  "log_err_nested serialize fresh c txt =
     log_json_with (\<lambda>lo g. Some ([], lo, g)) serialize fresh c FUNCS SEVERITY_ERROR (JSONObject [(''text'', JSONString txt)])"

text \<open>
  \<open>retrace_log_flusher_init\<close> with the logger's callback: the text it reports on failure.
  \<open>create_rc\<close> is the outcome of the thread creation and \<open>show_rc\<close> formats it.
\<close>

definition retrace_log_flusher_init :: "int \<Rightarrow> (int \<Rightarrow> cstr) \<Rightarrow> logger \<Rightarrow> cstr option \<times> logger" where
  "retrace_log_flusher_init create_rc show_rc lo =
     (if lo_flusher_running lo then (Some ''log_flusher: already running'', lo)
      else if create_rc \<noteq> 0 then (Some (''log_flusher: pthread_create failed: '' @ show_rc create_rc), lo)
      else (None, lo\<lparr>lo_flusher_running := True\<rparr>))"

definition ensure_flusher_running ::
    "serializer \<Rightarrow> (nat \<Rightarrow> log_entry list) \<Rightarrow> int \<Rightarrow> (int \<Rightarrow> cstr) \<Rightarrow> log_call \<Rightarrow> log_call \<Rightarrow> logger \<Rightarrow> log_globals \<Rightarrow> logged option" where
  "ensure_flusher_running serialize fresh create_rc show_rc c1 c2 lo g =
     (if lo_flusher_spawned lo then Some ([], lo, g)
      else (case retrace_log_flusher_init create_rc show_rc (lo\<lparr>lo_flusher_spawned := True\<rparr>) of
              (None, lo1) \<Rightarrow> Some ([], lo1, g)
            | (Some err, lo1) \<Rightarrow>
                (case log_err_nested serialize fresh c1 err lo1 g of
                   None \<Rightarrow> None
                 | Some (ws, lo2, g2) \<Rightarrow>
                     map_option (\<lambda>(ws2, st). (ws @ ws2, st))
                       (log_err_nested serialize fresh c2 ''logger: log_flusher_init failed'' lo2 g2))))"

definition retrace_logger_log_json ::
    "serializer \<Rightarrow> (nat \<Rightarrow> log_entry list) \<Rightarrow> int \<Rightarrow> (int \<Rightarrow> cstr) \<Rightarrow> log_call \<Rightarrow> log_call \<Rightarrow> log_call \<Rightarrow> nat \<Rightarrow> nat \<Rightarrow> json \<Rightarrow>
     logger \<Rightarrow> log_globals \<Rightarrow> logged option" where
  "retrace_logger_log_json serialize fresh create_rc show_rc c1 c2 c =
     log_json_with (ensure_flusher_running serialize fresh create_rc show_rc c1 c2) serialize fresh c"

end
