(* ===== verification/Json_Text.thy ===== *)
theory Json_Text
  imports Json
begin

unbundle bit_operations_syntax

section \<open>Strings of JSON texts (\<open>src/src/config/json/parson.c\<close>)\<close>

text \<open>
  Quoted strings: the scan for the closing quote, the escapes, the decoding of
  \<open>\u\<close> sequences to UTF-8, and the writer.  A position in the text is the suffix it
  points to.  Allocations succeed; a decoded NUL ends the string, since what is kept is a C
  string.
\<close>

definition byte :: "char \<Rightarrow> int" where "byte c = of_char c"

definition hex_char_to_int :: "char \<Rightarrow> int" where
  "hex_char_to_int c =
     (if byte (CHR ''0'') \<le> byte c \<and> byte c \<le> byte (CHR ''9'') then byte c - byte (CHR ''0'')
      else if byte (CHR ''a'') \<le> byte c \<and> byte c \<le> byte (CHR ''f'') then byte c - byte (CHR ''a'') + 10
      else if byte (CHR ''A'') \<le> byte c \<and> byte c \<le> byte (CHR ''F'') then byte c - byte (CHR ''A'') + 10
      else -1)"

definition parse_utf16_hex :: "cstr \<Rightarrow> int option" where
  "parse_utf16_hex s =
     (if cget s 0 = nul \<or> cget s 1 = nul \<or> cget s 2 = nul \<or> cget s 3 = nul then None
      else
        let x1 = hex_char_to_int (cget s 0); x2 = hex_char_to_int (cget s 1);
            x3 = hex_char_to_int (cget s 2); x4 = hex_char_to_int (cget s 3) in
        if x1 = -1 \<or> x2 = -1 \<or> x3 = -1 \<or> x4 = -1 then None
        else Some (push_bit 12 x1 OR push_bit 8 x2 OR push_bit 4 x3 OR x4))"

subsection \<open>UTF-8\<close>

definition IS_CONT :: "char \<Rightarrow> bool" where "IS_CONT c \<longleftrightarrow> byte c AND 0xC0 = 0x80"

definition num_bytes_in_utf8_sequence :: "char \<Rightarrow> nat" where
  "num_bytes_in_utf8_sequence c =
     (if byte c = 0xC0 \<or> byte c = 0xC1 \<or> byte c > 0xF4 \<or> IS_CONT c then 0
      else if byte c AND 0x80 = 0 then 1
      else if byte c AND 0xE0 = 0xC0 then 2
      else if byte c AND 0xF0 = 0xE0 then 3
      else if byte c AND 0xF8 = 0xF0 then 4
      else 0)"

definition cont_bits :: "int \<Rightarrow> char \<Rightarrow> int" where
  "cont_bits cp c = push_bit 6 cp OR (byte c AND 0x3F)"

definition utf8_code_point :: "nat \<Rightarrow> cstr \<Rightarrow> int option" where
  "utf8_code_point len s =
     (if len = 1 then Some (byte (cget s 0))
      else if len = 2 \<and> IS_CONT (cget s 1) then Some (cont_bits (byte (cget s 0) AND 0x1F) (cget s 1))
      else if len = 3 \<and> IS_CONT (cget s 1) \<and> IS_CONT (cget s 2) then
        Some (cont_bits (cont_bits (byte (cget s 0) AND 0xF) (cget s 1)) (cget s 2))
      else if len = 4 \<and> IS_CONT (cget s 1) \<and> IS_CONT (cget s 2) \<and> IS_CONT (cget s 3) then
        Some (cont_bits (cont_bits (cont_bits (byte (cget s 0) AND 0x7) (cget s 1)) (cget s 2)) (cget s 3))
      else None)"

definition verify_utf8_sequence :: "cstr \<Rightarrow> bool \<times> nat" where
  "verify_utf8_sequence s =
     (let len = num_bytes_in_utf8_sequence (cget s 0) in
      case utf8_code_point len s of
        None \<Rightarrow> (False, len)
      | Some cp \<Rightarrow>
          if cp < 0x80 \<and> len > 1 \<or> cp < 0x800 \<and> len > 2 \<or> cp < 0x10000 \<and> len > 3 then (False, len)
          else if cp > 0x10FFFF then (False, len)
          else if cp \<ge> 0xD800 \<and> cp \<le> 0xDFFF then (False, len)
          else (True, len))"

lemma verify_utf8_pos: "verify_utf8_sequence s = (True, len) \<Longrightarrow> 0 < len"
  by (auto simp: verify_utf8_sequence_def utf8_code_point_def Let_def split: if_splits)

function is_valid_utf8 :: "cstr \<Rightarrow> bool" where
  "is_valid_utf8 s =
     (if s = [] then True
      else (case verify_utf8_sequence s of (ok, len) \<Rightarrow> if ok then is_valid_utf8 (drop len s) else False))"
  by pat_completeness auto
termination
proof (relation "measure length")
  fix s ok len
  assume "s \<noteq> []" "(ok, len) = verify_utf8_sequence s" "ok"
  then show "(drop len s, s) \<in> measure length" using verify_utf8_pos [of s len] by simp
qed simp

declare is_valid_utf8.simps [simp del]

subsection \<open>Quoted strings\<close>

fun skip_to_quote :: "cstr \<Rightarrow> cstr option" where
  "skip_to_quote [] = None"
| "skip_to_quote (c # s) =
     (if c = CHR 0x22 then Some s
      else if c = CHR 0x5C then (case s of [] \<Rightarrow> None | _ # s' \<Rightarrow> skip_to_quote s')
      else skip_to_quote s)"

definition skip_quotes :: "cstr \<Rightarrow> cstr option" where
  "skip_quotes s = (case s of [] \<Rightarrow> None | c # s' \<Rightarrow> if c \<noteq> CHR 0x22 then None else skip_to_quote s')"

definition to_char :: "int \<Rightarrow> char" where "to_char n = char_of n"

text \<open>\<open>parse_utf16\<close>, from the \<open>u\<close> on: the bytes written and the text after the sequence.\<close>

definition parse_utf16 :: "cstr \<Rightarrow> (string \<times> cstr) option" where
  "parse_utf16 unprocessed =
     (case parse_utf16_hex (drop 1 unprocessed) of
        None \<Rightarrow> None
      | Some cp \<Rightarrow>
          if cp < 0x80 then Some ([to_char cp], drop 5 unprocessed)
          else if cp < 0x800 then
            Some ([to_char ((drop_bit 6 cp AND 0x1F) OR 0xC0), to_char ((cp AND 0x3F) OR 0x80)], drop 5 unprocessed)
          else if cp < 0xD800 \<or> cp > 0xDFFF then
            Some ([to_char ((drop_bit 12 cp AND 0x0F) OR 0xE0), to_char ((drop_bit 6 cp AND 0x3F) OR 0x80),
                   to_char ((cp AND 0x3F) OR 0x80)], drop 5 unprocessed)
          else if cp \<ge> 0xD800 \<and> cp \<le> 0xDBFF then
            let p = drop 5 unprocessed in
            if cget p 0 \<noteq> CHR 0x5C \<or> cget p 1 \<noteq> CHR ''u'' then None
            else (case parse_utf16_hex (drop 2 p) of
                    None \<Rightarrow> None
                  | Some trail \<Rightarrow>
                      if trail < 0xDC00 \<or> trail > 0xDFFF then None
                      else
                        let cp2 = (push_bit 10 ((cp - 0xD800) AND 0x3FF) OR ((trail - 0xDC00) AND 0x3FF)) + 0x10000 in
                        Some ([to_char ((drop_bit 18 cp2 AND 0x07) OR 0xF0), to_char ((drop_bit 12 cp2 AND 0x3F) OR 0x80),
                               to_char ((drop_bit 6 cp2 AND 0x3F) OR 0x80), to_char ((cp2 AND 0x3F) OR 0x80)], drop 6 p))
          else None)"

definition simple_escape :: "char \<Rightarrow> char option" where
  "simple_escape c =
     (if c = CHR 0x22 then Some (CHR 0x22)
      else if c = CHR 0x5C then Some (CHR 0x5C)
      else if c = CHR ''/'' then Some (CHR ''/'')
      else if c = CHR ''b'' then Some (CHR 0x08)
      else if c = CHR ''f'' then Some (CHR 0x0C)
      else if c = CHR ''n'' then Some (CHR 0x0A)
      else if c = CHR ''r'' then Some (CHR 0x0D)
      else if c = CHR ''t'' then Some (CHR 0x09)
      else None)"

lemma parse_utf16_shorter: "parse_utf16 s = Some (bs, r) \<Longrightarrow> length r \<le> length s"
  by (auto simp: parse_utf16_def Let_def split: option.splits if_splits)

text \<open>The loop of \<open>process_string\<close>, at \<open>i\<close> characters from the start of the contents.\<close>

function process_loop :: "cstr \<Rightarrow> nat \<Rightarrow> nat \<Rightarrow> string option" where
  "process_loop s i len =
     (case s of
        [] \<Rightarrow> Some []
      | c # s1 \<Rightarrow>
          if \<not> i < len then Some []
          else if c = CHR 0x5C then
            (case s1 of
               [] \<Rightarrow> None
             | e # s2 \<Rightarrow>
                 if e = CHR ''u'' then
                   (case parse_utf16 s1 of
                      None \<Rightarrow> None
                    | Some (bs, s3) \<Rightarrow>
                        map_option (\<lambda>out. bs @ out) (process_loop s3 (i + (length s - length s3)) len))
                 else (case simple_escape e of
                         None \<Rightarrow> None
                       | Some x \<Rightarrow> map_option (\<lambda>out. x # out) (process_loop s2 (i + 2) len)))
          else if byte c < 0x20 then None
          else map_option (\<lambda>out. c # out) (process_loop s1 (i + 1) len))"
  by pat_completeness auto
termination
  by (relation "measure (\<lambda>(s, i, len). length s)") (auto dest: parse_utf16_shorter)

declare process_loop.simps [simp del]

definition process_string :: "cstr \<Rightarrow> nat \<Rightarrow> cstr option" where
  "process_string input len = map_option (takeWhile (\<lambda>c. c \<noteq> nul)) (process_loop input 0 len)"

definition get_quoted_string :: "cstr \<Rightarrow> (cstr \<times> cstr) option" where
  "get_quoted_string s =
     (case skip_quotes s of
        None \<Rightarrow> None
      | Some rest \<Rightarrow>
          let string_len = length s - length rest - 2 in
          map_option (\<lambda>t. (t, rest)) (process_string (drop 1 s) string_len))"

subsection \<open>Writing a string\<close>

definition escape_char :: "char \<Rightarrow> string" where
  "escape_char c =
     (if c = CHR 0x22 then [CHR 0x5C, CHR 0x22]
      else if c = CHR 0x5C then [CHR 0x5C, CHR 0x5C]
      else if c = CHR ''/'' then [CHR 0x5C, CHR ''/'']
      else if c = CHR 0x08 then [CHR 0x5C, CHR ''b'']
      else if c = CHR 0x0C then [CHR 0x5C, CHR ''f'']
      else if c = CHR 0x0A then [CHR 0x5C, CHR ''n'']
      else if c = CHR 0x0D then [CHR 0x5C, CHR ''r'']
      else if c = CHR 0x09 then [CHR 0x5C, CHR ''t'']
      else if byte c < 0x20 then
        [CHR 0x5C, CHR ''u'', CHR ''0'', CHR ''0'', hex_digit (nat (byte c) div 16), hex_digit (nat (byte c) mod 16)]
      else [c])"

definition json_serialize_string :: "cstr \<Rightarrow> cstr" where
  "json_serialize_string s = [CHR 0x22] @ concat (map escape_char s) @ [CHR 0x22]"

subsection \<open>Reading back what was written\<close>

lemma hex_digit_facts:
  assumes "k < 16"
  shows "hex_char_to_int (hex_digit k) = int k" "hex_digit k \<noteq> nul" "hex_digit k \<noteq> CHR 0x22" "hex_digit k \<noteq> CHR 0x5C"
proof -
  have "list_all (\<lambda>k. hex_char_to_int (hex_digit k) = int k \<and> hex_digit k \<noteq> nul \<and> hex_digit k \<noteq> CHR 0x22 \<and>
      hex_digit k \<noteq> CHR 0x5C) [0..<16]"
    by code_simp
  then show "hex_char_to_int (hex_digit k) = int k" "hex_digit k \<noteq> nul" "hex_digit k \<noteq> CHR 0x22" "hex_digit k \<noteq> CHR 0x5C"
    using assms by (auto simp: list_all_iff)
qed

lemma control_code:
  assumes "n < 32"
  shows "push_bit 4 (int (n div 16)) OR int (n mod 16) = int n"
proof -
  have "list_all (\<lambda>n. push_bit 4 (int (n div 16)) OR int (n mod 16) = int n) [0..<32]" by code_simp
  then show ?thesis using assms by (auto simp: list_all_iff)
qed

lemma byte_range: "0 \<le> byte c" "byte c < 256"
proof -
  have b: "byte c = int (of_char c :: nat)" by (simp only: byte_def of_nat_of_char)
  show "0 \<le> byte c" by (simp add: b)
  have "(of_char c :: nat) < 256" by (rule nat_of_char_less_256)
  then show "byte c < 256" by (simp add: b)
qed

lemma to_char_byte [simp]: "to_char (byte c) = c"
  by (simp add: to_char_def byte_def)

lemma parse_control:
  assumes "byte c < 0x20"
  shows "parse_utf16 (CHR ''u'' # CHR ''0'' # CHR ''0'' # hex_digit (nat (byte c) div 16) # hex_digit (nat (byte c) mod 16) # t) =
    Some ([c], t)"
proof -
  define n where "n = nat (byte c)"
  have n: "n < 32" "int n = byte c" using assms byte_range [of c] by (auto simp: n_def)
  have k: "n div 16 < 16" "n mod 16 < 16" using n(1) by auto
  have z: "hex_char_to_int (CHR ''0'') = 0" by code_simp
  have "parse_utf16_hex (CHR ''0'' # CHR ''0'' # hex_digit (n div 16) # hex_digit (n mod 16) # t) = Some (int n)"
    using hex_digit_facts [OF k(1)] hex_digit_facts [OF k(2)] control_code [OF n(1)]
    by (simp add: parse_utf16_hex_def z Let_def)
  then show ?thesis using n assms by (simp add: parse_utf16_def n_def [symmetric])
qed

lemma skip_escape: "skip_to_quote (escape_char c @ t) = skip_to_quote t"
proof (cases "byte c < 0x20")
  case True
  then have "nat (byte c) div 16 < 16" "nat (byte c) mod 16 < 16" by auto
  from hex_digit_facts(3,4) [OF this(1)] hex_digit_facts(3,4) [OF this(2)] show ?thesis
    by (simp add: escape_char_def)
qed (simp add: escape_char_def)

lemma skip_serialized: "skip_to_quote (concat (map escape_char s) @ CHR 0x22 # rest) = Some rest"
  by (induction s) (simp_all add: skip_escape)

lemma escape_nonempty: "0 < length (escape_char c)"
  by (simp add: escape_char_def)

lemma process_plain:
  "c \<noteq> CHR 0x5C \<Longrightarrow> \<not> byte c < 0x20 \<Longrightarrow> i < len \<Longrightarrow>
     process_loop (c # s) i len = map_option (\<lambda>out. c # out) (process_loop s (i + 1) len)"
  by (subst process_loop.simps) simp

lemma process_simple:
  "e \<noteq> CHR ''u'' \<Longrightarrow> simple_escape e = Some x \<Longrightarrow> i < len \<Longrightarrow>
     process_loop (CHR 0x5C # e # s) i len = map_option (\<lambda>out. x # out) (process_loop s (i + 2) len)"
  by (subst process_loop.simps) simp

lemma process_unicode:
  "parse_utf16 (CHR ''u'' # s) = Some (bs, s3) \<Longrightarrow> i < len \<Longrightarrow>
     process_loop (CHR 0x5C # CHR ''u'' # s) i len =
       map_option (\<lambda>out. bs @ out) (process_loop s3 (i + (length s + 2 - length s3)) len)"
  by (subst process_loop.simps) simp

lemma escape_cases:
  obtains (simple) e where "escape_char c = [CHR 0x5C, e]" "e \<noteq> CHR ''u''" "simple_escape e = Some c"
  | (control) "byte c < 0x20" "escape_char c =
      [CHR 0x5C, CHR ''u'', CHR ''0'', CHR ''0'', hex_digit (nat (byte c) div 16), hex_digit (nat (byte c) mod 16)]"
  | (plain) "escape_char c = [c]" "c \<noteq> CHR 0x5C" "\<not> byte c < 0x20"
proof -
  let ?named = "c = CHR 0x22 \<or> c = CHR 0x5C \<or> c = CHR ''/'' \<or> c = CHR 0x08 \<or> c = CHR 0x0C \<or> c = CHR 0x0A \<or>
    c = CHR 0x0D \<or> c = CHR 0x09"
  show thesis
  proof (cases ?named)
    case True
    then have "\<exists>e. escape_char c = [CHR 0x5C, e] \<and> e \<noteq> CHR ''u'' \<and> simple_escape e = Some c"
      by (elim disjE) (simp_all add: escape_char_def simple_escape_def)
    then show thesis using simple by blast
  next
    case False
    then show thesis using control plain by (cases "byte c < 0x20") (simp_all add: escape_char_def)
  qed
qed

lemma process_escape:
  assumes "i < len"
  shows "process_loop (escape_char c @ t) i len = map_option (\<lambda>out. c # out) (process_loop t (i + length (escape_char c)) len)"
proof (cases c rule: escape_cases)
  case (simple e)
  then show ?thesis using process_simple [of e c i len t] assms by simp
next
  case control
  have "process_loop (escape_char c @ t) i len = map_option (\<lambda>out. c # out) (process_loop t (i + 6) len)"
    using process_unicode [OF parse_control [OF control(1), of t], of i len] assms by (simp add: control(2))
  moreover have "length (escape_char c) = 6" by (simp add: control(2))
  ultimately show ?thesis by simp
next
  case plain
  then show ?thesis using process_plain [of c i len t] assms by simp
qed

lemma process_serialized:
  "process_loop (concat (map escape_char s) @ CHR 0x22 # rest) i (i + length (concat (map escape_char s))) = Some s"
proof (induction s arbitrary: i)
  case Nil
  then show ?case by (subst process_loop.simps) simp
next
  case (Cons c s)
  have "i < i + length (concat (map escape_char (c # s)))" using escape_nonempty [of c] by simp
  from process_escape [OF this, of c "concat (map escape_char s) @ CHR 0x22 # rest"] Cons [of "i + length (escape_char c)"]
  show ?case by (simp add: add.assoc)
qed

lemma get_quoted_serialized:
  assumes "nul \<notin> set s"
  shows "get_quoted_string (json_serialize_string s @ rest) = Some (s, rest)"
proof -
  have "takeWhile (\<lambda>c. c \<noteq> nul) s = s" using assms by (auto simp: takeWhile_eq_all_conv)
  then show ?thesis using process_serialized [of s rest 0]
    by (simp add: get_quoted_string_def json_serialize_string_def skip_quotes_def skip_serialized process_string_def)
qed

end
