(* ===== verification/Json_Parse.thy ===== *)
theory Json_Parse
  imports Json_Text
begin

section \<open>Reading JSON texts (\<open>src/src/config/json/parson.c\<close>)\<close>

text \<open>
  The recursive-descent parser.  Each routine takes the text from its position on and
  returns a value with the text after it.  \<open>strtod\<close> is an argument: the value it
  returns (\<open>None\<close> for an infinity or a NaN), the number of characters it consumed,
  and whether it set \<open>errno\<close>.  Recursion is on fuel; \<open>NoFuel\<close> is shown never to be the
  outcome of a parse started with \<open>json_fuel\<close>.
\<close>

definition MAX_NESTING :: nat where "MAX_NESTING = 2048"

type_synonym strtod_fun = "cstr \<Rightarrow> rat option \<times> nat \<times> bool"

datatype 'a parsed = NoFuel | Bad | Good 'a cstr

fun is_space :: "char \<Rightarrow> bool" where
  "is_space c \<longleftrightarrow> c = CHR '' '' \<or> c = CHR 0x09 \<or> c = CHR 0x0A \<or> c = CHR 0x0B \<or> c = CHR 0x0C \<or> c = CHR 0x0D"

definition SKIP_WHITESPACES :: "cstr \<Rightarrow> cstr" where "SKIP_WHITESPACES s = dropWhile is_space s"

definition is_decimal :: "cstr \<Rightarrow> nat \<Rightarrow> bool" where
  "is_decimal s len =
     (if len > 1 \<and> cget s 0 = CHR ''0'' \<and> cget s 1 \<noteq> CHR ''.'' then False
      else if len > 2 \<and> strncmp_eq s ''-0'' 2 \<and> cget s 2 \<noteq> CHR ''.'' then False
      else list_all (\<lambda>c. c \<notin> set ''xX'' \<and> c \<noteq> nul) (take len s))"

definition json_value_init_number :: "rat option \<Rightarrow> json option" where
  "json_value_init_number number = map_option JSONNumber number"

definition parse_number_value :: "strtod_fun \<Rightarrow> cstr \<Rightarrow> json parsed" where
  "parse_number_value strtod s =
     (case strtod s of (number, n, err) \<Rightarrow>
        if err \<or> \<not> is_decimal s n then Bad
        else (case json_value_init_number number of None \<Rightarrow> Bad | Some v \<Rightarrow> Good v (drop n s)))"

definition parse_boolean_value :: "cstr \<Rightarrow> json parsed" where
  "parse_boolean_value s =
     (if strncmp_eq ''true'' s 4 then Good (JSONBoolean True) (drop 4 s)
      else if strncmp_eq ''false'' s 5 then Good (JSONBoolean False) (drop 5 s)
      else Bad)"

definition parse_null_value :: "cstr \<Rightarrow> json parsed" where
  "parse_null_value s = (if strncmp_eq ''null'' s 4 then Good JSONNull (drop 4 s) else Bad)"

definition parse_string_value :: "cstr \<Rightarrow> json parsed" where
  "parse_string_value s = (case get_quoted_string s of None \<Rightarrow> Bad | Some (t, rest) \<Rightarrow> Good (JSONString t) rest)"

definition parse_scalar :: "strtod_fun \<Rightarrow> cstr \<Rightarrow> json parsed" where
  "parse_scalar strtod s =
     (let c = cget s 0 in
      if c = CHR 0x22 then parse_string_value s
      else if c = CHR ''f'' \<or> c = CHR ''t'' then parse_boolean_value s
      else if c = CHR ''-'' \<or> c \<in> set ''0123456789'' then parse_number_value strtod s
      else if c = CHR ''n'' then parse_null_value s
      else Bad)"

definition json_object_add :: "json_object \<Rightarrow> cstr \<Rightarrow> json \<Rightarrow> json_object option" where
  "json_object_add obj name v = (if json_object_get_value (Some obj) name \<noteq> None then None else Some (obj @ [(name, v)]))"

text \<open>
  The loops of \<open>parse_array_value\<close> and \<open>parse_object_value\<close> carry the values read so far
  and end with the closing bracket.
\<close>

definition close_with :: "char \<Rightarrow> 'a \<Rightarrow> cstr \<Rightarrow> 'a parsed" where
  "close_with c v s = (let s1 = SKIP_WHITESPACES s in if cget s1 0 \<noteq> c then Bad else Good v (drop 1 s1))"

function parse_value :: "strtod_fun \<Rightarrow> nat \<Rightarrow> nat \<Rightarrow> cstr \<Rightarrow> json parsed"
  and array_loop :: "strtod_fun \<Rightarrow> nat \<Rightarrow> nat \<Rightarrow> json_array \<Rightarrow> cstr \<Rightarrow> json parsed"
  and object_loop :: "strtod_fun \<Rightarrow> nat \<Rightarrow> nat \<Rightarrow> json_object \<Rightarrow> cstr \<Rightarrow> json parsed" where
  "parse_value strtod 0 nesting s = NoFuel"
| "parse_value strtod (Suc fuel) nesting s =
     (if nesting > MAX_NESTING then Bad
      else
        let s1 = SKIP_WHITESPACES s; c = cget s1 0 in
        if c = CHR 0x7B then
          (let s2 = SKIP_WHITESPACES (drop 1 s1) in
           if cget s2 0 = CHR 0x7D then Good (JSONObject []) (drop 1 s2) else object_loop strtod fuel (nesting + 1) [] s2)
        else if c = CHR 0x5B then
          (let s2 = SKIP_WHITESPACES (drop 1 s1) in
           if cget s2 0 = CHR 0x5D then Good (JSONArray []) (drop 1 s2) else array_loop strtod fuel (nesting + 1) [] s2)
        else parse_scalar strtod s1)"
| "array_loop strtod 0 nesting vs s = NoFuel"
| "array_loop strtod (Suc fuel) nesting vs s =
     (if cget s 0 = nul then close_with (CHR 0x5D) (JSONArray vs) s
      else (case parse_value strtod fuel nesting s of
              NoFuel \<Rightarrow> NoFuel
            | Bad \<Rightarrow> Bad
            | Good v s1 \<Rightarrow>
                let s2 = SKIP_WHITESPACES s1 in
                if cget s2 0 \<noteq> CHR '','' then close_with (CHR 0x5D) (JSONArray (vs @ [v])) s2
                else array_loop strtod fuel nesting (vs @ [v]) (SKIP_WHITESPACES (drop 1 s2))))"
| "object_loop strtod 0 nesting obj s = NoFuel"
| "object_loop strtod (Suc fuel) nesting obj s =
     (if cget s 0 = nul then close_with (CHR 0x7D) (JSONObject obj) s
      else (case get_quoted_string s of
              None \<Rightarrow> Bad
            | Some (new_key, s1) \<Rightarrow>
                let s2 = SKIP_WHITESPACES s1 in
                if cget s2 0 \<noteq> CHR '':'' then Bad
                else (case parse_value strtod fuel nesting (drop 1 s2) of
                        NoFuel \<Rightarrow> NoFuel
                      | Bad \<Rightarrow> Bad
                      | Good v s3 \<Rightarrow>
                          (case json_object_add obj new_key v of
                             None \<Rightarrow> Bad
                           | Some obj1 \<Rightarrow>
                               let s4 = SKIP_WHITESPACES s3 in
                               if cget s4 0 \<noteq> CHR '','' then close_with (CHR 0x7D) (JSONObject obj1) s4
                               else object_loop strtod fuel nesting obj1 (SKIP_WHITESPACES (drop 1 s4))))))"
  by pat_completeness auto
termination
  by (relation "measure (\<lambda>x. case x of Inl (_, f, _) \<Rightarrow> f | Inr (Inl (_, f, _)) \<Rightarrow> f | Inr (Inr (_, f, _)) \<Rightarrow> f)") auto

definition json_fuel :: "cstr \<Rightarrow> nat" where "json_fuel s = 2 * length s + 1"

definition json_parse_string :: "strtod_fun \<Rightarrow> cstr option \<Rightarrow> json parsed" where
  "json_parse_string strtod string =
     (case string of
        None \<Rightarrow> Bad
      | Some s0 \<Rightarrow>
          let s = (if cget s0 0 = CHR 0xEF \<and> cget s0 1 = CHR 0xBB \<and> cget s0 2 = CHR 0xBF then drop 3 s0 else s0) in
          parse_value strtod (json_fuel s) 0 s)"

subsection \<open>Comments\<close>

fun strstr_at :: "cstr \<Rightarrow> cstr \<Rightarrow> nat option" where
  "strstr_at [] tok = (if tok = [] then Some 0 else None)"
| "strstr_at (c # s) tok = (if prefix tok (c # s) then Some 0 else map_option Suc (strstr_at s tok))"

text \<open>
  \<open>remove_comments\<close> writes blanks over a comment; the result is the text after the pass.
\<close>

function remove_comments :: "bool \<Rightarrow> bool \<Rightarrow> cstr \<Rightarrow> cstr \<Rightarrow> cstr \<Rightarrow> cstr" where
  "remove_comments in_string escaped string start_token end_token =
     (if start_token = [] \<or> end_token = [] then string
      else
        (case string of
           [] \<Rightarrow> []
         | c # s \<Rightarrow>
             if c = CHR 0x5C \<and> \<not> escaped then c # remove_comments in_string True s start_token end_token
             else if c = CHR 0x22 \<and> \<not> escaped then c # remove_comments (\<not> in_string) False s start_token end_token
             else if \<not> in_string \<and> prefix start_token string then
               (let n = length start_token; s1 = drop n string in
                (case strstr_at s1 end_token of
                   None \<Rightarrow> replicate n (CHR '' '') @ s1
                 | Some k \<Rightarrow>
                     replicate (n + k + length end_token) (CHR '' '') @
                     remove_comments in_string False (drop (k + length end_token) s1) start_token end_token))
             else c # remove_comments in_string False s start_token end_token))"
  by pat_completeness auto
termination by (relation "measure (\<lambda>(_, _, s, _). length s)") auto

declare remove_comments.simps [simp del]

definition json_parse_string_with_comments :: "strtod_fun \<Rightarrow> cstr option \<Rightarrow> json parsed" where
  "json_parse_string_with_comments strtod string =
     (case string of
        None \<Rightarrow> Bad
      | Some s \<Rightarrow>
          let s1 = remove_comments False False s ''/*'' ''*/'';
              s2 = remove_comments False False s1 ''//'' [CHR 0x0A] in
          parse_value strtod (json_fuel s2) 0 s2)"

subsection \<open>The parser returns\<close>

lemma skip_ws_length: "length (SKIP_WHITESPACES s) \<le> length s"
  by (simp add: SKIP_WHITESPACES_def length_dropWhile_le)

lemma skip_to_quote_length: "skip_to_quote s = Some r \<Longrightarrow> length r < length s"
proof (induction s rule: skip_to_quote.induct)
  case (2 c s)
  then show ?case by (fastforce split: if_splits list.splits)
qed simp

lemma get_quoted_length: "get_quoted_string s = Some (t, r) \<Longrightarrow> length r < length s"
  by (auto simp: get_quoted_string_def skip_quotes_def Let_def split: option.splits list.splits if_splits
      dest: skip_to_quote_length)

lemma close_with_facts: "close_with c v s \<noteq> NoFuel" "close_with c v s = Good w r \<Longrightarrow> length r \<le> length s"
  using skip_ws_length [of s] by (auto simp: close_with_def Let_def split: if_splits)

lemma leaf_facts:
  "parse_string_value s \<noteq> NoFuel" "parse_string_value s = Good v r \<Longrightarrow> length r \<le> length s"
  "parse_boolean_value s \<noteq> NoFuel" "parse_boolean_value s = Good v r \<Longrightarrow> length r \<le> length s"
  "parse_null_value s \<noteq> NoFuel" "parse_null_value s = Good v r \<Longrightarrow> length r \<le> length s"
  "parse_number_value strtod s \<noteq> NoFuel" "parse_number_value strtod s = Good v r \<Longrightarrow> length r \<le> length s"
  by (auto simp: parse_string_value_def parse_boolean_value_def parse_null_value_def parse_number_value_def
      split: option.splits prod.splits if_splits dest: get_quoted_length)

text \<open>With enough fuel a routine has an outcome, and it never gives text back.\<close>

definition settles :: "bool \<Rightarrow> nat \<Rightarrow> 'a parsed \<Rightarrow> bool" where
  "settles enough n p \<longleftrightarrow> (enough \<longrightarrow> p \<noteq> NoFuel) \<and> (\<forall>v r. p = Good v r \<longrightarrow> length r \<le> n)"

lemma settles_Bad [simp]: "settles enough n Bad" and settles_Good [simp]: "settles enough n (Good v r) \<longleftrightarrow> length r \<le> n"
  by (simp_all add: settles_def)

lemma settles_mono: "settles e1 n1 p \<Longrightarrow> (e2 \<Longrightarrow> e1) \<Longrightarrow> n1 \<le> n2 \<Longrightarrow> settles e2 n2 p"
  by (auto simp: settles_def intro: order_trans)

lemma settles_close: "length s \<le> n \<Longrightarrow> settles e n (close_with c v s)"
  using close_with_facts [of c v s] by (auto simp: settles_def dest: order_trans)

lemma settles_scalar:
  assumes "length s \<le> n"
  shows "settles e n (parse_scalar strtod s)"
proof -
  have "parse_scalar strtod s \<noteq> NoFuel" using leaf_facts(1,3,5,7) by (simp add: parse_scalar_def Let_def)
  moreover have "length r \<le> length s" if "parse_scalar strtod s = Good v r" for v r
    using that leaf_facts(2,4,6,8) [where s = s and r = r] by (auto simp: parse_scalar_def Let_def split: if_splits)
  ultimately show ?thesis using assms by (auto simp: settles_def dest: order_trans)
qed

lemma settles_bind:
  assumes "settles e1 n1 p" "e \<Longrightarrow> e1" "\<And>v r. p = Good v r \<Longrightarrow> length r \<le> n1 \<Longrightarrow> settles e n (f v r)"
  shows "settles e n (case p of NoFuel \<Rightarrow> NoFuel | Bad \<Rightarrow> Bad | Good v r \<Rightarrow> f v r)"
  using assms by (cases p) (auto simp: settles_def)

lemma step_length: "cget s 0 \<noteq> nul \<Longrightarrow> Suc (length (SKIP_WHITESPACES (drop 1 s))) \<le> length s"
  using skip_ws_length [of "drop 1 s"] by (cases s) auto

lemma parse_settles:
  "settles (2 * length s < fuel) (length s) (parse_value strtod fuel nesting s) \<and>
   settles (2 * length s + 1 < fuel) (length s) (array_loop strtod fuel nesting vs s) \<and>
   settles (2 * length s + 1 < fuel) (length s) (object_loop strtod fuel nesting obj s)"
proof (induction fuel arbitrary: nesting s vs obj)
  case 0
  show ?case by (simp add: settles_def)
next
  case (Suc fuel)
  note val_IH = Suc.IH [THEN conjunct1] and arr_IH = Suc.IH [THEN conjunct2, THEN conjunct1]
    and obj_IH = Suc.IH [THEN conjunct2, THEN conjunct2]
  define s1 where "s1 = SKIP_WHITESPACES s"
  have s1: "length s1 \<le> length s" by (simp add: s1_def skip_ws_length)
  define s2 where "s2 = SKIP_WHITESPACES (drop (Suc 0) s1)"
  have s2: "length (drop 1 s2) \<le> length s" using skip_ws_length [of "drop 1 s1"] s1 by (simp add: s2_def)
  have obj: "settles (2 * length s < Suc fuel) (length s) (object_loop strtod fuel (nesting + 1) [] s2)"
    "settles (2 * length s < Suc fuel) (length s) (array_loop strtod fuel (nesting + 1) [] s2)" if "cget s1 0 \<noteq> nul"
    using step_length [OF that] s1
    by (intro settles_mono [OF obj_IH] settles_mono [OF arr_IH]; simp add: s2_def)+
  have "settles (2 * length s < Suc fuel) (length s) (parse_value strtod (Suc fuel) nesting s)"
    using s2 obj settles_scalar [OF s1] by (simp add: Let_def s1_def [symmetric] s2_def [symmetric])
  note val = this
  have more: "settles (2 * length s < fuel) (length s) (array_loop strtod fuel nesting ws (SKIP_WHITESPACES (drop (Suc 0) t)))"
    "settles (2 * length s < fuel) (length s) (object_loop strtod fuel nesting o1 (SKIP_WHITESPACES (drop (Suc 0) t)))"
    if "cget t 0 \<noteq> nul" "length t \<le> length s" for ws o1 t
    using step_length [OF that(1)] that(2)
    by (intro settles_mono [OF arr_IH] settles_mono [OF obj_IH]; simp)+
  have skip: "length (SKIP_WHITESPACES r) \<le> length s" if "length r \<le> length s" for r
    using skip_ws_length [of r] that by simp
  have "settles (2 * length s + 1 < Suc fuel) (length s) (array_loop strtod (Suc fuel) nesting vs s)"
    by (auto simp: Let_def intro!: settles_bind [OF val_IH] settles_close more skip)
  moreover have "settles (2 * length s + 1 < Suc fuel) (length s) (object_loop strtod (Suc fuel) nesting obj s)"
  proof (cases "get_quoted_string s")
    case None
    then show ?thesis by (simp add: settles_close)
  next
    case (Some kr)
    obtain key r where kr: "kr = (key, r)" by (cases kr)
    have r: "length (drop 1 (SKIP_WHITESPACES r)) \<le> length s"
      using get_quoted_length [of s key r] skip_ws_length [of r] Some kr by simp
    have pv: "settles (2 * length s < fuel) (length s) (parse_value strtod fuel nesting (drop (Suc 0) (SKIP_WHITESPACES r)))"
      by (rule settles_mono [OF val_IH]) (use r in simp_all)
    show ?thesis using Some kr
      by (auto simp: Let_def split: option.split intro!: settles_bind [OF pv] settles_close more skip)
  qed
  ultimately show ?case using val by blast
qed

lemma parse_returns: "parse_value strtod (json_fuel s) nesting s \<noteq> NoFuel"
  using parse_settles [of s "json_fuel s" strtod nesting] by (simp add: settles_def json_fuel_def)

end
