(* ===== verification/Json_Print.thy ===== *)
theory Json_Print
  imports Json_Parse
begin

section \<open>Writing JSON texts (\<open>src/src/config/json/parson.c\<close>)\<close>

text \<open>
  The serialiser, compact and pretty, and the proof that the parser reads back what it
  wrote.  \<open>fmt\<close> is the text \<open>sprintf\<close> gives a number under \<open>%1.17g\<close>.  A member's
  value is looked up by its name, as in the source; \<open>None\<close> is the error return.
\<close>

definition append_indent :: "nat \<Rightarrow> string" where "append_indent level = concat (replicate level ''    '')"

definition eol :: "bool \<Rightarrow> string" where "eol is_pretty = (if is_pretty then [CHR 0x0A] else [])"

definition indent :: "bool \<Rightarrow> nat \<Rightarrow> string" where "indent is_pretty level = (if is_pretty then append_indent level else [])"

function serialize_value :: "(rat \<Rightarrow> cstr) \<Rightarrow> bool \<Rightarrow> nat \<Rightarrow> json \<Rightarrow> cstr option"
  and serialize_items :: "(rat \<Rightarrow> cstr) \<Rightarrow> bool \<Rightarrow> nat \<Rightarrow> json list \<Rightarrow> cstr option"
  and serialize_members :: "(rat \<Rightarrow> cstr) \<Rightarrow> bool \<Rightarrow> nat \<Rightarrow> json_object \<Rightarrow> (cstr \<times> json) list \<Rightarrow> cstr option" where
  "serialize_value fmt pretty level JSONNull = Some ''null''"
| "serialize_value fmt pretty level (JSONString s) = Some (json_serialize_string s)"
| "serialize_value fmt pretty level (JSONNumber n) = Some (fmt n)"
| "serialize_value fmt pretty level (JSONBoolean b) = Some (if b then ''true'' else ''false'')"
| "serialize_value fmt pretty level (JSONArray vs) =
     (case serialize_items fmt pretty level vs of
        None \<Rightarrow> None
      | Some t \<Rightarrow> Some (''['' @ (if vs \<noteq> [] then eol pretty else []) @ t @
                        (if vs \<noteq> [] then indent pretty level else []) @ '']''))"
| "serialize_value fmt pretty level (JSONObject obj) =
     (case serialize_members fmt pretty level obj obj of
        None \<Rightarrow> None
      | Some t \<Rightarrow> Some ([CHR 0x7B] @ (if obj \<noteq> [] then eol pretty else []) @ t @
                        (if obj \<noteq> [] then indent pretty level else []) @ [CHR 0x7D]))"
| "serialize_items fmt pretty level [] = Some []"
| "serialize_items fmt pretty level (v # vs) =
     (case serialize_value fmt pretty (level + 1) v of
        None \<Rightarrow> None
      | Some t \<Rightarrow>
          map_option (\<lambda>u. indent pretty (level + 1) @ t @ (if vs \<noteq> [] then '','' else []) @ eol pretty @ u)
            (serialize_items fmt pretty level vs))"
| "serialize_members fmt pretty level obj [] = Some []"
| "serialize_members fmt pretty level obj (kv # kvs) =
     (case json_object_get_value (Some obj) (fst kv) of
        None \<Rightarrow> None
      | Some v \<Rightarrow>
          (case serialize_value fmt pretty (level + 1) v of
             None \<Rightarrow> None
           | Some t \<Rightarrow>
               map_option (\<lambda>u. indent pretty (level + 1) @ json_serialize_string (fst kv) @ '':'' @
                             (if pretty then '' '' else []) @ t @ (if kvs \<noteq> [] then '','' else []) @ eol pretty @ u)
                 (serialize_members fmt pretty level obj kvs)))"
  by pat_completeness auto
termination
proof (relation "measures
    [\<lambda>x. case x of Inl (_, _, _, v) \<Rightarrow> size v | Inr (Inl (_, _, _, vs)) \<Rightarrow> size_list size vs
       | Inr (Inr (_, _, _, obj, _)) \<Rightarrow> size_list (size_prod (\<lambda>_. 0) size) obj,
     \<lambda>x. case x of Inl _ \<Rightarrow> 0 | Inr (Inl _) \<Rightarrow> 1 | Inr (Inr (_, _, _, _, kvs)) \<Rightarrow> length kvs]")
qed (auto dest: get_value_smaller)

text \<open>
  A text is written in two passes: one to find its length, with the zero byte, and one into
  a buffer of that size.
\<close>

definition json_serialization_size :: "(rat \<Rightarrow> cstr) \<Rightarrow> json \<Rightarrow> nat" where
  "json_serialization_size fmt v = (case serialize_value fmt False 0 v of None \<Rightarrow> 0 | Some s \<Rightarrow> length s + 1)"

definition json_serialize_to_buffer :: "(rat \<Rightarrow> cstr) \<Rightarrow> json \<Rightarrow> nat \<Rightarrow> cstr option" where
  "json_serialize_to_buffer fmt v buf_size =
     (let needed = json_serialization_size fmt v in
      if needed = 0 \<or> buf_size < needed then None else serialize_value fmt False 0 v)"

definition json_serialize_to_string :: "(rat \<Rightarrow> cstr) \<Rightarrow> json \<Rightarrow> cstr option" where
  "json_serialize_to_string fmt v =
     (let n = json_serialization_size fmt v in if n = 0 then None else json_serialize_to_buffer fmt v n)"

definition json_serialization_size_pretty :: "(rat \<Rightarrow> cstr) \<Rightarrow> json \<Rightarrow> nat" where
  "json_serialization_size_pretty fmt v = (case serialize_value fmt True 0 v of None \<Rightarrow> 0 | Some s \<Rightarrow> length s + 1)"

definition json_serialize_to_buffer_pretty :: "(rat \<Rightarrow> cstr) \<Rightarrow> json \<Rightarrow> nat \<Rightarrow> cstr option" where
  "json_serialize_to_buffer_pretty fmt v buf_size =
     (let needed = json_serialization_size_pretty fmt v in
      if needed = 0 \<or> buf_size < needed then None else serialize_value fmt True 0 v)"

definition json_serialize_to_string_pretty :: "(rat \<Rightarrow> cstr) \<Rightarrow> json \<Rightarrow> cstr option" where
  "json_serialize_to_string_pretty fmt v =
     (let n = json_serialization_size_pretty fmt v in if n = 0 then None else json_serialize_to_buffer_pretty fmt v n)"

lemma serialize_to_string_eq:
  "json_serialize_to_string fmt v = serialize_value fmt False 0 v"
  "json_serialize_to_string_pretty fmt v = serialize_value fmt True 0 v"
  by (simp_all add: json_serialize_to_string_def json_serialize_to_buffer_def json_serialization_size_def
      json_serialize_to_string_pretty_def json_serialize_to_buffer_pretty_def json_serialization_size_pretty_def split: option.split)

text \<open>Every tree is written: a member is found by the name it has.\<close>

lemma serialize_parts_total:
  "\<exists>s. serialize_value fmt pretty level v = Some s"
  "\<exists>s. serialize_items fmt pretty level vs = Some s"
  "set kvs \<subseteq> set obj \<Longrightarrow> \<exists>s. serialize_members fmt pretty level obj kvs = Some s"
proof (induction fmt pretty level v and fmt pretty level vs and fmt pretty level obj kvs
    rule: serialize_value_serialize_items_serialize_members.induct)
  case (10 fmt pretty level obj kv kvs)
  have "fst kv \<in> fst ` set obj" using 10(3) by auto
  then obtain v where "json_object_get_value (Some obj) (fst kv) = Some v"
    by (cases "map_of obj (fst kv)") (auto simp: json_object_get_value_map map_of_eq_None_iff)
  then show ?case using 10 by fastforce
qed (auto split: option.split)

lemmas serialize_total = serialize_parts_total(1)

subsection \<open>What can be read back\<close>

text \<open>
  A text that may follow a value, and what is relied on of \<open>sprintf\<close> and \<open>strtod\<close>: a number
  is written as a decimal, and read back from in front of such a text as itself.
\<close>

definition delim :: "cstr \<Rightarrow> bool" where
  "delim r \<longleftrightarrow> r = [] \<or> is_space (hd r) \<or> hd r \<in> {CHR '','', CHR 0x5D, CHR 0x7D}"

definition number_ok :: "strtod_fun \<Rightarrow> (rat \<Rightarrow> cstr) \<Rightarrow> rat \<Rightarrow> bool" where
  "number_ok strtod fmt n \<longleftrightarrow> fmt n \<noteq> [] \<and> hd (fmt n) \<in> set ''-0123456789'' \<and> is_decimal (fmt n) (length (fmt n)) \<and>
     (\<forall>r. delim r \<longrightarrow> strtod (fmt n @ r) = (Some n, length (fmt n), False))"

fun readable :: "strtod_fun \<Rightarrow> (rat \<Rightarrow> cstr) \<Rightarrow> nat \<Rightarrow> json \<Rightarrow> bool" where
  "readable strtod fmt nesting JSONNull \<longleftrightarrow> nesting \<le> MAX_NESTING"
| "readable strtod fmt nesting (JSONBoolean b) \<longleftrightarrow> nesting \<le> MAX_NESTING"
| "readable strtod fmt nesting (JSONString s) \<longleftrightarrow> nesting \<le> MAX_NESTING \<and> nul \<notin> set s"
| "readable strtod fmt nesting (JSONNumber n) \<longleftrightarrow> nesting \<le> MAX_NESTING \<and> number_ok strtod fmt n"
| "readable strtod fmt nesting (JSONArray vs) \<longleftrightarrow> nesting \<le> MAX_NESTING \<and> (\<forall>v\<in>set vs. readable strtod fmt (nesting + 1) v)"
| "readable strtod fmt nesting (JSONObject obj) \<longleftrightarrow> nesting \<le> MAX_NESTING \<and> distinct (map fst obj) \<and>
     (\<forall>kv\<in>set obj. nul \<notin> set (fst kv) \<and> readable strtod fmt (nesting + 1) (snd kv))"

lemma readable_nesting: "readable strtod fmt nesting v \<Longrightarrow> nesting \<le> MAX_NESTING"
  by (cases v) auto

lemma readable_members:
  "readable strtod fmt nesting (JSONObject obj) \<Longrightarrow> kv \<in> set obj \<Longrightarrow> json_object_get_value (Some obj) (fst kv) = Some (snd kv)"
  by (simp add: json_object_get_value_map map_of_is_SomeI)

definition blank :: "string \<Rightarrow> bool" where "blank w \<longleftrightarrow> list_all is_space w"

lemma blank_simps [simp]: "blank []" "blank (v @ w) \<longleftrightarrow> blank v \<and> blank w"
  by (simp_all add: blank_def)

lemma blank_layout [simp]: "blank (eol p)" "blank (indent p n)"
  by (simp_all add: blank_def eol_def indent_def append_indent_def list_all_iff)

lemma skip_blank: "blank w \<Longrightarrow> SKIP_WHITESPACES (w @ s) = SKIP_WHITESPACES s"
  by (induction w) (auto simp: blank_def SKIP_WHITESPACES_def simp del: is_space.simps)

lemma skip_none: "\<not> is_space c \<Longrightarrow> SKIP_WHITESPACES (c # s) = c # s"
  by (simp add: SKIP_WHITESPACES_def)

lemma delim_blank: "blank w \<Longrightarrow> delim s \<Longrightarrow> delim (w @ s)"
  by (cases w) (auto simp: blank_def delim_def)

subsection \<open>Scalars\<close>

lemma is_decimal_append:
  assumes "is_decimal t (length t)"
  shows "is_decimal (t @ r) (length t)"
proof -
  have "length t > 1 \<Longrightarrow> cget (t @ r) 0 = cget t 0 \<and> cget (t @ r) 1 = cget t 1"
    "length t > 2 \<Longrightarrow> strncmp_eq (t @ r) ''-0'' 2 = strncmp_eq t ''-0'' 2 \<and> cget (t @ r) 2 = cget t 2"
    by (auto simp: cget_def nth_append strncmp_eq_def)
  then show ?thesis using assms unfolding is_decimal_def by (auto split: if_splits)
qed

lemma number_start: "number_ok strtod fmt n \<Longrightarrow> \<exists>c t'. fmt n = c # t' \<and> c \<in> set ''-0123456789''"
  unfolding number_ok_def by (metis list.exhaust_sel)

lemma parse_scalar_text:
  assumes "readable strtod fmt nesting v" "serialize_value fmt pretty level v = Some t" "delim rest"
    and "\<And>vs. v \<noteq> JSONArray vs" "\<And>obj. v \<noteq> JSONObject obj"
  shows "parse_scalar strtod (t @ rest) = Good v rest"
proof (cases v)
  case (JSONString s)
  have "t = CHR 0x22 # concat (map escape_char s) @ [CHR 0x22]" using assms JSONString by (simp add: json_serialize_string_def)
  moreover have "get_quoted_string (t @ rest) = Some (s, rest)"
    using get_quoted_serialized [of s rest] assms JSONString by simp
  ultimately show ?thesis using JSONString by (simp add: parse_scalar_def parse_string_value_def)
next
  case (JSONNumber n)
  then have n: "number_ok strtod fmt n" "t = fmt n" using assms by simp_all
  then obtain c t' where t: "t = c # t'" "c \<in> set ''-0123456789''" using number_start by blast
  have "parse_number_value strtod (t @ rest) = Good v rest"
    using n assms(3) is_decimal_append [of t rest] JSONNumber
    by (simp add: parse_number_value_def number_ok_def json_value_init_number_def)
  then show ?thesis using t by (auto simp: parse_scalar_def Let_def)
qed (use assms in \<open>auto simp: parse_scalar_def parse_boolean_value_def parse_null_value_def strncmp_eq_def split: if_splits\<close>)

subsection \<open>Values\<close>

text \<open>The first character of a written value is neither blank nor a NUL, and tells containers from scalars.\<close>

lemma serialized_start:
  assumes "readable strtod fmt nesting v" "serialize_value fmt pretty level v = Some t"
  shows "\<exists>c t'. t = c # t' \<and> \<not> is_space c \<and> c \<noteq> nul \<and> c \<noteq> CHR 0x5D \<and> c \<noteq> CHR 0xEF \<and>
    (c = CHR 0x5B \<longleftrightarrow> (\<exists>vs. v = JSONArray vs)) \<and> (c = CHR 0x7B \<longleftrightarrow> (\<exists>obj. v = JSONObject obj))"
proof (cases v)
  case (JSONNumber n)
  then have n: "number_ok strtod fmt n" "t = fmt n" using assms by simp_all
  from number_start [OF n(1)] show ?thesis using JSONNumber n(2) by auto
qed (use assms in \<open>auto simp: json_serialize_string_def split: if_splits option.splits\<close>)

definition reads_value :: "strtod_fun \<Rightarrow> nat \<Rightarrow> json \<Rightarrow> cstr \<Rightarrow> bool" where
  "reads_value strtod nesting v t \<longleftrightarrow> (\<forall>w r fuel. blank w \<longrightarrow> delim r \<longrightarrow> 2 * length (w @ t @ r) < fuel \<longrightarrow>
     parse_value strtod fuel nesting (w @ t @ r) = Good v r)"

definition reads_items :: "strtod_fun \<Rightarrow> nat \<Rightarrow> json list \<Rightarrow> cstr \<Rightarrow> bool" where
  "reads_items strtod nesting vs t \<longleftrightarrow> (\<forall>us w r fuel. blank w \<longrightarrow> 2 * length (SKIP_WHITESPACES (t @ w @ CHR 0x5D # r)) + 1 < fuel \<longrightarrow>
     array_loop strtod fuel nesting us (SKIP_WHITESPACES (t @ w @ CHR 0x5D # r)) = Good (JSONArray (us @ vs)) r)"

definition reads_members :: "strtod_fun \<Rightarrow> nat \<Rightarrow> json_object \<Rightarrow> (cstr \<times> json) list \<Rightarrow> cstr \<Rightarrow> bool" where
  "reads_members strtod nesting obj kvs t \<longleftrightarrow> (\<forall>us w r fuel. blank w \<longrightarrow> obj = us @ kvs \<longrightarrow>
     2 * length (SKIP_WHITESPACES (t @ w @ CHR 0x7D # r)) + 1 < fuel \<longrightarrow>
     object_loop strtod fuel nesting us (SKIP_WHITESPACES (t @ w @ CHR 0x7D # r)) = Good (JSONObject obj) r)"

lemma close_bracket: "blank w \<Longrightarrow> \<not> is_space c \<Longrightarrow> close_with c v (w @ c # r) = Good v r"
  by (simp add: close_with_def skip_blank skip_none)

lemma reads_items_step:
  assumes v: "reads_value strtod nesting v t" "t = c # t'" "\<not> is_space c" "c \<noteq> nul"
    and vs: "vs \<noteq> [] \<Longrightarrow> reads_items strtod nesting vs u" "vs = [] \<Longrightarrow> u = []"
  shows "reads_items strtod nesting (v # vs) (indent p n @ t @ (if vs \<noteq> [] then '','' else []) @ eol p @ u)"
  unfolding reads_items_def
proof (intro allI impI)
  fix us w r fuel
  let ?s = "t @ (if vs \<noteq> [] then '','' else []) @ eol p @ u @ w @ CHR 0x5D # r"
  assume w: "blank w"
  have skip: "SKIP_WHITESPACES ((indent p n @ t @ (if vs \<noteq> [] then '','' else []) @ eol p @ u) @ w @ CHR 0x5D # r) = ?s"
    using v(2,3) by (simp add: skip_blank skip_none)
  assume "2 * length (SKIP_WHITESPACES ((indent p n @ t @ (if vs \<noteq> [] then '','' else []) @ eol p @ u) @ w @ CHR 0x5D # r)) + 1 < fuel"
  then obtain f where fuel: "fuel = Suc f" "2 * length ?s < f" unfolding skip by (cases fuel) auto
  define r1 where "r1 = (if vs \<noteq> [] then '','' else []) @ eol p @ u @ w @ CHR 0x5D # r"
  have d: "delim r1"
    using vs(2) w delim_blank [of "eol p @ w" "CHR 0x5D # r"] by (auto simp: r1_def delim_def)
  have pv: "parse_value strtod f nesting (t @ r1) = Good v r1"
    using v(1) [unfolded reads_value_def, rule_format, of "[]" r1 f] d fuel(2) by (simp add: r1_def)
  have "array_loop strtod fuel nesting us (t @ r1) = Good (JSONArray (us @ v # vs)) r"
  proof (cases "vs = []")
    case True
    then have "SKIP_WHITESPACES r1 = CHR 0x5D # r" using vs(2) w by (simp add: r1_def skip_blank skip_none)
    then show ?thesis using True fuel pv v(2,4) close_bracket [of "[]" "CHR 0x5D" _ r] by simp
  next
    case False
    define r2 where "r2 = u @ w @ CHR 0x5D # r"
    have r1: "r1 = CHR '','' # eol p @ r2" using False by (simp add: r1_def r2_def)
    have "2 * length (SKIP_WHITESPACES r2) + 1 < f"
      using fuel(2) skip_ws_length [of r2] v(2) r1 unfolding r1_def [symmetric] by simp
    then have "array_loop strtod f nesting (us @ [v]) (SKIP_WHITESPACES r2) = Good (JSONArray ((us @ [v]) @ vs)) r"
      using vs(1) [OF False] w unfolding reads_items_def r2_def by blast
    moreover have "SKIP_WHITESPACES r1 = r1" by (simp add: r1 skip_none)
    ultimately show ?thesis using fuel pv v(2,4) by (simp add: r1 skip_blank)
  qed
  then show "array_loop strtod fuel nesting us
      (SKIP_WHITESPACES ((indent p n @ t @ (if vs \<noteq> [] then '','' else []) @ eol p @ u) @ w @ CHR 0x5D # r)) =
      Good (JSONArray (us @ v # vs)) r"
    unfolding skip r1_def .
qed

lemma reads_members_step:
  assumes v: "reads_value strtod nesting v t" and k: "nul \<notin> set k" and fresh: "distinct (map fst obj)"
    and kvs: "kvs \<noteq> [] \<Longrightarrow> reads_members strtod nesting obj kvs u" "kvs = [] \<Longrightarrow> u = []"
  shows "reads_members strtod nesting obj ((k, v) # kvs)
    (indent p n @ json_serialize_string k @ '':'' @ (if p then '' '' else []) @ t @ (if kvs \<noteq> [] then '','' else []) @ eol p @ u)"
  unfolding reads_members_def
proof (intro allI impI)
  fix us w r fuel
  define r1 where "r1 = (if kvs \<noteq> [] then '','' else []) @ eol p @ u @ w @ CHR 0x7D # r"
  define s where "s = json_serialize_string k @ '':'' @ (if p then '' '' else []) @ t @ r1"
  assume w: "blank w" and obj: "obj = us @ (k, v) # kvs"
  have skip: "SKIP_WHITESPACES ((indent p n @ json_serialize_string k @ '':'' @ (if p then '' '' else []) @ t @
      (if kvs \<noteq> [] then '','' else []) @ eol p @ u) @ w @ CHR 0x7D # r) = s"
    by (simp add: s_def r1_def skip_blank skip_none json_serialize_string_def)
  assume "2 * length (SKIP_WHITESPACES ((indent p n @ json_serialize_string k @ '':'' @ (if p then '' '' else []) @ t @
      (if kvs \<noteq> [] then '','' else []) @ eol p @ u) @ w @ CHR 0x7D # r)) + 1 < fuel"
  then obtain f where fuel: "fuel = Suc f" "2 * length s < f" unfolding skip by (cases fuel) auto
  have d: "delim r1"
    using kvs(2) w delim_blank [of "eol p @ w" "CHR 0x7D # r"] by (auto simp: r1_def delim_def)
  have quoted: "get_quoted_string s = Some (k, '':'' @ (if p then '' '' else []) @ t @ r1)"
    using get_quoted_serialized [OF k] by (simp add: s_def)
  have pv: "parse_value strtod f nesting ((if p then '' '' else []) @ t @ r1) = Good v r1"
    using v [unfolded reads_value_def, rule_format, of "if p then '' '' else []" r1 f] d fuel(2)
    by (simp add: s_def blank_def split: if_splits)
  have add: "json_object_add us k v = Some (us @ [(k, v)])"
    using fresh unfolding obj by (simp add: json_object_add_def json_object_get_value_map map_of_eq_None_iff)
  have start: "cget s 0 \<noteq> nul" by (simp add: s_def json_serialize_string_def)
  have "object_loop strtod fuel nesting us s = Good (JSONObject obj) r"
  proof (cases "kvs = []")
    case True
    then have "SKIP_WHITESPACES r1 = CHR 0x7D # r" using kvs(2) w by (simp add: r1_def skip_blank skip_none)
    then show ?thesis using True fuel start quoted pv add obj close_bracket [of "[]" "CHR 0x7D" _ r]
      by (simp add: skip_none)
  next
    case False
    define r2 where "r2 = u @ w @ CHR 0x7D # r"
    have r1: "r1 = CHR '','' # eol p @ r2" using False by (simp add: r1_def r2_def)
    have "2 * length (SKIP_WHITESPACES r2) + 1 < f"
      using fuel(2) skip_ws_length [of r2] r1 by (simp add: s_def)
    then have "object_loop strtod f nesting (us @ [(k, v)]) (SKIP_WHITESPACES r2) = Good (JSONObject obj) r"
      using kvs(1) [OF False] w obj unfolding reads_members_def r2_def by simp
    moreover have "SKIP_WHITESPACES r1 = r1" by (simp add: r1 skip_none)
    ultimately show ?thesis using fuel start quoted pv add by (simp add: r1 skip_none skip_blank)
  qed
  then show "object_loop strtod fuel nesting us (SKIP_WHITESPACES ((indent p n @ json_serialize_string k @ '':'' @
      (if p then '' '' else []) @ t @ (if kvs \<noteq> [] then '','' else []) @ eol p @ u) @ w @ CHR 0x7D # r)) = Good (JSONObject obj) r"
    unfolding skip .
qed

definition writes :: "strtod_fun \<Rightarrow> (rat \<Rightarrow> cstr) \<Rightarrow> bool \<Rightarrow> nat \<Rightarrow> json \<Rightarrow> bool" where
  "writes strtod fmt p nesting v \<longleftrightarrow> (\<forall>level. \<exists>t. serialize_value fmt p level v = Some t \<and> reads_value strtod nesting v t)"

lemma starts_item:
  assumes "t = c # t'" "\<not> is_space c" "c \<noteq> CHR 0x5D"
  shows "\<exists>e c t'. indent p n @ t @ s = e @ c # t' \<and> blank e \<and> \<not> is_space c \<and> c \<noteq> CHR 0x5D"
  using assms by (intro exI [of _ "indent p n"] exI [of _ c] exI [of _ "t' @ s"]) simp

lemma starts_quoted: "\<exists>e t'. indent p n @ json_serialize_string k @ s = e @ CHR 0x22 # t' \<and> blank e"
  by (intro exI [of _ "indent p n"] exI [of _ "concat (map escape_char k) @ CHR 0x22 # s"]) (simp add: json_serialize_string_def)

lemma items_read:
  assumes "\<forall>v\<in>set vs. readable strtod fmt nesting v \<and> writes strtod fmt p nesting v"
  shows "\<exists>t. serialize_items fmt p level vs = Some t \<and> (vs = [] \<longrightarrow> t = []) \<and>
    (vs \<noteq> [] \<longrightarrow> reads_items strtod nesting vs t \<and> (\<exists>e c t'. t = e @ c # t' \<and> blank e \<and> \<not> is_space c \<and> c \<noteq> CHR 0x5D))"
  using assms
proof (induction vs)
  case (Cons v vs)
  have v: "readable strtod fmt nesting v" "writes strtod fmt p nesting v" using Cons.prems by simp_all
  have "\<forall>v\<in>set vs. readable strtod fmt nesting v \<and> writes strtod fmt p nesting v" using Cons.prems by simp
  from Cons.IH [OF this] obtain u where u: "serialize_items fmt p level vs = Some u"
    "vs \<noteq> [] \<Longrightarrow> reads_items strtod nesting vs u" "vs = [] \<Longrightarrow> u = []" by blast
  obtain t where t: "serialize_value fmt p (level + 1) v = Some t" "reads_value strtod nesting v t"
    using v(2) unfolding writes_def by blast
  obtain c t' where c: "t = c # t'" "\<not> is_space c" "c \<noteq> nul" "c \<noteq> CHR 0x5D"
    using serialized_start [OF v(1) t(1)] by blast
  define s where "s = indent p (level + 1) @ t @ (if vs \<noteq> [] then '','' else []) @ eol p @ u"
  have "serialize_items fmt p level (v # vs) = Some s" using t(1) u(1) by (simp add: s_def)
  moreover have "reads_items strtod nesting (v # vs) s"
    unfolding s_def by (rule reads_items_step [OF t(2) c(1-3) u(2,3)])
  moreover have "\<exists>e c t'. s = e @ c # t' \<and> blank e \<and> \<not> is_space c \<and> c \<noteq> CHR 0x5D"
    unfolding s_def by (rule starts_item [OF c(1,2,4)])
  ultimately show ?case by blast
qed simp

lemma members_read:
  assumes "\<forall>kv\<in>set kvs. nul \<notin> set (fst kv) \<and> json_object_get_value (Some obj) (fst kv) = Some (snd kv) \<and>
      writes strtod fmt p nesting (snd kv)" "distinct (map fst obj)"
  shows "\<exists>t. serialize_members fmt p level obj kvs = Some t \<and>
    (kvs = [] \<longrightarrow> t = []) \<and>
    (kvs \<noteq> [] \<longrightarrow> reads_members strtod nesting obj kvs t \<and> (\<exists>e t'. t = e @ CHR 0x22 # t' \<and> blank e))"
  using assms(1)
proof (induction kvs)
  case (Cons kv kvs)
  have kv: "nul \<notin> set (fst kv)" "json_object_get_value (Some obj) (fst kv) = Some (snd kv)"
    "writes strtod fmt p nesting (snd kv)" using Cons.prems by simp_all
  have "\<forall>kv\<in>set kvs. nul \<notin> set (fst kv) \<and> json_object_get_value (Some obj) (fst kv) = Some (snd kv) \<and>
      writes strtod fmt p nesting (snd kv)" using Cons.prems by simp
  from Cons.IH [OF this] obtain u where u: "serialize_members fmt p level obj kvs = Some u"
      "kvs \<noteq> [] \<Longrightarrow> reads_members strtod nesting obj kvs u" "kvs = [] \<Longrightarrow> u = []" by blast
  obtain t where t: "serialize_value fmt p (level + 1) (snd kv) = Some t" "reads_value strtod nesting (snd kv) t"
    using kv(3) unfolding writes_def by blast
  define s where "s = indent p (level + 1) @ json_serialize_string (fst kv) @ '':'' @ (if p then '' '' else []) @ t @
    (if kvs \<noteq> [] then '','' else []) @ eol p @ u"
  have "serialize_members fmt p level obj (kv # kvs) = Some s" using t(1) u(1) kv(2) by (simp add: s_def)
  moreover have "reads_members strtod nesting obj ((fst kv, snd kv) # kvs) s"
    unfolding s_def by (rule reads_members_step [OF t(2) kv(1) assms(2) u(2,3)])
  moreover have "\<exists>e t'. s = e @ CHR 0x22 # t' \<and> blank e" unfolding s_def by (rule starts_quoted)
  ultimately show ?case by simp
qed simp

lemma reads_scalar:
  assumes "readable strtod fmt nesting v" "serialize_value fmt p level v = Some t"
    and "\<And>vs. v \<noteq> JSONArray vs" "\<And>obj. v \<noteq> JSONObject obj"
  shows "reads_value strtod nesting v t"
  unfolding reads_value_def
proof (intro allI impI)
  fix w r fuel
  assume w: "blank w" and r: "delim r" and "2 * length (w @ t @ r) < fuel"
  then obtain f where f: "fuel = Suc f" by (cases fuel) auto
  obtain c t' where t: "t = c # t'" "\<not> is_space c" "c \<noteq> CHR 0x5B" "c \<noteq> CHR 0x7B"
    using serialized_start [OF assms(1,2)] assms(3,4) by auto
  have "SKIP_WHITESPACES (w @ t @ r) = t @ r" using w t by (simp add: skip_blank skip_none)
  then show "parse_value strtod fuel nesting (w @ t @ r) = Good v r"
    using f t readable_nesting [OF assms(1)] parse_scalar_text [OF assms(1,2) r assms(3,4)] by simp
qed

lemma reads_container:
  assumes "nesting \<le> MAX_NESTING" "blank e" "blank i"
  shows "vs \<noteq> [] \<Longrightarrow> reads_items strtod (nesting + 1) vs t \<Longrightarrow> t = e' @ c # t' \<Longrightarrow> blank e' \<Longrightarrow> \<not> is_space c \<Longrightarrow> c \<noteq> CHR 0x5D \<Longrightarrow>
      reads_value strtod nesting (JSONArray vs) (''['' @ e @ t @ i @ '']'')"
    "obj \<noteq> [] \<Longrightarrow> reads_members strtod (nesting + 1) obj obj t \<Longrightarrow> t = e' @ CHR 0x22 # t' \<Longrightarrow> blank e' \<Longrightarrow>
      reads_value strtod nesting (JSONObject obj) ([CHR 0x7B] @ e @ t @ i @ [CHR 0x7D])"
proof -
  have start: "SKIP_WHITESPACES (w @ b # s) = b # s" if "blank w" "\<not> is_space b" for w b s
    using that by (simp add: skip_blank skip_none)
  show "reads_value strtod nesting (JSONArray vs) (''['' @ e @ t @ i @ '']'')"
    if a: "vs \<noteq> []" "reads_items strtod (nesting + 1) vs t" "t = e' @ c # t'" "blank e'" "\<not> is_space c" "c \<noteq> CHR 0x5D"
    unfolding reads_value_def
  proof (intro allI impI)
    fix w r fuel
    assume w: "blank w" and "2 * length (w @ (''['' @ e @ t @ i @ '']'') @ r) < fuel"
    then obtain f where f: "fuel = Suc f" "2 * length (t @ i @ CHR 0x5D # r) + 1 < f" by (cases fuel) auto
    let ?s = "SKIP_WHITESPACES (t @ i @ CHR 0x5D # r)"
    have "2 * length ?s + 1 < f" using f(2) skip_ws_length [of "t @ i @ CHR 0x5D # r"] by simp
    then have "array_loop strtod f (nesting + 1) [] ?s = Good (JSONArray vs) r"
      using a(2) assms(3) unfolding reads_items_def by (metis append_Nil)
    moreover have "cget ?s 0 \<noteq> CHR 0x5D" using start [OF a(4,5)] a(3,6) by simp
    ultimately show "parse_value strtod fuel nesting (w @ (''['' @ e @ t @ i @ '']'') @ r) = Good (JSONArray vs) r"
      using f(1) assms start [OF w, of "CHR 0x5B"] by (simp add: skip_blank)
  qed
  show "reads_value strtod nesting (JSONObject obj) ([CHR 0x7B] @ e @ t @ i @ [CHR 0x7D])"
    if a: "obj \<noteq> []" "reads_members strtod (nesting + 1) obj obj t" "t = e' @ CHR 0x22 # t'" "blank e'"
    unfolding reads_value_def
  proof (intro allI impI)
    fix w r fuel
    assume w: "blank w" and "2 * length (w @ ([CHR 0x7B] @ e @ t @ i @ [CHR 0x7D]) @ r) < fuel"
    then obtain f where f: "fuel = Suc f" "2 * length (t @ i @ CHR 0x7D # r) + 1 < f" by (cases fuel) auto
    let ?s = "SKIP_WHITESPACES (t @ i @ CHR 0x7D # r)"
    have "2 * length ?s + 1 < f" using f(2) skip_ws_length [of "t @ i @ CHR 0x7D # r"] by simp
    then have "object_loop strtod f (nesting + 1) [] ?s = Good (JSONObject obj) r"
      using a(2) assms(3) unfolding reads_members_def by (metis append_Nil)
    moreover have "cget ?s 0 \<noteq> CHR 0x7D" using start [OF a(4), of "CHR 0x22"] a(3) by simp
    ultimately show "parse_value strtod fuel nesting (w @ ([CHR 0x7B] @ e @ t @ i @ [CHR 0x7D]) @ r) = Good (JSONObject obj) r"
      using f(1) assms start [OF w, of "CHR 0x7B"] by (simp add: skip_blank)
  qed
qed

lemma reads_empty:
  assumes "nesting \<le> MAX_NESTING"
  shows "reads_value strtod nesting (JSONArray []) ''[]''" "reads_value strtod nesting (JSONObject []) [CHR 0x7B, CHR 0x7D]"
proof -
  have "parse_value strtod fuel nesting (w @ ''[]'' @ r) = Good (JSONArray []) r"
    "parse_value strtod fuel nesting (w @ [CHR 0x7B, CHR 0x7D] @ r) = Good (JSONObject []) r"
    if "blank w" "0 < fuel" for w r fuel
    using that assms by (cases fuel; simp add: skip_blank skip_none)+
  then show "reads_value strtod nesting (JSONArray []) ''[]''" "reads_value strtod nesting (JSONObject []) [CHR 0x7B, CHR 0x7D]"
    unfolding reads_value_def by auto
qed

lemma writes_scalar:
  assumes "readable strtod fmt nesting v" "\<And>vs. v \<noteq> JSONArray vs" "\<And>obj. v \<noteq> JSONObject obj"
  shows "writes strtod fmt p nesting v"
proof -
  have "\<exists>t. serialize_value fmt p level v = Some t" for level using assms(2,3) by (cases v) auto
  then show ?thesis using reads_scalar [OF assms(1) _ assms(2,3)] unfolding writes_def by blast
qed

lemma readable_writes: "readable strtod fmt nesting v \<Longrightarrow> writes strtod fmt p nesting v"
proof (induction strtod fmt nesting v rule: readable.induct)
  case (5 strtod fmt nesting vs)
  show ?case
    unfolding writes_def
  proof
    fix level
    have nest: "nesting \<le> MAX_NESTING" using 5 by simp
    from items_read [of vs strtod fmt "nesting + 1" p level] 5
    obtain t where t: "serialize_items fmt p level vs = Some t" "vs = [] \<Longrightarrow> t = []"
      "vs \<noteq> [] \<Longrightarrow> reads_items strtod (nesting + 1) vs t \<and> (\<exists>e c t'. t = e @ c # t' \<and> blank e \<and> \<not> is_space c \<and> c \<noteq> CHR 0x5D)"
      by auto
    show "\<exists>t. serialize_value fmt p level (JSONArray vs) = Some t \<and> reads_value strtod nesting (JSONArray vs) t"
    proof (cases "vs = []")
      case True
      then show ?thesis using t reads_empty [OF nest, of strtod] by simp
    next
      case False
      then show ?thesis using t reads_container(1) [OF nest, of "eol p" "indent p level" vs strtod t] by auto
    qed
  qed
next
  case (6 strtod fmt nesting obj)
  show ?case
    unfolding writes_def
  proof
    fix level
    have nest: "nesting \<le> MAX_NESTING" using 6 by simp
    have "\<forall>kv\<in>set obj. nul \<notin> set (fst kv) \<and> json_object_get_value (Some obj) (fst kv) = Some (snd kv) \<and>
        writes strtod fmt p (nesting + 1) (snd kv)"
      using 6 readable_members [of strtod fmt nesting obj] by auto
    from members_read [OF this, of level] 6
    obtain t where t: "serialize_members fmt p level obj obj = Some t" "obj = [] \<Longrightarrow> t = []"
      "obj \<noteq> [] \<Longrightarrow> reads_members strtod (nesting + 1) obj obj t \<and> (\<exists>e t'. t = e @ CHR 0x22 # t' \<and> blank e)"
      by auto
    show "\<exists>t. serialize_value fmt p level (JSONObject obj) = Some t \<and> reads_value strtod nesting (JSONObject obj) t"
    proof (cases "obj = []")
      case True
      then show ?thesis using t reads_empty [OF nest, of strtod] by simp
    next
      case False
      then show ?thesis using t reads_container(2) [OF nest, of "eol p" "indent p level" obj strtod t] by auto
    qed
  qed
qed (rule writes_scalar; simp)+

lemma serialized_parses:
  assumes "readable strtod fmt 0 v"
  shows "\<exists>t. serialize_value fmt p level v = Some t \<and> json_parse_string strtod (Some t) = Good v []"
proof -
  obtain t where t: "serialize_value fmt p level v = Some t" "reads_value strtod 0 v t"
    using readable_writes [OF assms] unfolding writes_def by blast
  have "parse_value strtod (json_fuel t) 0 t = Good v []"
    using t(2) [unfolded reads_value_def, rule_format, of "[]" "[]" "json_fuel t"] by (simp add: delim_def json_fuel_def)
  moreover obtain c t' where "t = c # t'" "c \<noteq> CHR 0xEF" using serialized_start [OF assms t(1)] by blast
  then have "cget t 0 \<noteq> CHR 0xEF" by simp
  ultimately show ?thesis using t(1) by (simp add: json_parse_string_def)
qed

text \<open>
  C9. Whatever value the serialiser is given, compact or pretty, it writes a text, and the
  parser reads exactly that value back from it, as long as strings hold no NUL, the
  names of an object are distinct, nesting stays within the parser's limit, and numbers
  survive \<open>sprintf\<close> and \<open>strtod\<close>.
\<close>

theorem json_roundtrip:
  assumes "readable strtod fmt 0 v"
  shows "\<exists>t p. json_serialize_to_string fmt v = Some t \<and> json_parse_string strtod (Some t) = Good v [] \<and>
    json_serialize_to_string_pretty fmt v = Some p \<and> json_parse_string strtod (Some p) = Good v []"
  using serialized_parses [OF assms] unfolding serialize_to_string_eq by metis

text \<open>Numbers written and read as plain decimal digits satisfy what the round trip relies on.\<close>

definition digits_only :: strtod_fun where
  "digits_only s = (let d = takeWhile (\<lambda>c. c \<in> set ''0123456789'') s in
     (Some (of_nat (fold (\<lambda>c a. 10 * a + (of_char c - 48)) d 0)), length d, d = []))"

lemma digits_only_number: "number_ok digits_only (\<lambda>_. ''42'') 42"
proof -
  have "takeWhile (\<lambda>c. c \<in> set ''0123456789'') r = []" if "delim r" for r
    using that by (cases r) (auto simp: delim_def)
  then show ?thesis by (simp add: number_ok_def digits_only_def is_decimal_def Let_def)
qed

theorem json_roundtrip_witness:
  "\<exists>t p. let v = JSONObject [(''name'', JSONString [CHR ''a'', CHR 0x22, CHR 0x0A]), (''list'', JSONArray [JSONNull, JSONNumber 42, JSONObject []])] in
    json_serialize_to_string (\<lambda>_. ''42'') v = Some t \<and> json_parse_string digits_only (Some t) = Good v [] \<and>
    json_serialize_to_string_pretty (\<lambda>_. ''42'') v = Some p \<and> json_parse_string digits_only (Some p) = Good v []"
  unfolding Let_def
  by (rule json_roundtrip) (simp add: digits_only_number MAX_NESTING_def)

end
