(* ===== verification/Log_Document.thy ===== *)
theory Log_Document
  imports Logger Json_Print
begin

section \<open>The log document\<close>

text \<open>
  What the logger of \<open>Logger\<close> writes over a whole run: the run as a step relation, the
  framing of the array document, and the invariant that ties the entries taken so far to
  the lines written and the entries still queued.
\<close>

subsection \<open>Lines\<close>

definition redacted :: "cstr list \<Rightarrow> cstr \<Rightarrow> cstr" where
  "redacted P t = (if retrace_redact_active P then retrace_redact_apply P t else t)"

definition line_text :: "cstr list \<Rightarrow> written \<Rightarrow> cstr" where
  "line_text P w = (case fst w of None \<Rightarrow> snd w | Some a \<Rightarrow> redacted P (snd w))"

fun framed :: "bool \<Rightarrow> cstr list \<Rightarrow> string" where
  "framed later [] = []"
| "framed later (t # ts) = (if later then '','' @ [CHR 0x0A] else []) @ t @ [CHR 0x0A] @ framed True ts"

lemma framed_snoc:
  "framed later (ts @ [t]) = framed later ts @ (if later \<or> ts \<noteq> [] then '','' @ [CHR 0x0A] else []) @ t @ [CHR 0x0A]"
  by (induction ts arbitrary: later) auto

text \<open>A line that is a JSON text, inside an array.  Framed so, such lines are an array.\<close>

definition json_line :: "strtod_fun \<Rightarrow> json \<Rightarrow> cstr \<Rightarrow> bool" where
  "json_line strtod v t \<longleftrightarrow> reads_value strtod 1 v t \<and> (\<exists>c t'. t = c # t' \<and> \<not> is_space c \<and> c \<noteq> nul \<and> c \<noteq> CHR 0x5D)"

lemma framed_later: "framed True ts = (if ts = [] then [] else '','' @ [CHR 0x0A] @ framed False ts)"
  by (cases ts) auto

lemma framed_items_step:
  assumes v: "json_line strtod v t" and vs: "ts \<noteq> [] \<Longrightarrow> reads_items strtod 1 vs (framed False ts)" "vs = [] \<longleftrightarrow> ts = []"
  shows "reads_items strtod 1 (v # vs) (framed False (t # ts))"
  unfolding reads_items_def
proof (intro allI impI)
  fix us w r fuel
  assume w: "blank w"
  obtain c t' where c: "t = c # t'" "\<not> is_space c" "c \<noteq> nul" using v by (auto simp: json_line_def)
  define r1 where "r1 = CHR 0x0A # framed True ts @ w @ CHR 0x5D # r"
  have skip: "SKIP_WHITESPACES (framed False (t # ts) @ w @ CHR 0x5D # r) = t @ r1" using c by (simp add: r1_def skip_none)
  assume "2 * length (SKIP_WHITESPACES (framed False (t # ts) @ w @ CHR 0x5D # r)) + 1 < fuel"
  then obtain f where fuel: "fuel = Suc f" "2 * length (t @ r1) < f" unfolding skip by (cases fuel) auto
  have "delim r1" by (simp add: r1_def delim_def)
  then have pv: "parse_value strtod f 1 (t @ r1) = Good v r1"
    using v fuel(2) unfolding json_line_def reads_value_def by (metis append_Nil blank_simps(1))
  have "array_loop strtod fuel 1 us (t @ r1) = Good (JSONArray (us @ v # vs)) r"
  proof (cases "ts = []")
    case True
    then have "SKIP_WHITESPACES r1 = CHR 0x5D # r"
      using w skip_blank [of "CHR 0x0A # w"] by (simp add: r1_def blank_def skip_none)
    then show ?thesis using True vs(2) fuel pv c close_bracket [of "[]" "CHR 0x5D" _ r] by simp
  next
    case False
    define r2 where "r2 = framed False ts @ w @ CHR 0x5D # r"
    have s1: "SKIP_WHITESPACES r1 = CHR '','' # CHR 0x0A # r2"
      using False skip_blank [of "[CHR 0x0A]"] by (simp add: r1_def r2_def framed_later blank_def skip_none)
    have s2: "SKIP_WHITESPACES (CHR 0x0A # r2) = SKIP_WHITESPACES r2" using skip_blank [of "[CHR 0x0A]" r2] by (simp add: blank_def)
    have "2 * length (SKIP_WHITESPACES r2) + 1 < f"
      using fuel(2) skip_ws_length [of r2] c(1) False by (simp add: r1_def r2_def framed_later)
    then have "array_loop strtod f 1 (us @ [v]) (SKIP_WHITESPACES r2) = Good (JSONArray ((us @ [v]) @ vs)) r"
      using vs(1) [OF False] w unfolding reads_items_def r2_def by blast
    then show ?thesis using fuel pv c s1 s2 by simp
  qed
  then show "array_loop strtod fuel 1 us (SKIP_WHITESPACES (framed False (t # ts) @ w @ CHR 0x5D # r)) = Good (JSONArray (us @ v # vs)) r"
    unfolding skip .
qed

lemma framed_items: "list_all2 (json_line strtod) vs ts \<Longrightarrow> ts \<noteq> [] \<Longrightarrow> reads_items strtod 1 vs (framed False ts)"
proof (induction vs ts rule: list_all2_induct)
  case (Cons v vs t ts)
  then show ?case using framed_items_step [of strtod v t ts vs] list_all2_lengthD [OF Cons.hyps(2)] by auto
qed simp

lemma framed_parses:
  assumes "list_all2 (json_line strtod) vs ts"
  shows "json_parse_string strtod (Some (''['' @ [CHR 0x0A] @ framed False ts @ '']'' @ [CHR 0x0A])) = Good (JSONArray vs) [CHR 0x0A]"
proof -
  let ?s = "''['' @ [CHR 0x0A] @ framed False ts @ '']''"
  have "reads_value strtod 0 (JSONArray vs) ?s"
  proof (cases "ts = []")
    case True
    have "parse_value strtod fuel 0 (w @ ''['' @ [CHR 0x0A] @ '']'' @ r) = Good (JSONArray []) r" if "blank w" "0 < fuel" for w r fuel
      using that by (cases fuel) (simp_all add: skip_blank skip_none SKIP_WHITESPACES_def [of "CHR 0x0A # _"])
    then show ?thesis using True assms unfolding reads_value_def by auto
  next
    case False
    then obtain t ts' where ts: "ts = t # ts'" by (cases ts) auto
    then obtain v where v: "json_line strtod v t" using assms by (auto simp: list_all2_Cons2)
    then obtain c t' where c: "t = c # t'" "\<not> is_space c" "c \<noteq> CHR 0x5D" by (auto simp: json_line_def)
    have ne: "vs \<noteq> []" using assms False by auto
    have "reads_items strtod (0 + 1) vs (framed False ts)" using framed_items [OF assms False] by simp
    from reads_container(1) [of 0 "[CHR 0x0A]" "[]", OF _ _ _ ne this, of "[]" c "t' @ CHR 0x0A # framed True ts'"] c ts show ?thesis
      by (simp add: blank_def)
  qed
  from this [unfolded reads_value_def, rule_format, of "[]" "[CHR 0x0A]" "json_fuel (?s @ [CHR 0x0A])"]
  have "parse_value strtod (json_fuel (?s @ [CHR 0x0A])) 0 ([] @ ?s @ [CHR 0x0A]) = Good (JSONArray vs) [CHR 0x0A]"
    by (simp add: json_fuel_def delim_def)
  then show ?thesis by (simp add: json_parse_string_def)
qed

definition only :: "nat option \<Rightarrow> written list \<Rightarrow> written list" where
  "only k ws = filter (\<lambda>w. fst w = k) ws"

lemma only_simps [simp]:
  "only k [] = []" "only k (xs @ ys) = only k xs @ only k ys"
  "only k (w # ws) = (if fst w = k then w # only k ws else only k ws)"
  by (simp_all add: only_def)

text \<open>The outputs are the document of the lines \<open>E\<close>, still open.\<close>

definition doc :: "cstr list \<Rightarrow> written list \<Rightarrow> logger \<Rightarrow> bool" where
  "doc P E lo \<longleftrightarrow> lo_stdout lo = ''['' @ [CHR 0x0A] @ framed False (map (line_text P) E) \<and>
     lo_first_json lo = (E \<noteq> []) \<and> lo_stdout_ena lo \<and> \<not> lo_jsonl lo \<and> lo_ena lo \<and> lo_patterns lo = P"

definition same_mode :: "logger \<Rightarrow> logger \<Rightarrow> bool" where
  "same_mode lo lo' \<longleftrightarrow> lo_ring_ready lo' = lo_ring_ready lo \<and> lo_ring_enabled lo' = lo_ring_enabled lo \<and>
     lo_active lo' = lo_active lo \<and> lo_flusher_spawned lo' = lo_flusher_spawned lo \<and>
     lo_flusher_running lo' = lo_flusher_running lo"

lemma doc_flusher [simp]:
  "doc P E (lo\<lparr>lo_flusher_spawned := b\<rparr>) = doc P E lo" "doc P E (lo\<lparr>lo_flusher_running := b\<rparr>) = doc P E lo"
  by (simp_all add: doc_def)

lemma same_mode_trans: "same_mode a b \<Longrightarrow> same_mode b c \<Longrightarrow> same_mode a c"
  by (simp add: same_mode_def)

lemma emit_entry_doc:
  assumes "doc P E lo" "le_text e = Some t"
  shows "\<exists>lo'. logger_emit_entry e lo = (0, lo') \<and> doc P (E @ [(Some a, t)]) lo' \<and> same_mode lo lo'"
  using assms
  by (auto simp: doc_def logger_emit_entry_def Let_def write_outputs_def logger_write_entry_line_def
      framed_snoc line_text_def redacted_def same_mode_def)

lemma direct_doc:
  assumes "doc P E lo"
  shows "doc P (E @ [(None, t)]) ((write_outputs t lo)\<lparr>lo_first_json := True\<rparr>) \<and>
    same_mode lo ((write_outputs t lo)\<lparr>lo_first_json := True\<rparr>)"
  using assms
  by (auto simp: doc_def write_outputs_def logger_write_entry_line_def framed_snoc line_text_def same_mode_def)

subsection \<open>A drain\<close>

definition lines_of :: "nat \<Rightarrow> log_entry list \<Rightarrow> written list" where
  "lines_of a es = map (\<lambda>e. (Some a, the (le_text e))) es"

lemma lines_of_Nil [simp]: "lines_of a [] = []"
  by (simp add: lines_of_def)

lemma only_lines_of: "only k (lines_of a es) = (if k = Some a then lines_of a es else [])"
  by (induction es) (auto simp: lines_of_def)

lemma deliver_doc:
  assumes "doc P E lo" "\<forall>e\<in>set es. le_text e \<noteq> None"
  shows "\<exists>lo'. deliver drain_adapter es (lo, n, False) = (length es, lo', n + length es, False) \<and>
    doc P (E @ lines_of a es) lo' \<and> same_mode lo lo'"
  using assms
proof (induction es arbitrary: E lo n)
  case Nil
  then show ?case by (simp add: lines_of_def same_mode_def)
next
  case (Cons e es)
  then obtain t where t: "le_text e = Some t" by auto
  obtain lo1 where 1: "logger_emit_entry e lo = (0, lo1)" "doc P (E @ [(Some a, t)]) lo1" "same_mode lo lo1"
    using emit_entry_doc [OF Cons.prems(1) t] by blast
  obtain lo' where "deliver drain_adapter es (lo1, n + 1, False) = (length es, lo', n + 1 + length es, False)"
    "doc P ((E @ [(Some a, t)]) @ lines_of a es) lo'" "same_mode lo1 lo'"
    using Cons.IH [OF 1(2), of "n + 1"] Cons.prems(2) by auto
  moreover have "drain_adapter e (lo, n, False) = (0, lo1, n + 1, False)" using 1(1) by (simp add: drain_adapter_def)
  ultimately show ?case using t same_mode_trans [OF 1(3)]
    by (intro exI [of _ lo']) (simp add: lines_of_def)
qed

lemma queue_texts: "lr_inv r \<Longrightarrow> \<forall>e\<in>set (lr_queue r). le_text e \<noteq> None"
  by (auto simp: lr_inv_def lr_queue_def)

lemma ring_walk_drain_doc:
  assumes "doc P E lo" "lr_inv r"
  shows "\<exists>r' lo'. ring_walk_drain r (lo, n, False) = (r', lo', n + lr_len r, False) \<and> lr_inv r' \<and> lr_queue r' = [] \<and>
    doc P (E @ lines_of a (lr_queue r)) lo' \<and> same_mode lo lo'"
proof -
  obtain lo' where d: "deliver drain_adapter (lr_queue r) (lo, n, False) = (length (lr_queue r), lo', n + length (lr_queue r), False)"
    "doc P (E @ lines_of a (lr_queue r)) lo'" "same_mode lo lo'"
    using deliver_doc [OF assms(1) queue_texts [OF assms(2)]] by blast
  show ?thesis using drain_deliver [OF assms(2) d(1)] d(2,3)
    by (auto simp: ring_walk_drain_def)
qed

lemma walk_loop_doc:
  assumes "doc P E lo" "distinct as" "\<forall>a\<in>set as. \<exists>r. rings a = Some r \<and> lr_inv r"
  shows "\<exists>rings' lo' n'. walk_loop rings ring_walk_drain as (lo, n, False) = (rings', lo', n', False) \<and>
    (\<forall>a. a \<notin> set as \<longrightarrow> rings' a = rings a) \<and>
    (\<forall>a\<in>set as. \<exists>r. rings' a = Some r \<and> lr_inv r \<and> lr_queue r = []) \<and>
    doc P (E @ concat (map (\<lambda>a. lines_of a (lr_queue (the (rings a)))) as)) lo' \<and> same_mode lo lo'"
  using assms
proof (induction as arbitrary: E lo n rings)
  case Nil
  then show ?case by (simp add: same_mode_def)
next
  case (Cons a as)
  then obtain r where r: "rings a = Some r" "lr_inv r" by auto
  obtain r' lo1 where 1: "ring_walk_drain r (lo, n, False) = (r', lo1, n + lr_len r, False)" "lr_inv r'"
      "lr_queue r' = []" "doc P (E @ lines_of a (lr_queue r)) lo1" "same_mode lo lo1"
    using ring_walk_drain_doc [OF Cons.prems(1) r(2)] by blast
  have live: "\<forall>b\<in>set as. \<exists>r. (rings(a \<mapsto> r')) b = Some r \<and> lr_inv r" using Cons.prems(2,3) by auto
  have same: "map (\<lambda>b. lines_of b (lr_queue (the ((rings(a \<mapsto> r')) b)))) as =
      map (\<lambda>b. lines_of b (lr_queue (the (rings b)))) as"
    using Cons.prems(2) by (intro map_cong) auto
  have "distinct as" using Cons.prems(2) by simp
  from Cons.IH [OF 1(4) this live, of "n + lr_len r"]
  obtain rings' lo' n' where 2: "walk_loop (rings(a \<mapsto> r')) ring_walk_drain as (lo1, n + lr_len r, False) = (rings', lo', n', False)"
    "\<forall>b. b \<notin> set as \<longrightarrow> rings' b = (rings(a \<mapsto> r')) b"
    "\<forall>b\<in>set as. \<exists>r. rings' b = Some r \<and> lr_inv r \<and> lr_queue r = []"
    "doc P ((E @ lines_of a (lr_queue r)) @ concat (map (\<lambda>b. lines_of b (lr_queue (the (rings b)))) as)) lo'"
    "same_mode lo1 lo'" unfolding same by blast
  have "rings' a = Some r'" using 2(2) Cons.prems(2) by simp
  then show ?case using 1 2 r(1) same_mode_trans [OF 1(5) 2(5)]
    by (intro exI [of _ rings'] exI [of _ lo'] exI [of _ n']) auto
qed

lemma only_concat_None: "only None (concat (map (\<lambda>a. lines_of a (f a)) as)) = []"
  by (induction as) (simp_all add: only_lines_of)

lemma only_concat_Some:
  "distinct as \<Longrightarrow> only (Some b) (concat (map (\<lambda>a. lines_of a (f a)) as)) = (if b \<in> set as then lines_of b (f b) else [])"
  by (induction as) (auto simp: only_lines_of)

text \<open>Every entry taken is a line written or still queued, in the order of its ring.\<close>

definition tracks :: "written list \<Rightarrow> written list \<Rightarrow> log_globals \<Rightarrow> bool" where
  "tracks A E g \<longleftrightarrow> only None A = only None E \<and>
     (\<forall>a. only (Some a) A = only (Some a) E @ lines_of a (queued g a))"

lemma drain_all_doc:
  assumes "doc P E lo" "lg_inv g" "tracks A E g" "retrace_log_flusher_drain_all lo g = (n, lo', g')"
  shows "\<exists>E'. doc P E' lo' \<and> lg_inv g' \<and> tracks A E' g' \<and> queued g' = (\<lambda>_. []) \<and> same_mode lo lo'"
proof -
  let ?new = "concat (map (\<lambda>a. lines_of a (lr_queue (the (lg_rings g a)))) (lg_nodes g))"
  note inv_g = assms(2) [unfolded lg_inv_pointwise]
  have live: "\<forall>a\<in>set (lg_nodes g). \<exists>r. lg_rings g a = Some r \<and> lr_inv r"
    using inv_g by auto
  have dist: "distinct (lg_nodes g)" using assms(2) by (simp add: lg_inv_def)
  obtain rings where g': "g' = g\<lparr>lg_rings := rings\<rparr>"
    and out: "\<forall>a. a \<notin> set (lg_nodes g) \<longrightarrow> rings a = lg_rings g a"
    and drained: "\<forall>a\<in>set (lg_nodes g). \<exists>r. rings a = Some r \<and> lr_inv r \<and> lr_queue r = []"
    and d: "doc P (E @ ?new) lo'" "same_mode lo lo'"
    using walk_loop_doc [OF assms(1) dist live, of 0] assms(4)
    by (auto simp: retrace_log_flusher_drain_all_def retrace_log_ring_walk_def)
  have none: "lg_rings g a = None" if "a \<notin> set (lg_nodes g)" for a
    using inv_g that by auto
  have point: "a \<in> set (lg_nodes g) \<longleftrightarrow> rings a \<noteq> None" "rings a = Some r \<longrightarrow> lr_inv r" for a r
    using drained out none by (cases "a \<in> set (lg_nodes g)"; force)+
  have inv: "lg_inv g'" using inv_g point by (simp add: lg_inv_pointwise g')
  have "queued g' a = []" for a
    using out drained none by (cases "a \<in> set (lg_nodes g)") (auto simp: g' queued_def)
  then have empty: "queued g' = (\<lambda>_. [])" by blast
  have "only (Some a) ?new = lines_of a (queued g a)" for a
    using only_concat_Some [OF dist] live none by (auto simp: queued_def lines_of_def)
  then have "tracks A (E @ ?new) g'"
    using assms(3) empty by (simp add: tracks_def only_concat_None)
  then show ?thesis using d inv empty by blast
qed

subsection \<open>A message\<close>

lemma push_queue:
  assumes "lr_inv r" "retrace_log_ring_push ok (Some r) m s ts txt = (rc, r1)"
  shows "\<exists>r'. r1 = Some r' \<and> lr_inv r' \<and>
    lines_of a (lr_queue r') = lines_of a (lr_queue r) @ (if rc = 0 then [(Some a, the txt)] else [])"
proof (cases "ok \<and> txt \<noteq> None")
  case False
  then show ?thesis using assms by (auto simp: retrace_log_ring_push_def split: option.splits)
next
  case True
  then obtain t where t: "ok" "txt = Some t" by auto
  let ?e = "\<lparr>ts_ms = ts, module = m, sev = s, reserved = 0, le_text = Some t\<rparr>"
  show ?thesis
  proof (cases "Suc (lr_len r) = lr_size r")
    case True
    then show ?thesis using assms t push_spec [OF assms(1), of m s ts t] by (auto simp: lines_of_def)
  next
    case False
    then have room: "Suc (lr_len r) < lr_size r" using lr_len_less [of r] by simp
    have "rc = 0" "r1 = Some (lr_put ?e r)" using assms(2) t push_spec [OF assms(1), of m s ts t] False by auto
    then show ?thesis using lr_put_spec [OF assms(1) room, of ?e] t(2) by (simp add: lines_of_def)
  qed
qed

lemma ring_get_dom:
  assumes "retrace_log_ring_get ring_at entries_ok node_ok tss_ok fresh tid g = (p, g')"
  shows "dom (lg_rings g') \<subseteq> dom (lg_rings g) \<union> set_option ring_at"
  using assms by (auto simp: retrace_log_ring_get_def registry_add_def Let_def simp del: of_nat_numeral
      split: option.splits if_splits)

text \<open>Serialising succeeds, and a granted array has the length asked for.\<close>

definition total_serializer :: "serializer \<Rightarrow> bool" where
  "total_serializer serialize \<longleftrightarrow> (\<forall>p v. serialize p v \<noteq> None)"

definition sized :: "(nat \<Rightarrow> log_entry list) \<Rightarrow> bool" where
  "sized fresh \<longleftrightarrow> (\<forall>n. length (fresh n) = n)"

definition fresh_call :: "log_call \<Rightarrow> log_globals \<Rightarrow> bool" where
  "fresh_call c g \<longleftrightarrow> lc_node_ok c \<and> set_option (lc_ring_at c) \<inter> dom (lg_rings g) = {}"

lemma log_to_ring_tracks:
  assumes "lg_inv g" "tracks A E g" "sized fresh" "fresh_call c g"
  shows "\<exists>ws g'. log_to_ring fresh c m sv txt lo g = Some (ws, lo, g') \<and> lg_inv g' \<and> tracks (A @ ws) E g' \<and>
    dom (lg_rings g') \<subseteq> dom (lg_rings g) \<union> set_option (lc_ring_at c)"
proof -
  obtain p g1 where get: "retrace_log_ring_get (lc_ring_at c) (lc_entries_ok c) True (lc_tss_ok c) fresh (lc_thread c) g = (p, g1)"
    by fastforce
  have node: "lc_node_ok c" using assms(4) by (simp add: fresh_call_def)
  have new: "lc_ring_at c \<noteq> None \<Longrightarrow> the (lc_ring_at c) \<notin> dom (lg_rings g)"
    using assms(4) by (auto simp: fresh_call_def)
  have len: "length (fresh n) = n" for n using assms(3) by (simp add: sized_def)
  note keeps = ring_get_keeps [OF assms(1) len new get]
  have dom: "dom (lg_rings g1) \<subseteq> dom (lg_rings g) \<union> set_option (lc_ring_at c)" by (rule ring_get_dom [OF get])
  have tr: "tracks A E g1" using assms(2) keeps by (simp add: tracks_def)
  show ?thesis
  proof (cases p)
    case None
    then show ?thesis using get node keeps tr dom by (simp add: log_to_ring_def)
  next
    case (Some a)
    then obtain r where r: "lg_rings g1 a = Some r" "lr_inv r" using keeps by (auto simp: lg_inv_pointwise)
    obtain rc r1 where p1: "retrace_log_ring_push (lc_copy_ok c) (Some r) (of_nat m) (of_nat sv) (ucast (lc_time c)) txt = (rc, r1)"
      by fastforce
    let ?ws = "if rc = 0 then [(Some a, the txt)] else []"
    obtain r' where r': "r1 = Some r'" "lr_inv r'" "lines_of a (lr_queue r') = lines_of a (lr_queue r) @ ?ws"
      using push_queue [OF r(2) p1] by blast
    let ?g = "g1\<lparr>lg_rings := (lg_rings g1)(a \<mapsto> r')\<rparr>"
    have "lg_inv ?g" using keeps r r' by (auto simp: lg_inv_pointwise)
    moreover have "tracks (A @ ?ws) E ?g"
      using tr r r'(3) by (auto simp: tracks_def queued_def)
    moreover have "dom (lg_rings ?g) \<subseteq> dom (lg_rings g) \<union> set_option (lc_ring_at c)" using dom r(1) by auto
    ultimately show ?thesis using get node Some r(1) p1 r'(1) by (simp add: log_to_ring_def)
  qed
qed

text \<open>
  What holds between the calls of a run, and what a call keeps.  Without a flusher only
  direct lines have been written.
\<close>

definition flushed :: "logger \<Rightarrow> written list \<Rightarrow> bool" where
  "flushed lo E \<longleftrightarrow> lo_flusher_running lo \<or> (\<forall>w\<in>set E. fst w = None)"

definition log_inv :: "cstr list \<Rightarrow> written list \<Rightarrow> logger \<Rightarrow> log_globals \<Rightarrow> bool" where
  "log_inv P A lo g \<longleftrightarrow> (\<exists>E. doc P E lo \<and> tracks A E g \<and> flushed lo E) \<and> lg_inv g \<and>
     (lo_flusher_running lo \<longrightarrow> lo_flusher_spawned lo \<and> lo_ring_ready lo)"

definition call_keeps :: "cstr list \<Rightarrow> written list \<Rightarrow> nat set \<Rightarrow> log_globals \<Rightarrow> logged option \<Rightarrow> bool" where
  "call_keeps P A ats g res \<longleftrightarrow> (\<exists>ws lo' g'. res = Some (ws, lo', g') \<and> log_inv P (A @ ws) lo' g' \<and>
     dom (lg_rings g') \<subseteq> dom (lg_rings g) \<union> ats)"

lemma log_to_ring_keeps:
  assumes "log_inv P A lo g" "sized fresh" "fresh_call c g"
  shows "call_keeps P A (set_option (lc_ring_at c)) g (log_to_ring fresh c m sv txt lo g)"
  using assms(1) log_to_ring_tracks [OF _ _ assms(2,3)] unfolding log_inv_def call_keeps_def by metis

lemma log_direct_keeps:
  assumes "log_inv P A lo g" "txt \<noteq> None"
  shows "call_keeps P A ats g (log_direct txt lo g)"
proof -
  obtain E where E: "doc P E lo" "tracks A E g" "flushed lo E" using assms(1) by (auto simp: log_inv_def)
  obtain t where t: "txt = Some t" using assms(2) by auto
  have "tracks (A @ [(None, t)]) (E @ [(None, t)]) g" using E(2) by (simp add: tracks_def)
  moreover define lo' where "lo' = (write_outputs t lo)\<lparr>lo_first_json := True\<rparr>"
  moreover have "doc P (E @ [(None, t)]) lo'" "same_mode lo lo'" using direct_doc [OF E(1)] by (auto simp: lo'_def)
  moreover from this E(3) have "flushed lo' (E @ [(None, t)])" by (auto simp: flushed_def same_mode_def)
  ultimately have "log_inv P (A @ [(None, t)]) lo' g"
    using assms(1) unfolding log_inv_def same_mode_def by metis
  moreover have "lo_stdout_ena lo" using E(1) by (simp add: doc_def)
  ultimately show ?thesis by (auto simp: call_keeps_def log_direct_def t lo'_def)
qed

lemma if_chain:
  "(if a then x else if b then x else if c then x else if d then x else y) = (if a \<or> b \<or> c \<or> d then x else y)"
  by simp

lemma log_json_with_keeps:
  assumes inv: "log_inv P A lo g" and len: "sized fresh" and ser: "total_serializer serialize"
    and range: "m < length modules_ena" "sv < length severities_ena"
    and ens: "lo_ring_ready lo \<Longrightarrow> call_keeps P A ats g (ensure lo g)"
    and new: "lc_node_ok c" "set_option (lc_ring_at c) \<inter> (dom (lg_rings g) \<union> ats) = {}"
  shows "call_keeps P A (ats \<union> set_option (lc_ring_at c)) g (log_json_with ensure serialize fresh c m sv msg lo g)"
proof -
  have idle: "call_keeps P A bs g (Some ([], lo, g))" for bs using inv by (auto simp: call_keeps_def)
  have ring: "call_keeps P A (ats \<union> set_option (lc_ring_at c)) g
      (case ensure lo g of None \<Rightarrow> None | Some (ws, lo1, g1) \<Rightarrow>
         map_option (\<lambda>(ws2, st). (ws @ ws2, st)) (log_to_ring fresh c m sv tx lo1 g1))"
    if ready: "lo_ring_ready lo" for tx
  proof -
    obtain ws lo1 g1 where 1: "ensure lo g = Some (ws, lo1, g1)" "log_inv P (A @ ws) lo1 g1"
      "dom (lg_rings g1) \<subseteq> dom (lg_rings g) \<union> ats" using ens [OF ready] by (auto simp: call_keeps_def)
    have "fresh_call c g1" using new 1(3) unfolding fresh_call_def by blast
    from log_to_ring_keeps [OF 1(2) len this, of m sv tx]
    obtain ws2 lo2 g2 where 2: "log_to_ring fresh c m sv tx lo1 g1 = Some (ws2, lo2, g2)"
      "log_inv P ((A @ ws) @ ws2) lo2 g2" "dom (lg_rings g2) \<subseteq> dom (lg_rings g1) \<union> set_option (lc_ring_at c)"
      by (auto simp: call_keeps_def)
    have "dom (lg_rings g2) \<subseteq> dom (lg_rings g) \<union> (ats \<union> set_option (lc_ring_at c))" using 1(3) 2(3) by blast
    then show ?thesis using 1(1) 2(1,2) by (simp add: call_keeps_def)
  qed
  obtain tx where tx: "serialize (\<not> lo_jsonl lo) (log_value c m sv msg) = Some tx"
    using ser by (auto simp: total_serializer_def)
  have direct: "call_keeps P A bs g (log_direct (Some tx) lo g)" for bs by (rule log_direct_keeps [OF inv]) simp
  have in_range: "\<not> (length modules_ena \<le> m \<or> length severities_ena \<le> sv)" using range by simp
  define gone where "gone \<longleftrightarrow> lc_disabled c \<or> \<not> lo_active lo \<or> \<not> (lo_ena lo \<and> (lo_stdout_ena lo \<or> lo_logfile lo \<noteq> None)) \<or>
    \<not> (modules_ena ! m \<and> severities_ena ! sv)"
  define to_ring where "to_ring \<longleftrightarrow> lo_ring_ready lo \<and> lo_ring_enabled lo \<and> lc_inited c"
  have "log_json_with ensure serialize fresh c m sv msg lo g =
      (if gone then Some ([], lo, g)
       else if to_ring then
         (case ensure lo g of None \<Rightarrow> None | Some (ws, lo1, g1) \<Rightarrow>
            map_option (\<lambda>(ws2, st). (ws @ ws2, st)) (log_to_ring fresh c m sv (Some tx) lo1 g1))
       else log_direct (Some tx) lo g)"
    unfolding log_json_with_def Let_def tx if_not_P [OF in_range] gone_def to_ring_def if_chain ..
  then show ?thesis using idle direct ring [of "Some tx"] by (cases gone; cases to_ring) (simp_all add: to_ring_def)
qed

lemma log_err_nested_keeps:
  assumes inv: "log_inv P A lo g" and len: "sized fresh" and ser: "total_serializer serialize"
    and new: "fresh_call c g"
  shows "call_keeps P A (set_option (lc_ring_at c)) g (log_err_nested serialize fresh c tx lo g)"
proof -
  have idle: "call_keeps P A {} g (Some ([], lo, g))" using inv by (auto simp: call_keeps_def)
  have c: "lc_node_ok c" "set_option (lc_ring_at c) \<inter> (dom (lg_rings g) \<union> {}) = {}"
    using new by (simp_all add: fresh_call_def)
  have "call_keeps P A ({} \<union> set_option (lc_ring_at c)) g (log_err_nested serialize fresh c tx lo g)"
    unfolding log_err_nested_def
    by (rule log_json_with_keeps [OF inv len ser _ _ _ c])
      (simp_all add: idle FUNCS_def SEVERITY_ERROR_def modules_ena_def severities_ena_def)
  then show ?thesis by simp
qed

definition fresh_calls :: "log_call \<Rightarrow> log_call \<Rightarrow> log_call \<Rightarrow> log_globals \<Rightarrow> bool" where
  "fresh_calls c1 c2 c g \<longleftrightarrow> fresh_call c1 g \<and> fresh_call c2 g \<and> fresh_call c g \<and>
     set_option (lc_ring_at c1) \<inter> set_option (lc_ring_at c2) = {} \<and>
     set_option (lc_ring_at c) \<inter> (set_option (lc_ring_at c1) \<union> set_option (lc_ring_at c2)) = {}"

lemma ensure_flusher_keeps:
  assumes inv: "log_inv P A lo g" and len: "sized fresh" and ser: "total_serializer serialize"
    and new: "fresh_calls c1 c2 c g" and ready: "lo_ring_ready lo"
  shows "call_keeps P A (set_option (lc_ring_at c1) \<union> set_option (lc_ring_at c2)) g
    (ensure_flusher_running serialize fresh create_rc show_rc c1 c2 lo g)"
proof (cases "lo_flusher_spawned lo")
  case True
  then show ?thesis using inv by (auto simp: call_keeps_def ensure_flusher_running_def)
next
  case False
  obtain err lo1 where init: "retrace_log_flusher_init create_rc show_rc (lo\<lparr>lo_flusher_spawned := True\<rparr>) = (err, lo1)"
    by fastforce
  then have inv1: "log_inv P A lo1 g"
    using inv ready by (auto simp: retrace_log_flusher_init_def log_inv_def flushed_def split: if_splits)
  show ?thesis
  proof (cases err)
    case None
    then show ?thesis using False init inv1 by (auto simp: call_keeps_def ensure_flusher_running_def)
  next
    case (Some e)
    have "fresh_call c1 g" using new by (simp add: fresh_calls_def)
    from log_err_nested_keeps [OF inv1 len ser this, of e]
    obtain ws lo2 g2 where 2: "log_err_nested serialize fresh c1 e lo1 g = Some (ws, lo2, g2)" "log_inv P (A @ ws) lo2 g2"
      "dom (lg_rings g2) \<subseteq> dom (lg_rings g) \<union> set_option (lc_ring_at c1)" by (auto simp: call_keeps_def)
    have "lc_node_ok c2" "set_option (lc_ring_at c2) \<inter> (dom (lg_rings g) \<union> set_option (lc_ring_at c1)) = {}"
      using new by (simp_all add: fresh_calls_def fresh_call_def Int_Un_distrib Int_commute)
    then have "fresh_call c2 g2" using 2(3) unfolding fresh_call_def by blast
    from log_err_nested_keeps [OF 2(2) len ser this, of "''logger: log_flusher_init failed''"]
    obtain ws2 lo3 g3 where 3: "log_err_nested serialize fresh c2 ''logger: log_flusher_init failed'' lo2 g2 = Some (ws2, lo3, g3)"
      "log_inv P ((A @ ws) @ ws2) lo3 g3" "dom (lg_rings g3) \<subseteq> dom (lg_rings g2) \<union> set_option (lc_ring_at c2)"
      by (auto simp: call_keeps_def)
    have "dom (lg_rings g3) \<subseteq> dom (lg_rings g) \<union> (set_option (lc_ring_at c1) \<union> set_option (lc_ring_at c2))"
      using 2(3) 3(3) by blast
    then show ?thesis using False init Some 2(1) 3(1,2) by (simp add: call_keeps_def ensure_flusher_running_def)
  qed
qed

lemma log_json_keeps:
  assumes inv: "log_inv P A lo g" and len: "sized fresh" and ser: "total_serializer serialize"
    and range: "m < length modules_ena" "sv < length severities_ena" and new: "fresh_calls c1 c2 c g"
  shows "\<exists>ws lo' g'. retrace_logger_log_json serialize fresh create_rc show_rc c1 c2 c m sv msg lo g = Some (ws, lo', g') \<and>
    log_inv P (A @ ws) lo' g'"
proof -
  have c: "lc_node_ok c"
    "set_option (lc_ring_at c) \<inter> (dom (lg_rings g) \<union> (set_option (lc_ring_at c1) \<union> set_option (lc_ring_at c2))) = {}"
    using new unfolding fresh_calls_def fresh_call_def by blast+
  have "call_keeps P A (set_option (lc_ring_at c1) \<union> set_option (lc_ring_at c2) \<union> set_option (lc_ring_at c)) g
      (log_json_with (ensure_flusher_running serialize fresh create_rc show_rc c1 c2) serialize fresh c m sv msg lo g)"
    by (rule log_json_with_keeps [OF inv len ser range _ c]) (rule ensure_flusher_keeps [OF inv len ser new])
  then show ?thesis unfolding retrace_logger_log_json_def call_keeps_def by blast
qed

subsection \<open>A run\<close>

text \<open>
  The steps of a process that writes the array document to its standard output: messages
  logged by its threads, passes of the flusher, registrations of sinks, and exits of
  threads.  The redaction patterns are those in force during the run.
\<close>

definition no_globals :: log_globals where
  "no_globals = \<lparr>lg_rings = Map.empty, lg_nodes = [], lg_tss = Map.empty, lg_cap = 0, lg_total_dropped = 0\<rparr>"

inductive logger_run ::
    "serializer \<Rightarrow> (nat \<Rightarrow> log_entry list) \<Rightarrow> (int \<Rightarrow> cstr) \<Rightarrow> cstr list \<Rightarrow> written list \<Rightarrow> logger \<Rightarrow> log_globals \<Rightarrow> bool"
  for serialize fresh show_rc P where
  start: "retrace_logger_init getenv atoi fopen_ok mutex_rc tss_rc (initial_logger\<lparr>lo_patterns := P\<rparr>) no_globals = (lo, g) \<Longrightarrow>
    lo_ena lo \<Longrightarrow> lo_stdout_ena lo \<Longrightarrow> \<not> lo_jsonl lo \<Longrightarrow> logger_run serialize fresh show_rc P [] lo g"
| log: "logger_run serialize fresh show_rc P A lo g \<Longrightarrow> fresh_calls c1 c2 c g \<Longrightarrow>
    m < length modules_ena \<Longrightarrow> sv < length severities_ena \<Longrightarrow>
    retrace_logger_log_json serialize fresh create_rc show_rc c1 c2 c m sv msg lo g = Some (ws, lo', g') \<Longrightarrow>
    logger_run serialize fresh show_rc P (A @ ws) lo' g'"
| flush: "logger_run serialize fresh show_rc P A lo g \<Longrightarrow> lo_flusher_running lo \<Longrightarrow>
    retrace_log_flusher_drain_all lo g = (n, lo', g') \<Longrightarrow> logger_run serialize fresh show_rc P A lo' g'"
| sink: "logger_run serialize fresh show_rc P A lo g \<Longrightarrow> retrace_log_sink_register has_fn lo = (i, lo') \<Longrightarrow>
    logger_run serialize fresh show_rc P A lo' g"
| exit: "logger_run serialize fresh show_rc P A lo g \<Longrightarrow> logger_run serialize fresh show_rc P A lo (ring_key_destructor tid g)"

lemma init_ring_keeps:
  assumes "logger_init_ring getenv atoi mutex_rc tss_rc lo no_globals = (lo', g)"
  shows "lo_stdout lo' = lo_stdout lo" "lo_first_json lo' = lo_first_json lo" "lo_ena lo' = lo_ena lo"
    "lo_stdout_ena lo' = lo_stdout_ena lo" "lo_jsonl lo' = lo_jsonl lo" "lo_patterns lo' = lo_patterns lo"
    "lo_flusher_running lo' = lo_flusher_running lo" "lg_rings g = Map.empty" "lg_nodes g = []" "lg_tss g = Map.empty"
  using assms
  by (auto simp: logger_init_ring_def retrace_log_ring_init_def no_globals_def Let_def split: if_splits)

lemma init_inv:
  assumes init: "retrace_logger_init getenv atoi fopen_ok mutex_rc tss_rc (initial_logger\<lparr>lo_patterns := P\<rparr>) no_globals = (lo, g)"
    and conf: "lo_ena lo" "lo_stdout_ena lo" "\<not> lo_jsonl lo"
  shows "log_inv P [] lo g"
proof -
  define lo1 where "lo1 = logger_read_env getenv atoi fopen_ok (initial_logger\<lparr>lo_patterns := P\<rparr>)"
  have lo1: "lo_stdout lo1 = []" "\<not> lo_first_json lo1" "lo_patterns lo1 = P" "\<not> lo_flusher_running lo1"
    by (simp_all add: lo1_def logger_read_env_def initial_logger_def)
  define on where "on \<longleftrightarrow> lo_ena lo1 \<and> (lo_stdout_ena lo1 \<or> lo_logfile lo1 \<noteq> None)"
  define lo2 where "lo2 = (if lo_jsonl lo1 then lo1 else write_framing (''['' @ [CHR 0x0A]) lo1)"
  let ?r = "if on then logger_init_ring getenv atoi mutex_rc tss_rc lo2 no_globals else (lo1, no_globals)"
  have "(case ?r of (lo2, g2) \<Rightarrow> (lo2\<lparr>lo_active := True\<rparr>, g2)) = (lo, g)"
    using init unfolding retrace_logger_init_def Let_def lo1_def [symmetric] on_def lo2_def .
  then obtain lo3 where lo3: "?r = (lo3, g)" "lo = lo3\<lparr>lo_active := True\<rparr>" by (cases ?r) simp
  have on: "on"
    using lo3 conf by (cases on) (auto simp: on_def)
  note ring = init_ring_keeps [OF lo3(1) [unfolded if_P [OF on]]]
  have flags: "lo_stdout_ena lo2 = lo_stdout_ena lo1" "lo_jsonl lo2 = lo_jsonl lo1" "lo_ena lo2 = lo_ena lo1"
    "lo_patterns lo2 = P" "\<not> lo_first_json lo2" "\<not> lo_flusher_running lo2"
    using lo1 by (simp_all add: lo2_def write_framing_def)
  have "lo_stdout lo2 = ''['' @ [CHR 0x0A]"
    using conf ring flags lo3(2) lo1(1) by (simp add: lo2_def write_framing_def)
  then have "doc P [] lo" "\<not> lo_flusher_running lo" using conf ring flags lo3(2) by (simp_all add: doc_def)
  moreover have "lg_inv g" "tracks [] [] g" "flushed lo []"
    using ring by (simp_all add: lg_inv_def tracks_def queued_def flushed_def)
  ultimately show ?thesis unfolding log_inv_def by blast
qed

lemma drain_all_inv:
  assumes "log_inv P A lo g" "lo_flusher_running lo" "retrace_log_flusher_drain_all lo g = (n, lo', g')"
  shows "log_inv P A lo' g' \<and> (\<exists>E. doc P E lo' \<and> (\<forall>k. only k E = only k A))"
proof -
  obtain E where "doc P E lo" "lg_inv g" "tracks A E g" using assms(1) by (auto simp: log_inv_def)
  from drain_all_doc [OF this assms(3)]
  obtain E' where E': "doc P E' lo'" "lg_inv g'" "tracks A E' g'" "queued g' = (\<lambda>_. [])" "same_mode lo lo'" by blast
  then have "only k E' = only k A" for k by (cases k) (simp_all add: tracks_def)
  moreover have "flushed lo' E'" using E'(5) assms(2) by (simp add: flushed_def same_mode_def)
  ultimately show ?thesis using E' assms(1,2) unfolding log_inv_def same_mode_def by metis
qed

lemma sink_register_inv:
  assumes "log_inv P A lo g" "retrace_log_sink_register has_fn lo = (i, lo')"
  shows "log_inv P A lo' g"
  using assms by (auto simp: log_inv_def retrace_log_sink_register_def Let_def doc_def flushed_def split: if_splits)

lemma key_destructor_inv:
  assumes "log_inv P A lo g"
  shows "log_inv P A lo (ring_key_destructor tid g)"
  using assms by (auto simp: log_inv_def ring_key_destructor_def lg_inv_def tracks_def queued_def ran_def)

lemma logger_run_inv:
  assumes "logger_run serialize fresh show_rc P A lo g" "sized fresh" "total_serializer serialize"
  shows "log_inv P A lo g"
  using assms
proof (induction rule: logger_run.induct)
  case (log A lo g c1 c2 c m sv create_rc msg ws lo' g')
  then show ?case
    using log_json_keeps [of P A lo g fresh serialize m sv c1 c2 c create_rc show_rc msg] by simp
qed (blast intro: init_inv drain_all_inv [THEN conjunct1] sink_register_inv key_destructor_inv)+

lemma closing_frame:
  assumes "doc P E lo"
  shows "lo_stdout (write_framing ('']'' @ [CHR 0x0A]) lo) =
    ''['' @ [CHR 0x0A] @ framed False (map (line_text P) E) @ '']'' @ [CHR 0x0A]"
  using assms by (simp add: write_framing_def doc_def)

lemma deinit_doc:
  assumes inv: "log_inv P A lo g" and de: "retrace_logger_deinit lo g = (lo', g')"
  shows "\<exists>E. lo_stdout lo' = ''['' @ [CHR 0x0A] @ framed False (map (line_text P) E) @ '']'' @ [CHR 0x0A] \<and>
    (if lo_flusher_running lo then \<forall>k. only k E = only k A else E = only None A)"
proof -
  define lo1 where "lo1 = lo\<lparr>lo_active := False, lo_ring_ready := False\<rparr>"
  obtain E where E: "doc P E lo" "lg_inv g" "tracks A E g" "flushed lo E" using inv by (auto simp: log_inv_def)
  have d1: "doc P E lo1" using E(1) by (simp add: lo1_def doc_def)
  show ?thesis
  proof (cases "lo_flusher_running lo")
    case True
    then have on: "lo_ring_ready lo" "lo_flusher_spawned lo1" "lo_flusher_running lo1"
      using inv by (simp_all add: log_inv_def lo1_def)
    obtain n lo2 g2 where d: "retrace_log_flusher_drain_all lo1 g = (n, lo2, g2)" by (metis prod_cases3)
    from drain_all_doc [OF d1 E(2,3) d]
    obtain E' where E': "doc P E' lo2" "tracks A E' g2" "queued g2 = (\<lambda>_. [])" by blast
    then have all: "only k E' = only k A" for k by (cases k) (simp_all add: tracks_def)
    have "lo' = write_framing ('']'' @ [CHR 0x0A]) (lo2\<lparr>lo_flusher_running := False\<rparr>)"
      using de on d E'(1) by (auto simp: retrace_logger_deinit_def retrace_log_flusher_stop_def Let_def doc_def lo1_def [symmetric])
    then show ?thesis using closing_frame [of P E' "lo2\<lparr>lo_flusher_running := False\<rparr>"] E'(1) all True
      by (intro exI [of _ E']) simp
  next
    case False
    then have "\<not> lo_flusher_running lo1" by (simp add: lo1_def)
    then have "lo' = write_framing ('']'' @ [CHR 0x0A]) lo1"
      using de d1 by (auto simp: retrace_logger_deinit_def retrace_log_flusher_stop_def Let_def doc_def lo1_def [symmetric]
          split: if_splits)
    moreover have "E = only None A" using False E(3,4) by (auto simp: flushed_def tracks_def only_def filter_id_conv)
    ultimately show ?thesis using closing_frame [OF d1] False by (intro exI [of _ E]) simp
  qed
qed

subsection \<open>A run of one message\<close>

definition demo_getenv :: "cstr \<Rightarrow> cstr option" where
  "demo_getenv name = (if name = ''RETRACE_LOGGER_RING_CAP'' then Some ''64'' else None)"

definition demo_text :: cstr where "demo_text = [CHR 0x5B, CHR 0x22] @ ''key=1'' @ [CHR 0x22, CHR 0x5D]"

definition demo_serialize :: serializer where "demo_serialize pretty v = Some demo_text"

definition demo_fresh :: "nat \<Rightarrow> log_entry list" where
  "demo_fresh n = replicate n \<lparr>ts_ms = 0, module = 0, sev = 0, reserved = 0, le_text = None\<rparr>"

definition demo_call :: "nat \<Rightarrow> log_call" where
  "demo_call a = \<lparr>lc_disabled = False, lc_inited = True, lc_time = 0, lc_pid = 1, lc_tid = 7, lc_thread = 7,
     lc_ring_at = Some a, lc_entries_ok = True, lc_node_ok = True, lc_tss_ok = True, lc_copy_ok = True\<rparr>"

definition demo_start :: "logger \<times> log_globals" where
  "demo_start = retrace_logger_init demo_getenv (\<lambda>_. 64) False 0 0 (initial_logger\<lparr>lo_patterns := [''key=*'']\<rparr>) no_globals"

lemma demo_start_eq:
  "fst demo_start = initial_logger\<lparr>lo_stdout := ''['' @ [CHR 0x0A], lo_ring_enabled := True, lo_ring_ready := True,
     lo_active := True, lo_patterns := [''key=*'']\<rparr>"
  "snd demo_start = no_globals\<lparr>lg_cap := 64\<rparr>"
  by (simp_all add: demo_start_def retrace_logger_init_def logger_read_env_def logger_init_ring_def write_framing_def
      env_flag_def demo_getenv_def initial_logger_def retrace_log_ring_init_def ring_configured_cap_def no_globals_def
      LOG_RING_CAP_MIN_def LOG_RING_CAP_MAX_def logger_parse_func_filter_def)

lemma demo_assumptions: "sized demo_fresh" "total_serializer demo_serialize"
  "fresh_calls (demo_call 2) (demo_call 3) (demo_call 1) (snd demo_start)"
  by (simp_all add: sized_def demo_fresh_def total_serializer_def demo_serialize_def fresh_calls_def fresh_call_def
      demo_call_def demo_start_eq no_globals_def)

lemma demo_start_run: "logger_run demo_serialize demo_fresh show_rc [''key=*''] [] (fst demo_start) (snd demo_start)"
proof (rule logger_run.start)
  show "retrace_logger_init demo_getenv (\<lambda>_. 64) False 0 0 (initial_logger\<lparr>lo_patterns := [''key=*'']\<rparr>) no_globals =
      (fst demo_start, snd demo_start)" by (simp add: demo_start_def)
qed (simp_all add: demo_start_eq initial_logger_def)

lemmas demo_eval = retrace_logger_log_json_def log_json_with_def ensure_flusher_running_def retrace_log_flusher_init_def
  log_err_nested_def log_to_ring_def demo_start_eq initial_logger_def demo_call_def demo_serialize_def modules_ena_def
  severities_ena_def retrace_log_ring_get_def no_globals_def ring_alloc_def registry_add_def retrace_log_ring_push_def
  FUNCS_def SEVERITY_ERROR_def Let_def

lemma demo_log:
  "\<exists>lo g. retrace_logger_log_json demo_serialize demo_fresh 0 show_rc (demo_call 2) (demo_call 3) (demo_call 1) 5 1 JSONNull
      (fst demo_start) (snd demo_start) = Some ([(Some 1, demo_text)], lo, g) \<and> lo_flusher_running lo"
  by (simp add: demo_eval)

lemma demo_log_failed:
  "\<exists>lo g. retrace_logger_log_json demo_serialize demo_fresh 1 show_rc (demo_call 2) (demo_call 3) (demo_call 1) 5 1 JSONNull
      (fst demo_start) (snd demo_start) =
        Some ([(Some 2, demo_text), (Some 2, demo_text), (Some 2, demo_text)], lo, g) \<and> \<not> lo_flusher_running lo"
  by (simp add: demo_eval)

lemma demo_step:
  assumes "retrace_logger_log_json demo_serialize demo_fresh rc show_rc (demo_call 2) (demo_call 3) (demo_call 1) 5 1 JSONNull
      (fst demo_start) (snd demo_start) = Some (ws, lo, g)"
  shows "logger_run demo_serialize demo_fresh show_rc [''key=*''] ws lo g"
  using logger_run.log [OF demo_start_run demo_assumptions(3) _ _ assms] by (simp add: modules_ena_def severities_ena_def)


lemma demo_redacted: "line_text [''key=*''] (Some 1, demo_text) = [CHR 0x5B, CHR 0x22] @ ''***'' @ [CHR 0x22, CHR 0x5D]"
  by code_simp

lemma demo_json_line: "json_line strtod (JSONArray [JSONString ''***'']) (line_text [''key=*''] (Some 1, demo_text))"
proof -
  have "readable strtod (\<lambda>_. []) 1 (JSONArray [JSONString ''***''])" by (simp add: MAX_NESTING_def)
  from readable_writes [OF this, of False] have "reads_value strtod 1 (JSONArray [JSONString ''***'']) ([CHR 0x5B, CHR 0x22] @ ''***'' @ [CHR 0x22, CHR 0x5D])"
    by (simp add: writes_def json_serialize_string_def escape_char_def byte_def eol_def indent_def append_indent_def)
  then show ?thesis unfolding demo_redacted by (simp add: json_line_def)
qed

lemma only_single: "(\<And>k. only k E = only k [w]) \<Longrightarrow> E = [w]"
proof -
  assume *: "\<And>k. only k E = only k [w]"
  have "fst x = fst w" if "x \<in> set E" for x
  proof (rule ccontr)
    assume "fst x \<noteq> fst w"
    then have "x \<notin> set (only (fst x) E)" using * [of "fst x"] by simp
    then show False using that by (simp add: only_def)
  qed
  then have "only (fst w) E = E" by (auto simp: only_def)
  then show ?thesis using * [of "fst w"] by simp
qed


text \<open>
  C18. Logging always gets through.  In every state of a run a message of a valid module and
  severity, by a thread that gets a node for its ring, is taken or dropped in a call that returns, and when the flusher runs its next
  pass returns too, with every entry taken so far, by whatever thread, among the lines of
  the document.
\<close>

theorem logger_live:
  assumes run: "logger_run serialize fresh show_rc P A lo g" and len: "sized fresh" and ser: "total_serializer serialize"
    and msg: "m < length modules_ena" "sv < length severities_ena" "fresh_calls c1 c2 c g"
  shows "\<exists>ws lo' g'. retrace_logger_log_json serialize fresh create_rc show_rc c1 c2 c m sv msg lo g = Some (ws, lo', g') \<and>
    logger_run serialize fresh show_rc P (A @ ws) lo' g' \<and>
    (lo_flusher_running lo' \<longrightarrow> (\<exists>n lo'' g'' E. retrace_log_flusher_drain_all lo' g' = (n, lo'', g'') \<and>
       lo_stdout lo'' = ''['' @ [CHR 0x0A] @ framed False (map (line_text P) E) \<and> (\<forall>k. only k E = only k (A @ ws))))"
proof -
  obtain ws lo' g' where 1: "retrace_logger_log_json serialize fresh create_rc show_rc c1 c2 c m sv msg lo g = Some (ws, lo', g')"
    "log_inv P (A @ ws) lo' g'"
    using log_json_keeps [OF logger_run_inv [OF run len ser] len ser msg] by blast
  obtain n lo'' g'' where d: "retrace_log_flusher_drain_all lo' g' = (n, lo'', g'')" by (metis prod_cases3)
  have "\<exists>E. doc P E lo'' \<and> (\<forall>k. only k E = only k (A @ ws))" if "lo_flusher_running lo'"
    using drain_all_inv [OF 1(2) that d] by blast
  then show ?thesis using 1(1) d logger_run.log [OF run msg(3,1,2) 1(1)] unfolding doc_def by blast
qed

theorem logger_live_witness:
  "\<exists>lo' g' n lo'' g'' E. retrace_logger_log_json demo_serialize demo_fresh 0 (\<lambda>_. ''1'') (demo_call 2) (demo_call 3) (demo_call 1)
      5 1 JSONNull (fst demo_start) (snd demo_start) = Some ([(Some 1, demo_text)], lo', g') \<and>
    retrace_log_flusher_drain_all lo' g' = (n, lo'', g'') \<and>
    lo_stdout lo'' = ''['' @ [CHR 0x0A] @ framed False (map (line_text [''key=*'']) E) \<and>
    (\<forall>k. only k E = only k [(Some 1, demo_text)])"
proof -
  obtain lo g where 1: "retrace_logger_log_json demo_serialize demo_fresh 0 (\<lambda>_. ''1'') (demo_call 2) (demo_call 3) (demo_call 1)
      5 1 JSONNull (fst demo_start) (snd demo_start) = Some ([(Some 1, demo_text)], lo, g)" "lo_flusher_running lo"
    using demo_log by blast
  have range: "5 < length modules_ena" "1 < length severities_ena" by (simp_all add: modules_ena_def severities_ena_def)
  show ?thesis
    using logger_live [OF demo_start_run demo_assumptions(1,2) range demo_assumptions(3), of 0 "\<lambda>_. ''1''" JSONNull] 1
    by (auto simp del: only_simps)
qed

text \<open>
  C39. When the flusher thread could not be created (or no message has reached a ring), every
  entry the rings took is lost at shutdown: the closed document has only the lines that
  were written directly, although each push reported success.
\<close>

theorem logger_without_flusher:
  assumes "logger_run serialize fresh show_rc P A lo g" "sized fresh" "total_serializer serialize"
    and "\<not> lo_flusher_running lo" "retrace_logger_deinit lo g = (lo', g')"
  shows "lo_stdout lo' = ''['' @ [CHR 0x0A] @ framed False (map snd (only None A)) @ '']'' @ [CHR 0x0A]"
proof -
  have "map (line_text P) (only None A) = map snd (only None A)"
    by (induction A) (simp_all add: line_text_def)
  then show ?thesis using deinit_doc [OF logger_run_inv [OF assms(1-3)] assms(5)] assms(4)
    by (simp del: map_eq_conv)
qed

theorem logger_without_flusher_witness:
  "\<exists>lo g lo' g'. logger_run demo_serialize demo_fresh (\<lambda>_. ''1'') [''key=*'']
      [(Some 2, demo_text), (Some 2, demo_text), (Some 2, demo_text)] lo g \<and>
    retrace_logger_deinit lo g = (lo', g') \<and> lo_stdout lo' = ''['' @ [CHR 0x0A] @ '']'' @ [CHR 0x0A]"
proof -
  obtain lo g where 1: "retrace_logger_log_json demo_serialize demo_fresh 1 (\<lambda>_. ''1'') (demo_call 2) (demo_call 3) (demo_call 1)
      5 1 JSONNull (fst demo_start) (snd demo_start) =
        Some ([(Some 2, demo_text), (Some 2, demo_text), (Some 2, demo_text)], lo, g)" "\<not> lo_flusher_running lo"
    using demo_log_failed by blast
  obtain lo' g' where 2: "retrace_logger_deinit lo g = (lo', g')" by fastforce
  show ?thesis using logger_without_flusher [OF demo_step [OF 1(1)] demo_assumptions(1,2) 1(2) 2] demo_step [OF 1(1)] 2 by auto
qed

end
