(* ===== verification/Json_Build.thy ===== *)
theory Json_Build
  imports Json_Parse "HOL-Library.Multiset"
begin

section \<open>Building, copying and comparing JSON trees (\<open>src/src/config/json/parson.c\<close>)\<close>

text \<open>
  The operations that change a tree, with the tree returned updated, and those that walk
  two trees.  A status is a boolean, true for success, and allocations succeed; a value
  given to a setter is not yet part of a tree.
\<close>

subsection \<open>Values\<close>

definition json_value_init_string :: "cstr option \<Rightarrow> json option" where
  "json_value_init_string string = (case string of
     None \<Rightarrow> None | Some s \<Rightarrow> if \<not> is_valid_utf8 s then None else Some (JSONString s))"

definition json_value_init_boolean :: "int \<Rightarrow> json" where
  "json_value_init_boolean b = JSONBoolean (b \<noteq> 0)"

datatype json_value_type = TError | TNull | TString | TNumber | TObject | TArray | TBoolean

fun json_value_get_type :: "json option \<Rightarrow> json_value_type" where
  "json_value_get_type None = TError"
| "json_value_get_type (Some JSONNull) = TNull"
| "json_value_get_type (Some (JSONString _)) = TString"
| "json_value_get_type (Some (JSONNumber _)) = TNumber"
| "json_value_get_type (Some (JSONObject _)) = TObject"
| "json_value_get_type (Some (JSONArray _)) = TArray"
| "json_value_get_type (Some (JSONBoolean _)) = TBoolean"

subsection \<open>Arrays\<close>

definition json_array_append_value :: "json_array \<Rightarrow> json option \<Rightarrow> bool \<times> json_array" where
  "json_array_append_value xs value = (case value of None \<Rightarrow> (False, xs) | Some v \<Rightarrow> (True, xs @ [v]))"

definition json_array_append_string :: "json_array \<Rightarrow> cstr option \<Rightarrow> bool \<times> json_array" where
  "json_array_append_string xs s = json_array_append_value xs (json_value_init_string s)"

definition json_array_append_number :: "json_array \<Rightarrow> rat option \<Rightarrow> bool \<times> json_array" where
  "json_array_append_number xs x = json_array_append_value xs (json_value_init_number x)"

definition json_array_append_boolean :: "json_array \<Rightarrow> int \<Rightarrow> bool \<times> json_array" where
  "json_array_append_boolean xs b = json_array_append_value xs (Some (json_value_init_boolean b))"

definition json_array_append_null :: "json_array \<Rightarrow> bool \<times> json_array" where
  "json_array_append_null xs = json_array_append_value xs (Some JSONNull)"

definition json_array_remove :: "json_array \<Rightarrow> nat \<Rightarrow> bool \<times> json_array" where
  "json_array_remove xs ix = (if ix \<ge> length xs then (False, xs) else (True, take ix xs @ drop (ix + 1) xs))"

definition json_array_replace_value :: "json_array \<Rightarrow> nat \<Rightarrow> json option \<Rightarrow> bool \<times> json_array" where
  "json_array_replace_value xs ix value = (case value of
     None \<Rightarrow> (False, xs) | Some v \<Rightarrow> if ix \<ge> length xs then (False, xs) else (True, xs[ix := v]))"

definition json_array_replace_string :: "json_array \<Rightarrow> nat \<Rightarrow> cstr option \<Rightarrow> bool \<times> json_array" where
  "json_array_replace_string xs ix s = json_array_replace_value xs ix (json_value_init_string s)"

definition json_array_replace_number :: "json_array \<Rightarrow> nat \<Rightarrow> rat option \<Rightarrow> bool \<times> json_array" where
  "json_array_replace_number xs ix x = json_array_replace_value xs ix (json_value_init_number x)"

definition json_array_replace_boolean :: "json_array \<Rightarrow> nat \<Rightarrow> int \<Rightarrow> bool \<times> json_array" where
  "json_array_replace_boolean xs ix b = json_array_replace_value xs ix (Some (json_value_init_boolean b))"

definition json_array_replace_null :: "json_array \<Rightarrow> nat \<Rightarrow> bool \<times> json_array" where
  "json_array_replace_null xs ix = json_array_replace_value xs ix (Some JSONNull)"

definition json_array_clear :: "json_array option \<Rightarrow> bool \<times> json_array option" where
  "json_array_clear xs = (case xs of None \<Rightarrow> (False, None) | Some _ \<Rightarrow> (True, Some []))"

subsection \<open>Objects\<close>

fun overwrite :: "json_object \<Rightarrow> cstr \<Rightarrow> json \<Rightarrow> json_object" where
  "overwrite [] name v = []"
| "overwrite ((k, u) # obj) name v = (if k = name then (k, v) # obj else (k, u) # overwrite obj name v)"

definition json_object_set_value :: "json_object \<Rightarrow> cstr \<Rightarrow> json option \<Rightarrow> bool \<times> json_object" where
  "json_object_set_value obj name value =
     (case value of
        None \<Rightarrow> (False, obj)
      | Some v \<Rightarrow>
          if json_object_get_value (Some obj) name \<noteq> None then (True, overwrite obj name v)
          else (case json_object_add obj name v of None \<Rightarrow> (False, obj) | Some obj1 \<Rightarrow> (True, obj1)))"

definition json_object_set_string :: "json_object \<Rightarrow> cstr \<Rightarrow> cstr option \<Rightarrow> bool \<times> json_object" where
  "json_object_set_string obj name s = json_object_set_value obj name (json_value_init_string s)"

definition json_object_set_number :: "json_object \<Rightarrow> cstr \<Rightarrow> rat option \<Rightarrow> bool \<times> json_object" where
  "json_object_set_number obj name x = json_object_set_value obj name (json_value_init_number x)"

definition json_object_set_boolean :: "json_object \<Rightarrow> cstr \<Rightarrow> int \<Rightarrow> bool \<times> json_object" where
  "json_object_set_boolean obj name b = json_object_set_value obj name (Some (json_value_init_boolean b))"

definition json_object_set_null :: "json_object \<Rightarrow> cstr \<Rightarrow> bool \<times> json_object" where
  "json_object_set_null obj name = json_object_set_value obj name (Some JSONNull)"

definition json_object_get_name :: "json_object option \<Rightarrow> nat \<Rightarrow> cstr option" where
  "json_object_get_name obj i = (case obj of
     None \<Rightarrow> None | Some ob \<Rightarrow> if i \<ge> json_object_get_count obj then None else Some (fst (ob ! i)))"

definition json_object_get_value_at :: "json_object option \<Rightarrow> nat \<Rightarrow> json option" where
  "json_object_get_value_at obj i = (case obj of
     None \<Rightarrow> None | Some ob \<Rightarrow> if i \<ge> json_object_get_count obj then None else Some (snd (ob ! i)))"

definition json_object_has_value_of_type :: "json_object option \<Rightarrow> cstr \<Rightarrow> json_value_type \<Rightarrow> bool" where
  "json_object_has_value_of_type obj name type =
     (case json_object_get_value obj name of None \<Rightarrow> False | Some v \<Rightarrow> json_value_get_type (Some v) = type)"

text \<open>Removal moves the last pair into the place of the removed one.\<close>

fun name_index :: "json_object \<Rightarrow> cstr \<Rightarrow> nat" where
  "name_index [] name = 0"
| "name_index ((k, v) # obj) name = (if k = name then 0 else Suc (name_index obj name))"

definition json_object_remove :: "json_object \<Rightarrow> cstr \<Rightarrow> bool \<times> json_object" where
  "json_object_remove obj name =
     (if json_object_get_value (Some obj) name = None then (False, obj)
      else (True, butlast (obj[name_index obj name := last obj])))"

definition json_object_clear :: "json_object option \<Rightarrow> bool \<times> json_object option" where
  "json_object_clear obj = (case obj of None \<Rightarrow> (False, None) | Some _ \<Rightarrow> (True, Some []))"

subsection \<open>Dotted names\<close>

definition before_dot :: "cstr \<Rightarrow> cstr" where "before_dot name = takeWhile (\<lambda>c. c \<noteq> CHR ''.'') name"

definition after_dot :: "cstr \<Rightarrow> cstr" where "after_dot name = drop 1 (dropWhile (\<lambda>c. c \<noteq> CHR ''.'') name)"

lemma after_dot_shorter: "CHR ''.'' \<in> set name \<Longrightarrow> length (after_dot name) < length name"
  by (induction name) (auto simp: after_dot_def)

function json_object_dotget_value :: "json_object option \<Rightarrow> cstr \<Rightarrow> json option" where
  "json_object_dotget_value obj name =
     (if CHR ''.'' \<notin> set name then json_object_get_value obj name
      else json_object_dotget_value
        (json_value_get_object (case obj of None \<Rightarrow> None | Some ob \<Rightarrow> json_object_nget_value ob name (length (before_dot name))))
        (after_dot name))"
  by pat_completeness auto
termination by (relation "measure (\<lambda>(_, name). length name)") (simp_all add: after_dot_shorter)

declare json_object_dotget_value.simps [simp del]

text \<open>A nested object is changed in place: the outer one is given back with the changed one in it.\<close>

function json_object_dotset_value :: "json_object \<Rightarrow> cstr \<Rightarrow> json option \<Rightarrow> bool \<times> json_object" where
  "json_object_dotset_value obj name value =
     (if value = None then (False, obj)
      else if CHR ''.'' \<notin> set name then json_object_set_value obj name value
      else
        let current_name = before_dot name in
        case json_object_get_object (Some obj) current_name of
          Some inner \<Rightarrow>
            let (ok, inner1) = json_object_dotset_value inner (after_dot name) value in
            (ok, overwrite obj current_name (JSONObject inner1))
        | None \<Rightarrow>
            (case json_object_add obj current_name (JSONObject []) of
               None \<Rightarrow> (False, obj)
             | Some obj1 \<Rightarrow>
                 let (ok, inner1) = json_object_dotset_value [] (after_dot name) value in
                 (ok, overwrite obj1 current_name (JSONObject inner1))))"
  by pat_completeness auto
termination by (relation "measure (\<lambda>(_, name, _). length name)") (simp_all add: after_dot_shorter)

declare json_object_dotset_value.simps [simp del]

definition json_object_dotset_string :: "json_object \<Rightarrow> cstr \<Rightarrow> cstr option \<Rightarrow> bool \<times> json_object" where
  "json_object_dotset_string obj name s =
     (case json_value_init_string s of None \<Rightarrow> (False, obj) | Some v \<Rightarrow> json_object_dotset_value obj name (Some v))"

definition json_object_dotset_number :: "json_object \<Rightarrow> cstr \<Rightarrow> rat option \<Rightarrow> bool \<times> json_object" where
  "json_object_dotset_number obj name x =
     (case json_value_init_number x of None \<Rightarrow> (False, obj) | Some v \<Rightarrow> json_object_dotset_value obj name (Some v))"

definition json_object_dotset_boolean :: "json_object \<Rightarrow> cstr \<Rightarrow> int \<Rightarrow> bool \<times> json_object" where
  "json_object_dotset_boolean obj name b = json_object_dotset_value obj name (Some (json_value_init_boolean b))"

definition json_object_dotset_null :: "json_object \<Rightarrow> cstr \<Rightarrow> bool \<times> json_object" where
  "json_object_dotset_null obj name = json_object_dotset_value obj name (Some JSONNull)"

function json_object_dotremove :: "json_object \<Rightarrow> cstr \<Rightarrow> bool \<times> json_object" where
  "json_object_dotremove obj name =
     (if CHR ''.'' \<notin> set name then json_object_remove obj name
      else
        (case json_object_get_object (Some obj) (before_dot name) of
           None \<Rightarrow> (False, obj)
         | Some inner \<Rightarrow>
             let (ok, inner1) = json_object_dotremove inner (after_dot name) in
             (ok, overwrite obj (before_dot name) (JSONObject inner1))))"
  by pat_completeness auto
termination by (relation "measure (\<lambda>(_, name). length name)") (simp_all add: after_dot_shorter)

declare json_object_dotremove.simps [simp del]

subsection \<open>Walking trees\<close>

text \<open>A member is reached by its name, in the copy as in the comparisons.\<close>

function json_value_deep_copy :: "json \<Rightarrow> json option"
  and copy_items :: "json list \<Rightarrow> json_array \<Rightarrow> json option"
  and copy_members :: "json_object \<Rightarrow> (cstr \<times> json) list \<Rightarrow> json_object \<Rightarrow> json option" where
  "json_value_deep_copy (JSONArray vs) = copy_items vs []"
| "json_value_deep_copy (JSONObject obj) = copy_members obj obj []"
| "json_value_deep_copy (JSONBoolean b) = Some (json_value_init_boolean (json_value_get_boolean (Some (JSONBoolean b))))"
| "json_value_deep_copy (JSONNumber x) = json_value_init_number (Some x)"
| "json_value_deep_copy (JSONString s) = Some (JSONString s)"
| "json_value_deep_copy JSONNull = Some JSONNull"
| "copy_items [] copy = Some (JSONArray copy)"
| "copy_items (v # vs) copy =
     (case json_value_deep_copy v of None \<Rightarrow> None | Some u \<Rightarrow> copy_items vs (copy @ [u]))"
| "copy_members obj [] copy = Some (JSONObject copy)"
| "copy_members obj (kv # kvs) copy =
     (case json_object_get_value (Some obj) (fst kv) of
        None \<Rightarrow> None
      | Some v \<Rightarrow>
          (case json_value_deep_copy v of
             None \<Rightarrow> None
           | Some u \<Rightarrow>
               (case json_object_add copy (fst kv) u of None \<Rightarrow> None | Some copy1 \<Rightarrow> copy_members obj kvs copy1)))"
  by pat_completeness auto
termination
proof (relation "measures
    [\<lambda>x. case x of Inl v \<Rightarrow> size v | Inr (Inl (vs, _)) \<Rightarrow> size_list size vs
       | Inr (Inr (obj, _)) \<Rightarrow> size_list (size_prod (\<lambda>_. 0) size) obj,
     \<lambda>x. case x of Inl _ \<Rightarrow> 0 | Inr (Inl _) \<Rightarrow> 1 | Inr (Inr (_, kvs, _)) \<Rightarrow> length kvs]")
qed (auto dest: get_value_smaller get_value_smaller [OF sym])

text \<open>Numbers are compared up to one millionth, computed exactly here.\<close>

function json_value_equals :: "json option \<Rightarrow> json option \<Rightarrow> bool"
  and equal_items :: "json list \<Rightarrow> json list \<Rightarrow> bool"
  and equal_members :: "json_object \<Rightarrow> json_object \<Rightarrow> (cstr \<times> json) list \<Rightarrow> bool" where
  "json_value_equals a b =
     (if json_value_get_type a \<noteq> json_value_get_type b then False
      else case (a, b) of
        (Some (JSONArray xs), Some (JSONArray ys)) \<Rightarrow> length xs = length ys \<and> equal_items xs ys
      | (Some (JSONObject xs), Some (JSONObject ys)) \<Rightarrow> length xs = length ys \<and> equal_members xs ys xs
      | (Some (JSONString s), Some (JSONString t)) \<Rightarrow> s = t
      | (Some (JSONBoolean c), Some (JSONBoolean d)) \<Rightarrow> c = d
      | (Some (JSONNumber x), Some (JSONNumber y)) \<Rightarrow> \<bar>x - y\<bar> < 1 / 1000000
      | _ \<Rightarrow> True)"
| "equal_items [] ys = True"
| "equal_items (x # xs) ys = (json_value_equals (Some x) (Some (hd ys)) \<and> equal_items xs (tl ys))"
| "equal_members obj1 obj2 [] = True"
| "equal_members obj1 obj2 (kv # kvs) =
     (case json_object_get_value (Some obj1) (fst kv) of
        None \<Rightarrow> json_object_get_value (Some obj2) (fst kv) = None \<and> equal_members obj1 obj2 kvs
      | Some v \<Rightarrow> json_value_equals (Some v) (json_object_get_value (Some obj2) (fst kv)) \<and> equal_members obj1 obj2 kvs)"
  by pat_completeness auto
termination
proof (relation "measures
    [\<lambda>x. case x of Inl (a, _) \<Rightarrow> (case a of None \<Rightarrow> 0 | Some v \<Rightarrow> size v) | Inr (Inl (vs, _)) \<Rightarrow> size_list size vs
       | Inr (Inr (obj, _)) \<Rightarrow> size_list (size_prod (\<lambda>_. 0) size) obj,
     \<lambda>x. case x of Inl _ \<Rightarrow> 0 | Inr (Inl _) \<Rightarrow> 1 | Inr (Inr (_, _, kvs)) \<Rightarrow> length kvs]")
qed (auto dest: get_value_smaller get_value_smaller [OF sym])

declare json_value_equals.simps [simp del]

function json_validate :: "json \<Rightarrow> json \<Rightarrow> bool"
  and validate_members :: "json_object \<Rightarrow> json_object \<Rightarrow> (cstr \<times> json) list \<Rightarrow> bool" where
  "json_validate schema v =
     (if json_value_get_type (Some schema) \<noteq> json_value_get_type (Some v) \<and> schema \<noteq> JSONNull then False
      else case (schema, v) of
        (JSONArray (s # _), JSONArray vs) \<Rightarrow> list_all (json_validate s) vs
      | (JSONObject ss, JSONObject vs) \<Rightarrow>
          if ss = [] then True else if length vs < length ss then False else validate_members ss vs ss
      | _ \<Rightarrow> True)"
| "validate_members ss vs [] = True"
| "validate_members ss vs (kv # kvs) =
     (case (json_object_get_value (Some ss) (fst kv), json_object_get_value (Some vs) (fst kv)) of
        (Some s, Some v) \<Rightarrow> json_validate s v \<and> validate_members ss vs kvs
      | _ \<Rightarrow> False)"
  by pat_completeness auto
termination
proof (relation "measures
    [\<lambda>x. case x of Inl (s, _) \<Rightarrow> size s | Inr (obj, _) \<Rightarrow> size_list (size_prod (\<lambda>_. 0) size) obj,
     \<lambda>x. case x of Inl _ \<Rightarrow> 0 | Inr (_, _, kvs) \<Rightarrow> length kvs]")
qed (auto dest: get_value_smaller get_value_smaller [OF sym])

declare json_validate.simps [simp del]

subsection \<open>Objects as maps\<close>

lemma overwrite_names [simp]: "map fst (overwrite obj name v) = map fst obj"
  by (induction obj name v rule: overwrite.induct) auto

lemma overwrite_map: "map_of (overwrite obj name v) = (if name \<in> dom (map_of obj) then (map_of obj)(name \<mapsto> v) else map_of obj)"
  by (induction obj name v rule: overwrite.induct) (auto simp: fun_eq_iff dom_def)

text \<open>A value set under a new name comes last; one set under a name in use keeps its place.\<close>

lemma set_value_new: "name \<notin> fst ` set obj \<Longrightarrow> json_object_set_value obj name (Some v) = (True, obj @ [(name, v)])"
  by (simp add: json_object_set_value_def json_object_add_def json_object_get_value_map map_of_eq_None_iff)

lemma set_value_old: "name \<in> fst ` set obj \<Longrightarrow> json_object_set_value obj name (Some v) = (True, overwrite obj name v)"
  by (simp add: json_object_set_value_def json_object_get_value_map map_of_eq_None_iff)

lemma set_value_map:
  "fst (json_object_set_value obj name (Some v))" "map_of (snd (json_object_set_value obj name (Some v))) = (map_of obj)(name \<mapsto> v)"
  "distinct (map fst obj) \<Longrightarrow> distinct (map fst (snd (json_object_set_value obj name (Some v))))"
proof -
  have "fst (json_object_set_value obj name (Some v)) \<and> map_of (snd (json_object_set_value obj name (Some v))) = (map_of obj)(name \<mapsto> v) \<and>
    (distinct (map fst obj) \<longrightarrow> distinct (map fst (snd (json_object_set_value obj name (Some v)))))"
  proof (cases "name \<in> fst ` set obj")
    case True
    then show ?thesis by (simp add: set_value_old overwrite_map dom_map_of_conv_image_fst)
  next
    case False
    then have "map_of obj name = None" by (simp add: map_of_eq_None_iff)
    then show ?thesis using False by (auto simp: set_value_new map_add_def fun_eq_iff split: option.split)
  qed
  then show "fst (json_object_set_value obj name (Some v))" "map_of (snd (json_object_set_value obj name (Some v))) = (map_of obj)(name \<mapsto> v)"
    "distinct (map fst obj) \<Longrightarrow> distinct (map fst (snd (json_object_set_value obj name (Some v))))" by blast+
qed

lemma name_index_less: "name \<in> fst ` set obj \<Longrightarrow> name_index obj name < length obj \<and> fst (obj ! name_index obj name) = name"
  by (induction obj name rule: name_index.induct) auto

lemma remove_index:
  assumes "i < length obj"
  shows "set (butlast (obj[i := last obj])) \<subseteq> set obj" "mset obj = add_mset (obj ! i) (mset (butlast (obj[i := last obj])))"
proof -
  have ne: "obj[i := last obj] \<noteq> []" "obj \<noteq> []" using assms by auto
  have l: "last (obj[i := last obj]) = last obj"
    using assms by (simp add: last_conv_nth nth_list_update ne(2))
  have "mset (obj[i := last obj]) = add_mset (last obj) (mset (butlast (obj[i := last obj])))"
    using append_butlast_last_id [OF ne(1)] l by (metis add_mset_add_single mset.simps mset_append)
  moreover have "add_mset (obj ! i) (mset (obj[i := last obj])) = add_mset (last obj) (mset obj)"
    using assms by (simp add: mset_update)
  ultimately show m: "mset obj = add_mset (obj ! i) (mset (butlast (obj[i := last obj])))" by simp
  then show "set (butlast (obj[i := last obj])) \<subseteq> set obj" by (metis set_mset_mset subset_insertI set_mset_add_mset_insert)
qed

lemma map_of_mset:
  assumes "distinct (map fst xs)" "mset xs = mset ys"
  shows "map_of xs = map_of ys" "distinct (map fst ys)"
proof -
  have "mset (map fst xs) = mset (map fst ys)" using assms(2) by simp
  then show d: "distinct (map fst ys)" using assms(1) mset_eq_imp_distinct_iff by blast
  have "set xs = set ys" using assms(2) by (metis set_mset_mset)
  then show "map_of xs = map_of ys" using assms(1) d by (simp add: map_of_inject_set)
qed

lemma remove_map:
  assumes "distinct (map fst obj)"
  shows "fst (json_object_remove obj name) \<longleftrightarrow> name \<in> dom (map_of obj)"
    "map_of (snd (json_object_remove obj name)) = (map_of obj)(name := None)"
    "distinct (map fst (snd (json_object_remove obj name)))"
proof -
  have some: "map_of obj name = Some v \<Longrightarrow> name \<in> fst ` set obj" for v by (metis domI dom_map_of_conv_image_fst)
  show "fst (json_object_remove obj name) \<longleftrightarrow> name \<in> dom (map_of obj)"
    by (auto simp: json_object_remove_def json_object_get_value_map)
  have "map_of (snd (json_object_remove obj name)) = (map_of obj)(name := None) \<and> distinct (map fst (snd (json_object_remove obj name)))"
  proof (cases "map_of obj name")
    case None
    then show ?thesis using assms by (auto simp: json_object_remove_def json_object_get_value_map)
  next
    case (Some v)
    define i where "i = name_index obj name"
    define rest where "rest = butlast (obj[i := last obj])"
    have i: "i < length obj" "fst (obj ! i) = name" using name_index_less [OF some [OF Some]] by (simp_all add: i_def)
    have "mset obj = mset (obj ! i # rest)" using remove_index(2) [OF i(1)] by (simp add: rest_def)
    from map_of_mset [OF assms this] have m: "map_of obj = (map_of rest)(name \<mapsto> snd (obj ! i))" "distinct (name # map fst rest)"
      using i(2) by simp_all
    have "map_of rest name = None" using m(2) by (simp add: map_of_eq_None_iff)
    then have "map_of rest = (map_of obj)(name := None)" using m(1) by (simp add: fun_eq_iff)
    moreover have "snd (json_object_remove obj name) = rest"
      using Some by (simp add: json_object_remove_def json_object_get_value_map rest_def i_def)
    ultimately show ?thesis using m(2) by simp
  qed
  then show "map_of (snd (json_object_remove obj name)) = (map_of obj)(name := None)"
    "distinct (map fst (snd (json_object_remove obj name)))" by blast+
qed

lemma overwrite_same: "map_of obj name = Some v \<Longrightarrow> overwrite obj name v = obj"
  by (induction obj name v rule: overwrite.induct) (auto split: if_splits)

lemma take_before_dot: "take (length (before_dot name)) name = before_dot name"
  unfolding before_dot_def by (metis append_eq_conv_conj takeWhile_dropWhile_id)

lemma nget_before_dot: "json_object_nget_value ob name (length (before_dot name)) = map_of ob (before_dot name)"
proof (induction ob)
  case (Cons kv ob)
  obtain k v where "kv = (k, v)" by (cases kv)
  moreover have "length k = length (before_dot name) \<and> strncmp_eq k name (length (before_dot name)) \<longleftrightarrow> k = before_dot name"
    by (auto simp: strncmp_eq_def take_before_dot)
  ultimately show ?case using Cons by simp
qed simp

lemma dotget_dot:
  "CHR ''.'' \<in> set name \<Longrightarrow> json_object_dotget_value (Some ob) name =
     json_object_dotget_value (json_value_get_object (map_of ob (before_dot name))) (after_dot name)"
  by (subst json_object_dotget_value.simps) (simp add: nget_before_dot)

lemma dotset_empty: "fst (json_object_dotset_value [] name (Some v))"
proof (induction name rule: length_induct)
  case (1 name)
  show ?case
    using 1 [rule_format, OF after_dot_shorter] set_value_map(1)
    by (subst json_object_dotset_value.simps)
      (auto simp: Let_def json_object_get_object_def json_object_get_value_map json_object_add_def split: prod.split)
qed

lemma dotset_dotget:
  "if fst (json_object_dotset_value obj name (Some v))
   then json_object_dotget_value (Some (snd (json_object_dotset_value obj name (Some v)))) name = Some v
   else snd (json_object_dotset_value obj name (Some v)) = obj"
proof (induction name arbitrary: obj rule: length_induct)
  case (1 name)
  show ?case
  proof (cases "CHR ''.'' \<in> set name")
    case False
    have "json_object_dotset_value obj name (Some v) = json_object_set_value obj name (Some v)"
      using False by (subst json_object_dotset_value.simps) simp
    moreover have "json_object_dotget_value (Some ob) name = map_of ob name" for ob
      using False by (subst json_object_dotget_value.simps) (simp add: json_object_get_value_map)
    ultimately show ?thesis using set_value_map(1,2) by simp
  next
    case True
    let ?k = "before_dot name"
    note IH = 1 [rule_format, OF after_dot_shorter [OF True]]
    show ?thesis
    proof (cases "json_object_get_object (Some obj) ?k")
      case (Some inner)
      then have k: "map_of obj ?k = Some (JSONObject inner)"
        by (auto simp: json_object_get_object_def json_object_get_value_map elim: json_value_get_object.elims)
      obtain ok inner1 where r: "json_object_dotset_value inner (after_dot name) (Some v) = (ok, inner1)" by fastforce
      then have "json_object_dotset_value obj name (Some v) = (ok, overwrite obj ?k (JSONObject inner1))"
        using True Some by (subst json_object_dotset_value.simps) (simp add: Let_def)
      then show ?thesis using IH [of inner] r True k
        by (auto simp: dotget_dot overwrite_map overwrite_same split: if_splits)
    next
      case None
      show ?thesis
      proof (cases "map_of obj ?k")
        case ex: (Some u)
        then have "json_object_dotset_value obj name (Some v) = (False, obj)"
          using True None by (subst json_object_dotset_value.simps)
            (simp add: Let_def json_object_add_def json_object_get_value_map)
        then show ?thesis by simp
      next
        case fresh: None
        obtain inner1 where r: "json_object_dotset_value [] (after_dot name) (Some v) = (True, inner1)"
          using dotset_empty [of "after_dot name" v] by (cases "json_object_dotset_value [] (after_dot name) (Some v)") auto
        define obj1 where "obj1 = obj @ [(?k, JSONObject [])]"
        have "json_object_dotset_value obj name (Some v) = (True, overwrite obj1 ?k (JSONObject inner1))"
          using True None fresh r by (subst json_object_dotset_value.simps)
            (simp add: Let_def json_object_add_def json_object_get_value_map obj1_def)
        moreover have "map_of (overwrite obj1 ?k (JSONObject inner1)) ?k = Some (JSONObject inner1)"
          using fresh by (auto simp: overwrite_map obj1_def map_add_def)
        ultimately show ?thesis using IH [of "[]"] r True by (simp add: dotget_dot)
      qed
    qed
  qed
qed

text \<open>
  C40. An object whose names are distinct is a map from names to values: setting a value always
  succeeds and updates the map, removing a name succeeds exactly when it is there and
  deletes it, and both keep the names distinct.  A value set under a dotted name is the one
  read under it; when that fails, because a part of the name is not an object, nothing
  has changed.
\<close>

theorem json_objects_are_maps:
  assumes "distinct (map fst obj)"
  shows "fst (json_object_set_value obj name (Some v)) \<and>
      map_of (snd (json_object_set_value obj name (Some v))) = (map_of obj)(name \<mapsto> v) \<and>
      distinct (map fst (snd (json_object_set_value obj name (Some v)))) \<and>
    fst (json_object_remove obj name) = (name \<in> dom (map_of obj)) \<and>
      map_of (snd (json_object_remove obj name)) = (map_of obj)(name := None) \<and>
      distinct (map fst (snd (json_object_remove obj name))) \<and>
    (if fst (json_object_dotset_value obj name (Some v))
     then json_object_dotget_value (Some (snd (json_object_dotset_value obj name (Some v)))) name = Some v
     else snd (json_object_dotset_value obj name (Some v)) = obj)"
  using set_value_map(1,2) set_value_map(3) [OF assms] remove_map [OF assms] dotset_dotget by blast

definition nested_config :: json_object where
  "nested_config = [(''log'', JSONObject [(''level'', JSONNumber 1)]), (''name'', JSONString ''x'')]"

lemma nested_config_dotset:
  "json_object_dotset_value nested_config ''log.level'' (Some (JSONNumber 2)) =
     (True, [(''log'', JSONObject [(''level'', JSONNumber 2)]), (''name'', JSONString ''x'')])"
  by code_simp

theorem json_objects_are_maps_witness:
  "json_object_dotget_value (Some [(''log'', JSONObject [(''level'', JSONNumber 2)]), (''name'', JSONString ''x'')]) ''log.level'' = Some (JSONNumber 2) \<and>
   map_of (snd (json_object_remove nested_config ''log'')) = [''name'' \<mapsto> JSONString ''x'']"
proof -
  have d: "distinct (map fst nested_config)" by (simp add: nested_config_def)
  show ?thesis
    using json_objects_are_maps [OF d, of "''log.level''" "JSONNumber 2"] json_objects_are_maps [OF d, of "''log''" JSONNull] nested_config_dotset
    by (auto simp: nested_config_def fun_eq_iff)
qed

end
