(* ===== verification/Json_Reparse.thy ===== *)
theory Json_Reparse
  imports Json_Print Json_Build
begin

section \<open>What the JSON library promises its clients\<close>

text \<open>
  Every tree the parser returns satisfies what the serialiser needs to write it so that it
  is read back; objects refine maps from names to values under the setters; a copy of
  a tree is the tree.
\<close>

subsection \<open>Parsed trees\<close>

lemma process_nul_free: "process_string input len = Some s \<Longrightarrow> nul \<notin> set s"
  by (auto simp: process_string_def dest: set_takeWhileD)

lemma quoted_nul_free: "get_quoted_string s = Some (key, r) \<Longrightarrow> nul \<notin> set key"
  by (auto simp: get_quoted_string_def Let_def split: option.splits dest: process_nul_free)

text \<open>The shape of a tree the parser can have built, whatever its numbers, and the numbers in it.\<close>

fun shaped :: "nat \<Rightarrow> json \<Rightarrow> bool" where
  "shaped nesting JSONNull \<longleftrightarrow> nesting \<le> MAX_NESTING"
| "shaped nesting (JSONBoolean b) \<longleftrightarrow> nesting \<le> MAX_NESTING"
| "shaped nesting (JSONString s) \<longleftrightarrow> nesting \<le> MAX_NESTING \<and> nul \<notin> set s"
| "shaped nesting (JSONNumber n) \<longleftrightarrow> nesting \<le> MAX_NESTING"
| "shaped nesting (JSONArray vs) \<longleftrightarrow> nesting \<le> MAX_NESTING \<and> (\<forall>v\<in>set vs. shaped (nesting + 1) v)"
| "shaped nesting (JSONObject obj) \<longleftrightarrow> nesting \<le> MAX_NESTING \<and> distinct (map fst obj) \<and>
     (\<forall>kv\<in>set obj. nul \<notin> set (fst kv) \<and> shaped (nesting + 1) (snd kv))"

fun numbers :: "json \<Rightarrow> rat list" where
  "numbers (JSONNumber n) = [n]"
| "numbers (JSONArray vs) = concat (map numbers vs)"
| "numbers (JSONObject obj) = concat (map (\<lambda>kv. numbers (snd kv)) obj)"
| "numbers v = []"

lemma shaped_readable: "shaped nesting v \<Longrightarrow> list_all (number_ok strtod fmt) (numbers v) \<Longrightarrow> readable strtod fmt nesting v"
proof (induction nesting v rule: shaped.induct)
  case (6 nesting obj)
  then show ?case by (fastforce simp: list_all_iff)
qed (auto simp: list_all_iff)

lemma scalar_shaped:
  "nesting \<le> MAX_NESTING \<Longrightarrow> parse_scalar strtod s = Good v r \<Longrightarrow> shaped nesting v"
  by (auto simp: parse_scalar_def Let_def parse_string_value_def parse_boolean_value_def parse_null_value_def
      parse_number_value_def json_value_init_number_def split: if_splits option.splits prod.splits dest: quoted_nul_free)

definition items_ok :: "nat \<Rightarrow> json_array \<Rightarrow> bool" where
  "items_ok nesting vs \<longleftrightarrow> (\<forall>v\<in>set vs. shaped nesting v)"

definition members_ok :: "nat \<Rightarrow> json_object \<Rightarrow> bool" where
  "members_ok nesting obj \<longleftrightarrow> distinct (map fst obj) \<and>
     (\<forall>kv\<in>set obj. nul \<notin> set (fst kv) \<and> shaped nesting (snd kv))"

lemma containers_shaped:
  "nesting \<le> MAX_NESTING \<Longrightarrow> items_ok (nesting + 1) vs \<Longrightarrow> shaped nesting (JSONArray vs)"
  "nesting \<le> MAX_NESTING \<Longrightarrow> members_ok (nesting + 1) obj \<Longrightarrow> shaped nesting (JSONObject obj)"
  by (auto simp: items_ok_def members_ok_def)

lemma items_ok_simps [simp]: "items_ok n []"
  "items_ok n (vs @ [v]) \<longleftrightarrow> items_ok n vs \<and> shaped n v"
  by (auto simp: items_ok_def)

lemma members_ok_add:
  "members_ok n obj \<Longrightarrow> nul \<notin> set key \<Longrightarrow> shaped n v \<Longrightarrow> json_object_add obj key v = Some obj1 \<Longrightarrow>
   members_ok n obj1"
  by (auto simp: members_ok_def json_object_add_def json_object_get_value_map map_of_eq_None_iff split: if_splits)

lemma close_with_Good: "close_with c v s = Good u r \<Longrightarrow> u = v"
  by (simp add: close_with_def Let_def split: if_splits)

lemma parsed_shaped:
  "(\<forall>v r. parse_value strtod fuel nesting s = Good v r \<longrightarrow> shaped nesting v) \<and>
   (\<forall>v r. array_loop strtod fuel nesting vs s = Good v r \<longrightarrow> items_ok nesting vs \<longrightarrow>
     (\<exists>ws. v = JSONArray ws \<and> items_ok nesting ws)) \<and>
   (\<forall>v r. object_loop strtod fuel nesting obj s = Good v r \<longrightarrow> members_ok nesting obj \<longrightarrow>
     (\<exists>ob. v = JSONObject ob \<and> members_ok nesting ob))"
proof (induction fuel arbitrary: nesting s vs obj)
  case 0
  show ?case by simp
next
  case (Suc fuel)
  note val_IH = Suc.IH [THEN conjunct1, rule_format] and arr_IH = Suc.IH [THEN conjunct2, THEN conjunct1, rule_format]
    and obj_IH = Suc.IH [THEN conjunct2, THEN conjunct2, rule_format]
  have 1: "shaped nesting v" if parsed: "parse_value strtod (Suc fuel) nesting s = Good v r" for v r
  proof -
    have n: "nesting \<le> MAX_NESTING" using parsed by (simp split: if_splits)
    consider "v = JSONObject []" | "v = JSONArray []" | s2 where "object_loop strtod fuel (nesting + 1) [] s2 = Good v r"
      | s2 where "array_loop strtod fuel (nesting + 1) [] s2 = Good v r" | s1 where "parse_scalar strtod s1 = Good v r"
      using parsed by (auto simp: Let_def split: if_splits)
    then show ?thesis
    proof cases
      case 3
      then obtain ob where "v = JSONObject ob" "members_ok (nesting + 1) ob"
        using obj_IH [OF 3] by (auto simp: members_ok_def)
      then show ?thesis using containers_shaped(2) [OF n] by blast
    next
      case 4
      then obtain ws where "v = JSONArray ws" "items_ok (nesting + 1) ws" using arr_IH [OF 4] by auto
      then show ?thesis using containers_shaped(1) [OF n] by blast
    next
      case 5
      then show ?thesis using scalar_shaped [OF n] by blast
    qed (use n in simp_all)
  qed
  have 2: "\<exists>ws. v = JSONArray ws \<and> items_ok nesting ws"
    if "array_loop strtod (Suc fuel) nesting vs s = Good v r" "items_ok nesting vs" for v r
    using that arr_IH val_IH
    by (auto simp: Let_def split: if_splits parsed.splits dest!: close_with_Good)
  have 3: "\<exists>ob. v = JSONObject ob \<and> members_ok nesting ob"
    if parsed: "object_loop strtod (Suc fuel) nesting obj s = Good v r" "members_ok nesting obj" for v r
  proof (cases "cget s 0 = nul")
    case True
    then show ?thesis using parsed by (auto dest: close_with_Good)
  next
    case False
    then obtain key s1 u s3 obj1 where st: "get_quoted_string s = Some (key, s1)"
        "parse_value strtod fuel nesting (drop 1 (SKIP_WHITESPACES s1)) = Good u s3" "json_object_add obj key u = Some obj1"
        "close_with (CHR 0x7D) (JSONObject obj1) (SKIP_WHITESPACES s3) = Good v r \<or>
         object_loop strtod fuel nesting obj1 (SKIP_WHITESPACES (drop 1 (SKIP_WHITESPACES s3))) = Good v r"
      using parsed(1) by (auto simp: Let_def split: if_splits parsed.splits option.splits prod.splits)
    have "members_ok nesting obj1"
      using members_ok_add [OF parsed(2) quoted_nul_free [OF st(1)] val_IH [OF st(2)] st(3)] .
    then show ?thesis using st(4) obj_IH by (auto dest: close_with_Good)
  qed
  show ?case using 1 2 3 by blast
qed

lemma deep_copy_shaped_parts:
  "shaped n v \<Longrightarrow> json_value_deep_copy v = Some v"
  "items_ok n vs \<Longrightarrow> copy_items vs xs = Some (JSONArray (xs @ vs))"
  "members_ok n obj \<Longrightarrow> obj = copy @ kvs \<Longrightarrow> copy_members obj kvs copy = Some (JSONObject obj)"
proof (induction v and vs xs and obj kvs copy arbitrary: n and n and n rule: json_value_deep_copy_copy_items_copy_members.induct)
  case (8 v vs xs)
  then show ?case by (auto simp: items_ok_def)
next
  case (10 obj kv kvs copy)
  have "kv \<in> set obj" using 10(4) by simp
  then have kv: "json_object_get_value (Some obj) (fst kv) = Some (snd kv)" "shaped n (snd kv)"
    using 10(3) by (auto simp: members_ok_def json_object_get_value_map intro!: map_of_is_SomeI)
  have "json_object_add copy (fst kv) (snd kv) = Some (copy @ [kv])"
    using 10(3,4) by (auto simp: members_ok_def json_object_add_def json_object_get_value_map map_of_eq_None_iff)
  then show ?case using 10 kv by simp
qed (auto simp: items_ok_def members_ok_def json_value_init_boolean_def json_value_init_number_def)

lemmas deep_copy_shaped = deep_copy_shaped_parts(1)

lemma parsed_rewritten:
  assumes "parse_value strtod fuel 0 s = Good v r"
  shows "json_value_deep_copy v = Some v"
    "list_all (number_ok strtod fmt) (numbers v) \<Longrightarrow>
     \<exists>t. serialize_value fmt pretty 0 v = Some t \<and> json_parse_string strtod (Some t) = Good v []"
proof -
  have ok: "shaped 0 v" using parsed_shaped assms by blast
  then show "json_value_deep_copy v = Some v" by (rule deep_copy_shaped)
  show "list_all (number_ok strtod fmt) (numbers v) \<Longrightarrow>
      \<exists>t. serialize_value fmt pretty 0 v = Some t \<and> json_parse_string strtod (Some t) = Good v []"
    using serialized_parses [OF shaped_readable [OF ok]] by blast
qed

definition reparses :: "strtod_fun \<Rightarrow> (rat \<Rightarrow> cstr) \<Rightarrow> json parsed \<Rightarrow> bool" where
  "reparses strtod fmt p \<longleftrightarrow> (case p of NoFuel \<Rightarrow> False | Bad \<Rightarrow> True
     | Good v r \<Rightarrow> json_value_deep_copy v = Some v \<and>
         (list_all (number_ok strtod fmt) (numbers v) \<longrightarrow>
           (\<exists>t. json_serialize_to_string fmt v = Some t \<and> json_parse_string strtod (Some t) = Good v []) \<and>
           (\<exists>t. json_serialize_to_string_pretty fmt v = Some t \<and> json_parse_string strtod (Some t) = Good v [])))"

lemma parse_reparses: "reparses strtod fmt (parse_value strtod (json_fuel s) 0 s)"
  using parsed_rewritten parse_returns
  by (auto simp: reparses_def serialize_to_string_eq split: parsed.split)

text \<open>
  C19. Parsing any text, with or without comments in it, ends with an error or a tree, and a copy
  of the tree is the tree itself.  If moreover each number in the tree is written by \<open>sprintf\<close>
  so that \<open>strtod\<close> reads it again without an error, then both ways of writing the tree give a
  text from which the parser reads the same tree back.  (Subnormal numbers do not meet the
  condition: \<open>strtod\<close> reports them as out of range.)
\<close>

theorem json_reparse:
  "reparses strtod fmt (json_parse_string strtod (Some s)) \<and>
   reparses strtod fmt (json_parse_string_with_comments strtod (Some s))"
  unfolding json_parse_string_def json_parse_string_with_comments_def Let_def option.case
  by (intro conjI parse_reparses)

text \<open>Natural numbers written and read as decimal digits.\<close>

definition natural :: "rat \<Rightarrow> cstr" where
  "natural n = dec (nat \<lfloor>n\<rfloor>)"

lemma natural_ok: "number_ok digits_only natural 42" "number_ok digits_only natural 7"
proof -
  have "takeWhile (\<lambda>c. c \<in> set ''0123456789'') r = []" if "delim r" for r
    using that by (cases r) (auto simp: delim_def)
  moreover have "natural 42 = ''42''" "natural 7 = ''7''" by (simp_all add: natural_def dec.simps dec_digit_def)
  ultimately show "number_ok digits_only natural 42" "number_ok digits_only natural 7"
    by (simp_all add: number_ok_def digits_only_def is_decimal_def Let_def)
qed

lemma commented_text:
  "json_parse_string_with_comments digits_only (Some ''[42, /* all */ 7]'') = Good (JSONArray [JSONNumber 42, JSONNumber 7]) []"
  by code_simp

theorem json_reparse_witness:
  "json_parse_string_with_comments digits_only (Some ''[42, /* all */ 7]'') = Good (JSONArray [JSONNumber 42, JSONNumber 7]) [] \<and>
   (\<exists>t. json_serialize_to_string_pretty natural (JSONArray [JSONNumber 42, JSONNumber 7]) = Some t \<and>
     json_parse_string digits_only (Some t) = Good (JSONArray [JSONNumber 42, JSONNumber 7]) [])"
  using json_reparse [of digits_only natural "''[42, /* all */ 7]''"] commented_text natural_ok by (simp add: reparses_def)

end
