(* ===== verification/Type_Printers.thy ===== *)
theory Type_Printers
  imports Data_Types Call_Context Json_Build Json_Print
begin

unbundle bit_operations_syntax

section \<open>Printing data objects (\<open>src/src/core/datatypes/basic.c\<close>)\<close>

text \<open>
  The functions the data types are printed and measured with.  A pointer to an object is
  the sequence of bytes from it on, \<open>None\<close> where nothing may be read; a null pointer is
  \<open>None\<close> itself.  A result \<open>None\<close> is a read outside such bytes, a conversion C leaves
  undefined, a text longer than the buffer allocated for it, or a recursion that does not
  end.  Both byte orders are covered: \<open>big\<close> says which one.
\<close>

type_synonym bytes = "nat \<Rightarrow> 8 word option"

definition advance :: "nat \<Rightarrow> bytes \<Rightarrow> bytes" where "advance n b = (\<lambda>i. b (n + i))"

definition load_bytes :: "nat \<Rightarrow> bytes \<Rightarrow> int list option" where
  "load_bytes n b = (if list_all (\<lambda>i. b i \<noteq> None) [0..<n] then Some (map (\<lambda>i. uint (the (b i))) [0..<n]) else None)"

definition load :: "bool \<Rightarrow> nat \<Rightarrow> bytes option \<Rightarrow> int option" where
  "load big n d = (case d of
     None \<Rightarrow> None
   | Some b \<Rightarrow> map_option (\<lambda>bs. foldr (\<lambda>x a. x + 256 * a) (if big then rev bs else bs) 0) (load_bytes n b))"

text \<open>The 64-bit slot a parameter's value is kept in, and where a type's object lies in it.\<close>

definition slot :: "bool \<Rightarrow> 64 word \<Rightarrow> bytes" where
  "slot big v = (\<lambda>i. if i < 8 then Some (ucast (drop_bit (8 * (if big then 7 - i else i)) v)) else None)"

definition retrace_datatype_val_addr :: "bool \<Rightarrow> data_type option \<Rightarrow> bytes \<Rightarrow> bytes" where
  "retrace_datatype_val_addr big data_type val_slot =
     (if big then
        (case data_type of
           None \<Rightarrow> val_slot
         | Some dt \<Rightarrow> if dt_value_size dt \<noteq> 0 \<and> dt_value_size dt < 8 then advance (8 - dt_value_size dt) val_slot else val_slot)
      else val_slot)"

partial_function (option) sz_at :: "bytes \<Rightarrow> nat \<Rightarrow> cstr option" where
  "sz_at b i = (case b i of
     None \<Rightarrow> None
   | Some c \<Rightarrow> if c = 0 then Some []
              else Option.bind (sz_at b (Suc i)) (\<lambda>s. Some (char_of (unat c) # s)))"

declare sz_at.simps [code]

subsection \<open>Scalars\<close>

definition show_pointer :: "int \<Rightarrow> string" where
  "show_pointer p = (if p = 0 then ''(nil)'' else ''0x'' @ hex (nat p))"

definition show_char :: "int \<Rightarrow> string" where
  "show_char c = (let h = hex (nat (take_bit 32 (signed_take_bit 7 c))) in ''0x'' @ (if length h < 2 then ''0'' else []) @ h)"

definition retrace_int_to_sz :: "bool \<Rightarrow> bytes option \<Rightarrow> cstr option" where
  "retrace_int_to_sz big d = map_option (\<lambda>v. show_int (signed_take_bit 31 v)) (load big 4 d)"

definition retrace_uint_to_sz :: "bool \<Rightarrow> bytes option \<Rightarrow> cstr option" where
  "retrace_uint_to_sz big d = map_option show_int (load big 4 d)"

definition retrace_int16_to_sz :: "bool \<Rightarrow> bytes option \<Rightarrow> cstr option" where
  "retrace_int16_to_sz big d = map_option (\<lambda>v. show_int (signed_take_bit 15 v)) (load big 2 d)"

definition retrace_longint_to_sz :: "bool \<Rightarrow> bytes option \<Rightarrow> cstr option" where
  "retrace_longint_to_sz big d = map_option (\<lambda>v. show_int (signed_take_bit 63 v)) (load big 8 d)"

definition retrace_ulong_to_sz :: "bool \<Rightarrow> bytes option \<Rightarrow> cstr option" where
  "retrace_ulong_to_sz big d = map_option show_int (load big 8 d)"

text \<open>The conversion \<open>%ll\<close> lacks its letter.\<close>

definition retrace_longlong_to_sz :: "bool \<Rightarrow> bytes option \<Rightarrow> cstr option" where
  "retrace_longlong_to_sz big d = None"

definition retrace_sz_to_sz :: "bytes option \<Rightarrow> cstr option" where
  "retrace_sz_to_sz d = (case d of None \<Rightarrow> None | Some b \<Rightarrow> sz_at b 0)"

definition retrace_char_to_sz :: "bool \<Rightarrow> bytes option \<Rightarrow> cstr option" where
  "retrace_char_to_sz big d = map_option show_char (load big 1 d)"

definition retrace_size_t_to_sz :: "bool \<Rightarrow> bytes option \<Rightarrow> cstr option" where
  "retrace_size_t_to_sz big d = map_option show_int (load big 8 d)"

definition retrace_ptr_to_sz :: "bool \<Rightarrow> bytes option \<Rightarrow> cstr option" where
  "retrace_ptr_to_sz big d = (case d of None \<Rightarrow> Some [] | Some _ \<Rightarrow> map_option show_pointer (load big 8 d))"

definition unk_to_sz :: "cstr option" where "unk_to_sz = Some ''?''"

fun scalar_to_sz :: "bool \<Rightarrow> dt_family \<Rightarrow> bytes option \<Rightarrow> cstr option" where
  "scalar_to_sz big FInt d = retrace_int_to_sz big d"
| "scalar_to_sz big FUint d = retrace_uint_to_sz big d"
| "scalar_to_sz big FInt16 d = retrace_int16_to_sz big d"
| "scalar_to_sz big FLong d = retrace_longint_to_sz big d"
| "scalar_to_sz big FUlong d = retrace_ulong_to_sz big d"
| "scalar_to_sz big FLonglong d = retrace_longlong_to_sz big d"
| "scalar_to_sz big FSz d = retrace_sz_to_sz d"
| "scalar_to_sz big FSizet d = retrace_size_t_to_sz big d"
| "scalar_to_sz big FChar d = retrace_char_to_sz big d"
| "scalar_to_sz big FPtr d = retrace_ptr_to_sz big d"
| "scalar_to_sz big FUnk d = unk_to_sz"
| "scalar_to_sz big FStruct d = None"

lemmas scalar_to_sz_defs [simp] = retrace_int_to_sz_def retrace_uint_to_sz_def retrace_int16_to_sz_def retrace_longint_to_sz_def retrace_ulong_to_sz_def retrace_longlong_to_sz_def retrace_size_t_to_sz_def retrace_char_to_sz_def unk_to_sz_def

text \<open>
  The size of the print is found by printing to nothing, except that strings and pointers
  test for a null pointer first.
\<close>

definition get_sz_size :: "(dt_family \<Rightarrow> bytes option \<Rightarrow> data_type option \<Rightarrow> cstr option) \<Rightarrow>
    dt_family \<Rightarrow> bytes option \<Rightarrow> data_type option \<Rightarrow> nat option" where
  "get_sz_size to_sz family d dt =
     (if d = None \<and> (family = FSz \<or> family = FPtr) then Some 0 else map_option length (to_sz family d dt))"

text \<open>An \<open>int\<close> is read here as wide as a \<open>size_t\<close>; strings, characters, pointers and structures do not convert.\<close>

definition retrace_int_to_size_t :: "bool \<Rightarrow> bytes option \<Rightarrow> (int \<times> 64 word) option" where
  "retrace_int_to_size_t big d = map_option (\<lambda>v. (0, word_of_int v)) (load big 8 d)"

definition retrace_uint_to_size_t :: "bool \<Rightarrow> bytes option \<Rightarrow> (int \<times> 64 word) option" where
  "retrace_uint_to_size_t big d = map_option (\<lambda>v. (0, word_of_int v)) (load big 4 d)"

definition retrace_int16_to_size_t :: "bool \<Rightarrow> bytes option \<Rightarrow> (int \<times> 64 word) option" where
  "retrace_int16_to_size_t big d = map_option (\<lambda>v. (0, word_of_int (signed_take_bit 15 v))) (load big 2 d)"

definition retrace_longint_to_size_t :: "bool \<Rightarrow> bytes option \<Rightarrow> (int \<times> 64 word) option" where
  "retrace_longint_to_size_t big d = map_option (\<lambda>v. (0, word_of_int v)) (load big 8 d)"

definition retrace_ulong_to_size_t :: "bool \<Rightarrow> bytes option \<Rightarrow> (int \<times> 64 word) option" where
  "retrace_ulong_to_size_t big d = map_option (\<lambda>v. (0, word_of_int v)) (load big 8 d)"

definition retrace_longlong_to_size_t :: "bool \<Rightarrow> bytes option \<Rightarrow> (int \<times> 64 word) option" where
  "retrace_longlong_to_size_t big d = map_option (\<lambda>v. (0, word_of_int v)) (load big 8 d)"

definition retrace_size_t_to_size_t :: "bool \<Rightarrow> bytes option \<Rightarrow> (int \<times> 64 word) option" where
  "retrace_size_t_to_size_t big d = map_option (\<lambda>v. (0, word_of_int v)) (load big 8 d)"

fun to_size_t :: "bool \<Rightarrow> dt_family \<Rightarrow> bytes option \<Rightarrow> (int \<times> 64 word) option" where
  "to_size_t big FInt d = retrace_int_to_size_t big d"
| "to_size_t big FUint d = retrace_uint_to_size_t big d"
| "to_size_t big FInt16 d = retrace_int16_to_size_t big d"
| "to_size_t big FLong d = retrace_longint_to_size_t big d"
| "to_size_t big FUlong d = retrace_ulong_to_size_t big d"
| "to_size_t big FLonglong d = retrace_longlong_to_size_t big d"
| "to_size_t big FSizet d = retrace_size_t_to_size_t big d"
| "to_size_t big _ d = Some (-1, 0)"

lemmas to_size_t_defs [simp] = retrace_int_to_size_t_def retrace_uint_to_size_t_def retrace_int16_to_size_t_def retrace_longint_to_size_t_def retrace_ulong_to_size_t_def retrace_longlong_to_size_t_def retrace_size_t_to_size_t_def

definition retrace_sz_get_size :: "bytes option \<Rightarrow> (int \<times> nat) option" where
  "retrace_sz_get_size d = (case d of None \<Rightarrow> None | Some b \<Rightarrow> map_option (\<lambda>s. (0, length s + 1)) (sz_at b 0))"

fun scalar_get_size :: "dt_family \<Rightarrow> bytes option \<Rightarrow> (int \<times> nat) option" where
  "scalar_get_size FInt d = Some (0, 4)"
| "scalar_get_size FUint d = Some (0, 4)"
| "scalar_get_size FInt16 d = Some (0, 2)"
| "scalar_get_size FChar d = Some (0, 1)"
| "scalar_get_size FUnk d = Some (0, 2)"
| "scalar_get_size FSz d = retrace_sz_get_size d"
| "scalar_get_size FStruct d = None"
| "scalar_get_size _ d = Some (0, 8)"

declare retrace_sz_get_size_def [simp]

subsection \<open>Structures\<close>

text \<open>
  The functions of the member types are arguments here.  A type's list holds its
  members up to the one with the empty name.
\<close>

type_synonym sz_fun = "dt_family \<Rightarrow> bytes option \<Rightarrow> data_type option \<Rightarrow> cstr option"
type_synonym size_fun = "dt_family \<Rightarrow> bytes option \<Rightarrow> data_type option \<Rightarrow> (int \<times> nat) option"

fun get_member :: "size_fun \<Rightarrow> dt_tables \<Rightarrow> struct_member list \<Rightarrow> cstr \<Rightarrow> bytes option \<Rightarrow> (int + data_type \<times> bytes option) option" where
  "get_member size_of t [] member_name d =
     (case retrace_datatype_get [] t of None \<Rightarrow> Some (Inl (-1)) | Some ty \<Rightarrow> Some (Inr (ty, d)))"
| "get_member size_of t (m # ms) member_name d =
     (case retrace_datatype_get (sm_type m) t of
        None \<Rightarrow> Some (Inl (-1))
      | Some ty \<Rightarrow>
          if sm_name m = member_name then Some (Inr (ty, d))
          else (case size_of (dt_family ty) d (Some ty) of
                  None \<Rightarrow> None
                | Some (rc, n) \<Rightarrow>
                    if rc < 0 then Some (Inl (-2)) else get_member size_of t ms member_name (map_option (advance n) d)))"

fun struct_size_loop :: "size_fun \<Rightarrow> dt_tables \<Rightarrow> data_type \<Rightarrow> bytes option \<Rightarrow> struct_member list \<Rightarrow> nat \<Rightarrow> (int \<times> nat) option" where
  "struct_size_loop size_of t ty d [] acc = Some (0, acc)"
| "struct_size_loop size_of t ty d (m # ms) acc =
     (case get_member size_of t (dt_struct_members ty) (sm_name m) d of
        None \<Rightarrow> None
      | Some (Inl ret) \<Rightarrow> Some (ret, acc)
      | Some (Inr (mt, md)) \<Rightarrow>
          (case size_of (dt_family mt) md (Some mt) of
             None \<Rightarrow> None
           | Some (ret, n) \<Rightarrow>
               if ret \<noteq> 0 then Some (ret, acc)
               else struct_size_loop size_of t ty d ms
                 (acc + (if sm_modifiers m AND CDM_ARRAY \<noteq> 0 then sm_array_cnt m * n else n))))"

definition retrace_struct_get_size :: "size_fun \<Rightarrow> dt_tables \<Rightarrow> bytes option \<Rightarrow> data_type option \<Rightarrow> (int \<times> nat) option" where
  "retrace_struct_get_size size_of t d dt =
     (case dt of None \<Rightarrow> None | Some ty \<Rightarrow> struct_size_loop size_of t ty d (dt_struct_members ty) 0)"

text \<open>
  One object printed into a buffer of the size its measure gave, and a run of objects
  printed one after the other into an array.  \<open>arg\<close> is the type handed to the measure.
\<close>

definition print_object :: "sz_fun \<Rightarrow> data_type \<Rightarrow> data_type option \<Rightarrow> bytes option \<Rightarrow> cstr option" where
  "print_object to_sz ty arg d =
     (case get_sz_size to_sz (dt_family ty) d arg of
        None \<Rightarrow> None
      | Some sz_size \<Rightarrow>
          (case to_sz (dt_family ty) d (Some ty) of
             None \<Rightarrow> None
           | Some sz \<Rightarrow> if length sz > sz_size then None else Some sz))"

fun print_objects :: "sz_fun \<Rightarrow> size_fun \<Rightarrow> data_type \<Rightarrow> data_type option \<Rightarrow> nat \<Rightarrow> bytes option \<Rightarrow> json_array \<Rightarrow> json_array option" where
  "print_objects to_sz size_of ty arg 0 d arr = Some arr"
| "print_objects to_sz size_of ty arg (Suc n) d arr =
     (case print_object to_sz ty arg d of
        None \<Rightarrow> None
      | Some sz \<Rightarrow>
          let arr1 = snd (json_array_append_string arr (Some sz)) in
          (case size_of (dt_family ty) d (Some ty) of
             None \<Rightarrow> None
           | Some (ret, m) \<Rightarrow>
               if ret \<noteq> 0 then Some arr1 else print_objects to_sz size_of ty arg n (map_option (advance m) d) arr1))"

fun struct_members_loop :: "sz_fun \<Rightarrow> size_fun \<Rightarrow> dt_tables \<Rightarrow> data_type \<Rightarrow> bytes option \<Rightarrow> struct_member list \<Rightarrow> json_object \<Rightarrow> json_object option" where
  "struct_members_loop to_sz size_of t ty d [] obj = Some obj"
| "struct_members_loop to_sz size_of t ty d (m # ms) obj =
     (case get_member size_of t (dt_struct_members ty) (sm_name m) d of
        None \<Rightarrow> None
      | Some (Inl ret) \<Rightarrow> Some obj
      | Some (Inr (mt, md)) \<Rightarrow>
          if sm_modifiers m AND CDM_ARRAY \<noteq> 0 then
            (case print_objects to_sz size_of mt None (sm_array_cnt m) md [] of
               None \<Rightarrow> None
             | Some arr \<Rightarrow>
                 struct_members_loop to_sz size_of t ty d ms (snd (json_object_set_value obj (sm_name m) (Some (JSONArray arr)))))
          else
            (case print_object to_sz mt (Some ty) md of
               None \<Rightarrow> None
             | Some sz \<Rightarrow>
                 struct_members_loop to_sz size_of t ty d ms (snd (json_object_set_string obj (sm_name m) (Some sz)))))"

definition retrace_struct_to_sz :: "sz_fun \<Rightarrow> size_fun \<Rightarrow> dt_tables \<Rightarrow> bytes option \<Rightarrow> data_type option \<Rightarrow> cstr option" where
  "retrace_struct_to_sz to_sz size_of t d dt =
     (case dt of
        None \<Rightarrow> None
      | Some ty \<Rightarrow>
          (case struct_members_loop to_sz size_of t ty d (dt_struct_members ty) [] of
             None \<Rightarrow> None
           | Some obj \<Rightarrow> json_serialize_to_string_pretty (\<lambda>_. []) (JSONObject obj)))"

text \<open>
  The functions of every type, to a given depth of structures within structures.  No number
  is part of a printed structure, so how numbers are written does not matter.
\<close>

primrec get_size :: "nat \<Rightarrow> dt_tables \<Rightarrow> size_fun" where
  "get_size 0 = (\<lambda>t family d dt. scalar_get_size family d)"
| "get_size (Suc depth) = (\<lambda>t family d dt.
     if family = FStruct then retrace_struct_get_size (get_size depth t) t d dt else scalar_get_size family d)"

primrec to_sz :: "bool \<Rightarrow> nat \<Rightarrow> dt_tables \<Rightarrow> sz_fun" where
  "to_sz big 0 = (\<lambda>t family d dt. scalar_to_sz big family d)"
| "to_sz big (Suc depth) = (\<lambda>t family d dt.
     if family = FStruct then retrace_struct_to_sz (to_sz big depth t) (get_size depth t) t d dt else scalar_to_sz big family d)"

end
