(* ===== verification/Prototypes.thy ===== *)
theory Prototypes
  imports Registries
begin

section \<open>Prototype descriptions (\<open>src/src/core/funcs.h\<close>)\<close>

text \<open>
  The form in which the prototype tables are written: a parameter with its type,
  modifiers, direction, referenced type and count parameter (empty where the source leaves
  the field out), and a function with as many parameters as its count says, of the
  sixteen the array holds.
\<close>

definition MAXCOUNT_PARAMS :: nat where "MAXCOUNT_PARAMS = 16"

definition param :: "cstr \<Rightarrow> cstr \<Rightarrow> 32 word \<Rightarrow> param_direction \<Rightarrow> cstr \<Rightarrow> cstr \<Rightarrow> param_meta" where
  "param name type_name modifiers direction ref_type_name array_cnt_param =
     \<lparr>pm_name = name, pm_type_name = type_name, pm_modifiers = modifiers, pm_direction = direction,
      pm_ref_type_name = ref_type_name, pm_array_cnt_param = array_cnt_param\<rparr>"

definition proto :: "cstr \<Rightarrow> cstr \<Rightarrow> nat \<Rightarrow> param_meta list \<Rightarrow> format_arch \<Rightarrow> nat \<Rightarrow> func_prototype" where
  "proto name type_name params_cnt params fmt fmt_param_idx =
     \<lparr>fpr_name = name,
      fpr_params = take params_cnt (params @ replicate (MAXCOUNT_PARAMS - length params) (param [] [] 0 PDIR_IN [] [])),
      fpr_type_name = type_name, fpr_fmt = fmt, fpr_fmt_param_idx = fmt_param_idx\<rparr>"

end
