(* ===== verification/Prototypes_Unistd.thy ===== *)
theory Prototypes_Unistd
  imports Prototypes
begin

unbundle bit_operations_syntax

section \<open>Prototypes of \<open>unistd.c\<close>\<close>

text \<open>
  The tables of \<open>src/src/core/prototypes/unistd.c\<close>, in the order of the source; a long table is the
  concatenation of its parts.
\<close>

definition unistd_prototypes_1 :: "func_prototype list" where
  "unistd_prototypes_1 =
    [proto ''dlopen'' ''ptr'' 2
       [param ''filename'' ''ptr'' (CDM_POINTER OR CDM_CONST) PDIR_IN ''sz'' [],
        param ''flags'' ''int'' CDM_NOMOD PDIR_IN [] []] FAT_NOVARARGS 0,
     proto ''dlclose'' ''int'' 1
       [param ''handle'' ''ptr'' CDM_NOMOD PDIR_IN [] []] FAT_NOVARARGS 0,
     proto ''open'' ''int'' 2
       [param ''path'' ''ptr'' (CDM_POINTER OR CDM_CONST) PDIR_IN ''sz'' [],
        param ''flags'' ''int'' CDM_NOMOD PDIR_IN [] []] FAT_NOVARARGS 0,
     proto ''openat'' ''int'' 3
       [param ''dirfd'' ''int'' CDM_NOMOD PDIR_IN [] [],
        param ''path'' ''ptr'' (CDM_POINTER OR CDM_CONST) PDIR_IN ''sz'' [],
        param ''flags'' ''int'' CDM_NOMOD PDIR_IN [] []] FAT_NOVARARGS 0,
     proto ''access'' ''int'' 2
       [param ''pathname'' ''ptr'' (CDM_POINTER OR CDM_CONST) PDIR_IN ''sz'' [],
        param ''mode'' ''int'' CDM_NOMOD PDIR_IN [] []] FAT_NOVARARGS 0,
     proto ''alarm'' ''unsigned int'' 1
       [param ''seconds'' ''unsigned int'' CDM_NOMOD PDIR_IN [] []] FAT_NOVARARGS 0,
     proto ''brk'' ''int'' 1
       [param ''addr'' ''ptr'' CDM_NOMOD PDIR_OUT [] []] FAT_NOVARARGS 0,
     proto ''chdir'' ''int'' 1
       [param ''path'' ''ptr'' (CDM_POINTER OR CDM_CONST) PDIR_IN ''sz'' []] FAT_NOVARARGS 0]"

definition unistd_prototypes_2 :: "func_prototype list" where
  "unistd_prototypes_2 =
    [proto ''chroot'' ''int'' 1
       [param ''path'' ''ptr'' (CDM_POINTER OR CDM_CONST) PDIR_IN ''sz'' []] FAT_NOVARARGS 0,
     proto ''chown'' ''int'' 3
       [param ''pathname'' ''ptr'' (CDM_POINTER OR CDM_CONST) PDIR_IN ''sz'' [],
        param ''owner'' ''uid_t'' CDM_NOMOD PDIR_IN [] [],
        param ''group'' ''gid_t'' CDM_NOMOD PDIR_IN [] []] FAT_NOVARARGS 0,
     proto ''close'' ''int'' 1
       [param ''fd'' ''int'' CDM_NOMOD PDIR_IN [] []] FAT_NOVARARGS 0,
     proto ''confstr'' ''size_t'' 3
       [param ''name'' ''int'' CDM_NOMOD PDIR_IN [] [],
        param ''buf'' ''ptr'' CDM_POINTER PDIR_OUT ''sz'' ''len'',
        param ''len'' ''size_t'' CDM_NOMOD PDIR_IN [] []] FAT_NOVARARGS 0,
     proto ''crypt'' ''ptr'' 2
       [param ''key'' ''ptr'' (CDM_POINTER OR CDM_CONST) PDIR_IN ''sz'' [],
        param ''salt'' ''ptr'' (CDM_POINTER OR CDM_CONST) PDIR_IN ''sz'' []] FAT_NOVARARGS 0,
     proto ''ctermid'' ''ptr'' 1
       [param ''s'' ''ptr'' CDM_POINTER PDIR_OUT ''sz'' []] FAT_NOVARARGS 0,
     proto ''cuserid'' ''ptr'' 1
       [param ''string'' ''ptr'' CDM_POINTER PDIR_OUT ''sz'' []] FAT_NOVARARGS 0,
     proto ''dup'' ''int'' 1
       [param ''oldfd'' ''int'' CDM_NOMOD PDIR_IN [] []] FAT_NOVARARGS 0]"

definition unistd_prototypes_3 :: "func_prototype list" where
  "unistd_prototypes_3 =
    [proto ''dup2'' ''int'' 2
       [param ''oldfd'' ''int'' CDM_NOMOD PDIR_IN [] [],
        param ''newfd'' ''int'' CDM_NOMOD PDIR_IN [] []] FAT_NOVARARGS 0,
     proto ''encrypt'' ''void'' 2
       [param ''block'' ''ptr'' CDM_NOMOD PDIR_INOUT [] [],
        param ''edflag'' ''int'' CDM_NOMOD PDIR_IN [] []] FAT_NOVARARGS 0,
     proto ''execv'' ''int'' 2
       [param ''path'' ''ptr'' (CDM_POINTER OR CDM_CONST) PDIR_IN ''sz'' [],
        param ''argv'' ''ptr'' CDM_NOMOD PDIR_IN [] []] FAT_NOVARARGS 0,
     proto ''execve'' ''int'' 3
       [param ''filename'' ''ptr'' (CDM_POINTER OR CDM_CONST) PDIR_IN ''sz'' [],
        param ''argv'' ''ptr'' CDM_NOMOD PDIR_IN [] [],
        param ''envp'' ''ptr'' CDM_NOMOD PDIR_IN [] []] FAT_NOVARARGS 0,
     proto ''execl'' ''int'' 2
       [param ''path'' ''ptr'' (CDM_POINTER OR CDM_CONST) PDIR_IN ''sz'' [],
        param ''arg0'' ''ptr'' (CDM_POINTER OR CDM_CONST) PDIR_IN ''sz'' []] FAT_NOVARARGS 0]"

definition unistd_prototypes_4 :: "func_prototype list" where
  "unistd_prototypes_4 =
    [proto ''execle'' ''int'' 2
       [param ''path'' ''ptr'' (CDM_POINTER OR CDM_CONST) PDIR_IN ''sz'' [],
        param ''arg0'' ''ptr'' (CDM_POINTER OR CDM_CONST) PDIR_IN ''sz'' []] FAT_NOVARARGS 0,
     proto ''execlp'' ''int'' 2
       [param ''file'' ''ptr'' (CDM_POINTER OR CDM_CONST) PDIR_IN ''sz'' [],
        param ''arg0'' ''ptr'' (CDM_POINTER OR CDM_CONST) PDIR_IN ''sz'' []] FAT_NOVARARGS 0,
     proto ''fdatasync'' ''int'' 1
       [param ''fd'' ''int'' CDM_NOMOD PDIR_IN [] []] FAT_NOVARARGS 0,
     proto ''tcsetpgrp'' ''int'' 2
       [param ''fd'' ''int'' CDM_NOMOD PDIR_IN [] [],
        param ''pgrp_id'' ''int'' CDM_NOMOD PDIR_IN [] []] FAT_NOVARARGS 0,
     proto ''execvp'' ''int'' 2
       [param ''file'' ''ptr'' (CDM_POINTER OR CDM_CONST) PDIR_IN ''sz'' [],
        param ''argv'' ''ptr'' CDM_NOMOD PDIR_IN [] []] FAT_NOVARARGS 0,
     proto ''_exit'' ''void'' 1
       [param ''status'' ''int'' CDM_NOMOD PDIR_IN [] []] FAT_NOVARARGS 0,
     proto ''fchown'' ''int'' 3
       [param ''fd'' ''int'' CDM_NOMOD PDIR_IN [] [],
        param ''owner'' ''uid_t'' CDM_NOMOD PDIR_IN [] [],
        param ''group'' ''gid_t'' CDM_NOMOD PDIR_IN [] []] FAT_NOVARARGS 0]"

definition unistd_prototypes_5 :: "func_prototype list" where
  "unistd_prototypes_5 =
    [proto ''fchdir'' ''int'' 1
       [param ''fd'' ''int'' CDM_NOMOD PDIR_IN [] []] FAT_NOVARARGS 0,
     proto ''fork'' ''pid_t'' 0
       [] FAT_NOVARARGS 0,
     proto ''fpathconf'' ''long'' 2
       [param ''fd'' ''int'' CDM_NOMOD PDIR_IN [] [],
        param ''name'' ''int'' CDM_NOMOD PDIR_IN [] []] FAT_NOVARARGS 0,
     proto ''fsync'' ''int'' 1
       [param ''fd'' ''int'' CDM_NOMOD PDIR_IN [] []] FAT_NOVARARGS 0,
     proto ''ftruncate'' ''int'' 2
       [param ''fd'' ''int'' CDM_NOMOD PDIR_IN [] [],
        param ''length'' ''off_t'' CDM_NOMOD PDIR_IN [] []] FAT_NOVARARGS 0,
     proto ''getcwd'' ''ptr'' 2
       [param ''buf'' ''ptr'' CDM_POINTER PDIR_OUT ''sz'' [],
        param ''size'' ''size_t'' CDM_NOMOD PDIR_IN [] []] FAT_NOVARARGS 0,
     proto ''getdtablesize'' ''int'' 0
       [] FAT_NOVARARGS 0,
     proto ''getegid'' ''gid_t'' 0
       [] FAT_NOVARARGS 0,
     proto ''geteuid'' ''uid_t'' 0
       [] FAT_NOVARARGS 0,
     proto ''getgid'' ''gid_t'' 0
       [] FAT_NOVARARGS 0,
     proto ''getgroups'' ''int'' 2
       [param ''size'' ''size_t'' CDM_NOMOD PDIR_IN [] [],
        param ''list'' ''gid_t'' (CDM_POINTER OR CDM_ARRAY) PDIR_OUT [] ''size''] FAT_NOVARARGS 0]"

definition unistd_prototypes_6 :: "func_prototype list" where
  "unistd_prototypes_6 =
    [proto ''gethostid'' ''long'' 0
       [] FAT_NOVARARGS 0,
     proto ''getlogin'' ''ptr'' 0
       [] FAT_NOVARARGS 0,
     proto ''getlogin_r'' ''int'' 2
       [param ''buf'' ''ptr'' CDM_POINTER PDIR_OUT [] [],
        param ''bufsize'' ''size_t'' CDM_NOMOD PDIR_IN [] []] FAT_NOVARARGS 0,
     proto ''getopt'' ''int'' 3
       [param ''argc'' ''int'' CDM_NOMOD PDIR_IN [] [],
        param ''argv'' ''ptr'' CDM_ARRAY PDIR_IN ''ptr'' ''argc'',
        param ''optstring'' ''ptr'' (CDM_POINTER OR CDM_CONST) PDIR_IN ''sz'' []] FAT_NOVARARGS 0,
     proto ''getpagesize'' ''int'' 0
       [] FAT_NOVARARGS 0,
     proto ''getpass'' ''ptr'' 1
       [param ''prompt'' ''ptr'' (CDM_POINTER OR CDM_CONST) PDIR_IN ''sz'' []] FAT_NOVARARGS 0,
     proto ''getpgid'' ''pid_t'' 1
       [param ''pid'' ''pid_t'' CDM_NOMOD PDIR_IN [] []] FAT_NOVARARGS 0,
     proto ''getpgrp'' ''pid_t'' 0
       [] FAT_NOVARARGS 0,
     proto ''getpid'' ''pid_t'' 0
       [] FAT_NOVARARGS 0,
     proto ''getppid'' ''pid_t'' 0
       [] FAT_NOVARARGS 0,
     proto ''getsid'' ''pid_t'' 1
       [param ''pid'' ''pid_t'' CDM_NOMOD PDIR_IN [] []] FAT_NOVARARGS 0,
     proto ''getuid'' ''uid_t'' 0
       [] FAT_NOVARARGS 0]"

definition unistd_prototypes_7 :: "func_prototype list" where
  "unistd_prototypes_7 =
    [proto ''getwd'' ''ptr'' 1
       [param ''buf'' ''ptr'' CDM_POINTER PDIR_OUT ''sz'' []] FAT_NOVARARGS 0,
     proto ''isatty'' ''int'' 1
       [param ''fd'' ''int'' CDM_NOMOD PDIR_IN [] []] FAT_NOVARARGS 0,
     proto ''lchown'' ''int'' 3
       [param ''path'' ''ptr'' (CDM_POINTER OR CDM_CONST) PDIR_IN ''sz'' [],
        param ''owner'' ''uid_t'' CDM_NOMOD PDIR_IN [] [],
        param ''group'' ''gid_t'' CDM_NOMOD PDIR_IN [] []] FAT_NOVARARGS 0,
     proto ''link'' ''int'' 3
       [param ''oldpath'' ''ptr'' (CDM_POINTER OR CDM_CONST) PDIR_IN ''sz'' [],
        param ''newpath'' ''ptr'' (CDM_POINTER OR CDM_CONST) PDIR_IN ''sz'' [],
        param ''owner'' ''uid_t'' CDM_NOMOD PDIR_IN [] []] FAT_NOVARARGS 0,
     proto ''lockf'' ''int'' 3
       [param ''fd'' ''int'' CDM_NOMOD PDIR_IN [] [],
        param ''cmd'' ''int'' CDM_NOMOD PDIR_IN [] [],
        param ''len'' ''off_t'' CDM_NOMOD PDIR_IN [] []] FAT_NOVARARGS 0,
     proto ''lseek'' ''off_t'' 3
       [param ''fd'' ''int'' CDM_NOMOD PDIR_IN [] [],
        param ''len'' ''off_t'' CDM_NOMOD PDIR_IN [] [],
        param ''whence'' ''int'' CDM_NOMOD PDIR_IN [] []] FAT_NOVARARGS 0]"

definition unistd_prototypes_8 :: "func_prototype list" where
  "unistd_prototypes_8 =
    [proto ''nice'' ''int'' 2
       [param ''fd'' ''int'' CDM_NOMOD PDIR_IN [] [],
        param ''inc'' ''int'' CDM_NOMOD PDIR_IN [] []] FAT_NOVARARGS 0,
     proto ''pathconf'' ''long'' 2
       [param ''path'' ''ptr'' (CDM_POINTER OR CDM_CONST) PDIR_IN ''sz'' [],
        param ''name'' ''int'' CDM_NOMOD PDIR_IN [] []] FAT_NOVARARGS 0,
     proto ''pause'' ''int'' 0
       [] FAT_NOVARARGS 0,
     proto ''pipe'' ''int'' 1
       [param ''pipefd'' ''ptr'' CDM_NOMOD PDIR_IN [] []] FAT_NOVARARGS 0,
     proto ''pread'' ''ssize_t'' 4
       [param ''fd'' ''int'' CDM_NOMOD PDIR_IN [] [],
        param ''buf'' ''ptr'' (CDM_POINTER OR CDM_ARRAY) PDIR_OUT ''char'' ''count'',
        param ''count'' ''size_t'' CDM_NOMOD PDIR_IN [] [],
        param ''offset'' ''off_t'' CDM_NOMOD PDIR_IN [] []] FAT_NOVARARGS 0,
     proto ''pthread_atfork'' ''int'' 3
       [param ''prepare'' ''ptr'' CDM_NOMOD PDIR_IN [] [],
        param ''parent'' ''ptr'' CDM_NOMOD PDIR_IN [] [],
        param ''child'' ''ptr'' CDM_NOMOD PDIR_IN [] []] FAT_NOVARARGS 0]"

definition unistd_prototypes_9 :: "func_prototype list" where
  "unistd_prototypes_9 =
    [proto ''pwrite'' ''ssize_t'' 4
       [param ''fd'' ''int'' CDM_NOMOD PDIR_IN [] [],
        param ''buf'' ''ptr'' (CDM_POINTER OR CDM_ARRAY) PDIR_IN ''char'' ''count'',
        param ''count'' ''size_t'' CDM_NOMOD PDIR_IN [] [],
        param ''offset'' ''off_t'' CDM_NOMOD PDIR_IN [] []] FAT_NOVARARGS 0,
     proto ''read'' ''ssize_t'' 3
       [param ''fd'' ''int'' CDM_NOMOD PDIR_IN [] [],
        param ''buf'' ''ptr'' (CDM_POINTER OR CDM_ARRAY) PDIR_OUT ''char'' ''count'',
        param ''count'' ''size_t'' CDM_NOMOD PDIR_IN [] []] FAT_NOVARARGS 0,
     proto ''readlink'' ''int'' 3
       [param ''path'' ''ptr'' (CDM_POINTER OR CDM_CONST) PDIR_IN ''sz'' [],
        param ''buf'' ''ptr'' CDM_POINTER PDIR_OUT ''sz'' [],
        param ''bufsiz'' ''size_t'' CDM_NOMOD PDIR_IN [] []] FAT_NOVARARGS 0,
     proto ''rmdir'' ''int'' 1
       [param ''pathname'' ''ptr'' (CDM_POINTER OR CDM_CONST) PDIR_IN ''sz'' []] FAT_NOVARARGS 0,
     proto ''sbrk'' ''ptr'' 1
       [param ''increment'' ''intptr_t'' CDM_NOMOD PDIR_IN [] []] FAT_NOVARARGS 0,
     proto ''setgid'' ''int'' 1
       [param ''gid'' ''gid_t'' CDM_NOMOD PDIR_IN [] []] FAT_NOVARARGS 0]"

definition unistd_prototypes_10 :: "func_prototype list" where
  "unistd_prototypes_10 =
    [proto ''setpgid'' ''int'' 2
       [param ''pid'' ''pid_t'' CDM_NOMOD PDIR_IN [] [],
        param ''pgid'' ''pid_t'' CDM_NOMOD PDIR_IN [] []] FAT_NOVARARGS 0,
     proto ''setpgrp'' ''pid_t'' 0
       [] FAT_NOVARARGS 0,
     proto ''setregid'' ''int'' 2
       [param ''rgid'' ''gid_t'' CDM_NOMOD PDIR_IN [] [],
        param ''egid'' ''gid_t'' CDM_NOMOD PDIR_IN [] []] FAT_NOVARARGS 0,
     proto ''setreuid'' ''int'' 2
       [param ''ruid'' ''uid_t'' CDM_NOMOD PDIR_IN [] [],
        param ''euid'' ''uid_t'' CDM_NOMOD PDIR_IN [] []] FAT_NOVARARGS 0,
     proto ''setsid'' ''pid_t'' 0
       [] FAT_NOVARARGS 0,
     proto ''setuid'' ''int'' 1
       [param ''uid'' ''uid_t'' CDM_NOMOD PDIR_IN [] []] FAT_NOVARARGS 0,
     proto ''sleep'' ''unsigned int '' 1
       [param ''seconds'' ''unsigned int'' CDM_NOMOD PDIR_IN [] []] FAT_NOVARARGS 0,
     proto ''swab'' ''void'' 3
       [param ''from'' ''ptr'' (CDM_POINTER OR CDM_CONST OR CDM_ARRAY) PDIR_IN ''char'' ''n'',
        param ''to'' ''ptr'' (CDM_POINTER OR CDM_ARRAY) PDIR_OUT ''char'' ''n'',
        param ''n'' ''size_t'' CDM_NOMOD PDIR_IN [] []] FAT_NOVARARGS 0]"

definition unistd_prototypes_11 :: "func_prototype list" where
  "unistd_prototypes_11 =
    [proto ''symlink'' ''int'' 2
       [param ''path1'' ''ptr'' (CDM_POINTER OR CDM_CONST) PDIR_IN ''sz'' [],
        param ''path2'' ''ptr'' (CDM_POINTER OR CDM_CONST) PDIR_IN ''sz'' []] FAT_NOVARARGS 0,
     proto ''sync'' ''void'' 0
       [] FAT_NOVARARGS 0,
     proto ''sysconf'' ''long'' 1
       [param ''name'' ''int'' CDM_NOMOD PDIR_IN [] []] FAT_NOVARARGS 0,
     proto ''tcgetpgrp'' ''pid_t'' 1
       [param ''fd'' ''int'' CDM_NOMOD PDIR_IN [] []] FAT_NOVARARGS 0,
     proto ''truncate'' ''int'' 2
       [param ''path'' ''ptr'' (CDM_POINTER OR CDM_CONST) PDIR_IN ''sz'' [],
        param ''length'' ''off_t'' CDM_NOMOD PDIR_IN [] []] FAT_NOVARARGS 0,
     proto ''ttyname'' ''ptr'' 1
       [param ''fd'' ''int'' CDM_NOMOD PDIR_IN [] []] FAT_NOVARARGS 0,
     proto ''ttyname_r'' ''int'' 3
       [param ''fd'' ''int'' CDM_NOMOD PDIR_IN [] [],
        param ''buf'' ''ptr'' CDM_POINTER PDIR_OUT ''sz'' [],
        param ''buflen'' ''size_t'' CDM_NOMOD PDIR_IN [] []] FAT_NOVARARGS 0,
     proto ''ualarm'' ''useconds_t'' 2
       [param ''usecs'' ''useconds_t'' CDM_NOMOD PDIR_IN [] [],
        param ''interval'' ''useconds_t'' CDM_NOMOD PDIR_IN [] []] FAT_NOVARARGS 0]"

definition unistd_prototypes_12 :: "func_prototype list" where
  "unistd_prototypes_12 =
    [proto ''unlink'' ''int'' 1
       [param ''pathname'' ''ptr'' (CDM_POINTER OR CDM_CONST) PDIR_IN ''sz'' []] FAT_NOVARARGS 0,
     proto ''usleep'' ''int'' 1
       [param ''usec'' ''useconds_t'' CDM_NOMOD PDIR_IN [] []] FAT_NOVARARGS 0,
     proto ''vfork'' ''pid_t'' 0
       [] FAT_NOVARARGS 0,
     proto ''write'' ''ssize_t'' 3
       [param ''fd'' ''int'' CDM_NOMOD PDIR_IN [] [],
        param ''buf'' ''ptr'' (CDM_POINTER OR CDM_ARRAY OR CDM_CONST) PDIR_IN ''char'' ''count'',
        param ''count'' ''size_t'' CDM_NOMOD PDIR_IN [] []] FAT_NOVARARGS 0]"

definition unistd_prototypes :: "func_prototype list" where
  "unistd_prototypes = unistd_prototypes_1 @ unistd_prototypes_2 @ unistd_prototypes_3 @ unistd_prototypes_4 @ unistd_prototypes_5 @ unistd_prototypes_6 @ unistd_prototypes_7 @ unistd_prototypes_8 @ unistd_prototypes_9 @ unistd_prototypes_10 @ unistd_prototypes_11 @ unistd_prototypes_12"

end
