(* ===== verification/Prototypes_Stdio.thy ===== *)
theory Prototypes_Stdio
  imports Prototypes
begin

unbundle bit_operations_syntax

section \<open>Prototypes of \<open>stdio.c\<close>\<close>

text \<open>
  The tables of \<open>src/src/core/prototypes/stdio.c\<close>, in the order of the source; a long table is the
  concatenation of its parts.
\<close>

definition stdio_prototypes_1 :: "func_prototype list" where
  "stdio_prototypes_1 =
    [proto ''fclose'' ''int'' 1
       [param ''stream'' ''ptr'' CDM_NOMOD PDIR_IN [] []] FAT_NOVARARGS 0,
     proto ''clearerr'' ''void'' 1
       [param ''stream'' ''ptr'' CDM_NOMOD PDIR_IN [] []] FAT_NOVARARGS 0,
     proto ''feof'' ''int'' 1
       [param ''stream'' ''ptr'' CDM_NOMOD PDIR_IN [] []] FAT_NOVARARGS 0,
     proto ''ferror'' ''int'' 1
       [param ''stream'' ''ptr'' CDM_NOMOD PDIR_IN [] []] FAT_NOVARARGS 0,
     proto ''fflush'' ''int'' 1
       [param ''stream'' ''ptr'' CDM_NOMOD PDIR_IN [] []] FAT_NOVARARGS 0,
     proto ''fgetpos'' ''int'' 2
       [param ''stream'' ''ptr'' CDM_NOMOD PDIR_IN [] [],
        param ''pos'' ''ptr'' CDM_NOMOD PDIR_IN [] []] FAT_NOVARARGS 0,
     proto ''fopen'' ''ptr'' 2
       [param ''filename'' ''ptr'' (CDM_POINTER OR CDM_CONST) PDIR_IN ''sz'' [],
        param ''mode'' ''ptr'' (CDM_POINTER OR CDM_CONST) PDIR_IN ''sz'' []] FAT_NOVARARGS 0]"

definition stdio_prototypes_2 :: "func_prototype list" where
  "stdio_prototypes_2 =
    [proto ''fread'' ''size_t'' 4
       [param ''ptr'' ''ptr'' CDM_NOMOD PDIR_OUT [] [],
        param ''size'' ''size_t'' CDM_NOMOD PDIR_IN [] [],
        param ''nmemb'' ''size_t'' CDM_NOMOD PDIR_IN [] [],
        param ''stream'' ''ptr'' CDM_NOMOD PDIR_IN [] []] FAT_NOVARARGS 0,
     proto ''freopen'' ''ptr'' 3
       [param ''filename'' ''ptr'' (CDM_POINTER OR CDM_CONST) PDIR_IN ''sz'' [],
        param ''mode'' ''ptr'' (CDM_POINTER OR CDM_CONST) PDIR_IN ''sz'' [],
        param ''stream'' ''ptr'' CDM_NOMOD PDIR_IN [] []] FAT_NOVARARGS 0,
     proto ''fseek'' ''int'' 3
       [param ''stream'' ''ptr'' CDM_NOMOD PDIR_IN [] [],
        param ''offset'' ''long'' CDM_NOMOD PDIR_IN [] [],
        param ''whence'' ''int'' CDM_NOMOD PDIR_IN [] []] FAT_NOVARARGS 0,
     proto ''fsetpos'' ''int'' 2
       [param ''stream'' ''ptr'' CDM_NOMOD PDIR_IN [] [],
        param ''pos'' ''ptr'' CDM_NOMOD PDIR_IN [] []] FAT_NOVARARGS 0,
     proto ''ftell'' ''long'' 1
       [param ''stream'' ''ptr'' CDM_NOMOD PDIR_IN [] []] FAT_NOVARARGS 0]"

definition stdio_prototypes_3 :: "func_prototype list" where
  "stdio_prototypes_3 =
    [proto ''fwrite'' ''size_t'' 4
       [param ''ptr'' ''ptr'' CDM_NOMOD PDIR_IN [] [],
        param ''size'' ''size_t'' CDM_NOMOD PDIR_IN [] [],
        param ''nmemb'' ''size_t'' CDM_NOMOD PDIR_IN [] [],
        param ''stream'' ''ptr'' CDM_NOMOD PDIR_IN [] []] FAT_NOVARARGS 0,
     proto ''remove'' ''int'' 1
       [param ''filename'' ''ptr'' (CDM_POINTER OR CDM_CONST) PDIR_IN ''sz'' []] FAT_NOVARARGS 0,
     proto ''rename'' ''int'' 2
       [param ''old_filename'' ''ptr'' (CDM_POINTER OR CDM_CONST) PDIR_IN ''sz'' [],
        param ''new_filename'' ''ptr'' (CDM_POINTER OR CDM_CONST) PDIR_IN ''sz'' []] FAT_NOVARARGS 0,
     proto ''rewind'' ''void'' 1
       [param ''stream'' ''ptr'' CDM_NOMOD PDIR_IN [] []] FAT_NOVARARGS 0,
     proto ''setbuf'' ''void'' 2
       [param ''stream'' ''ptr'' CDM_NOMOD PDIR_IN [] [],
        param ''buffer'' ''ptr'' CDM_NOMOD PDIR_IN [] []] FAT_NOVARARGS 0]"

definition stdio_prototypes_4 :: "func_prototype list" where
  "stdio_prototypes_4 =
    [proto ''setvbuf'' ''int'' 4
       [param ''stream'' ''ptr'' CDM_NOMOD PDIR_IN [] [],
        param ''buffer'' ''ptr'' CDM_NOMOD PDIR_IN [] [],
        param ''mode'' ''int'' CDM_NOMOD PDIR_IN [] [],
        param ''size'' ''size_t'' CDM_NOMOD PDIR_IN [] []] FAT_NOVARARGS 0,
     proto ''tmpfile'' ''ptr'' 0
       [] FAT_NOVARARGS 0,
     proto ''tmpnam'' ''ptr'' 1
       [param ''str'' ''ptr'' CDM_POINTER PDIR_IN ''sz'' []] FAT_NOVARARGS 0,
     proto ''printf'' ''int'' 1
       [param ''format'' ''ptr'' (CDM_POINTER OR CDM_CONST) PDIR_IN ''sz'' []] FAT_PRINTF 0,
     proto ''fprintf'' ''int'' 2
       [param ''stream'' ''ptr'' CDM_NOMOD PDIR_IN [] [],
        param ''format'' ''ptr'' (CDM_POINTER OR CDM_CONST) PDIR_IN ''sz'' []] FAT_PRINTF 1,
     proto ''sprintf'' ''int'' 2
       [param ''str'' ''ptr'' CDM_POINTER PDIR_OUT ''sz'' [],
        param ''format'' ''ptr'' (CDM_POINTER OR CDM_CONST) PDIR_IN ''sz'' []] FAT_PRINTF 1]"

definition stdio_prototypes_5 :: "func_prototype list" where
  "stdio_prototypes_5 =
    [proto ''snprintf'' ''int'' 3
       [param ''str'' ''ptr'' CDM_POINTER PDIR_OUT ''sz'' [],
        param ''size'' ''size_t'' CDM_NOMOD PDIR_IN [] [],
        param ''format'' ''ptr'' (CDM_POINTER OR CDM_CONST) PDIR_IN ''sz'' []] FAT_PRINTF 2,
     proto ''dprintf'' ''int'' 2
       [param ''fd'' ''int'' CDM_NOMOD PDIR_IN [] [],
        param ''format'' ''ptr'' (CDM_POINTER OR CDM_CONST) PDIR_IN ''sz'' []] FAT_PRINTF 1,
     proto ''vprintf'' ''int'' 2
       [param ''format'' ''ptr'' (CDM_POINTER OR CDM_CONST) PDIR_IN ''sz'' [],
        param ''arg'' ''ptr'' CDM_NOMOD PDIR_IN [] []] FAT_NOVARARGS 0,
     proto ''vfprintf'' ''int'' 3
       [param ''stream'' ''ptr'' CDM_NOMOD PDIR_IN [] [],
        param ''format'' ''ptr'' (CDM_POINTER OR CDM_CONST) PDIR_IN ''sz'' [],
        param ''arg'' ''ptr'' CDM_NOMOD PDIR_IN [] []] FAT_NOVARARGS 0,
     proto ''vsprintf'' ''int'' 3
       [param ''str'' ''ptr'' CDM_POINTER PDIR_OUT ''sz'' [],
        param ''format'' ''ptr'' (CDM_POINTER OR CDM_CONST) PDIR_IN ''sz'' [],
        param ''arg'' ''ptr'' CDM_NOMOD PDIR_IN [] []] FAT_NOVARARGS 0]"

definition stdio_prototypes_6 :: "func_prototype list" where
  "stdio_prototypes_6 =
    [proto ''vsnprintf'' ''int'' 4
       [param ''str'' ''ptr'' CDM_POINTER PDIR_OUT ''sz'' [],
        param ''size'' ''size_t'' CDM_NOMOD PDIR_IN [] [],
        param ''format'' ''ptr'' (CDM_POINTER OR CDM_CONST) PDIR_IN ''sz'' [],
        param ''arg'' ''ptr'' CDM_NOMOD PDIR_IN [] []] FAT_NOVARARGS 0,
     proto ''vdprintf'' ''int'' 3
       [param ''fd'' ''int'' CDM_NOMOD PDIR_IN [] [],
        param ''format'' ''ptr'' (CDM_POINTER OR CDM_CONST) PDIR_IN ''sz'' [],
        param ''arg'' ''ptr'' CDM_NOMOD PDIR_IN [] []] FAT_NOVARARGS 0,
     proto ''scanf'' ''int'' 1
       [param ''format'' ''ptr'' (CDM_POINTER OR CDM_CONST) PDIR_IN ''sz'' []] FAT_SCANF 0,
     proto ''fscanf'' ''int'' 2
       [param ''stream'' ''ptr'' CDM_NOMOD PDIR_IN [] [],
        param ''format'' ''ptr'' (CDM_POINTER OR CDM_CONST) PDIR_IN ''sz'' []] FAT_SCANF 1,
     proto ''sscanf'' ''int'' 2
       [param ''str'' ''ptr'' (CDM_POINTER OR CDM_CONST) PDIR_IN ''sz'' [],
        param ''format'' ''ptr'' (CDM_POINTER OR CDM_CONST) PDIR_IN ''sz'' []] FAT_SCANF 1]"

definition stdio_prototypes_7 :: "func_prototype list" where
  "stdio_prototypes_7 =
    [proto ''vscanf'' ''int'' 2
       [param ''format'' ''ptr'' (CDM_POINTER OR CDM_CONST) PDIR_IN ''sz'' [],
        param ''arg'' ''ptr'' CDM_NOMOD PDIR_IN [] []] FAT_NOVARARGS 0,
     proto ''vsscanf'' ''int'' 3
       [param ''str'' ''ptr'' (CDM_POINTER OR CDM_CONST) PDIR_IN ''sz'' [],
        param ''format'' ''ptr'' (CDM_POINTER OR CDM_CONST) PDIR_IN ''sz'' [],
        param ''arg'' ''ptr'' CDM_NOMOD PDIR_IN [] []] FAT_NOVARARGS 0,
     proto ''vfscanf'' ''int'' 3
       [param ''stream'' ''ptr'' CDM_NOMOD PDIR_IN [] [],
        param ''format'' ''ptr'' (CDM_POINTER OR CDM_CONST) PDIR_IN ''sz'' [],
        param ''arg'' ''ptr'' CDM_NOMOD PDIR_IN [] []] FAT_NOVARARGS 0,
     proto ''__isoc99_scanf'' ''int'' 1
       [param ''format'' ''ptr'' (CDM_POINTER OR CDM_CONST) PDIR_IN ''sz'' []] FAT_SCANF 0,
     proto ''__isoc99_fscanf'' ''int'' 2
       [param ''stream'' ''ptr'' CDM_NOMOD PDIR_IN [] [],
        param ''format'' ''ptr'' (CDM_POINTER OR CDM_CONST) PDIR_IN ''sz'' []] FAT_SCANF 1]"

definition stdio_prototypes_8 :: "func_prototype list" where
  "stdio_prototypes_8 =
    [proto ''__isoc99_sscanf'' ''int'' 2
       [param ''str'' ''ptr'' (CDM_POINTER OR CDM_CONST) PDIR_IN ''sz'' [],
        param ''format'' ''ptr'' (CDM_POINTER OR CDM_CONST) PDIR_IN ''sz'' []] FAT_SCANF 1,
     proto ''__isoc99_vscanf'' ''int'' 2
       [param ''format'' ''ptr'' (CDM_POINTER OR CDM_CONST) PDIR_IN ''sz'' [],
        param ''arg'' ''ptr'' CDM_NOMOD PDIR_IN [] []] FAT_NOVARARGS 0,
     proto ''__isoc99_vsscanf'' ''int'' 3
       [param ''str'' ''ptr'' (CDM_POINTER OR CDM_CONST) PDIR_IN ''sz'' [],
        param ''format'' ''ptr'' (CDM_POINTER OR CDM_CONST) PDIR_IN ''sz'' [],
        param ''arg'' ''ptr'' CDM_NOMOD PDIR_IN [] []] FAT_NOVARARGS 0,
     proto ''__isoc99_vfscanf'' ''int'' 3
       [param ''stream'' ''ptr'' CDM_NOMOD PDIR_IN [] [],
        param ''format'' ''ptr'' (CDM_POINTER OR CDM_CONST) PDIR_IN ''sz'' [],
        param ''arg'' ''ptr'' CDM_NOMOD PDIR_IN [] []] FAT_NOVARARGS 0,
     proto ''fgetc'' ''int'' 1
       [param ''stream'' ''ptr'' CDM_NOMOD PDIR_IN [] []] FAT_NOVARARGS 0]"

definition stdio_prototypes_9 :: "func_prototype list" where
  "stdio_prototypes_9 =
    [proto ''fgets'' ''ptr'' 3
       [param ''str'' ''ptr'' CDM_POINTER PDIR_OUT ''sz'' [],
        param ''n'' ''int'' CDM_NOMOD PDIR_IN [] [],
        param ''stream'' ''ptr'' CDM_NOMOD PDIR_IN [] []] FAT_NOVARARGS 0,
     proto ''fputc'' ''int'' 2
       [param ''char'' ''int'' CDM_NOMOD PDIR_IN [] [],
        param ''stream'' ''ptr'' CDM_NOMOD PDIR_IN [] []] FAT_NOVARARGS 0,
     proto ''fputs'' ''int'' 2
       [param ''str'' ''ptr'' (CDM_POINTER OR CDM_CONST) PDIR_IN ''sz'' [],
        param ''stream'' ''ptr'' CDM_NOMOD PDIR_IN [] []] FAT_NOVARARGS 0,
     proto ''getc'' ''int'' 1
       [param ''stream'' ''ptr'' CDM_NOMOD PDIR_IN [] []] FAT_NOVARARGS 0,
     proto ''getchar'' ''int'' 0
       [] FAT_NOVARARGS 0,
     proto ''gets'' ''ptr'' 1
       [param ''str'' ''ptr'' CDM_POINTER PDIR_OUT ''sz'' []] FAT_NOVARARGS 0,
     proto ''putc'' ''int'' 2
       [param ''char'' ''int'' CDM_NOMOD PDIR_IN [] [],
        param ''stream'' ''ptr'' CDM_NOMOD PDIR_IN [] []] FAT_NOVARARGS 0]"

definition stdio_prototypes_10 :: "func_prototype list" where
  "stdio_prototypes_10 =
    [proto ''putchar'' ''int'' 2
       [param ''char'' ''int'' CDM_NOMOD PDIR_IN [] [],
        param ''stream'' ''ptr'' CDM_NOMOD PDIR_IN [] []] FAT_NOVARARGS 0,
     proto ''puts'' ''int'' 1
       [param ''str'' ''ptr'' (CDM_POINTER OR CDM_CONST) PDIR_IN ''sz'' []] FAT_NOVARARGS 0,
     proto ''ungetc'' ''int'' 2
       [param ''char'' ''int'' CDM_NOMOD PDIR_IN [] [],
        param ''stream'' ''ptr'' CDM_NOMOD PDIR_IN [] []] FAT_NOVARARGS 0,
     proto ''perror'' ''void'' 1
       [param ''str'' ''ptr'' (CDM_POINTER OR CDM_CONST) PDIR_IN ''sz'' []] FAT_NOVARARGS 0,
     proto ''popen'' ''ptr'' 2
       [param ''command'' ''ptr'' (CDM_POINTER OR CDM_CONST) PDIR_IN ''sz'' [],
        param ''type'' ''ptr'' (CDM_POINTER OR CDM_CONST) PDIR_IN ''sz'' []] FAT_NOVARARGS 0,
     proto ''pclose'' ''int'' 1
       [param ''stream'' ''ptr'' CDM_NOMOD PDIR_IN [] []] FAT_NOVARARGS 0]"

definition stdio_prototypes :: "func_prototype list" where
  "stdio_prototypes = stdio_prototypes_1 @ stdio_prototypes_2 @ stdio_prototypes_3 @ stdio_prototypes_4 @ stdio_prototypes_5 @ stdio_prototypes_6 @ stdio_prototypes_7 @ stdio_prototypes_8 @ stdio_prototypes_9 @ stdio_prototypes_10"

end
