(* ===== verification/Prototypes_Library.thy ===== *)
theory Prototypes_Library
  imports Prototypes
begin

unbundle bit_operations_syntax

section \<open>Prototypes of \<open>locale.c\<close>, \<open>ctype.c\<close>, \<open>signal.c\<close>, \<open>stdlib.c\<close>, \<open>string.c\<close>, \<open>time.c\<close>\<close>

text \<open>
  The tables of \<open>src/src/core/prototypes/locale.c\<close>, \<open>src/src/core/prototypes/ctype.c\<close>, \<open>src/src/core/prototypes/signal.c\<close>, \<open>src/src/core/prototypes/stdlib.c\<close>, \<open>src/src/core/prototypes/string.c\<close>, \<open>src/src/core/prototypes/time.c\<close>, in the order of the source; a long table is the
  concatenation of its parts.
\<close>

definition locale_prototypes :: "func_prototype list" where
  "locale_prototypes =
    [proto ''setlocale'' ''ptr'' 2
       [param ''category'' ''int'' CDM_NOMOD PDIR_IN [] [],
        param ''locale'' ''ptr'' (CDM_POINTER OR CDM_CONST) PDIR_IN ''sz'' []] FAT_NOVARARGS 0,
     proto ''localeconv'' ''ptr'' 0
       [] FAT_NOVARARGS 0]"

definition ctype_prototypes_1 :: "func_prototype list" where
  "ctype_prototypes_1 =
    [proto ''isalnum'' ''int'' 1
       [param ''c'' ''int'' CDM_NOMOD PDIR_IN [] []] FAT_NOVARARGS 0,
     proto ''isalpha'' ''int'' 1
       [param ''c'' ''int'' CDM_NOMOD PDIR_IN [] []] FAT_NOVARARGS 0,
     proto ''isblank'' ''int'' 1
       [param ''c'' ''int'' CDM_NOMOD PDIR_IN [] []] FAT_NOVARARGS 0,
     proto ''iscntrl'' ''int'' 1
       [param ''c'' ''int'' CDM_NOMOD PDIR_IN [] []] FAT_NOVARARGS 0,
     proto ''isdigit'' ''int'' 1
       [param ''c'' ''int'' CDM_NOMOD PDIR_IN [] []] FAT_NOVARARGS 0,
     proto ''isgraph'' ''int'' 1
       [param ''c'' ''int'' CDM_NOMOD PDIR_IN [] []] FAT_NOVARARGS 0,
     proto ''islower'' ''int'' 1
       [param ''c'' ''int'' CDM_NOMOD PDIR_IN [] []] FAT_NOVARARGS 0,
     proto ''isprint'' ''int'' 1
       [param ''c'' ''int'' CDM_NOMOD PDIR_IN [] []] FAT_NOVARARGS 0,
     proto ''ispunct'' ''int'' 1
       [param ''c'' ''int'' CDM_NOMOD PDIR_IN [] []] FAT_NOVARARGS 0,
     proto ''isspace'' ''int'' 1
       [param ''c'' ''int'' CDM_NOMOD PDIR_IN [] []] FAT_NOVARARGS 0,
     proto ''isupper'' ''int'' 1
       [param ''c'' ''int'' CDM_NOMOD PDIR_IN [] []] FAT_NOVARARGS 0]"

definition ctype_prototypes_2 :: "func_prototype list" where
  "ctype_prototypes_2 =
    [proto ''isxdigit'' ''int'' 1
       [param ''c'' ''int'' CDM_NOMOD PDIR_IN [] []] FAT_NOVARARGS 0,
     proto ''toupper'' ''int'' 1
       [param ''c'' ''int'' CDM_NOMOD PDIR_IN [] []] FAT_NOVARARGS 0,
     proto ''tolower'' ''int'' 1
       [param ''c'' ''int'' CDM_NOMOD PDIR_IN [] []] FAT_NOVARARGS 0]"

definition ctype_prototypes :: "func_prototype list" where
  "ctype_prototypes = ctype_prototypes_1 @ ctype_prototypes_2"

definition signal_prototypes :: "func_prototype list" where
  "signal_prototypes =
    [proto ''signal'' ''ptr'' 2
       [param ''sig'' ''int'' CDM_NOMOD PDIR_IN [] [],
        param ''func'' ''ptr'' CDM_NOMOD PDIR_IN [] []] FAT_NOVARARGS 0,
     proto ''raise'' ''int'' 1
       [param ''sig'' ''int'' CDM_NOMOD PDIR_IN [] []] FAT_NOVARARGS 0]"

definition stdlib_prototypes_1 :: "func_prototype list" where
  "stdlib_prototypes_1 =
    [proto ''atoi'' ''int'' 1
       [param ''str'' ''ptr'' (CDM_POINTER OR CDM_CONST) PDIR_IN ''sz'' []] FAT_NOVARARGS 0,
     proto ''atol'' ''long'' 1
       [param ''str'' ''ptr'' (CDM_POINTER OR CDM_CONST) PDIR_IN ''sz'' []] FAT_NOVARARGS 0,
     proto ''strtol'' ''long'' 3
       [param ''str'' ''ptr'' (CDM_POINTER OR CDM_CONST) PDIR_IN ''sz'' [],
        param ''endptr'' ''ptr'' CDM_POINTER PDIR_OUT ''ptr'' [],
        param ''base'' ''int'' CDM_NOMOD PDIR_IN [] []] FAT_NOVARARGS 0,
     proto ''strtoul'' ''unsigned long'' 3
       [param ''str'' ''ptr'' (CDM_POINTER OR CDM_CONST) PDIR_IN ''sz'' [],
        param ''endptr'' ''ptr'' CDM_POINTER PDIR_OUT ''ptr'' [],
        param ''base'' ''int'' CDM_NOMOD PDIR_IN [] []] FAT_NOVARARGS 0,
     proto ''calloc'' ''ptr'' 2
       [param ''nitems'' ''size_t'' CDM_NOMOD PDIR_IN [] [],
        param ''size'' ''size_t'' CDM_NOMOD PDIR_IN [] []] FAT_NOVARARGS 0,
     proto ''free'' ''void'' 1
       [param ''ptr'' ''ptr'' CDM_NOMOD PDIR_IN [] []] FAT_NOVARARGS 0]"

definition stdlib_prototypes_2 :: "func_prototype list" where
  "stdlib_prototypes_2 =
    [proto ''malloc'' ''ptr'' 1
       [param ''size'' ''size_t'' CDM_NOMOD PDIR_IN [] []] FAT_NOVARARGS 0,
     proto ''realloc'' ''ptr'' 2
       [param ''ptr'' ''ptr'' CDM_NOMOD PDIR_IN [] [],
        param ''size'' ''size_t'' CDM_NOMOD PDIR_IN [] []] FAT_NOVARARGS 0,
     proto ''abort'' ''void'' 0
       [] FAT_NOVARARGS 0,
     proto ''atexit'' ''int'' 1
       [param ''func'' ''ptr'' CDM_NOMOD PDIR_IN [] []] FAT_NOVARARGS 0,
     proto ''exit'' ''void'' 1
       [param ''status'' ''int'' CDM_NOMOD PDIR_IN [] []] FAT_NOVARARGS 0,
     proto ''getenv'' ''ptr'' 1
       [param ''name'' ''ptr'' (CDM_POINTER OR CDM_CONST) PDIR_IN ''sz'' []] FAT_NOVARARGS 0,
     proto ''system'' ''int'' 1
       [param ''string'' ''ptr'' (CDM_POINTER OR CDM_CONST) PDIR_IN ''sz'' []] FAT_NOVARARGS 0,
     proto ''bsearch'' ''ptr'' 5
       [param ''key'' ''ptr'' CDM_NOMOD PDIR_IN [] [],
        param ''base'' ''ptr'' CDM_NOMOD PDIR_IN [] [],
        param ''nitems'' ''size_t'' CDM_NOMOD PDIR_IN [] [],
        param ''size'' ''size_t'' CDM_NOMOD PDIR_IN [] [],
        param ''compar'' ''ptr'' CDM_NOMOD PDIR_IN [] []] FAT_NOVARARGS 0]"

definition stdlib_prototypes_3 :: "func_prototype list" where
  "stdlib_prototypes_3 =
    [proto ''qsort'' ''void'' 4
       [param ''base'' ''ptr'' CDM_NOMOD PDIR_IN [] [],
        param ''nitems'' ''size_t'' CDM_NOMOD PDIR_IN [] [],
        param ''size'' ''size_t'' CDM_NOMOD PDIR_IN [] [],
        param ''compar'' ''ptr'' CDM_NOMOD PDIR_IN [] []] FAT_NOVARARGS 0,
     proto ''abs'' ''int'' 1
       [param ''x'' ''int'' CDM_NOMOD PDIR_IN [] []] FAT_NOVARARGS 0,
     proto ''div'' ''ptr'' 2
       [param ''numer'' ''int'' CDM_NOMOD PDIR_IN [] [],
        param ''denom'' ''int'' CDM_NOMOD PDIR_IN [] []] FAT_NOVARARGS 0,
     proto ''labs'' ''long'' 1
       [param ''x'' ''long'' CDM_NOMOD PDIR_IN [] []] FAT_NOVARARGS 0,
     proto ''ldiv'' ''ptr'' 2
       [param ''numer'' ''long'' CDM_NOMOD PDIR_IN [] [],
        param ''denom'' ''long'' CDM_NOMOD PDIR_IN [] []] FAT_NOVARARGS 0,
     proto ''rand'' ''int'' 0
       [] FAT_NOVARARGS 0,
     proto ''srand'' ''void'' 1
       [param ''seed'' ''unsigned int'' CDM_NOMOD PDIR_IN [] []] FAT_NOVARARGS 0,
     proto ''mblen'' ''int'' 2
       [param ''str'' ''ptr'' (CDM_POINTER OR CDM_CONST) PDIR_IN ''sz'' [],
        param ''n'' ''size_t'' CDM_NOMOD PDIR_IN [] []] FAT_NOVARARGS 0]"

definition stdlib_prototypes_4 :: "func_prototype list" where
  "stdlib_prototypes_4 =
    [proto ''mbstowcs'' ''size_t'' 3
       [param ''pwcs'' ''ptr'' CDM_NOMOD PDIR_OUT [] [],
        param ''str'' ''ptr'' (CDM_POINTER OR CDM_CONST) PDIR_IN ''sz'' [],
        param ''n'' ''size_t'' CDM_NOMOD PDIR_IN [] []] FAT_NOVARARGS 0,
     proto ''mbtowc'' ''int'' 3
       [param ''pwcs'' ''ptr'' CDM_NOMOD PDIR_OUT [] [],
        param ''str'' ''ptr'' (CDM_POINTER OR CDM_CONST) PDIR_IN ''sz'' [],
        param ''n'' ''size_t'' CDM_NOMOD PDIR_IN [] []] FAT_NOVARARGS 0,
     proto ''wcstombs'' ''size_t'' 3
       [param ''str'' ''ptr'' CDM_POINTER PDIR_OUT ''sz'' [],
        param ''pwcs'' ''ptr'' CDM_NOMOD PDIR_IN [] [],
        param ''n'' ''size_t'' CDM_NOMOD PDIR_IN [] []] FAT_NOVARARGS 0,
     proto ''wctomb'' ''int'' 2
       [param ''str'' ''ptr'' CDM_POINTER PDIR_OUT ''sz'' [],
        param ''wchar'' ''int16_t'' CDM_NOMOD PDIR_IN [] []] FAT_NOVARARGS 0]"

definition stdlib_prototypes :: "func_prototype list" where
  "stdlib_prototypes = stdlib_prototypes_1 @ stdlib_prototypes_2 @ stdlib_prototypes_3 @ stdlib_prototypes_4"

definition string_prototypes_1 :: "func_prototype list" where
  "string_prototypes_1 =
    [proto ''strlen'' ''size_t'' 1
       [param ''s'' ''ptr'' (CDM_POINTER OR CDM_CONST) PDIR_IN ''sz'' []] FAT_NOVARARGS 0,
     proto ''strcmp'' ''int'' 2
       [param ''s1'' ''ptr'' (CDM_POINTER OR CDM_CONST) PDIR_IN ''sz'' [],
        param ''s2'' ''ptr'' (CDM_POINTER OR CDM_CONST) PDIR_IN ''sz'' []] FAT_NOVARARGS 0,
     proto ''strncmp'' ''int'' 3
       [param ''s1'' ''ptr'' (CDM_POINTER OR CDM_CONST) PDIR_IN ''sz'' [],
        param ''s2'' ''ptr'' (CDM_POINTER OR CDM_CONST) PDIR_IN ''sz'' [],
        param ''n'' ''size_t'' CDM_NOMOD PDIR_IN [] []] FAT_NOVARARGS 0,
     proto ''strcoll'' ''int'' 2
       [param ''s1'' ''ptr'' (CDM_POINTER OR CDM_CONST) PDIR_IN ''sz'' [],
        param ''s2'' ''ptr'' (CDM_POINTER OR CDM_CONST) PDIR_IN ''sz'' []] FAT_NOVARARGS 0,
     proto ''strerror'' ''ptr'' 1
       [param ''errnum'' ''int'' CDM_NOMOD PDIR_IN [] []] FAT_NOVARARGS 0,
     proto ''strxfrm'' ''size_t'' 3
       [param ''dst'' ''ptr'' CDM_POINTER PDIR_OUT ''sz'' [],
        param ''src'' ''ptr'' (CDM_POINTER OR CDM_CONST) PDIR_IN ''sz'' [],
        param ''n'' ''size_t'' CDM_NOMOD PDIR_IN [] []] FAT_NOVARARGS 0]"

definition string_prototypes_2 :: "func_prototype list" where
  "string_prototypes_2 =
    [proto ''strchr'' ''ptr'' 2
       [param ''s'' ''ptr'' (CDM_POINTER OR CDM_CONST) PDIR_IN ''sz'' [],
        param ''c'' ''int'' CDM_NOMOD PDIR_IN [] []] FAT_NOVARARGS 0,
     proto ''strrchr'' ''ptr'' 2
       [param ''s'' ''ptr'' (CDM_POINTER OR CDM_CONST) PDIR_IN ''sz'' [],
        param ''c'' ''int'' CDM_NOMOD PDIR_IN [] []] FAT_NOVARARGS 0,
     proto ''strstr'' ''ptr'' 2
       [param ''haystack'' ''ptr'' (CDM_POINTER OR CDM_CONST) PDIR_IN ''sz'' [],
        param ''needle'' ''ptr'' (CDM_POINTER OR CDM_CONST) PDIR_IN ''sz'' []] FAT_NOVARARGS 0,
     proto ''strpbrk'' ''ptr'' 2
       [param ''s'' ''ptr'' (CDM_POINTER OR CDM_CONST) PDIR_IN ''sz'' [],
        param ''accept'' ''ptr'' (CDM_POINTER OR CDM_CONST) PDIR_IN ''sz'' []] FAT_NOVARARGS 0,
     proto ''strcspn'' ''size_t'' 2
       [param ''s'' ''ptr'' (CDM_POINTER OR CDM_CONST) PDIR_IN ''sz'' [],
        param ''reject'' ''ptr'' (CDM_POINTER OR CDM_CONST) PDIR_IN ''sz'' []] FAT_NOVARARGS 0,
     proto ''strspn'' ''size_t'' 2
       [param ''s'' ''ptr'' (CDM_POINTER OR CDM_CONST) PDIR_IN ''sz'' [],
        param ''accept'' ''ptr'' (CDM_POINTER OR CDM_CONST) PDIR_IN ''sz'' []] FAT_NOVARARGS 0]"

definition string_prototypes_3 :: "func_prototype list" where
  "string_prototypes_3 =
    [proto ''strtok'' ''ptr'' 2
       [param ''s'' ''ptr'' (CDM_POINTER OR CDM_CONST) PDIR_IN ''sz'' [],
        param ''delim'' ''ptr'' (CDM_POINTER OR CDM_CONST) PDIR_IN ''sz'' []] FAT_NOVARARGS 0,
     proto ''strcpy'' ''ptr'' 2
       [param ''dst'' ''ptr'' CDM_POINTER PDIR_OUT ''sz'' [],
        param ''src'' ''ptr'' (CDM_POINTER OR CDM_CONST) PDIR_IN ''sz'' []] FAT_NOVARARGS 0,
     proto ''strncpy'' ''ptr'' 3
       [param ''dst'' ''ptr'' CDM_POINTER PDIR_OUT ''sz'' [],
        param ''src'' ''ptr'' (CDM_POINTER OR CDM_CONST) PDIR_IN ''sz'' [],
        param ''n'' ''size_t'' CDM_NOMOD PDIR_IN [] []] FAT_NOVARARGS 0,
     proto ''strcat'' ''ptr'' 2
       [param ''dst'' ''ptr'' CDM_POINTER PDIR_INOUT ''sz'' [],
        param ''src'' ''ptr'' (CDM_POINTER OR CDM_CONST) PDIR_IN ''sz'' []] FAT_NOVARARGS 0,
     proto ''strncat'' ''ptr'' 3
       [param ''dst'' ''ptr'' CDM_POINTER PDIR_INOUT ''sz'' [],
        param ''src'' ''ptr'' (CDM_POINTER OR CDM_CONST) PDIR_IN ''sz'' [],
        param ''n'' ''size_t'' CDM_NOMOD PDIR_IN [] []] FAT_NOVARARGS 0]"

definition string_prototypes_4 :: "func_prototype list" where
  "string_prototypes_4 =
    [proto ''memchr'' ''ptr'' 3
       [param ''s'' ''ptr'' CDM_NOMOD PDIR_IN [] [],
        param ''c'' ''int'' CDM_NOMOD PDIR_IN [] [],
        param ''n'' ''size_t'' CDM_NOMOD PDIR_IN [] []] FAT_NOVARARGS 0,
     proto ''memcmp'' ''int'' 3
       [param ''s1'' ''ptr'' CDM_NOMOD PDIR_IN [] [],
        param ''s2'' ''ptr'' CDM_NOMOD PDIR_IN [] [],
        param ''n'' ''size_t'' CDM_NOMOD PDIR_IN [] []] FAT_NOVARARGS 0,
     proto ''memcpy'' ''ptr'' 3
       [param ''dst'' ''ptr'' CDM_NOMOD PDIR_OUT [] [],
        param ''src'' ''ptr'' CDM_NOMOD PDIR_IN [] [],
        param ''n'' ''size_t'' CDM_NOMOD PDIR_IN [] []] FAT_NOVARARGS 0,
     proto ''memmove'' ''ptr'' 3
       [param ''dst'' ''ptr'' CDM_NOMOD PDIR_OUT [] [],
        param ''src'' ''ptr'' CDM_NOMOD PDIR_IN [] [],
        param ''n'' ''size_t'' CDM_NOMOD PDIR_IN [] []] FAT_NOVARARGS 0,
     proto ''memset'' ''ptr'' 3
       [param ''s'' ''ptr'' CDM_NOMOD PDIR_OUT [] [],
        param ''c'' ''int'' CDM_NOMOD PDIR_IN [] [],
        param ''n'' ''size_t'' CDM_NOMOD PDIR_IN [] []] FAT_NOVARARGS 0]"

definition string_prototypes :: "func_prototype list" where
  "string_prototypes = string_prototypes_1 @ string_prototypes_2 @ string_prototypes_3 @ string_prototypes_4"

definition time_prototypes :: "func_prototype list" where
  "time_prototypes =
    [proto ''time'' ''long'' 1
       [param ''tloc'' ''ptr'' CDM_POINTER PDIR_OUT ''long'' []] FAT_NOVARARGS 0,
     proto ''ctime_r'' ''ptr'' 2
       [param ''time'' ''ptr'' (CDM_POINTER OR CDM_CONST) PDIR_IN ''long'' [],
        param ''buf'' ''ptr'' CDM_POINTER PDIR_OUT ''sz'' []] FAT_NOVARARGS 0,
     proto ''localtime_r'' ''ptr'' 2
       [param ''timep'' ''ptr'' (CDM_POINTER OR CDM_CONST) PDIR_IN ''long'' [],
        param ''result'' ''ptr'' CDM_NOMOD PDIR_OUT [] []] FAT_NOVARARGS 0]"

end
