(* ===== verification/Prototypes_System.thy ===== *)
theory Prototypes_System
  imports Prototypes
begin

unbundle bit_operations_syntax

section \<open>Prototypes of \<open>uio.c\<close>, \<open>dirent.c\<close>, \<open>mman.c\<close>, \<open>sys_socket.c\<close>\<close>

text \<open>
  The tables of \<open>src/src/core/prototypes/uio.c\<close>, \<open>src/src/core/prototypes/dirent.c\<close>, \<open>src/src/core/prototypes/mman.c\<close>, \<open>src/src/core/prototypes/sys_socket.c\<close>, in the order of the source; a long table is the
  concatenation of its parts.
\<close>

definition uio_prototypes :: "func_prototype list" where
  "uio_prototypes =
    [proto ''writev'' ''size_t'' 3
       [param ''fd'' ''int'' CDM_NOMOD PDIR_IN [] [],
        param ''iovec'' ''ptr'' (CDM_POINTER OR CDM_CONST OR CDM_ARRAY) PDIR_IN ''iovec'' ''iovcnt'',
        param ''iovcnt'' ''int'' CDM_NOMOD PDIR_IN [] []] FAT_NOVARARGS 0,
     proto ''readv'' ''size_t'' 3
       [param ''fd'' ''int'' CDM_NOMOD PDIR_IN [] [],
        param ''iovec'' ''ptr'' (CDM_POINTER OR CDM_CONST OR CDM_ARRAY) PDIR_IN ''iovec'' ''iovcnt'',
        param ''iovcnt'' ''int'' CDM_NOMOD PDIR_IN [] []] FAT_NOVARARGS 0]"

definition dirent_prototypes :: "func_prototype list" where
  "dirent_prototypes =
    [proto ''opendir'' ''ptr'' 1
       [param ''name'' ''ptr'' (CDM_POINTER OR CDM_CONST) PDIR_IN ''sz'' []] FAT_NOVARARGS 0,
     proto ''fdopendir'' ''ptr'' 1
       [param ''fd'' ''int'' CDM_NOMOD PDIR_IN [] []] FAT_NOVARARGS 0,
     proto ''readdir'' ''ptr'' 1
       [param ''dirp'' ''ptr'' CDM_POINTER PDIR_IN [] []] FAT_NOVARARGS 0,
     proto ''telldir'' ''long'' 1
       [param ''dirp'' ''ptr'' CDM_NOMOD PDIR_IN [] []] FAT_NOVARARGS 0,
     proto ''seekdir'' ''long'' 2
       [param ''dirp'' ''ptr'' CDM_NOMOD PDIR_IN [] [],
        param ''loc'' ''long'' CDM_NOMOD PDIR_IN [] []] FAT_NOVARARGS 0,
     proto ''rewinddir'' ''void'' 1
       [param ''dirp'' ''ptr'' CDM_NOMOD PDIR_IN [] []] FAT_NOVARARGS 0]"

definition mman_prototypes :: "func_prototype list" where
  "mman_prototypes =
    [proto ''mmap'' ''ptr'' 6
       [param ''addr'' ''ptr'' CDM_NOMOD PDIR_IN [] [],
        param ''length'' ''size_t'' CDM_NOMOD PDIR_IN [] [],
        param ''prot'' ''int'' CDM_NOMOD PDIR_IN [] [],
        param ''flags'' ''int'' CDM_NOMOD PDIR_IN [] [],
        param ''fd'' ''int'' CDM_NOMOD PDIR_IN [] [],
        param ''offset'' ''off_t'' CDM_NOMOD PDIR_IN [] []] FAT_NOVARARGS 0,
     proto ''munmap'' ''int'' 2
       [param ''addr'' ''ptr'' CDM_NOMOD PDIR_IN [] [],
        param ''length'' ''size_t'' CDM_NOMOD PDIR_IN [] []] FAT_NOVARARGS 0]"

definition sys_socket_prototypes_1 :: "func_prototype list" where
  "sys_socket_prototypes_1 =
    [proto ''socket'' ''int'' 3
       [param ''domain'' ''int'' CDM_NOMOD PDIR_IN [] [],
        param ''type'' ''int'' CDM_NOMOD PDIR_IN [] [],
        param ''protocol'' ''int'' CDM_NOMOD PDIR_IN [] []] FAT_NOVARARGS 0,
     proto ''connect'' ''int'' 3
       [param ''sockfd'' ''int'' CDM_NOMOD PDIR_IN [] [],
        param ''addr'' ''ptr'' CDM_POINTER PDIR_IN ''void'' [],
        param ''addrlen'' ''int'' CDM_NOMOD PDIR_IN [] []] FAT_NOVARARGS 0,
     proto ''bind'' ''int'' 3
       [param ''sockfd'' ''int'' CDM_NOMOD PDIR_IN [] [],
        param ''addr'' ''ptr'' CDM_POINTER PDIR_IN ''void'' [],
        param ''addrlen'' ''int'' CDM_NOMOD PDIR_IN [] []] FAT_NOVARARGS 0,
     proto ''listen'' ''int'' 2
       [param ''sockfd'' ''int'' CDM_NOMOD PDIR_IN [] [],
        param ''backlog'' ''int'' CDM_NOMOD PDIR_IN [] []] FAT_NOVARARGS 0,
     proto ''accept'' ''int'' 3
       [param ''sockfd'' ''int'' CDM_NOMOD PDIR_IN [] [],
        param ''addr'' ''ptr'' CDM_POINTER PDIR_OUT ''void'' [],
        param ''addrlen'' ''ptr'' CDM_POINTER PDIR_INOUT ''int'' []] FAT_NOVARARGS 0]"

definition sys_socket_prototypes_2 :: "func_prototype list" where
  "sys_socket_prototypes_2 =
    [proto ''send'' ''int'' 4
       [param ''sockfd'' ''int'' CDM_NOMOD PDIR_IN [] [],
        param ''buf'' ''ptr'' CDM_POINTER PDIR_IN ''void'' [],
        param ''len'' ''sz'' CDM_NOMOD PDIR_IN [] [],
        param ''flags'' ''int'' CDM_NOMOD PDIR_IN [] []] FAT_NOVARARGS 0,
     proto ''recv'' ''int'' 4
       [param ''sockfd'' ''int'' CDM_NOMOD PDIR_IN [] [],
        param ''buf'' ''ptr'' CDM_POINTER PDIR_OUT ''void'' [],
        param ''len'' ''sz'' CDM_NOMOD PDIR_IN [] [],
        param ''flags'' ''int'' CDM_NOMOD PDIR_IN [] []] FAT_NOVARARGS 0,
     proto ''sendto'' ''int'' 6
       [param ''sockfd'' ''int'' CDM_NOMOD PDIR_IN [] [],
        param ''buf'' ''ptr'' CDM_POINTER PDIR_IN ''void'' [],
        param ''len'' ''sz'' CDM_NOMOD PDIR_IN [] [],
        param ''flags'' ''int'' CDM_NOMOD PDIR_IN [] [],
        param ''dest_addr'' ''ptr'' CDM_POINTER PDIR_IN ''void'' [],
        param ''addrlen'' ''int'' CDM_NOMOD PDIR_IN [] []] FAT_NOVARARGS 0]"

definition sys_socket_prototypes_3 :: "func_prototype list" where
  "sys_socket_prototypes_3 =
    [proto ''recvfrom'' ''int'' 6
       [param ''sockfd'' ''int'' CDM_NOMOD PDIR_IN [] [],
        param ''buf'' ''ptr'' CDM_POINTER PDIR_OUT ''void'' [],
        param ''len'' ''sz'' CDM_NOMOD PDIR_IN [] [],
        param ''flags'' ''int'' CDM_NOMOD PDIR_IN [] [],
        param ''src_addr'' ''ptr'' CDM_POINTER PDIR_OUT ''void'' [],
        param ''addrlen'' ''ptr'' CDM_POINTER PDIR_INOUT ''int'' []] FAT_NOVARARGS 0,
     proto ''setsockopt'' ''int'' 4
       [param ''sockfd'' ''int'' CDM_NOMOD PDIR_IN [] [],
        param ''level'' ''int'' CDM_NOMOD PDIR_IN [] [],
        param ''optname'' ''int'' CDM_NOMOD PDIR_IN [] [],
        param ''optval'' ''ptr'' CDM_POINTER PDIR_IN ''void'' []] FAT_NOVARARGS 0,
     proto ''getsockopt'' ''int'' 4
       [param ''sockfd'' ''int'' CDM_NOMOD PDIR_IN [] [],
        param ''level'' ''int'' CDM_NOMOD PDIR_IN [] [],
        param ''optname'' ''int'' CDM_NOMOD PDIR_IN [] [],
        param ''optval'' ''ptr'' CDM_POINTER PDIR_OUT ''void'' []] FAT_NOVARARGS 0]"

definition sys_socket_prototypes_4 :: "func_prototype list" where
  "sys_socket_prototypes_4 =
    [proto ''socketpair'' ''int'' 4
       [param ''domain'' ''int'' CDM_NOMOD PDIR_IN [] [],
        param ''type'' ''int'' CDM_NOMOD PDIR_IN [] [],
        param ''protocol'' ''int'' CDM_NOMOD PDIR_IN [] [],
        param ''sv'' ''ptr'' CDM_POINTER PDIR_OUT ''int'' []] FAT_NOVARARGS 0,
     proto ''accept4'' ''int'' 4
       [param ''sockfd'' ''int'' CDM_NOMOD PDIR_IN [] [],
        param ''addr'' ''ptr'' CDM_POINTER PDIR_OUT ''void'' [],
        param ''addrlen'' ''ptr'' CDM_POINTER PDIR_INOUT ''int'' [],
        param ''flags'' ''int'' CDM_NOMOD PDIR_IN [] []] FAT_NOVARARGS 0,
     proto ''shutdown'' ''int'' 2
       [param ''sockfd'' ''int'' CDM_NOMOD PDIR_IN [] [],
        param ''how'' ''int'' CDM_NOMOD PDIR_IN [] []] FAT_NOVARARGS 0,
     proto ''sendmsg'' ''int'' 3
       [param ''sockfd'' ''int'' CDM_NOMOD PDIR_IN [] [],
        param ''msg'' ''ptr'' CDM_POINTER PDIR_IN ''void'' [],
        param ''flags'' ''int'' CDM_NOMOD PDIR_IN [] []] FAT_NOVARARGS 0,
     proto ''recvmsg'' ''int'' 3
       [param ''sockfd'' ''int'' CDM_NOMOD PDIR_IN [] [],
        param ''msg'' ''ptr'' CDM_POINTER PDIR_INOUT ''void'' [],
        param ''flags'' ''int'' CDM_NOMOD PDIR_IN [] []] FAT_NOVARARGS 0]"

definition sys_socket_prototypes_5 :: "func_prototype list" where
  "sys_socket_prototypes_5 =
    [proto ''gethostbyname'' ''ptr'' 1
       [param ''name'' ''ptr'' (CDM_POINTER OR CDM_CONST) PDIR_IN ''sz'' []] FAT_NOVARARGS 0,
     proto ''getaddrinfo'' ''int'' 4
       [param ''node'' ''ptr'' (CDM_POINTER OR CDM_CONST) PDIR_IN ''sz'' [],
        param ''service'' ''ptr'' (CDM_POINTER OR CDM_CONST) PDIR_IN ''sz'' [],
        param ''hints'' ''ptr'' (CDM_POINTER OR CDM_CONST) PDIR_IN ''void'' [],
        param ''res'' ''ptr'' CDM_POINTER PDIR_OUT ''ptr'' []] FAT_NOVARARGS 0,
     proto ''freeaddrinfo'' ''void'' 1
       [param ''res'' ''ptr'' CDM_POINTER PDIR_IN ''void'' []] FAT_NOVARARGS 0,
     proto ''gai_strerror'' ''ptr'' 1
       [param ''errcode'' ''int'' CDM_NOMOD PDIR_IN [] []] FAT_NOVARARGS 0,
     proto ''inet_pton'' ''int'' 3
       [param ''af'' ''int'' CDM_NOMOD PDIR_IN [] [],
        param ''src'' ''ptr'' (CDM_POINTER OR CDM_CONST) PDIR_IN ''sz'' [],
        param ''dst'' ''ptr'' CDM_POINTER PDIR_OUT ''void'' []] FAT_NOVARARGS 0,
     proto ''inet_ntop'' ''ptr'' 4
       [param ''af'' ''int'' CDM_NOMOD PDIR_IN [] [],
        param ''src'' ''ptr'' (CDM_POINTER OR CDM_CONST) PDIR_IN ''void'' [],
        param ''dst'' ''ptr'' CDM_POINTER PDIR_OUT ''sz'' [],
        param ''size'' ''sz'' CDM_NOMOD PDIR_IN [] []] FAT_NOVARARGS 0]"

definition sys_socket_prototypes_6 :: "func_prototype list" where
  "sys_socket_prototypes_6 =
    [proto ''inet_addr'' ''unsigned int'' 1
       [param ''cp'' ''ptr'' (CDM_POINTER OR CDM_CONST) PDIR_IN ''sz'' []] FAT_NOVARARGS 0,
     proto ''inet_aton'' ''int'' 2
       [param ''cp'' ''ptr'' (CDM_POINTER OR CDM_CONST) PDIR_IN ''sz'' [],
        param ''inp'' ''ptr'' CDM_POINTER PDIR_OUT ''void'' []] FAT_NOVARARGS 0,
     proto ''inet_network'' ''unsigned int'' 1
       [param ''cp'' ''ptr'' (CDM_POINTER OR CDM_CONST) PDIR_IN ''sz'' []] FAT_NOVARARGS 0,
     proto ''getpeername'' ''int'' 3
       [param ''sockfd'' ''int'' CDM_NOMOD PDIR_IN [] [],
        param ''addr'' ''ptr'' CDM_POINTER PDIR_OUT ''void'' [],
        param ''addrlen'' ''ptr'' CDM_POINTER PDIR_INOUT ''int'' []] FAT_NOVARARGS 0,
     proto ''getsockname'' ''int'' 3
       [param ''sockfd'' ''int'' CDM_NOMOD PDIR_IN [] [],
        param ''addr'' ''ptr'' CDM_POINTER PDIR_OUT ''void'' [],
        param ''addrlen'' ''ptr'' CDM_POINTER PDIR_INOUT ''int'' []] FAT_NOVARARGS 0]"

definition sys_socket_prototypes :: "func_prototype list" where
  "sys_socket_prototypes = sys_socket_prototypes_1 @ sys_socket_prototypes_2 @ sys_socket_prototypes_3 @ sys_socket_prototypes_4 @ sys_socket_prototypes_5 @ sys_socket_prototypes_6"

end
