(* ===== verification/Prototypes_Threads.thy ===== *)
theory Prototypes_Threads
  imports Prototypes
begin

unbundle bit_operations_syntax

section \<open>Prototypes of \<open>pthread.c\<close>, \<open>openssl.c\<close>\<close>

text \<open>
  The tables of \<open>src/src/core/prototypes/pthread.c\<close>, \<open>src/src/core/prototypes/openssl.c\<close>, in the order of the source; a long table is the
  concatenation of its parts.
\<close>

definition pthread_prototypes_1 :: "func_prototype list" where
  "pthread_prototypes_1 =
    [proto ''pthread_mutex_init'' ''int'' 2
       [param ''mutex'' ''ptr'' CDM_NOMOD PDIR_IN [] [],
        param ''attr'' ''ptr'' CDM_NOMOD PDIR_IN [] []] FAT_NOVARARGS 0,
     proto ''pthread_mutex_destroy'' ''int'' 1
       [param ''mutex'' ''ptr'' CDM_NOMOD PDIR_IN [] []] FAT_NOVARARGS 0,
     proto ''pthread_mutex_lock'' ''int'' 1
       [param ''mutex'' ''ptr'' CDM_NOMOD PDIR_IN [] []] FAT_NOVARARGS 0,
     proto ''pthread_mutex_trylock'' ''int'' 1
       [param ''mutex'' ''ptr'' CDM_NOMOD PDIR_IN [] []] FAT_NOVARARGS 0,
     proto ''pthread_mutex_unlock'' ''int'' 1
       [param ''mutex'' ''ptr'' CDM_NOMOD PDIR_IN [] []] FAT_NOVARARGS 0,
     proto ''pthread_mutex_getprioceiling'' ''int'' 2
       [param ''mutex'' ''ptr'' CDM_NOMOD PDIR_IN [] [],
        param ''prioceiling'' ''ptr'' CDM_POINTER PDIR_OUT ''int'' []] FAT_NOVARARGS 0,
     proto ''pthread_mutex_setprioceiling'' ''int'' 3
       [param ''mutex'' ''ptr'' CDM_NOMOD PDIR_IN [] [],
        param ''prioceiling'' ''int'' CDM_NOMOD PDIR_IN [] [],
        param ''old_ceiling'' ''ptr'' CDM_POINTER PDIR_OUT ''int'' []] FAT_NOVARARGS 0,
     proto ''pthread_mutexattr_init'' ''int'' 1
       [param ''attr'' ''ptr'' CDM_NOMOD PDIR_IN [] []] FAT_NOVARARGS 0,
     proto ''pthread_mutexattr_destroy'' ''int'' 1
       [param ''attr'' ''ptr'' CDM_NOMOD PDIR_IN [] []] FAT_NOVARARGS 0,
     proto ''pthread_mutexattr_getprioceiling'' ''int'' 2
       [param ''attr'' ''ptr'' CDM_NOMOD PDIR_IN [] [],
        param ''prioceiling'' ''ptr'' CDM_POINTER PDIR_OUT ''int'' []] FAT_NOVARARGS 0,
     proto ''pthread_mutexattr_setprioceiling'' ''int'' 2
       [param ''attr'' ''ptr'' CDM_NOMOD PDIR_IN [] [],
        param ''prioceiling'' ''int'' CDM_NOMOD PDIR_IN [] []] FAT_NOVARARGS 0,
     proto ''pthread_mutexattr_getprotocol'' ''int'' 2
       [param ''attr'' ''ptr'' CDM_NOMOD PDIR_IN [] [],
        param ''protocol'' ''ptr'' CDM_POINTER PDIR_OUT ''int'' []] FAT_NOVARARGS 0,
     proto ''pthread_mutexattr_setprotocol'' ''int'' 2
       [param ''attr'' ''ptr'' CDM_NOMOD PDIR_IN [] [],
        param ''protocol'' ''int'' CDM_NOMOD PDIR_IN [] []] FAT_NOVARARGS 0,
     proto ''pthread_mutexattr_getpshared'' ''int'' 2
       [param ''attr'' ''ptr'' CDM_NOMOD PDIR_IN [] [],
        param ''pshared'' ''ptr'' CDM_POINTER PDIR_OUT ''int'' []] FAT_NOVARARGS 0,
     proto ''pthread_mutexattr_setpshared'' ''int'' 2
       [param ''attr'' ''ptr'' CDM_NOMOD PDIR_IN [] [],
        param ''pshared'' ''int'' CDM_NOMOD PDIR_IN [] []] FAT_NOVARARGS 0,
     proto ''pthread_mutexattr_gettype'' ''int'' 2
       [param ''attr'' ''ptr'' CDM_NOMOD PDIR_IN [] [],
        param ''type'' ''ptr'' CDM_POINTER PDIR_OUT ''int'' []] FAT_NOVARARGS 0,
     proto ''pthread_mutexattr_settype'' ''int'' 2
       [param ''attr'' ''ptr'' CDM_NOMOD PDIR_IN [] [],
        param ''type'' ''int'' CDM_NOMOD PDIR_IN [] []] FAT_NOVARARGS 0,
     proto ''pthread_cond_init'' ''int'' 2
       [param ''cond'' ''ptr'' CDM_NOMOD PDIR_IN [] [],
        param ''attr'' ''ptr'' CDM_NOMOD PDIR_IN [] []] FAT_NOVARARGS 0,
     proto ''pthread_cond_destroy'' ''int'' 1
       [param ''cond'' ''ptr'' CDM_NOMOD PDIR_IN [] []] FAT_NOVARARGS 0,
     proto ''pthread_cond_signal'' ''int'' 1
       [param ''cond'' ''ptr'' CDM_NOMOD PDIR_IN [] []] FAT_NOVARARGS 0]"

definition pthread_prototypes_2 :: "func_prototype list" where
  "pthread_prototypes_2 =
    [proto ''pthread_cond_broadcast'' ''int'' 1
       [param ''cond'' ''ptr'' CDM_NOMOD PDIR_IN [] []] FAT_NOVARARGS 0,
     proto ''pthread_cond_wait'' ''int'' 2
       [param ''cond'' ''ptr'' CDM_NOMOD PDIR_IN [] [],
        param ''mutex'' ''ptr'' CDM_NOMOD PDIR_IN [] []] FAT_NOVARARGS 0,
     proto ''pthread_cond_timedwait'' ''int'' 3
       [param ''cond'' ''ptr'' CDM_NOMOD PDIR_IN [] [],
        param ''mutex'' ''ptr'' CDM_NOMOD PDIR_IN [] [],
        param ''abstime'' ''ptr'' CDM_NOMOD PDIR_IN [] []] FAT_NOVARARGS 0,
     proto ''pthread_condattr_init'' ''int'' 1
       [param ''attr'' ''ptr'' CDM_NOMOD PDIR_IN [] []] FAT_NOVARARGS 0,
     proto ''pthread_condattr_destroy'' ''int'' 1
       [param ''attr'' ''ptr'' CDM_NOMOD PDIR_IN [] []] FAT_NOVARARGS 0,
     proto ''pthread_condattr_getpshared'' ''int'' 2
       [param ''attr'' ''ptr'' CDM_NOMOD PDIR_IN [] [],
        param ''pshared'' ''ptr'' CDM_POINTER PDIR_OUT ''int'' []] FAT_NOVARARGS 0,
     proto ''pthread_condattr_setpshared'' ''int'' 2
       [param ''attr'' ''ptr'' CDM_NOMOD PDIR_IN [] [],
        param ''pshared'' ''int'' CDM_NOMOD PDIR_IN [] []] FAT_NOVARARGS 0,
     proto ''pthread_rwlock_init'' ''int'' 2
       [param ''rwlock'' ''ptr'' CDM_NOMOD PDIR_IN [] [],
        param ''attr'' ''ptr'' CDM_NOMOD PDIR_IN [] []] FAT_NOVARARGS 0,
     proto ''pthread_rwlock_destroy'' ''int'' 1
       [param ''rwlock'' ''ptr'' CDM_NOMOD PDIR_IN [] []] FAT_NOVARARGS 0,
     proto ''pthread_rwlock_rdlock'' ''int'' 1
       [param ''rwlock'' ''ptr'' CDM_NOMOD PDIR_IN [] []] FAT_NOVARARGS 0,
     proto ''pthread_rwlock_tryrdlock'' ''int'' 1
       [param ''rwlock'' ''ptr'' CDM_NOMOD PDIR_IN [] []] FAT_NOVARARGS 0,
     proto ''pthread_rwlock_wrlock'' ''int'' 1
       [param ''rwlock'' ''ptr'' CDM_NOMOD PDIR_IN [] []] FAT_NOVARARGS 0,
     proto ''pthread_rwlock_trywrlock'' ''int'' 1
       [param ''rwlock'' ''ptr'' CDM_NOMOD PDIR_IN [] []] FAT_NOVARARGS 0,
     proto ''pthread_rwlock_unlock'' ''int'' 1
       [param ''rwlock'' ''ptr'' CDM_NOMOD PDIR_IN [] []] FAT_NOVARARGS 0,
     proto ''pthread_rwlockattr_init'' ''int'' 1
       [param ''attr'' ''ptr'' CDM_NOMOD PDIR_IN [] []] FAT_NOVARARGS 0,
     proto ''pthread_rwlockattr_destroy'' ''int'' 1
       [param ''attr'' ''ptr'' CDM_NOMOD PDIR_IN [] []] FAT_NOVARARGS 0,
     proto ''pthread_rwlockattr_getpshared'' ''int'' 2
       [param ''attr'' ''ptr'' CDM_NOMOD PDIR_IN [] [],
        param ''pshared'' ''ptr'' CDM_POINTER PDIR_OUT ''int'' []] FAT_NOVARARGS 0,
     proto ''pthread_rwlockattr_setpshared'' ''int'' 2
       [param ''attr'' ''ptr'' CDM_NOMOD PDIR_IN [] [],
        param ''pshared'' ''int'' CDM_NOMOD PDIR_IN [] []] FAT_NOVARARGS 0,
     proto ''pthread_create'' ''int'' 4
       [param ''thread'' ''ptr'' CDM_POINTER PDIR_OUT ''long'' [],
        param ''attr'' ''ptr'' CDM_NOMOD PDIR_IN [] [],
        param ''start_routine'' ''ptr'' CDM_NOMOD PDIR_IN [] [],
        param ''arg'' ''ptr'' CDM_NOMOD PDIR_IN [] []] FAT_NOVARARGS 0,
     proto ''pthread_join'' ''int'' 2
       [param ''thread'' ''long'' CDM_NOMOD PDIR_IN [] [],
        param ''retval'' ''ptr'' CDM_POINTER PDIR_OUT ''ptr'' []] FAT_NOVARARGS 0,
     proto ''pthread_detach'' ''int'' 1
       [param ''thread'' ''long'' CDM_NOMOD PDIR_IN [] []] FAT_NOVARARGS 0,
     proto ''pthread_exit'' ''void'' 1
       [param ''retval'' ''ptr'' CDM_NOMOD PDIR_IN [] []] FAT_NOVARARGS 0,
     proto ''pthread_self'' ''long'' 0
       [param [] ''ptr'' CDM_NOMOD PDIR_IN [] []] FAT_NOVARARGS 0,
     proto ''pthread_equal'' ''int'' 2
       [param ''t1'' ''long'' CDM_NOMOD PDIR_IN [] [],
        param ''t2'' ''long'' CDM_NOMOD PDIR_IN [] []] FAT_NOVARARGS 0]"

definition pthread_prototypes_3 :: "func_prototype list" where
  "pthread_prototypes_3 =
    [proto ''pthread_cancel'' ''int'' 1
       [param ''thread'' ''long'' CDM_NOMOD PDIR_IN [] []] FAT_NOVARARGS 0,
     proto ''pthread_setcancelstate'' ''int'' 2
       [param ''state'' ''int'' CDM_NOMOD PDIR_IN [] [],
        param ''oldstate'' ''ptr'' CDM_POINTER PDIR_OUT ''int'' []] FAT_NOVARARGS 0,
     proto ''pthread_setcanceltype'' ''int'' 2
       [param ''type'' ''int'' CDM_NOMOD PDIR_IN [] [],
        param ''oldtype'' ''ptr'' CDM_POINTER PDIR_OUT ''int'' []] FAT_NOVARARGS 0,
     proto ''pthread_testcancel'' ''void'' 0
       [param [] ''ptr'' CDM_NOMOD PDIR_IN [] []] FAT_NOVARARGS 0,
     proto ''pthread_attr_init'' ''int'' 1
       [param ''attr'' ''ptr'' CDM_NOMOD PDIR_IN [] []] FAT_NOVARARGS 0,
     proto ''pthread_attr_destroy'' ''int'' 1
       [param ''attr'' ''ptr'' CDM_NOMOD PDIR_IN [] []] FAT_NOVARARGS 0,
     proto ''pthread_attr_getdetachstate'' ''int'' 2
       [param ''attr'' ''ptr'' CDM_NOMOD PDIR_IN [] [],
        param ''detachstate'' ''ptr'' CDM_POINTER PDIR_OUT ''int'' []] FAT_NOVARARGS 0,
     proto ''pthread_attr_setdetachstate'' ''int'' 2
       [param ''attr'' ''ptr'' CDM_NOMOD PDIR_IN [] [],
        param ''detachstate'' ''int'' CDM_NOMOD PDIR_IN [] []] FAT_NOVARARGS 0,
     proto ''pthread_attr_getguardsize'' ''int'' 2
       [param ''attr'' ''ptr'' CDM_NOMOD PDIR_IN [] [],
        param ''guardsize'' ''ptr'' CDM_POINTER PDIR_OUT ''size_t'' []] FAT_NOVARARGS 0,
     proto ''pthread_attr_setguardsize'' ''int'' 2
       [param ''attr'' ''ptr'' CDM_NOMOD PDIR_IN [] [],
        param ''guardsize'' ''size_t'' CDM_NOMOD PDIR_IN [] []] FAT_NOVARARGS 0,
     proto ''pthread_attr_getinheritsched'' ''int'' 2
       [param ''attr'' ''ptr'' CDM_NOMOD PDIR_IN [] [],
        param ''inheritsched'' ''ptr'' CDM_POINTER PDIR_OUT ''int'' []] FAT_NOVARARGS 0,
     proto ''pthread_attr_setinheritsched'' ''int'' 2
       [param ''attr'' ''ptr'' CDM_NOMOD PDIR_IN [] [],
        param ''inheritsched'' ''int'' CDM_NOMOD PDIR_IN [] []] FAT_NOVARARGS 0,
     proto ''pthread_attr_getschedpolicy'' ''int'' 2
       [param ''attr'' ''ptr'' CDM_NOMOD PDIR_IN [] [],
        param ''schedpolicy'' ''ptr'' CDM_POINTER PDIR_OUT ''int'' []] FAT_NOVARARGS 0,
     proto ''pthread_attr_setschedpolicy'' ''int'' 2
       [param ''attr'' ''ptr'' CDM_NOMOD PDIR_IN [] [],
        param ''schedpolicy'' ''int'' CDM_NOMOD PDIR_IN [] []] FAT_NOVARARGS 0,
     proto ''pthread_attr_getscope'' ''int'' 2
       [param ''attr'' ''ptr'' CDM_NOMOD PDIR_IN [] [],
        param ''scope'' ''ptr'' CDM_POINTER PDIR_OUT ''int'' []] FAT_NOVARARGS 0,
     proto ''pthread_attr_setscope'' ''int'' 2
       [param ''attr'' ''ptr'' CDM_NOMOD PDIR_IN [] [],
        param ''scope'' ''int'' CDM_NOMOD PDIR_IN [] []] FAT_NOVARARGS 0,
     proto ''pthread_attr_getstackaddr'' ''int'' 2
       [param ''attr'' ''ptr'' CDM_NOMOD PDIR_IN [] [],
        param ''stackaddr'' ''ptr'' CDM_POINTER PDIR_OUT ''ptr'' []] FAT_NOVARARGS 0,
     proto ''pthread_attr_setstackaddr'' ''int'' 2
       [param ''attr'' ''ptr'' CDM_NOMOD PDIR_IN [] [],
        param ''stackaddr'' ''ptr'' CDM_NOMOD PDIR_IN [] []] FAT_NOVARARGS 0,
     proto ''pthread_attr_getstacksize'' ''int'' 2
       [param ''attr'' ''ptr'' CDM_NOMOD PDIR_IN [] [],
        param ''stacksize'' ''ptr'' CDM_POINTER PDIR_OUT ''size_t'' []] FAT_NOVARARGS 0,
     proto ''pthread_attr_setstacksize'' ''int'' 2
       [param ''attr'' ''ptr'' CDM_NOMOD PDIR_IN [] [],
        param ''stacksize'' ''size_t'' CDM_NOMOD PDIR_IN [] []] FAT_NOVARARGS 0,
     proto ''pthread_once'' ''int'' 2
       [param ''once'' ''ptr'' CDM_NOMOD PDIR_IN [] [],
        param ''init_routine'' ''ptr'' CDM_NOMOD PDIR_IN [] []] FAT_NOVARARGS 0,
     proto ''pthread_getschedparam'' ''int'' 3
       [param ''thread'' ''long'' CDM_NOMOD PDIR_IN [] [],
        param ''policy'' ''ptr'' CDM_POINTER PDIR_OUT ''int'' [],
        param ''param'' ''ptr'' CDM_NOMOD PDIR_IN [] []] FAT_NOVARARGS 0,
     proto ''pthread_setschedparam'' ''int'' 3
       [param ''thread'' ''long'' CDM_NOMOD PDIR_IN [] [],
        param ''policy'' ''int'' CDM_NOMOD PDIR_IN [] [],
        param ''param'' ''ptr'' CDM_NOMOD PDIR_IN [] []] FAT_NOVARARGS 0,
     proto ''pthread_getconcurrency'' ''int'' 0
       [param [] ''ptr'' CDM_NOMOD PDIR_IN [] []] FAT_NOVARARGS 0,
     proto ''pthread_setconcurrency'' ''int'' 1
       [param ''level'' ''int'' CDM_NOMOD PDIR_IN [] []] FAT_NOVARARGS 0]"

definition pthread_prototypes_4 :: "func_prototype list" where
  "pthread_prototypes_4 =
    [proto ''pthread_key_create'' ''int'' 2
       [param ''key'' ''ptr'' CDM_POINTER PDIR_OUT ''int'' [],
        param ''destructor'' ''ptr'' CDM_NOMOD PDIR_IN [] []] FAT_NOVARARGS 0,
     proto ''pthread_key_delete'' ''int'' 1
       [param ''key'' ''int'' CDM_NOMOD PDIR_IN [] []] FAT_NOVARARGS 0,
     proto ''pthread_setspecific'' ''int'' 2
       [param ''key'' ''int'' CDM_NOMOD PDIR_IN [] [],
        param ''value'' ''ptr'' CDM_NOMOD PDIR_IN [] []] FAT_NOVARARGS 0,
     proto ''pthread_getspecific'' ''ptr'' 1
       [param ''key'' ''int'' CDM_NOMOD PDIR_IN [] []] FAT_NOVARARGS 0]"

definition pthread_prototypes :: "func_prototype list" where
  "pthread_prototypes = pthread_prototypes_1 @ pthread_prototypes_2 @ pthread_prototypes_3 @ pthread_prototypes_4"

definition openssl_prototypes :: "func_prototype list" where
  "openssl_prototypes =
    [proto ''SSL_CTX_new'' ''ptr'' 1
       [param ''method'' ''ptr'' CDM_NOMOD PDIR_IN [] []] FAT_NOVARARGS 0,
     proto ''SSL_read'' ''int'' 3
       [param ''ssl'' ''ptr'' CDM_NOMOD PDIR_IN [] [],
        param ''buf'' ''ptr'' CDM_POINTER PDIR_IN ''void'' [],
        param ''num'' ''sz'' CDM_NOMOD PDIR_IN [] []] FAT_NOVARARGS 0,
     proto ''SSL_read_ex'' ''int'' 4
       [param ''ssl'' ''ptr'' CDM_NOMOD PDIR_IN [] [],
        param ''buf'' ''ptr'' CDM_POINTER PDIR_IN ''void'' [],
        param ''num'' ''sz'' CDM_NOMOD PDIR_IN [] [],
        param ''readbytes'' ''ptr'' CDM_NOMOD PDIR_OUT [] []] FAT_NOVARARGS 0,
     proto ''SSL_write'' ''int'' 3
       [param ''ssl'' ''ptr'' CDM_NOMOD PDIR_IN [] [],
        param ''buf'' ''ptr'' CDM_POINTER PDIR_IN ''void'' [],
        param ''num'' ''sz'' CDM_NOMOD PDIR_IN [] []] FAT_NOVARARGS 0,
     proto ''SSL_write_ex'' ''int'' 4
       [param ''ssl'' ''ptr'' CDM_NOMOD PDIR_IN [] [],
        param ''buf'' ''ptr'' CDM_POINTER PDIR_IN ''void'' [],
        param ''num'' ''sz'' CDM_NOMOD PDIR_IN [] [],
        param ''written'' ''ptr'' CDM_NOMOD PDIR_OUT [] []] FAT_NOVARARGS 0]"

end
