(* ===== verification/Prototypes_Ntdll.thy ===== *)
theory Prototypes_Ntdll
  imports Prototypes
begin

unbundle bit_operations_syntax

section \<open>Prototypes of \<open>ntdll.c\<close>\<close>

text \<open>
  The tables of \<open>src/src/core/prototypes/ntdll.c\<close>, in the order of the source; a long table is the
  concatenation of its parts.
\<close>

definition ntdll_prototypes_1 :: "func_prototype list" where
  "ntdll_prototypes_1 =
    [proto ''NtCreateFile'' ''int'' 11
       [param ''filehandle'' ''ptr'' CDM_POINTER PDIR_OUT ''void'' [],
        param ''desiredaccess'' ''unsigned int'' CDM_NOMOD PDIR_IN [] [],
        param ''objectattributes'' ''ptr'' (CDM_POINTER OR CDM_CONST) PDIR_IN ''ntoa'' [],
        param ''iostatusblock'' ''ptr'' CDM_POINTER PDIR_OUT ''void'' [],
        param ''allocationsize'' ''ptr'' (CDM_POINTER OR CDM_CONST) PDIR_IN ''void'' [],
        param ''fileattributes'' ''unsigned int'' CDM_NOMOD PDIR_IN [] [],
        param ''shareaccess'' ''unsigned int'' CDM_NOMOD PDIR_IN [] [],
        param ''createdisposition'' ''unsigned int'' CDM_NOMOD PDIR_IN [] [],
        param ''createoptions'' ''unsigned int'' CDM_NOMOD PDIR_IN [] [],
        param ''eabuffer'' ''ptr'' (CDM_POINTER OR CDM_CONST) PDIR_IN ''void'' [],
        param ''ealength'' ''unsigned int'' CDM_NOMOD PDIR_IN [] []] FAT_NOVARARGS 0,
     proto ''NtOpenFile'' ''int'' 6
       [param ''filehandle'' ''ptr'' CDM_POINTER PDIR_OUT ''void'' [],
        param ''desiredaccess'' ''unsigned int'' CDM_NOMOD PDIR_IN [] [],
        param ''objectattributes'' ''ptr'' (CDM_POINTER OR CDM_CONST) PDIR_IN ''ntoa'' [],
        param ''iostatusblock'' ''ptr'' CDM_POINTER PDIR_OUT ''void'' [],
        param ''shareaccess'' ''unsigned int'' CDM_NOMOD PDIR_IN [] [],
        param ''openoptions'' ''unsigned int'' CDM_NOMOD PDIR_IN [] []] FAT_NOVARARGS 0]"

definition ntdll_prototypes_2 :: "func_prototype list" where
  "ntdll_prototypes_2 =
    [proto ''NtQueryAttributesFile'' ''int'' 2
       [param ''objectattributes'' ''ptr'' (CDM_POINTER OR CDM_CONST) PDIR_IN ''ntoa'' [],
        param ''fileinformation'' ''ptr'' CDM_POINTER PDIR_OUT ''void'' []] FAT_NOVARARGS 0,
     proto ''NtClose'' ''int'' 1
       [param ''handle'' ''ptr'' CDM_NOMOD PDIR_IN [] []] FAT_NOVARARGS 0,
     proto ''LdrLoadDll'' ''int'' 4
       [param ''pathtofile'' ''ptr'' (CDM_POINTER OR CDM_CONST) PDIR_IN ''void'' [],
        param ''flags'' ''ptr'' CDM_POINTER PDIR_OUT ''void'' [],
        param ''modulename'' ''ptr'' (CDM_POINTER OR CDM_CONST) PDIR_IN ''ntus'' [],
        param ''modulehandle'' ''ptr'' CDM_POINTER PDIR_OUT ''void'' []] FAT_NOVARARGS 0]"

definition ntdll_prototypes_3 :: "func_prototype list" where
  "ntdll_prototypes_3 =
    [proto ''NtWriteFile'' ''int'' 9
       [param ''filehandle'' ''ptr'' CDM_NOMOD PDIR_IN [] [],
        param ''event'' ''ptr'' CDM_NOMOD PDIR_IN [] [],
        param ''apcroutine'' ''ptr'' CDM_NOMOD PDIR_IN [] [],
        param ''apccontext'' ''ptr'' CDM_NOMOD PDIR_IN [] [],
        param ''iostatusblock'' ''ptr'' CDM_POINTER PDIR_OUT ''void'' [],
        param ''buffer'' ''ptr'' (CDM_POINTER OR CDM_CONST) PDIR_IN ''void'' [],
        param ''length'' ''unsigned int'' CDM_NOMOD PDIR_IN [] [],
        param ''byteoffset'' ''ptr'' (CDM_POINTER OR CDM_CONST) PDIR_IN ''void'' [],
        param ''key'' ''ptr'' (CDM_POINTER OR CDM_CONST) PDIR_IN ''void'' []] FAT_NOVARARGS 0,
     proto ''NtReadFile'' ''int'' 9
       [param ''filehandle'' ''ptr'' CDM_NOMOD PDIR_IN [] [],
        param ''event'' ''ptr'' CDM_NOMOD PDIR_IN [] [],
        param ''apcroutine'' ''ptr'' CDM_NOMOD PDIR_IN [] [],
        param ''apccontext'' ''ptr'' CDM_NOMOD PDIR_IN [] [],
        param ''iostatusblock'' ''ptr'' CDM_POINTER PDIR_OUT ''void'' [],
        param ''buffer'' ''ptr'' CDM_POINTER PDIR_OUT ''void'' [],
        param ''length'' ''unsigned int'' CDM_NOMOD PDIR_IN [] [],
        param ''byteoffset'' ''ptr'' (CDM_POINTER OR CDM_CONST) PDIR_IN ''void'' [],
        param ''key'' ''ptr'' (CDM_POINTER OR CDM_CONST) PDIR_IN ''void'' []] FAT_NOVARARGS 0]"

definition ntdll_prototypes_4 :: "func_prototype list" where
  "ntdll_prototypes_4 =
    [proto ''NtQueryDirectoryFile'' ''int'' 10
       [param ''filehandle'' ''ptr'' CDM_NOMOD PDIR_IN [] [],
        param ''event'' ''ptr'' CDM_NOMOD PDIR_IN [] [],
        param ''apcroutine'' ''ptr'' CDM_NOMOD PDIR_IN [] [],
        param ''apccontext'' ''ptr'' CDM_NOMOD PDIR_IN [] [],
        param ''fileinformation'' ''ptr'' CDM_POINTER PDIR_OUT ''void'' [],
        param ''length'' ''unsigned int'' CDM_NOMOD PDIR_IN [] [],
        param ''fileinformationclass'' ''unsigned int'' CDM_NOMOD PDIR_IN [] [],
        param ''returnsingleentry'' ''unsigned int'' CDM_NOMOD PDIR_IN [] [],
        param ''filename'' ''ptr'' (CDM_POINTER OR CDM_CONST) PDIR_IN ''ntus'' [],
        param ''restartscan'' ''unsigned int'' CDM_NOMOD PDIR_IN [] []] FAT_NOVARARGS 0]"

definition ntdll_prototypes :: "func_prototype list" where
  "ntdll_prototypes = ntdll_prototypes_1 @ ntdll_prototypes_2 @ ntdll_prototypes_3 @ ntdll_prototypes_4"

end
