(* ===== verification/Prototype_Types.thy ===== *)
theory Prototype_Types
  imports Data_Types Prototypes_Unistd Prototypes_Stdio Prototypes_Library Prototypes_System Prototypes_Threads Prototypes_Ntdll
    "HOL-Library.RBT_Impl" "HOL-Library.List_Lexorder" "HOL-Library.Char_ord" "HOL-Library.Multiset"
begin

unbundle bit_operations_syntax

section \<open>The typing of the prototype tables\<close>

text \<open>
  When a prototype's parameters can be printed from their value slots by the data types they
  name, and what they point to by the types they refer to; and that the shipped tables are of
  that kind, apart from the functions listed.  The tables are those of a POSIX build, in
  whatever order the linker puts them.
\<close>

definition posix_prototypes :: "func_prototype list" where
  "posix_prototypes = unistd_prototypes @ stdio_prototypes @ locale_prototypes @ ctype_prototypes @ signal_prototypes @
     stdlib_prototypes @ string_prototypes @ time_prototypes @ uio_prototypes @ dirent_prototypes @ mman_prototypes @
     sys_socket_prototypes @ pthread_prototypes @ openssl_prototypes"

subsection \<open>Well-typed prototypes\<close>

text \<open>
  The families whose printers read a value slot as wide as the type's declared size and show a
  number or an address; the string printer would take the slot's bytes for text.
\<close>

fun slot_ok :: "dt_family \<Rightarrow> nat \<Rightarrow> bool" where
  "slot_ok FInt n \<longleftrightarrow> n = 4"
| "slot_ok FUint n \<longleftrightarrow> n = 4"
| "slot_ok FInt16 n \<longleftrightarrow> n = 2"
| "slot_ok FChar n \<longleftrightarrow> n = 1"
| "slot_ok FLong n \<longleftrightarrow> n = 8"
| "slot_ok FUlong n \<longleftrightarrow> n = 8"
| "slot_ok FSizet n \<longleftrightarrow> n = 8"
| "slot_ok FPtr n \<longleftrightarrow> n = 8"
| "slot_ok _ n \<longleftrightarrow> False"

type_synonym type_lookup = "cstr \<Rightarrow> data_type option"

definition value_typed :: "type_lookup \<Rightarrow> param_meta \<Rightarrow> bool" where
  "value_typed ty m \<longleftrightarrow> (case ty (pm_type_name m) of None \<Rightarrow> False | Some d \<Rightarrow> slot_ok (dt_family d) (dt_value_size d))"

definition counts :: "dt_family \<Rightarrow> bool" where
  "counts f \<longleftrightarrow> f \<in> {FInt, FUint, FLong, FUlong, FSizet}"

text \<open>
  A pointer whose referenced type is registered is followed; then that type has a printer, and a
  pointer to an array names a parameter that can be read as a count.
\<close>

definition pointee_typed :: "type_lookup \<Rightarrow> param_meta list \<Rightarrow> param_meta \<Rightarrow> bool" where
  "pointee_typed ty ms m \<longleftrightarrow>
     (pm_modifiers m AND CDM_POINTER \<noteq> 0 \<longrightarrow>
      (case ty (pm_ref_type_name m) of
         None \<Rightarrow> True
       | Some d \<Rightarrow> dt_family d \<noteq> FLonglong \<and> pm_ref_type_name m \<noteq> ''ntoa'' \<and>
           (pm_modifiers m AND CDM_ARRAY \<noteq> 0 \<longrightarrow>
            (case find (\<lambda>c. pm_name c = pm_array_cnt_param m) ms of
               None \<Rightarrow> False
             | Some c \<Rightarrow> (case ty (pm_type_name c) of None \<Rightarrow> False | Some e \<Rightarrow> counts (dt_family e))))))"

definition plain_name :: "nat \<Rightarrow> cstr \<Rightarrow> bool" where
  "plain_name n s \<longleftrightarrow> s \<noteq> [] \<and> length s \<le> n \<and> list_all (\<lambda>c. \<not> digit7 c \<and> c \<noteq> nul \<and> c \<noteq> CHR ''*'') s"

definition proto_typed :: "type_lookup \<Rightarrow> func_prototype \<Rightarrow> bool" where
  "proto_typed ty p \<longleftrightarrow> plain_name MAXLEN_FUNC_NAME (fpr_name p) \<and> length (fpr_params p) \<le> MAXCOUNT_PARAMS \<and>
     distinct (''func'' # map pm_name (fpr_params p)) \<and>
     list_all (\<lambda>m. plain_name MAXLEN_PARAM_NAME (pm_name m) \<and> value_typed ty m \<and> pointee_typed ty (fpr_params p) m) (fpr_params p)"

definition shipped_type :: type_lookup where
  "shipped_type name = find (\<lambda>d. dt_name d = name) shipped_types"

text \<open>
  The nine functions with a length or count declared a string, and the two with a parameter
  that has the name of the entry's first member.
\<close>

definition string_counts :: "cstr list" where
  "string_counts = [''send'', ''recv'', ''sendto'', ''recvfrom'', ''inet_ntop'', ''SSL_read'', ''SSL_read_ex'', ''SSL_write'', ''SSL_write_ex'']"

definition func_params :: "cstr list" where
  "func_params = [''signal'', ''atexit'']"

subsection \<open>Checking the tables\<close>

lemma typed_unistd: "list_all (proto_typed shipped_type) unistd_prototypes"
  by code_simp

lemma typed_stdio: "list_all (proto_typed shipped_type) stdio_prototypes"
  by code_simp

lemma typed_library:
  "list_all (\<lambda>p. proto_typed shipped_type p \<noteq> (fpr_name p \<in> set func_params))
     (locale_prototypes @ ctype_prototypes @ signal_prototypes @ stdlib_prototypes @ string_prototypes @ time_prototypes)"
  by code_simp

lemma typed_system:
  "list_all (\<lambda>p. proto_typed shipped_type p \<noteq> (fpr_name p \<in> set string_counts))
     (uio_prototypes @ dirent_prototypes @ mman_prototypes @ sys_socket_prototypes)"
  by code_simp

lemma typed_threads:
  "list_all (\<lambda>p. proto_typed shipped_type p \<noteq> (fpr_name p \<in> set string_counts)) (pthread_prototypes @ openssl_prototypes)"
  by code_simp

text \<open>No name occurs twice: each is looked for in a search tree of those before it.\<close>

fun fresh_all :: "'a::linorder list \<Rightarrow> ('a, unit) rbt \<Rightarrow> bool" where
  "fresh_all [] t \<longleftrightarrow> True"
| "fresh_all (x # xs) t \<longleftrightarrow> rbt_lookup t x = None \<and> fresh_all xs (rbt_insert x () t)"

lemma fresh_all_distinct:
  "is_rbt t \<Longrightarrow> fresh_all xs t \<longleftrightarrow> distinct xs \<and> (\<forall>x\<in>set xs. rbt_lookup t x = None)"
proof (induction xs arbitrary: t)
  case (Cons x xs)
  have "rbt_lookup (rbt_insert x () t) = (rbt_lookup t)(x \<mapsto> ())" using Cons.prems by (rule rbt_lookup_rbt_insert)
  then show ?case using Cons.IH [of "rbt_insert x () t"] Cons.prems by (auto simp: rbt_insert_is_rbt)
qed simp

lemma fresh_posix: "fresh_all (map fpr_name posix_prototypes) rbt.Empty"
  by code_simp

lemma posix_names_distinct: "distinct (map fpr_name posix_prototypes)"
  using fresh_posix by (simp add: fresh_all_distinct)

lemma posix_typed:
  assumes "p \<in> set posix_prototypes"
  shows "proto_typed shipped_type p \<or> fpr_name p \<in> set string_counts \<union> set func_params"
proof -
  have "p \<in> set (uio_prototypes @ dirent_prototypes @ mman_prototypes @ sys_socket_prototypes) \<or>
    p \<in> set (pthread_prototypes @ openssl_prototypes) \<or> p \<in> set unistd_prototypes \<or> p \<in> set stdio_prototypes \<or>
    p \<in> set (locale_prototypes @ ctype_prototypes @ signal_prototypes @ stdlib_prototypes @ string_prototypes @ time_prototypes)"
    using assms unfolding posix_prototypes_def by auto
  then show ?thesis
    using typed_unistd typed_stdio typed_library typed_system typed_threads unfolding list_all_iff by blast
qed

subsection \<open>After initialisation\<close>

lemma find_own_name: "distinct (map f xs) \<Longrightarrow> x \<in> set xs \<Longrightarrow> find (\<lambda>y. f y = f x) xs = Some x"
  by (induction xs) (auto simp: image_iff)

lemma find_same_name:
  assumes "distinct (map f xs)" "mset xs = mset ys"
  shows "find (\<lambda>x. f x = k) ys = find (\<lambda>x. f x = k) xs"
proof -
  have s: "set xs = set ys" using assms(2) by (metis set_mset_mset)
  have "mset (map f xs) = mset (map f ys)" using assms(2) by simp
  then have d: "distinct (map f ys)" using assms(1) mset_eq_imp_distinct_iff by blast
  show ?thesis
  proof (cases "k \<in> f ` set xs")
    case True
    then obtain x where x: "x \<in> set xs" "x \<in> set ys" "f x = k" using s by auto
    from find_own_name [OF assms(1) x(1)] find_own_name [OF d x(2)] show ?thesis by (simp add: x(3))
  next
    case False
    then have "find (\<lambda>x. f x = k) xs = None" "find (\<lambda>x. f x = k) ys = None" using s by (auto simp: find_None_iff)
    then show ?thesis by simp
  qed
qed

lemma types_ok_mset:
  assumes "types_ok xs" "mset xs = mset ys"
  shows "types_ok ys"
proof -
  have "set xs = set ys" using assms(2) by (metis set_mset_mset)
  moreover have "mset (map dt_name xs) = mset (map dt_name ys)" using assms(2) by simp
  then have "distinct (map dt_name ys)" using assms(1) mset_eq_imp_distinct_iff unfolding types_ok_def by blast
  moreover have "mset (map fmt_key (filter in_fmt xs)) = mset (map fmt_key (filter in_fmt ys))" using assms(2) by simp
  then have "distinct (map fmt_key (filter in_fmt ys))" using assms(1) mset_eq_imp_distinct_iff unfolding types_ok_def by blast
  ultimately show ?thesis using assms(1) unfolding types_ok_def by blast
qed

lemma shipped_init:
  assumes "mset types = mset shipped_types" "\<forall>i. malloc_ok i"
  shows "\<exists>t. retrace_datatypes_init malloc_ok types no_types = Some (0, t) \<and> (\<lambda>name. retrace_datatype_get name t) = shipped_type"
proof -
  have ok: "types_ok types" using types_ok_mset [OF shipped_types_ok assms(1) [symmetric]] .
  have "\<exists>rc t. retrace_datatypes_init malloc_ok types no_types = Some (rc, t) \<and> (rc = 0 \<longleftrightarrow> types_ok types) \<and>
      (rc = 0 \<longrightarrow> dtr.holds (dts_hash t) types \<and> fmt_holds (gnu_fmt_to_dt t) types)"
    using datatypes_loop_holds [OF no_types_holds assms(2), of 0 types] by (simp add: retrace_datatypes_init_def)
  then obtain t where t: "retrace_datatypes_init malloc_ok types no_types = Some (0, t)" "dtr.holds (dts_hash t) types"
    using ok by auto
  have "distinct (map dt_name shipped_types)" using shipped_types_ok by (simp add: types_ok_def)
  then have "retrace_datatype_get name t = shipped_type name" for name
    using dtr.get_holds [OF t(2)] find_same_name [OF _ assms(1) [symmetric], of dt_name name]
    by (simp add: retrace_datatype_get_def shipped_type_def)
  then show ?thesis using t(1) by (intro exI [of _ t]) (simp add: fun_eq_iff)
qed

text \<open>
  C21. However the linker orders the shipped tables, registering the data types and the prototypes
  succeeds, every one of the functions is found under its name, and its prototype is well typed:
  every parameter's type is registered and prints a value slot, every pointer that will be
  followed refers to a type with a printer, every array's count names a parameter that can be
  read as a number, and all names fit and are distinct.  The exceptions are nine functions
  that declare a length as a string and two whose parameter name clashes with the
  entry's own.
\<close>

theorem prototype_tables_typed:
  assumes "\<forall>i. malloc_ok i" "mset types = mset shipped_types" "mset protos = mset posix_prototypes"
  shows "\<exists>t table. retrace_datatypes_init malloc_ok types no_types = Some (0, t) \<and>
    retrace_funcs_init malloc_ok protos (replicate MAXCOUNT_FUNCS_HASH_ENTRIES []) = Some (0, table) \<and>
    (\<forall>p\<in>set posix_prototypes. retrace_func_get (fpr_name p) table = Some p \<and>
       (proto_typed (\<lambda>name. retrace_datatype_get name t) p \<or> fpr_name p \<in> set string_counts \<union> set func_params))"
proof -
  obtain t where t: "retrace_datatypes_init malloc_ok types no_types = Some (0, t)" "(\<lambda>name. retrace_datatype_get name t) = shipped_type"
    using shipped_init [OF assms(2,1)] by blast
  have "mset (map fpr_name protos) = mset (map fpr_name posix_prototypes)" using assms(3) by simp
  then have d: "distinct (map fpr_name protos)" using posix_names_distinct mset_eq_imp_distinct_iff by blast
  have "\<exists>rc table. retrace_funcs_init malloc_ok protos (replicate MAXCOUNT_FUNCS_HASH_ENTRIES []) = Some (rc, table) \<and>
      (rc = 0 \<longleftrightarrow> distinct (map fpr_name protos)) \<and> (rc = 0 \<longrightarrow> fr.holds table protos)"
    using fr.init_holds [OF fr.holds_empty assms(1), of 0 protos] by (auto simp: retrace_funcs_init_def)
  then obtain table where table: "retrace_funcs_init malloc_ok protos (replicate MAXCOUNT_FUNCS_HASH_ENTRIES []) = Some (0, table)"
    "fr.holds table protos" using d by auto
  have "retrace_func_get (fpr_name p) table = Some p" if "p \<in> set posix_prototypes" for p
  proof -
    have "retrace_func_get (fpr_name p) table = find (\<lambda>q. fpr_name q = fpr_name p) posix_prototypes"
      using fr.get_holds [OF table(2)] find_same_name [OF posix_names_distinct assms(3) [symmetric], of "fpr_name p"]
      by (simp add: retrace_func_get_def)
    also have "\<dots> = Some p" by (rule find_own_name [OF posix_names_distinct that])
    finally show ?thesis .
  qed
  then show ?thesis using t table(1) posix_typed by (intro exI [of _ t] exI [of _ table]) simp
qed

lemma openssl_read: "\<exists>p\<in>set posix_prototypes. fpr_name p = ''SSL_read''"
proof -
  have "\<exists>p\<in>set openssl_prototypes. fpr_name p = ''SSL_read''" by code_simp
  then show ?thesis unfolding posix_prototypes_def by auto
qed

theorem prototype_tables_typed_witness:
  "\<exists>t table p. retrace_datatypes_init (\<lambda>_. True) (rev shipped_types) no_types = Some (0, t) \<and>
    retrace_funcs_init (\<lambda>_. True) (rev posix_prototypes) (replicate MAXCOUNT_FUNCS_HASH_ENTRIES []) = Some (0, table) \<and>
    retrace_func_get ''SSL_read'' table = Some p"
proof -
  obtain p where p: "p \<in> set posix_prototypes" "fpr_name p = ''SSL_read''" using openssl_read by blast
  have "\<forall>i::nat. (\<lambda>_. True) i" by simp
  from prototype_tables_typed [OF this, of "rev shipped_types" "rev posix_prototypes"] show ?thesis
    unfolding mset_rev using p by metis
qed

end
