(* ===== verification/Slot_Values.thy ===== *)
theory Slot_Values
  imports Type_Printers Prototype_Types
begin

unbundle bit_operations_syntax

section \<open>What a value slot prints as\<close>

text \<open>
  A well-typed value slot is printed as the number the low bytes of the slot stand for,
  with either byte order, and texts of numbers are plain enough to be JSON strings.
\<close>

subsection \<open>Reading a slot\<close>

lemma foldr_bytes:
  "foldr (\<lambda>x a. x + 256 * a) (map (\<lambda>i. take_bit 8 (drop_bit (8 * i) w)) [0..<n]) 0 = take_bit (8 * n) (w :: int)"
proof (induction n arbitrary: w)
  case (Suc n)
  have "[0..<Suc n] = 0 # map Suc [0..<n]" by (simp add: upt_conv_Cons map_Suc_upt)
  moreover have "drop_bit (8 * Suc i) w = drop_bit (8 * i) (drop_bit 8 w)" for i by (simp add: drop_bit_drop_bit ac_simps)
  ultimately have "foldr (\<lambda>x a. x + 256 * a) (map (\<lambda>i. take_bit 8 (drop_bit (8 * i) w)) [0..<Suc n]) 0 =
      take_bit 8 w + 256 * take_bit (8 * n) (drop_bit 8 w)"
    using Suc.IH [of "drop_bit 8 w"] by (simp add: comp_def del: upt_Suc)
  also have "\<dots> = take_bit (8 * Suc n) w"
  proof -
    have "take_bit (8 + 8 * n) w = w mod (2 ^ 8 * 2 ^ (8 * n))" by (simp add: take_bit_eq_mod power_add)
    also have "\<dots> = 2 ^ 8 * (w div 2 ^ 8 mod 2 ^ (8 * n)) + w mod 2 ^ 8" by (rule zmod_zmult2_eq) simp
    finally show ?thesis by (simp add: take_bit_eq_mod drop_bit_eq_div)
  qed
  finally show ?case .
qed simp

lemma slot_byte: "i < 8 \<Longrightarrow> slot big v i = Some (ucast (drop_bit (8 * (if big then 7 - i else i)) v))"
  by (simp add: slot_def)

lemma take_bit_64 [simp]: "take_bit 64 (uint (v :: 64 word)) = uint v"
  by (rule bintr_uint) simp

lemma byte_of_word: "uint (ucast (drop_bit k v) :: 8 word) = take_bit 8 (drop_bit k (uint (v :: 64 word)))"
proof -
  have "take_bit (min (8 + k) 64) (uint v) = take_bit (8 + k) (uint v)"
    using take_bit_take_bit [of "8 + k" 64 "uint v"] by simp
  then show ?thesis by (simp add: unsigned_ucast_eq unsigned_drop_bit_eq take_bit_drop_bit)
qed

definition object_in :: "bool \<Rightarrow> nat \<Rightarrow> 64 word \<Rightarrow> bytes" where
  "object_in big n v = (if big then advance (8 - n) (slot big v) else slot big v)"

lemma object_bytes:
  assumes "n \<le> 8"
  shows "load_bytes n (object_in big n v) =
    Some (map (\<lambda>i. take_bit 8 (drop_bit (8 * (if big then n - 1 - i else i)) (uint v))) [0..<n])"
proof -
  have b: "object_in big n v i = Some (ucast (drop_bit (8 * (if big then n - 1 - i else i)) v))" if "i < n" for i
  proof (cases big)
    case True
    have "7 - (8 - n + i) = n - 1 - i" using that assms by simp
    then show ?thesis using True that assms by (simp add: object_in_def advance_def slot_byte)
  next
    case False
    then show ?thesis using that assms by (simp add: object_in_def slot_byte)
  qed
  then show ?thesis by (auto simp: load_bytes_def list_all_iff byte_of_word intro!: map_cong)
qed

lemma rev_upt_map: "rev (map f [0..<n]) = map (\<lambda>i. f (n - 1 - i)) [0..<n]"
  by (rule nth_equalityI) (auto simp: rev_nth)

lemma load_object:
  assumes "n \<le> 8"
  shows "load big n (Some (object_in big n v)) = Some (take_bit (8 * n) (uint v))"
proof (cases big)
  case True
  have "rev (map (\<lambda>i. take_bit 8 (drop_bit (8 * (n - 1 - i)) (uint v))) [0..<n]) =
      map (\<lambda>i. take_bit 8 (drop_bit (8 * i) (uint v))) [0..<n]"
    unfolding rev_upt_map by (rule map_cong) auto
  then show ?thesis using True by (simp add: load_def object_bytes [OF assms] foldr_bytes)
next
  case False
  then show ?thesis by (simp add: load_def object_bytes [OF assms] foldr_bytes)
qed

subsection \<open>Printing a slot\<close>

fun show_slot :: "dt_family \<Rightarrow> 64 word \<Rightarrow> cstr" where
  "show_slot FInt v = show_int (sint (ucast v :: 32 word))"
| "show_slot FUint v = show_int (uint (ucast v :: 32 word))"
| "show_slot FInt16 v = show_int (sint (ucast v :: 16 word))"
| "show_slot FLong v = show_int (sint v)"
| "show_slot FChar v = show_char (uint (ucast v :: 8 word))"
| "show_slot FPtr v = show_pointer (uint v)"
| "show_slot _ v = show_int (uint v)"

lemma slot_size: "slot_ok family n \<Longrightarrow> 0 < n \<and> n \<le> 8"
  by (cases family) auto

lemma to_sz_scalar: "family \<noteq> FStruct \<Longrightarrow> to_sz big depth t family d arg = scalar_to_sz big family d"
  by (cases depth) simp_all

lemma slot_prints:
  assumes "slot_ok (dt_family dt) (dt_value_size dt)"
  shows "to_sz big depth t (dt_family dt) (Some (retrace_datatype_val_addr big (Some dt) (slot big v))) arg = Some (show_slot (dt_family dt) v)"
proof -
  let ?n = "dt_value_size dt"
  have "retrace_datatype_val_addr big (Some dt) (slot big v) = object_in big ?n v"
    using slot_size [OF assms] by (auto simp: retrace_datatype_val_addr_def object_in_def advance_def)
  moreover have "load big ?n (Some (object_in big ?n v)) = Some (take_bit (8 * ?n) (uint v))"
    using slot_size [OF assms] by (simp add: load_object)
  moreover have "dt_family dt \<noteq> FStruct" using assms by auto
  ultimately show ?thesis using assms
    by (cases "dt_family dt")
      (auto simp: to_sz_scalar retrace_ptr_to_sz_def signed_ucast_eq unsigned_ucast_eq signed_take_bit_eq_if_positive
        sint_uint signed_take_bit_take_bit take_bit_int_eq_self_iff)
qed

subsection \<open>Plain texts\<close>

definition ascii :: "cstr \<Rightarrow> bool" where "ascii s \<longleftrightarrow> list_all (\<lambda>c. \<not> digit7 c) s"

lemma ascii_simps [simp]: "ascii []" "ascii (c # s) \<longleftrightarrow> \<not> digit7 c \<and> ascii s" "ascii (s @ t) \<longleftrightarrow> ascii s \<and> ascii t"
  by (simp_all add: ascii_def)

lemma low_char: "\<not> digit7 c \<Longrightarrow> (of_char c :: nat) < 128"
  by (cases c) (auto simp: of_char_def)

lemma low_bits:
  fixes x :: int
  assumes "0 \<le> x" "x < 128"
  shows "x AND 128 = 0" "x AND 192 \<noteq> 128"
proof -
  have "take_bit 7 x = x" using assms by (simp add: take_bit_int_eq_self)
  then have x: "x = x AND 127" by (simp add: take_bit_eq_mask mask_eq_exp_minus_1)
  have "x AND 128 = x AND (127 AND 128)" by (subst x) (simp only: and.assoc)
  then show "x AND 128 = 0" by simp
  have "x AND 192 = x AND (127 AND 192)" by (subst x) (simp only: and.assoc)
  also have "\<dots> \<le> 64" using AND_upper2 [of 64 x] by simp
  finally show "x AND 192 \<noteq> 128" by simp
qed

lemma low_char_facts: "\<not> digit7 c \<Longrightarrow> num_bytes_in_utf8_sequence c = 1 \<and> byte c < 128"
proof -
  assume "\<not> digit7 c"
  note low = low_char [OF this]
  have "byte c = int (of_char c)" by (simp only: byte_def of_nat_of_char)
  then have b: "0 \<le> byte c" "byte c < 128" using low by linarith+
  then show ?thesis using low_bits [OF b] by (simp add: num_bytes_in_utf8_sequence_def IS_CONT_def)
qed

lemma ascii_valid: "ascii s \<Longrightarrow> is_valid_utf8 s"
proof (induction s)
  case Nil
  show ?case by (subst is_valid_utf8.simps) simp
next
  case (Cons c s)
  then have "verify_utf8_sequence (c # s) = (True, 1)"
    using low_char_facts [of c] by (simp add: verify_utf8_sequence_def utf8_code_point_def)
  then show ?case using Cons by (subst is_valid_utf8.simps) simp
qed

lemma ascii_dec: "ascii (dec n)"
proof (induction n rule: dec.induct)
  case (1 n)
  have "\<not> digit7 (dec_digit d)" if "d < 10" for d
  proof -
    have "d \<in> set [0..<10]" using that by simp
    moreover have "list_all (\<lambda>d. \<not> digit7 (dec_digit d)) [0..<10]" by code_simp
    ultimately show ?thesis unfolding list_all_iff by blast
  qed
  then show ?case using 1 by (subst dec.simps) simp
qed

lemma ascii_hex: "ascii (hex n)"
proof (induction n rule: hex.induct)
  case (1 n)
  have "\<not> digit7 (hex_digit d)" if "d < 16" for d
  proof -
    have "d \<in> set [0..<16]" using that by simp
    moreover have "list_all (\<lambda>d. \<not> digit7 (hex_digit d)) [0..<16]" by code_simp
    ultimately show ?thesis unfolding list_all_iff by blast
  qed
  then show ?case using 1 by (subst hex.simps) simp
qed

lemma ascii_slot: "ascii (show_slot family v)"
  by (cases family) (simp_all add: show_int_def show_char_def show_pointer_def ascii_dec ascii_hex Let_def)

end
