(* ===== verification/Log_Params.thy ===== *)
theory Log_Params
  imports Type_Printers Prototype_Types Basic_Actions Logger
begin

unbundle bit_operations_syntax

section \<open>Logging the parameters of a call (\<open>ia_log_params\<close> of \<open>src/src/core/actions/basic.c\<close>)\<close>

text \<open>
  The action builds one JSON object from the call's prototype and its value slots, following
  pointers one level, and hands it to the logger.  The program's memory gives each readable
  address a byte.  \<open>None\<close> is undefined behaviour: a parameter without a data type, a read
  outside readable memory, or a text that does not fit its buffer.  The diagnostic
  messages the action logs on the way are left out.
\<close>

definition ARR_MAX_COUNT :: nat where "ARR_MAX_COUNT = 64"

text \<open>Structures within structures are printed to this depth; those of the tables need one level.\<close>

definition PRINT_DEPTH :: nat where "PRINT_DEPTH = 8"

type_synonym memory = "64 word \<Rightarrow> 8 word option"

definition bytes_at :: "memory \<Rightarrow> 64 word \<Rightarrow> bytes" where "bytes_at mem a = (\<lambda>i. mem (a + of_nat i))"

text \<open>
  The data type a parameter was given when it was set up: the one its type name is registered
  for, or the unknown type, whose name is then the parameter's type name.
\<close>

definition param_data_type :: "dt_tables \<Rightarrow> param_meta \<Rightarrow> data_type option" where
  "param_data_type t m = (if pm_type_name m = dt_name unk_dt then Some unk_dt else retrace_datatype_get (pm_type_name m) t)"

fun omitted :: "cstr \<Rightarrow> json_array \<Rightarrow> bool option" where
  "omitted name [] = Some False"
| "omitted name (v # vs) = (case json_value_get_string (Some v) of
     None \<Rightarrow> None | Some s \<Rightarrow> if name = s then Some True else omitted name vs)"

definition val_object :: "bool \<Rightarrow> dt_tables \<Rightarrow> func_param \<Rightarrow> bytes option" where
  "val_object big t p = Some (retrace_datatype_val_addr big (param_data_type t (fp_meta p)) (slot big (fp_val p)))"

text \<open>The number of objects a pointer is followed to; \<open>Inl\<close> ends the whole loop.\<close>

definition array_size :: "bool \<Rightarrow> dt_tables \<Rightarrow> thread_context \<Rightarrow> func_param \<Rightarrow> (unit + 64 word) option" where
  "array_size big t t_ctx p =
     (if pm_modifiers (fp_meta p) AND CDM_ARRAY \<noteq> 0 then
        let cnt_param_idx = retrace_action_find_param t_ctx (pm_array_cnt_param (fp_meta p)) in
        if cnt_param_idx < 0 then Some (Inl ())
        else
          let c = tc_params t_ctx ! nat cnt_param_idx in
          (case param_data_type t (fp_meta c) of
             None \<Rightarrow> None
           | Some ct \<Rightarrow>
               (case to_size_t big (dt_family ct) (val_object big t c) of
                  None \<Rightarrow> None
                | Some (ret, n) \<Rightarrow> if ret \<noteq> 0 then Some (Inl ()) else Some (Inr n)))
      else Some (Inr 1))"

definition log_pointee :: "bool \<Rightarrow> dt_tables \<Rightarrow> memory \<Rightarrow> thread_context \<Rightarrow> func_param \<Rightarrow> data_type \<Rightarrow> json_object \<Rightarrow> (bool \<times> json_object) option" where
  "log_pointee big t mem t_ctx p ref_data_type obj =
     (case array_size big t t_ctx p of
        None \<Rightarrow> None
      | Some (Inl _) \<Rightarrow> Some (False, obj)
      | Some (Inr arr_size) \<Rightarrow>
          let n = (if unat arr_size > ARR_MAX_COUNT then ARR_MAX_COUNT else unat arr_size) in
          (case print_objects (to_sz big PRINT_DEPTH t) (get_size PRINT_DEPTH t) ref_data_type (Some ref_data_type) n
                  (Some (bytes_at mem (fp_val p))) [] of
             None \<Rightarrow> None
           | Some arr \<Rightarrow>
               let obj1 = snd (json_object_set_value obj (take (MAXLEN_PARAM_NAME + 1) (CHR ''*'' # pm_name (fp_meta p))) (Some (JSONArray arr))) in
               Some (True,
                 if pm_ref_type_name (fp_meta p) = ''ntoa'' then
                   (case json_array_get_string (Some arr) 0 of
                      None \<Rightarrow> obj1
                    | Some decoded \<Rightarrow> snd (json_object_set_string obj1 (pm_name (fp_meta p)) (Some decoded)))
                 else obj1)))"

definition log_param :: "bool \<Rightarrow> dt_tables \<Rightarrow> memory \<Rightarrow> thread_context \<Rightarrow> json_array option \<Rightarrow> func_param \<Rightarrow> json_object \<Rightarrow> (bool \<times> json_object) option" where
  "log_param big t mem t_ctx omit_params p obj =
     (case (case omit_params of None \<Rightarrow> Some False | Some vs \<Rightarrow> omitted (pm_name (fp_meta p)) vs) of
        None \<Rightarrow> None
      | Some True \<Rightarrow> Some (True, obj)
      | Some False \<Rightarrow>
          (case param_data_type t (fp_meta p) of
             None \<Rightarrow> None
           | Some dt \<Rightarrow>
               (case print_object (to_sz big PRINT_DEPTH t) dt (Some dt) (val_object big t p) of
                  None \<Rightarrow> None
                | Some sz \<Rightarrow>
                    let obj1 = snd (json_object_set_string obj (pm_name (fp_meta p)) (Some sz)) in
                    if pm_modifiers (fp_meta p) AND CDM_POINTER = 0 then Some (True, obj1)
                    else if fp_val p = 0 then Some (True, obj1)
                    else (case retrace_datatype_get (pm_ref_type_name (fp_meta p)) t of
                            None \<Rightarrow> Some (True, obj1)
                          | Some ref_data_type \<Rightarrow> log_pointee big t mem t_ctx p ref_data_type obj1))))"

fun log_params_loop :: "bool \<Rightarrow> dt_tables \<Rightarrow> memory \<Rightarrow> thread_context \<Rightarrow> json_array option \<Rightarrow> func_param list \<Rightarrow> json_object \<Rightarrow> json_object option" where
  "log_params_loop big t mem t_ctx omit_params [] obj = Some obj"
| "log_params_loop big t mem t_ctx omit_params (p # ps) obj =
     (case log_param big t mem t_ctx omit_params p obj of
        None \<Rightarrow> None
      | Some (False, obj1) \<Rightarrow> Some obj1
      | Some (True, obj1) \<Rightarrow> log_params_loop big t mem t_ctx omit_params ps obj1)"

definition params_entry :: "bool \<Rightarrow> dt_tables \<Rightarrow> memory \<Rightarrow> thread_context \<Rightarrow> json_object option \<Rightarrow> json_object option" where
  "params_entry big t mem t_ctx action_params =
     log_params_loop big t mem t_ctx
       (if action_params \<noteq> None then json_object_get_array action_params ''omit_params'' else None)
       (tc_params t_ctx) (snd (json_object_set_string [] ''func'' (Some (tc_func t_ctx))))"

definition ACTIONS :: nat where "ACTIONS = 0"
definition SEVERITY_INFO :: nat where "SEVERITY_INFO = 1"

definition ia_log_params ::
    "bool \<Rightarrow> dt_tables \<Rightarrow> memory \<Rightarrow> serializer \<Rightarrow> (nat \<Rightarrow> log_entry list) \<Rightarrow> int \<Rightarrow> (int \<Rightarrow> cstr) \<Rightarrow> log_call \<Rightarrow> log_call \<Rightarrow> log_call \<Rightarrow>
     thread_context \<Rightarrow> json_object option \<Rightarrow> logger \<Rightarrow> log_globals \<Rightarrow> (int \<times> logged) option" where
  "ia_log_params big t mem serialize fresh create_rc show_rc c1 c2 c t_ctx action_params lo g =
     (case params_entry big t mem t_ctx action_params of
        None \<Rightarrow> None
      | Some root_object \<Rightarrow>
          map_option (\<lambda>l. (0, l))
            (retrace_logger_log_json serialize fresh create_rc show_rc c1 c2 c ACTIONS SEVERITY_INFO (JSONObject root_object) lo g))"

end
