(* ===== verification/Log_Objects.thy ===== *)
theory Log_Objects
  imports Slot_Values Log_Params
begin

unbundle bit_operations_syntax

section \<open>What a run of objects prints as\<close>

text \<open>
  Objects in readable memory are printed: numbers of a fixed width, strings that end, and
  structures of the former.  The result lists the texts in memory order, without those
  that are not UTF-8.
\<close>

subsection \<open>Objects of fixed width and strings\<close>

definition readable_bytes :: "nat \<Rightarrow> bytes \<Rightarrow> bool" where "readable_bytes n b \<longleftrightarrow> (\<forall>i<n. b i \<noteq> None)"

definition c_string :: "bytes \<Rightarrow> bool" where "c_string b \<longleftrightarrow> (\<exists>n. b n = Some 0 \<and> readable_bytes n b)"

text \<open>
  What is stored, without the code: a number of \<open>n\<close> bytes with the least significant byte
  first, and a string up to its terminating zero.
\<close>

definition number_at :: "nat \<Rightarrow> bytes \<Rightarrow> nat" where
  "number_at n b = (\<Sum>i<n. unat (the (b i)) * 256 ^ i)"

definition text_at :: "bytes \<Rightarrow> cstr" where
  "text_at b = map (\<lambda>i. char_of (unat (the (b i)))) [0..<(LEAST n. b n = Some 0)]"

lemma sz_at_string: "c_string b \<Longrightarrow> sz_at b 0 = Some (text_at b)"
proof -
  assume "c_string b"
  then obtain n where n: "b n = Some 0" "readable_bytes n b" unfolding c_string_def by blast
  define N where "N = (LEAST n. b n = Some 0)"
  have N: "b N = Some 0" "N \<le> n" "\<And>i. i < N \<Longrightarrow> b i \<noteq> Some 0"
    unfolding N_def using n(1) by (auto intro: LeastI Least_le dest: not_less_Least)
  have "sz_at b i = Some (map (\<lambda>i. char_of (unat (the (b i)))) [i..<N])" if "i \<le> N" for i
    using that
  proof (induction rule: inc_induct)
    case base
    show ?case using N(1) by (subst sz_at.simps) simp
  next
    case (step i)
    have "i < n" using N(2) step.hyps(2) by simp
    then obtain c where "b i = Some c" "c \<noteq> 0" using n(2) N(3) [OF step.hyps(2)] by (auto simp: readable_bytes_def)
    then show ?case using step.IH step.hyps by (subst sz_at.simps) (simp add: upt_conv_Cons)
  qed
  from this [of 0] show ?thesis by (simp add: text_at_def N_def)
qed

lemma number_at_Suc: "number_at (Suc n) b = unat (the (b 0)) + 256 * number_at n (advance 1 b)"
  unfolding number_at_def by (subst sum.lessThan_Suc_shift) (simp add: sum_distrib_left advance_def mult.left_commute)

lemma number_at_less: "number_at n b < 256 ^ n"
proof (induction n arbitrary: b)
  case (Suc n)
  have "unat (the (b 0)) < 256" using unsigned_less [of "the (b 0)"] by simp
  then show ?case using Suc.IH [of "advance 1 b"] unfolding number_at_Suc power_Suc by linarith
qed (simp add: number_at_def)

lemma load_number: "readable_bytes n b \<Longrightarrow> load False n (Some b) = Some (int (number_at n b))"
proof -
  assume "readable_bytes n b"
  moreover have "foldr (\<lambda>x a. x + 256 * a) (map (\<lambda>i. uint (the (b i))) [0..<n]) 0 = int (number_at n b)"
  proof (induction n arbitrary: b)
    case (Suc n)
    have "[0..<Suc n] = 0 # map Suc [0..<n]" by (simp add: upt_conv_Cons map_Suc_upt)
    then show ?case using Suc.IH [of "advance 1 b"] by (simp add: number_at_Suc comp_def advance_def del: upt_Suc)
  qed (simp add: number_at_def)
  ultimately show ?thesis by (auto simp: load_def load_bytes_def readable_bytes_def list_all_iff)
qed

definition fixed :: "dt_family \<Rightarrow> bool" where
  "fixed f \<longleftrightarrow> f \<in> {FInt, FUint, FInt16, FLong, FUlong, FSizet, FChar, FPtr}"

fun width :: "dt_family \<Rightarrow> nat" where
  "width FInt = 4"
| "width FUint = 4"
| "width FInt16 = 2"
| "width FChar = 1"
| "width _ = 8"

text \<open>The text of such an object is that of a slot with its number.\<close>

definition number_text :: "dt_family \<Rightarrow> bytes \<Rightarrow> cstr" where
  "number_text f b = show_slot f (of_nat (number_at (width f) b))"

lemma fixed_prints:
  assumes "fixed f" "readable_bytes (width f) b"
  shows "scalar_to_sz False f (Some b) = Some (number_text f b)"
proof -
  let ?k = "number_at (width f) b"
  have "width f \<le> 8" by (cases f) simp_all
  then have "(256 :: nat) ^ width f \<le> 256 ^ 8" by (rule power_increasing) simp
  then have k: "?k < 2 ^ 64" "?k < 256 ^ width f" using number_at_less [of "width f" b] by simp_all
  have "uint (of_nat ?k :: 64 word) = int ?k" using k(1) by (simp add: unsigned_of_nat take_bit_nat_eq_self_iff flip: of_nat_take_bit)
  moreover have "take_bit (8 * width f) (int ?k) = int ?k"
    using k(2) by (simp add: take_bit_int_eq_self_iff power_mult)
  ultimately have v: "load False (width f) (Some b) = Some (take_bit (8 * width f) (uint (of_nat ?k :: 64 word)))"
    using load_number [OF assms(2)] by simp
  show ?thesis unfolding number_text_def using assms(1) v
    by (cases f)
      (auto simp: fixed_def retrace_ptr_to_sz_def signed_ucast_eq unsigned_ucast_eq signed_take_bit_eq_if_positive
        sint_uint signed_take_bit_take_bit take_bit_int_eq_self_iff)
qed

lemma fixed_size: "fixed f \<Longrightarrow> scalar_get_size f d = Some (0, width f)"
  by (auto simp: fixed_def)

lemma fixed_not_struct: "fixed f \<Longrightarrow> f \<noteq> FStruct"
  by (auto simp: fixed_def)

lemma get_size_scalar: "family \<noteq> FStruct \<Longrightarrow> get_size depth t family d arg = scalar_get_size family d"
  by (cases depth) simp_all

lemma print_object_scalar:
  assumes "dt_family ty \<noteq> FStruct" "scalar_to_sz False (dt_family ty) (Some b) = Some s"
  shows "print_object (to_sz False depth t) ty arg (Some b) = Some s"
  using assms by (simp add: print_object_def get_sz_size_def to_sz_scalar)

lemma advance_simps [simp]: "advance 0 b = b" "advance m (advance n b) = advance (n + m) b"
  by (simp_all add: advance_def fun_eq_iff add.assoc)

lemma readable_advance: "readable_bytes (n + m) b \<Longrightarrow> k \<le> m \<Longrightarrow> readable_bytes k (advance n b)"
  by (simp add: readable_bytes_def advance_def)

subsection \<open>Flat structures\<close>

definition member_type :: "type_lookup \<Rightarrow> struct_member \<Rightarrow> data_type" where
  "member_type ty m = the (ty (sm_type m))"

definition flat_member :: "type_lookup \<Rightarrow> struct_member \<Rightarrow> bool" where
  "flat_member ty m \<longleftrightarrow> sm_modifiers m AND CDM_ARRAY = 0 \<and> ty (sm_type m) \<noteq> None \<and> fixed (dt_family (member_type ty m))"

definition struct_width :: "type_lookup \<Rightarrow> struct_member list \<Rightarrow> nat" where
  "struct_width ty ms = sum_list (map (\<lambda>m. width (dt_family (member_type ty m))) ms)"

definition flat_struct :: "type_lookup \<Rightarrow> data_type \<Rightarrow> bool" where
  "flat_struct ty d \<longleftrightarrow> list_all (flat_member ty) (dt_struct_members d) \<and> distinct (map sm_name (dt_struct_members d))"

lemma get_member_flat:
  assumes "list_all (flat_member ty) (pre @ m # post)" "distinct (map sm_name (pre @ m # post))"
    and "ty = (\<lambda>name. retrace_datatype_get name t)"
  shows "get_member (get_size depth t) t (pre @ m # post) (sm_name m) (Some b) =
    Some (Inr (member_type ty m, Some (advance (struct_width ty pre) b)))"
  using assms(1,2)
proof (induction pre arbitrary: b)
  case Nil
  then show ?case using assms(3) by (auto simp: flat_member_def member_type_def struct_width_def)
next
  case (Cons p pre)
  have p: "retrace_datatype_get (sm_type p) t = Some (member_type ty p)" "fixed (dt_family (member_type ty p))"
    using Cons.prems assms(3) by (auto simp: flat_member_def member_type_def)
  have "sm_name p \<noteq> sm_name m" using Cons.prems by auto
  then show ?case using p Cons.IH Cons.prems
    by (simp add: get_size_scalar fixed_not_struct fixed_size struct_width_def)
qed

text \<open>The members with their texts, each read after those before it.\<close>

fun member_texts :: "type_lookup \<Rightarrow> struct_member list \<Rightarrow> bytes \<Rightarrow> json_object" where
  "member_texts ty [] b = []"
| "member_texts ty (m # ms) b =
     (sm_name m, JSONString (number_text (dt_family (member_type ty m)) b)) #
     member_texts ty ms (advance (width (dt_family (member_type ty m))) b)"

lemma set_new_string:
  "name \<notin> fst ` set obj \<Longrightarrow> ascii s \<Longrightarrow> snd (json_object_set_string obj name (Some s)) = obj @ [(name, JSONString s)]"
  by (simp add: json_object_set_string_def json_value_init_string_def ascii_valid set_value_new)

lemma struct_loops:
  assumes "flat_struct ty d" "ty = (\<lambda>name. retrace_datatype_get name t)" "dt_struct_members d = pre @ ms"
    and "readable_bytes (struct_width ty (dt_struct_members d)) b" "fst ` set obj = sm_name ` set pre"
  shows "struct_members_loop (to_sz False depth t) (get_size depth t) t d (Some b) ms obj =
      Some (obj @ member_texts ty ms (advance (struct_width ty pre) b)) \<and>
    struct_size_loop (get_size depth t) t d (Some b) ms n = Some (0, n + struct_width ty ms)"
  using assms(3,5)
proof (induction ms arbitrary: pre obj n)
  case Nil
  then show ?case by (simp add: struct_width_def)
next
  case (Cons m ms)
  let ?md = "advance (struct_width ty pre) b" and ?f = "dt_family (member_type ty m)"
  have f: "sm_modifiers m AND CDM_ARRAY = 0" "fixed ?f" using assms(1) Cons.prems by (simp_all add: flat_struct_def flat_member_def)
  have m: "get_member (get_size depth t) t (dt_struct_members d) (sm_name m) (Some b) = Some (Inr (member_type ty m, Some ?md))"
    using get_member_flat [of ty pre m ms t depth b] assms(1,2) Cons.prems by (simp add: flat_struct_def)
  have "readable_bytes (width ?f) ?md"
    by (rule readable_advance [where m = "struct_width ty (m # ms)"]) (use assms(4) Cons.prems in \<open>simp_all add: struct_width_def\<close>)
  then have s: "scalar_to_sz False ?f (Some ?md) = Some (number_text ?f ?md)" by (rule fixed_prints [OF f(2)])
  have p: "print_object (to_sz False depth t) (member_type ty m) (Some d) (Some ?md) = Some (number_text ?f ?md)"
    by (rule print_object_scalar [OF fixed_not_struct [OF f(2)] s])
  have "sm_name m \<notin> fst ` set obj" using assms(1) Cons.prems by (auto simp: flat_struct_def)
  then have set: "snd (json_object_set_string obj (sm_name m) (Some (number_text ?f ?md))) = obj @ [(sm_name m, JSONString (number_text ?f ?md))]"
    by (rule set_new_string) (simp add: number_text_def ascii_slot)
  have "get_size depth t ?f (Some ?md) (Some (member_type ty m)) = Some (0, width ?f)"
    using f(2) by (simp add: get_size_scalar fixed_not_struct fixed_size)
  moreover have "struct_width ty (pre @ [m]) = struct_width ty pre + width ?f" by (simp add: struct_width_def)
  ultimately show ?case using m f(1) p set Cons.IH [of "pre @ [m]" "obj @ [(sm_name m, JSONString (number_text ?f ?md))]"] Cons.prems
    by (simp add: struct_width_def)
qed

subsection \<open>Runs of objects\<close>

definition object_ok :: "type_lookup \<Rightarrow> data_type \<Rightarrow> bytes \<Rightarrow> bool" where
  "object_ok ty d b \<longleftrightarrow> (if dt_family d = FSz then c_string b
     else if dt_family d = FStruct then readable_bytes (struct_width ty (dt_struct_members d)) b
     else readable_bytes (width (dt_family d)) b)"

definition object_size :: "type_lookup \<Rightarrow> data_type \<Rightarrow> bytes \<Rightarrow> nat" where
  "object_size ty d b = (if dt_family d = FSz then length (text_at b) + 1
     else if dt_family d = FStruct then struct_width ty (dt_struct_members d) else width (dt_family d))"

definition printable :: "type_lookup \<Rightarrow> data_type \<Rightarrow> bool" where
  "printable ty d \<longleftrightarrow> dt_family d = FSz \<or> fixed (dt_family d) \<or> dt_family d = FStruct \<and> flat_struct ty d"

text \<open>
  The text of an object: a string as it is, a structure as the JSON text of its members, and
  any other object as its number.
\<close>

definition object_text :: "type_lookup \<Rightarrow> data_type \<Rightarrow> bytes \<Rightarrow> cstr" where
  "object_text ty d b = (if dt_family d = FSz then text_at b
     else if dt_family d = FStruct then the (json_serialize_to_string_pretty (\<lambda>_. []) (JSONObject (member_texts ty (dt_struct_members d) b)))
     else number_text (dt_family d) b)"

lemma pretty_total: "\<exists>s. json_serialize_to_string_pretty fmt v = Some s"
  unfolding serialize_to_string_eq by (rule serialize_total)

lemma object_prints:
  assumes "printable ty d" "object_ok ty d b" "ty = (\<lambda>name. retrace_datatype_get name t)"
  shows "print_object (to_sz False (Suc depth) t) d (Some d) (Some b) = Some (object_text ty d b)"
    "get_size (Suc depth) t (dt_family d) (Some b) (Some d) = Some (0, object_size ty d b)"
proof -
  have "to_sz False (Suc depth) t (dt_family d) (Some b) (Some d) = Some (object_text ty d b) \<and>
    get_size (Suc depth) t (dt_family d) (Some b) (Some d) = Some (0, object_size ty d b)"
  proof (cases "dt_family d = FStruct")
    case True
    then have d: "flat_struct ty d" "readable_bytes (struct_width ty (dt_struct_members d)) b"
      using assms(1,2) by (auto simp: printable_def object_ok_def fixed_def)
    from struct_loops [OF d(1) assms(3) _ d(2), of "[]" "dt_struct_members d" "[]" depth 0] show ?thesis
      using True pretty_total [of "\<lambda>_. []" "JSONObject (member_texts ty (dt_struct_members d) b)"]
      by (auto simp: retrace_struct_to_sz_def retrace_struct_get_size_def object_size_def object_text_def struct_width_def)
  next
    case False
    show ?thesis
    proof (cases "dt_family d = FSz")
      case True
      then have "sz_at b 0 = Some (text_at b)" using assms(2) sz_at_string by (simp add: object_ok_def)
      then show ?thesis using True by (simp add: object_size_def object_text_def retrace_sz_to_sz_def)
    next
      case no_sz: False
      then have f: "fixed (dt_family d)" "readable_bytes (width (dt_family d)) b"
        using assms(1,2) False by (auto simp: printable_def object_ok_def)
      then show ?thesis using False no_sz fixed_prints [OF f] by (simp add: object_size_def object_text_def fixed_size)
    qed
  qed
  then show "print_object (to_sz False (Suc depth) t) d (Some d) (Some b) = Some (object_text ty d b)"
    "get_size (Suc depth) t (dt_family d) (Some b) (Some d) = Some (0, object_size ty d b)"
    by (auto simp: print_object_def get_sz_size_def simp del: to_sz.simps)
qed

fun objects_ok :: "type_lookup \<Rightarrow> data_type \<Rightarrow> nat \<Rightarrow> bytes \<Rightarrow> bool" where
  "objects_ok ty d 0 b \<longleftrightarrow> True"
| "objects_ok ty d (Suc n) b \<longleftrightarrow> object_ok ty d b \<and> objects_ok ty d n (advance (object_size ty d b) b)"

fun object_texts :: "type_lookup \<Rightarrow> data_type \<Rightarrow> nat \<Rightarrow> bytes \<Rightarrow> cstr list" where
  "object_texts ty d 0 b = []"
| "object_texts ty d (Suc n) b = object_text ty d b # object_texts ty d n (advance (object_size ty d b) b)"

lemma PRINT_DEPTH_Suc: "PRINT_DEPTH = Suc 7"
  by (simp add: PRINT_DEPTH_def)

lemma append_string: "snd (json_array_append_string arr (Some s)) = arr @ (if is_valid_utf8 s then [JSONString s] else [])"
  by (simp add: json_array_append_string_def json_array_append_value_def json_value_init_string_def)

lemma objects_print:
  assumes "printable ty d" "objects_ok ty d n b" "ty = (\<lambda>name. retrace_datatype_get name t)"
  shows "print_objects (to_sz False PRINT_DEPTH t) (get_size PRINT_DEPTH t) d (Some d) n (Some b) arr =
    Some (arr @ map JSONString (filter is_valid_utf8 (object_texts ty d n b)))"
  using assms(2)
proof (induction n arbitrary: b arr)
  case (Suc n)
  then have ok: "object_ok ty d b" by simp
  note pr = object_prints [OF assms(1) ok assms(3), where depth = 7, folded PRINT_DEPTH_Suc]
  show ?case using Suc pr by (simp add: append_string)
qed simp

end
