(* ===== verification/Log_Typed.thy ===== *)
theory Log_Typed
  imports Log_Objects
begin

unbundle bit_operations_syntax

section \<open>The entry logged for a call to a function of the tables\<close>

text \<open>
  For a well-typed prototype the action that logs parameters never goes wrong, and its entry is
  the name of the function followed by one text per parameter and one list per pointer
  that was followed.
\<close>

subsection \<open>The entry\<close>

text \<open>The types of the process after initialisation, and what each pointer is followed to.\<close>

definition count_of :: "dt_family \<Rightarrow> 64 word \<Rightarrow> nat" where
  "count_of f v = (if f = FUint then unat (ucast v :: 32 word) else unat v)"

definition followed_type :: "func_param \<Rightarrow> data_type option" where
  "followed_type q = (if pm_modifiers (fp_meta q) AND CDM_POINTER \<noteq> 0 \<and> fp_val q \<noteq> 0
     then shipped_type (pm_ref_type_name (fp_meta q)) else None)"

definition followed_count :: "func_param list \<Rightarrow> func_param \<Rightarrow> nat" where
  "followed_count qs q = (if pm_modifiers (fp_meta q) AND CDM_ARRAY \<noteq> 0 then
     (case find (\<lambda>c. pm_name (fp_meta c) = pm_array_cnt_param (fp_meta q)) qs of
        None \<Rightarrow> 0
      | Some c \<Rightarrow> min ARR_MAX_COUNT (count_of (dt_family (the (shipped_type (pm_type_name (fp_meta c))))) (fp_val c)))
     else 1)"

definition pointees_readable :: "memory \<Rightarrow> func_param list \<Rightarrow> bool" where
  "pointees_readable mem qs \<longleftrightarrow> (\<forall>q\<in>set qs. case followed_type q of
     None \<Rightarrow> True | Some d \<Rightarrow> objects_ok shipped_type d (followed_count qs q) (bytes_at mem (fp_val q)))"

definition param_entry :: "memory \<Rightarrow> func_param list \<Rightarrow> func_param \<Rightarrow> json_object" where
  "param_entry mem qs q =
     (pm_name (fp_meta q), JSONString (show_slot (dt_family (the (shipped_type (pm_type_name (fp_meta q))))) (fp_val q))) #
     (case followed_type q of
        None \<Rightarrow> []
      | Some d \<Rightarrow> [(CHR ''*'' # pm_name (fp_meta q),
          JSONArray (map JSONString (filter is_valid_utf8
            (object_texts shipped_type d (followed_count qs q) (bytes_at mem (fp_val q))))))])"

definition omits :: "json_object option \<Rightarrow> cstr list \<Rightarrow> bool" where
  "omits action_params omit \<longleftrightarrow> (case action_params of
     None \<Rightarrow> omit = []
   | Some ps \<Rightarrow> (case json_object_get_array (Some ps) ''omit_params'' of None \<Rightarrow> omit = [] | Some vs \<Rightarrow> vs = map JSONString omit))"

lemma omitted_strings: "omitted name (map JSONString omit) = Some (name \<in> set omit)"
  by (induction omit) auto

subsection \<open>One parameter\<close>

lemma shipped_printable_all:
  "list_all (\<lambda>d. dt_family d = FLonglong \<or> printable shipped_type d) shipped_types"
  by code_simp

lemma shipped_printable: "shipped_type n = Some d \<Longrightarrow> dt_family d \<noteq> FLonglong \<Longrightarrow> printable shipped_type d"
  using shipped_printable_all unfolding shipped_type_def list_all_iff by (metis find_Some_iff nth_mem)

lemma shipped_known: "shipped_type (dt_name unk_dt) = None"
  by code_simp

lemma typed_param:
  assumes "(\<lambda>name. retrace_datatype_get name t) = shipped_type" "value_typed shipped_type m"
  shows "\<exists>d. shipped_type (pm_type_name m) = Some d \<and> param_data_type t m = Some d \<and> slot_ok (dt_family d) (dt_value_size d)"
proof -
  obtain d where d: "shipped_type (pm_type_name m) = Some d" "slot_ok (dt_family d) (dt_value_size d)"
    using assms(2) by (auto simp: value_typed_def split: option.splits)
  then have "pm_type_name m \<noteq> dt_name unk_dt" using shipped_known by auto
  moreover have "retrace_datatype_get (pm_type_name m) t = Some d" using d(1) by (simp add: assms(1) [symmetric])
  ultimately show ?thesis using d by (simp add: param_data_type_def)
qed

lemma find_param_index:
  assumes "find (\<lambda>c. pm_name (fp_meta c) = name) ps = Some c"
  shows "\<exists>j<length ps. find_param_from i ps name = int (i + j) \<and> ps ! j = c"
  using assms
proof (induction ps arbitrary: i)
  case (Cons p ps)
  show ?case
  proof (cases "pm_name (fp_meta p) = name")
    case True
    then show ?thesis using Cons.prems by auto
  next
    case False
    then obtain j where "j < length ps" "find_param_from (Suc i) ps name = int (Suc i + j)" "ps ! j = c"
      using Cons by fastforce
    then show ?thesis using False by (intro exI [of _ "Suc j"]) simp
  qed
qed simp

lemma count_slot:
  assumes "counts f" "slot_ok f n"
  shows "\<exists>w. to_size_t False f (Some (slot False v)) = Some (0, w) \<and> unat w = count_of f v"
proof -
  have l: "k \<le> 8 \<Longrightarrow> load False k (Some (slot False v)) = Some (take_bit (8 * k) (uint v))" for k
    using load_object [of k False v] by (simp add: object_in_def)
  have "uint (word_of_int (take_bit 32 (uint v)) :: 64 word) = uint (ucast v :: 32 word)"
    by (simp add: unsigned_of_int unsigned_ucast_eq)
  then have "unat (word_of_int (take_bit 32 (uint v)) :: 64 word) = unat (ucast v :: 32 word)"
    unfolding unat_eq_nat_uint by simp
  then show ?thesis using assms(1) l [of 4] l [of 8] by (auto simp: counts_def count_of_def)
qed

lemma find_of_map: "find P (map f xs) = map_option f (find (\<lambda>x. P (f x)) xs)"
  by (induction xs) auto

lemma array_size_typed:
  assumes types: "(\<lambda>name. retrace_datatype_get name t) = shipped_type"
    and typed: "pointee_typed shipped_type (map fp_meta (tc_params c)) (fp_meta q)" "\<forall>q\<in>set (tc_params c). value_typed shipped_type (fp_meta q)"
    and ptr: "pm_modifiers (fp_meta q) AND CDM_POINTER \<noteq> 0" "shipped_type (pm_ref_type_name (fp_meta q)) = Some d"
  shows "\<exists>w. array_size False t c q = Some (Inr w) \<and>
    (if unat w > ARR_MAX_COUNT then ARR_MAX_COUNT else unat w) = followed_count (tc_params c) q"
proof (cases "pm_modifiers (fp_meta q) AND CDM_ARRAY = 0")
  case True
  then show ?thesis by (auto simp: array_size_def followed_count_def ARR_MAX_COUNT_def intro!: exI [of _ 1])
next
  case False
  then obtain cm e where cm: "find (\<lambda>m. pm_name m = pm_array_cnt_param (fp_meta q)) (map fp_meta (tc_params c)) = Some cm"
      "shipped_type (pm_type_name cm) = Some e" "counts (dt_family e)"
    using typed(1) ptr by (auto simp: pointee_typed_def split: option.splits)
  then obtain r where r: "find (\<lambda>r. pm_name (fp_meta r) = pm_array_cnt_param (fp_meta q)) (tc_params c) = Some r" "fp_meta r = cm"
    by (auto simp: find_of_map)
  from find_param_index [OF r(1), of 0] obtain j where j: "j < length (tc_params c)"
      "retrace_action_find_param c (pm_array_cnt_param (fp_meta q)) = int j" "tc_params c ! j = r"
    by (auto simp: retrace_action_find_param_def)
  have "value_typed shipped_type cm" using typed(2) j(1,3) r(2) by auto
  from typed_param [OF types this] cm(2) have e: "param_data_type t cm = Some e" "slot_ok (dt_family e) (dt_value_size e)" by auto
  obtain w where w: "to_size_t False (dt_family e) (Some (slot False (fp_val r))) = Some (0, w)" "unat w = count_of (dt_family e) (fp_val r)"
    using count_slot [OF cm(3) e(2)] by blast
  have "array_size False t c q = Some (Inr w)"
    using False j r(2) e(1) w(1) by (simp add: array_size_def val_object_def retrace_datatype_val_addr_def)
  then show ?thesis using False r cm(2) w(2) by (auto simp: followed_count_def min_def)
qed

lemma log_pointee_typed:
  assumes types: "(\<lambda>name. retrace_datatype_get name t) = shipped_type"
    and typed: "pointee_typed shipped_type (map fp_meta (tc_params c)) (fp_meta q)" "\<forall>q\<in>set (tc_params c). value_typed shipped_type (fp_meta q)"
    and d: "followed_type q = Some d" "objects_ok shipped_type d (followed_count (tc_params c) q) (bytes_at mem (fp_val q))"
    and name: "plain_name MAXLEN_PARAM_NAME (pm_name (fp_meta q))" "CHR ''*'' # pm_name (fp_meta q) \<notin> fst ` set obj"
  shows "log_pointee False t mem c q d obj = Some (True, obj @ tl (param_entry mem (tc_params c) q))"
proof -
  have ptr: "pm_modifiers (fp_meta q) AND CDM_POINTER \<noteq> 0" "shipped_type (pm_ref_type_name (fp_meta q)) = Some d"
    using d(1) by (auto simp: followed_type_def split: if_splits)
  have ty: "dt_family d \<noteq> FLonglong" "pm_ref_type_name (fp_meta q) \<noteq> ''ntoa''"
    using typed(1) ptr by (simp_all add: pointee_typed_def)
  note pr = objects_print [OF shipped_printable [OF ptr(2) ty(1)] d(2) types [symmetric], where arr = "[]"]
  obtain w where w: "array_size False t c q = Some (Inr w)"
    "(if unat w > ARR_MAX_COUNT then ARR_MAX_COUNT else unat w) = followed_count (tc_params c) q"
    using array_size_typed [OF types typed ptr] by blast
  have "take (MAXLEN_PARAM_NAME + 1) (CHR ''*'' # pm_name (fp_meta q)) = CHR ''*'' # pm_name (fp_meta q)"
    using name(1) by (simp add: plain_name_def)
  then show ?thesis using w pr name(2) ty(2) d(1) by (simp add: log_pointee_def set_value_new param_entry_def)
qed

lemma log_param_typed:
  assumes types: "(\<lambda>name. retrace_datatype_get name t) = shipped_type"
    and typed: "\<forall>q\<in>set (tc_params c). value_typed shipped_type (fp_meta q) \<and> plain_name MAXLEN_PARAM_NAME (pm_name (fp_meta q)) \<and>
      pointee_typed shipped_type (map fp_meta (tc_params c)) (fp_meta q)"
    and q: "q \<in> set (tc_params c)" "pointees_readable mem (tc_params c)"
    and om: "case om of None \<Rightarrow> omit = [] | Some vs \<Rightarrow> vs = map JSONString omit"
    and fresh: "fst ` set (param_entry mem (tc_params c) q) \<inter> fst ` set obj = {}"
  shows "log_param False t mem c om q obj =
    Some (True, obj @ (if pm_name (fp_meta q) \<in> set omit then [] else param_entry mem (tc_params c) q))"
proof (cases "pm_name (fp_meta q) \<in> set omit")
  case True
  then show ?thesis using om by (cases om) (simp_all add: log_param_def omitted_strings)
next
  case False
  let ?n = "pm_name (fp_meta q)"
  have no: "(case om of None \<Rightarrow> Some False | Some vs \<Rightarrow> omitted ?n vs) = Some False"
    using om False by (cases om) (simp_all add: omitted_strings)
  from typed_param [OF types] typed q(1) obtain d where d: "shipped_type (pm_type_name (fp_meta q)) = Some d"
      "param_data_type t (fp_meta q) = Some d" "slot_ok (dt_family d) (dt_value_size d)" by blast
  let ?s = "show_slot (dt_family d) (fp_val q)"
  have pr: "print_object (to_sz False PRINT_DEPTH t) d (Some d) (val_object False t q) = Some ?s"
    using slot_prints [OF d(3), of False PRINT_DEPTH t "fp_val q"] d(2) by (simp add: print_object_def get_sz_size_def val_object_def)
  have f: "?n \<notin> fst ` set obj" using fresh by (auto simp: param_entry_def)
  define obj1 where "obj1 = obj @ [(?n, JSONString ?s)]"
  have set: "snd (json_object_set_string obj ?n (Some ?s)) = obj1"
    unfolding obj1_def by (rule set_new_string [OF f ascii_slot])
  have step: "log_param False t mem c om q obj =
      (case followed_type q of None \<Rightarrow> Some (True, obj1) | Some rd \<Rightarrow> log_pointee False t mem c q rd obj1)"
    using no d(2) pr set types [THEN fun_cong, of "pm_ref_type_name (fp_meta q)"] by (auto simp: log_param_def followed_type_def)
  show ?thesis
  proof (cases "followed_type q")
    case None
    then show ?thesis using step False d(1) by (simp add: param_entry_def obj1_def)
  next
    case (Some rd)
    have ok: "objects_ok shipped_type rd (followed_count (tc_params c) q) (bytes_at mem (fp_val q))"
      using q Some by (auto simp: pointees_readable_def split: option.splits)
    have new: "CHR ''*'' # ?n \<notin> fst ` set obj1" using fresh Some typed q(1) by (auto simp: param_entry_def obj1_def plain_name_def)
    have "log_pointee False t mem c q rd obj1 = Some (True, obj1 @ tl (param_entry mem (tc_params c) q))"
      by (rule log_pointee_typed [OF types _ _ Some ok _ new]) (use typed q(1) in auto)
    then show ?thesis using step Some False d(1) by (simp add: param_entry_def obj1_def)
  qed
qed

subsection \<open>All parameters\<close>

lemma entry_keys: "fst ` set (param_entry mem qs q) \<subseteq> {pm_name (fp_meta q), CHR ''*'' # pm_name (fp_meta q)}"
  by (auto simp: param_entry_def split: option.splits)

lemma plain_star: "plain_name n s \<Longrightarrow> s \<noteq> CHR ''*'' # u"
  by (auto simp: plain_name_def)

lemma log_params_typed_loop:
  assumes types: "(\<lambda>name. retrace_datatype_get name t) = shipped_type"
    and typed: "\<forall>q\<in>set (tc_params c). value_typed shipped_type (fp_meta q) \<and> plain_name MAXLEN_PARAM_NAME (pm_name (fp_meta q)) \<and>
      pointee_typed shipped_type (map fp_meta (tc_params c)) (fp_meta q)"
    and mem: "pointees_readable mem (tc_params c)"
    and om: "case om of None \<Rightarrow> omit = [] | Some vs \<Rightarrow> vs = map JSONString omit"
    and qs: "set qs \<subseteq> set (tc_params c)" "distinct (map (pm_name \<circ> fp_meta) qs)"
    and fresh: "\<forall>q\<in>set qs. \<forall>k\<in>fst ` set obj. k \<noteq> pm_name (fp_meta q) \<and> k \<noteq> CHR ''*'' # pm_name (fp_meta q)"
  shows "log_params_loop False t mem c om qs obj =
    Some (obj @ concat (map (param_entry mem (tc_params c)) (filter (\<lambda>q. pm_name (fp_meta q) \<notin> set omit) qs)))"
  using qs fresh
proof (induction qs arbitrary: obj)
  case (Cons q qs)
  let ?e = "if pm_name (fp_meta q) \<in> set omit then [] else param_entry mem (tc_params c) q"
  have "fst ` set (param_entry mem (tc_params c) q) \<inter> fst ` set obj = {}" using Cons.prems(3) entry_keys by fastforce
  with log_param_typed [OF types typed _ mem om] Cons.prems(1)
  have step: "log_param False t mem c om q obj = Some (True, obj @ ?e)" by simp
  have "\<forall>r\<in>set qs. \<forall>k\<in>fst ` set (obj @ ?e). k \<noteq> pm_name (fp_meta r) \<and> k \<noteq> CHR ''*'' # pm_name (fp_meta r)"
  proof (intro ballI)
    fix r k assume r: "r \<in> set qs" and k: "k \<in> fst ` set (obj @ ?e)"
    have ne: "pm_name (fp_meta q) \<noteq> pm_name (fp_meta r)" using Cons.prems(2) r by (auto simp: image_iff)
    have plain: "pm_name (fp_meta q) \<noteq> CHR ''*'' # pm_name (fp_meta r)" "pm_name (fp_meta r) \<noteq> CHR ''*'' # pm_name (fp_meta q)"
      using typed Cons.prems(1) r plain_star by (metis insert_subset list.simps(15) subsetD)+
    consider "k \<in> fst ` set obj" | "k = pm_name (fp_meta q)" | "k = CHR ''*'' # pm_name (fp_meta q)"
      using k entry_keys [of mem "tc_params c" q] by (auto split: if_splits)
    then show "k \<noteq> pm_name (fp_meta r) \<and> k \<noteq> CHR ''*'' # pm_name (fp_meta r)"
      using Cons.prems(3) r ne plain by cases auto
  qed
  then show ?case using step Cons.IH [of "obj @ ?e"] Cons.prems(1,2) by simp
qed simp

text \<open>
  The whole entry: it has the name and the parameters of the call and nothing else, not the value
  returned.
\<close>

lemma log_params_exact:
  assumes "retrace_datatypes_init malloc_ok types no_types = Some (0, t)" "mset types = mset shipped_types" "\<forall>i. malloc_ok i"
    and "p \<in> set posix_prototypes" "fpr_name p \<notin> set string_counts \<union> set func_params"
    and "tc_func c = fpr_name p" "map fp_meta (tc_params c) = fpr_params p"
    and "pointees_readable mem (tc_params c)" "omits action_params omit"
  shows "params_entry False t mem c action_params = Some ((''func'', JSONString (fpr_name p)) #
    concat (map (param_entry mem (tc_params c)) (filter (\<lambda>q. pm_name (fp_meta q) \<notin> set omit) (tc_params c))))"
proof -
  have types: "(\<lambda>name. retrace_datatype_get name t) = shipped_type"
    using shipped_init [OF assms(2,3)] assms(1) by auto
  have typed: "proto_typed shipped_type p" using posix_typed [OF assms(4)] assms(5) by blast
  let ?om = "if action_params \<noteq> None then json_object_get_array action_params ''omit_params'' else None"
  have om: "case ?om of None \<Rightarrow> omit = [] | Some vs \<Rightarrow> vs = map JSONString omit"
    using assms(9) by (auto simp: omits_def split: option.splits)
  have each: "\<forall>q\<in>set (tc_params c). value_typed shipped_type (fp_meta q) \<and> plain_name MAXLEN_PARAM_NAME (pm_name (fp_meta q)) \<and>
      pointee_typed shipped_type (map fp_meta (tc_params c)) (fp_meta q)"
    using typed assms(7) unfolding proto_typed_def list_all_iff by (metis image_eqI list.set_map)
  have names: "distinct (''func'' # map (pm_name \<circ> fp_meta) (tc_params c))"
    using typed assms(7) by (simp add: proto_typed_def flip: map_map)
  have "ascii (fpr_name p)" using typed by (auto simp: proto_typed_def plain_name_def ascii_def list_all_iff)
  then have start: "snd (json_object_set_string [] ''func'' (Some (tc_func c))) = [(''func'', JSONString (fpr_name p))]"
    using set_new_string [of "''func''" "[]"] assms(6) by simp
  have "\<forall>q\<in>set (tc_params c). ''func'' \<noteq> pm_name (fp_meta q)" using names by auto
  then show ?thesis unfolding params_entry_def start
    using log_params_typed_loop [OF types each assms(8) om order_refl, of "[(''func'', JSONString (fpr_name p))]"] names by simp
qed

text \<open>
  C12. Logging a call of a function of the shipped tables, once the types are registered: on a
  little-endian machine, whatever the values of the parameters, if the pointers it follows
  lead to readable objects then the action builds its entry without going wrong, and the
  entry begins with the function's name and, for each parameter not omitted, its value as its
  type shows it and, if it is a pointer that is followed, the list of the objects there, at most
  64 of them, under the name with a star: strings up to their terminating zero, numbers by their
  bytes, the least significant first, structures as the JSON text of their members.  Texts that
  are not UTF-8 are missing from the list.  It holds for all functions but those whose prototype
  is not well typed.
\<close>

theorem log_params_entry:
  assumes "retrace_datatypes_init malloc_ok types no_types = Some (0, t)" "mset types = mset shipped_types" "\<forall>i. malloc_ok i"
    and "p \<in> set posix_prototypes" "fpr_name p \<notin> set string_counts \<union> set func_params"
    and "tc_func c = fpr_name p" "map fp_meta (tc_params c) = fpr_params p"
    and "pointees_readable mem (tc_params c)" "omits action_params omit"
  shows "\<exists>entry. params_entry False t mem c action_params = Some entry \<and>
    prefix ((''func'', JSONString (fpr_name p)) #
      concat (map (param_entry mem (tc_params c)) (filter (\<lambda>q. pm_name (fp_meta q) \<notin> set omit) (tc_params c)))) entry"
  using log_params_exact [OF assms] by auto

definition chdir_proto :: func_prototype where
  "chdir_proto = proto ''chdir'' ''int'' 1 [param ''path'' ''ptr'' (CDM_POINTER OR CDM_CONST) PDIR_IN ''sz'' []] FAT_NOVARARGS 0"

lemma chdir_listed: "chdir_proto \<in> set posix_prototypes"
  by (simp add: posix_prototypes_def unistd_prototypes_def unistd_prototypes_1_def chdir_proto_def)

definition chdir_call :: thread_context where
  "chdir_call = \<lparr>tc_func = ''chdir'', tc_type_name = ''int'', tc_ret_val = 0, tc_ret_errno = 0,
     tc_params = [\<lparr>fp_meta = param ''path'' ''ptr'' (CDM_POINTER OR CDM_CONST) PDIR_IN ''sz'' [], fp_val = 4096, fp_free_val = False\<rparr>],
     tc_ret_addr = 0\<rparr>"

definition root_dir :: memory where
  "root_dir a = (if a = 4096 then Some 47 else if a = 4097 then Some 0 else None)"

lemma root_dir_text: "sz_at (bytes_at root_dir 4096) 0 = Some ''/''"
proof -
  have "char_of (47 :: nat) = CHR ''/''" by code_simp
  then show ?thesis by (subst sz_at.simps, subst sz_at.simps) (simp add: bytes_at_def root_dir_def)
qed

lemma root_dir_string: "c_string (bytes_at root_dir 4096)"
  by (auto simp: c_string_def readable_bytes_def bytes_at_def root_dir_def less_Suc_eq intro!: exI [of _ 1])

lemma chdir_types:
  "shipped_type ''sz'' = Some (scalar_type ''sz'' 8 PBT_UNK PFM_UNK FSz)" "shipped_type ''ptr'' = Some (scalar_type ''ptr'' 8 PBT_POINTER PFM_UNK FPtr)"
  by (code_simp, code_simp)

lemma chdir_followed: "followed_type (hd (tc_params chdir_call)) = Some (scalar_type ''sz'' 8 PBT_UNK PFM_UNK FSz)"
  "followed_count (tc_params chdir_call) (hd (tc_params chdir_call)) = 1"
  by (simp_all add: followed_type_def followed_count_def chdir_call_def param_def CDM_POINTER_def CDM_CONST_def CDM_ARRAY_def chdir_types)

theorem log_params_entry_witness:
  "\<exists>t entry. retrace_datatypes_init (\<lambda>_. True) shipped_types no_types = Some (0, t) \<and>
    params_entry False t root_dir chdir_call None = Some entry \<and>
    prefix [(''func'', JSONString ''chdir''), (''path'', JSONString ''0x1000''), (''*path'', JSONArray [JSONString ''/''])] entry"
proof -
  obtain t where t: "retrace_datatypes_init (\<lambda>_. True) shipped_types no_types = Some (0, t)" using shipped_init [of shipped_types "\<lambda>_. True"] by auto
  have q: "tc_params chdir_call = [hd (tc_params chdir_call)]" by (simp add: chdir_call_def)
  have "pointees_readable root_dir (tc_params chdir_call)"
    unfolding pointees_readable_def using chdir_followed root_dir_string
    by (subst q) (simp add: object_ok_def scalar_type_def chdir_call_def)
  then have e: "\<exists>entry. params_entry False t root_dir chdir_call None = Some entry \<and> prefix ((''func'', JSONString (fpr_name chdir_proto)) #
      concat (map (param_entry root_dir (tc_params chdir_call)) (filter (\<lambda>q. pm_name (fp_meta q) \<notin> set []) (tc_params chdir_call)))) entry"
    by (intro log_params_entry [OF t _ _ chdir_listed])
      (simp_all add: chdir_proto_def chdir_call_def proto_def MAXCOUNT_PARAMS_def string_counts_def func_params_def omits_def)
  have "object_text shipped_type (scalar_type ''sz'' 8 PBT_UNK PFM_UNK FSz) (bytes_at root_dir 4096) = ''/''"
    using sz_at_string [OF root_dir_string] root_dir_text by (simp add: object_text_def scalar_type_def)
  moreover have "is_valid_utf8 ''/''" by (simp add: ascii_valid)
  moreover have "show_slot FPtr 4096 = ''0x1000''" by code_simp
  ultimately have "param_entry root_dir (tc_params chdir_call) (hd (tc_params chdir_call)) =
      [(''path'', JSONString ''0x1000''), (''*path'', JSONArray [JSONString ''/''])]"
    unfolding param_entry_def chdir_followed by (simp add: chdir_call_def param_def chdir_types scalar_type_def)
  moreover have "map (param_entry root_dir (tc_params chdir_call)) (filter (\<lambda>q. pm_name (fp_meta q) \<notin> set []) (tc_params chdir_call)) =
      [param_entry root_dir (tc_params chdir_call) (hd (tc_params chdir_call))]" by (simp add: chdir_call_def)
  moreover have "fpr_name chdir_proto = ''chdir''" by (simp add: chdir_proto_def proto_def)
  ultimately show ?thesis using t e by simp
qed

subsection \<open>Functions whose prototypes are not well typed\<close>

lemma set_old_string:
  "name \<in> fst ` set obj \<Longrightarrow> ascii s \<Longrightarrow> snd (json_object_set_string obj name (Some s)) = overwrite obj name (JSONString s)"
  by (simp add: json_object_set_string_def json_value_init_string_def ascii_valid set_value_old)

definition atexit_proto :: func_prototype where
  "atexit_proto = proto ''atexit'' ''int'' 1 [param ''func'' ''ptr'' CDM_NOMOD PDIR_IN [] []] FAT_NOVARARGS 0"

lemma atexit_listed: "atexit_proto \<in> set posix_prototypes"
  by (simp add: posix_prototypes_def stdlib_prototypes_def stdlib_prototypes_1_def stdlib_prototypes_2_def stdlib_prototypes_3_def
      stdlib_prototypes_4_def atexit_proto_def)

text \<open>
  The entry logged for \<open>atexit\<close> does not name the function: its parameter has the name under
  which the function was stored, and takes its place.
\<close>

lemma atexit_name_lost:
  assumes "(\<lambda>name. retrace_datatype_get name t) = shipped_type" "tc_func c = fpr_name atexit_proto"
    and "map fp_meta (tc_params c) = fpr_params atexit_proto"
  shows "params_entry False t mem c None = Some [(''func'', JSONString (show_pointer (uint (fp_val (hd (tc_params c))))))]"
proof -
  obtain q where q: "tc_params c = [q]" "fp_meta q = param ''func'' ''ptr'' CDM_NOMOD PDIR_IN [] []"
    using assms(3) by (auto simp: atexit_proto_def proto_def MAXCOUNT_PARAMS_def)
  have d: "param_data_type t (fp_meta q) = Some (scalar_type ''ptr'' 8 PBT_POINTER PFM_UNK FPtr)"
    using assms(1) [THEN fun_cong, of "''ptr''"] by (simp add: q(2) param_def param_data_type_def unk_dt_def chdir_types)
  have "to_sz False PRINT_DEPTH t FPtr (val_object False t q) arg = Some (show_pointer (uint (fp_val q)))" for arg
    using slot_prints [of "scalar_type ''ptr'' 8 PBT_POINTER PFM_UNK FPtr" False PRINT_DEPTH t "fp_val q" arg] d
    by (simp add: val_object_def scalar_type_def)
  then have "print_object (to_sz False PRINT_DEPTH t) (scalar_type ''ptr'' 8 PBT_POINTER PFM_UNK FPtr)
      (Some (scalar_type ''ptr'' 8 PBT_POINTER PFM_UNK FPtr)) (val_object False t q) = Some (show_pointer (uint (fp_val q)))"
    by (simp add: print_object_def get_sz_size_def scalar_type_def val_object_def)
  then have "log_param False t mem c None q obj = Some (True, snd (json_object_set_string obj ''func'' (Some (show_pointer (uint (fp_val q))))))" for obj
    using d by (simp add: log_param_def q(2) param_def CDM_NOMOD_def)
  moreover have "ascii (show_pointer (uint (fp_val q)))" using ascii_slot [of FPtr "fp_val q"] by simp
  moreover have "ascii (fpr_name atexit_proto)" by (simp add: atexit_proto_def proto_def)
  ultimately show ?thesis using assms(2) q(1) by (simp add: params_entry_def set_new_string set_old_string)
qed

text \<open>
  A count declared a string is logged as the characters its bytes stand for; when none of the
  bytes is zero the read runs past the slot.
\<close>

lemma count_as_text:
  assumes "(\<lambda>name. retrace_datatype_get name t) = shipped_type" "pm_type_name (fp_meta q) = ''sz''"
  shows "0 < n \<Longrightarrow> n < 128 \<Longrightarrow> fp_val q = of_nat n \<Longrightarrow> pm_modifiers (fp_meta q) = CDM_NOMOD \<Longrightarrow>
      log_param False t mem c None q obj = Some (True, snd (json_object_set_string obj (pm_name (fp_meta q)) (Some [char_of n])))"
    and "fp_val q = -1 \<Longrightarrow> log_param False t mem c None q obj = None"
proof -
  let ?d = "scalar_type ''sz'' 8 PBT_UNK PFM_UNK FSz"
  have d: "param_data_type t (fp_meta q) = Some ?d"
    using assms(1) [THEN fun_cong, of "''sz''"] by (simp add: assms(2) param_data_type_def unk_dt_def chdir_types)
  have pr: "print_object (to_sz False PRINT_DEPTH t) ?d (Some ?d) (val_object False t q) = sz_at (slot False (fp_val q)) 0"
    by (simp add: print_object_def get_sz_size_def scalar_type_def val_object_def to_sz_scalar retrace_sz_to_sz_def
        retrace_datatype_val_addr_def split: option.split)
  {
    assume n: "0 < n" "n < 128" "fp_val q = of_nat n" "pm_modifiers (fp_meta q) = CDM_NOMOD"
    have u: "uint (of_nat n :: 64 word) = int n" "unat (of_nat n :: 8 word) = n" using n(1,2) by (simp_all add: unsigned_of_nat take_bit_nat_eq_self)
    have "uint (ucast (drop_bit 0 (of_nat n :: 64 word)) :: 8 word) = uint (of_nat n :: 8 word)"
      unfolding byte_of_word u using n(2) by (simp add: unsigned_of_nat take_bit_nat_eq_self take_bit_int_eq_self)
    then have b0: "slot False (of_nat n) 0 = Some (of_nat n)" unfolding word_uint_eq_iff [symmetric] by (simp add: slot_def)
    have "uint (ucast (drop_bit 8 (of_nat n :: 64 word)) :: 8 word) = 0"
      unfolding byte_of_word u using n(2) by (simp add: drop_bit_eq_div)
    then have b: "slot False (of_nat n) 0 = Some (of_nat n)" "slot False (of_nat n) 1 = Some 0"
      using b0 by (simp_all add: slot_def uint_0_iff)
    have "unat (of_nat n :: 8 word) = n" "(of_nat n :: 8 word) \<noteq> 0" using n(1) u(2) by auto
    then have "sz_at (slot False (fp_val q)) 0 = Some [char_of n]"
      using b n(3) by (subst sz_at.simps, subst sz_at.simps) simp
    then show "log_param False t mem c None q obj = Some (True, snd (json_object_set_string obj (pm_name (fp_meta q)) (Some [char_of n])))"
      using d pr n(4) by (simp add: log_param_def CDM_NOMOD_def) }
  assume "fp_val q = -1"
  have full: "slot False (-1) i = (if i < 8 then Some (-1) else None)" for i
    by (auto simp: slot_def bit_eq_iff bit_simps)
  have "sz_at (slot False (-1)) i = None" if "i \<le> 8" for i
    using that
  proof (induction rule: inc_induct)
    case base
    show ?case using full [of 8] by (subst sz_at.simps) simp
  next
    case (step i)
    then show ?case using full [of i] by (subst sz_at.simps) simp
  qed
  then show "log_param False t mem c None q obj = None" using d pr \<open>fp_val q = -1\<close> by (simp add: log_param_def)
qed

end
