(* ===== verification/Keyed_List.thy ===== *)
theory Keyed_List
  imports Retrace_Prelude
begin

section \<open>Arrays searched by a key\<close>

text \<open>
  Several components keep an array of entries and find one by walking it until a key
  compares equal.  The contract of such a search, and what follows from it when no two
  entries have the same key: the array is a map from keys to entries.
\<close>

definition keyed :: "('e \<Rightarrow> 'k) \<Rightarrow> 'e list \<Rightarrow> 'k \<Rightarrow> 'e option" where
  "keyed key es = map_of (map (\<lambda>e. (key e, e)) es)"

lemma keyed_None: "keyed key es k = None \<longleftrightarrow> k \<notin> key ` set es"
  by (force simp: keyed_def map_of_eq_None_iff)

lemma keyed_key: "keyed key es k = Some e \<Longrightarrow> key e = k \<and> e \<in> set es"
  by (auto simp: keyed_def dest!: map_of_SomeD)

lemma keyed_nth: "distinct (map key es) \<Longrightarrow> i < length es \<Longrightarrow> keyed key es (key (es ! i)) = Some (es ! i)"
  by (simp add: keyed_def comp_def map_of_is_SomeI)

lemma keyed_append: "key e \<notin> key ` set es \<Longrightarrow> keyed key (es @ [e]) = (keyed key es)(key e \<mapsto> e)"
proof (induction es)
  case (Cons x es)
  then show ?case by (auto simp: keyed_def fun_upd_twist)
qed (simp add: keyed_def)

lemma keyed_update:
  assumes "distinct (map key es)" "i < length es" "key e = key (es ! i)"
  shows "keyed key (es[i := e]) = (keyed key es)(key e \<mapsto> e)"
  using assms
proof (induction es arbitrary: i)
  case (Cons x es)
  show ?case
  proof (cases i)
    case 0
    then show ?thesis using Cons.prems by (simp add: keyed_def fun_eq_iff)
  next
    case (Suc j)
    then have "es ! j \<in> set es" "key e = key (es ! j)" using Cons.prems by simp_all
    then have "key e \<noteq> key x" using Cons.prems by (metis distinct.simps(2) imageI list.set_map list.simps(9))
    then show ?thesis using Suc Cons.prems Cons.IH [of j] by (auto simp: keyed_def fun_eq_iff)
  qed
qed simp

lemma keys_update: "i < length es \<Longrightarrow> key e = key (es ! i) \<Longrightarrow> map key (es[i := e]) = map key es"
  by (simp add: map_update list_update_same_conv)

lemma keyed_map: "(\<And>e. key (f e) = key e) \<Longrightarrow> keyed key (map f es) k = map_option f (keyed key es k)"
  by (induction es) (auto simp: keyed_def)

lemma keyed_member: "distinct (map key es) \<Longrightarrow> e \<in> set es \<Longrightarrow> keyed key es (key e) = Some e"
  by (metis in_set_conv_nth keyed_nth)

lemma keyed_count:
  assumes "distinct (map key es)"
  shows "card {k. \<exists>e. keyed key es k = Some e \<and> P e} = length (filter P es)"
proof -
  have "{k. \<exists>e. keyed key es k = Some e \<and> P e} = set (map key (filter P es))"
    using keyed_member [OF assms] by (force dest: keyed_key)
  moreover have "distinct (map key (filter P es))" using assms by (rule distinct_map_filter)
  ultimately show ?thesis by (metis distinct_card length_map)
qed

locale keyed_search =
  fixes key :: "'e \<Rightarrow> 'k"
    and find :: "'e list \<Rightarrow> 'k \<Rightarrow> nat option"
  assumes find_Nil: "find [] k = None"
    and find_Cons: "find (e # es) k = (if key e = k then Some 0 else map_option Suc (find es k))"
begin

lemma find_None: "find es k = None \<longleftrightarrow> k \<notin> key ` set es"
  by (induction es) (auto simp: find_Nil find_Cons)

lemma find_first: "find es k = Some i \<Longrightarrow> i < length es \<and> key (es ! i) = k"
  by (induction es arbitrary: i) (auto simp: find_Nil find_Cons split: if_splits)

lemma find_Some: "distinct (map key es) \<Longrightarrow> find es k = Some i \<longleftrightarrow> i < length es \<and> key (es ! i) = k"
proof (induction es arbitrary: i)
  case (Cons e es)
  show ?case
  proof (cases i)
    case 0
    then show ?thesis by (simp add: find_Cons)
  next
    case (Suc j)
    have "key (es ! j) \<noteq> key e" if "j < length es" using Cons.prems that by (metis distinct.simps(2) length_map list.simps(9) nth_map nth_mem)
    then show ?thesis using Suc Cons by (auto simp: find_Cons)
  qed
qed (simp add: find_Nil)

lemma find_keyed: "distinct (map key es) \<Longrightarrow> keyed key es k = map_option (nth es) (find es k)"
proof (cases "find es k")
  case None
  then have "keyed key es k = None" by (simp add: find_None keyed_None)
  then show ?thesis using None by simp
next
  case (Some i)
  moreover assume "distinct (map key es)"
  ultimately show ?thesis using find_first [OF Some] keyed_nth [of key es i] by simp
qed

text \<open>Two entries a search returns for two keys differ in place exactly when the keys differ.\<close>

lemma find_inj: "find es k = Some i \<Longrightarrow> find es k' = Some i \<Longrightarrow> k = k'"
  by (auto dest!: find_first)

lemma find_extended: "find es k = Some i \<Longrightarrow> find (es @ es') k = Some i"
  by (induction es arbitrary: i) (auto simp: find_Nil find_Cons split: if_splits)

lemma find_new: "find es (key e) = None \<Longrightarrow> find (es @ [e]) (key e) = Some (length es)"
  by (induction es) (auto simp: find_Nil find_Cons split: if_splits)

lemma find_update: "i < length es \<Longrightarrow> key e = key (es ! i) \<Longrightarrow> find (es[i := e]) k = find es k"
proof (induction es arbitrary: i)
  case (Cons x es)
  then show ?case by (cases i) (auto simp: find_Cons)
qed simp

end

end
