(* ===== verification/Printed_Numbers.thy ===== *)
theory Printed_Numbers
  imports Retrace_Prelude
begin

section \<open>Numbers printed and read back\<close>

text \<open>
  Facts on the decimal digits of \<open>%lu\<close> and \<open>%ld\<close> and on the sixteen hexadecimal digits of
  \<open>%016llx\<close>, and the library function \<open>strtoull\<close> in base sixteen: blanks, a sign and a
  \<open>0x\<close> are skipped, digits are read up to the first other character, and a value that does
  not fit saturates.
\<close>

definition undec :: "string \<Rightarrow> nat" where
  "undec s = foldl (\<lambda>a c. 10 * a + (of_char c - 48)) 0 s"

lemma dec_digit_val: "d < 10 \<Longrightarrow> of_char (dec_digit d) = 48 + d"
proof -
  have "list_all (\<lambda>d. of_char (dec_digit d) = 48 + d) [0..<10]" by code_simp
  then show "d < 10 \<Longrightarrow> of_char (dec_digit d) = 48 + d" by (simp only: list_all_iff set_upt) simp
qed

lemma undec_dec: "undec (dec n) = n"
proof (induction n rule: dec.induct)
  case (1 n)
  show ?case
  proof (cases "n < 10")
    case True
    then show ?thesis by (subst dec.simps) (simp add: undec_def dec_digit_val)
  next
    case False
    then have "undec (dec n) = 10 * undec (dec (n div 10)) + n mod 10"
      by (subst dec.simps) (simp add: undec_def dec_digit_val)
    then show ?thesis using 1 [OF False] by simp
  qed
qed

lemma dec_inj [simp]: "dec m = dec n \<longleftrightarrow> m = n"
  by (metis undec_dec)

lemma dec_length: "n < 10 ^ Suc k \<Longrightarrow> length (dec n) \<le> Suc k"
proof (induction k arbitrary: n)
  case 0
  then show ?case by (subst dec.simps) simp
next
  case (Suc k)
  then show ?case
    by (subst dec.simps) (simp add: less_mult_imp_div_less mult.commute)
qed

lemma dec_range: "c \<in> set (dec n) \<Longrightarrow> of_char c \<in> {48..<58::nat}"
proof (induction n rule: dec.induct)
  case (1 n)
  have "c = dec_digit (n mod 10) \<or> \<not> n < 10 \<and> c \<in> set (dec (n div 10))"
    using 1(2) by (subst (asm) dec.simps) (auto split: if_splits)
  then show ?case using 1(1) dec_digit_val [of "n mod 10"] by auto
qed

lemma dec_first: "dec n \<noteq> []"
  by (subst dec.simps) simp

lemma dec_excludes: "of_char c \<notin> {48..<58::nat} \<Longrightarrow> c \<notin> set (dec n)"
  using dec_range by blast

lemma show_int_chars: "c \<in> set (show_int v) \<Longrightarrow> c = CHR ''-'' \<or> of_char c \<in> {48..<58::nat}"
  using dec_range by (auto simp: show_int_def split: if_splits)

subsection \<open>Hexadecimal\<close>

definition hex16 :: "64 word \<Rightarrow> string" where
  "hex16 w = map (\<lambda>k. hex_digit (unat w div 16 ^ (15 - k) mod 16)) [0..<16]"

definition unhex_digit :: "char \<Rightarrow> nat option" where
  "unhex_digit c =
     (let v = (of_char c :: nat) in
      if 48 \<le> v \<and> v \<le> 57 then Some (v - 48)
      else if 97 \<le> v \<and> v \<le> 102 then Some (v - 87)
      else if 65 \<le> v \<and> v \<le> 70 then Some (v - 55)
      else None)"

fun hex_value :: "nat \<Rightarrow> cstr \<Rightarrow> nat" where
  "hex_value a [] = a"
| "hex_value a (c # s) = (case unhex_digit c of None \<Rightarrow> a | Some d \<Rightarrow> hex_value (16 * a + d) s)"

definition is_blank :: "char \<Rightarrow> bool" where
  "is_blank c \<longleftrightarrow> c = CHR '' '' \<or> (let v = (of_char c :: nat) in 9 \<le> v \<and> v \<le> 13)"

definition skip_0x :: "cstr \<Rightarrow> cstr" where
  "skip_0x s = (if cget s 0 = CHR ''0'' \<and> (cget s 1 = CHR ''x'' \<or> cget s 1 = CHR ''X'') \<and> unhex_digit (cget s 2) \<noteq> None
                then drop 2 s else s)"

definition strtoull16 :: "cstr \<Rightarrow> 64 word" where
  "strtoull16 s =
     (let s1 = dropWhile is_blank s;
          neg = (cget s1 0 = CHR ''-'');
          s2 = (if neg \<or> cget s1 0 = CHR ''+'' then drop 1 s1 else s1);
          v = hex_value 0 (skip_0x s2) in
      if v \<ge> 2 ^ 64 then -1 else if neg then - of_nat v else of_nat v)"

lemma hex_digit_chars:
  "d < 16 \<Longrightarrow> unhex_digit (hex_digit d) = Some d"
  "d < 16 \<Longrightarrow> \<not> is_blank (hex_digit d)"
  "d < 16 \<Longrightarrow> hex_digit d \<notin> set ''-+xX''"
  "d < 16 \<Longrightarrow> of_char (hex_digit d) \<in> {48..<58} \<union> {97..<103::nat}"
proof -
  have "list_all (\<lambda>d. unhex_digit (hex_digit d) = Some d \<and> \<not> is_blank (hex_digit d) \<and> hex_digit d \<notin> set ''-+xX'' \<and>
      (let v = (of_char (hex_digit d) :: nat) in (48 \<le> v \<and> v < 58) \<or> (97 \<le> v \<and> v < 103))) [0..<16]" by code_simp
  then have *: "d < 16 \<Longrightarrow> unhex_digit (hex_digit d) = Some d \<and> \<not> is_blank (hex_digit d) \<and> hex_digit d \<notin> set ''-+xX'' \<and>
      (let v = (of_char (hex_digit d) :: nat) in (48 \<le> v \<and> v < 58) \<or> (97 \<le> v \<and> v < 103))" for d
    by (simp only: list_all_iff set_upt) simp
  show "d < 16 \<Longrightarrow> unhex_digit (hex_digit d) = Some d" "d < 16 \<Longrightarrow> \<not> is_blank (hex_digit d)"
    "d < 16 \<Longrightarrow> hex_digit d \<notin> set ''-+xX''" using * by blast+
  show "d < 16 \<Longrightarrow> of_char (hex_digit d) \<in> {48..<58} \<union> {97..<103::nat}"
    using * [of d] unfolding Let_def Un_iff atLeastLessThan_iff by blast
qed

lemma unat_bound: "unat (w :: 64 word) < 2 ^ 64"
  using unsigned_less [of w, where 'a = nat] by simp

lemma hex_value_digits:
  "hex_value a (map (\<lambda>k. hex_digit (f k mod 16)) ks @ s) = hex_value (foldl (\<lambda>a k. 16 * a + f k mod 16) a ks) s"
  by (induction ks arbitrary: a) (simp_all add: hex_digit_chars)

lemma hex_value_stop: "unhex_digit (cget s 0) = None \<Longrightarrow> hex_value a s = a"
  by (cases s) simp_all

lemma hex_fold: "(n::nat) < 16 ^ k \<Longrightarrow> foldl (\<lambda>a i. 16 * a + n div 16 ^ (k - 1 - i) mod 16) a [0..<k] = a * 16 ^ k + n"
proof (induction k arbitrary: n a)
  case (Suc k)
  have eq: "foldl (\<lambda>a i. 16 * a + n div 16 ^ (Suc k - 1 - i) mod 16) a [0..<k] =
      foldl (\<lambda>a i. 16 * a + n div 16 div 16 ^ (k - 1 - i) mod 16) a [0..<k]"
  proof (rule foldl_cong)
    fix b i
    assume "i \<in> set [0..<k]"
    then have "Suc k - 1 - i = Suc (k - 1 - i)" by simp
    then show "16 * b + n div 16 ^ (Suc k - 1 - i) mod 16 = 16 * b + n div 16 div 16 ^ (k - 1 - i) mod 16"
      by (simp only: power_Suc div_mult2_eq)
  qed simp_all
  have "n div 16 < 16 ^ k" using Suc.prems by (simp add: less_mult_imp_div_less mult.commute)
  from Suc.IH [OF this, of a]
  have "foldl (\<lambda>a i. 16 * a + n div 16 ^ (Suc k - 1 - i) mod 16) a [0..<Suc k] = 16 * (a * 16 ^ k + n div 16) + n mod 16"
    using eq by simp
  then show ?case by (simp add: algebra_simps)
qed simp

lemma hex16_length [simp]: "length (hex16 w) = 16"
  by (simp add: hex16_def)

lemma hex16_chars: "c \<in> set (hex16 w) \<Longrightarrow> of_char c \<in> {48..<58} \<union> {97..<103::nat}"
  unfolding hex16_def by (auto simp del: Un_iff intro!: hex_digit_chars)

lemma hex16_value: "unhex_digit (cget s 0) = None \<Longrightarrow> hex_value 0 (hex16 w @ s) = unat w"
proof -
  assume "unhex_digit (cget s 0) = None"
  moreover have "unat w < 16 ^ 16" using unat_bound [of w] by simp
  ultimately show ?thesis
    using hex_fold [of "unat w" 16 0] by (simp add: hex16_def hex_value_digits hex_value_stop del: upt.simps)
qed

lemma strtoull16_hex16: "unhex_digit (cget s 0) = None \<Longrightarrow> strtoull16 (hex16 w @ s) = w"
proof -
  assume s: "unhex_digit (cget s 0) = None"
  have first: "\<exists>c t. hex16 w = c # t \<and> \<not> is_blank c \<and> c \<noteq> CHR ''-'' \<and> c \<noteq> CHR ''+''"
    using hex_digit_chars(2,3) [of "unat w div 16 ^ 15 mod 16"] by (simp add: hex16_def upt_rec)
  then obtain c t where c: "hex16 w = c # t" "\<not> is_blank c" "c \<noteq> CHR ''-''" "c \<noteq> CHR ''+''" by blast
  have "cget (hex16 w @ s) 1 \<notin> {CHR ''x'', CHR ''X''}"
    using hex_digit_chars(3) [of "unat w div 16 ^ 14 mod 16"] by (simp add: hex16_def upt_rec)
  then have skip: "skip_0x (hex16 w @ s) = hex16 w @ s" by (simp add: skip_0x_def)
  have "dropWhile is_blank (hex16 w @ s) = hex16 w @ s" "cget (hex16 w @ s) 0 = c" using c by simp_all
  then have "strtoull16 (hex16 w @ s) = (if unat w \<ge> 2 ^ 64 then -1 else of_nat (unat w))"
    using c(3,4) by (simp add: strtoull16_def Let_def skip hex16_value [OF s])
  then show ?thesis using unat_bound [of w] by simp
qed

end
