(* ===== verification/Agent_Registry.thy ===== *)
theory Agent_Registry
  imports Keyed_List Json_Build Printed_Numbers
begin

section \<open>The daemon's process registry (\<open>src/tools/retraced/registry.c\<close>)\<close>

text \<open>
  The table of the agents a daemon knows.  The array and its count are the list of the
  entries in use; a pointer to an entry is its index.  \<open>snprintf\<close> into a field keeps what
  fits beside the terminating zero (\<open>snprintf_s\<close>).  A \<open>long\<close> is an \<^typ>\<open>int\<close>.
\<close>

definition RETRACED_REGISTRY_MAX :: nat where "RETRACED_REGISTRY_MAX = 1024"
definition RETRACED_AGENT_ID_MAX :: nat where "RETRACED_AGENT_ID_MAX = 96"
definition RETRACED_SESSION_MAX :: nat where "RETRACED_SESSION_MAX = 65"
definition RETRACED_CMDLINE_MAX :: nat where "RETRACED_CMDLINE_MAX = 512"

datatype agent_state = AGENT_LIVE | AGENT_STALE | AGENT_GONE

record agent_entry =
  ag_id :: cstr
  ag_session :: cstr
  ag_parent_id :: cstr
  ag_cmdline :: cstr
  ag_pid :: int
  ag_ppid :: int
  ag_parent_hole :: int
  ag_spectator :: int
  ag_kernel_obs :: "64 word"
  ag_kernel_obs_last :: "64 word"
  ag_policy_epoch :: "64 word"
  ag_last_seq :: "64 word"
  ag_last_hb_ms :: int
  ag_state :: agent_state

record retraced_registry =
  rg_agents :: "agent_entry list"
  rg_id_counter :: "64 word"

definition snprintf_s :: "nat \<Rightarrow> cstr \<Rightarrow> cstr" where "snprintf_s cap s = take (cap - 1) s"

definition retraced_registry_init :: retraced_registry where
  "retraced_registry_init = \<lparr>rg_agents = [], rg_id_counter = 0\<rparr>"

text \<open>
  A session token: the sixteen bytes read from the random device, or none of them, as
  hexadecimal digits; a zero first byte is replaced by the low byte of \<open>time ^ getpid\<close>.
\<close>

definition retraced_registry_mint_session :: "8 word list option \<Rightarrow> 8 word \<Rightarrow> cstr" where
  "retraced_registry_mint_session urandom mix =
     (let raw = (case urandom of None \<Rightarrow> replicate 16 0 | Some r \<Rightarrow> r);
          raw1 = (if raw ! 0 = 0 then raw[0 := mix] else raw) in
      concat (map (\<lambda>b. [hex_digit (unat b div 16), hex_digit (unat b mod 16)]) raw1))"

fun find_loop :: "agent_entry list \<Rightarrow> cstr \<Rightarrow> nat option" where
  "find_loop [] agent_id = None"
| "find_loop (e # es) agent_id = (if ag_id e = agent_id then Some 0 else map_option Suc (find_loop es agent_id))"

definition retraced_registry_find :: "retraced_registry \<Rightarrow> cstr option \<Rightarrow> nat option" where
  "retraced_registry_find r agent_id = (case agent_id of None \<Rightarrow> None | Some s \<Rightarrow> find_loop (rg_agents r) s)"

definition set_agent :: "retraced_registry \<Rightarrow> nat \<Rightarrow> (agent_entry \<Rightarrow> agent_entry) \<Rightarrow> retraced_registry" where
  "set_agent r i f = r\<lparr>rg_agents := (rg_agents r)[i := f (rg_agents r ! i)]\<rparr>"

fun parent_loop :: "agent_entry list \<Rightarrow> nat \<Rightarrow> nat \<Rightarrow> int \<Rightarrow> nat option" where
  "parent_loop [] k i ppid = None"
| "parent_loop (c # cs) k i ppid =
     (if k \<noteq> i \<and> ag_pid c = ppid \<and> ag_state c \<noteq> AGENT_GONE then Some k else parent_loop cs (Suc k) i ppid)"

definition retraced_registry_link_parent :: "retraced_registry \<Rightarrow> nat \<Rightarrow> nat option \<times> retraced_registry" where
  "retraced_registry_link_parent r i =
     (let e = rg_agents r ! i in
      if ag_parent_id e \<noteq> [] \<or> ag_parent_hole e \<noteq> 0 then (retraced_registry_find r (Some (ag_parent_id e)), r)
      else
        (case parent_loop (rg_agents r) 0 i (ag_ppid e) of
           Some k \<Rightarrow> (Some k, set_agent r i (\<lambda>e. e\<lparr>ag_parent_id := snprintf_s RETRACED_AGENT_ID_MAX (ag_id (rg_agents r ! k))\<rparr>))
         | None \<Rightarrow> (None, set_agent r i (\<lambda>e. e\<lparr>ag_parent_hole := if ag_ppid e > 1 then 1 else 0\<rparr>))))"

definition minted_id :: "int \<Rightarrow> 64 word \<Rightarrow> cstr" where
  "minted_id pid n = snprintf_s RETRACED_AGENT_ID_MAX (''boot.'' @ show_int pid @ ''.'' @ dec (unat n))"

definition new_agent :: "cstr \<Rightarrow> int \<Rightarrow> int \<Rightarrow> cstr option \<Rightarrow> cstr option \<Rightarrow> agent_entry" where
  "new_agent agent_id pid ppid session cmdline =
     \<lparr>ag_id = snprintf_s RETRACED_AGENT_ID_MAX agent_id,
      ag_session = snprintf_s RETRACED_SESSION_MAX (case session of None \<Rightarrow> [] | Some s \<Rightarrow> s),
      ag_parent_id = [],
      ag_cmdline = snprintf_s RETRACED_CMDLINE_MAX (case cmdline of None \<Rightarrow> [] | Some s \<Rightarrow> s),
      ag_pid = pid, ag_ppid = ppid, ag_parent_hole = 0, ag_spectator = 0,
      ag_kernel_obs = 0, ag_kernel_obs_last = 0, ag_policy_epoch = 0, ag_last_seq = 0, ag_last_hb_ms = 0,
      ag_state = AGENT_LIVE\<rparr>"

definition retraced_registry_hello ::
  "retraced_registry \<Rightarrow> cstr option \<Rightarrow> int \<Rightarrow> int \<Rightarrow> cstr option \<Rightarrow> cstr option \<Rightarrow> nat option \<times> retraced_registry" where
  "retraced_registry_hello r agent_id_in pid ppid session cmdline =
     (let (agent_id, r1) =
        (if agent_id_in = None \<or> agent_id_in = Some [] then
           (let n = rg_id_counter r + 1 in (minted_id pid n, r\<lparr>rg_id_counter := n\<rparr>))
         else (the agent_id_in, r)) in
      (case retraced_registry_find r1 (Some agent_id) of
         Some i \<Rightarrow> (Some i, set_agent r1 i (\<lambda>e. e\<lparr>ag_state := AGENT_LIVE\<rparr>))
       | None \<Rightarrow>
           if length (rg_agents r1) \<ge> RETRACED_REGISTRY_MAX then (None, r1)
           else (Some (length (rg_agents r1)),
                 r1\<lparr>rg_agents := rg_agents r1 @ [new_agent agent_id pid ppid session cmdline]\<rparr>)))"

definition retraced_registry_bye :: "retraced_registry \<Rightarrow> cstr option \<Rightarrow> retraced_registry" where
  "retraced_registry_bye r agent_id = (case retraced_registry_find r agent_id of
     None \<Rightarrow> r | Some i \<Rightarrow> set_agent r i (\<lambda>e. e\<lparr>ag_state := AGENT_GONE\<rparr>))"

definition retraced_registry_heartbeat :: "retraced_registry \<Rightarrow> cstr option \<Rightarrow> 64 word \<Rightarrow> int \<Rightarrow> int \<times> retraced_registry" where
  "retraced_registry_heartbeat r agent_id seq now_ms = (case retraced_registry_find r agent_id of
     None \<Rightarrow> (-1, r)
   | Some i \<Rightarrow> (0, set_agent r i (\<lambda>e. e\<lparr>ag_last_hb_ms := now_ms, ag_last_seq := seq, ag_state := AGENT_LIVE\<rparr>)))"

definition overdue :: "int \<Rightarrow> int \<Rightarrow> agent_entry \<Rightarrow> bool" where
  "overdue now_ms timeout_ms e \<longleftrightarrow>
     ag_state e = AGENT_LIVE \<and> ag_last_hb_ms e > 0 \<and> now_ms - ag_last_hb_ms e > timeout_ms"

fun sweep_loop :: "agent_entry list \<Rightarrow> int \<Rightarrow> int \<Rightarrow> nat \<times> agent_entry list" where
  "sweep_loop [] now_ms timeout_ms = (0, [])"
| "sweep_loop (e # es) now_ms timeout_ms =
     (let (stale, es') = sweep_loop es now_ms timeout_ms in
      if overdue now_ms timeout_ms e then (stale + 1, e\<lparr>ag_state := AGENT_STALE\<rparr> # es') else (stale, e # es'))"

definition retraced_registry_sweep :: "retraced_registry \<Rightarrow> int \<Rightarrow> int \<Rightarrow> nat \<times> retraced_registry" where
  "retraced_registry_sweep r now_ms timeout_ms =
     (let (stale, es) = sweep_loop (rg_agents r) now_ms timeout_ms in (stale, r\<lparr>rg_agents := es\<rparr>))"

definition agent_to_json :: "agent_entry \<Rightarrow> json_object" where
  "agent_to_json e =
     (let num = (\<lambda>name (x::rat) ob. snd (json_object_set_number ob name (Some x)));
          str = (\<lambda>name s ob. snd (json_object_set_string ob name s));
          o1 = str ''id'' (Some (ag_id e)) [];
          o2 = str ''session'' (Some (ag_session e)) o1;
          o3 = str ''parent'' (if ag_parent_id e \<noteq> [] then Some (ag_parent_id e) else None) o2;
          o4 = num ''parent_hole'' (of_int (ag_parent_hole e)) o3;
          o5 = num ''spectator'' (of_int (ag_spectator e)) o4;
          o6 = num ''kernel_obs'' (of_nat (unat (ag_kernel_obs e))) o5;
          o7 = str ''cmdline'' (Some (ag_cmdline e)) o6;
          o8 = num ''pid'' (of_int (ag_pid e)) o7;
          o9 = num ''ppid'' (of_int (ag_ppid e)) o8;
          o10 = num ''policy_epoch'' (of_nat (unat (ag_policy_epoch e))) o9;
          o11 = num ''last_seq'' (of_nat (unat (ag_last_seq e))) o10;
          o12 = num ''last_hb_ms'' (of_int (ag_last_hb_ms e)) o11 in
      str ''state'' (Some (case ag_state e of AGENT_LIVE \<Rightarrow> ''live'' | AGENT_STALE \<Rightarrow> ''stale'' | AGENT_GONE \<Rightarrow> ''gone'')) o12)"

definition retraced_registry_to_json :: "retraced_registry \<Rightarrow> json" where
  "retraced_registry_to_json r =
     (let root1 = snd (json_object_set_number [] ''count'' (Some (of_nat (length (rg_agents r)))));
          root2 = snd (json_object_set_value root1 ''agents'' (Some (JSONArray (map (JSONObject \<circ> agent_to_json) (rg_agents r))))) in
      JSONObject root2)"

subsection \<open>The registry as a map\<close>

interpretation agent_search: keyed_search ag_id find_loop
  by unfold_locales simp_all

abbreviation agents :: "retraced_registry \<Rightarrow> cstr \<Rightarrow> agent_entry option" where
  "agents r \<equiv> keyed ag_id (rg_agents r)"

definition registry_ok :: "retraced_registry \<Rightarrow> bool" where
  "registry_ok r \<longleftrightarrow> length (rg_agents r) \<le> RETRACED_REGISTRY_MAX \<and> distinct (map ag_id (rg_agents r)) \<and>
     list_all (\<lambda>e. length (ag_id e) < RETRACED_AGENT_ID_MAX) (rg_agents r)"

lemma snprintf_s_fits [simp]: "length s < cap \<Longrightarrow> snprintf_s cap s = s"
  by (simp add: snprintf_s_def)

lemma snprintf_s_length: "0 < cap \<Longrightarrow> length (snprintf_s cap s) < cap"
  by (auto simp: snprintf_s_def min_def)

lemma find_index: "retraced_registry_find r (Some agent_id) = find_loop (rg_agents r) agent_id"
  by (simp add: retraced_registry_find_def)

lemma find_agents: "registry_ok r \<Longrightarrow> agents r agent_id = map_option (nth (rg_agents r)) (retraced_registry_find r (Some agent_id))"
  by (simp add: registry_ok_def find_index agent_search.find_keyed)

lemma found: "retraced_registry_find r (Some agent_id) = Some i \<Longrightarrow> i < length (rg_agents r) \<and> ag_id (rg_agents r ! i) = agent_id"
  by (simp add: find_index agent_search.find_first)

text \<open>A field other than the identity is changed in place.\<close>

lemma set_agent_ok:
  assumes "registry_ok r" "i < length (rg_agents r)" "ag_id (f (rg_agents r ! i)) = ag_id (rg_agents r ! i)"
  shows "registry_ok (set_agent r i f)"
    "agents (set_agent r i f) = (agents r)(ag_id (rg_agents r ! i) \<mapsto> f (rg_agents r ! i))"
proof -
  have ids: "map ag_id (rg_agents (set_agent r i f)) = map ag_id (rg_agents r)"
    using assms keys_update [of i "rg_agents r" ag_id] by (simp add: set_agent_def)
  have "list_all (\<lambda>e. length (ag_id e) < RETRACED_AGENT_ID_MAX) (rg_agents (set_agent r i f)) \<longleftrightarrow>
      list_all (\<lambda>s. length s < RETRACED_AGENT_ID_MAX) (map ag_id (rg_agents (set_agent r i f)))"
    by (simp add: list.pred_map comp_def)
  then show "registry_ok (set_agent r i f)"
    using assms(1) unfolding registry_ok_def ids by (simp add: set_agent_def list.pred_map comp_def)
  show "agents (set_agent r i f) = (agents r)(ag_id (rg_agents r ! i) \<mapsto> f (rg_agents r ! i))"
    using assms keyed_update [of ag_id "rg_agents r" i "f (rg_agents r ! i)"] by (simp add: registry_ok_def set_agent_def)
qed

lemma update_found:
  assumes "registry_ok r" "\<And>e. ag_id (f e) = ag_id e"
  shows "case retraced_registry_find r (Some agent_id) of
      None \<Rightarrow> agents r agent_id = None
    | Some i \<Rightarrow> \<exists>e. agents r agent_id = Some e \<and> rg_agents r ! i = e \<and> registry_ok (set_agent r i f) \<and>
        agents (set_agent r i f) = (agents r)(agent_id \<mapsto> f e)"
  using assms find_agents [OF assms(1), of agent_id] found [of r agent_id] set_agent_ok [OF assms(1), of _ f]
  by (auto split: option.split)

lemma sweep_loop_map:
  "sweep_loop es now_ms timeout_ms =
     (length (filter (overdue now_ms timeout_ms) es),
      map (\<lambda>e. if overdue now_ms timeout_ms e then e\<lparr>ag_state := AGENT_STALE\<rparr> else e) es)"
  by (induction es) (simp_all add: Let_def)

lemma ids_ok:
  "registry_ok r \<longleftrightarrow> length (map ag_id (rg_agents r)) \<le> RETRACED_REGISTRY_MAX \<and> distinct (map ag_id (rg_agents r)) \<and>
     list_all (\<lambda>s. length s < RETRACED_AGENT_ID_MAX) (map ag_id (rg_agents r))"
  by (simp add: registry_ok_def list.pred_map comp_def)

subsection \<open>Identities\<close>


definition long_range :: "int \<Rightarrow> bool" where "long_range v \<longleftrightarrow> - (2 ^ 63) \<le> v \<and> v < 2 ^ 63"

lemma minted_id_full: "long_range pid \<Longrightarrow> minted_id pid n = ''boot.'' @ show_int pid @ ''.'' @ dec (unat n)"
proof -
  assume "long_range pid"
  then have "nat \<bar>pid\<bar> < 10 ^ Suc 19" "unat n < 10 ^ Suc 19" using unat_bound [of n] by (auto simp: long_range_def)
  from this [THEN dec_length] have "length (''boot.'' @ show_int pid @ ''.'' @ dec (unat n)) < RETRACED_AGENT_ID_MAX"
    by (auto simp: show_int_def RETRACED_AGENT_ID_MAX_def abs_if split: if_splits)
  then show ?thesis unfolding minted_id_def by (rule snprintf_s_fits)
qed

lemma minted_counter:
  assumes "long_range p" "long_range q" "minted_id p m = minted_id q n"
  shows "m = n"
proof -
  have dot: "CHR ''.'' \<notin> set (show_int v)" for v using show_int_chars [of "CHR ''.''" v] by auto
  have "show_int p @ CHR ''.'' # dec (unat m) = show_int q @ CHR ''.'' # dec (unat n)"
    using assms by (simp add: minted_id_full)
  then have "dropWhile (\<lambda>c. c \<noteq> CHR ''.'') (show_int p @ CHR ''.'' # dec (unat m)) =
      dropWhile (\<lambda>c. c \<noteq> CHR ''.'') (show_int q @ CHR ''.'' # dec (unat n))" by simp
  moreover have "dropWhile (\<lambda>c. c \<noteq> CHR ''.'') (show_int v @ CHR ''.'' # t) = CHR ''.'' # t" for v t
    using dot [of v] by (subst dropWhile_append2) auto
  ultimately have "unat m = unat n" by simp
  then show ?thesis by (rule unsigned_word_eqI)
qed

text \<open>Every identity in the registry was minted by it, from a counter not above the present one.\<close>

definition minted_here :: "retraced_registry \<Rightarrow> bool" where
  "minted_here r \<longleftrightarrow> (\<forall>e\<in>set (rg_agents r). \<exists>p n. long_range p \<and> 0 < n \<and> n \<le> rg_id_counter r \<and> ag_id e = minted_id p n)"

lemma mint_fresh:
  assumes "minted_here r" "long_range pid" "unat (rg_id_counter r) + 1 < 2 ^ 64"
  shows "minted_id pid (rg_id_counter r + 1) \<notin> ag_id ` set (rg_agents r)"
proof
  assume "minted_id pid (rg_id_counter r + 1) \<in> ag_id ` set (rg_agents r)"
  then obtain p n where "long_range p" "n \<le> rg_id_counter r" "minted_id pid (rg_id_counter r + 1) = minted_id p n"
    using assms(1) by (auto simp: minted_here_def)
  moreover have "rg_id_counter r < rg_id_counter r + 1"
    using assms(3) by (simp add: word_less_nat_alt unat_word_ariths)
  ultimately show False using minted_counter [OF assms(2)] by (metis leD)
qed

text \<open>A HELLO without an identity adds an entry of its own, or is refused by a full registry.\<close>

lemma hello_mints:
  assumes "registry_ok r" "minted_here r" "long_range pid" "unat (rg_id_counter r) + 1 < 2 ^ 64"
  shows "retraced_registry_hello r None pid ppid session cmdline =
    (let n = rg_id_counter r + 1; r1 = r\<lparr>rg_id_counter := n\<rparr> in
     if length (rg_agents r) = RETRACED_REGISTRY_MAX then (None, r1)
     else (Some (length (rg_agents r)), r1\<lparr>rg_agents := rg_agents r @ [new_agent (minted_id pid n) pid ppid session cmdline]\<rparr>))"
proof -
  have "find_loop (rg_agents r) (minted_id pid (rg_id_counter r + 1)) = None"
    using mint_fresh [OF assms(2-4)] by (simp add: agent_search.find_None)
  then show ?thesis
    using assms(1) by (auto simp: retraced_registry_hello_def retraced_registry_find_def registry_ok_def Let_def)
qed

text \<open>If the identity it mints is known, it is that agent's entry it returns.\<close>

lemma mint_known:
  assumes "retraced_registry_find r (Some (minted_id pid (rg_id_counter r + 1))) = Some i"
  shows "retraced_registry_hello r None pid ppid session cmdline =
    (Some i, set_agent (r\<lparr>rg_id_counter := rg_id_counter r + 1\<rparr>) i (\<lambda>e. e\<lparr>ag_state := AGENT_LIVE\<rparr>))"
  using assms by (simp add: retraced_registry_hello_def retraced_registry_find_def Let_def)

lemma hello_known:
  assumes "registry_ok r" "agent_id \<noteq> []" "agents r agent_id = Some e"
  shows "\<exists>i r'. retraced_registry_hello r (Some agent_id) pid ppid session cmdline = (Some i, r') \<and> registry_ok r' \<and>
    agents r' = (agents r)(agent_id \<mapsto> e\<lparr>ag_state := AGENT_LIVE\<rparr>)"
proof -
  from find_agents [OF assms(1), of agent_id] assms(3)
  obtain i where i: "retraced_registry_find r (Some agent_id) = Some i" "rg_agents r ! i = e"
    by (cases "retraced_registry_find r (Some agent_id)") auto
  then show ?thesis
    using assms update_found [OF assms(1), of "\<lambda>e. e\<lparr>ag_state := AGENT_LIVE\<rparr>" agent_id]
    by (simp add: retraced_registry_hello_def)
qed

lemma hello_new:
  assumes "registry_ok r" "agent_id \<noteq> []" "length agent_id < RETRACED_AGENT_ID_MAX" "agents r agent_id = None"
    "length (rg_agents r) < RETRACED_REGISTRY_MAX"
  shows "\<exists>r'. retraced_registry_hello r (Some agent_id) pid ppid session cmdline = (Some (length (rg_agents r)), r') \<and> registry_ok r' \<and>
    agents r' = (agents r)(agent_id \<mapsto> new_agent agent_id pid ppid session cmdline)"
proof -
  let ?e = "new_agent agent_id pid ppid session cmdline"
  have id: "ag_id ?e = agent_id" using assms(3) by (simp add: new_agent_def)
  have new: "agent_id \<notin> ag_id ` set (rg_agents r)" using assms(4) by (simp add: keyed_None)
  then have "registry_ok (r\<lparr>rg_agents := rg_agents r @ [?e]\<rparr>)"
    using assms(1,3,5) id by (auto simp: registry_ok_def)
  moreover have "agents (r\<lparr>rg_agents := rg_agents r @ [?e]\<rparr>) = (agents r)(agent_id \<mapsto> ?e)"
    using keyed_append [of ag_id ?e "rg_agents r"] new id by simp
  moreover have "retraced_registry_find r (Some agent_id) = None" using new by (simp add: find_index agent_search.find_None)
  ultimately show ?thesis
    using assms(2,5) by (auto simp: retraced_registry_hello_def)
qed

lemma minted_appended:
  assumes "minted_here r" "long_range pid" "unat (rg_id_counter r) + 1 < 2 ^ 64" "ag_id e = minted_id pid (rg_id_counter r + 1)"
  shows "minted_here (r\<lparr>rg_id_counter := rg_id_counter r + 1, rg_agents := rg_agents r @ [e]\<rparr>)"
    "minted_here (r\<lparr>rg_id_counter := rg_id_counter r + 1\<rparr>)"
proof -
  have up: "unat (rg_id_counter r + 1) = unat (rg_id_counter r) + 1"
    using assms(3) by (simp add: unat_word_ariths)
  then have "n \<le> rg_id_counter r \<Longrightarrow> n \<le> rg_id_counter r + 1" "0 < rg_id_counter r + 1" for n
    by (simp_all add: word_le_nat_alt word_less_nat_alt)
  then show "minted_here (r\<lparr>rg_id_counter := rg_id_counter r + 1, rg_agents := rg_agents r @ [e]\<rparr>)"
    "minted_here (r\<lparr>rg_id_counter := rg_id_counter r + 1\<rparr>)"
    using assms(1,2,4) by (force simp: minted_here_def)+
qed

lemma hello_cases:
  assumes "registry_ok r" "agent_id \<noteq> []" "length agent_id < RETRACED_AGENT_ID_MAX"
  shows "case agents r agent_id of
      Some e \<Rightarrow> \<exists>i r'. retraced_registry_hello r (Some agent_id) pid ppid session cmdline = (Some i, r') \<and> registry_ok r' \<and>
        agents r' = (agents r)(agent_id \<mapsto> e\<lparr>ag_state := AGENT_LIVE\<rparr>)
    | None \<Rightarrow>
        if length (rg_agents r) = RETRACED_REGISTRY_MAX
        then retraced_registry_hello r (Some agent_id) pid ppid session cmdline = (None, r)
        else \<exists>i r'. retraced_registry_hello r (Some agent_id) pid ppid session cmdline = (Some i, r') \<and> registry_ok r' \<and>
          agents r' = (agents r)(agent_id \<mapsto> new_agent agent_id pid ppid session cmdline)"
proof (cases "agents r agent_id")
  case None
  then have "retraced_registry_find r (Some agent_id) = None"
    by (simp add: keyed_None find_index agent_search.find_None)
  then have "length (rg_agents r) = RETRACED_REGISTRY_MAX \<Longrightarrow>
      retraced_registry_hello r (Some agent_id) pid ppid session cmdline = (None, r)"
    using assms(2) by (simp add: retraced_registry_hello_def)
  then show ?thesis
    using None hello_new [OF assms None, of pid ppid session cmdline] assms(1) by (auto simp: registry_ok_def)
next
  case (Some e)
  then show ?thesis using hello_known [OF assms(1,2) Some] by simp
qed

lemma touch_found:
  assumes "registry_ok r" "\<And>e. ag_id (f e) = ag_id e"
  shows "agents (case retraced_registry_find r (Some agent_id) of None \<Rightarrow> r | Some i \<Rightarrow> set_agent r i f) =
      (agents r)(agent_id := map_option f (agents r agent_id))"
    "retraced_registry_find r (Some agent_id) = None \<longleftrightarrow> agents r agent_id = None"
  using update_found [OF assms, of agent_id] by (auto split: option.splits)

lemma sweep_agents:
  assumes "registry_ok r"
  shows "retraced_registry_sweep r now_ms timeout_ms = (stale, r') \<Longrightarrow>
     stale = card {a. \<exists>e. agents r a = Some e \<and> overdue now_ms timeout_ms e} \<and> registry_ok r' \<and>
     agents r' = (\<lambda>a. map_option (\<lambda>e. if overdue now_ms timeout_ms e then e\<lparr>ag_state := AGENT_STALE\<rparr> else e) (agents r a))"
proof -
  let ?f = "\<lambda>e. if overdue now_ms timeout_ms e then e\<lparr>ag_state := AGENT_STALE\<rparr> else e"
  assume "retraced_registry_sweep r now_ms timeout_ms = (stale, r')"
  then have r': "stale = length (filter (overdue now_ms timeout_ms) (rg_agents r))" "r' = r\<lparr>rg_agents := map ?f (rg_agents r)\<rparr>"
    by (simp_all add: retraced_registry_sweep_def sweep_loop_map)
  have "map ag_id (rg_agents r') = map ag_id (rg_agents r)" by (simp add: r')
  then have "registry_ok r'" using assms by (simp only: ids_ok)
  then show ?thesis
    using r' keyed_count [of ag_id "rg_agents r"] assms by (auto simp: registry_ok_def keyed_map fun_eq_iff)
qed

lemma hello_fresh:
  assumes "registry_ok r" "minted_here r" "long_range pid" "unat (rg_id_counter r) + 1 < 2 ^ 64"
    "length (rg_agents r) < RETRACED_REGISTRY_MAX"
  shows "\<exists>i r' new. retraced_registry_hello r None pid ppid session cmdline = (Some i, r') \<and> agents r new = None \<and>
        agents r' = (agents r)(new \<mapsto> new_agent new pid ppid session cmdline) \<and> registry_ok r' \<and> minted_here r'"
proof -
  let ?new = "minted_id pid (rg_id_counter r + 1)"
  let ?e = "new_agent ?new pid ppid session cmdline"
  let ?r = "r\<lparr>rg_id_counter := rg_id_counter r + 1, rg_agents := rg_agents r @ [?e]\<rparr>"
  have len: "length ?new < RETRACED_AGENT_ID_MAX"
    unfolding minted_id_def by (rule snprintf_s_length) (simp add: RETRACED_AGENT_ID_MAX_def)
  then have id: "ag_id ?e = ?new" by (simp add: new_agent_def)
  have new: "?new \<notin> ag_id ` set (rg_agents r)" by (rule mint_fresh [OF assms(2-4)])
  have "retraced_registry_hello r None pid ppid session cmdline = (Some (length (rg_agents r)), ?r)"
    using hello_mints [OF assms(1-4)] assms(5) by (simp add: Let_def)
  moreover have "agents r ?new = None" using new by (simp add: keyed_None)
  moreover have "agents ?r = (agents r)(?new \<mapsto> ?e)" using keyed_append [of ag_id ?e "rg_agents r"] new id by simp
  moreover have "registry_ok ?r" using assms(1,5) len new id by (auto simp: registry_ok_def)
  moreover have "minted_here ?r" using minted_appended(1) [OF assms(2-4) id] .
  ultimately show ?thesis by blast
qed

text \<open>
  C17. The registry is a map from identities to agents, and every operation is the update it
  should be: a HELLO under a known identity makes that agent live and changes nothing else,
  one under a new identity adds the agent while there is room and is refused by a full
  registry; BYE and heartbeats change the named agent only; a sweep makes stale exactly the
  live agents with a heartbeat that is too long ago, and counts them.  A new entry has the
  given identity and process, no parent, and is live.  The identity a client gives is not
  empty and fits its field.  A HELLO that carries no identity gets one nobody else has, if
  there is room, the 64-bit counter does not wrap around, and every identity in the registry
  was minted by it: not if some were read back from a journal, since the counter starts at 0
  again (\<open>replayed_identity_reused\<close>).
\<close>

theorem registry_operations:
  assumes "registry_ok r" "agent_id \<noteq> []" "length agent_id < RETRACED_AGENT_ID_MAX"
  shows "(case agents r agent_id of
      Some e \<Rightarrow> \<exists>i r'. retraced_registry_hello r (Some agent_id) pid ppid session cmdline = (Some i, r') \<and> registry_ok r' \<and>
        agents r' = (agents r)(agent_id \<mapsto> e\<lparr>ag_state := AGENT_LIVE\<rparr>)
    | None \<Rightarrow>
        if length (rg_agents r) = RETRACED_REGISTRY_MAX
        then retraced_registry_hello r (Some agent_id) pid ppid session cmdline = (None, r)
        else \<exists>i r'. retraced_registry_hello r (Some agent_id) pid ppid session cmdline = (Some i, r') \<and> registry_ok r' \<and>
          agents r' = (agents r)(agent_id \<mapsto> new_agent agent_id pid ppid session cmdline)) \<and>
    agents (retraced_registry_bye r (Some agent_id)) =
      (agents r)(agent_id := map_option (ag_state_update (\<lambda>_. AGENT_GONE)) (agents r agent_id)) \<and>
    (let (rc, r') = retraced_registry_heartbeat r (Some agent_id) seq now_ms in
     (rc = 0 \<longleftrightarrow> agents r agent_id \<noteq> None) \<and>
     agents r' = (agents r)(agent_id := map_option (\<lambda>e. e\<lparr>ag_last_hb_ms := now_ms, ag_last_seq := seq, ag_state := AGENT_LIVE\<rparr>)
                                         (agents r agent_id))) \<and>
    (let (stale, r') = retraced_registry_sweep r now_ms timeout_ms in
     stale = card {a. \<exists>e. agents r a = Some e \<and> ag_state e = AGENT_LIVE \<and> 0 < ag_last_hb_ms e \<and> timeout_ms < now_ms - ag_last_hb_ms e} \<and>
     registry_ok r' \<and>
     agents r' = (\<lambda>a. map_option (\<lambda>e. if ag_state e = AGENT_LIVE \<and> 0 < ag_last_hb_ms e \<and> timeout_ms < now_ms - ag_last_hb_ms e
                                        then e\<lparr>ag_state := AGENT_STALE\<rparr> else e) (agents r a))) \<and>
    (let e = new_agent agent_id pid ppid session cmdline in
     ag_id e = agent_id \<and> ag_pid e = pid \<and> ag_ppid e = ppid \<and> ag_parent_id e = [] \<and> ag_state e = AGENT_LIVE \<and>
     length (ag_session e) < RETRACED_SESSION_MAX \<and> length (ag_cmdline e) < RETRACED_CMDLINE_MAX) \<and>
    (minted_here r \<and> long_range pid \<and> unat (rg_id_counter r) + 1 < 2 ^ 64 \<and> length (rg_agents r) < RETRACED_REGISTRY_MAX \<longrightarrow>
      (\<exists>i r' new. retraced_registry_hello r None pid ppid session cmdline = (Some i, r') \<and> agents r new = None \<and>
        agents r' = (agents r)(new \<mapsto> new_agent new pid ppid session cmdline) \<and> registry_ok r' \<and> minted_here r'))"
proof (intro conjI)
  show "agents (retraced_registry_bye r (Some agent_id)) =
      (agents r)(agent_id := map_option (ag_state_update (\<lambda>_. AGENT_GONE)) (agents r agent_id))"
    unfolding retraced_registry_bye_def by (rule touch_found [OF assms(1)]) simp
  show "let (rc, r') = retraced_registry_heartbeat r (Some agent_id) seq now_ms in
     (rc = 0 \<longleftrightarrow> agents r agent_id \<noteq> None) \<and>
     agents r' = (agents r)(agent_id := map_option (\<lambda>e. e\<lparr>ag_last_hb_ms := now_ms, ag_last_seq := seq, ag_state := AGENT_LIVE\<rparr>)
                                         (agents r agent_id))"
    using touch_found [OF assms(1), of "\<lambda>e. e\<lparr>ag_last_hb_ms := now_ms, ag_last_seq := seq, ag_state := AGENT_LIVE\<rparr>" agent_id]
    by (auto simp: retraced_registry_heartbeat_def split: option.splits)
  show "let (stale, r') = retraced_registry_sweep r now_ms timeout_ms in
     stale = card {a. \<exists>e. agents r a = Some e \<and> ag_state e = AGENT_LIVE \<and> 0 < ag_last_hb_ms e \<and> timeout_ms < now_ms - ag_last_hb_ms e} \<and>
     registry_ok r' \<and>
     agents r' = (\<lambda>a. map_option (\<lambda>e. if ag_state e = AGENT_LIVE \<and> 0 < ag_last_hb_ms e \<and> timeout_ms < now_ms - ag_last_hb_ms e
                                        then e\<lparr>ag_state := AGENT_STALE\<rparr> else e) (agents r a))"
    using sweep_agents [OF assms(1)] by (auto simp: overdue_def split: prod.split)
  show "let e = new_agent agent_id pid ppid session cmdline in
     ag_id e = agent_id \<and> ag_pid e = pid \<and> ag_ppid e = ppid \<and> ag_parent_id e = [] \<and> ag_state e = AGENT_LIVE \<and>
     length (ag_session e) < RETRACED_SESSION_MAX \<and> length (ag_cmdline e) < RETRACED_CMDLINE_MAX"
    using assms(3) by (simp add: new_agent_def snprintf_s_def Let_def RETRACED_SESSION_MAX_def RETRACED_CMDLINE_MAX_def min_less_iff_disj)
qed (use hello_cases [OF assms] hello_fresh [OF assms(1)] in \<open>auto split: prod.split\<close>)

theorem registry_operations_witness:
  "\<exists>i r' new. retraced_registry_hello retraced_registry_init None 42 1 None None = (Some i, r') \<and>
     agents r' = [new \<mapsto> new_agent new 42 1 None None] \<and> registry_ok r'"
proof -
  have empty: "agents retraced_registry_init = Map.empty" by (simp add: retraced_registry_init_def keyed_def)
  have ok: "registry_ok retraced_registry_init" by (simp add: retraced_registry_init_def registry_ok_def)
  have "minted_here retraced_registry_init \<and> long_range 42 \<and> unat (rg_id_counter retraced_registry_init) + 1 < 2 ^ 64 \<and>
      length (rg_agents retraced_registry_init) < RETRACED_REGISTRY_MAX"
    by (simp add: retraced_registry_init_def minted_here_def long_range_def RETRACED_REGISTRY_MAX_def)
  from registry_operations [OF ok, of "''a''" 42 1 None None, THEN conjunct2, THEN conjunct2, THEN conjunct2, THEN conjunct2, THEN conjunct2,
      THEN mp, OF _ _ this]
  show ?thesis unfolding empty by (force simp: RETRACED_AGENT_ID_MAX_def)
qed

end
