(* ===== verification/Journal.thy ===== *)
theory Journal
  imports Agent_Registry Json_Print
begin

unbundle bit_operations_syntax

section \<open>The daemon's journal (\<open>src/tools/retraced/journal.c\<close>)\<close>

text \<open>
  The append-only log of the daemon: one JSON object per line, each carrying the hash of
  the line before it.  The file system is a map from paths to contents.  Output is
  buffered: \<open>jw_unflushed\<close> is how many bytes at the end of the live file have been written
  since the last flush, and may be lost in a crash.  Counts of bytes and lines are numbers,
  as \<open>2 ^ 64\<close> of them are out of reach; the hashes are 64-bit words.  What the operating
  system decides is in \<open>jio\<close>: whether a file can be opened for appending, written, removed.
  A \<open>FILE *\<close> that is not \<open>NULL\<close> is \<open>j_open\<close>.
\<close>

record jio =
  io_open_ok :: "cstr \<Rightarrow> bool"
  io_puts_ok :: bool
  io_remove_ok :: "cstr \<Rightarrow> bool"

type_synonym files = "cstr \<Rightarrow> string option"

record retraced_journal =
  j_path :: cstr
  j_prev_hash :: "64 word"
  j_lines :: nat
  j_replay_ok :: nat
  j_replay_events :: nat
  j_chain_broken_at :: int
  j_open :: bool
  j_clean_close :: bool
  j_base :: cstr
  j_rotate_bytes :: nat
  j_rotate_seconds :: int
  j_budget_bytes :: nat
  j_seg_bytes :: nat
  j_last_rotate_ts :: int
  j_segment_seq :: nat
  j_rotating :: bool

record jworld =
  jw_files :: files
  jw_unflushed :: nat

definition dq :: char where "dq = CHR 0x22"

subsection \<open>Hashing and durability\<close>

definition fnv1a :: "cstr \<Rightarrow> 64 word \<Rightarrow> 64 word" where
  "fnv1a s h = foldl (\<lambda>h c. (h XOR of_char c) * 0x01000193) h s"

definition LINK_MIX :: "64 word" where "LINK_MIX = 0x9e3779b97f4a7c15"

definition retraced_journal_line_hash :: "cstr \<Rightarrow> 64 word \<Rightarrow> 64 word" where
  "retraced_journal_line_hash line prev = fnv1a line (prev XOR LINK_MIX)"

definition durable_classes :: "cstr list" where
  "durable_classes =
     map (\<lambda>c. [dq] @ ''name'' @ [dq] @ '':'' @ [dq] @ ''retrace.'' @ c @ ''.'')
       [''auth'', ''policy'', ''session'', ''journal'', ''ctl'', ''trace'', ''drift''] @
     [[dq] @ ''applied'' @ [dq] @ '':'']"

definition payload_is_durable :: "cstr option \<Rightarrow> bool" where
  "payload_is_durable payload = (case payload of
     None \<Rightarrow> False | Some p \<Rightarrow> list_ex (\<lambda>c. strstr_at p c \<noteq> None) durable_classes)"

subsection \<open>Opening\<close>

definition retraced_journal_open :: "cstr \<Rightarrow> retraced_journal" where
  "retraced_journal_open path =
     \<lparr>j_path = snprintf_s 512 path, j_prev_hash = 0, j_lines = 0, j_replay_ok = 0, j_replay_events = 0,
      j_chain_broken_at = -1, j_open = False, j_clean_close = False, j_base = snprintf_s 512 path,
      j_rotate_bytes = 0, j_rotate_seconds = 0, j_budget_bytes = 0, j_seg_bytes = 0, j_last_rotate_ts = 0,
      j_segment_seq = 0, j_rotating = False\<rparr>"

text \<open>The text \<open>%s.%04d\<close> of a segment's path.\<close>

definition retraced_journal_segment_path :: "cstr \<Rightarrow> nat \<Rightarrow> nat \<Rightarrow> cstr" where
  "retraced_journal_segment_path base seq cap =
     snprintf_s cap (base @ ''.'' @ replicate (4 - length (dec seq)) (CHR ''0'') @ dec seq)"

definition retraced_journal_segment_exists :: "files \<Rightarrow> cstr \<Rightarrow> nat option" where
  "retraced_journal_segment_exists fs path = map_option length (fs path)"

fun live_loop :: "files \<Rightarrow> cstr \<Rightarrow> nat \<Rightarrow> nat \<Rightarrow> nat" where
  "live_loop fs base seq 0 = seq"
| "live_loop fs base seq (Suc n) =
     (if retraced_journal_segment_exists fs (retraced_journal_segment_path base (seq + 1) 600) = None then seq
      else live_loop fs base (seq + 1) n)"

definition retraced_journal_set_rotation :: "files \<Rightarrow> int \<Rightarrow> retraced_journal \<Rightarrow> nat \<Rightarrow> int \<Rightarrow> nat \<Rightarrow> retraced_journal" where
  "retraced_journal_set_rotation fs now j rotate_bytes rotate_seconds budget_bytes =
     (let j1 = j\<lparr>j_rotate_bytes := rotate_bytes, j_rotate_seconds := rotate_seconds, j_budget_bytes := budget_bytes,
                 j_seg_bytes := 0, j_last_rotate_ts := now\<rparr> in
      if rotate_bytes \<noteq> 0 \<or> rotate_seconds \<noteq> 0 then
        (let seq = live_loop fs (j_base j) 0 9999 in
         j1\<lparr>j_segment_seq := seq, j_path := retraced_journal_segment_path (j_base j) seq 512\<rparr>)
      else j1)"

fun first_segment :: "files \<Rightarrow> cstr \<Rightarrow> nat list \<Rightarrow> int" where
  "first_segment fs base [] = -1"
| "first_segment fs base (seq # seqs) =
     (if retraced_journal_segment_exists fs (retraced_journal_segment_path base seq 600) \<noteq> None then int seq
      else first_segment fs base seqs)"

definition retraced_journal_segment_lo :: "files \<Rightarrow> cstr \<Rightarrow> nat \<Rightarrow> int" where
  "retraced_journal_segment_lo fs base hi = first_segment fs base [0..<hi + 1]"

definition retraced_journal_segment_range :: "files \<Rightarrow> cstr \<Rightarrow> (int \<times> int) option" where
  "retraced_journal_segment_range fs base =
     (let hi = first_segment fs base (rev [0..<10000]) in
      if hi < 0 then None
      else let lo = retraced_journal_segment_lo fs base (nat hi) in if lo < 0 then None else Some (lo, hi))"

subsection \<open>Appending\<close>

definition journal_line :: "int \<Rightarrow> cstr \<Rightarrow> nat \<Rightarrow> 64 word \<Rightarrow> cstr option \<Rightarrow> cstr" where
  "journal_line ts agent_id seq prev payload =
     [CHR 0x7B] @ [dq] @ ''ts'' @ [dq] @ '':'' @ show_int ts @ '','' @
     [dq] @ ''agent'' @ [dq] @ '':'' @ [dq] @ agent_id @ [dq] @ '','' @
     [dq] @ ''seq'' @ [dq] @ '':'' @ dec seq @ '','' @
     [dq] @ ''prev'' @ [dq] @ '':'' @ [dq] @ hex16 prev @ [dq] @ '','' @
     [dq] @ ''ev'' @ [dq] @ '':'' @ (case payload of Some p \<Rightarrow> p | None \<Rightarrow> [CHR 0x7B, CHR 0x7D]) @ [CHR 0x7D, CHR 0x0A]"

definition journal_writer :: "jio \<Rightarrow> retraced_journal \<times> jworld \<Rightarrow> bool \<times> retraced_journal \<times> jworld" where
  "journal_writer io jw =
     (let (j, w) = jw in
      if j_open j then (True, j, w)
      else if io_open_ok io (j_path j) then
        (True, j\<lparr>j_open := True\<rparr>,
         w\<lparr>jw_files := (jw_files w)(j_path j \<mapsto> (case jw_files w (j_path j) of None \<Rightarrow> [] | Some c \<Rightarrow> c)), jw_unflushed := 0\<rparr>)
      else (False, j, w))"

definition retraced_journal_flush :: "retraced_journal \<times> jworld \<Rightarrow> retraced_journal \<times> jworld" where
  "retraced_journal_flush jw = (let (j, w) = jw in if j_open j then (j, w\<lparr>jw_unflushed := 0\<rparr>) else jw)"

text \<open>\<open>journal_append\<close> is \<open>retraced_journal_event\<close> up to the test for rotation.\<close>

definition journal_append ::
  "jio \<Rightarrow> retraced_journal \<times> jworld \<Rightarrow> int \<Rightarrow> cstr \<Rightarrow> nat \<Rightarrow> cstr option \<Rightarrow> int \<times> retraced_journal \<times> jworld" where
  "journal_append io jw ts agent_id seq payload =
     (let line = journal_line ts agent_id seq (j_prev_hash (fst jw)) payload;
          n = length line in
      if n \<ge> 2048 then (-1, jw)
      else
        let link = fnv1a line (j_prev_hash (fst jw) XOR LINK_MIX) in
        (case journal_writer io jw of
           (False, jw1) \<Rightarrow> (-1, jw1)
         | (True, j1, w1) \<Rightarrow>
             if \<not> io_puts_ok io then (-1, j1, w1)
             else
               let w2 = w1\<lparr>jw_files := (jw_files w1)(j_path j1 \<mapsto> the (jw_files w1 (j_path j1)) @ line),
                           jw_unflushed := (if payload_is_durable payload then 0 else jw_unflushed w1 + n)\<rparr> in
               (0, j1\<lparr>j_prev_hash := link, j_lines := j_lines j1 + 1, j_seg_bytes := j_seg_bytes j1 + n\<rparr>, w2)))"

definition jstring :: "cstr \<Rightarrow> cstr \<Rightarrow> cstr" where
  "jstring name v = [dq] @ name @ [dq] @ '':'' @ [dq] @ v @ [dq]"

fun segment_bytes :: "files \<Rightarrow> cstr \<Rightarrow> nat list \<Rightarrow> nat" where
  "segment_bytes fs base [] = 0"
| "segment_bytes fs base (seq # seqs) =
     (case retraced_journal_segment_exists fs (retraced_journal_segment_path base seq 600) of None \<Rightarrow> 0 | Some sz \<Rightarrow> sz) +
     segment_bytes fs base seqs"

text \<open>
  The loop of \<open>journal_retain\<close>.  Each turn that does not return removes one segment below
  the live one, so as many turns as there are such segments are enough.
\<close>

fun retain_loop :: "jio \<Rightarrow> nat \<Rightarrow> retraced_journal \<times> jworld \<Rightarrow> int \<Rightarrow> retraced_journal \<times> jworld" where
  "retain_loop io 0 jw ts = jw"
| "retain_loop io (Suc fuel) jw ts =
     (let (j, w) = jw; lo = retraced_journal_segment_lo (jw_files w) (j_base j) (j_segment_seq j) in
      if lo < 0 \<or> lo \<ge> int (j_segment_seq j) then jw
      else if segment_bytes (jw_files w) (j_base j) [nat lo..<j_segment_seq j] \<le> j_budget_bytes j then jw
      else
        let p = retraced_journal_segment_path (j_base j) (nat lo) 600 in
        (case retraced_journal_segment_exists (jw_files w) p of
           None \<Rightarrow> jw
         | Some sz \<Rightarrow>
             if \<not> io_remove_ok io p then jw
             else
               let ev = snprintf_s 256 ([CHR 0x7B] @ jstring ''name'' ''retrace.journal.segment_pruned'' @ '','' @
                          jstring ''segment'' p @ '','' @ [dq] @ ''bytes'' @ [dq] @ '':'' @ dec sz @ [CHR 0x7D]) in
               retain_loop io fuel (snd (journal_append io (j, w\<lparr>jw_files := (jw_files w)(p := None)\<rparr>) ts ''daemon'' 0 (Some ev))) ts))"

definition journal_retain :: "jio \<Rightarrow> retraced_journal \<times> jworld \<Rightarrow> int \<Rightarrow> retraced_journal \<times> jworld" where
  "journal_retain io jw ts =
     (if j_budget_bytes (fst jw) = 0 then jw else retain_loop io (j_segment_seq (fst jw) + 1) jw ts)"

definition journal_rotate :: "jio \<Rightarrow> retraced_journal \<times> jworld \<Rightarrow> int \<Rightarrow> retraced_journal \<times> jworld" where
  "journal_rotate io jw ts =
     (let (j, w) = jw;
          head = j_prev_hash j;
          old_seq = j_segment_seq j;
          closed = retraced_journal_segment_path (j_base j) old_seq 600;
          ev1 = snprintf_s 512 ([CHR 0x7B] @ jstring ''name'' ''retrace.journal.segment_closed'' @ '','' @
                  jstring ''segment'' closed @ '','' @ jstring ''head'' (hex16 head) @ '','' @
                  [dq] @ ''lines'' @ [dq] @ '':'' @ dec (j_lines j) @ [CHR 0x7D]);
          (j1, w1) = snd (journal_append io (j\<lparr>j_rotating := True\<rparr>, w) ts ''daemon'' 0 (Some ev1));
          seq = j_segment_seq j1 + 1;
          opened = retraced_journal_segment_path (j_base j1) seq 600;
          j2 = j1\<lparr>j_segment_seq := seq, j_path := retraced_journal_segment_path (j_base j1) seq 512,
                  j_open := False, j_seg_bytes := 0, j_lines := 0, j_last_rotate_ts := ts\<rparr>;
          w2 = w1\<lparr>jw_unflushed := 0\<rparr>;
          jw3 = journal_retain io (j2, w2) ts;
          ev2 = snprintf_s 512 ([CHR 0x7B] @ jstring ''name'' ''retrace.journal.segment_opened'' @ '','' @
                  jstring ''segment'' opened @ '','' @ jstring ''prev_segment'' closed @ '','' @
                  jstring ''prev_head'' (hex16 head) @ [CHR 0x7D]);
          (j4, w4) = snd (journal_append io jw3 ts ''daemon'' 0 (Some ev2)) in
      (j4\<lparr>j_rotating := False\<rparr>, w4))"

definition rotation_due :: "retraced_journal \<Rightarrow> int \<Rightarrow> bool" where
  "rotation_due j ts \<longleftrightarrow> \<not> j_rotating j \<and> (j_rotate_bytes j \<noteq> 0 \<or> j_rotate_seconds j \<noteq> 0) \<and>
     (j_rotate_bytes j \<noteq> 0 \<and> j_seg_bytes j \<ge> j_rotate_bytes j \<or>
      j_rotate_seconds j \<noteq> 0 \<and> ts - j_last_rotate_ts j \<ge> j_rotate_seconds j)"

definition retraced_journal_event ::
  "jio \<Rightarrow> retraced_journal \<times> jworld \<Rightarrow> int \<Rightarrow> cstr \<Rightarrow> nat \<Rightarrow> cstr option \<Rightarrow> int \<times> retraced_journal \<times> jworld" where
  "retraced_journal_event io jw ts agent_id seq payload =
     (case journal_append io jw ts agent_id seq payload of
        (rc, jw1) \<Rightarrow> if rc \<noteq> 0 then (rc, jw1)
                     else (0, if rotation_due (fst jw1) ts then journal_rotate io jw1 ts else jw1))"

definition CLOSED_EVENT :: cstr where
  "CLOSED_EVENT = [CHR 0x7B] @ jstring ''name'' ''retrace.journal.closed'' @ [CHR 0x7D]"

definition retraced_journal_close :: "jio \<Rightarrow> retraced_journal \<times> jworld \<Rightarrow> int \<Rightarrow> retraced_journal \<times> jworld" where
  "retraced_journal_close io jw now =
     (let (j, w) = snd (retraced_journal_event io jw now ''daemon'' 0 (Some CLOSED_EVENT)) in
      (j\<lparr>j_open := False, j_clean_close := True\<rparr>, if j_open j then w\<lparr>jw_unflushed := 0\<rparr> else w))"

end
