(* ===== verification/Journal_Replay.thy ===== *)
theory Journal_Replay
  imports Journal
begin

section \<open>Reading the journal back (\<open>src/tools/retraced/journal.c\<close>)\<close>

text \<open>
  The three readers: the replay at boot, which rebuilds the registry, the tail served to
  controllers, and the verification of one file.  All take the lines \<open>fgets\<close> returns and
  check each against the hash of the one before.  \<open>strtod\<close> is the argument of the JSON
  parser.
\<close>

fun fgets_take :: "nat \<Rightarrow> string \<Rightarrow> string \<times> string" where
  "fgets_take 0 s = ([], s)"
| "fgets_take (Suc n) [] = ([], [])"
| "fgets_take (Suc n) (c # s) =
     (if c = CHR 0x0A then ([c], s) else let (l, r) = fgets_take n s in (c # l, r))"

text \<open>One \<open>fgets\<close> into a buffer of 2048 bytes: the line as a C string, and the rest of the file.\<close>

definition fgets :: "string \<Rightarrow> (cstr \<times> string) option" where
  "fgets s = (if s = [] then None else let (l, r) = fgets_take 2047 s in Some (takeWhile (\<lambda>c. c \<noteq> nul) l, r))"

lemma fgets_take_length: "length (snd (fgets_take n s)) \<le> length s"
  by (induction n s rule: fgets_take.induct) (auto simp: case_prod_beta Let_def)

lemma fgets_rest: "fgets s = Some (l, r) \<Longrightarrow> length r < length s"
  using fgets_take_length [of 2046 "tl s"]
  by (cases s) (auto simp: fgets_def case_prod_beta Let_def numeral_eq_Suc split: if_splits)

definition CLOSED_MARK :: cstr where "CLOSED_MARK = jstring ''name'' ''retrace.journal.closed''"

definition complete_line :: "cstr \<Rightarrow> bool" where
  "complete_line line \<longleftrightarrow> line \<noteq> [] \<and> last line = CHR 0x0A"

subsection \<open>Replay\<close>

definition replay_agent :: "retraced_registry \<Rightarrow> json_object option \<Rightarrow> retraced_registry" where
  "replay_agent r ob =
     (case json_object_get_string ob ''agent'' of
        None \<Rightarrow> r
      | Some agent \<Rightarrow>
          let (e, r1) =
            (case retraced_registry_find r (Some agent) of
               Some i \<Rightarrow> (Some i, r)
             | None \<Rightarrow> retraced_registry_hello r (Some agent) (sint (double_to_s64 (json_object_get_number ob ''pid''))) 0
                         (Some []) (Some [])) in
          (case e of
             None \<Rightarrow> r1
           | Some i \<Rightarrow> set_agent r1 i (\<lambda>e. e\<lparr>ag_last_seq := double_to_u64 (json_object_get_number ob ''seq''), ag_state := AGENT_LIVE\<rparr>)))"

record replay_state =
  rp_journal :: retraced_journal
  rp_registry :: retraced_registry
  rp_prev :: "64 word"
  rp_lineno :: nat
  rp_torn :: bool
  rp_broken :: bool

function replay_loop :: "strtod_fun \<Rightarrow> string \<Rightarrow> replay_state \<Rightarrow> replay_state" where
  "replay_loop strtod content s =
     (case fgets content of
        None \<Rightarrow> s
      | Some (line, rest) \<Rightarrow>
          let s1 = s\<lparr>rp_lineno := rp_lineno s + 1\<rparr> in
          if \<not> complete_line line then s1\<lparr>rp_torn := True\<rparr>
          else
            let s2 = s1\<lparr>rp_journal := (rp_journal s1)\<lparr>j_clean_close := (strstr_at line CLOSED_MARK \<noteq> None)\<rparr>\<rparr>;
                broken = s2\<lparr>rp_journal := (rp_journal s2)\<lparr>j_chain_broken_at := int (rp_lineno s2)\<rparr>, rp_broken := True\<rparr> in
            (case json_parse_string strtod (Some line) of
               Good v _ \<Rightarrow>
                 let ob = json_value_get_object (Some v) in
                 (case json_object_get_string ob ''prev'' of
                    None \<Rightarrow> broken
                  | Some prev_str \<Rightarrow>
                      if strtoull16 prev_str \<noteq> rp_prev s2 then broken
                      else
                        replay_loop strtod rest
                          (s2\<lparr>rp_registry := replay_agent (rp_registry s2) ob,
                              rp_journal := (rp_journal s2)\<lparr>j_replay_events := j_replay_events (rp_journal s2) + 1\<rparr>,
                              rp_prev := fnv1a line (rp_prev s2 XOR LINK_MIX)\<rparr>))
             | _ \<Rightarrow> s2\<lparr>rp_torn := True\<rparr>))"
  by pat_completeness auto
termination by (relation "measure (\<lambda>(_, content, _). length content)") (auto dest: fgets_rest)

declare replay_loop.simps [simp del]

definition journal_replay_file ::
  "strtod_fun \<Rightarrow> files \<Rightarrow> retraced_journal \<times> retraced_registry \<Rightarrow> cstr \<Rightarrow> 64 word \<Rightarrow> bool \<Rightarrow> 64 word \<times> retraced_journal \<times> retraced_registry" where
  "journal_replay_file strtod fs jr path prev is_last =
     (let (j, r) = jr in
      (case fs path of
         None \<Rightarrow> if is_last then (prev, j, r) else (-1, j\<lparr>j_chain_broken_at := 0\<rparr>, r)
       | Some content \<Rightarrow>
           let s = replay_loop strtod content
                     \<lparr>rp_journal = j, rp_registry = r, rp_prev = prev, rp_lineno = 0, rp_torn = False, rp_broken = False\<rparr>;
               n = rp_lineno s - (if rp_torn s then 1 else 0);
               j1 = (rp_journal s)\<lparr>j_replay_ok := j_replay_ok (rp_journal s) + n\<rparr> in
           if rp_broken s then (-1, rp_journal s, rp_registry s)
           else (rp_prev s, if is_last then j1\<lparr>j_lines := n\<rparr> else j1, rp_registry s)))"

fun replay_series ::
  "strtod_fun \<Rightarrow> files \<Rightarrow> nat list \<Rightarrow> 64 word \<Rightarrow> retraced_journal \<times> retraced_registry \<Rightarrow> int \<times> retraced_journal \<times> retraced_registry" where
  "replay_series strtod fs [] prev (j, r) = (0, j\<lparr>j_prev_hash := prev\<rparr>, r)"
| "replay_series strtod fs (seq # seqs) prev (j, r) =
     (case journal_replay_file strtod fs (j, r) (retraced_journal_segment_path (j_base j) seq 600) prev (seq = j_segment_seq j) of
        (prev1, jr1) \<Rightarrow> if prev1 = -1 then (-1, jr1) else replay_series strtod fs seqs prev1 jr1)"

definition retraced_journal_replay ::
  "strtod_fun \<Rightarrow> files \<Rightarrow> retraced_journal \<times> retraced_registry \<Rightarrow> int \<times> retraced_journal \<times> retraced_registry" where
  "retraced_journal_replay strtod fs jr =
     (let (j, r) = jr;
          j1 = j\<lparr>j_replay_ok := 0, j_replay_events := 0, j_chain_broken_at := -1, j_clean_close := False\<rparr> in
      if j_rotate_bytes j \<noteq> 0 \<or> j_rotate_seconds j \<noteq> 0 then
        (let lo = retraced_journal_segment_lo fs (j_base j) (j_segment_seq j) in
         if lo < 0 then (0, j1, r)
         else replay_series strtod fs [nat lo..<j_segment_seq j + 1] 0 (j1, r))
      else if retraced_journal_segment_exists fs (j_path j) = None then (-1, j1, r)
      else
        (case journal_replay_file strtod fs (j1, r) (j_path j) 0 True of
           (prev, j2, r2) \<Rightarrow> if prev = -1 then (-1, j2, r2) else (0, j2\<lparr>j_prev_hash := prev\<rparr>, r2)))"

subsection \<open>The tail\<close>

text \<open>
  The ring of the last lines: slots, the next slot, and how many are filled.  \<open>None\<close> is the
  undefined behaviour of \<open>strtoull\<close> on a line without \<open>prev\<close>.
\<close>

type_synonym tail_ring = "cstr option list \<times> nat \<times> nat"

definition ring_add :: "nat \<Rightarrow> cstr \<Rightarrow> tail_ring \<Rightarrow> tail_ring" where
  "ring_add last_n line rg =
     (let (ring, ring_i, kept) = rg in
      (ring[ring_i := Some line], (ring_i + 1) mod last_n, if kept < last_n then kept + 1 else kept))"

function tail_loop :: "strtod_fun \<Rightarrow> nat \<Rightarrow> string \<Rightarrow> 64 word \<Rightarrow> nat \<Rightarrow> tail_ring \<Rightarrow> (tail_ring \<times> int) option" where
  "tail_loop strtod last_n content prev lineno rg =
     (case fgets content of
        None \<Rightarrow> Some (rg, 0)
      | Some (line, rest) \<Rightarrow>
          if \<not> complete_line line then Some (rg, 0)
          else
            (case json_parse_string strtod (Some line) of
               Good v _ \<Rightarrow>
                 (case json_object_get_string (json_value_get_object (Some v)) ''prev'' of
                    None \<Rightarrow> None
                  | Some prev_str \<Rightarrow>
                      if strtoull16 prev_str \<noteq> prev then Some (rg, int (lineno + 1))
                      else tail_loop strtod last_n rest (fnv1a line (prev XOR LINK_MIX)) (lineno + 1) (ring_add last_n line rg))
             | _ \<Rightarrow> Some (rg, 0)))"
  by pat_completeness auto
termination by (relation "measure (\<lambda>(_, _, content, _). length content)") (auto dest: fgets_rest)

declare tail_loop.simps [simp del]

definition ring_out :: "nat \<Rightarrow> tail_ring \<Rightarrow> cstr list" where
  "ring_out last_n rg =
     (let (ring, ring_i, kept) = rg in
      concat (map (\<lambda>i. let idx = (if kept < last_n then i else (ring_i + i) mod last_n) in
                       case ring ! idx of None \<Rightarrow> [] | Some l \<Rightarrow> [l]) [0..<kept]))"

text \<open>The return value, the lines given to the sink, and the verdict.\<close>

definition retraced_journal_tail ::
  "strtod_fun \<Rightarrow> files \<Rightarrow> bool \<Rightarrow> retraced_journal \<Rightarrow> nat \<Rightarrow> (int \<times> cstr list \<times> int) option" where
  "retraced_journal_tail strtod fs calloc_ok j last_n0 =
     (case fs (j_path j) of
        None \<Rightarrow> Some (-1, [], 0)
      | Some content \<Rightarrow>
          let last_n = (if last_n0 = 0 then 1 else last_n0) in
          if \<not> calloc_ok then Some (-1, [], 0)
          else map_option (\<lambda>(rg, chain). (int (snd (snd rg)), ring_out last_n rg, chain))
                 (tail_loop strtod last_n content 0 0 (replicate last_n None, 0, 0)))"

subsection \<open>Verifying a file\<close>

definition PREV_KEY :: cstr where "PREV_KEY = [dq] @ ''prev'' @ [dq] @ '':'' @ [dq]"

text \<open>The loop stops after \<open>stop_at\<close> lines, unless that is zero; the result is the head, the count and the broken line.\<close>

function chain_loop :: "string \<Rightarrow> nat \<Rightarrow> 64 word \<Rightarrow> nat \<Rightarrow> 64 word \<times> nat \<times> nat" where
  "chain_loop content stop_at prev lines =
     (if \<not> (stop_at = 0 \<or> lines < stop_at) then (prev, lines, 0)
      else
        (case fgets content of
           None \<Rightarrow> (prev, lines, 0)
         | Some (line, rest) \<Rightarrow>
             (case strstr_at line PREV_KEY of
                None \<Rightarrow> (prev, lines + 1, lines + 1)
              | Some k \<Rightarrow>
                  let prev_hex = take 16 (snprintf_s 32 (drop (k + 8) line)) in
                  if strtoull16 prev_hex \<noteq> prev then (prev, lines + 1, lines + 1)
                  else chain_loop rest stop_at (fnv1a line (prev XOR LINK_MIX)) (lines + 1))))"
  by pat_completeness auto
termination by (relation "measure (\<lambda>(content, _, _, _). length content)") (auto dest: fgets_rest)

declare chain_loop.simps [simp del]

text \<open>The return value, head, lines and broken line.\<close>

definition retraced_journal_chain_file_from :: "files \<Rightarrow> cstr \<Rightarrow> 64 word \<Rightarrow> nat \<Rightarrow> int \<times> 64 word \<times> nat \<times> nat" where
  "retraced_journal_chain_file_from fs path start_prev stop_at =
     (case fs path of
        None \<Rightarrow> (-1, 0, 0, 0)
      | Some content \<Rightarrow>
          (case chain_loop content stop_at start_prev 0 of
             (head, lines, broken_at) \<Rightarrow> (if broken_at = 0 then 0 else -1, head, lines, broken_at)))"

definition retraced_journal_chain_file :: "files \<Rightarrow> cstr \<Rightarrow> nat \<Rightarrow> int \<times> 64 word \<times> nat \<times> nat" where
  "retraced_journal_chain_file fs path stop_at = retraced_journal_chain_file_from fs path 0 stop_at"

end
