(* ===== verification/Journal_Lines.thy ===== *)
theory Journal_Lines
  imports Journal_Replay
begin

unbundle bit_operations_syntax

section \<open>The lines of the journal\<close>

text \<open>
  A line the daemon writes is one \<open>fgets\<close> of the file, is read by the JSON parser as the
  object it was made from, and names the hash of the line before it.  Relied on of \<open>strtod\<close>:
  a decimal integer below \<open>2 ^ 53\<close> is read exactly.
\<close>

subsection \<open>One \<open>fgets\<close>\<close>

definition sole_line :: "cstr \<Rightarrow> bool" where
  "sole_line l \<longleftrightarrow> (\<exists>b. l = b @ [CHR 0x0A] \<and> CHR 0x0A \<notin> set b \<and> nul \<notin> set b \<and> length l < 2048)"

lemma fgets_take_line:
  "CHR 0x0A \<notin> set b \<Longrightarrow> length b < n \<Longrightarrow> fgets_take n (b @ CHR 0x0A # r) = (b @ [CHR 0x0A], r)"
proof (induction b arbitrary: n)
  case Nil
  then show ?case by (cases n) simp_all
next
  case (Cons c b)
  then show ?case by (cases n) auto
qed

lemma takeWhile_nul: "nul \<notin> set s \<Longrightarrow> takeWhile (\<lambda>c. c \<noteq> nul) s = s"
  by (simp add: takeWhile_eq_all_conv) blast

lemma fgets_line:
  assumes "sole_line l"
  shows "fgets (l @ r) = Some (l, r)" "complete_line l"
proof -
  obtain b where b: "l = b @ [CHR 0x0A]" "CHR 0x0A \<notin> set b" "nul \<notin> set b" "length b < 2047"
    using assms by (auto simp: sole_line_def)
  show "fgets (l @ r) = Some (l, r)"
    using b fgets_take_line [OF b(2,4), of r] takeWhile_nul [of l] by (simp add: fgets_def)
  show "complete_line l" using b(1) by (simp add: complete_line_def)
qed

text \<open>What is left of a line after a crash is no line: \<open>fgets\<close> returns it without a newline.\<close>

lemma fgets_take_short: "CHR 0x0A \<notin> set b \<Longrightarrow> length b \<le> n \<Longrightarrow> fgets_take n b = (b, [])"
proof (induction b arbitrary: n)
  case Nil
  then show ?case by (cases n) simp_all
next
  case (Cons c b)
  then show ?case by (cases n) auto
qed

lemma fgets_torn:
  assumes "CHR 0x0A \<notin> set b" "nul \<notin> set b" "b \<noteq> []" "length b \<le> 2047"
  shows "fgets b = Some (b, [])" "\<not> complete_line b"
proof -
  show "fgets b = Some (b, [])" using assms by (simp add: fgets_def fgets_take_short takeWhile_nul)
  show "\<not> complete_line b" using assms(1,3) by (auto simp: complete_line_def dest: last_in_set)
qed

subsection \<open>A line read as JSON\<close>

definition exact_integers :: "strtod_fun \<Rightarrow> bool" where
  "exact_integers strtod \<longleftrightarrow> (\<forall>n r. n < 2 ^ 53 \<longrightarrow> delim r \<longrightarrow> strtod (dec n @ r) = (Some (of_nat n), length (dec n), False))"

definition plain :: "cstr \<Rightarrow> bool" where
  "plain s \<longleftrightarrow> list_all (\<lambda>c. escape_char c = [c] \<and> c \<noteq> nul) s"

lemma plain_string: "plain s \<Longrightarrow> json_serialize_string s = dq # s @ [dq]"
  by (induction s) (auto simp: plain_def json_serialize_string_def dq_def)

lemma plain_no_quote: "plain s \<Longrightarrow> dq \<notin> set s" "plain s \<Longrightarrow> nul \<notin> set s" "plain s \<Longrightarrow> CHR 0x0A \<notin> set s"
proof -
  have "escape_char dq \<noteq> [dq]" "escape_char (CHR 0x0A) \<noteq> [CHR 0x0A]" by code_simp+
  then show "plain s \<Longrightarrow> dq \<notin> set s" "plain s \<Longrightarrow> nul \<notin> set s" "plain s \<Longrightarrow> CHR 0x0A \<notin> set s"
    unfolding plain_def list_all_iff by blast+
qed

lemma dec_leading: "0 < n \<Longrightarrow> hd (dec n) \<noteq> CHR ''0''"
proof (induction n rule: dec.induct)
  case (1 n)
  show ?case
  proof (cases "n < 10")
    case True
    then have "of_char (dec_digit n) \<noteq> (48 :: nat)" using dec_digit_val [of n] 1(2) by simp
    then have "dec_digit n \<noteq> CHR ''0''" by auto
    then show ?thesis using True by (subst dec.simps) simp
  next
    case False
    then show ?thesis using 1(1) by (subst dec.simps) (simp add: dec_first)
  qed
qed

lemma dec_start: "\<exists>c s. dec n = c # s \<and> of_char c \<in> {48..<58::nat}"
  using dec_first [of n] dec_range [of "hd (dec n)" n] by (cases "dec n") auto

lemma digit_chars: "of_char c \<in> {48..<58::nat} \<Longrightarrow> c \<in> set ''0123456789''"
proof -
  have "list_all (\<lambda>n. char_of n \<in> set ''0123456789'') [48..<58::nat]" by code_simp
  then have "\<forall>n\<in>{48..<58::nat}. (char_of n :: char) \<in> set ''0123456789''" by (simp only: list_all_iff set_upt)
  then show "of_char c \<in> {48..<58::nat} \<Longrightarrow> c \<in> set ''0123456789''" by (metis char_of_char)
qed

lemma dec_decimal: "is_decimal (dec n) (length (dec n))"
proof -
  obtain c s where cs: "dec n = c # s" "of_char c \<in> {48..<58::nat}" using dec_start by blast
  have "length (dec n) > 1 \<Longrightarrow> c \<noteq> CHR ''0''"
    using dec_leading [of n] cs(1) by (cases "n = 0") (simp_all add: dec.simps [of 0])
  moreover have "c \<noteq> CHR ''-''" using cs(2) by auto
  moreover have "list_all (\<lambda>c. c \<notin> set ''xX'' \<and> c \<noteq> nul) (dec n)"
    using dec_range [of _ n] by (fastforce simp: list_all_iff)
  ultimately show ?thesis using cs(1) by (auto simp: is_decimal_def strncmp_eq_def)
qed

lemma reads_dec:
  assumes "exact_integers strtod" "n < 2 ^ 53" "nesting \<le> MAX_NESTING"
  shows "reads_value strtod nesting (JSONNumber (of_nat n)) (dec n)"
proof -
  obtain c s where cs: "dec n = c # s" "c \<in> set ''0123456789''" using dec_start digit_chars by blast
  then have "dec n \<noteq> []" "hd (dec n) \<in> set ''-0123456789''" by auto
  then have "number_ok strtod (\<lambda>_. dec n) (of_nat n)"
    using assms dec_decimal [of n] by (simp add: number_ok_def exact_integers_def)
  then show ?thesis
    using assms(3) reads_scalar [of strtod "\<lambda>_. dec n" nesting "JSONNumber (of_nat n)" False 0 "dec n"] by simp
qed

lemma reads_plain:
  assumes "plain s" "nesting \<le> MAX_NESTING"
  shows "reads_value strtod nesting (JSONString s) (dq # s @ [dq])"
  using assms plain_no_quote(2) [OF assms(1)] plain_string [OF assms(1)]
    reads_scalar [of strtod "\<lambda>_. []" nesting "JSONString s" False 0 "dq # s @ [dq]"] by simp

lemma reads_text:
  assumes "reads_value strtod 0 v t" "delim r" "cget (t @ r) 0 \<noteq> CHR 0xEF"
  shows "json_parse_string strtod (Some (t @ r)) = Good v r"
proof -
  have "parse_value strtod (2 * length (t @ r) + 1) 0 (t @ r) = Good v r"
    using assms(1) [unfolded reads_value_def, rule_format, of "[]" r "2 * length (t @ r) + 1"] assms(2)
    by (simp del: parse_value.simps)
  then show ?thesis using assms(3) by (simp add: json_parse_string_def json_fuel_def Let_def del: parse_value.simps)
qed

text \<open>One member of a compact object, in front of the others.\<close>

lemma reads_member:
  assumes "reads_value strtod nesting v t" "plain k" "distinct (map fst obj)"
    "kvs \<noteq> [] \<Longrightarrow> reads_members strtod nesting obj kvs u" "kvs = [] \<Longrightarrow> u = []"
  shows "reads_members strtod nesting obj ((k, v) # kvs) (dq # k @ [dq] @ '':'' @ t @ (if kvs \<noteq> [] then '','' else []) @ u)"
  using reads_members_step [OF assms(1) plain_no_quote(2) [OF assms(2)] assms(3-5), of False 0] plain_string [OF assms(2)]
  by (simp add: indent_def eol_def)

definition line_object :: "nat \<Rightarrow> cstr \<Rightarrow> nat \<Rightarrow> 64 word \<Rightarrow> json \<Rightarrow> json_object" where
  "line_object ts agent seq prev v =
     [(''ts'', JSONNumber (of_nat ts)), (''agent'', JSONString agent), (''seq'', JSONNumber (of_nat seq)),
      (''prev'', JSONString (hex16 prev)), (''ev'', v)]"

lemma plain_hex16: "plain (hex16 w)"
proof -
  have "list_all (\<lambda>d. escape_char (hex_digit d) = [hex_digit d] \<and> hex_digit d \<noteq> nul) [0..<16]" by code_simp
  then have "d < 16 \<Longrightarrow> escape_char (hex_digit d) = [hex_digit d] \<and> hex_digit d \<noteq> nul" for d
    by (simp only: list_all_iff set_upt) simp
  then show ?thesis by (simp add: plain_def hex16_def list_all_iff)
qed

lemma plain_keys: "plain ''ts''" "plain ''agent''" "plain ''seq''" "plain ''prev''" "plain ''ev''"
  by code_simp+

lemma line_reads:
  assumes "exact_integers strtod" "ts < 2 ^ 53" "seq < 2 ^ 53" "plain agent" "reads_value strtod 1 v p"
  shows "json_parse_string strtod (Some (journal_line (int ts) agent seq prev (Some p))) =
    Good (JSONObject (line_object ts agent seq prev v)) [CHR 0x0A]"
proof -
  let ?obj = "line_object ts agent seq prev v"
  have nest: "(1::nat) \<le> MAX_NESTING" by (simp add: MAX_NESTING_def)
  have dist: "distinct (map fst ?obj)" by (simp add: line_object_def)
  note num = reads_dec [OF assms(1) _ nest] and str = reads_plain [OF _ nest]
  have 5: "reads_members strtod 1 ?obj [(''ev'', v)] (dq # ''ev'' @ [dq] @ '':'' @ p)"
    using reads_member [OF assms(5) plain_keys(5) dist, of "[]" "[]"] by simp
  have 4: "reads_members strtod 1 ?obj [(''prev'', JSONString (hex16 prev)), (''ev'', v)]
      (dq # ''prev'' @ [dq] @ '':'' @ (dq # hex16 prev @ [dq]) @ '','' @ (dq # ''ev'' @ [dq] @ '':'' @ p))"
    using reads_member [OF str [OF plain_hex16, of strtod prev] plain_keys(4) dist, of "[(''ev'', v)]"] 5 by simp
  have 3: "reads_members strtod 1 ?obj (drop 2 ?obj)
      (dq # ''seq'' @ [dq] @ '':'' @ dec seq @ '','' @
       (dq # ''prev'' @ [dq] @ '':'' @ (dq # hex16 prev @ [dq]) @ '','' @ (dq # ''ev'' @ [dq] @ '':'' @ p)))"
    using reads_member [OF num [OF assms(3)] plain_keys(3) dist, of "drop 3 ?obj"] 4 by (simp add: line_object_def)
  have 2: "reads_members strtod 1 ?obj (drop 1 ?obj)
      (dq # ''agent'' @ [dq] @ '':'' @ (dq # agent @ [dq]) @ '','' @ (dq # ''seq'' @ [dq] @ '':'' @ dec seq @ '','' @
       (dq # ''prev'' @ [dq] @ '':'' @ (dq # hex16 prev @ [dq]) @ '','' @ (dq # ''ev'' @ [dq] @ '':'' @ p))))"
    using reads_member [OF str [OF assms(4), of strtod] plain_keys(2) dist, of "drop 2 ?obj"] 3 by (simp add: line_object_def)
  define t where "t = dq # ''ts'' @ [dq] @ '':'' @ dec ts @ '','' @
      (dq # ''agent'' @ [dq] @ '':'' @ (dq # agent @ [dq]) @ '','' @ (dq # ''seq'' @ [dq] @ '':'' @ dec seq @ '','' @
       (dq # ''prev'' @ [dq] @ '':'' @ (dq # hex16 prev @ [dq]) @ '','' @ (dq # ''ev'' @ [dq] @ '':'' @ p))))"
  have "reads_members strtod 1 ?obj ?obj t"
    using reads_member [OF num [OF assms(2)] plain_keys(1) dist, of "drop 1 ?obj"] 2 by (simp add: line_object_def t_def)
  moreover have "t = [] @ CHR 0x22 # tl t" by (simp add: t_def dq_def)
  moreover have "?obj \<noteq> []" by (simp add: line_object_def)
  ultimately have "reads_value strtod 0 (JSONObject ?obj) ([CHR 0x7B] @ [] @ t @ [] @ [CHR 0x7D])"
    by (intro reads_container(2) [where e' = "[]" and t' = "tl t"]) (simp_all add: blank_def)
  moreover have "journal_line (int ts) agent seq prev (Some p) = [CHR 0x7B] @ t @ [CHR 0x7D, CHR 0x0A]"
    by (simp add: journal_line_def t_def show_int_def)
  moreover have "delim [CHR 0x0A]" by (simp add: delim_def)
  ultimately show ?thesis
    using reads_text [of strtod "JSONObject ?obj" "CHR 0x7B # t @ [CHR 0x7D]" "[CHR 0x0A]"] by simp
qed

end
