(* ===== verification/Journal_Chain.thy ===== *)
theory Journal_Chain
  imports Journal_Lines
begin

unbundle bit_operations_syntax

section \<open>What the journal keeps\<close>

text \<open>
  The lines a sequence of events leaves in the file, what the replay makes of them, and what
  it makes of the file a crash or an edit has changed.
\<close>

type_synonym jevent = "nat \<times> cstr \<times> nat \<times> cstr"

fun event_line :: "64 word \<Rightarrow> jevent \<Rightarrow> cstr" where
  "event_line prev (ts, agent, seq, payload) = journal_line (int ts) agent seq prev (Some payload)"

fun chain_lines :: "64 word \<Rightarrow> jevent list \<Rightarrow> cstr list" where
  "chain_lines prev [] = []"
| "chain_lines prev (e # es) = event_line prev e # chain_lines (retraced_journal_line_hash (event_line prev e) prev) es"

fun chain_head :: "64 word \<Rightarrow> jevent list \<Rightarrow> 64 word" where
  "chain_head prev [] = prev"
| "chain_head prev (e # es) = chain_head (retraced_journal_line_hash (event_line prev e) prev) es"

fun sound_event :: "strtod_fun \<Rightarrow> jevent \<Rightarrow> bool" where
  "sound_event strtod (ts, agent, seq, payload) \<longleftrightarrow>
     ts < 2 ^ 53 \<and> seq < 2 ^ 53 \<and> plain agent \<and> CHR 0x0A \<notin> set payload \<and> nul \<notin> set payload \<and>
     (\<exists>v. reads_value strtod 1 v payload) \<and> length (event_line 0 (ts, agent, seq, payload)) < 2048"

fun event_durable :: "jevent \<Rightarrow> bool" where
  "event_durable (ts, agent, seq, payload) \<longleftrightarrow> payload_is_durable (Some payload)"

lemma chain_append:
  "chain_lines prev (es @ es') = chain_lines prev es @ chain_lines (chain_head prev es) es'"
  "chain_head prev (es @ es') = chain_head (chain_head prev es) es'"
  by (induction es arbitrary: prev) simp_all

lemma chain_lines_length [simp]: "length (chain_lines prev es) = length es"
  by (induction es arbitrary: prev) simp_all

lemma chain_lines_take: "take m (chain_lines prev es) = chain_lines prev (take m es)"
  by (induction es arbitrary: m prev) (simp_all add: take_Cons split: nat.split)

lemma event_line_length: "length (event_line prev e) = length (event_line prev' e)"
  by (cases e) (simp add: journal_line_def)

lemma hex16_no_break: "CHR 0x0A \<notin> set (hex16 w)" "nul \<notin> set (hex16 w)"
  using plain_no_quote [OF plain_hex16, of w] by simp_all

lemma dec_no_break: "CHR 0x0A \<notin> set (dec n)" "nul \<notin> set (dec n)"
  by (rule dec_excludes; simp)+

lemma event_line_sole: "sound_event strtod e \<Longrightarrow> sole_line (event_line prev e)"
proof -
  obtain ts agent seq payload where e: "e = (ts, agent, seq, payload)" by (cases e)
  assume s: "sound_event strtod e"
  define b where "b = butlast (event_line prev e)"
  have "event_line prev e = b @ [CHR 0x0A]"
    by (simp add: b_def e journal_line_def butlast_append)
  moreover have "CHR 0x0A \<notin> set b" "nul \<notin> set b"
    using s hex16_no_break [of prev] dec_no_break [of ts] dec_no_break [of seq] plain_no_quote [of agent]
    by (auto simp: b_def e journal_line_def show_int_def dq_def butlast_append)
  moreover have "length (event_line prev e) < 2048" using s event_line_length [of prev e 0] by (simp add: e)
  ultimately show ?thesis by (auto simp: sole_line_def)
qed

lemma chain_lines_sole: "list_all (sound_event strtod) es \<Longrightarrow> list_all sole_line (chain_lines prev es)"
  by (induction es arbitrary: prev) (auto dest: event_line_sole)

subsection \<open>Writing\<close>

fun write_event :: "jio \<Rightarrow> retraced_journal \<times> jworld \<Rightarrow> jevent \<Rightarrow> retraced_journal \<times> jworld" where
  "write_event io jw (ts, agent, seq, payload) = snd (retraced_journal_event io jw (int ts) agent seq (Some payload))"

definition write_events :: "jio \<Rightarrow> retraced_journal \<times> jworld \<Rightarrow> jevent list \<Rightarrow> retraced_journal \<times> jworld" where
  "write_events io jw es = foldl (write_event io) jw es"

definition file_text :: "files \<Rightarrow> cstr \<Rightarrow> string" where
  "file_text fs p = (case fs p of None \<Rightarrow> [] | Some c \<Rightarrow> c)"

text \<open>A journal in one file, on a system that lets it write.\<close>

definition one_file :: "jio \<Rightarrow> retraced_journal \<times> jworld \<Rightarrow> bool" where
  "one_file io jw \<longleftrightarrow> (let (j, w) = jw in j_rotate_bytes j = 0 \<and> j_rotate_seconds j = 0 \<and> io_open_ok io (j_path j) \<and> io_puts_ok io \<and>
     (if j_open j then jw_files w (j_path j) \<noteq> None \<and> jw_unflushed w \<le> length (file_text (jw_files w) (j_path j)) else jw_unflushed w = 0))"

lemma write_one:
  assumes "one_file io (j, w)" "length (event_line (j_prev_hash j) e) < 2048"
  shows "\<exists>j' w'. write_event io (j, w) e = (j', w') \<and> one_file io (j', w') \<and> j_open j' \<and> j_path j' = j_path j \<and>
    j_prev_hash j' = retraced_journal_line_hash (event_line (j_prev_hash j) e) (j_prev_hash j) \<and> j_lines j' = j_lines j + 1 \<and>
    jw_files w' (j_path j) = Some (file_text (jw_files w) (j_path j) @ event_line (j_prev_hash j) e) \<and>
    jw_unflushed w' = (if event_durable e then 0 else jw_unflushed w + length (event_line (j_prev_hash j) e))"
proof -
  obtain ts agent seq payload where e: "e = (ts, agent, seq, payload)" by (cases e)
  let ?line = "event_line (j_prev_hash j) e"
  let ?w1 = "if j_open j then w else w\<lparr>jw_files := (jw_files w)(j_path j \<mapsto> file_text (jw_files w) (j_path j)), jw_unflushed := 0\<rparr>"
  have wr: "journal_writer io (j, w) = (True, j\<lparr>j_open := True\<rparr>, ?w1)"
    using assms(1) by (auto simp: one_file_def journal_writer_def file_text_def)
  have c: "jw_files ?w1 (j_path j) = Some (file_text (jw_files w) (j_path j))" "jw_unflushed ?w1 = jw_unflushed w"
    using assms(1) by (auto simp: one_file_def file_text_def split: if_splits option.split)
  define w2 where "w2 = ?w1\<lparr>jw_files := (jw_files ?w1)(j_path j \<mapsto> file_text (jw_files w) (j_path j) @ ?line),
      jw_unflushed := (if event_durable e then 0 else jw_unflushed w + length ?line)\<rparr>"
  define j2 where "j2 = j\<lparr>j_open := True, j_prev_hash := retraced_journal_line_hash ?line (j_prev_hash j),
      j_lines := j_lines j + 1, j_seg_bytes := j_seg_bytes j + length ?line\<rparr>"
  have "journal_append io (j, w) (int ts) agent seq (Some payload) = (0, j2, w2)"
    using assms wr c by (simp add: journal_append_def e Let_def w2_def j2_def retraced_journal_line_hash_def one_file_def)
  moreover have "\<not> rotation_due j2 (int ts)" using assms(1) by (simp add: rotation_due_def j2_def one_file_def)
  ultimately have "write_event io (j, w) e = (j2, w2)" by (simp add: e retraced_journal_event_def)
  moreover have "one_file io (j2, w2)"
    using assms(1) by (auto simp: one_file_def j2_def w2_def file_text_def split: if_splits option.splits)
  ultimately show ?thesis by (simp add: j2_def w2_def)
qed

lemma write_all:
  assumes "one_file io (j, w)" "list_all (\<lambda>e. length (event_line 0 e) < 2048) es"
  shows "\<exists>j' w'. write_events io (j, w) es = (j', w') \<and> one_file io (j', w') \<and> j_path j' = j_path j \<and>
    j_prev_hash j' = chain_head (j_prev_hash j) es \<and> j_lines j' = j_lines j + length es \<and>
    (es \<noteq> [] \<longrightarrow> jw_files w' (j_path j) \<noteq> None) \<and>
    file_text (jw_files w') (j_path j) = file_text (jw_files w) (j_path j) @ concat (chain_lines (j_prev_hash j) es) \<and>
    (\<forall>i\<in>{1..length es}. event_durable (es ! (i - 1)) \<longrightarrow>
      jw_unflushed w' \<le> length (concat (chain_lines (j_prev_hash j) es)) - length (concat (chain_lines (j_prev_hash j) (take i es))))"
  using assms(2)
proof (induction es rule: rev_induct)
  case Nil
  then show ?case using assms(1) by (simp add: write_events_def)
next
  case (snoc e es)
  obtain j1 w1 where 1: "write_events io (j, w) es = (j1, w1)" "one_file io (j1, w1)" "j_path j1 = j_path j"
    "j_prev_hash j1 = chain_head (j_prev_hash j) es" "j_lines j1 = j_lines j + length es"
    "file_text (jw_files w1) (j_path j) = file_text (jw_files w) (j_path j) @ concat (chain_lines (j_prev_hash j) es)"
    "\<And>i. i \<in> {1..length es} \<Longrightarrow> event_durable (es ! (i - 1)) \<Longrightarrow>
      jw_unflushed w1 \<le> length (concat (chain_lines (j_prev_hash j) es)) - length (concat (chain_lines (j_prev_hash j) (take i es)))"
    using snoc by auto
  let ?line = "event_line (chain_head (j_prev_hash j) es) e"
  have "length (event_line (j_prev_hash j1) e) < 2048" using snoc.prems event_line_length [of "j_prev_hash j1" e 0] by simp
  from write_one [OF 1(2) this] obtain j2 w2 where
    2: "write_event io (j1, w1) e = (j2, w2)" "one_file io (j2, w2)" "j_path j2 = j_path j"
      "j_prev_hash j2 = retraced_journal_line_hash ?line (chain_head (j_prev_hash j) es)" "j_lines j2 = j_lines j1 + 1"
      "jw_files w2 (j_path j) = Some (file_text (jw_files w1) (j_path j) @ ?line)"
      "jw_unflushed w2 = (if event_durable e then 0 else jw_unflushed w1 + length ?line)"
    unfolding 1(3,4) by blast
  have "jw_unflushed w2 \<le> length (concat (chain_lines (j_prev_hash j) (es @ [e]))) -
      length (concat (chain_lines (j_prev_hash j) (take i (es @ [e]))))"
    if i: "i \<in> {1..length (es @ [e])}" "event_durable ((es @ [e]) ! (i - 1))" for i
  proof (cases "i = Suc (length es) \<or> event_durable e")
    case True
    then show ?thesis using i 2(7) by (auto simp: nth_append)
  next
    case False
    then have il: "i \<in> {1..length es}" "event_durable (es ! (i - 1))" using i by (auto simp: nth_append split: if_splits)
    have "length (concat (chain_lines (j_prev_hash j) (take i es))) \<le> length (concat (chain_lines (j_prev_hash j) es))"
      by (metis append_take_drop_id chain_append(1) concat_append le_add1 length_append)
    then show ?thesis using 1(7) [OF il] False il 2(7) by (simp add: chain_append)
  qed
  moreover have "write_events io (j, w) (es @ [e]) = (j2, w2)" using 1(1) 2(1) by (simp add: write_events_def)
  moreover have "file_text (jw_files w2) (j_path j) =
      file_text (jw_files w) (j_path j) @ concat (chain_lines (j_prev_hash j) (es @ [e]))"
    using 1(6) 2(6) by (simp add: file_text_def [of "jw_files w2"] chain_append)
  ultimately show ?case using 2 1(5) by (simp add: chain_append)
qed

subsection \<open>Replaying\<close>

text \<open>What one line does to the registry: the agent it names is known and live, with the line's sequence number.\<close>

definition agent_seen :: "retraced_registry \<Rightarrow> cstr \<Rightarrow> nat \<Rightarrow> retraced_registry" where
  "agent_seen r agent seq = replay_agent r (Some [(''agent'', JSONString agent), (''seq'', JSONNumber (of_nat seq))])"

definition agents_seen :: "retraced_registry \<Rightarrow> jevent list \<Rightarrow> retraced_registry" where
  "agents_seen r es = foldl (\<lambda>r (ts, agent, seq, payload). agent_seen r agent seq) r es"

fun replay_one :: "replay_state \<Rightarrow> jevent \<Rightarrow> replay_state" where
  "replay_one s (ts, agent, seq, payload) =
     (let line = event_line (rp_prev s) (ts, agent, seq, payload) in
      s\<lparr>rp_lineno := rp_lineno s + 1,
        rp_registry := agent_seen (rp_registry s) agent seq,
        rp_journal := (rp_journal s)\<lparr>j_clean_close := (strstr_at line CLOSED_MARK \<noteq> None),
                                     j_replay_events := j_replay_events (rp_journal s) + 1\<rparr>,
        rp_prev := retraced_journal_line_hash line (rp_prev s)\<rparr>)"

lemma line_object_fields:
  "json_object_get_string (Some (line_object ts agent seq prev v)) ''prev'' = Some (hex16 prev)"
  "replay_agent r (Some (line_object ts agent seq prev v)) = agent_seen r agent seq"
proof -
  let ?ob = "[(''agent'', JSONString agent), (''seq'', JSONNumber (of_nat seq))]"
  have "json_object_get_string (Some (line_object ts agent seq prev v)) ''agent'' = json_object_get_string (Some ?ob) ''agent''"
    "json_object_get_number (Some (line_object ts agent seq prev v)) ''seq'' = json_object_get_number (Some ?ob) ''seq''"
    "json_object_get_number (Some (line_object ts agent seq prev v)) ''pid'' = json_object_get_number (Some ?ob) ''pid''"
    by (simp_all add: line_object_def json_object_get_string_def json_object_get_number_def json_object_get_value_map)
  then show "replay_agent r (Some (line_object ts agent seq prev v)) = agent_seen r agent seq"
    by (simp only: agent_seen_def replay_agent_def)
qed (simp add: line_object_def json_object_get_string_def json_object_get_value_map)

lemma hex16_read: "strtoull16 (hex16 w) = w"
  using strtoull16_hex16 [of "[]" w] by (simp add: unhex_digit_def)

lemma replay_line:
  assumes "exact_integers strtod" "sound_event strtod e"
  shows "replay_loop strtod (event_line (rp_prev s) e @ rest) s = replay_loop strtod rest (replay_one s e)"
proof -
  obtain ts agent seq payload where e: "e = (ts, agent, seq, payload)" by (cases e)
  then obtain v where v: "reads_value strtod 1 v payload" using assms(2) by auto
  note fg = fgets_line [OF event_line_sole [OF assms(2), of "rp_prev s"]]
  have "json_parse_string strtod (Some (event_line (rp_prev s) e)) =
      Good (JSONObject (line_object ts agent seq (rp_prev s) v)) [CHR 0x0A]"
    using line_reads [OF assms(1) _ _ _ v] assms(2) by (simp add: e)
  then show ?thesis
    using fg(2)
    by (subst replay_loop.simps) (simp add: fg(1) [unfolded e] e line_object_fields hex16_read Let_def retraced_journal_line_hash_def
        del: event_line.simps)
qed

lemma replay_lines:
  assumes "exact_integers strtod"
  shows "list_all (sound_event strtod) es \<Longrightarrow>
    replay_loop strtod (concat (chain_lines (rp_prev s) es) @ rest) s = replay_loop strtod rest (foldl replay_one s es)"
proof (induction es arbitrary: s)
  case (Cons e es)
  have "rp_prev (replay_one s e) = retraced_journal_line_hash (event_line (rp_prev s) e) (rp_prev s)"
    by (cases e) (simp add: Let_def)
  then show ?case
    using Cons.IH [of "replay_one s e"] Cons.prems
      replay_line [OF assms, of e s "concat (chain_lines (rp_prev (replay_one s e)) es) @ rest"] by simp
qed simp

lemma replay_fold:
  "rp_prev (foldl replay_one s es) = chain_head (rp_prev s) es"
  "rp_lineno (foldl replay_one s es) = rp_lineno s + length es"
  "rp_registry (foldl replay_one s es) = agents_seen (rp_registry s) es"
  "j_replay_events (rp_journal (foldl replay_one s es)) = j_replay_events (rp_journal s) + length es"
  "rp_torn (foldl replay_one s es) = rp_torn s" "rp_broken (foldl replay_one s es) = rp_broken s"
  "j_chain_broken_at (rp_journal (foldl replay_one s es)) = j_chain_broken_at (rp_journal s)"
  by (induction es arbitrary: s) (auto simp: Let_def agents_seen_def)

subsection \<open>What a crash leaves\<close>

lemma take_lines:
  "\<exists>m b. take n (concat ls) = concat (take m ls) @ b \<and> m \<le> length ls \<and>
     (b \<noteq> [] \<longrightarrow> m < length ls \<and> strict_prefix b (ls ! m)) \<and>
     (\<forall>i\<le>length ls. length (concat (take i ls)) \<le> n \<longrightarrow> i \<le> m)"
proof (induction ls arbitrary: n)
  case (Cons l ls)
  show ?case
  proof (cases "length l \<le> n")
    case True
    from Cons.IH [of "n - length l"] obtain m b where
      *: "take (n - length l) (concat ls) = concat (take m ls) @ b" "m \<le> length ls"
        "b \<noteq> [] \<longrightarrow> m < length ls \<and> strict_prefix b (ls ! m)"
        "\<forall>i\<le>length ls. length (concat (take i ls)) \<le> n - length l \<longrightarrow> i \<le> m" by blast
    have "i \<le> Suc m" if "i \<le> length (l # ls)" "length (concat (take i (l # ls))) \<le> n" for i
      using that * (4) by (cases i) auto
    then show ?thesis using * (1-3) True by (intro exI [of _ "Suc m"] exI [of _ b]) auto
  next
    case False
    then have "i \<le> 0" if "length (concat (take i (l # ls))) \<le> n" for i using that by (cases i) auto
    moreover have "strict_prefix (take n l) l" using False by (auto simp: strict_prefix_def take_is_prefix)
    ultimately show ?thesis using False by (intro exI [of _ 0] exI [of _ "take n l"]) auto
  qed
qed (intro exI [of _ 0] exI [of _ "[]"], simp)

lemma sole_prefix_torn:
  assumes "sole_line l" "strict_prefix b l"
  shows "CHR 0x0A \<notin> set b" "nul \<notin> set b" "length b \<le> 2047"
proof -
  obtain c where c: "l = c @ [CHR 0x0A]" "CHR 0x0A \<notin> set c" "nul \<notin> set c" "length l < 2048"
    using assms(1) by (auto simp: sole_line_def)
  have "prefix b c" using assms(2) c(1) by (auto simp: strict_prefix_def prefix_snoc)
  then show "CHR 0x0A \<notin> set b" "nul \<notin> set b" "length b \<le> 2047"
    using c set_mono_prefix [of b c] prefix_length_le [of b c] by auto
qed

lemma replay_torn:
  assumes "sole_line l" "strict_prefix b l" "b \<noteq> []"
  shows "replay_loop strtod b s = s\<lparr>rp_lineno := rp_lineno s + 1, rp_torn := True\<rparr>"
  using fgets_torn [OF sole_prefix_torn(1,2) [OF assms(1,2)] assms(3) sole_prefix_torn(3) [OF assms(1,2)]]
  by (subst replay_loop.simps) simp

lemma replay_nothing: "replay_loop strtod [] s = s"
  by (subst replay_loop.simps) (simp add: fgets_def)

definition replay_start :: "retraced_journal \<Rightarrow> retraced_registry \<Rightarrow> replay_state" where
  "replay_start j r = \<lparr>rp_journal = j\<lparr>j_replay_ok := 0, j_replay_events := 0, j_chain_broken_at := -1, j_clean_close := False\<rparr>,
     rp_registry = r, rp_prev = 0, rp_lineno = 0, rp_torn = False, rp_broken = False\<rparr>"

text \<open>The replay of one file, from the outcome of its loop.\<close>

lemma replay_one_file:
  assumes "j_rotate_bytes j = 0" "j_rotate_seconds j = 0" "fs (j_path j) = Some content"
    and "replay_loop strtod content (replay_start j r) = s" "\<not> rp_broken s" "rp_prev s \<noteq> -1"
  shows "\<exists>j'. retraced_journal_replay strtod fs (j, r) = (0, j', rp_registry s) \<and> j_prev_hash j' = rp_prev s \<and>
    j_replay_events j' = j_replay_events (rp_journal s) \<and> j_chain_broken_at j' = j_chain_broken_at (rp_journal s) \<and>
    j_clean_close j' = j_clean_close (rp_journal s) \<and> j_lines j' = rp_lineno s - (if rp_torn s then 1 else 0)"
  using assms
  by (simp add: retraced_journal_replay_def retraced_journal_segment_exists_def journal_replay_file_def replay_start_def Let_def)

lemma replay_cut:
  assumes "exact_integers strtod" "list_all (sound_event strtod) es" "m \<le> length es"
    "b = [] \<or> m < length es \<and> strict_prefix b (chain_lines (rp_prev s) es ! m)"
  shows "replay_loop strtod (concat (chain_lines (rp_prev s) (take m es)) @ b) s =
    (let s1 = foldl replay_one s (take m es) in if b = [] then s1 else s1\<lparr>rp_lineno := rp_lineno s1 + 1, rp_torn := True\<rparr>)"
proof -
  have sound: "list_all (sound_event strtod) (take m es)" using assms(2) by (metis append_take_drop_id list_all_append)
  have lines: "replay_loop strtod (concat (chain_lines (rp_prev s) (take m es)) @ b) s = replay_loop strtod b (foldl replay_one s (take m es))"
    by (rule replay_lines [OF assms(1) sound])
  show ?thesis
  proof (cases "b = []")
    case True
    then show ?thesis using lines by (simp add: replay_nothing)
  next
    case False
    then have "sole_line (chain_lines (rp_prev s) es ! m)"
      using assms(4) chain_lines_sole [OF assms(2), of "rp_prev s"] by (simp add: list_all_length)
    then show ?thesis
      using replay_torn [of "chain_lines (rp_prev s) es ! m" b strtod] False assms(4) lines by (simp add: Let_def)
  qed
qed

subsection \<open>The registry after a replay\<close>

text \<open>
  What the journal last said of an agent, and the entry the next daemon has for it: live, with
  the sequence number of the last line that names it, whatever the payload of that line was.
\<close>

definition journal_agents :: "jevent list \<Rightarrow> cstr set" where
  "journal_agents es = (\<lambda>(ts, agent, seq, payload). agent) ` set es"

definition last_seen :: "jevent list \<Rightarrow> cstr \<Rightarrow> nat option" where
  "last_seen es a = map_option (\<lambda>(ts, agent, seq, payload). seq) (List.find (\<lambda>(ts, agent, seq, payload). agent = a) (rev es))"

definition restored :: "cstr \<Rightarrow> nat \<Rightarrow> agent_entry" where
  "restored a seq = \<lparr>ag_id = a, ag_session = [], ag_parent_id = [], ag_cmdline = [], ag_pid = 0, ag_ppid = 0,
     ag_parent_hole = 0, ag_spectator = 0, ag_kernel_obs = 0, ag_kernel_obs_last = 0, ag_policy_epoch = 0,
     ag_last_seq = of_nat seq, ag_last_hb_ms = 0, ag_state = AGENT_LIVE\<rparr>"

definition proper_names :: "jevent list \<Rightarrow> bool" where
  "proper_names es \<longleftrightarrow> (\<forall>a\<in>journal_agents es. a \<noteq> [] \<and> length a < RETRACED_AGENT_ID_MAX) \<and>
     card (journal_agents es) \<le> RETRACED_REGISTRY_MAX"

lemma exact_seq: "seq < 2 ^ 53 \<Longrightarrow> double_to_u64 (of_nat seq) = of_nat seq"
proof -
  assume "seq < 2 ^ 53"
  then have "(of_nat seq :: rat) < of_nat (2 ^ 53)" by (simp only: of_nat_less_iff)
  then have "(of_nat seq :: rat) < 2 ^ 64" by simp
  moreover have "-1 < (of_nat seq :: rat)" by (rule less_le_trans [of _ 0]) simp_all
  ultimately show ?thesis by (simp add: double_to_u64_def rat_trunc_def)
qed

lemma agent_seen_map:
  assumes "registry_ok r" "a \<noteq> []" "length a < RETRACED_AGENT_ID_MAX" "seq < 2 ^ 53"
    and "agents r a = None \<Longrightarrow> length (rg_agents r) < RETRACED_REGISTRY_MAX" "\<And>e. agents r a = Some e \<Longrightarrow> \<exists>n. e = restored a n"
  shows "registry_ok (agent_seen r a seq) \<and> agents (agent_seen r a seq) = (agents r)(a \<mapsto> restored a seq)"
proof -
  let ?f = "\<lambda>e. e\<lparr>ag_last_seq := of_nat seq, ag_state := AGENT_LIVE\<rparr>"
  let ?ob = "Some [(''agent'', JSONString a), (''seq'', JSONNumber (of_nat seq))]"
  have fields: "json_object_get_string ?ob ''agent'' = Some a" "double_to_u64 (json_object_get_number ?ob ''seq'') = of_nat seq"
      "sint (double_to_s64 (json_object_get_number ?ob ''pid'')) = 0"
    using exact_seq [OF assms(4)]
    by (simp_all add: json_object_get_string_def json_object_get_number_def json_object_get_value_map double_to_s64_def rat_trunc_def)
  have seen: "agent_seen r a seq =
      (let (e, r1) = (case retraced_registry_find r (Some a) of Some i \<Rightarrow> (Some i, r)
         | None \<Rightarrow> retraced_registry_hello r (Some a) 0 0 (Some []) (Some [])) in
       case e of None \<Rightarrow> r1 | Some i \<Rightarrow> set_agent r1 i ?f)"
    by (simp only: agent_seen_def replay_agent_def fields option.case)
  show ?thesis
  proof (cases "retraced_registry_find r (Some a)")
    case None
    then have none: "agents r a = None" by (simp add: keyed_None find_index agent_search.find_None)
    from hello_new [OF assms(1-3) none assms(5) [OF none], of 0 0 "Some []" "Some []"] obtain r1 where
      r1: "retraced_registry_hello r (Some a) 0 0 (Some []) (Some []) = (Some (length (rg_agents r)), r1)" "registry_ok r1"
        "agents r1 = (agents r)(a \<mapsto> new_agent a 0 0 (Some []) (Some []))" by blast
    have "r1 = r\<lparr>rg_agents := rg_agents r @ [new_agent a 0 0 (Some []) (Some [])]\<rparr>"
      using r1(1) None assms(2) by (auto simp: retraced_registry_hello_def split: if_splits)
    then have nth: "length (rg_agents r) < length (rg_agents r1)" "rg_agents r1 ! length (rg_agents r) = new_agent a 0 0 (Some []) (Some [])"
      by simp_all
    have new: "ag_id (new_agent a 0 0 (Some []) (Some [])) = a" "?f (new_agent a 0 0 (Some []) (Some [])) = restored a seq"
      "ag_id (restored a seq) = a"
      using assms(3) by (simp_all add: new_agent_def restored_def snprintf_s_def)
    show ?thesis using set_agent_ok [OF r1(2) nth(1), of ?f] r1(3) nth(2) new by (simp add: seen None r1(1))
  next
    case (Some i)
    from update_found [OF assms(1), of ?f a] obtain e where
      e: "agents r a = Some e" "registry_ok (set_agent r i ?f)" "agents (set_agent r i ?f) = (agents r)(a \<mapsto> ?f e)"
      using Some by auto
    from assms(6) [OF e(1)] have "?f e = restored a seq" by (auto simp: restored_def)
    then show ?thesis using e by (simp add: seen Some)
  qed
qed

lemma agents_count: "registry_ok r \<Longrightarrow> card (dom (agents r)) = length (rg_agents r)"
proof -
  assume "registry_ok r"
  then have "card (ag_id ` set (rg_agents r)) = length (rg_agents r)"
    by (simp add: registry_ok_def distinct_card [of "map ag_id (rg_agents r)", simplified])
  moreover have "dom (agents r) = ag_id ` set (rg_agents r)" using keyed_None [of ag_id "rg_agents r"] by (auto simp: dom_def)
  ultimately show ?thesis by simp
qed

lemma journal_agents_snoc: "journal_agents (es @ [(ts, a, seq, payload)]) = insert a (journal_agents es)"
  by (simp add: journal_agents_def)

lemma last_seen_snoc: "last_seen (es @ [(ts, a, seq, payload)]) = (last_seen es)(a \<mapsto> seq)"
  by (auto simp: last_seen_def fun_eq_iff)

lemma dom_last_seen: "dom (last_seen es) = journal_agents es"
proof (induction es rule: rev_induct)
  case (snoc e es)
  then show ?case by (cases e) (simp add: last_seen_snoc journal_agents_snoc del: fun_upd_apply)
qed (simp add: last_seen_def journal_agents_def)

lemma proper_names_snoc:
  assumes "proper_names (es @ [(ts, a, seq, payload)])"
  shows "proper_names es" "a \<noteq> []" "length a < RETRACED_AGENT_ID_MAX"
    "a \<notin> journal_agents es \<Longrightarrow> card (journal_agents es) < RETRACED_REGISTRY_MAX"
proof -
  have fin: "finite (journal_agents es)" by (simp add: journal_agents_def)
  then have "card (journal_agents es) \<le> card (insert a (journal_agents es))" by (simp add: card_insert_le)
  then show "proper_names es" "a \<noteq> []" "length a < RETRACED_AGENT_ID_MAX"
    using assms by (auto simp: proper_names_def journal_agents_snoc)
  show "a \<notin> journal_agents es \<Longrightarrow> card (journal_agents es) < RETRACED_REGISTRY_MAX"
    using assms fin by (simp add: proper_names_def journal_agents_snoc)
qed

lemma replayed_agents:
  assumes "proper_names es" "list_all (sound_event strtod) es"
  shows "registry_ok (agents_seen retraced_registry_init es) \<and>
    agents (agents_seen retraced_registry_init es) = (\<lambda>a. map_option (restored a) (last_seen es a))"
  using assms
proof (induction es rule: rev_induct)
  case Nil
  then show ?case by (simp add: agents_seen_def retraced_registry_init_def registry_ok_def keyed_def last_seen_def)
next
  case (snoc e es)
  obtain ts a seq payload where e: "e = (ts, a, seq, payload)" by (cases e)
  let ?r = "agents_seen retraced_registry_init es"
  note names = proper_names_snoc [OF snoc.prems(1) [unfolded e]]
  have ok: "registry_ok ?r" and map: "agents ?r = (\<lambda>a. map_option (restored a) (last_seen es a))"
    using snoc.IH names(1) snoc.prems(2) by simp_all
  have "dom (agents ?r) = journal_agents es" by (simp add: map flip: dom_last_seen) (auto simp: dom_def)
  then have "length (rg_agents ?r) < RETRACED_REGISTRY_MAX" if "agents ?r a = None"
    using names(4) agents_count [OF ok] that by (auto simp: domIff)
  moreover have "seq < 2 ^ 53" using snoc.prems(2) by (simp add: e)
  ultimately have "registry_ok (agent_seen ?r a seq) \<and> agents (agent_seen ?r a seq) = (agents ?r)(a \<mapsto> restored a seq)"
    using agent_seen_map [OF ok names(2,3)] map by auto
  moreover have "agents_seen retraced_registry_init (es @ [e]) = agent_seen ?r a seq" by (simp add: agents_seen_def e)
  ultimately show ?case by (auto simp: e map last_seen_snoc fun_eq_iff)
qed

lemma replayed_sequence:
  assumes "proper_names es" "list_all (sound_event strtod) es"
  shows "registry_ok (agents_seen retraced_registry_init es) \<and>
    (\<forall>a. map_option ag_last_seq (agents (agents_seen retraced_registry_init es) a) = map_option of_nat (last_seen es a))"
  using replayed_agents [OF assms] by (simp add: restored_def option.map_comp comp_def)

text \<open>
  The counter the registry mints identities from is not in the journal.  So an agent of the
  new daemon without an identity may be given one the journal knows, and with it that agent's
  entry.
\<close>

lemma agent_seen_counter: "a \<noteq> [] \<Longrightarrow> rg_id_counter (agent_seen r a seq) = rg_id_counter r"
proof -
  assume "a \<noteq> []"
  moreover have "json_object_get_string (Some [(''agent'', JSONString a), (''seq'', JSONNumber (of_nat seq))]) ''agent'' = Some a"
    by (simp add: json_object_get_string_def json_object_get_value_map)
  ultimately show ?thesis
    by (auto simp: agent_seen_def replay_agent_def retraced_registry_hello_def set_agent_def Let_def split: option.splits prod.splits if_splits)
qed

lemma agents_seen_counter:
  "\<forall>a\<in>journal_agents es. a \<noteq> [] \<Longrightarrow> rg_id_counter (agents_seen r es) = rg_id_counter r"
proof (induction es arbitrary: r)
  case (Cons e es)
  then show ?case by (cases e) (simp add: agents_seen_def journal_agents_def agent_seen_counter)
qed (simp add: agents_seen_def)

lemma replayed_identity_reused:
  assumes "proper_names es" "list_all (sound_event strtod) es" "minted_id pid 1 \<in> journal_agents es"
  shows "\<exists>i r'. retraced_registry_hello (agents_seen retraced_registry_init es) None pid ppid session cmdline = (Some i, r') \<and>
    agents r' = agents (agents_seen retraced_registry_init es)"
proof -
  let ?r = "agents_seen retraced_registry_init es" and ?f = "\<lambda>e. e\<lparr>ag_state := AGENT_LIVE\<rparr>"
  have c: "rg_id_counter ?r = 0"
    using agents_seen_counter [of es retraced_registry_init] assms(1) by (simp add: proper_names_def retraced_registry_init_def)
  have ok: "registry_ok ?r" and map: "agents ?r = (\<lambda>a. map_option (restored a) (last_seen es a))"
    using replayed_agents [OF assms(1,2)] by simp_all
  obtain seq where seq: "agents ?r (minted_id pid 1) = Some (restored (minted_id pid 1) seq)"
    using assms(3) dom_last_seen [of es] map by (force simp: dom_def)
  with update_found [OF ok, of ?f "minted_id pid 1"] obtain i where
    i: "retraced_registry_find ?r (Some (minted_id pid 1)) = Some i"
      "agents (set_agent ?r i ?f) = (agents ?r)(minted_id pid 1 \<mapsto> ?f (restored (minted_id pid 1) seq))"
    by (cases "retraced_registry_find ?r (Some (minted_id pid 1))") auto
  have "agents (set_agent ?r i ?f) = agents ?r" using i(2) seq by (auto simp: restored_def fun_eq_iff)
  then show ?thesis using mint_known [of ?r pid i ppid session cmdline] i(1) c by (simp add: set_agent_def)
qed

text \<open>
  C2. The journal survives a crash.  Let a daemon open a journal that does not exist yet,
  without rotation, and write events to it, and let the file then lose some of the bytes not
  flushed yet.  The replay at the next boot succeeds: it accepts the chain, finds the first
  \<open>m\<close> events and continues the chain after them; and no event of a durable class is lost,
  nor any before it.  When nothing is lost, all events are found and the chain continues where
  the writer was.  The events are those the journal can write in one line of less than 2048
  bytes and the parser reads back, and no link of the chain is the value the replay uses for an
  error, all ones.  The registry of the new daemon then has an entry for exactly the agents
  these \<open>m\<close> events name, each with the sequence number of the last event that names it, if
  the names are proper ones and there is room for all.  Whether the agent is live is not
  part of this property: journal.h says that a BYE makes it gone, but no BYE is journaled and
  \<open>replayed_agents\<close> shows that the replay makes every agent live.
\<close>

theorem journal_survives_crash:
  assumes "exact_integers strtod" "list_all (sound_event strtod) es" "es \<noteq> []"
    and "io_open_ok io path" "io_puts_ok io" "length path < 512" "fs path = None"
    and "write_events io (retraced_journal_open path, \<lparr>jw_files = fs, jw_unflushed = 0\<rparr>) es = (j, w)"
    and "lost \<le> jw_unflushed w" "\<forall>m\<le>length es. chain_head 0 (take m es) \<noteq> -1"
  shows "\<exists>m j' r' content. jw_files w path = Some content \<and> m \<le> length es \<and>
    retraced_journal_replay strtod ((jw_files w)(path \<mapsto> take (length content - lost) content))
        (retraced_journal_open path, retraced_registry_init) = (0, j', r') \<and>
    (proper_names (take m es) \<longrightarrow> registry_ok r' \<and> (\<forall>a. map_option ag_last_seq (agents r' a) = map_option of_nat (last_seen (take m es) a))) \<and>
    j_chain_broken_at j' = -1 \<and> j_replay_events j' = m \<and> j_lines j' = m \<and> j_prev_hash j' = chain_head 0 (take m es) \<and>
    (\<forall>i\<in>{1..length es}. event_durable (es ! (i - 1)) \<longrightarrow> i \<le> m) \<and>
    (lost = 0 \<longrightarrow> m = length es \<and> j_prev_hash j' = j_prev_hash j)"
proof -
  let ?j0 = "retraced_journal_open path" and ?r = retraced_registry_init
  have j0: "j_path ?j0 = path" "j_prev_hash ?j0 = 0" "j_rotate_bytes ?j0 = 0" "j_rotate_seconds ?j0 = 0"
    using assms(6) by (simp_all add: retraced_journal_open_def)
  have "one_file io (?j0, \<lparr>jw_files = fs, jw_unflushed = 0\<rparr>)"
    using assms(4,5,6) by (simp add: one_file_def retraced_journal_open_def)
  moreover have "list_all (\<lambda>e. length (event_line 0 e) < 2048) es"
    using assms(2) by (auto simp: list_all_iff)
  ultimately obtain content where c: "jw_files w path = Some content" "content = concat (chain_lines 0 es)"
      "j_prev_hash j = chain_head 0 es" and fl: "\<And>i. i \<in> {1..length es} \<Longrightarrow> event_durable (es ! (i - 1)) \<Longrightarrow>
        jw_unflushed w \<le> length content - length (concat (chain_lines 0 (take i es)))"
    using write_all [of io ?j0 "\<lparr>jw_files = fs, jw_unflushed = 0\<rparr>" es] assms(3,7,8) j0 by (auto simp: file_text_def)
  from take_lines [of "length content - lost" "chain_lines 0 es"] obtain m b where
    mb: "take (length content - lost) content = concat (take m (chain_lines 0 es)) @ b" "m \<le> length es"
      "b \<noteq> [] \<longrightarrow> m < length es \<and> strict_prefix b (chain_lines 0 es ! m)"
      "\<And>i. i \<le> length es \<Longrightarrow> length (concat (take i (chain_lines 0 es))) \<le> length content - lost \<Longrightarrow> i \<le> m"
    unfolding c(2) chain_lines_length by blast
  define s where "s = replay_start ?j0 ?r"
  have s: "rp_prev s = 0" "rp_registry s = ?r" "rp_lineno s = 0" "\<not> rp_torn s" "\<not> rp_broken s"
    "j_replay_events (rp_journal s) = 0" "j_chain_broken_at (rp_journal s) = -1" by (simp_all add: s_def replay_start_def)
  define s' where "s' = replay_loop strtod (take (length content - lost) content) s"
  have s': "s' = (let s1 = foldl replay_one s (take m es) in if b = [] then s1 else s1\<lparr>rp_lineno := rp_lineno s1 + 1, rp_torn := True\<rparr>)"
    unfolding s'_def mb(1) chain_lines_take using replay_cut [OF assms(1,2) mb(2), of b s] mb(3) s(1) by auto
  have f: "rp_prev s' = chain_head 0 (take m es)" "rp_registry s' = agents_seen ?r (take m es)" "\<not> rp_broken s'"
    "j_replay_events (rp_journal s') = m" "j_chain_broken_at (rp_journal s') = -1" "rp_lineno s' - (if rp_torn s' then 1 else 0) = m"
    using s replay_fold [of s "take m es"] mb(2) by (auto simp: s' Let_def)
  have rp: "\<exists>j'. retraced_journal_replay strtod ((jw_files w)(path \<mapsto> take (length content - lost) content)) (?j0, ?r) =
      (0, j', agents_seen ?r (take m es)) \<and> j_prev_hash j' = chain_head 0 (take m es) \<and> j_replay_events j' = m \<and>
      j_chain_broken_at j' = -1 \<and> j_lines j' = m"
    using replay_one_file [OF j0(3,4), of "(jw_files w)(path \<mapsto> take (length content - lost) content)" _ strtod ?r s'] f mb(2) assms(10)
      j0(1) by (auto simp: s'_def s_def)
  have dur: "i \<le> m" if "i \<in> {1..length es}" "event_durable (es ! (i - 1))" for i
  proof (rule mb(4))
    have "length (concat (chain_lines 0 (take i es))) \<le> length content"
      unfolding c(2) by (metis append_take_drop_id chain_append(1) concat_append le_add1 length_append)
    then show "length (concat (take i (chain_lines 0 es))) \<le> length content - lost"
      using fl [OF that] assms(9) by (simp add: chain_lines_take)
  qed (use that in simp)
  have "m = length es" if "lost = 0" using mb(2) mb(4) [of "length es"] that c(2) by simp
  moreover have "proper_names (take m es) \<longrightarrow> registry_ok (agents_seen ?r (take m es)) \<and>
      (\<forall>a. map_option ag_last_seq (agents (agents_seen ?r (take m es)) a) = map_option of_nat (last_seen (take m es) a))"
    using replayed_sequence [of "take m es" strtod] assms(2) by (metis append_take_drop_id list_all_append)
  ultimately show ?thesis using rp c dur mb(2) by fastforce
qed

lemma exact_digits: "exact_integers digits_only"
  unfolding exact_integers_def
proof (intro allI impI)
  fix n r
  assume "delim r"
  then have "takeWhile (\<lambda>c. c \<in> set ''0123456789'') r = []" by (cases r) (auto simp: delim_def)
  moreover have "\<forall>c\<in>set (dec n). c \<in> set ''0123456789''" using dec_range digit_chars by blast
  ultimately have "takeWhile (\<lambda>c. c \<in> set ''0123456789'') (dec n @ r) = dec n"
    by (subst takeWhile_append2) simp_all
  moreover have "fold (\<lambda>c a. 10 * a + (of_char c - 48)) (dec n) 0 = n"
    using undec_dec [of n] by (simp add: undec_def foldl_conv_fold)
  ultimately show "digits_only (dec n @ r) = (Some (of_nat n), length (dec n), False)"
    by (simp add: digits_only_def Let_def dec_first)
qed

definition demo_event :: jevent where "demo_event = (1, ''daemon'', 0, [CHR 0x7B, CHR 0x7D])"

definition demo_io :: jio where "demo_io = \<lparr>io_open_ok = \<lambda>_. True, io_puts_ok = True, io_remove_ok = \<lambda>_. True\<rparr>"

lemma demo_line: "event_line 0 demo_event =
    [CHR 0x7B] @ [dq] @ ''ts'' @ [dq] @ '':1,'' @ [dq] @ ''agent'' @ [dq] @ '':'' @ [dq] @ ''daemon'' @ [dq] @ '','' @
    [dq] @ ''seq'' @ [dq] @ '':0,'' @ [dq] @ ''prev'' @ [dq] @ '':'' @ [dq] @ ''0000000000000000'' @ [dq] @ '','' @
    [dq] @ ''ev'' @ [dq] @ '':'' @ [CHR 0x7B, CHR 0x7D, CHR 0x7D, CHR 0x0A]"
proof -
  have "dec 1 = ''1''" "dec 0 = ''0''" by (simp_all add: dec.simps dec_digit_def)
  moreover have "hex16 0 = ''0000000000000000''" by (simp add: hex16_def hex_digit_def upt_rec)
  ultimately show ?thesis by (simp add: demo_event_def journal_line_def show_int_def)
qed

lemma demo_sound: "sound_event strtod demo_event"
proof -
  have "plain ''daemon''" by (simp add: plain_def escape_char_def byte_def)
  moreover have "length (event_line 0 demo_event) < 2048" unfolding demo_line by simp
  ultimately show ?thesis
    using reads_empty(2) [of 1 strtod] by (auto simp: demo_event_def MAX_NESTING_def)
qed

lemma demo_head: "chain_head 0 [demo_event] \<noteq> -1"
  unfolding chain_head.simps retraced_journal_line_hash_def demo_line
  by code_simp

lemma demo_world: "one_file demo_io (retraced_journal_open ''j'', \<lparr>jw_files = Map.empty, jw_unflushed = 0\<rparr>)"
  by (simp add: one_file_def demo_io_def retraced_journal_open_def)

lemma demo_durable: "\<not> event_durable demo_event"
  unfolding demo_event_def by code_simp

theorem journal_survives_crash_witness:
  "\<exists>m j' r' content w. snd (write_events demo_io (retraced_journal_open ''j'', \<lparr>jw_files = Map.empty, jw_unflushed = 0\<rparr>) [demo_event]) = w \<and>
    jw_files w ''j'' = Some content \<and> 3 \<le> jw_unflushed w \<and>
    retraced_journal_replay digits_only ((jw_files w)(''j'' \<mapsto> take (length content - 3) content))
        (retraced_journal_open ''j'', retraced_registry_init) =
      (0, j', r') \<and> (\<forall>a. map_option ag_last_seq (agents r' a) = map_option of_nat (last_seen (take m [demo_event]) a)) \<and> j_chain_broken_at j' = -1"
proof -
  let ?j0 = "retraced_journal_open ''j''" and ?w0 = "\<lparr>jw_files = Map.empty, jw_unflushed = 0\<rparr>"
  have len: "length (event_line (j_prev_hash ?j0) demo_event) < 2048" "3 \<le> length (event_line (j_prev_hash ?j0) demo_event)"
    unfolding event_line_length [of "j_prev_hash ?j0" demo_event 0] demo_line by simp_all
  from write_one [OF demo_world len(1)] obtain j w where
    w: "write_events demo_io (?j0, ?w0) [demo_event] = (j, w)" "jw_unflushed w = length (event_line (j_prev_hash ?j0) demo_event)"
    using demo_durable by (auto simp: write_events_def)
  have hd: "\<forall>m\<le>length [demo_event]. chain_head 0 (take m [demo_event]) \<noteq> -1"
  proof (intro allI impI)
    fix m
    assume "m \<le> length [demo_event]"
    then consider "m = 0" | "m = 1" by fastforce
    then show "chain_head 0 (take m [demo_event]) \<noteq> -1" using demo_head by cases (simp_all del: chain_head.simps(2))
  qed
  have ok: "list_all (sound_event digits_only) [demo_event]" "[demo_event] \<noteq> []" "io_open_ok demo_io ''j''" "io_puts_ok demo_io"
      "length ''j'' < 512" "(Map.empty :: files) ''j'' = None" "3 \<le> jw_unflushed w"
    using w(2) len(2) demo_sound by (simp_all add: demo_io_def)
  from journal_survives_crash [OF exact_digits ok(1-6) w(1) ok(7) hd] obtain m j' r' content where
    *: "jw_files w ''j'' = Some content"
      "retraced_journal_replay digits_only ((jw_files w)(''j'' \<mapsto> take (length content - 3) content)) (?j0, retraced_registry_init) =
        (0, j', r')" "proper_names (take m [demo_event]) \<longrightarrow>
        (\<forall>a. map_option ag_last_seq (agents r' a) = map_option of_nat (last_seen (take m [demo_event]) a))"
      "j_chain_broken_at j' = -1" by blast
  have "set (take m [demo_event]) \<subseteq> {demo_event}" using set_take_subset [of m "[demo_event]"] by simp
  then have "journal_agents (take m [demo_event]) \<subseteq> {''daemon''}" by (auto simp: journal_agents_def demo_event_def)
  then have "proper_names (take m [demo_event])"
    using card_mono [of "{''daemon''}" "journal_agents (take m [demo_event])"]
    by (auto simp: proper_names_def RETRACED_AGENT_ID_MAX_def RETRACED_REGISTRY_MAX_def)
  with * have agents: "\<forall>a. map_option ag_last_seq (agents r' a) = map_option of_nat (last_seen (take m [demo_event]) a)" by blast
  show ?thesis
    by (rule exI [of _ m], rule exI [of _ j'], rule exI [of _ r'], rule exI [of _ content], rule exI [of _ w]) (use *(1,2,4) agents w(1) ok(7) in simp)
qed

end
