(* ===== verification/Journal_Tamper.thy ===== *)
theory Journal_Tamper
  imports Journal_Chain
begin

unbundle bit_operations_syntax

section \<open>Edits of the journal\<close>

text \<open>
  The hash of a line depends on every character of it, so that a change in a line that is
  not the last one shows in the line after it.  The verification of a file finds it; the
  replay at boot does not always.
\<close>

subsection \<open>The hash\<close>

lemma fnv_prime_inverse: "(x * 0x01000193) * 0x87b58b5d359c449b = (x :: 64 word)"
proof -
  have "(0x01000193 :: 64 word) * 0x87b58b5d359c449b = 1" by code_simp
  then show ?thesis by (simp only: mult.assoc mult_1_right)
qed

lemma fnv_prime_inj: "x * 0x01000193 = y * 0x01000193 \<longleftrightarrow> x = (y :: 64 word)"
  by (metis fnv_prime_inverse)

lemma fnv1a_simps [simp]: "fnv1a [] h = h" "fnv1a (c # s) h = fnv1a s ((h XOR of_char c) * 0x01000193)"
  by (simp_all add: fnv1a_def)

lemma xor_cancel: "(h XOR x = h XOR y) = (x = (y :: 64 word))"
  by (metis bit.xor_left_self)

lemma fnv1a_seed_inj: "fnv1a s h = fnv1a s h' \<longleftrightarrow> h = h'"
proof (induction s arbitrary: h h')
  case (Cons c s)
  then show ?case using xor_cancel [of "of_char c" h h'] by (simp add: fnv_prime_inj xor.commute)
qed simp

lemma fnv1a_append: "fnv1a (s @ t) h = fnv1a t (fnv1a s h)"
  by (simp add: fnv1a_def)

lemma of_char_word_inj: "(of_char c :: 64 word) = of_char d \<longleftrightarrow> c = d"
proof -
  have val: "unat (of_char x :: 64 word) = of_char x" for x
  proof -
    have "(of_char x :: nat) < 2 ^ 64" using nat_of_char_less_256 [of x] by (rule order.strict_trans) simp
    then have "unat (of_nat (of_char x) :: 64 word) = of_char x" by (simp only: unat_of_nat) (simp add: take_bit_nat_eq_self)
    then show ?thesis by (simp only: of_nat_of_char)
  qed
  show ?thesis using val [of c] val [of d] by (metis of_char_eq_iff)
qed

lemma fnv1a_edit: "c \<noteq> d \<Longrightarrow> fnv1a (a @ c # b) h \<noteq> fnv1a (a @ d # b) h"
  by (simp add: fnv1a_append fnv1a_seed_inj fnv_prime_inj xor_cancel of_char_word_inj)

subsection \<open>Finding the link in a line\<close>

lemma strstr_skip: "dq \<notin> set a \<Longrightarrow> strstr_at (a @ s) (dq # tok) = map_option ((+) (length a)) (strstr_at s (dq # tok))"
  by (cases "strstr_at s (dq # tok)"; induction a) auto

lemma strstr_skip1: "c \<noteq> dq \<Longrightarrow> strstr_at (c # s) (dq # tok) = map_option Suc (strstr_at s (dq # tok))"
  by auto

lemma strstr_quote: "\<not> prefix tok s \<Longrightarrow> strstr_at (dq # s) (dq # tok) = map_option Suc (strstr_at s (dq # tok))"
  by simp

lemma split_at_quote: "dq \<notin> set a \<Longrightarrow> dq \<notin> set b \<Longrightarrow> a @ dq # x = b @ dq # y \<Longrightarrow> a = b \<and> x = y"
proof (induction a arbitrary: b)
  case Nil
  then show ?case by (cases b) auto
next
  case (Cons c a)
  then show ?case by (cases b) auto
qed

lemma no_key_here:
  assumes "dq \<notin> set a"
  shows "\<not> prefix (''prev'' @ [dq] @ '':'' @ [dq]) (a @ dq # CHR '','' # r)"
proof
  assume "prefix (''prev'' @ [dq] @ '':'' @ [dq]) (a @ dq # CHR '','' # r)"
  then obtain z where z: "a @ dq # CHR '','' # r = ''prev'' @ dq # '':'' @ dq # z" by (auto simp: prefix_def)
  have "dq \<notin> set ''prev''" by (simp add: dq_def)
  from split_at_quote [OF assms this z] have "CHR '','' # r = '':'' @ dq # z" by blast
  then show False by simp
qed

lemma strstr_here: "strstr_at (dq # tok @ s) (dq # tok) = Some 0"
  by simp

lemma dq_distinct: "CHR 0x7B \<noteq> dq" "CHR ''t'' \<noteq> dq" "CHR ''s'' \<noteq> dq" "CHR '':'' \<noteq> dq" "CHR '','' \<noteq> dq"
  "CHR ''a'' \<noteq> dq" "CHR ''g'' \<noteq> dq" "CHR ''e'' \<noteq> dq" "CHR ''n'' \<noteq> dq" "CHR ''q'' \<noteq> dq"
  by (simp_all add: dq_def)

lemma dec_no_quote: "dq \<notin> set (dec n)"
  by (rule dec_excludes) (simp add: dq_def)

lemma link_found:
  assumes "plain agent"
  shows "\<exists>k post. strstr_at (event_line prev (ts, agent, seq, payload)) PREV_KEY = Some k \<and>
    drop (k + 8) (event_line prev (ts, agent, seq, payload)) = hex16 prev @ post"
proof -
  define post where "post = dq # '','' @ [dq] @ ''ev'' @ [dq] @ '':'' @ payload @ [CHR 0x7D, CHR 0x0A]"
  define tok where "tok = ''prev'' @ [dq] @ '':'' @ [dq]"
  have key: "PREV_KEY = dq # tok" by (simp add: PREV_KEY_def tok_def)
  define r where "r = dq # tok @ hex16 prev @ post"
  define q1 where "q1 = dq # ''seq'' @ [dq] @ '':'' @ dec seq @ '','' @ r"
  define q2 where "q2 = dq # ''agent'' @ [dq] @ '':'' @ [dq] @ agent @ [dq] @ '','' @ q1"
  have line: "event_line prev (ts, agent, seq, payload) = CHR 0x7B # dq # ''ts'' @ [dq] @ '':'' @ dec ts @ '','' @ q2"
    by (simp add: journal_line_def show_int_def q2_def q1_def r_def tok_def post_def)
  have no: "\<not> prefix tok (c # s)" if "c \<noteq> CHR ''p''" for c s using that by (simp add: tok_def)
  have r0: "strstr_at r (dq # tok) = Some 0" unfolding r_def by (rule strstr_here)
  note skips = strstr_quote strstr_skip1 strstr_skip dec_no_quote dq_distinct no
  have r1: "strstr_at q1 (dq # tok) = Some (length q1 - length r)"
    using r0 by (simp add: q1_def skips del: strstr_at.simps)
  have "\<not> prefix tok (agent @ dq # CHR '','' # q1)"
    using no_key_here [OF plain_no_quote(1) [OF assms], of q1] by (simp add: tok_def)
  then have r2: "strstr_at q2 (dq # tok) = Some (length q2 - length r)"
    using r1 plain_no_quote(1) [OF assms] q1_def by (simp add: q2_def skips del: strstr_at.simps)
  let ?l = "event_line prev (ts, agent, seq, payload)"
  have "strstr_at ?l (dq # tok) = Some (length ?l - length r)"
    unfolding line using r2 q2_def q1_def by (simp add: skips del: strstr_at.simps)
  moreover define pre where "pre = CHR 0x7B # dq # ''ts'' @ [dq] @ '':'' @ dec ts @ '','' @ [dq] @ ''agent'' @ [dq] @ '':'' @
      [dq] @ agent @ [dq] @ '','' @ [dq] @ ''seq'' @ [dq] @ '':'' @ dec seq @ '',''"
  then have pre: "?l = pre @ r" unfolding line q2_def q1_def by simp
  moreover have "drop (length pre + 8) (pre @ r) = hex16 prev @ post" by (simp add: r_def tok_def)
  ultimately show ?thesis unfolding key pre by simp
qed

subsection \<open>Verifying a file\<close>

lemma stored_link:
  assumes "sound_event strtod e"
  shows "\<exists>k. strstr_at (event_line prev e) PREV_KEY = Some k \<and>
    strtoull16 (take 16 (snprintf_s 32 (drop (k + 8) (event_line prev e)))) = prev"
proof -
  obtain ts agent seq payload where e: "e = (ts, agent, seq, payload)" by (cases e)
  with link_found [of agent prev ts seq payload] assms obtain k post where
    k: "strstr_at (event_line prev e) PREV_KEY = Some k" "drop (k + 8) (event_line prev e) = hex16 prev @ post" by auto
  then have "take 16 (snprintf_s 32 (drop (k + 8) (event_line prev e))) = hex16 prev" by (simp add: snprintf_s_def)
  then show ?thesis using k(1) hex16_read by auto
qed

lemma chain_step:
  assumes "sound_event strtod e"
  shows "chain_loop (event_line prev e @ rest) 0 cur n =
    (if cur = prev then chain_loop rest 0 (retraced_journal_line_hash (event_line prev e) prev) (n + 1) else (cur, n + 1, n + 1))"
  using stored_link [OF assms, of prev] fgets_line(1) [OF event_line_sole [OF assms, of prev], of rest]
  by (subst chain_loop.simps) (auto simp: retraced_journal_line_hash_def Let_def)

lemma chain_lines_verify:
  "list_all (sound_event strtod) es \<Longrightarrow>
   chain_loop (concat (chain_lines prev es) @ rest) 0 prev n = chain_loop rest 0 (chain_head prev es) (n + length es)"
proof (induction es arbitrary: prev n)
  case (Cons e es)
  then have "sound_event strtod e" by simp
  from chain_step [OF this, of prev _ prev n] show ?case using Cons by simp
qed simp

lemma chain_end: "chain_loop [] 0 prev n = (prev, n, 0)"
  by (subst chain_loop.simps) (simp add: fgets_def)

text \<open>A line that is not the one written: it is found out at once, or passes on another hash.\<close>

lemma chain_foreign:
  assumes "sole_line l"
  shows "chain_loop (l @ rest) 0 prev n = (prev, n + 1, n + 1) \<or>
    chain_loop (l @ rest) 0 prev n = chain_loop rest 0 (retraced_journal_line_hash l prev) (n + 1)"
  using fgets_line(1) [OF assms, of rest]
  by (subst (1 2) chain_loop.simps) (auto simp: retraced_journal_line_hash_def Let_def split: option.split)

lemma edited_sole:
  assumes "sole_line (a @ c # b)" "b \<noteq> []" "d \<noteq> CHR 0x0A" "d \<noteq> nul"
  shows "sole_line (a @ d # b)"
proof -
  obtain l where l: "a @ c # b = l @ [CHR 0x0A]" "CHR 0x0A \<notin> set l" "nul \<notin> set l" "length (a @ c # b) < 2048"
    using assms(1) unfolding sole_line_def by blast
  obtain b' where b: "b = b' @ [CHR 0x0A]" "l = a @ c # b'"
    using l(1) assms(2) by (cases b rule: rev_cases) auto
  then have "a @ d # b = (a @ d # b') @ [CHR 0x0A]" "CHR 0x0A \<notin> set (a @ d # b')" "nul \<notin> set (a @ d # b')"
    using l(2,3) assms(3,4) by auto
  then show ?thesis using l(4) unfolding sole_line_def by (metis length_append length_Cons)
qed

lemma split_two: "i + 1 < length es \<Longrightarrow> \<exists>es1 e e2 es3. es = es1 @ e # e2 # es3 \<and> length es1 = i"
  by (rule exI [of _ "take i es"], rule exI [of _ "es ! i"], rule exI [of _ "es ! (i + 1)"], rule exI [of _ "drop (i + 2) es"])
    (simp add: Cons_nth_drop_Suc flip: id_take_nth_drop)

lemma chain_edit:
  assumes "list_all (sound_event strtod) (es1 @ e # e2 # es3)" "i = length es1"
    and "event_line (chain_head 0 es1) e = a @ c # b" "b \<noteq> []" "d \<noteq> c" "d \<noteq> CHR 0x0A" "d \<noteq> nul"
  shows "\<exists>head. chain_loop (concat ((chain_lines 0 (es1 @ e # e2 # es3))[i := a @ d # b])) 0 0 0 \<in>
    {(head, i + 1, i + 1), (head, i + 2, i + 2)}"
proof -
  define h where "h = chain_head 0 es1"
  define l where "l = event_line h e"
  have l: "l = a @ c # b" using assms(3) by (simp add: l_def h_def)
  have sound: "list_all (sound_event strtod) es1" "sound_event strtod e" "sound_event strtod e2" using assms(1) by simp_all
  define rest where "rest = event_line (retraced_journal_line_hash l h) e2 @
      concat (chain_lines (retraced_journal_line_hash (event_line (retraced_journal_line_hash l h) e2) (retraced_journal_line_hash l h)) es3)"
  have cat: "concat ((chain_lines 0 (es1 @ e # e2 # es3))[i := a @ d # b]) = concat (chain_lines 0 es1) @ (a @ d # b) @ rest"
    using assms(2) by (simp add: list_update_append rest_def chain_append h_def l_def)
  have "sole_line (a @ d # b)"
    using edited_sole [of a c b d] event_line_sole [OF sound(2), of h] l assms(4,6,7) by (simp add: l_def)
  then have "chain_loop ((a @ d # b) @ rest) 0 h i = (h, i + 1, i + 1) \<or>
      chain_loop ((a @ d # b) @ rest) 0 h i = chain_loop rest 0 (retraced_journal_line_hash (a @ d # b) h) (i + 1)"
    by (rule chain_foreign)
  moreover have "retraced_journal_line_hash (a @ d # b) h \<noteq> retraced_journal_line_hash l h"
    unfolding l retraced_journal_line_hash_def by (rule fnv1a_edit) (use assms(5) in simp)
  then have "chain_loop rest 0 (retraced_journal_line_hash (a @ d # b) h) (i + 1) =
      (retraced_journal_line_hash (a @ d # b) h, i + 2, i + 2)"
    unfolding rest_def chain_step [OF sound(3)] by simp
  moreover have "chain_loop (concat (chain_lines 0 es1) @ (a @ d # b) @ rest) 0 0 0 = chain_loop ((a @ d # b) @ rest) 0 h i"
    using chain_lines_verify [OF sound(1), of 0 "(a @ d # b) @ rest" 0] assms(2) by (simp add: h_def)
  ultimately show ?thesis unfolding cat by auto
qed

text \<open>
  C10. The verification of a journal file accepts what the daemon wrote, with the writer's
  head and the number of lines, and refuses it after an edit: when one character of a line
  that is not the last is replaced by another (not by a line end), the chain is reported
  broken at that line or at the next.
\<close>

theorem journal_tamper_evident:
  assumes "list_all (sound_event strtod) es"
  shows "(fs path = Some (concat (chain_lines 0 es)) \<longrightarrow>
      retraced_journal_chain_file fs path 0 = (0, chain_head 0 es, length es, 0)) \<and>
    (\<forall>i a b c d. i + 1 < length es \<and> chain_lines 0 es ! i = a @ c # b \<and> b \<noteq> [] \<and> d \<noteq> c \<and> d \<noteq> CHR 0x0A \<and> d \<noteq> nul \<and>
      fs path = Some (concat ((chain_lines 0 es)[i := a @ d # b])) \<longrightarrow>
      (\<exists>head lines broken. retraced_journal_chain_file fs path 0 = (-1, head, lines, broken) \<and> broken \<in> {i + 1, i + 2}))"
proof (intro conjI allI impI)
  assume "fs path = Some (concat (chain_lines 0 es))"
  then show "retraced_journal_chain_file fs path 0 = (0, chain_head 0 es, length es, 0)"
    using chain_lines_verify [OF assms, of 0 "[]" 0]
    by (simp add: retraced_journal_chain_file_def retraced_journal_chain_file_from_def chain_end)
next
  fix i a b c d
  assume *: "i + 1 < length es \<and> chain_lines 0 es ! i = a @ c # b \<and> b \<noteq> [] \<and> d \<noteq> c \<and> d \<noteq> CHR 0x0A \<and> d \<noteq> nul \<and>
      fs path = Some (concat ((chain_lines 0 es)[i := a @ d # b]))"
  then obtain es1 e e2 es3 where es: "es = es1 @ e # e2 # es3" "i = length es1" using split_two [of i es] by blast
  then have "event_line (chain_head 0 es1) e = a @ c # b" using * by (simp add: chain_append nth_append)
  with chain_edit [of strtod es1 e e2 es3 i a c b d] assms es *
  have "\<exists>head. chain_loop (concat ((chain_lines 0 es)[i := a @ d # b])) 0 0 0 \<in> {(head, i + 1, i + 1), (head, i + 2, i + 2)}" by simp
  then show "\<exists>head lines broken. retraced_journal_chain_file fs path 0 = (-1, head, lines, broken) \<and> broken \<in> {i + 1, i + 2}"
    using * by (auto simp: retraced_journal_chain_file_def retraced_journal_chain_file_from_def)
qed

theorem journal_tamper_evident_witness:
  "retraced_journal_chain_file [''j'' \<mapsto> concat (chain_lines 0 [demo_event, demo_event])] ''j'' 0 =
     (0, chain_head 0 [demo_event, demo_event], 2, 0) \<and>
   (\<exists>head lines broken. retraced_journal_chain_file
     [''j'' \<mapsto> concat ((chain_lines 0 [demo_event, demo_event])[0 := CHR ''X'' # tl (event_line 0 demo_event)])] ''j'' 0 =
       (-1, head, lines, broken) \<and> broken \<in> {1, 2})"
proof -
  have sound: "list_all (sound_event digits_only) [demo_event, demo_event]" using demo_sound by simp
  have line: "event_line 0 demo_event = [] @ CHR 0x7B # tl (event_line 0 demo_event)" "tl (event_line 0 demo_event) \<noteq> []"
    unfolding demo_line by simp_all
  show ?thesis
    using journal_tamper_evident [OF sound, of "[''j'' \<mapsto> concat (chain_lines 0 [demo_event, demo_event])]" "''j''"]
      journal_tamper_evident [OF sound, THEN conjunct2, rule_format,
        of 0 "[]" "CHR 0x7B" "tl (event_line 0 demo_event)" "CHR ''X''"
          "[''j'' \<mapsto> concat ((chain_lines 0 [demo_event, demo_event])[0 := CHR ''X'' # tl (event_line 0 demo_event)])]" "''j''"] line
    by (simp add: numeral_2_eq_2)
qed

subsection \<open>Where the replay looks away\<close>

text \<open>
  A line that is complete but not JSON ends the replay as if the file ended there: the
  boot succeeds, whatever follows is ignored, and the chain goes on from the line before.
  This is what becomes of a line cut short by a crash once the daemon has appended to it.
\<close>

lemma replay_stops_at_noise:
  assumes "exact_integers strtod" "list_all (sound_event strtod) es" "sole_line l"
    and "\<And>v rest. json_parse_string strtod (Some l) \<noteq> Good v rest"
  shows "\<exists>c. replay_loop strtod (concat (chain_lines (rp_prev s) es) @ l @ more_lines) s =
    (let s1 = foldl replay_one s es in
     s1\<lparr>rp_lineno := rp_lineno s1 + 1, rp_journal := (rp_journal s1)\<lparr>j_clean_close := c\<rparr>, rp_torn := True\<rparr>)"
proof -
  have "replay_loop strtod (l @ more_lines) s1 =
      s1\<lparr>rp_lineno := rp_lineno s1 + 1, rp_journal := (rp_journal s1)\<lparr>j_clean_close := (strstr_at l CLOSED_MARK \<noteq> None)\<rparr>, rp_torn := True\<rparr>" for s1
    using fgets_line(1) [OF assms(3), of more_lines] fgets_line(2) [OF assms(3)] assms(4)
    by (subst replay_loop.simps) (auto simp: Let_def split: parsed.split)
  then show ?thesis using replay_lines [OF assms(1,2), of s "l @ more_lines"] by (auto simp: Let_def)
qed

lemma noise_accepted:
  assumes "exact_integers strtod" "list_all (sound_event strtod) es" "sole_line l"
    and "\<And>v rest. json_parse_string strtod (Some l) \<noteq> Good v rest"
    and "fs (j_path j) = Some (concat (chain_lines 0 es) @ l @ more_lines)" "j_rotate_bytes j = 0" "j_rotate_seconds j = 0"
    and "chain_head 0 es \<noteq> -1"
  shows "\<exists>j'. retraced_journal_replay strtod fs (j, r) = (0, j', agents_seen r es) \<and> j_chain_broken_at j' = -1 \<and>
    j_prev_hash j' = chain_head 0 es \<and> j_lines j' = length es"
proof -
  define s where "s = replay_start j r"
  have s: "rp_prev s = 0" "rp_registry s = r" "rp_lineno s = 0" "\<not> rp_broken s" "j_chain_broken_at (rp_journal s) = -1"
    by (simp_all add: s_def replay_start_def)
  obtain s' where s': "replay_loop strtod (concat (chain_lines 0 es) @ l @ more_lines) s = s'"
      "rp_prev s' = chain_head 0 es" "rp_registry s' = agents_seen r es" "\<not> rp_broken s'" "rp_torn s'" "rp_lineno s' = length es + 1"
      "j_chain_broken_at (rp_journal s') = -1"
    using replay_stops_at_noise [OF assms(1-4), of s more_lines] s replay_fold [of s es] by (auto simp: Let_def)
  then show ?thesis
    using replay_one_file [of j fs _ strtod r s', OF assms(6,7,5)] assms(8) by (auto simp: s_def)
qed

text \<open>
  A rotated series whose oldest segments were pruned is not accepted at boot: the replay
  expects a chain that starts at zero, and the oldest segment left carries the hash of the
  one removed.
\<close>

lemma pruned_series_refused:
  assumes "j_rotate_bytes j \<noteq> 0 \<or> j_rotate_seconds j \<noteq> 0"
    and "retraced_journal_segment_lo fs (j_base j) (j_segment_seq j) = int lo" "lo \<le> j_segment_seq j"
    and "fs (retraced_journal_segment_path (j_base j) lo 600) = Some (event_line prev e @ rest)"
    and "exact_integers strtod" "sound_event strtod e" "prev \<noteq> 0"
  shows "\<exists>j' r'. retraced_journal_replay strtod fs (j, r) = (-1, j', r') \<and> j_chain_broken_at j' = 1"
proof -
  obtain ts agent seq payload where e: "e = (ts, agent, seq, payload)" by (cases e)
  then obtain v where v: "reads_value strtod 1 v payload" using assms(6) by auto
  note fg = fgets_line [OF event_line_sole [OF assms(6), of prev]]
  have parse: "json_parse_string strtod (Some (event_line prev e)) = Good (JSONObject (line_object ts agent seq prev v)) [CHR 0x0A]"
    using line_reads [OF assms(5) _ _ _ v] assms(6) by (simp add: e)
  define j1 where "j1 = j\<lparr>j_replay_ok := 0, j_replay_events := 0, j_chain_broken_at := -1, j_clean_close := False\<rparr>"
  have "\<exists>j'. journal_replay_file strtod fs (j1, r) (retraced_journal_segment_path (j_base j) lo 600) 0 b = (-1, j', r) \<and>
      j_chain_broken_at j' = 1" for b
    using assms(4,7) fg(2) parse
    by (simp add: journal_replay_file_def replay_loop.simps fg(1) [of rest] line_object_fields hex16_read Let_def)
  then obtain j' where j': "journal_replay_file strtod fs (j1, r) (retraced_journal_segment_path (j_base j) lo 600) 0 (lo = j_segment_seq j) =
      (-1, j', r)" "j_chain_broken_at j' = 1" by blast
  then have "replay_series strtod fs (lo # seqs) 0 (j1, r) = (-1, j', r)" for seqs by (simp add: j1_def)
  moreover have "[lo..<j_segment_seq j + 1] = lo # [Suc lo..<j_segment_seq j + 1]" by (rule upt_conv_Cons) (use assms(3) in simp)
  ultimately have "retraced_journal_replay strtod fs (j, r) = (-1, j', r)"
    using assms(1,2) by (simp add: retraced_journal_replay_def Let_def j1_def [symmetric] del: upt.simps replay_series.simps)
  then show ?thesis using j'(2) by blast
qed

end
