(* ===== verification/Last_Ring.thy ===== *)
theory Last_Ring
  imports Retrace_Prelude
begin

section \<open>Rings that keep the last entries\<close>

text \<open>
  An array that is filled in a circle, each new entry overwriting the oldest: after any
  number of entries it holds the last ones.  \<open>z\<close> is what the slots held at first.
\<close>

definition ring_last :: "nat \<Rightarrow> 'a list \<Rightarrow> 'a \<Rightarrow> 'a list \<Rightarrow> nat \<Rightarrow> bool" where
  "ring_last n xs z ring i \<longleftrightarrow> length ring = n \<and> i = length xs mod n \<and>
     (\<forall>k<length xs. length xs - n \<le> k \<longrightarrow> ring ! (k mod n) = xs ! k) \<and> (\<forall>k<n. length xs \<le> k \<longrightarrow> ring ! k = z)"

lemma ring_last_empty: "ring_last n [] z (replicate n z) 0"
  by (simp add: ring_last_def)

lemma ring_last_put:
  assumes "0 < n" "ring_last n xs z ring i"
  shows "ring_last n (xs @ [x]) z (ring[i := x]) ((i + 1) mod n)"
proof -
  have h: "length ring = n" "i = length xs mod n" "\<And>k. k < n \<Longrightarrow> length xs \<le> k \<Longrightarrow> ring ! k = z"
    "\<And>k. k < length xs \<Longrightarrow> length xs - n \<le> k \<Longrightarrow> ring ! (k mod n) = xs ! k"
    using assms(2) by (auto simp: ring_last_def)
  have "ring[i := x] ! (k mod n) = (xs @ [x]) ! k" if k: "k < length (xs @ [x])" "length (xs @ [x]) - n \<le> k" for k
  proof (cases "k = length xs")
    case True
    then show ?thesis using h(1,2) assms(1) by simp
  next
    case False
    then have kl: "k < length xs" "length xs - k < n" using k by auto
    have "k mod n \<noteq> length xs mod n"
    proof
      assume "k mod n = length xs mod n"
      then have "(k + 0) mod n = (k + (length xs - k)) mod n" using kl by simp
      then show False using mod_add_inj [of 0 n "length xs - k" k] assms(1) kl by simp
    qed
    then show ?thesis using h kl by (simp add: nth_append)
  qed
  moreover have "ring[i := x] ! k = z" if "k < n" "length (xs @ [x]) \<le> k" for k
    using that h(1-3) by simp
  ultimately show ?thesis using h(1,2) by (simp add: ring_last_def mod_Suc_eq)
qed

lemma ring_last_nth:
  assumes "0 < n" "ring_last n xs z ring i" "k < min (length xs) n"
  shows "ring ! (if length xs < n then k else (i + k) mod n) = drop (length xs - n) xs ! k"
proof -
  have h: "i = length xs mod n" "\<And>k. k < length xs \<Longrightarrow> length xs - n \<le> k \<Longrightarrow> ring ! (k mod n) = xs ! k"
    using assms(2) by (auto simp: ring_last_def)
  show ?thesis
  proof (cases "length xs < n")
    case True
    then show ?thesis using h(2) [of k] assms(3) by simp
  next
    case False
    define j where "j = length xs - n + k"
    have "length xs + k = j + n" using False by (simp add: j_def)
    then have "(i + k) mod n = j mod n" using h(1) by (metis mod_add_left_eq mod_add_self2)
    then show ?thesis using False h(2) [of j] assms(3) by (simp add: j_def)
  qed
qed

text \<open>A search through the slots is a search through the last entries.\<close>

lemma ring_last_search:
  assumes "0 < n" "ring_last n xs z ring i" "\<not> P z"
  shows "(\<exists>c\<in>set ring. P c) \<longleftrightarrow> (\<exists>c\<in>set (drop (length xs - n) xs). P c)"
proof
  assume "\<exists>c\<in>set ring. P c"
  then obtain k where k: "k < n" "P (ring ! k)" using assms(2) by (auto simp: ring_last_def in_set_conv_nth)
  show "\<exists>c\<in>set (drop (length xs - n) xs). P c"
  proof (cases "length xs < n")
    case True
    then have "k < length xs" "ring ! k = xs ! k"
      using k assms(2,3) by (auto simp: ring_last_def)
    then show ?thesis using True k(2) by (auto intro: bexI [of _ "xs ! k"])
  next
    case False
    define m where "m = (k + n - i) mod n"
    have i: "i < n" using assms(1,2) by (simp add: ring_last_def)
    have "m < n" "(i + m) mod n = k"
      using assms(1) i k(1) by (auto simp: m_def mod_simps)
    moreover from this have "ring ! k = drop (length xs - n) xs ! m"
      using ring_last_nth [OF assms(1,2), of m] False by simp
    ultimately show ?thesis using k(2) False by (auto simp: in_set_conv_nth intro!: bexI [of _ "ring ! k"] exI [of _ m])
  qed
next
  assume "\<exists>c\<in>set (drop (length xs - n) xs). P c"
  then obtain k where k: "k < length xs" "length xs - n \<le> k" "P (xs ! k)"
    by (auto simp: in_set_conv_nth) (metis add.commute le_add2 less_diff_conv nth_drop less_imp_le)
  moreover have "ring ! (k mod n) = xs ! k" "k mod n < length ring" using k(1,2) assms(1,2) by (auto simp: ring_last_def)
  ultimately show "\<exists>c\<in>set ring. P c" by (metis nth_mem)
qed

end
