(* ===== verification/Journal_Tail.thy ===== *)
theory Journal_Tail
  imports Journal_Chain Last_Ring
begin

unbundle bit_operations_syntax

section \<open>The last lines of the journal\<close>

text \<open>
  The tail keeps its lines in a ring that is overwritten as the file is read; what comes out
  is the end of the list of lines.
\<close>

definition ring_holds :: "nat \<Rightarrow> cstr list \<Rightarrow> tail_ring \<Rightarrow> bool" where
  "ring_holds n ls rg \<longleftrightarrow> (case rg of (ring, ring_i, kept) \<Rightarrow>
     ring_last n (map Some ls) None ring ring_i \<and> kept = min (length ls) n)"

lemma ring_holds_add:
  assumes "0 < n" "ring_holds n ls rg"
  shows "ring_holds n (ls @ [l]) (ring_add n l rg)"
  using assms ring_last_put [OF assms(1), of "map Some ls" None _ _ "Some l"]
  by (cases rg) (auto simp: ring_holds_def ring_add_def)

lemma ring_holds_out:
  assumes "0 < n" "ring_holds n ls rg"
  shows "ring_out n rg = drop (length ls - n) ls"
proof -
  obtain ring ring_i kept where rg: "rg = (ring, ring_i, kept)" by (cases rg)
  have h: "ring_last n (map Some ls) None ring ring_i" "kept = min (length ls) n"
    using assms(2) by (auto simp: ring_holds_def rg)
  define d where "d = drop (length ls - n) ls"
  have "ring ! (if kept < n then i else (ring_i + i) mod n) = Some (d ! i)" if "i < kept" for i
    using ring_last_nth [OF assms(1) h(1), of i] that h(2) by (simp add: d_def drop_map split: if_splits)
  then have "concat (map (\<lambda>i. case ring ! (if kept < n then i else (ring_i + i) mod n) of None \<Rightarrow> [] | Some l \<Rightarrow> [l]) [0..<kept]) =
      concat (map (\<lambda>i. [d ! i]) [0..<kept])"
    by (intro arg_cong [where f = concat] map_cong) simp_all
  moreover have "kept = length d" using h(2) by (simp add: d_def)
  then have "map (nth d) [0..<kept] = d" by (simp only: map_nth)
  ultimately show ?thesis by (simp add: ring_out_def rg Let_def d_def [symmetric])
qed

lemma tail_lines:
  assumes "exact_integers strtod" "0 < n"
  shows "list_all (sound_event strtod) es \<Longrightarrow> ring_holds n ls rg \<Longrightarrow>
    \<exists>rg'. tail_loop strtod n (concat (chain_lines prev es)) prev k rg = Some (rg', 0) \<and> ring_holds n (ls @ chain_lines prev es) rg'"
proof (induction es arbitrary: prev k ls rg)
  case Nil
  then show ?case by (subst tail_loop.simps) (simp add: fgets_def)
next
  case (Cons e es)
  obtain ts agent seq payload where e: "e = (ts, agent, seq, payload)" by (cases e)
  then obtain v where v: "reads_value strtod 1 v payload" using Cons.prems by auto
  have sound: "sound_event strtod e" using Cons.prems by simp
  let ?line = "event_line prev e"
  let ?rest = "concat (chain_lines (retraced_journal_line_hash ?line prev) es)"
  have "json_parse_string strtod (Some ?line) = Good (JSONObject (line_object ts agent seq prev v)) [CHR 0x0A]"
    using line_reads [OF assms(1) _ _ _ v] sound by (simp add: e)
  then have "tail_loop strtod n (?line @ ?rest) prev k rg =
      tail_loop strtod n ?rest (retraced_journal_line_hash ?line prev) (k + 1) (ring_add n ?line rg)"
    using fgets_line [OF event_line_sole [OF sound, of prev]]
    by (subst tail_loop.simps) (simp add: line_object_fields hex16_read retraced_journal_line_hash_def)
  moreover have "ring_holds n (ls @ [?line]) (ring_add n ?line rg)" by (rule ring_holds_add [OF assms(2) Cons.prems(2)])
  ultimately show ?case using Cons.IH [of "ls @ [?line]" "ring_add n ?line rg"] Cons.prems(1) by simp
qed

text \<open>
  C23. The tail is the end of the journal.  Asked for the last \<open>n\<close> records of a journal the
  daemon wrote (the last one, when \<open>n\<close> is zero), the reader gives the sink exactly the last
  \<open>n\<close> lines in their order, returns how many there were, and reports the chain unbroken.
\<close>

theorem journal_tail_last:
  assumes "exact_integers strtod" "list_all (sound_event strtod) es" "fs (j_path j) = Some (concat (chain_lines 0 es))"
  shows "retraced_journal_tail strtod fs True j n =
    (let k = min (length es) (max 1 n) in Some (int k, drop (length es - k) (chain_lines 0 es), 0))"
proof -
  define m where "m = (if n = 0 then 1 else n)"
  have m: "0 < m" "m = max 1 n" by (auto simp: m_def)
  have "ring_holds m [] (replicate m None, 0, 0)" by (simp add: ring_holds_def ring_last_empty)
  from tail_lines [OF assms(1) m(1) assms(2) this, of 0 0] obtain rg where
    rg: "tail_loop strtod m (concat (chain_lines 0 es)) 0 0 (replicate m None, 0, 0) = Some (rg, 0)" "ring_holds m (chain_lines 0 es) rg"
    by auto
  have "snd (snd rg) = min (length es) m" using rg(2) by (cases rg) (simp add: ring_holds_def)
  moreover have "ring_out m rg = drop (length es - m) (chain_lines 0 es)" using ring_holds_out [OF m(1) rg(2)] by simp
  moreover have "length es - min (length es) m = length es - m" "max (Suc 0) n = m" using m(2) by simp_all
  ultimately show ?thesis using assms(3) rg(1) by (simp add: retraced_journal_tail_def m_def [symmetric] Let_def)
qed

theorem journal_tail_last_witness:
  "retraced_journal_tail digits_only [''j'' \<mapsto> concat (chain_lines 0 [demo_event, demo_event])] True (retraced_journal_open ''j'') 1 =
     Some (1, [event_line (retraced_journal_line_hash (event_line 0 demo_event) 0) demo_event], 0)"
  using journal_tail_last [OF exact_digits, of "[demo_event, demo_event]"
      "[''j'' \<mapsto> concat (chain_lines 0 [demo_event, demo_event])]" "retraced_journal_open ''j''" 1] demo_sound
  by (simp add: retraced_journal_open_def)

end
