(* ===== verification/Journal_Retain.thy ===== *)
theory Journal_Retain
  imports Journal
begin

section \<open>Retention of closed segments\<close>

text \<open>
  The retention loop of \<open>journal_retain\<close> ends: each turn removes a closed segment, so one
  turn more than there are closed segments is enough, and more turns change nothing.  When
  files can be removed, what is left fits the budget.
\<close>

definition closed_segments :: "retraced_journal \<times> jworld \<Rightarrow> nat set" where
  "closed_segments jw = (case jw of (j, w) \<Rightarrow>
     {k. k < j_segment_seq j \<and> jw_files w (retraced_journal_segment_path (j_base j) k 600) \<noteq> None})"

text \<open>The live segment has a path of its own.\<close>

definition live_apart :: "retraced_journal \<Rightarrow> bool" where
  "live_apart j \<longleftrightarrow> (\<forall>k<j_segment_seq j. retraced_journal_segment_path (j_base j) k 600 \<noteq> j_path j)"

definition within_budget :: "retraced_journal \<times> jworld \<Rightarrow> bool" where
  "within_budget jw = (case jw of (j, w) \<Rightarrow>
     let lo = retraced_journal_segment_lo (jw_files w) (j_base j) (j_segment_seq j) in
     lo < 0 \<or> lo \<ge> int (j_segment_seq j) \<or> segment_bytes (jw_files w) (j_base j) [nat lo..<j_segment_seq j] \<le> j_budget_bytes j)"

lemma closed_finite [simp]: "finite (closed_segments jw)"
  by (auto simp: closed_segments_def split: prod.split)

lemma closed_bound: "card (closed_segments (j, w)) \<le> j_segment_seq j"
proof -
  have "card (closed_segments (j, w)) \<le> card {..<j_segment_seq j}"
    by (rule card_mono) (auto simp: closed_segments_def)
  then show ?thesis by simp
qed

lemma first_segment_found:
  "0 \<le> first_segment fs base ks \<Longrightarrow>
   \<exists>k\<in>set ks. first_segment fs base ks = int k \<and> fs (retraced_journal_segment_path base k 600) \<noteq> None"
  by (induction ks) (auto simp: retraced_journal_segment_exists_def split: if_splits)

lemma append_keeps:
  assumes "journal_append io (j, w) ts agent seq payload = (rc, j', w')"
  shows "j_base j' = j_base j" "j_path j' = j_path j" "j_segment_seq j' = j_segment_seq j" "j_budget_bytes j' = j_budget_bytes j"
    "q \<noteq> j_path j \<Longrightarrow> jw_files w' q = jw_files w q"
  using assms by (auto simp: journal_append_def journal_writer_def Let_def split: if_splits)

text \<open>A turn that goes on leaves fewer closed segments, and the live one apart.\<close>

lemma retain_turn:
  assumes "live_apart j" "lo = retraced_journal_segment_lo (jw_files w) (j_base j) (j_segment_seq j)" "0 \<le> lo" "lo < int (j_segment_seq j)"
    and "p = retraced_journal_segment_path (j_base j) (nat lo) 600"
    and "journal_append io (j, w\<lparr>jw_files := (jw_files w)(p := None)\<rparr>) ts agent seq payload = (rc, j', w')"
  shows "live_apart j' \<and> card (closed_segments (j', w')) < card (closed_segments (j, w))"
proof -
  have lo: "jw_files w p \<noteq> None"
    using first_segment_found [of "jw_files w" "j_base j" "[0..<j_segment_seq j + 1]"] assms(2,3,5)
    by (auto simp: retraced_journal_segment_lo_def)
  note k = append_keeps [OF assms(6)]
  have "closed_segments (j', w') \<subset> closed_segments (j, w)"
  proof
    show "closed_segments (j', w') \<subseteq> closed_segments (j, w)"
      using assms(1) k by (auto simp: closed_segments_def live_apart_def split: if_splits)
    have "nat lo \<in> closed_segments (j, w)" using lo assms(3-5) by (auto simp: closed_segments_def)
    moreover have "nat lo \<notin> closed_segments (j', w')"
      using k assms(1,3-5) by (auto simp: closed_segments_def live_apart_def)
    ultimately show "closed_segments (j', w') \<noteq> closed_segments (j, w)" by blast
  qed
  then show ?thesis using assms(1) k by (simp add: live_apart_def psubset_card_mono)
qed

lemma retain_cases:
  assumes "live_apart j"
  shows "(\<forall>f. retain_loop io (Suc f) (j, w) ts = (j, w)) \<and> ((\<forall>p. io_remove_ok io p) \<longrightarrow> within_budget (j, w)) \<or>
    (\<exists>j' w'. live_apart j' \<and> card (closed_segments (j', w')) < card (closed_segments (j, w)) \<and>
      (\<forall>f. retain_loop io (Suc f) (j, w) ts = retain_loop io f (j', w') ts))"
proof -
  define lo where "lo = retraced_journal_segment_lo (jw_files w) (j_base j) (j_segment_seq j)"
  define p where "p = retraced_journal_segment_path (j_base j) (nat lo) 600"
  show ?thesis
  proof (cases "0 \<le> lo \<and> lo < int (j_segment_seq j) \<and>
      j_budget_bytes j < segment_bytes (jw_files w) (j_base j) [nat lo..<j_segment_seq j] \<and> io_remove_ok io p")
    case False
    then have "\<forall>f. retain_loop io (Suc f) (j, w) ts = (j, w)"
      by (auto simp: Let_def lo_def [symmetric] p_def [symmetric] split: option.split)
    moreover have "within_budget (j, w)" if "\<forall>p. io_remove_ok io p"
      using False that by (auto simp: within_budget_def Let_def lo_def [symmetric])
    ultimately show ?thesis by blast
  next
    case True
    have "jw_files w p \<noteq> None"
      using first_segment_found [of "jw_files w" "j_base j" "[0..<j_segment_seq j + 1]"] True
      by (auto simp: lo_def p_def retraced_journal_segment_lo_def)
    then obtain sz where sz: "retraced_journal_segment_exists (jw_files w) p = Some sz"
      by (auto simp: retraced_journal_segment_exists_def)
    define ev where "ev = snprintf_s 256 ([CHR 0x7B] @ jstring ''name'' ''retrace.journal.segment_pruned'' @ '','' @
      jstring ''segment'' p @ '','' @ [dq] @ ''bytes'' @ [dq] @ '':'' @ dec sz @ [CHR 0x7D])"
    obtain rc j' w' where a: "journal_append io (j, w\<lparr>jw_files := (jw_files w)(p := None)\<rparr>) ts ''daemon'' 0 (Some ev) = (rc, j', w')"
      by (metis prod_cases3)
    have "retain_loop io (Suc f) (j, w) ts = retain_loop io f (j', w') ts" for f
      using True sz a [unfolded ev_def] by (simp add: Let_def lo_def [symmetric] p_def [symmetric])
    moreover have "live_apart j' \<and> card (closed_segments (j', w')) < card (closed_segments (j, w))"
      using retain_turn [OF assms lo_def _ _ p_def a] True by simp
    ultimately show ?thesis by blast
  qed
qed

lemma retain_enough:
  "live_apart j \<Longrightarrow> card (closed_segments (j, w)) < fuel \<Longrightarrow>
   retain_loop io (fuel + n) (j, w) ts = retain_loop io fuel (j, w) ts \<and>
   ((\<forall>p. io_remove_ok io p) \<longrightarrow> within_budget (retain_loop io fuel (j, w) ts))"
proof (induction fuel arbitrary: j w)
  case (Suc fuel)
  from retain_cases [OF Suc.prems(1), of io w ts] show ?case
  proof (elim disjE exE conjE)
    fix j' w'
    assume "live_apart j'" "card (closed_segments (j', w')) < card (closed_segments (j, w))"
      and step: "\<forall>f. retain_loop io (Suc f) (j, w) ts = retain_loop io f (j', w') ts"
    then have "card (closed_segments (j', w')) < fuel" using Suc.prems(2) by simp
    from Suc.IH [OF \<open>live_apart j'\<close> this] show ?thesis using step by (simp del: retain_loop.simps)
  qed (simp del: retain_loop.simps)
qed simp

text \<open>
  The fuel of \<open>journal_retain\<close> is enough: any more gives the same, and with files that can be
  removed the closed segments that are left fit the budget.
\<close>

lemma retain_ends:
  assumes "live_apart j" "j_budget_bytes j \<noteq> 0"
  shows "journal_retain io (j, w) ts = retain_loop io (j_segment_seq j + 1 + n) (j, w) ts"
    and "(\<forall>p. io_remove_ok io p) \<Longrightarrow> within_budget (journal_retain io (j, w) ts)"
proof -
  have "card (closed_segments (j, w)) < j_segment_seq j + 1" using closed_bound [of j w] by simp
  note r = retain_enough [OF assms(1) this, of io n ts]
  show "journal_retain io (j, w) ts = retain_loop io (j_segment_seq j + 1 + n) (j, w) ts"
    using r assms(2) by (simp only: journal_retain_def fst_conv if_False simp_thms)
  show "(\<forall>p. io_remove_ok io p) \<Longrightarrow> within_budget (journal_retain io (j, w) ts)"
    using r assms(2) by (simp only: journal_retain_def fst_conv if_False simp_thms)
qed

text \<open>The live segment is apart whenever the paths of the series fit their buffers.\<close>

lemma undec_padded: "undec (replicate n (CHR ''0'') @ s) = undec s"
  by (induction n) (simp_all add: undec_def)

lemma segment_path_whole:
  assumes "length base < 500" "k < 10000" "512 \<le> cap"
  shows "retraced_journal_segment_path base k cap = base @ ''.'' @ replicate (4 - length (dec k)) (CHR ''0'') @ dec k"
proof -
  have "length (dec k) \<le> 4" using dec_length [of k 3] assms(2) by simp
  then show ?thesis using assms by (simp add: retraced_journal_segment_path_def snprintf_s_def)
qed

lemma live_apart_usual:
  assumes "length (j_base j) < 500" "j_segment_seq j < 10000" "j_path j = retraced_journal_segment_path (j_base j) (j_segment_seq j) 512"
  shows "live_apart j"
  unfolding live_apart_def
proof (intro allI impI notI)
  fix k
  assume k: "k < j_segment_seq j" "retraced_journal_segment_path (j_base j) k 600 = j_path j"
  then have "replicate (4 - length (dec k)) (CHR ''0'') @ dec k =
      replicate (4 - length (dec (j_segment_seq j))) (CHR ''0'') @ dec (j_segment_seq j)"
    using assms by (simp add: segment_path_whole)
  then have "undec (dec k) = undec (dec (j_segment_seq j))" by (metis undec_padded)
  then show False using k(1) by (simp add: undec_dec)
qed

end
