(* ===== verification/Rpc_Frame.thy ===== *)
theory Rpc_Frame
  imports Retrace_Prelude
begin

unbundle bit_operations_syntax

section \<open>Frames of the control protocol (\<open>src/src/supervisor/protocol.c\<close>)\<close>

text \<open>
  The framing both sides of the supervisor protocol share, and the loop of the daemon
  (\<open>src/tools/retraced/main.c\<close>) that cuts a connection's byte stream into frames.  A buffer
  is the list of its bytes; a pointer that may be \<open>NULL\<close> is an option.  The loop does not
  depend on what is done with a frame, so the handler is an argument here and is given by
  the daemon's theory.
\<close>

type_synonym octet = "8 word"

definition RETRACE_RPC_MAGIC :: "octet list" where
  "RETRACE_RPC_MAGIC = [0x52, 0x54, 0x52, 0x44]"

definition RETRACE_RPC_VERSION :: "16 word" where "RETRACE_RPC_VERSION = 1"

definition RETRACE_RPC_PAYLOAD_MAX :: nat where "RETRACE_RPC_PAYLOAD_MAX = 1048576"

definition RETRACE_RPC_HEADER_SZ :: nat where "RETRACE_RPC_HEADER_SZ = 12"

definition g_msg_names :: "(16 word \<times> cstr) list" where
  "g_msg_names =
     [(1, ''HELLO''), (2, ''HEARTBEAT''), (3, ''POLICY_ACK''), (4, ''EVENT''), (5, ''RING_DATA''), (6, ''BYE''),
      (16, ''WELCOME''), (17, ''POLICY_SET''), (18, ''CMD''), (19, ''PING'')]"

record rpc_frame =
  rf_version :: "16 word"
  rf_type :: "16 word"
  rf_length :: "32 word"

definition put_u16le :: "16 word \<Rightarrow> octet list" where
  "put_u16le v = [ucast (v AND 0xff), ucast (drop_bit 8 v)]"

definition put_u32le :: "32 word \<Rightarrow> octet list" where
  "put_u32le v = [ucast (v AND 0xff), ucast (drop_bit 8 v AND 0xff), ucast (drop_bit 16 v AND 0xff), ucast (drop_bit 24 v AND 0xff)]"

definition get_u16le :: "octet list \<Rightarrow> 16 word" where
  "get_u16le p = ucast ((ucast (p ! 0) :: 32 word) OR push_bit 8 (ucast (p ! 1)))"

definition get_u32le :: "octet list \<Rightarrow> 32 word" where
  "get_u32le p = ucast (p ! 0) OR push_bit 8 (ucast (p ! 1)) OR push_bit 16 (ucast (p ! 2)) OR push_bit 24 (ucast (p ! 3))"

text \<open>The result of encoding is the return value and the buffer afterwards.\<close>

definition retrace_rpc_frame_encode ::
  "octet list option \<Rightarrow> nat \<Rightarrow> 16 word \<Rightarrow> 16 word \<Rightarrow> octet list option \<Rightarrow> 32 word \<Rightarrow> int \<times> octet list option" where
  "retrace_rpc_frame_encode out out_cap version type payload payload_len =
     (case out of
        None \<Rightarrow> (-1, None)
      | Some buf \<Rightarrow>
          if unat payload_len > RETRACE_RPC_PAYLOAD_MAX then (-1, out)
          else if payload_len > 0 \<and> payload = None then (-1, out)
          else if out_cap < RETRACE_RPC_HEADER_SZ + unat payload_len then (-2, out)
          else
            let frame = RETRACE_RPC_MAGIC @ put_u16le version @ put_u16le type @ put_u32le payload_len @
                        (if payload_len > 0 then take (unat payload_len) (the payload) else []) in
            (0, Some (frame @ drop (length frame) buf)))"

definition retrace_rpc_frame_decode :: "octet list option \<Rightarrow> nat \<Rightarrow> rpc_frame option \<Rightarrow> int \<times> rpc_frame option" where
  "retrace_rpc_frame_decode inp in_len out =
     (case (inp, out) of
        (Some p, Some _) \<Rightarrow>
          if in_len < RETRACE_RPC_HEADER_SZ then (-2, out)
          else if take 4 p \<noteq> RETRACE_RPC_MAGIC then (-3, out)
          else
            let fr = \<lparr>rf_version = get_u16le (drop 4 p), rf_type = get_u16le (drop 6 p), rf_length = get_u32le (drop 8 p)\<rparr> in
            if unat (rf_length fr) > RETRACE_RPC_PAYLOAD_MAX then (-4, Some fr) else (0, Some fr)
      | _ \<Rightarrow> (-1, out))"

fun msg_name_loop :: "(16 word \<times> cstr) list \<Rightarrow> 16 word \<Rightarrow> cstr" where
  "msg_name_loop [] type = ''?''"
| "msg_name_loop (e # es) type = (if fst e = type then snd e else msg_name_loop es type)"

definition retrace_rpc_msg_name :: "16 word \<Rightarrow> cstr" where
  "retrace_rpc_msg_name type = msg_name_loop g_msg_names type"

text \<open>A frame as the daemon sends it; \<open>None\<close> when nothing is written.\<close>

definition write_frame :: "bool \<Rightarrow> 16 word \<Rightarrow> octet list option \<Rightarrow> octet list option" where
  "write_frame malloc_ok type payload =
     (let plen = (case payload of None \<Rightarrow> 0 | Some p \<Rightarrow> length p) in
      if \<not> malloc_ok then None
      else
        (case retrace_rpc_frame_encode (Some (replicate (RETRACE_RPC_HEADER_SZ + plen) 0)) (RETRACE_RPC_HEADER_SZ + plen)
                RETRACE_RPC_VERSION type payload (of_nat plen) of
           (rc, out) \<Rightarrow> if rc = 0 then out else None))"

subsection \<open>A connection's buffer\<close>

text \<open>
  \<open>conn_loop\<close> runs while the buffer holds a complete frame: the handler is given the header
  and the payload, and the rest moves to the front.  \<open>conn_readable\<close> is one turn on a
  readable connection: a read of at most the free room, and \<open>None\<close> for a connection closed
  because the read returned nothing.
\<close>

definition CONN_BUF :: nat where "CONN_BUF = RETRACE_RPC_PAYLOAD_MAX + RETRACE_RPC_HEADER_SZ"

definition no_frame :: rpc_frame where "no_frame = \<lparr>rf_version = 0, rf_type = 0, rf_length = 0\<rparr>"

function conn_loop :: "(rpc_frame \<Rightarrow> octet list \<Rightarrow> 's \<Rightarrow> 's) \<Rightarrow> 's \<Rightarrow> octet list \<Rightarrow> 's \<times> octet list" where
  "conn_loop h s buf =
     (if length buf < RETRACE_RPC_HEADER_SZ then (s, buf)
      else
        (case retrace_rpc_frame_decode (Some buf) (length buf) (Some no_frame) of
           (rc, fr) \<Rightarrow>
             if rc \<noteq> 0 then (s, buf)
             else if length buf < RETRACE_RPC_HEADER_SZ + unat (rf_length (the fr)) then (s, buf)
             else conn_loop h (h (the fr) (take (unat (rf_length (the fr))) (drop RETRACE_RPC_HEADER_SZ buf)) s)
                    (drop (RETRACE_RPC_HEADER_SZ + unat (rf_length (the fr))) buf)))"
  by pat_completeness auto
termination
  by (relation "measure (\<lambda>(_, _, buf). length buf)") (auto simp: RETRACE_RPC_HEADER_SZ_def)

declare conn_loop.simps [simp del]

definition conn_readable ::
  "(rpc_frame \<Rightarrow> octet list \<Rightarrow> 's \<Rightarrow> 's) \<Rightarrow> nat \<Rightarrow> octet list \<Rightarrow> 's \<times> octet list \<Rightarrow> ('s \<times> octet list) option \<times> octet list" where
  "conn_readable h n stream c =
     (let m = min n (CONN_BUF - length (snd c)); chunk = take m stream in
      (if chunk = [] then None else Some (conn_loop h (fst c) (snd c @ chunk)), drop m stream))"

text \<open>A connection over time: each number is the most a read may return.\<close>

fun conn_run ::
  "(rpc_frame \<Rightarrow> octet list \<Rightarrow> 's \<Rightarrow> 's) \<Rightarrow> nat list \<Rightarrow> octet list \<Rightarrow> 's \<times> octet list \<Rightarrow> ('s \<times> octet list) option \<times> octet list" where
  "conn_run h [] stream c = (Some c, stream)"
| "conn_run h (n # ns) stream c =
     (if stream = [] then (Some c, [])
      else (case conn_readable h n stream c of (None, rest) \<Rightarrow> (None, rest) | (Some c', rest) \<Rightarrow> conn_run h ns rest c'))"

subsection \<open>Encoding and decoding\<close>

lemma byte_mask: "(0xff :: 'a::len word) = mask 8"
  by (simp add: mask_eq_exp_minus_1)

lemma le16: "get_u16le (put_u16le v @ r) = v"
  unfolding get_u16le_def put_u16le_def
  by (rule bit_word_eqI) (auto simp: byte_mask bit_simps)

lemma bit_u32le:
  "n < 32 \<Longrightarrow> bit (get_u32le [a, b, c, d]) n \<longleftrightarrow>
     (if n < 8 then bit a n else if n < 16 then bit b (n - 8) else if n < 24 then bit c (n - 16) else bit d (n - 24))"
  unfolding get_u32le_def by (auto simp: bit_simps dest: bit_imp_le_length)

lemma le32: "get_u32le (put_u32le v @ r) = v"
proof -
  have "get_u32le (put_u32le v @ r) = get_u32le (put_u32le v)" by (simp add: get_u32le_def put_u32le_def)
  also have "\<dots> = v"
    by (rule bit_word_eqI) (auto simp: put_u32le_def bit_u32le byte_mask bit_simps)
  finally show ?thesis .
qed

text \<open>The bytes of a frame, and its header as the reader sees it.\<close>

definition frame_bytes :: "16 word \<Rightarrow> 16 word \<Rightarrow> octet list \<Rightarrow> octet list" where
  "frame_bytes version type payload =
     RETRACE_RPC_MAGIC @ put_u16le version @ put_u16le type @ put_u32le (of_nat (length payload)) @ payload"

definition frame_header :: "16 word \<Rightarrow> 16 word \<Rightarrow> octet list \<Rightarrow> rpc_frame" where
  "frame_header version type payload = \<lparr>rf_version = version, rf_type = type, rf_length = of_nat (length payload)\<rparr>"

lemmas frame_sizes = RETRACE_RPC_PAYLOAD_MAX_def RETRACE_RPC_HEADER_SZ_def

lemma put_lengths [simp]: "length RETRACE_RPC_MAGIC = 4" "length (put_u16le v) = 2" "length (put_u32le w) = 4"
  by (simp_all add: RETRACE_RPC_MAGIC_def put_u16le_def put_u32le_def)

lemma frame_bytes_length [simp]: "length (frame_bytes v t p) = RETRACE_RPC_HEADER_SZ + length p"
  by (simp add: frame_bytes_def RETRACE_RPC_HEADER_SZ_def)

lemma payload_len: "length p \<le> RETRACE_RPC_PAYLOAD_MAX \<Longrightarrow> unat (of_nat (length p) :: 32 word) = length p"
  by (simp add: unat_of_nat take_bit_nat_eq_self frame_sizes)

lemma encode_frame:
  assumes "length p \<le> RETRACE_RPC_PAYLOAD_MAX" "RETRACE_RPC_HEADER_SZ + length p \<le> cap"
  shows "retrace_rpc_frame_encode (Some buf) cap v t (Some p) (of_nat (length p)) =
    (0, Some (frame_bytes v t p @ drop (length (frame_bytes v t p)) buf))"
proof (cases "p = []")
  case True
  then show ?thesis using assms by (simp add: retrace_rpc_frame_encode_def frame_bytes_def Let_def frame_sizes)
next
  case False
  then have "(0 :: 32 word) < of_nat (length p)"
    using payload_len [OF assms(1)] by (metis length_0_conv unat_0 word_gt_0)
  then show ?thesis
    using assms payload_len [OF assms(1)] by (simp add: retrace_rpc_frame_encode_def frame_bytes_def Let_def)
qed

lemma decode_frame:
  assumes "length p \<le> RETRACE_RPC_PAYLOAD_MAX" "RETRACE_RPC_HEADER_SZ \<le> n"
  shows "retrace_rpc_frame_decode (Some (frame_bytes v t p @ r)) n (Some fr) = (0, Some (frame_header v t p))"
proof -
  have "take 4 (frame_bytes v t p @ r) = RETRACE_RPC_MAGIC" by (simp add: frame_bytes_def)
  moreover have "drop 4 (frame_bytes v t p @ r) = put_u16le v @ put_u16le t @ put_u32le (of_nat (length p)) @ p @ r"
    "drop 6 (frame_bytes v t p @ r) = put_u16le t @ put_u32le (of_nat (length p)) @ p @ r"
    "drop 8 (frame_bytes v t p @ r) = put_u32le (of_nat (length p)) @ p @ r"
    by (simp_all add: frame_bytes_def)
  ultimately show ?thesis
    using assms payload_len [OF assms(1)]
    by (simp add: retrace_rpc_frame_decode_def frame_header_def le16 le32 Let_def)
qed

text \<open>Only the first twelve bytes of a buffer decide how it is decoded.\<close>

lemma decode_header_only:
  "RETRACE_RPC_HEADER_SZ \<le> length a \<Longrightarrow>
   retrace_rpc_frame_decode (Some (a @ b)) (length (a @ b)) out = retrace_rpc_frame_decode (Some a) (length a) out"
  by (simp add: retrace_rpc_frame_decode_def get_u16le_def get_u32le_def nth_append RETRACE_RPC_HEADER_SZ_def
      split: option.split)

lemma decode_length:
  "retrace_rpc_frame_decode (Some buf) n (Some fr) = (0, out) \<Longrightarrow>
   \<exists>f. out = Some f \<and> unat (rf_length f) \<le> RETRACE_RPC_PAYLOAD_MAX"
  by (auto simp: retrace_rpc_frame_decode_def Let_def split: if_splits)

subsection \<open>Streams\<close>

type_synonym message = "16 word \<times> 16 word \<times> octet list"

definition wire :: "message list \<Rightarrow> octet list" where
  "wire ms = concat (map (\<lambda>(v, t, p). frame_bytes v t p) ms)"

fun deliver_all :: "(rpc_frame \<Rightarrow> octet list \<Rightarrow> 's \<Rightarrow> 's) \<Rightarrow> message list \<Rightarrow> 's \<Rightarrow> 's" where
  "deliver_all h [] s = s"
| "deliver_all h ((v, t, p) # ms) s = deliver_all h ms (h (frame_header v t p) p s)"

definition sendable :: "message list \<Rightarrow> bool" where
  "sendable ms \<longleftrightarrow> list_all (\<lambda>(_, _, p). length p \<le> RETRACE_RPC_PAYLOAD_MAX) ms"

lemma wire_simps [simp]: "wire [] = []" "wire ((v, t, p) # ms) = frame_bytes v t p @ wire ms"
  by (simp_all add: wire_def)

lemma sendable_simps [simp]: "sendable []"
  "sendable ((v, t, p) # ms) \<longleftrightarrow> length p \<le> RETRACE_RPC_PAYLOAD_MAX \<and> sendable ms"
  by (simp_all add: sendable_def)

lemma conn_loop_frame:
  assumes "length p \<le> RETRACE_RPC_PAYLOAD_MAX"
  shows "conn_loop h s (frame_bytes v t p @ r) = conn_loop h (h (frame_header v t p) p s) r"
  using decode_frame [OF assms, of "length (frame_bytes v t p @ r)" v t r no_frame] payload_len [OF assms]
  by (subst conn_loop.simps) (simp add: frame_header_def frame_bytes_def RETRACE_RPC_HEADER_SZ_def)

lemma conn_loop_partial:
  assumes "length p \<le> RETRACE_RPC_PAYLOAD_MAX" "frame_bytes v t p = a @ b" "b \<noteq> []"
  shows "conn_loop h s a = (s, a)"
proof (cases "length a < RETRACE_RPC_HEADER_SZ")
  case True
  then show ?thesis by (subst conn_loop.simps) simp
next
  case False
  have "length a < RETRACE_RPC_HEADER_SZ + length p"
    using arg_cong [OF assms(2), of length] assms(3) by simp
  moreover have "retrace_rpc_frame_decode (Some a) (length a) (Some no_frame) = (0, Some (frame_header v t p))"
    using decode_frame [OF assms(1), of "length (a @ b)" v t "[]" no_frame] decode_header_only [of a b] False assms(2) by simp
  ultimately show ?thesis
    using payload_len [OF assms(1)] by (subst conn_loop.simps) (simp add: frame_header_def)
qed

text \<open>A buffer holding the beginning of a stream: the complete messages are handed over, the rest stays.\<close>

definition underway :: "message list \<Rightarrow> octet list \<Rightarrow> bool" where
  "underway ms r \<longleftrightarrow> (case ms of [] \<Rightarrow> r = [] | (_, _, p) # _ \<Rightarrow> length r < RETRACE_RPC_HEADER_SZ + length p)"

lemma conn_loop_prefix:
  assumes "sendable ms" "wire ms = buf @ later"
  shows "\<exists>k r. conn_loop h s buf = (deliver_all h (take k ms) s, r) \<and> r @ later = wire (drop k ms) \<and> underway (drop k ms) r"
  using assms
proof (induction ms arbitrary: s buf)
  case Nil
  then have "conn_loop h s buf = (s, buf)" by (subst conn_loop.simps) (simp add: RETRACE_RPC_HEADER_SZ_def)
  then show ?case using Nil by (intro exI [of _ 0] exI [of _ "[]"]) (simp add: underway_def)
next
  case (Cons m ms)
  obtain v t p where m: "m = (v, t, p)" by (cases m)
  then have p: "length p \<le> RETRACE_RPC_PAYLOAD_MAX" "sendable ms" using Cons.prems by simp_all
  show ?case
  proof (cases "length buf < length (frame_bytes v t p)")
    case True
    then have "frame_bytes v t p = buf @ drop (length buf) (frame_bytes v t p)"
      using Cons.prems(2) m by (simp add: append_eq_append_conv_if) (metis append_take_drop_id)
    then have "conn_loop h s buf = (s, buf)" by (rule conn_loop_partial [OF p(1)]) (use True in simp)
    then show ?thesis
      using Cons.prems(2) True m by (intro exI [of _ 0] exI [of _ buf]) (simp add: underway_def)
  next
    case False
    then obtain buf' where buf: "buf = frame_bytes v t p @ buf'" "wire ms = buf' @ later"
      using Cons.prems(2) m by (force simp: append_eq_append_conv_if split: if_splits
          intro: that [of "drop (length (frame_bytes v t p)) buf"] dest: sym)
    from Cons.IH [OF p(2) buf(2), of "h (frame_header v t p) p s"] obtain k r where
      "conn_loop h (h (frame_header v t p) p s) buf' = (deliver_all h (take k ms) (h (frame_header v t p) p s), r)"
      "r @ later = wire (drop k ms)" "underway (drop k ms) r" by blast
    then show ?thesis
      using buf m conn_loop_frame [OF p(1), of h s v t buf'] by (intro exI [of _ "Suc k"] exI [of _ r]) simp
  qed
qed

lemma underway_room: "sendable ms \<Longrightarrow> underway ms r \<Longrightarrow> length r < CONN_BUF"
  by (cases ms) (auto simp: underway_def CONN_BUF_def frame_sizes)

lemma deliver_all_append: "deliver_all h (ms @ ms') s = deliver_all h ms' (deliver_all h ms s)"
  by (induction h ms s rule: deliver_all.induct) simp_all

lemma sendable_drop: "sendable ms \<Longrightarrow> sendable (drop k ms)"
  using set_drop_subset [of k ms] by (auto simp: sendable_def list_all_iff)

lemma conn_run_prefix:
  assumes "sendable ms" "buf @ stream = wire ms" "underway ms buf" "list_all (\<lambda>n. 0 < n) ns"
  shows "\<exists>k r rest. conn_run h ns stream (s, buf) = (Some (deliver_all h (take k ms) s, r), rest) \<and>
    r @ rest = wire (drop k ms) \<and> underway (drop k ms) r \<and> (length stream \<le> length ns \<longrightarrow> rest = [])"
  using assms
proof (induction ns arbitrary: ms buf stream s)
  case Nil
  then show ?case by (intro exI [of _ 0] exI [of _ buf] exI [of _ stream]) simp
next
  case (Cons n ns)
  show ?case
  proof (cases "stream = []")
    case True
    then show ?thesis using Cons.prems by (intro exI [of _ 0] exI [of _ buf] exI [of _ "[]"]) simp
  next
    case False
    define m where "m = min n (CONN_BUF - length buf)"
    have m: "0 < m" using underway_room [OF Cons.prems(1,3)] Cons.prems(4) by (simp add: m_def)
    have split: "wire ms = (buf @ take m stream) @ drop m stream" using Cons.prems(2) by simp
    from conn_loop_prefix [OF Cons.prems(1) split, of h s] obtain k r where
      k: "conn_loop h s (buf @ take m stream) = (deliver_all h (take k ms) s, r)"
        "r @ drop m stream = wire (drop k ms)" "underway (drop k ms) r" by blast
    have read: "conn_readable h n stream (s, buf) = (Some (deliver_all h (take k ms) s, r), drop m stream)"
      using m False k(1) by (simp add: conn_readable_def Let_def m_def)
    from Cons.IH [OF sendable_drop [OF Cons.prems(1)] k(2,3), of "deliver_all h (take k ms) s"] Cons.prems(4)
    obtain k' r' rest where
      *: "conn_run h ns (drop m stream) (deliver_all h (take k ms) s, r) =
          (Some (deliver_all h (take k' (drop k ms)) (deliver_all h (take k ms) s), r'), rest)"
        "r' @ rest = wire (drop k' (drop k ms))" "underway (drop k' (drop k ms)) r'"
        "length (drop m stream) \<le> length ns \<longrightarrow> rest = []" by auto
    have "take (k + k') ms = take k ms @ take k' (drop k ms)" by (rule take_add)
    then have "conn_run h (n # ns) stream (s, buf) = (Some (deliver_all h (take (k + k') ms) s, r'), rest)"
      using False read * (1) by (simp add: deliver_all_append)
    then show ?thesis using * (2-4) m
      by (intro exI [of _ "k + k'"] exI [of _ r'] exI [of _ rest]) (auto simp: add.commute)
  qed
qed

text \<open>
  C14. Messages arrive whole and in order.  Whatever the read sizes, the messages of a stream
  written by the encoder are handed to the handler one by one, each with its version, type
  and payload; a message not yet complete waits in the buffer, which always has room for the
  next read, so the connection is never closed over it; and as many reads as there are bytes
  are enough for all messages to be handed over and the buffer to be empty.  Each message is
  what \<open>retrace_rpc_frame_encode\<close> writes into a buffer that is large enough.
\<close>

theorem rpc_stream_delivered:
  assumes "sendable ms" "list_all (\<lambda>n. 0 < n) ns"
  shows "(\<exists>k r rest. conn_run h ns (wire ms) (s, []) = (Some (deliver_all h (take k ms) s, r), rest) \<and> r @ rest = wire (drop k ms)) \<and>
    (length (wire ms) \<le> length ns \<longrightarrow> conn_run h ns (wire ms) (s, []) = (Some (deliver_all h ms s, []), [])) \<and>
    (\<forall>(v, t, p)\<in>set ms. \<forall>buf. RETRACE_RPC_HEADER_SZ + length p \<le> length buf \<longrightarrow>
      retrace_rpc_frame_encode (Some buf) (length buf) v t (Some p) (of_nat (length p)) =
        (0, Some (frame_bytes v t p @ drop (RETRACE_RPC_HEADER_SZ + length p) buf)))"
proof -
  have "underway ms []" by (auto simp: underway_def RETRACE_RPC_HEADER_SZ_def split: list.split)
  from conn_run_prefix [OF assms(1) _ this assms(2), of "wire ms" h s] obtain k r rest where
    *: "conn_run h ns (wire ms) (s, []) = (Some (deliver_all h (take k ms) s, r), rest)" "r @ rest = wire (drop k ms)"
      "underway (drop k ms) r" "length (wire ms) \<le> length ns \<longrightarrow> rest = []" by auto
  have "conn_run h ns (wire ms) (s, []) = (Some (deliver_all h ms s, []), [])" if len: "length (wire ms) \<le> length ns"
  proof -
    have "rest = []" using * (4) len by simp
    moreover have "drop k ms = []"
      using * (2,3) calculation by (cases "drop k ms") (auto simp: underway_def)
    ultimately show ?thesis using * (1,2) by simp
  qed
  moreover have "retrace_rpc_frame_encode (Some buf) (length buf) v t (Some p) (of_nat (length p)) =
      (0, Some (frame_bytes v t p @ drop (RETRACE_RPC_HEADER_SZ + length p) buf))"
    if "(v, t, p) \<in> set ms" "RETRACE_RPC_HEADER_SZ + length p \<le> length buf" for v t p buf
    using encode_frame [of p "length buf" buf v t] assms(1) that by (auto simp: sendable_def list_all_iff)
  ultimately show ?thesis using * (1,2) by blast
qed

theorem rpc_stream_delivered_witness:
  "conn_run (\<lambda>fr p s. s @ [(rf_type fr, p)]) (replicate 26 7) (wire [(1, 4, [0x7B, 0x7D]), (1, 6, [])]) ([], []) =
     (Some ([(4, [0x7B, 0x7D]), (6, [])], []), [])"
  using rpc_stream_delivered [of "[(1, 4, [0x7B, 0x7D]), (1, 6, [])]" "replicate 26 7" "\<lambda>fr p s. s @ [(rf_type fr, p)]" "[]"]
  by (simp add: frame_sizes frame_header_def list_all_iff)

text \<open>
  What the reader refuses: a header that is short, lacks the magic or claims more than the
  limit.  Such a connection's handler is not run again.
\<close>

lemma conn_stuck:
  assumes "RETRACE_RPC_HEADER_SZ \<le> length buf" "fst (retrace_rpc_frame_decode (Some buf) (length buf) (Some no_frame)) \<noteq> 0"
  shows "conn_loop h s (buf @ later) = (s, buf @ later)"
  using assms decode_header_only [OF assms(1), of later "Some no_frame"]
  by (subst conn_loop.simps) (simp add: case_prod_beta)

end
