(* ===== verification/Drift_Hits.thy ===== *)
theory Drift_Hits
  imports Last_Ring Agent_Registry
begin

section \<open>Naming what escaped the library (\<open>src/tools/retraced/drift_hits.c\<close>)\<close>

text \<open>
  The matcher between what the in-process agent claims it saw and what the kernel lane
  observed.  A claim covers an observation for five seconds; a hit is not named again for
  fifteen.  Both are kept in rings.  The clock is an argument; a slot with time zero is
  empty.  The two structures of the source have the same members and one record here.
\<close>

definition CLAIM_RING :: nat where "CLAIM_RING = 128"
definition HIT_RING :: nat where "HIT_RING = 64"
definition CLAIM_WINDOW_S :: int where "CLAIM_WINDOW_S = 5"
definition HIT_DEDUP_S :: int where "HIT_DEDUP_S = 15"
definition OP_MAX :: nat where "OP_MAX = 32"
definition PATH_MAX_LEN :: nat where "PATH_MAX_LEN = 192"

record claim =
  cl_pid :: int
  cl_op :: cstr
  cl_path :: cstr
  cl_ts :: int

definition no_claim :: claim where "no_claim = \<lparr>cl_pid = 0, cl_op = [], cl_path = [], cl_ts = 0\<rparr>"

record drift_state =
  g_claims :: "claim list"
  g_claims_next :: nat
  g_hits :: "claim list"
  g_hits_next :: nat

definition text_or_empty :: "cstr option \<Rightarrow> cstr" where
  "text_or_empty s = (case s of None \<Rightarrow> [] | Some t \<Rightarrow> t)"

definition key_copy :: "int \<Rightarrow> cstr option \<Rightarrow> cstr option \<Rightarrow> int \<Rightarrow> claim" where
  "key_copy pid opn path now =
     \<lparr>cl_pid = pid, cl_op = snprintf_s OP_MAX (text_or_empty opn), cl_path = snprintf_s PATH_MAX_LEN (text_or_empty path), cl_ts = now\<rparr>"

definition same_key :: "claim \<Rightarrow> int \<Rightarrow> cstr option \<Rightarrow> cstr option \<Rightarrow> bool" where
  "same_key c pid opn path =
     (if cl_op c \<noteq> text_or_empty opn then False
      else if cl_path c \<noteq> text_or_empty path then False
      else if pid > 0 \<and> cl_pid c > 0 \<and> pid \<noteq> cl_pid c then False
      else True)"

fun ring_covers :: "claim list \<Rightarrow> int \<Rightarrow> int \<Rightarrow> cstr option \<Rightarrow> cstr option \<Rightarrow> int \<Rightarrow> bool" where
  "ring_covers [] window pid opn path now = False"
| "ring_covers (c # cs) window pid opn path now =
     (if cl_ts c = 0 then ring_covers cs window pid opn path now
      else if now - cl_ts c > window then ring_covers cs window pid opn path now
      else if same_key c pid opn path then True
      else ring_covers cs window pid opn path now)"

definition claim_covers :: "drift_state \<Rightarrow> int \<Rightarrow> cstr option \<Rightarrow> cstr option \<Rightarrow> int \<Rightarrow> bool" where
  "claim_covers d pid opn path now = ring_covers (g_claims d) CLAIM_WINDOW_S pid opn path now"

definition hit_recent :: "drift_state \<Rightarrow> int \<Rightarrow> cstr option \<Rightarrow> cstr option \<Rightarrow> int \<Rightarrow> bool" where
  "hit_recent d pid opn path now = ring_covers (g_hits d) HIT_DEDUP_S pid opn path now"

definition retrace_drift_claim :: "int \<Rightarrow> drift_state \<Rightarrow> int \<Rightarrow> cstr option \<Rightarrow> cstr option \<Rightarrow> drift_state" where
  "retrace_drift_claim now d pid opn path =
     d\<lparr>g_claims := (g_claims d)[g_claims_next d := key_copy pid opn path now],
       g_claims_next := (g_claims_next d + 1) mod CLAIM_RING\<rparr>"

definition retrace_drift_observe :: "int \<Rightarrow> drift_state \<Rightarrow> int \<Rightarrow> cstr option \<Rightarrow> cstr option \<Rightarrow> bool \<times> drift_state" where
  "retrace_drift_observe now d pid opn path =
     (if path = None \<or> path = Some [] then (False, d)
      else if claim_covers d pid opn path now then (False, d)
      else if hit_recent d pid opn path now then (False, d)
      else (True, d\<lparr>g_hits := (g_hits d)[g_hits_next d := key_copy pid opn path now],
                    g_hits_next := (g_hits_next d + 1) mod HIT_RING\<rparr>))"

definition retrace_drift_hits_reset :: drift_state where
  "retrace_drift_hits_reset =
     \<lparr>g_claims = replicate CLAIM_RING no_claim, g_claims_next = 0, g_hits = replicate HIT_RING no_claim, g_hits_next = 0\<rparr>"

subsection \<open>The matcher over time\<close>

datatype drift_event =
  Claimed (at_time: int) (of_pid: int) (of_op: "cstr option") (of_path: "cstr option")
| Observed (at_time: int) (of_pid: int) (of_op: "cstr option") (of_path: "cstr option")

text \<open>The state after a history, with the claims and the hits of that history in order.\<close>

fun drift_step :: "drift_event \<Rightarrow> drift_state \<times> drift_event list \<times> drift_event list \<Rightarrow> drift_state \<times> drift_event list \<times> drift_event list" where
  "drift_step (Claimed now pid opn path) (d, claims, hits) = (retrace_drift_claim now d pid opn path, claims @ [Claimed now pid opn path], hits)"
| "drift_step (Observed now pid opn path) (d, claims, hits) =
     (let (hit, d') = retrace_drift_observe now d pid opn path in (d', claims, if hit then hits @ [Observed now pid opn path] else hits))"

definition drift_run :: "drift_event list \<Rightarrow> drift_state \<times> drift_event list \<times> drift_event list" where
  "drift_run es = foldl (\<lambda>s e. drift_step e s) (retrace_drift_hits_reset, [], []) es"

text \<open>The key of an event fits the fields of a slot.\<close>

definition key_fits :: "drift_event \<Rightarrow> bool" where
  "key_fits e \<longleftrightarrow> length (text_or_empty (of_op e)) < OP_MAX \<and> length (text_or_empty (of_path e)) < PATH_MAX_LEN \<and> at_time e \<noteq> 0"

text \<open>One event accounts for another: same operation and path, and the same process where both name one, within the window.\<close>

definition accounts :: "int \<Rightarrow> drift_event \<Rightarrow> drift_event \<Rightarrow> bool" where
  "accounts window c e \<longleftrightarrow> at_time e - at_time c \<le> window \<and>
     text_or_empty (of_op c) = text_or_empty (of_op e) \<and> text_or_empty (of_path c) = text_or_empty (of_path e) \<and>
     \<not> (of_pid e > 0 \<and> of_pid c > 0 \<and> of_pid e \<noteq> of_pid c)"

definition newest :: "nat \<Rightarrow> 'a list \<Rightarrow> 'a list" where "newest n xs = drop (length xs - n) xs"

definition key_slot :: "drift_event \<Rightarrow> claim" where
  "key_slot e = key_copy (of_pid e) (of_op e) (of_path e) (at_time e)"

lemma ring_covers_iff:
  "ring_covers cs window pid opn path now \<longleftrightarrow> (\<exists>c\<in>set cs. cl_ts c \<noteq> 0 \<and> now - cl_ts c \<le> window \<and> same_key c pid opn path)"
  by (induction cs) auto

lemma same_key_fits:
  "key_fits c \<Longrightarrow> cl_ts (key_slot c) \<noteq> 0 \<and> at_time e - cl_ts (key_slot c) \<le> window \<and> same_key (key_slot c) (of_pid e) (of_op e) (of_path e) \<longleftrightarrow>
     accounts window c e"
  by (auto simp: key_fits_def key_slot_def key_copy_def same_key_def accounts_def)

definition drift_inv :: "drift_state \<Rightarrow> drift_event list \<Rightarrow> drift_event list \<Rightarrow> bool" where
  "drift_inv d claims hits \<longleftrightarrow>
     ring_last CLAIM_RING (map key_slot claims) no_claim (g_claims d) (g_claims_next d) \<and>
     ring_last HIT_RING (map key_slot hits) no_claim (g_hits d) (g_hits_next d)"

lemma ring_sizes: "0 < CLAIM_RING" "0 < HIT_RING" by (simp_all add: CLAIM_RING_def HIT_RING_def)

lemma drift_inv_step: "drift_inv d claims hits \<Longrightarrow> drift_step e (d, claims, hits) = (d', claims', hits') \<Longrightarrow> drift_inv d' claims' hits'"
  using ring_last_put [OF ring_sizes(1), of "map key_slot claims" no_claim "g_claims d" "g_claims_next d" "key_slot e"]
    ring_last_put [OF ring_sizes(2), of "map key_slot hits" no_claim "g_hits d" "g_hits_next d" "key_slot e"]
  by (cases e) (auto simp: drift_inv_def retrace_drift_claim_def retrace_drift_observe_def key_slot_def split: if_splits)

lemma drift_inv_run: "drift_run es = (d, claims, hits) \<Longrightarrow> drift_inv d claims hits"
proof (induction es arbitrary: d claims hits rule: rev_induct)
  case Nil
  then show ?case by (auto simp: drift_run_def drift_inv_def retrace_drift_hits_reset_def ring_last_empty)
next
  case (snoc e es)
  obtain d1 claims1 hits1 where "drift_run es = (d1, claims1, hits1)" by (cases "drift_run es")
  then show ?case using snoc drift_inv_step [of d1 claims1 hits1 e d claims hits] by (simp add: drift_run_def)
qed

lemma drift_run_events: "drift_run es = (d, claims, hits) \<Longrightarrow> set claims \<subseteq> set es \<and> set hits \<subseteq> set es"
proof (induction es arbitrary: d claims hits rule: rev_induct)
  case (snoc e es)
  obtain d1 claims1 hits1 where "drift_run es = (d1, claims1, hits1)" by (cases "drift_run es")
  then show ?case using snoc by (cases e) (auto simp: drift_run_def split: prod.splits if_splits)
qed (auto simp: drift_run_def)

lemma covers_last:
  assumes "0 < n" "ring_last n (map key_slot xs) no_claim ring i" "list_all key_fits xs"
  shows "ring_covers ring window (of_pid e) (of_op e) (of_path e) (at_time e) \<longleftrightarrow> (\<exists>c\<in>set (newest n xs). accounts window c e)"
proof -
  have "set (newest n xs) \<subseteq> set xs" by (simp add: newest_def set_drop_subset)
  then have "\<forall>c\<in>set (newest n xs). key_fits c" using assms(3) by (auto simp: list_all_iff)
  moreover have "\<not> (cl_ts no_claim \<noteq> 0 \<and> at_time e - cl_ts no_claim \<le> window \<and> same_key no_claim (of_pid e) (of_op e) (of_path e))"
    by (simp add: no_claim_def)
  from ring_last_search [OF assms(1,2), where P = "\<lambda>c. cl_ts c \<noteq> 0 \<and> at_time e - cl_ts c \<le> window \<and> same_key c (of_pid e) (of_op e) (of_path e)",
      OF this]
  have "ring_covers ring window (of_pid e) (of_op e) (of_path e) (at_time e) \<longleftrightarrow>
      (\<exists>c\<in>set (newest n xs). cl_ts (key_slot c) \<noteq> 0 \<and> at_time e - cl_ts (key_slot c) \<le> window \<and> same_key (key_slot c) (of_pid e) (of_op e) (of_path e))"
    by (simp add: ring_covers_iff newest_def drop_map)
  ultimately show ?thesis using same_key_fits by blast
qed

text \<open>
  C22. An observation is named as an escape exactly when it names a path and neither one of
  the last 128 claims covers it nor one of the last 64 hits has just named it: same
  operation, same path, and the same process where both sides know it, within five seconds
  for a claim and fifteen for a hit.  This holds for keys that fit the fields they are
  copied to.
\<close>

theorem drift_hit_exact:
  assumes "drift_run es = (d, claims, hits)" "list_all key_fits es" "e = Observed now pid opn path"
  shows "fst (retrace_drift_observe now d pid opn path) \<longleftrightarrow>
    text_or_empty path \<noteq> [] \<and> \<not> (\<exists>c\<in>set (newest CLAIM_RING claims). accounts CLAIM_WINDOW_S c e) \<and>
    \<not> (\<exists>h\<in>set (newest HIT_RING hits). accounts HIT_DEDUP_S h e)"
proof -
  have fit: "list_all key_fits claims" "list_all key_fits hits" using drift_run_events [OF assms(1)] assms(2) by (auto simp: list_all_iff)
  have inv: "ring_last CLAIM_RING (map key_slot claims) no_claim (g_claims d) (g_claims_next d)"
    "ring_last HIT_RING (map key_slot hits) no_claim (g_hits d) (g_hits_next d)"
    using drift_inv_run [OF assms(1)] by (simp_all add: drift_inv_def)
  have "path = None \<or> path = Some [] \<longleftrightarrow> text_or_empty path = []" by (auto simp: text_or_empty_def split: option.split)
  then show ?thesis
    using covers_last [OF ring_sizes(1) inv(1) fit(1), of CLAIM_WINDOW_S e] covers_last [OF ring_sizes(2) inv(2) fit(2), of HIT_DEDUP_S e] assms(3)
    by (auto simp: retrace_drift_observe_def claim_covers_def hit_recent_def)
qed

theorem drift_hit_exact_witness:
  "fst (retrace_drift_observe 103 (fst (drift_run [Claimed 100 7 (Some ''open'') (Some ''/a'')])) 7 (Some ''open'') (Some ''/b''))"
proof -
  let ?e = "Claimed 100 7 (Some ''open'') (Some ''/a'')"
  have run: "drift_run [?e] = (fst (drift_run [?e]), [?e], [])" by (simp add: drift_run_def)
  have "list_all key_fits [?e]" by (simp add: key_fits_def text_or_empty_def OP_MAX_def PATH_MAX_LEN_def)
  from drift_hit_exact [OF run this refl, of 103 7 "Some ''open''" "Some ''/b''"] show ?thesis
    by (simp add: newest_def accounts_def text_or_empty_def CLAIM_RING_def)
qed

text \<open>
  A key that does not fit is stored cut short and compared in full, so that it matches
  nothing: a path of 192 characters or more is named again each time, whatever is claimed.
\<close>

lemma long_path_always_hits:
  assumes "PATH_MAX_LEN \<le> length p" "\<forall>c\<in>set (g_claims d) \<union> set (g_hits d). length (cl_path c) < PATH_MAX_LEN"
  shows "fst (retrace_drift_observe now d pid opn (Some p))"
proof -
  have "\<not> ring_covers cs w pid opn (Some p) now" if "\<forall>c\<in>set cs. length (cl_path c) < PATH_MAX_LEN" for cs w
    using that assms(1) by (auto simp: ring_covers_iff same_key_def text_or_empty_def split: if_splits)
  then show ?thesis
    using assms by (auto simp: retrace_drift_observe_def claim_covers_def hit_recent_def PATH_MAX_LEN_def)
qed

end
