(* ===== verification/Daemon_Frame.thy ===== *)
theory Daemon_Frame
  imports Rpc_Frame Journal_Chain Drift_Hits
begin

unbundle bit_operations_syntax

section \<open>The daemon's handling of frames (\<open>src/tools/retraced/daemon_frame.c\<close>, \<open>main.c\<close>)\<close>

text \<open>
  What the daemon does with a frame of an agent: registration, heartbeats, events, policy
  acknowledgements, farewell.  The daemon's state is the registry, the journal with its
  world, the drift matcher and the frames written to the connection so far.  The clocks, the
  random bytes, the agent nonce and the policy in force are in \<open>denv\<close>.
\<close>

record denv =
  de_io :: jio
  de_now :: int
  de_now_ms :: int
  de_strtod :: strtod_fun
  de_urandom :: "8 word list option"
  de_mix :: "8 word"
  de_nonce :: cstr
  de_policy_blob :: "cstr option"
  de_policy_epoch :: int

record daemon =
  dm_reg :: retraced_registry
  dm_journal :: "retraced_journal \<times> jworld"
  dm_drift :: drift_state
  dm_out :: "(16 word \<times> cstr) list"

record conn_state =
  cs_agent_id :: cstr
  cs_helloed :: bool
  cs_spectator :: bool

definition MSG_HELLO :: "16 word" where "MSG_HELLO = 1"
definition MSG_HEARTBEAT :: "16 word" where "MSG_HEARTBEAT = 2"
definition MSG_POLICY_ACK :: "16 word" where "MSG_POLICY_ACK = 3"
definition MSG_EVENT :: "16 word" where "MSG_EVENT = 4"
definition MSG_BYE :: "16 word" where "MSG_BYE = 6"
definition MSG_WELCOME :: "16 word" where "MSG_WELCOME = 16"
definition MSG_POLICY_SET :: "16 word" where "MSG_POLICY_SET = 17"
definition MSG_PING :: "16 word" where "MSG_PING = 19"

lemmas msg_types = MSG_HELLO_def MSG_HEARTBEAT_def MSG_POLICY_ACK_def MSG_EVENT_def MSG_BYE_def MSG_WELCOME_def
  MSG_POLICY_SET_def MSG_PING_def

definition parsed_object :: "denv \<Rightarrow> cstr \<Rightarrow> json_object option option" where
  "parsed_object ev payload = (case json_parse_string (de_strtod ev) (Some payload) of
     Good v _ \<Rightarrow> Some (json_value_get_object (Some v)) | _ \<Rightarrow> None)"

definition jr_event :: "denv \<Rightarrow> cstr \<Rightarrow> nat \<Rightarrow> cstr \<Rightarrow> daemon \<Rightarrow> daemon" where
  "jr_event ev agent seq payload d =
     d\<lparr>dm_journal := snd (retraced_journal_event (de_io ev) (dm_journal d) (de_now ev) agent seq (Some payload))\<rparr>"

definition send_frame :: "16 word \<Rightarrow> cstr \<Rightarrow> daemon \<Rightarrow> daemon" where
  "send_frame type payload d = d\<lparr>dm_out := dm_out d @ [(type, payload)]\<rparr>"

definition jstr :: "json_object option \<Rightarrow> cstr \<Rightarrow> nat \<Rightarrow> cstr" where
  "jstr ob key cap = (case json_object_get_string ob key of None \<Rightarrow> [] | Some v \<Rightarrow> snprintf_s cap v)"

definition role_of :: "bool \<Rightarrow> cstr" where "role_of spectator = (if spectator then ''spectator'' else ''full'')"

subsection \<open>The shared state machine\<close>

fun attr_suffix_loop :: "json_object \<Rightarrow> (cstr \<times> json) list \<Rightarrow> cstr \<Rightarrow> cstr option" where
  "attr_suffix_loop attrs [] suff = None"
| "attr_suffix_loop attrs ((k, _) # kvs) suff =
     (if suffix suff k then json_object_get_string (Some attrs) k else attr_suffix_loop attrs kvs suff)"

definition drift_attr_suffix :: "json_object option \<Rightarrow> cstr \<Rightarrow> cstr option" where
  "drift_attr_suffix attrs suff = (case attrs of None \<Rightarrow> None | Some kvs \<Rightarrow> attr_suffix_loop kvs kvs suff)"

definition drift_attr_path :: "json_object option \<Rightarrow> cstr option" where
  "drift_attr_path attrs = drift_attr_suffix attrs ''path''"

definition drift_attr_func :: "json_object option \<Rightarrow> cstr option" where
  "drift_attr_func attrs = (case drift_attr_suffix attrs ''func'' of None \<Rightarrow> drift_attr_suffix attrs ''syscall'' | v \<Rightarrow> v)"

definition drift_summary :: "agent_entry \<Rightarrow> cstr" where
  "drift_summary e = snprintf_s 192 ([CHR 0x7B] @ jstring ''name'' ''retrace.drift.summary'' @ '','' @ jstring ''agent'' (ag_id e) @ '','' @
     [dq] @ ''kernel_obs'' @ [dq] @ '':'' @ dec (unat (ag_kernel_obs e)) @ '','' @
     [dq] @ ''delta'' @ [dq] @ '':'' @ dec (unat (ag_kernel_obs e - ag_kernel_obs_last e)) @ [CHR 0x7D])"

fun summaries_loop :: "denv \<Rightarrow> nat list \<Rightarrow> daemon \<Rightarrow> daemon" where
  "summaries_loop ev [] d = d"
| "summaries_loop ev (k # ks) d =
     (let e = rg_agents (dm_reg d) ! k in
      if ag_kernel_obs e = 0 \<or> ag_kernel_obs e = ag_kernel_obs_last e then summaries_loop ev ks d
      else
        let d1 = jr_event ev ''daemon'' 0 (drift_summary e) d in
        summaries_loop ev ks (d1\<lparr>dm_reg := set_agent (dm_reg d1) k (\<lambda>e. e\<lparr>ag_kernel_obs_last := ag_kernel_obs e\<rparr>)\<rparr>))"

definition daemon_frame_drift_summaries :: "denv \<Rightarrow> daemon \<Rightarrow> daemon" where
  "daemon_frame_drift_summaries ev d = summaries_loop ev [0..<length (rg_agents (dm_reg d))] d"

definition drift_hit_event :: "cstr option \<Rightarrow> cstr option \<Rightarrow> cstr" where
  "drift_hit_event opn path =
     snprintf_s 288 ([CHR 0x7B] @ jstring ''name'' ''retrace.drift.hit'' @ '','' @ jstring ''op'' (text_or_empty opn) @ '','' @
       jstring ''path'' (text_or_empty path) @ [CHR 0x7D])"

definition grade_event :: "denv \<Rightarrow> cstr \<Rightarrow> json_object option \<Rightarrow> daemon \<Rightarrow> daemon" where
  "grade_event ev agent_id ob d =
     (case json_object_get_string ob ''source'' of
        None \<Rightarrow> d
      | Some source \<Rightarrow>
          let ag = retraced_registry_find (dm_reg d) (Some agent_id);
              d1 = (if source = ''kernel'' then
                      (case ag of None \<Rightarrow> d | Some i \<Rightarrow> d\<lparr>dm_reg := set_agent (dm_reg d) i (\<lambda>e. e\<lparr>ag_kernel_obs := ag_kernel_obs e + 1\<rparr>)\<rparr>)
                    else d);
              attrs = json_object_get_object ob ''attrs'';
              pid = (case ag of None \<Rightarrow> 0 | Some i \<Rightarrow> ag_pid (rg_agents (dm_reg d1) ! i)) in
          if source = ''kernel'' then
            (let opn = json_object_get_string attrs ''syscall'';
                 path = drift_attr_path attrs;
                 (hit, dr) = retrace_drift_observe (de_now ev) (dm_drift d1) pid opn path;
                 d2 = d1\<lparr>dm_drift := dr\<rparr> in
             if hit then jr_event ev ''daemon'' 0 (drift_hit_event opn path) d2 else d2)
          else if source = ''libc'' then
            (let opn = (case drift_attr_func attrs of None \<Rightarrow> json_object_get_string ob ''name'' | v \<Rightarrow> v) in
             d1\<lparr>dm_drift := retrace_drift_claim (de_now ev) (dm_drift d1) pid opn (drift_attr_path attrs)\<rparr>)
          else d1)"

text \<open>The return value, the connection's state and the daemon's.\<close>

definition daemon_frame_handle :: "denv \<Rightarrow> conn_state \<Rightarrow> 16 word \<Rightarrow> cstr \<Rightarrow> daemon \<Rightarrow> int \<times> conn_state \<times> daemon" where
  "daemon_frame_handle ev st type payload d =
     (if type = MSG_HEARTBEAT then
        if \<not> cs_helloed st then (0, st, d)
        else (case parsed_object ev payload of
                None \<Rightarrow> (0, st, d)
              | Some ob \<Rightarrow>
                  (0, st, d\<lparr>dm_reg := snd (retraced_registry_heartbeat (dm_reg d) (Some (cs_agent_id st))
                                        (double_to_u64 (json_object_get_number ob ''seq'')) (de_now_ms ev))\<rparr>))
      else if type = MSG_EVENT then
        if \<not> cs_helloed st then (0, st, d)
        else (case parsed_object ev payload of
                None \<Rightarrow> (0, st, d)
              | Some ob \<Rightarrow>
                  (0, st, grade_event ev (cs_agent_id st) ob
                            (jr_event ev (cs_agent_id st) (unat (double_to_u64 (json_object_get_number ob ''seq''))) payload d)))
      else if type = MSG_POLICY_ACK then
        if \<not> cs_helloed st then (0, st, d)
        else
          let d1 = (case parsed_object ev payload of
                      None \<Rightarrow> d
                    | Some ob \<Rightarrow>
                        (case retraced_registry_find (dm_reg d) (Some (cs_agent_id st)) of
                           None \<Rightarrow> d
                         | Some i \<Rightarrow> d\<lparr>dm_reg := set_agent (dm_reg d) i
                             (\<lambda>e. e\<lparr>ag_policy_epoch := double_to_u64 (json_object_get_number ob ''policy_epoch'')\<rparr>)\<rparr>)) in
          (0, st, jr_event ev (cs_agent_id st) 0 payload d1)
      else if type = MSG_PING then (0, st, send_frame MSG_PING [CHR 0x7B, CHR 0x7D] d)
      else if type = MSG_BYE then
        (1, st\<lparr>cs_helloed := False\<rparr>, d\<lparr>dm_reg := retraced_registry_bye (dm_reg d) (Some (cs_agent_id st))\<rparr>)
      else (0, st, d))"

definition daemon_frame_welcome :: "denv \<Rightarrow> conn_state \<Rightarrow> daemon \<Rightarrow> daemon" where
  "daemon_frame_welcome ev st d =
     (let w = snprintf_s 256 ([CHR 0x7B] @ jstring ''agent_id'' (cs_agent_id st) @ '','' @ [dq] @ ''epoch'' @ [dq] @ '':'' @
                show_int (de_policy_epoch ev) @ '','' @ jstring ''role'' (role_of (cs_spectator st)) @ [CHR 0x7D]);
          ev1 = snprintf_s 320 ([CHR 0x7B] @ jstring ''name'' ''retrace.auth.agent'' @ '','' @ jstring ''agent'' (cs_agent_id st) @ '','' @
                  jstring ''role'' (role_of (cs_spectator st)) @ '','' @
                  jstring ''nonce'' (if cs_spectator st then [] else ''redacted'') @ [CHR 0x7D]) in
      jr_event ev ''daemon'' 0 ev1 (send_frame MSG_WELCOME w d))"

text \<open>Registration as the pipe server does it; \<open>None\<close> is a registry that is full or a payload that does not parse.\<close>

definition daemon_frame_hello :: "denv \<Rightarrow> cstr option \<Rightarrow> conn_state \<Rightarrow> cstr \<Rightarrow> daemon \<Rightarrow> nat option \<times> conn_state \<times> daemon" where
  "daemon_frame_hello ev daemon_nonce st payload d =
     (case parsed_object ev payload of
        None \<Rightarrow> (None, st, d)
      | Some ob \<Rightarrow>
          let st1 = st\<lparr>cs_spectator := (case daemon_nonce of None \<Rightarrow> False | Some n \<Rightarrow> jstr ob ''nonce'' 128 \<noteq> n)\<rparr>;
              num = (\<lambda>key. case ob of None \<Rightarrow> 0 | Some _ \<Rightarrow> sint (double_to_s64 (json_object_get_number ob key)));
              (e, reg) = retraced_registry_hello (dm_reg d) None (num ''pid'') (num ''ppid'')
                           (Some (jstr ob ''session_token'' 128)) (Some (jstr ob ''cmdline'' 256));
              d1 = d\<lparr>dm_reg := reg\<rparr> in
          (case e of
             None \<Rightarrow> (None, st1, d1)
           | Some i \<Rightarrow>
               let st2 = st1\<lparr>cs_agent_id := snprintf_s RETRACED_AGENT_ID_MAX (ag_id (rg_agents reg ! i)), cs_helloed := True\<rparr>;
                   d2 = d1\<lparr>dm_reg := set_agent reg i (\<lambda>e. e\<lparr>ag_spectator := of_bool (cs_spectator st2)\<rparr>)\<rparr> in
               (Some i, st2, daemon_frame_welcome ev st2 d2)))"

subsection \<open>The accept gate and the nonce\<close>

definition retraced_peer_allowed :: "int \<Rightarrow> int \<Rightarrow> bool" where
  "retraced_peer_allowed peer_uid my_euid \<longleftrightarrow> peer_uid = 0 \<or> peer_uid = my_euid"

definition retraced_nonce_matches :: "cstr option \<Rightarrow> cstr \<Rightarrow> bool" where
  "retraced_nonce_matches presented expected =
     (case presented of
        None \<Rightarrow> False
      | Some p \<Rightarrow>
          if length p \<noteq> length expected then False
          else foldl (\<lambda>diff i. diff OR (of_char (p ! i) XOR of_char (expected ! i))) (0 :: 8 word) [0..<length expected] = 0)"

text \<open>
  One accepted descriptor: the credentials the platform reports, or none.  The result is
  whether the connection is kept.
\<close>

definition accept_gated :: "denv \<Rightarrow> int option \<Rightarrow> int \<Rightarrow> daemon \<Rightarrow> bool \<times> daemon" where
  "accept_gated ev peer_uid euid d =
     (case peer_uid of
        None \<Rightarrow> (True, d)
      | Some uid \<Rightarrow>
          if retraced_peer_allowed uid euid then (True, d)
          else (False, jr_event ev ''daemon'' 0
                 (snprintf_s 160 ([CHR 0x7B] @ jstring ''name'' ''retrace.auth.refused'' @ '','' @
                    [dq] @ ''peer_uid'' @ [dq] @ '':'' @ show_int uid @ [CHR 0x7D])) d))"

subsection \<open>Frames of a connection\<close>

definition session_event :: "cstr \<Rightarrow> agent_entry \<Rightarrow> cstr" where
  "session_event what e =
     snprintf_s 256 ([CHR 0x7B] @ jstring ''name'' (''retrace.session.'' @ what) @ '','' @ jstring ''agent'' (ag_id e) @ '','' @
       jstring ''session'' (ag_session e) @ [CHR 0x7D])"

definition resolve_session :: "denv \<Rightarrow> nat \<Rightarrow> daemon \<Rightarrow> daemon" where
  "resolve_session ev i d =
     (let (parent, reg) = retraced_registry_link_parent (dm_reg d) i;
          d1 = d\<lparr>dm_reg := reg\<rparr>;
          inherited = (case parent of None \<Rightarrow> [] | Some p \<Rightarrow> ag_session (rg_agents reg ! p)) in
      if ag_session (rg_agents reg ! i) \<noteq> [] then d1
      else
        let what = (if inherited \<noteq> [] then ''scrubbed'' else ''minted'');
            session = (if inherited \<noteq> [] then snprintf_s RETRACED_SESSION_MAX inherited
                       else retraced_registry_mint_session (de_urandom ev) (de_mix ev));
            d2 = d1\<lparr>dm_reg := set_agent reg i (\<lambda>e. e\<lparr>ag_session := session\<rparr>)\<rparr> in
        jr_event ev ''daemon'' 0 (session_event what (rg_agents (dm_reg d2) ! i)) d2)"

definition welcome_text :: "denv \<Rightarrow> agent_entry \<Rightarrow> bool \<Rightarrow> cstr" where
  "welcome_text ev e spectator =
     snprintf_s 512 ([CHR 0x7B] @ jstring ''agent_id'' (ag_id e) @ '','' @ jstring ''session_token'' (ag_session e) @ '','' @
       [dq] @ ''policy_epoch'' @ [dq] @ '':'' @ show_int (de_policy_epoch ev) @ '','' @ [dq] @ ''heartbeat_ms'' @ [dq] @ '':1000,'' @
       jstring ''role'' (role_of spectator) @ [CHR 0x7D])"

definition auth_event :: "agent_entry \<Rightarrow> bool \<Rightarrow> cstr" where
  "auth_event e spectator =
     snprintf_s 224 ([CHR 0x7B] @ jstring ''name'' ''retrace.auth.agent'' @ '','' @ jstring ''agent'' (ag_id e) @ '','' @
       jstring ''role'' (role_of spectator) @ [CHR 0x7D])"

definition hello_frame :: "denv \<Rightarrow> conn_state \<Rightarrow> cstr \<Rightarrow> daemon \<Rightarrow> conn_state \<times> daemon" where
  "hello_frame ev c payload d =
     (case parsed_object ev payload of
        None \<Rightarrow> (c, d)
      | Some ob \<Rightarrow>
          let num = (\<lambda>key. sint (double_to_s64 (json_object_get_number ob key)));
              c1 = c\<lparr>cs_spectator := \<not> retraced_nonce_matches (Some (jstr ob ''nonce'' 80)) (de_nonce ev)\<rparr>;
              (e, reg) = retraced_registry_hello (dm_reg d) None (num ''pid'') (num ''ppid'')
                           (Some (jstr ob ''session_token'' RETRACED_SESSION_MAX)) (Some (jstr ob ''cmdline'' RETRACED_CMDLINE_MAX)) in
          (case e of
             None \<Rightarrow> (c1, d\<lparr>dm_reg := reg\<rparr>)
           | Some i \<Rightarrow>
               let c2 = c1\<lparr>cs_agent_id := snprintf_s RETRACED_AGENT_ID_MAX (ag_id (rg_agents reg ! i)), cs_helloed := True\<rparr>;
                   d1 = d\<lparr>dm_reg := set_agent reg i (\<lambda>e. e\<lparr>ag_spectator := of_bool (cs_spectator c2), ag_last_hb_ms := de_now_ms ev\<rparr>)\<rparr>;
                   d2 = resolve_session ev i d1;
                   entry = rg_agents (dm_reg d2) ! i;
                   d3 = send_frame MSG_WELCOME (welcome_text ev entry (cs_spectator c2)) d2;
                   d4 = (case de_policy_blob ev of
                           Some blob \<Rightarrow> if \<not> cs_spectator c2 then send_frame MSG_POLICY_SET blob d3 else d3
                         | None \<Rightarrow> d3) in
               (c2, jr_event ev ''daemon'' 0 (auth_event entry (cs_spectator c2)) d4)))"

text \<open>The payload as a C string: one byte short of the limit, and up to its first zero.\<close>

definition payload_text :: "octet list \<Rightarrow> cstr" where
  "payload_text bytes = takeWhile (\<lambda>c. c \<noteq> nul) (map (\<lambda>b. char_of (unat b)) (take (RETRACE_RPC_PAYLOAD_MAX - 1) bytes))"

definition handle_agent_frame :: "denv \<Rightarrow> rpc_frame \<Rightarrow> octet list \<Rightarrow> conn_state \<times> daemon \<Rightarrow> conn_state \<times> daemon" where
  "handle_agent_frame ev fr bytes cd =
     (let (c, d) = cd; payload = payload_text bytes; type = rf_type fr in
      if type = MSG_HELLO then hello_frame ev c payload d
      else if type = MSG_HEARTBEAT \<or> type = MSG_EVENT \<or> type = MSG_POLICY_ACK then (c, snd (snd (daemon_frame_handle ev c type payload d)))
      else if type = MSG_BYE \<or> type = MSG_PING then
        (case daemon_frame_handle ev c type payload d of (_, st, d1) \<Rightarrow> (c\<lparr>cs_helloed := cs_helloed st\<rparr>, d1))
      else (c, d))"

end
