(* ===== verification/Daemon_Session.thy ===== *)
theory Daemon_Session
  imports Daemon_Frame
begin

unbundle bit_operations_syntax

section \<open>What a connection can make the daemon do\<close>

text \<open>
  The effects of the frames of one connection on the journal and on what is sent back:
  which records a frame adds and in whose name, and when the policy leaves the daemon.
\<close>

subsection \<open>The nonce comparison\<close>

lemma fold_or_zero: "foldl (\<lambda>diff i. diff OR f i) a xs = (0 :: 'a::len word) \<longleftrightarrow> a = 0 \<and> (\<forall>i\<in>set xs. f i = 0)"
  by (induction xs arbitrary: a) (auto simp: or_eq_0_iff)

lemma xor_zero: "(a :: 'a::len word) XOR b = 0 \<longleftrightarrow> a = b"
proof
  assume "a XOR b = 0"
  then have "(a XOR b) XOR b = 0 XOR b" by (rule arg_cong)
  then show "a = b" by (simp only: xor.assoc xor_self_eq xor.right_neutral xor.left_neutral)
qed simp

lemma char_byte_inj: "(of_char a :: 8 word) = of_char b \<longleftrightarrow> a = b"
proof
  assume "(of_char a :: 8 word) = of_char b"
  then have "(of_nat (of_char a) :: 8 word) = of_nat (of_char b)" by (simp only: of_nat_of_char)
  then have "(of_char a :: nat) mod 2 ^ 8 = of_char b mod 2 ^ 8" by (simp add: word_of_nat_eq_iff take_bit_eq_mod)
  then show "a = b" by simp
qed simp

lemma nonce_matches: "retraced_nonce_matches presented expected \<longleftrightarrow> presented = Some expected"
proof (cases presented)
  case None
  then show ?thesis by (simp add: retraced_nonce_matches_def)
next
  case (Some p)
  have "retraced_nonce_matches (Some p) expected \<longleftrightarrow>
      length p = length expected \<and> (\<forall>i\<in>set [0..<length expected]. p ! i = expected ! i)"
    unfolding retraced_nonce_matches_def option.case fold_or_zero xor_zero char_byte_inj by simp
  moreover have "p = expected" if "length p = length expected" "\<forall>i\<in>set [0..<length expected]. p ! i = expected ! i"
    by (rule nth_equalityI) (use that in simp_all)
  ultimately show ?thesis using Some by blast
qed

subsection \<open>Records and frames added\<close>

definition adds :: "denv \<Rightarrow> (jevent \<Rightarrow> bool) \<Rightarrow> (16 word \<times> cstr \<Rightarrow> bool) \<Rightarrow> daemon \<Rightarrow> daemon \<Rightarrow> bool" where
  "adds ev A B d d' \<longleftrightarrow> (\<exists>es out. dm_journal d' = write_events (de_io ev) (dm_journal d) es \<and> dm_out d' = dm_out d @ out \<and>
     list_all A es \<and> list_all B out)"

lemma adds_same [intro]: "dm_journal d' = dm_journal d \<Longrightarrow> dm_out d' = dm_out d \<Longrightarrow> adds ev A B d d'"
  unfolding adds_def by (rule exI [of _ "[]"], rule exI [of _ "[]"]) (simp add: write_events_def)

lemma adds_trans [trans]:
  assumes "adds ev A B d d'" "adds ev A B d' d''"
  shows "adds ev A B d d''"
proof -
  from assms(1) obtain es out where
    1: "dm_journal d' = write_events (de_io ev) (dm_journal d) es" "dm_out d' = dm_out d @ out" "list_all A es" "list_all B out"
    unfolding adds_def by blast
  from assms(2) obtain es' out' where
    2: "dm_journal d'' = write_events (de_io ev) (dm_journal d') es'" "dm_out d'' = dm_out d' @ out'" "list_all A es'" "list_all B out'"
    unfolding adds_def by blast
  have "dm_journal d'' = write_events (de_io ev) (dm_journal d) (es @ es')" using 1(1) 2(1) by (simp add: write_events_def)
  moreover have "dm_out d'' = dm_out d @ (out @ out')" using 1(2) 2(2) by simp
  moreover have "list_all A (es @ es')" "list_all B (out @ out')" using 1 2 by simp_all
  ultimately show ?thesis unfolding adds_def by blast
qed

lemma adds_event:
  "0 \<le> de_now ev \<Longrightarrow> A (nat (de_now ev), agent, seq, payload) \<Longrightarrow> adds ev A B d (jr_event ev agent seq payload d)"
  unfolding adds_def jr_event_def
  by (rule exI [of _ "[(nat (de_now ev), agent, seq, payload)]"], rule exI [of _ "[]"]) (simp add: write_events_def)

lemma adds_frame: "B (t, p) \<Longrightarrow> adds ev A B d (send_frame t p d)"
  unfolding adds_def send_frame_def
  by (rule exI [of _ "[]"], rule exI [of _ "[(t, p)]"]) (simp add: write_events_def)

lemma event_fields [simp]: "dm_reg (jr_event ev a s p d) = dm_reg d" "dm_drift (jr_event ev a s p d) = dm_drift d"
  "dm_out (jr_event ev a s p d) = dm_out d"
  by (simp_all add: jr_event_def)

lemma send_fields [simp]: "dm_reg (send_frame t p d) = dm_reg d" "dm_journal (send_frame t p d) = dm_journal d"
  "dm_drift (send_frame t p d) = dm_drift d" "dm_out (send_frame t p d) = dm_out d @ [(t, p)]"
  by (simp_all add: send_frame_def)

subsection \<open>One frame\<close>

definition by_frame :: "denv \<Rightarrow> conn_state \<Rightarrow> cstr \<Rightarrow> jevent \<Rightarrow> bool" where
  "by_frame ev c payload e \<longleftrightarrow> (case e of (ts, agent, seq, p) \<Rightarrow>
     ts = nat (de_now ev) \<and> (agent = ''daemon'' \<or> cs_helloed c \<and> agent = cs_agent_id c \<and> p = payload))"

lemma by_frame_intros [intro, simp]: "by_frame ev c payload (nat (de_now ev), ''daemon'', s, p)"
  "cs_helloed c \<Longrightarrow> by_frame ev c payload (nat (de_now ev), cs_agent_id c, s, payload)"
  by (simp_all add: by_frame_def)

lemma adds_later_event:
  assumes "0 \<le> de_now ev" "A (nat (de_now ev), agent, seq, p)" "dm_journal d' = dm_journal d" "dm_out d' = dm_out d"
  shows "adds ev A B d (jr_event ev agent seq p d')"
proof -
  have "adds ev A B d d'" using assms(3,4) by (rule adds_same)
  also have "adds ev A B d' (jr_event ev agent seq p d')" using assms(1,2) by (rule adds_event)
  finally show ?thesis .
qed

lemma grade_event_adds:
  "0 \<le> de_now ev \<Longrightarrow> adds ev (by_frame ev c payload) B d (grade_event ev agent ob d)"
  unfolding grade_event_def Let_def by (auto intro!: adds_later_event split: option.split prod.split)

lemma resolve_session_adds:
  "0 \<le> de_now ev \<Longrightarrow> adds ev (by_frame ev c payload) B d (resolve_session ev i d)"
  unfolding resolve_session_def Let_def by (auto intro!: adds_later_event split: prod.split option.split)

lemma resolve_session_out [simp]: "dm_out (resolve_session ev i d) = dm_out d"
  unfolding resolve_session_def Let_def by (auto split: prod.split option.split)

lemma event_handled_adds:
  assumes "0 \<le> de_now ev" "cs_helloed c"
  shows "adds ev (by_frame ev c payload) B d (grade_event ev (cs_agent_id c) ob (jr_event ev (cs_agent_id c) n payload d))"
proof -
  have "adds ev (by_frame ev c payload) B d (jr_event ev (cs_agent_id c) n payload d)"
    using assms by (intro adds_event by_frame_intros)
  also have "adds ev (by_frame ev c payload) B \<dots> (grade_event ev (cs_agent_id c) ob \<dots>)"
    using assms(1) by (rule grade_event_adds)
  finally show ?thesis .
qed

lemma frame_handle_adds:
  assumes "0 \<le> de_now ev"
  shows "adds ev (by_frame ev c payload) (\<lambda>(t, _). t = MSG_PING) d (snd (snd (daemon_frame_handle ev c type payload d)))"
  unfolding daemon_frame_handle_def Let_def
  by (auto intro!: event_handled_adds adds_later_event adds_frame assms split: option.split)

text \<open>A payload that carries the daemon's nonce, and what a registered agent is then sent after its welcome.\<close>

definition knows_nonce :: "denv \<Rightarrow> cstr \<Rightarrow> bool" where
  "knows_nonce ev payload \<longleftrightarrow>
     (case parsed_object ev payload of None \<Rightarrow> False | Some ob \<Rightarrow> json_object_get_string ob ''nonce'' = Some (de_nonce ev))"

definition policy_frames :: "denv \<Rightarrow> (16 word \<times> cstr) list" where
  "policy_frames ev = (case de_policy_blob ev of None \<Rightarrow> [] | Some blob \<Rightarrow> [(MSG_POLICY_SET, blob)])"

lemma nonce_read:
  assumes "de_nonce ev \<noteq> []" "length (de_nonce ev) < 79" "parsed_object ev payload = Some ob"
  shows "retraced_nonce_matches (Some (jstr ob ''nonce'' 80)) (de_nonce ev) \<longleftrightarrow> knows_nonce ev payload"
proof -
  have "take 79 v = de_nonce ev \<longleftrightarrow> v = de_nonce ev" for v
  proof
    assume t: "take 79 v = de_nonce ev"
    have "length v < 79"
    proof (rule ccontr)
      assume "\<not> length v < 79"
      then have "length (take 79 v) = 79" by simp
      then show False using assms(2) t by simp
    qed
    then show "v = de_nonce ev" using t by simp
  qed (use assms(2) in simp)
  then show ?thesis
    using assms(1,3) by (simp add: nonce_matches jstr_def knows_nonce_def snprintf_s_def split: option.split)
qed

lemma hello_accepts:
  "length (rg_agents r) < RETRACED_REGISTRY_MAX \<Longrightarrow>
   \<exists>i r'. retraced_registry_hello r None pid ppid session cmdline = (Some i, r')"
  by (auto simp: retraced_registry_hello_def Let_def split: option.split)

lemma hello_frame_effects:
  assumes "0 \<le> de_now ev" "de_nonce ev \<noteq> []" "length (de_nonce ev) < 79" "hello_frame ev c payload d = (c', d')"
  shows "\<exists>es out. dm_journal d' = write_events (de_io ev) (dm_journal d) es \<and> dm_out d' = dm_out d @ out \<and>
    list_all (by_frame ev c payload) es \<and>
    (out = [] \<or> (\<exists>w. out = (MSG_WELCOME, w) # (if knows_nonce ev payload then policy_frames ev else []))) \<and>
    (parsed_object ev payload \<noteq> None \<and> length (rg_agents (dm_reg d)) < RETRACED_REGISTRY_MAX \<longrightarrow>
      out \<noteq> [] \<and> cs_helloed c' \<and> cs_spectator c' = (\<not> knows_nonce ev payload))"
proof (cases "parsed_object ev payload")
  case None
  then show ?thesis using assms(4) by (intro exI [of _ "[]"]) (simp add: hello_frame_def write_events_def)
next
  case (Some ob)
  define pid where "pid = sint (double_to_s64 (json_object_get_number ob ''pid''))"
  define ppid where "ppid = sint (double_to_s64 (json_object_get_number ob ''ppid''))"
  obtain e reg where h: "retraced_registry_hello (dm_reg d) None pid ppid (Some (jstr ob ''session_token'' RETRACED_SESSION_MAX))
      (Some (jstr ob ''cmdline'' RETRACED_CMDLINE_MAX)) = (e, reg)" by fastforce
  note n = nonce_read [OF assms(2,3) Some]
  show ?thesis
  proof (cases e)
    case None
    then have "\<not> length (rg_agents (dm_reg d)) < RETRACED_REGISTRY_MAX" 
      using h hello_accepts [of "dm_reg d" pid ppid "Some (jstr ob ''session_token'' RETRACED_SESSION_MAX)"
          "Some (jstr ob ''cmdline'' RETRACED_CMDLINE_MAX)"] by auto
    moreover have "d' = d\<lparr>dm_reg := reg\<rparr>"
      using assms(4) Some h None by (simp add: hello_frame_def Let_def pid_def ppid_def)
    ultimately show ?thesis by (intro exI [of _ "[]"]) (simp add: write_events_def)
  next
    case (Some i)
    define d1 where "d1 = d\<lparr>dm_reg := set_agent reg i (\<lambda>e. e\<lparr>ag_spectator := of_bool (\<not> knows_nonce ev payload), ag_last_hb_ms := de_now_ms ev\<rparr>)\<rparr>"
    define d2 where "d2 = resolve_session ev i d1"
    define w where "w = welcome_text ev (rg_agents (dm_reg d2) ! i) (\<not> knows_nonce ev payload)"
    define d3 where "d3 = send_frame MSG_WELCOME w d2"
    define d4 where "d4 = d3\<lparr>dm_out := dm_out d3 @ (if knows_nonce ev payload then policy_frames ev else [])\<rparr>"
    have d': "d' = jr_event ev ''daemon'' 0 (auth_event (rg_agents (dm_reg d2) ! i) (\<not> knows_nonce ev payload)) d4"
      "cs_helloed c'" "cs_spectator c' = (\<not> knows_nonce ev payload)"
      using assms(4) \<open>parsed_object ev payload = Some ob\<close> h Some n
      by (auto simp: hello_frame_def Let_def pid_def ppid_def d1_def d2_def d3_def d4_def w_def policy_frames_def send_frame_def
          split: option.split)
    have "adds ev (by_frame ev c payload) (\<lambda>_. True) d d1" by (rule adds_same) (simp_all add: d1_def)
    also have "adds ev (by_frame ev c payload) (\<lambda>_. True) d1 d2" unfolding d2_def using assms(1) by (rule resolve_session_adds)
    also have "adds ev (by_frame ev c payload) (\<lambda>_. True) d2 (d2\<lparr>dm_out := dm_out d4\<rparr>)"
      unfolding adds_def by (intro exI [of _ "[]"] exI [of _ "drop (length (dm_out d2)) (dm_out d4)"])
        (simp add: write_events_def d4_def d3_def list_all_iff)
    also have "d2\<lparr>dm_out := dm_out d4\<rparr> = d4" by (simp add: d4_def d3_def send_frame_def)
    also have "adds ev (by_frame ev c payload) (\<lambda>_. True) d4 d'" unfolding d'(1) using assms(1) by (intro adds_event by_frame_intros)
    finally obtain es where es: "dm_journal d' = write_events (de_io ev) (dm_journal d) es" "list_all (by_frame ev c payload) es"
      unfolding adds_def by blast
    have "dm_out d' = dm_out d @ (MSG_WELCOME, w) # (if knows_nonce ev payload then policy_frames ev else [])"
      unfolding d'(1) by (simp add: d4_def d3_def d2_def d1_def)
    then show ?thesis using es d'(2,3) by blast
  qed
qed

lemma silent_before_hello:
  assumes "\<not> cs_helloed c" "type \<noteq> MSG_BYE" "daemon_frame_handle ev c type payload d = (rc, c', d')"
  shows "c' = c \<and> dm_journal d' = dm_journal d \<and> dm_reg d' = dm_reg d \<and> dm_drift d' = dm_drift d"
  using assms by (auto simp: daemon_frame_handle_def split: if_splits)

lemma frame_handle_conn:
  "cs_agent_id (fst (snd (daemon_frame_handle ev c type payload d))) = cs_agent_id c"
  "cs_spectator (fst (snd (daemon_frame_handle ev c type payload d))) = cs_spectator c"
  unfolding daemon_frame_handle_def by (simp_all add: Let_def split: option.split)

lemma frame_not_hello:
  assumes "rf_type fr \<noteq> MSG_HELLO" "handle_agent_frame ev fr bytes (c, d) = (c', d')"
  shows "d' = d \<and> c' = c \<or> (\<exists>rc c1. daemon_frame_handle ev c (rf_type fr) (payload_text bytes) d = (rc, c1, d') \<and>
    (c' = c \<or> c' = c\<lparr>cs_helloed := cs_helloed c1\<rparr>))"
  using assms by (auto simp: handle_agent_frame_def Let_def split: if_splits prod.splits) (metis prod.collapse snd_conv)+

text \<open>
  C7. What a frame can do.  The journal grows by records that are written in the daemon's own
  name or, once the connection has been registered, in the name it was registered under and
  with the payload of the frame.  The frames sent back are a welcome, a ping or the policy in
  force, and the policy only in answer to a registration that carries the daemon's nonce.
  Before registration every frame but a registration or a farewell leaves the journal, the
  registry and the drift matcher alone.  A registration that parses while the registry has
  room is accepted, is a spectator exactly when it lacks the nonce, and is answered by a
  welcome, followed by the policy exactly when it has the nonce.
\<close>

theorem agent_frame_effects:
  assumes "0 \<le> de_now ev" "de_nonce ev \<noteq> []" "length (de_nonce ev) < 79"
    and "handle_agent_frame ev fr bytes (c, d) = (c', d')"
  shows "\<exists>es out. dm_journal d' = write_events (de_io ev) (dm_journal d) es \<and> dm_out d' = dm_out d @ out \<and>
    list_all (by_frame ev c (payload_text bytes)) es \<and>
    list_all (\<lambda>(t, p). t = MSG_PING \<or> t = MSG_WELCOME \<or>
      (t, p) \<in> set (policy_frames ev) \<and> rf_type fr = MSG_HELLO \<and> knows_nonce ev (payload_text bytes)) out \<and>
    (\<not> cs_helloed c \<and> rf_type fr \<noteq> MSG_HELLO \<and> rf_type fr \<noteq> MSG_BYE \<longrightarrow>
      c' = c \<and> dm_journal d' = dm_journal d \<and> dm_reg d' = dm_reg d \<and> dm_drift d' = dm_drift d) \<and>
    (rf_type fr = MSG_HELLO \<and> parsed_object ev (payload_text bytes) \<noteq> None \<and> length (rg_agents (dm_reg d)) < RETRACED_REGISTRY_MAX \<longrightarrow>
      cs_helloed c' \<and> cs_spectator c' = (\<not> knows_nonce ev (payload_text bytes)) \<and>
      (\<exists>w. out = (MSG_WELCOME, w) # (if knows_nonce ev (payload_text bytes) then policy_frames ev else [])))"
proof (cases "rf_type fr = MSG_HELLO")
  case True
  then have "hello_frame ev c (payload_text bytes) d = (c', d')" using assms(4) by (simp add: handle_agent_frame_def Let_def)
  from hello_frame_effects [OF assms(1-3) this] obtain es out where
    "dm_journal d' = write_events (de_io ev) (dm_journal d) es" "dm_out d' = dm_out d @ out"
    "list_all (by_frame ev c (payload_text bytes)) es"
    "out = [] \<or> (\<exists>w. out = (MSG_WELCOME, w) # (if knows_nonce ev (payload_text bytes) then policy_frames ev else []))"
    "parsed_object ev (payload_text bytes) \<noteq> None \<and> length (rg_agents (dm_reg d)) < RETRACED_REGISTRY_MAX \<longrightarrow>
      out \<noteq> [] \<and> cs_helloed c' \<and> cs_spectator c' = (\<not> knows_nonce ev (payload_text bytes))"
    by (elim exE conjE)
  then show ?thesis using True by (intro exI [of _ es] exI [of _ out]) (auto simp: list_all_iff)
next
  case False
  have "adds ev (by_frame ev c (payload_text bytes)) (\<lambda>(t, _). t = MSG_PING) d d'"
    using frame_not_hello [OF False assms(4)] frame_handle_adds [OF assms(1), of c "payload_text bytes" d "rf_type fr"] by auto
  then obtain es out where
    "dm_journal d' = write_events (de_io ev) (dm_journal d) es" "dm_out d' = dm_out d @ out"
    "list_all (by_frame ev c (payload_text bytes)) es" "list_all (\<lambda>(t, _). t = MSG_PING) out"
    unfolding adds_def by (elim exE conjE)
  moreover have "c' = c \<and> dm_journal d' = dm_journal d \<and> dm_reg d' = dm_reg d \<and> dm_drift d' = dm_drift d"
    if "\<not> cs_helloed c" "rf_type fr \<noteq> MSG_BYE"
    using frame_not_hello [OF False assms(4)]
  proof (elim disjE exE conjE)
    fix rc c1
    assume h: "daemon_frame_handle ev c (rf_type fr) (payload_text bytes) d = (rc, c1, d')"
    note s = silent_before_hello [OF that h]
    { assume "c' = c" then show ?thesis using s by simp }
    { assume "c' = c\<lparr>cs_helloed := cs_helloed c1\<rparr>" then show ?thesis using s by simp }
  qed simp
  ultimately show ?thesis using False by (intro exI [of _ es] exI [of _ out]) (auto simp: list_all_iff)
qed

definition daemon_env :: denv where
  "daemon_env = \<lparr>de_io = demo_io, de_now = 7, de_now_ms = 9, de_strtod = digits_only, de_urandom = None, de_mix = 0,
     de_nonce = ''ab'', de_policy_blob = Some [CHR 0x7B, CHR 0x7D], de_policy_epoch = 1\<rparr>"

definition demo_daemon :: daemon where
  "demo_daemon = \<lparr>dm_reg = retraced_registry_init, dm_journal = (retraced_journal_open ''j'', \<lparr>jw_files = Map.empty, jw_unflushed = 0\<rparr>),
     dm_drift = retrace_drift_hits_reset, dm_out = []\<rparr>"

definition demo_conn :: conn_state where "demo_conn = \<lparr>cs_agent_id = [], cs_helloed = False, cs_spectator = False\<rparr>"

text \<open>The bytes of a registration that carries the nonce.\<close>

definition demo_hello :: cstr where
  "demo_hello = [CHR 0x7B, dq] @ ''nonce'' @ [dq] @ '':'' @ [dq] @ ''ab'' @ [dq, CHR 0x7D]"

definition demo_bytes :: "octet list" where "demo_bytes = map of_char demo_hello"

lemma char_of_byte: "char_of (unat (of_char c :: 8 word)) = c"
proof -
  have "unat (of_nat (of_char c) :: 8 word) = of_char c" by (simp add: unat_of_nat)
  then show ?thesis by (simp add: of_nat_of_char)
qed

lemma payload_text_bytes:
  "nul \<notin> set s \<Longrightarrow> length s < RETRACE_RPC_PAYLOAD_MAX \<Longrightarrow> payload_text (map of_char s) = s"
  by (auto simp: payload_text_def char_of_byte comp_def takeWhile_eq_all_conv)

lemma demo_payload: "payload_text demo_bytes = demo_hello"
  unfolding demo_bytes_def
  by (rule payload_text_bytes) (simp_all add: demo_hello_def RETRACE_RPC_PAYLOAD_MAX_def dq_def)

lemma demo_knows: "knows_nonce daemon_env demo_hello"
  by code_simp

lemma demo_room: "length (rg_agents (dm_reg demo_daemon)) < RETRACED_REGISTRY_MAX"
  by (simp add: demo_daemon_def retraced_registry_init_def RETRACED_REGISTRY_MAX_def)

theorem agent_frame_effects_witness:
  "\<exists>w. dm_out (snd (handle_agent_frame daemon_env (frame_header 1 MSG_HELLO demo_bytes) demo_bytes (demo_conn, demo_daemon))) =
     [(MSG_WELCOME, w), (MSG_POLICY_SET, [CHR 0x7B, CHR 0x7D])]"
proof -
  obtain c' d' where h: "handle_agent_frame daemon_env (frame_header 1 MSG_HELLO demo_bytes) demo_bytes (demo_conn, demo_daemon) = (c', d')"
    by fastforce
  have "parsed_object daemon_env demo_hello \<noteq> None" using demo_knows by (auto simp: knows_nonce_def split: option.splits)
  moreover have "rf_type (frame_header 1 MSG_HELLO demo_bytes) = MSG_HELLO" by (simp add: frame_header_def)
  moreover have "0 \<le> de_now daemon_env" "de_nonce daemon_env \<noteq> []" "length (de_nonce daemon_env) < 79"
    "policy_frames daemon_env = [(MSG_POLICY_SET, [CHR 0x7B, CHR 0x7D])]" "dm_out demo_daemon = []"
    by (simp_all add: daemon_env_def policy_frames_def demo_daemon_def)
  ultimately show ?thesis
    using agent_frame_effects [of daemon_env "frame_header 1 MSG_HELLO demo_bytes" demo_bytes demo_conn demo_daemon c' d']
      demo_knows demo_room h unfolding demo_payload by auto
qed

subsection \<open>A whole connection\<close>

text \<open>The handler over time: clocks, policy and the rest of the environment may differ at every frame.\<close>

definition session_step ::
  "(nat \<Rightarrow> denv) \<Rightarrow> rpc_frame \<Rightarrow> octet list \<Rightarrow> nat \<times> conn_state \<times> daemon \<Rightarrow> nat \<times> conn_state \<times> daemon" where
  "session_step evs fr bytes s = (case s of (n, cd) \<Rightarrow> (n + 1, handle_agent_frame (evs n) fr bytes cd))"

definition nonce_env :: "cstr \<Rightarrow> denv \<Rightarrow> bool" where
  "nonce_env nonce ev \<longleftrightarrow> 0 \<le> de_now ev \<and> de_nonce ev = nonce \<and> nonce \<noteq> [] \<and> length nonce < 79"

definition harmless :: "16 word \<times> cstr \<Rightarrow> bool" where
  "harmless f \<longleftrightarrow> fst f = MSG_PING \<or> fst f = MSG_WELCOME"

lemma frame_output:
  assumes "nonce_env nonce ev" "handle_agent_frame ev fr bytes (c, d) = (c', d')"
    and "rf_type fr = MSG_HELLO \<Longrightarrow> \<not> knows_nonce ev (payload_text bytes)"
  shows "\<exists>out. dm_out d' = dm_out d @ out \<and> list_all harmless out"
proof (cases "rf_type fr = MSG_HELLO")
  case True
  have env: "0 \<le> de_now ev" "de_nonce ev \<noteq> []" "length (de_nonce ev) < 79" using assms(1) by (auto simp: nonce_env_def)
  have "hello_frame ev c (payload_text bytes) d = (c', d')" using True assms(2) by (simp add: handle_agent_frame_def Let_def)
  from hello_frame_effects [OF env this] obtain out where
    "dm_out d' = dm_out d @ out" "out = [] \<or> (\<exists>w. out = [(MSG_WELCOME, w)])"
    using assms(3) [OF True] by auto
  then show ?thesis by (intro exI [of _ out]) (auto simp: harmless_def)
next
  case False
  have "0 \<le> de_now ev" using assms(1) by (simp add: nonce_env_def)
  then have "adds ev (by_frame ev c (payload_text bytes)) (\<lambda>(t, _). t = MSG_PING) d d'"
    using frame_not_hello [OF False assms(2)] frame_handle_adds [of ev c "payload_text bytes" d "rf_type fr"] by auto
  then obtain out where "dm_out d' = dm_out d @ out" "list_all (\<lambda>(t, _). t = MSG_PING) out" unfolding adds_def by blast
  then show ?thesis by (intro exI [of _ out]) (auto simp: harmless_def list_all_iff)
qed

lemma session_output:
  assumes "\<forall>n. nonce_env nonce (evs n)"
    and "\<forall>n. \<forall>(v, t, p)\<in>set ms. \<not> (t = MSG_HELLO \<and> knows_nonce (evs n) (payload_text p))"
  shows "\<exists>c' d' out. deliver_all (session_step evs) ms (n, c, d) = (n + length ms, c', d') \<and> dm_out d' = dm_out d @ out \<and> list_all harmless out"
  using assms(2)
proof (induction ms arbitrary: n c d)
  case Nil
  then show ?case by simp
next
  case (Cons m ms)
  obtain v t p where m: "m = (v, t, p)" by (cases m)
  obtain c1 d1 where h: "handle_agent_frame (evs n) (frame_header v t p) p (c, d) = (c1, d1)" by fastforce
  have "rf_type (frame_header v t p) = MSG_HELLO \<Longrightarrow> \<not> knows_nonce (evs n) (payload_text p)"
    using Cons.prems m by (auto simp: frame_header_def)
  from frame_output [OF spec [OF assms(1)] h this] obtain out1 where
    1: "dm_out d1 = dm_out d @ out1" "list_all harmless out1" by blast
  from Cons.IH [of "n + 1" c1 d1] Cons.prems obtain c' d' out where
    2: "deliver_all (session_step evs) ms (n + 1, c1, d1) = (n + 1 + length ms, c', d')" "dm_out d' = dm_out d1 @ out" "list_all harmless out"
    by auto
  then have "deliver_all (session_step evs) (m # ms) (n, c, d) = (n + length (m # ms), c', d')"
    using h m by (simp add: session_step_def)
  then show ?case using 1 2 by (intro exI [of _ c'] exI [of _ d'] exI [of _ "out1 @ out"]) simp
qed

text \<open>
  C3. The policy stays inside without the nonce.  Let a peer write any sequence of messages,
  none of them a registration that carries the daemon's nonce, and let the daemon read them in
  pieces of any size, at any time and under any policy.  The connection stays open, and all
  the daemon ever sends back are welcomes and pings: neither the policy nor a command.
\<close>

theorem policy_needs_nonce:
  assumes "sendable ms" "list_all (\<lambda>n. 0 < n) ns" "\<forall>n. nonce_env nonce (evs n)"
    and "\<forall>n. \<forall>(v, t, p)\<in>set ms. \<not> (t = MSG_HELLO \<and> knows_nonce (evs n) (payload_text p))"
  shows "\<exists>k c' d' r rest out. conn_run (session_step evs) ns (wire ms) ((0, c, d), []) = (Some ((k, c', d'), r), rest) \<and>
    k \<le> length ms \<and> (length (wire ms) \<le> length ns \<longrightarrow> k = length ms) \<and>
    dm_out d' = dm_out d @ out \<and> list_all (\<lambda>(t, _). t = MSG_PING \<or> t = MSG_WELCOME) out"
proof -
  have "underway ms []" by (auto simp: underway_def RETRACE_RPC_HEADER_SZ_def split: list.split)
  from conn_run_prefix [OF assms(1) _ this assms(2), of "wire ms" "session_step evs" "(0, c, d)"] obtain k r rest where
    *: "conn_run (session_step evs) ns (wire ms) ((0, c, d), []) = (Some (deliver_all (session_step evs) (take k ms) (0, c, d), r), rest)"
      "r @ rest = wire (drop k ms)" "underway (drop k ms) r" "length (wire ms) \<le> length ns \<longrightarrow> rest = []" by auto
  have "\<forall>n. \<forall>(v, t, p)\<in>set (take k ms). \<not> (t = MSG_HELLO \<and> knows_nonce (evs n) (payload_text p))"
    using assms(4) by (blast dest: in_set_takeD)
  from session_output [OF assms(3) this, of 0 c d] obtain c' d' out where
    s: "deliver_all (session_step evs) (take k ms) (0, c, d) = (length (take k ms), c', d')" "dm_out d' = dm_out d @ out"
      "list_all harmless out" by auto
  have "length (take k ms) = length ms" if len: "length (wire ms) \<le> length ns"
  proof -
    have "rest = []" using * (4) len by simp
    then have "drop k ms = []" using * (2,3) by (cases "drop k ms") (auto simp: underway_def)
    then show ?thesis by simp
  qed
  moreover have "list_all (\<lambda>(t, _). t = MSG_PING \<or> t = MSG_WELCOME) out" using s(3) by (auto simp: harmless_def list_all_iff)
  moreover have "length (take k ms) \<le> length ms" by simp
  moreover have "conn_run (session_step evs) ns (wire ms) ((0, c, d), []) = (Some ((length (take k ms), c', d'), r), rest)"
    using * (1) s(1) by (simp only:)
  ultimately show ?thesis using s(2)
    by - (rule exI [of _ "length (take k ms)"], rule exI [of _ c'], rule exI [of _ d'], rule exI [of _ r], rule exI [of _ rest],
        rule exI [of _ out], blast)
qed

text \<open>A registration that lacks the nonce, over seven-byte reads.\<close>

definition demo_spectator :: cstr where "demo_spectator = [CHR 0x7B, CHR 0x7D]"

lemma demo_spectator_text: "payload_text (map of_char demo_spectator) = demo_spectator"
  by (rule payload_text_bytes) (simp_all add: demo_spectator_def RETRACE_RPC_PAYLOAD_MAX_def)

lemma demo_ignorant: "\<not> knows_nonce daemon_env demo_spectator"
  by code_simp

theorem policy_needs_nonce_witness:
  "\<exists>c' d' r rest. conn_run (session_step (\<lambda>_. daemon_env)) (replicate 14 7) (wire [(1, MSG_HELLO, map of_char demo_spectator)])
      ((0, demo_conn, demo_daemon), []) = (Some ((1, c', d'), r), rest) \<and> (\<forall>b. (MSG_POLICY_SET, b) \<notin> set (dm_out d'))"
proof -
  let ?ms = "[(1, MSG_HELLO, map of_char demo_spectator)] :: message list"
  have len: "length demo_spectator = 2" by (simp add: demo_spectator_def)
  have ok: "sendable ?ms" "list_all (\<lambda>n. 0 < n) (replicate 14 (7 :: nat))" "\<forall>n :: nat. nonce_env ''ab'' daemon_env"
    "\<forall>n :: nat. \<forall>(v, t, p)\<in>set ?ms. \<not> (t = MSG_HELLO \<and> knows_nonce daemon_env (payload_text p))"
    "length (wire ?ms) \<le> length (replicate 14 (7 :: nat))" "length ?ms = 1" "dm_out demo_daemon = []"
    by (simp_all add: len frame_sizes nonce_env_def daemon_env_def demo_spectator_text demo_ignorant [unfolded daemon_env_def]
        demo_daemon_def list_all_iff)
  from policy_needs_nonce [OF ok(1-4), of demo_conn demo_daemon] obtain k c' d' r rest out where
    *: "conn_run (session_step (\<lambda>_. daemon_env)) (replicate 14 7) (wire ?ms) ((0, demo_conn, demo_daemon), []) = (Some ((k, c', d'), r), rest)"
      "k = length ?ms" "dm_out d' = out" "list_all (\<lambda>(t, _). t = MSG_PING \<or> t = MSG_WELCOME) out"
    using ok(5,7) by auto
  have "\<forall>b. (MSG_POLICY_SET, b) \<notin> set (dm_out d')" using * (3,4) by (auto simp: list_all_iff msg_types)
  then show ?thesis using * (1,2) ok(6) by auto
qed

end
