(* ===== verification/Trace_Lcs.thy ===== *)
theory Trace_Lcs
  imports Retrace_Prelude
begin

section \<open>Aligning two traces (\<open>src/tools/trace-diff/lcs.c\<close>)\<close>

text \<open>
  The table of common subsequences, its length and the walk back through it.  The table is
  the flat array of the source, filled in by the same two loops; \<open>calloc_ok\<close> says whether
  it could be allocated.  The callback takes and gives its context.  The count of items is
  unbounded here, an \<open>int\<close> in the source.
\<close>

datatype diff_lcs_type = DIFF_LCS_MATCH | DIFF_LCS_DELETE | DIFF_LCS_INSERT

record diff_lcs_item =
  li_type :: diff_lcs_type
  li_name :: cstr

definition lcs_cell :: "cstr list \<Rightarrow> cstr list \<Rightarrow> nat \<Rightarrow> nat \<Rightarrow> nat \<Rightarrow> nat list \<Rightarrow> nat" where
  "lcs_cell a b cols i j dp =
     (if a ! (i - 1) = b ! (j - 1) then dp ! ((i - 1) * cols + (j - 1)) + 1
      else if dp ! ((i - 1) * cols + j) > dp ! (i * cols + (j - 1)) then dp ! ((i - 1) * cols + j)
      else dp ! (i * cols + (j - 1)))"

definition lcs_row :: "cstr list \<Rightarrow> cstr list \<Rightarrow> nat \<Rightarrow> nat \<Rightarrow> nat list \<Rightarrow> nat list" where
  "lcs_row a b cols i dp = foldl (\<lambda>dp j. dp[i * cols + j := lcs_cell a b cols i j dp]) dp [1..<cols]"

definition lcs_build_table :: "bool \<Rightarrow> cstr list \<Rightarrow> cstr list \<Rightarrow> nat list option" where
  "lcs_build_table calloc_ok a b =
     (let rows = length a + 1; cols = length b + 1 in
      if \<not> calloc_ok then None
      else Some (foldl (\<lambda>dp i. lcs_row a b cols i dp) (replicate (rows * cols) 0) [1..<rows]))"

definition diff_lcs_len :: "bool \<Rightarrow> cstr list \<Rightarrow> cstr list \<Rightarrow> nat" where
  "diff_lcs_len calloc_ok a b =
     (if length a = 0 \<or> length b = 0 then 0
      else (case lcs_build_table calloc_ok a b of
              None \<Rightarrow> 0
            | Some dp \<Rightarrow> dp ! (length a * (length b + 1) + length b)))"

text \<open>The three loops of the walk; the result is the number of items emitted and the context.\<close>

fun insert_loop :: "(diff_lcs_item \<Rightarrow> 'c \<Rightarrow> int \<times> 'c) \<Rightarrow> cstr list \<Rightarrow> nat \<Rightarrow> nat \<Rightarrow> 'c \<Rightarrow> nat \<times> 'c" where
  "insert_loop cb b 0 emitted ctx = (emitted, ctx)"
| "insert_loop cb b (Suc j) emitted ctx =
     (case cb \<lparr>li_type = DIFF_LCS_INSERT, li_name = b ! j\<rparr> ctx of (rc, ctx1) \<Rightarrow>
        if rc \<noteq> 0 then (emitted + 1, ctx1) else insert_loop cb b j (emitted + 1) ctx1)"

fun delete_loop :: "(diff_lcs_item \<Rightarrow> 'c \<Rightarrow> int \<times> 'c) \<Rightarrow> cstr list \<Rightarrow> cstr list \<Rightarrow> nat \<Rightarrow> nat \<Rightarrow> nat \<Rightarrow> 'c \<Rightarrow> nat \<times> 'c" where
  "delete_loop cb a b 0 j emitted ctx = insert_loop cb b j emitted ctx"
| "delete_loop cb a b (Suc i) j emitted ctx =
     (case cb \<lparr>li_type = DIFF_LCS_DELETE, li_name = a ! i\<rparr> ctx of (rc, ctx1) \<Rightarrow>
        if rc \<noteq> 0 then (emitted + 1, ctx1) else delete_loop cb a b i j (emitted + 1) ctx1)"

definition walk_turn :: "cstr list \<Rightarrow> cstr list \<Rightarrow> nat list \<Rightarrow> nat \<Rightarrow> nat \<Rightarrow> diff_lcs_item \<times> nat \<times> nat" where
  "walk_turn a b dp i j =
     (let cols = length b + 1 in
      if a ! (i - 1) = b ! (j - 1) then (\<lparr>li_type = DIFF_LCS_MATCH, li_name = a ! (i - 1)\<rparr>, i - 1, j - 1)
      else if dp ! ((i - 1) * cols + j) \<ge> dp ! (i * cols + (j - 1)) then
        (\<lparr>li_type = DIFF_LCS_DELETE, li_name = a ! (i - 1)\<rparr>, i - 1, j)
      else (\<lparr>li_type = DIFF_LCS_INSERT, li_name = b ! (j - 1)\<rparr>, i, j - 1))"

function lcs_walk_loop ::
  "(diff_lcs_item \<Rightarrow> 'c \<Rightarrow> int \<times> 'c) \<Rightarrow> cstr list \<Rightarrow> cstr list \<Rightarrow> nat list \<Rightarrow> nat \<Rightarrow> nat \<Rightarrow> nat \<Rightarrow> 'c \<Rightarrow> nat \<times> 'c" where
  "lcs_walk_loop cb a b dp i j emitted ctx =
     (if i > 0 \<and> j > 0 then
        (case walk_turn a b dp i j of (item, i1, j1) \<Rightarrow>
           (case cb item ctx of (rc, ctx1) \<Rightarrow>
              if rc \<noteq> 0 then (emitted + 1, ctx1) else lcs_walk_loop cb a b dp i1 j1 (emitted + 1) ctx1))
      else delete_loop cb a b i j emitted ctx)"
  by pat_completeness auto
termination
  by (relation "measure (\<lambda>(_, _, _, _, i, j, _, _). i + j)") (auto simp: walk_turn_def Let_def split: if_splits)

declare lcs_walk_loop.simps [simp del]

definition diff_lcs_walk :: "bool \<Rightarrow> cstr list \<Rightarrow> cstr list \<Rightarrow> (diff_lcs_item \<Rightarrow> 'c \<Rightarrow> int \<times> 'c) \<Rightarrow> 'c \<Rightarrow> int \<times> 'c" where
  "diff_lcs_walk calloc_ok a b cb ctx =
     (if length a = 0 \<and> length b = 0 then (0, ctx)
      else (case lcs_build_table calloc_ok a b of
              None \<Rightarrow> (-1, ctx)
            | Some dp \<Rightarrow> (case lcs_walk_loop cb a b dp (length a) (length b) 0 ctx of (n, ctx1) \<Rightarrow> (int n, ctx1))))"

subsection \<open>The length of a longest common subsequence\<close>

fun lcs :: "cstr list \<Rightarrow> cstr list \<Rightarrow> nat \<Rightarrow> nat \<Rightarrow> nat" where
  "lcs a b 0 j = 0"
| "lcs a b (Suc i) 0 = 0"
| "lcs a b (Suc i) (Suc j) = (if a ! i = b ! j then lcs a b i j + 1 else max (lcs a b i (Suc j)) (lcs a b (Suc i) j))"

lemma lcs_zero [simp]: "lcs a b i 0 = 0"
  by (cases i) simp_all

definition common :: "cstr list \<Rightarrow> cstr list \<Rightarrow> cstr list \<Rightarrow> bool" where
  "common s xs ys \<longleftrightarrow> subseq s xs \<and> subseq s ys"

lemma subseq_snoc:
  "subseq s (xs @ [x]) \<longleftrightarrow> subseq s xs \<or> (\<exists>s'. s = s' @ [x] \<and> subseq s' xs)"
proof
  assume "subseq s (xs @ [x])"
  then obtain s1 s2 where s: "s = s1 @ s2" "subseq s1 xs" "subseq s2 [x]" by (auto simp: subseq_append_iff)
  then consider "s2 = []" | "s2 = [x]" by (cases s2) (auto split: if_splits)
  then show "subseq s xs \<or> (\<exists>s'. s = s' @ [x] \<and> subseq s' xs)" using s by cases auto
qed (auto simp: subseq_append_iff intro: exI [of _ "[]"])

lemma subseq_init: "subseq (s @ [x]) ys \<Longrightarrow> subseq s ys"
  by (rule subseq_order.order_trans [of s "s @ [x]"]) (simp_all add: subseq_snoc)

lemma lcs_reached:
  "i \<le> length a \<Longrightarrow> j \<le> length b \<Longrightarrow> \<exists>s. common s (take i a) (take j b) \<and> length s = lcs a b i j"
proof (induction a b i j rule: lcs.induct)
  case (3 a b i j)
  have t: "take (Suc i) a = take i a @ [a ! i]" "take (Suc j) b = take j b @ [b ! j]" using 3(4,5) by (simp_all add: take_Suc_conv_app_nth)
  show ?case
  proof (cases "a ! i = b ! j")
    case True
    then obtain s where "common s (take i a) (take j b)" "length s = lcs a b i j" using 3 by auto
    then show ?thesis using True by (intro exI [of _ "s @ [b ! j]"]) (auto simp: common_def t subseq_snoc)
  next
    case False
    then obtain s s' where "common s (take i a) (take (Suc j) b)" "length s = lcs a b i (Suc j)"
      "common s' (take (Suc i) a) (take j b)" "length s' = lcs a b (Suc i) j" using 3 by fastforce
    then show ?thesis using False
      by (cases "lcs a b (Suc i) j \<le> lcs a b i (Suc j)") (auto simp: common_def t subseq_snoc max_def intro: exI [of _ s] exI [of _ s'])
  qed
qed (auto simp: common_def intro: exI [of _ "[]"])

lemma lcs_bound:
  "i \<le> length a \<Longrightarrow> j \<le> length b \<Longrightarrow> common s (take i a) (take j b) \<Longrightarrow> length s \<le> lcs a b i j"
proof (induction a b i j arbitrary: s rule: lcs.induct)
  case (3 a b i j)
  have t: "take (Suc i) a = take i a @ [a ! i]" "take (Suc j) b = take j b @ [b ! j]" using 3(4,5) by (simp_all add: take_Suc_conv_app_nth)
  show ?case
  proof (cases "a ! i = b ! j")
    case True
    have "common (butlast s) (take i a) (take j b) \<or> common s (take i a) (take j b)"
      using 3(6) True by (auto simp: common_def t subseq_snoc dest: subseq_init)
    moreover have "length s' \<le> lcs a b i j" if "common s' (take i a) (take j b)" for s' using 3(1) [OF True _ _ that] 3(4,5) by simp
    ultimately show ?thesis using True by fastforce
  next
    case False
    have "common s (take i a) (take (Suc j) b) \<or> common s (take (Suc i) a) (take j b)"
      using 3(6) False by (auto simp: common_def t subseq_snoc)
    moreover have "length s \<le> lcs a b i (Suc j)" if "common s (take i a) (take (Suc j) b)" using 3(2) [OF False _ _ that] 3(4,5) by simp
    moreover have "length s \<le> lcs a b (Suc i) j" if "common s (take (Suc i) a) (take j b)" using 3(3) [OF False _ _ that] 3(4,5) by simp
    ultimately show ?thesis using False by (auto simp: max_def)
  qed
qed (auto simp: common_def)

subsection \<open>The table\<close>

text \<open>The cells filled in before the one in row \<open>i\<close> and column \<open>j\<close>.\<close>

definition table_done :: "cstr list \<Rightarrow> cstr list \<Rightarrow> nat \<Rightarrow> nat \<Rightarrow> nat list \<Rightarrow> bool" where
  "table_done a b i j dp \<longleftrightarrow> length dp = (length a + 1) * (length b + 1) \<and>
     (\<forall>i'\<le>length a. \<forall>j'\<le>length b. i' = 0 \<or> j' = 0 \<or> i' < i \<or> i' = i \<and> j' < j \<longrightarrow> dp ! (i' * (length b + 1) + j') = lcs a b i' j')"

lemma cell_index: "j < cols \<Longrightarrow> j' < cols \<Longrightarrow> i * cols + j = i' * cols + j' \<longleftrightarrow> i = i' \<and> j = (j' :: nat)"
proof
  assume j: "j < cols" "j' < cols" and eq: "i * cols + j = i' * cols + j'"
  have "(i * cols + j) div cols = i" "(i' * cols + j') div cols = i'" using j by simp_all
  then show "i = i' \<and> j = j'" using eq by simp
qed simp

lemma cell_inside:
  assumes "i \<le> n" "j < cols"
  shows "i * cols + j < (n + 1) * (cols :: nat)"
proof -
  have "i * cols + j < i * cols + cols" using assms(2) by simp
  also have "\<dots> = (i + 1) * cols" by simp
  also have "\<dots> \<le> (n + 1) * cols" using assms(1) by (intro mult_le_mono1) simp
  finally show ?thesis .
qed

lemma table_doneD:
  "table_done a b i j dp \<Longrightarrow> i' \<le> length a \<Longrightarrow> j' \<le> length b \<Longrightarrow> i' = 0 \<or> j' = 0 \<or> i' < i \<or> i' = i \<and> j' < j \<Longrightarrow>
   dp ! (i' * (length b + 1) + j') = lcs a b i' j'"
  unfolding table_done_def by blast

lemma cell_filled:
  assumes "table_done a b i j dp" "0 < i" "i \<le> length a" "0 < j" "j \<le> length b"
  shows "lcs_cell a b (length b + 1) i j dp = lcs a b i j"
proof -
  have "dp ! ((i - 1) * (length b + 1) + (j - 1)) = lcs a b (i - 1) (j - 1)" "dp ! ((i - 1) * (length b + 1) + j) = lcs a b (i - 1) j"
    "dp ! (i * (length b + 1) + (j - 1)) = lcs a b i (j - 1)" using assms(2-5) by - (rule table_doneD [OF assms(1)]; linarith)+
  then have "lcs_cell a b (length b + 1) i j dp =
      (if a ! (i - 1) = b ! (j - 1) then lcs a b (i - 1) (j - 1) + 1 else max (lcs a b (i - 1) j) (lcs a b i (j - 1)))"
    unfolding lcs_cell_def by (simp only: max_def) auto
  also have "\<dots> = lcs a b i j" using assms(2,4) by (cases i; cases j) simp_all
  finally show ?thesis .
qed

lemma fill_cell:
  assumes "table_done a b i j dp" "0 < i" "i \<le> length a" "0 < j" "j \<le> length b"
  shows "table_done a b i (j + 1) (dp[i * (length b + 1) + j := lcs_cell a b (length b + 1) i j dp])"
  unfolding table_done_def
proof (intro conjI allI impI)
  show "length (dp[i * (length b + 1) + j := lcs_cell a b (length b + 1) i j dp]) = (length a + 1) * (length b + 1)"
    using assms(1) by (simp add: table_done_def)
next
  fix i' j'
  assume ij: "i' \<le> length a" "j' \<le> length b" "i' = 0 \<or> j' = 0 \<or> i' < i \<or> i' = i \<and> j' < j + 1"
  have len: "i * (length b + 1) + j < length dp"
    using cell_inside [of i "length a" j "length b + 1"] assms(1,3,5) by (simp add: table_done_def)
  show "dp[i * (length b + 1) + j := lcs_cell a b (length b + 1) i j dp] ! (i' * (length b + 1) + j') = lcs a b i' j'"
  proof (cases "i = i' \<and> j = j'")
    case True
    then show ?thesis using len cell_filled [OF assms] by (simp only: nth_list_update_eq)
  next
    case False
    then have "i * (length b + 1) + j \<noteq> i' * (length b + 1) + j'"
      using cell_index [of j "length b + 1" j' i i'] assms(5) ij(2) by simp
    moreover have "dp ! (i' * (length b + 1) + j') = lcs a b i' j'"
      using False ij by (intro table_doneD [OF assms(1)]) auto
    ultimately show ?thesis using nth_list_update_neq by metis
  qed
qed

lemma fill_row:
  assumes "table_done a b i 1 dp" "0 < i" "i \<le> length a"
  shows "table_done a b (i + 1) 1 (lcs_row a b (length b + 1) i dp)"
proof -
  let ?fill = "\<lambda>dp j. dp[i * (length b + 1) + j := lcs_cell a b (length b + 1) i j dp]"
  have "table_done a b i (n + 1) (foldl ?fill dp [1..<n + 1])" if "n \<le> length b" for n
    using that
  proof (induction n)
    case (Suc n)
    have "[1..<Suc n + 1] = [1..<n + 1] @ [Suc n]" by simp
    then have "foldl ?fill dp [1..<Suc n + 1] = ?fill (foldl ?fill dp [1..<n + 1]) (Suc n)" by (simp only: foldl_append foldl_Cons foldl_Nil)
    moreover have "table_done a b i (Suc n) (foldl ?fill dp [1..<n + 1])" using Suc by (simp only: Suc_eq_plus1)
    ultimately show ?case using fill_cell [OF _ assms(2,3), of b "Suc n"] Suc.prems by (simp only: Suc_eq_plus1)
  qed (use assms(1) in simp)
  from this [of "length b"] have "table_done a b i (length b + 1) (lcs_row a b (length b + 1) i dp)" unfolding lcs_row_def by blast
  note f = table_doneD [OF this]
  show ?thesis
    unfolding table_done_def
  proof (intro conjI allI impI)
    show "length (lcs_row a b (length b + 1) i dp) = (length a + 1) * (length b + 1)"
      using \<open>table_done a b i (length b + 1) _\<close> unfolding table_done_def by blast
    fix i' j'
    assume "i' \<le> length a" "j' \<le> length b" "i' = 0 \<or> j' = 0 \<or> i' < i + 1 \<or> i' = i + 1 \<and> j' < 1"
    then show "lcs_row a b (length b + 1) i dp ! (i' * (length b + 1) + j') = lcs a b i' j'" by (intro f) linarith+
  qed
qed

lemma table_is_lcs:
  "\<exists>dp. lcs_build_table True a b = Some dp \<and> (\<forall>i\<le>length a. \<forall>j\<le>length b. dp ! (i * (length b + 1) + j) = lcs a b i j)"
proof -
  let ?start = "replicate ((length a + 1) * (length b + 1)) (0 :: nat)" and ?row = "\<lambda>dp i. lcs_row a b (length b + 1) i dp"
  have "table_done a b 1 1 ?start"
    unfolding table_done_def
  proof (intro conjI allI impI)
    fix i j
    assume ij: "i \<le> length a" "j \<le> length b" "i = 0 \<or> j = 0 \<or> i < 1 \<or> i = 1 \<and> j < 1"
    then have "?start ! (i * (length b + 1) + j) = 0" by (intro nth_replicate cell_inside) simp_all
    then show "?start ! (i * (length b + 1) + j) = lcs a b i j" using ij(3) by auto
  qed simp
  then have "table_done a b (n + 1) 1 (foldl ?row ?start [1..<n + 1])" if "n \<le> length a" for n
    using that
  proof (induction n)
    case (Suc n)
    have "[1..<Suc n + 1] = [1..<n + 1] @ [Suc n]" by simp
    then have "foldl ?row ?start [1..<Suc n + 1] = ?row (foldl ?row ?start [1..<n + 1]) (Suc n)" by (simp only: foldl_append foldl_Cons foldl_Nil)
    moreover have "table_done a b (Suc n) 1 (foldl ?row ?start [1..<n + 1])" using Suc by (simp only: Suc_eq_plus1)
    ultimately show ?case using fill_row [of a b "Suc n"] Suc.prems by (simp only: Suc_eq_plus1)
  qed simp
  from this [of "length a"] have f: "table_done a b (length a + 1) 1 (foldl ?row ?start [1..<length a + 1])" by simp
  show ?thesis
    by (rule exI [of _ "foldl ?row ?start [1..<length a + 1]"]) (use table_doneD [OF f] in \<open>auto simp: lcs_build_table_def Let_def less_Suc_eq_le\<close>)
qed

subsection \<open>The walk\<close>

text \<open>The items of a walk in the order they are emitted, and a callback fed with them until it stops.\<close>

function walk_items :: "cstr list \<Rightarrow> cstr list \<Rightarrow> nat list \<Rightarrow> nat \<Rightarrow> nat \<Rightarrow> diff_lcs_item list" where
  "walk_items a b dp i j =
     (if i > 0 \<and> j > 0 then (case walk_turn a b dp i j of (item, i1, j1) \<Rightarrow> item # walk_items a b dp i1 j1)
      else map (\<lambda>x. \<lparr>li_type = DIFF_LCS_DELETE, li_name = x\<rparr>) (rev (take i a)) @
           map (\<lambda>x. \<lparr>li_type = DIFF_LCS_INSERT, li_name = x\<rparr>) (rev (take j b)))"
  by pat_completeness auto
termination
  by (relation "measure (\<lambda>(_, _, _, i, j). i + j)") (auto simp: walk_turn_def Let_def split: if_splits)

declare walk_items.simps [simp del]

fun feed :: "('i \<Rightarrow> 'c \<Rightarrow> int \<times> 'c) \<Rightarrow> 'i list \<Rightarrow> nat \<Rightarrow> 'c \<Rightarrow> nat \<times> 'c" where
  "feed cb [] n ctx = (n, ctx)"
| "feed cb (x # xs) n ctx = (case cb x ctx of (rc, ctx1) \<Rightarrow> if rc \<noteq> 0 then (n + 1, ctx1) else feed cb xs (n + 1) ctx1)"

lemma insert_loop_feed:
  "j \<le> length b \<Longrightarrow> insert_loop cb b j n ctx = feed cb (map (\<lambda>x. \<lparr>li_type = DIFF_LCS_INSERT, li_name = x\<rparr>) (rev (take j b))) n ctx"
  by (induction j arbitrary: n ctx) (auto simp: take_Suc_conv_app_nth split: prod.split)

lemma delete_loop_feed:
  "i \<le> length a \<Longrightarrow> j \<le> length b \<Longrightarrow> delete_loop cb a b i j n ctx =
     feed cb (map (\<lambda>x. \<lparr>li_type = DIFF_LCS_DELETE, li_name = x\<rparr>) (rev (take i a)) @
              map (\<lambda>x. \<lparr>li_type = DIFF_LCS_INSERT, li_name = x\<rparr>) (rev (take j b))) n ctx"
  by (induction i arbitrary: n ctx) (auto simp: take_Suc_conv_app_nth insert_loop_feed split: prod.split)

lemma walk_turn_bounds:
  "walk_turn a b dp i j = (item, i1, j1) \<Longrightarrow> i1 \<le> i \<and> j1 \<le> j"
  by (auto simp: walk_turn_def Let_def split: if_splits)

lemma lcs_walk_feed:
  "i \<le> length a \<Longrightarrow> j \<le> length b \<Longrightarrow> lcs_walk_loop cb a b dp i j n ctx = feed cb (walk_items a b dp i j) n ctx"
proof (induction a b dp i j arbitrary: n ctx rule: walk_items.induct)
  case (1 a b dp i j)
  show ?case
  proof (cases "i > 0 \<and> j > 0")
    case True
    obtain item i1 j1 where t: "walk_turn a b dp i j = (item, i1, j1)" by (cases "walk_turn a b dp i j")
    have "lcs_walk_loop cb a b dp i1 j1 n ctx = feed cb (walk_items a b dp i1 j1) n ctx" for n ctx
      using 1(1) [OF True t [symmetric] refl] walk_turn_bounds [OF t] 1(2,3) by simp
    then show ?thesis
      using True t by (subst lcs_walk_loop.simps, subst walk_items.simps) (simp split: prod.split)
  next
    case False
    have "walk_items a b dp i j = map (\<lambda>x. \<lparr>li_type = DIFF_LCS_DELETE, li_name = x\<rparr>) (rev (take i a)) @
        map (\<lambda>x. \<lparr>li_type = DIFF_LCS_INSERT, li_name = x\<rparr>) (rev (take j b))"
      using False by (subst walk_items.simps) (simp only: if_False simp_thms)
    moreover have "lcs_walk_loop cb a b dp i j n ctx = delete_loop cb a b i j n ctx"
      using False by (subst lcs_walk_loop.simps) (simp only: if_False simp_thms)
    ultimately show ?thesis using delete_loop_feed [OF 1(2,3)] by (simp only:)
  qed
qed

text \<open>An edit script in the order of the traces: what it keeps of both sides, its matches and its edits.\<close>

definition before :: "diff_lcs_item list \<Rightarrow> cstr list" where
  "before xs = map li_name (filter (\<lambda>x. li_type x \<noteq> DIFF_LCS_INSERT) xs)"

definition after :: "diff_lcs_item list \<Rightarrow> cstr list" where
  "after xs = map li_name (filter (\<lambda>x. li_type x \<noteq> DIFF_LCS_DELETE) xs)"

definition matches :: "diff_lcs_item list \<Rightarrow> cstr list" where
  "matches xs = map li_name (filter (\<lambda>x. li_type x = DIFF_LCS_MATCH) xs)"

definition edits :: "diff_lcs_item list \<Rightarrow> nat" where
  "edits xs = length (filter (\<lambda>x. li_type x \<noteq> DIFF_LCS_MATCH) xs)"

lemmas script_defs = before_def after_def matches_def edits_def

lemma script_sides:
  "common (matches xs) (before xs) (after xs)" "edits xs + 2 * length (matches xs) = length (before xs) + length (after xs)"
proof -
  have "subseq (matches xs) (before xs)" "subseq (matches xs) (after xs)"
    by (induction xs) (auto simp: script_defs)
  then show "common (matches xs) (before xs) (after xs)" by (simp add: common_def)
  show "edits xs + 2 * length (matches xs) = length (before xs) + length (after xs)"
  proof (induction xs)
    case (Cons x xs)
    then show ?case by (cases "li_type x") (simp_all add: script_defs)
  qed (simp add: script_defs)
qed

lemma script_of_rest:
  "before (rev (map (\<lambda>x. \<lparr>li_type = DIFF_LCS_DELETE, li_name = x\<rparr>) xs @ map (\<lambda>x. \<lparr>li_type = DIFF_LCS_INSERT, li_name = x\<rparr>) ys)) = rev xs"
  "after (rev (map (\<lambda>x. \<lparr>li_type = DIFF_LCS_DELETE, li_name = x\<rparr>) xs @ map (\<lambda>x. \<lparr>li_type = DIFF_LCS_INSERT, li_name = x\<rparr>) ys)) = rev ys"
  "matches (rev (map (\<lambda>x. \<lparr>li_type = DIFF_LCS_DELETE, li_name = x\<rparr>) xs @ map (\<lambda>x. \<lparr>li_type = DIFF_LCS_INSERT, li_name = x\<rparr>) ys)) = []"
  by (simp_all add: script_defs rev_map [symmetric] filter_map comp_def)

lemma walk_items_script:
  assumes "\<forall>i\<le>length a. \<forall>j\<le>length b. dp ! (i * (length b + 1) + j) = lcs a b i j"
  shows "i \<le> length a \<Longrightarrow> j \<le> length b \<Longrightarrow>
    before (rev (walk_items a b dp i j)) = take i a \<and> after (rev (walk_items a b dp i j)) = take j b \<and>
    length (matches (rev (walk_items a b dp i j))) = lcs a b i j"
  using assms
proof (induction a b dp i j rule: walk_items.induct)
  case (1 a b dp i j)
  show ?case
  proof (cases "i > 0 \<and> j > 0")
    case False
    then have "walk_items a b dp i j = map (\<lambda>x. \<lparr>li_type = DIFF_LCS_DELETE, li_name = x\<rparr>) (rev (take i a)) @
        map (\<lambda>x. \<lparr>li_type = DIFF_LCS_INSERT, li_name = x\<rparr>) (rev (take j b))"
      by (subst walk_items.simps) (simp only: if_False simp_thms)
    moreover have "lcs a b i j = 0" using False by auto
    ultimately show ?thesis by (simp only: script_of_rest rev_rev_ident list.size simp_thms)
  next
    case True
    then obtain i' j' where ij: "i = Suc i'" "j = Suc j'" by (metis gr0_implies_Suc)
    then have t: "take i a = take i' a @ [a ! i']" "take j b = take j' b @ [b ! j']" using 1(2,3) by (simp_all add: take_Suc_conv_app_nth)
    obtain item i1 j1 where w: "walk_turn a b dp i j = (item, i1, j1)" by (cases "walk_turn a b dp i j")
    then have items: "walk_items a b dp i j = item # walk_items a b dp i1 j1" using True by (subst walk_items.simps) simp
    have IH: "before (rev (walk_items a b dp i1 j1)) = take i1 a \<and> after (rev (walk_items a b dp i1 j1)) = take j1 b \<and>
        length (matches (rev (walk_items a b dp i1 j1))) = lcs a b i1 j1"
      using 1(1) [OF True w [symmetric] refl] walk_turn_bounds [OF w] 1(2-4) by simp
    have dp: "dp ! ((i - 1) * (length b + 1) + j) = lcs a b i' j" "dp ! (i * (length b + 1) + (j - 1)) = lcs a b i j'"
      using 1(2-4) ij by (auto simp del: mult_Suc mult_Suc_right add_Suc_right)
    have c: "item = \<lparr>li_type = DIFF_LCS_MATCH, li_name = a ! i'\<rparr> \<and> a ! i' = b ! j' \<and> i1 = i' \<and> j1 = j' \<or>
        item = \<lparr>li_type = DIFF_LCS_DELETE, li_name = a ! i'\<rparr> \<and> i1 = i' \<and> j1 = j \<and> lcs a b i j = lcs a b i' j \<or>
        item = \<lparr>li_type = DIFF_LCS_INSERT, li_name = b ! j'\<rparr> \<and> i1 = i \<and> j1 = j' \<and> lcs a b i j = lcs a b i j'"
      using w ij unfolding walk_turn_def Let_def dp by (auto simp: max_def split: if_splits)
    show ?thesis unfolding items using c IH t ij by (elim disjE) (auto simp: script_defs)
  qed
qed

text \<open>
  C13. Traces are aligned optimally.  The computed length is the length of a longest common
  subsequence of the two traces.  The walk hands the callback, last item first and until it
  stops, the items of an edit script whose matches and deletions are the first trace and whose
  matches and insertions are the second; its matches are a longest common subsequence, and no
  script between the two traces has fewer edits.  It returns the number of items handed over.
  If the table cannot be allocated, the walk fails without calling back.
\<close>

theorem diff_lcs_optimal:
  "(\<exists>s. common s a b \<and> length s = diff_lcs_len True a b) \<and> (\<forall>s. common s a b \<longrightarrow> length s \<le> diff_lcs_len True a b) \<and>
   (\<exists>items. (case diff_lcs_walk True a b cb ctx of (n, ctx') \<Rightarrow> feed cb items 0 ctx = (nat n, ctx') \<and> 0 \<le> n) \<and>
      before (rev items) = a \<and> after (rev items) = b \<and> length (matches (rev items)) = diff_lcs_len True a b \<and>
      (\<forall>ys. before ys = a \<and> after ys = b \<longrightarrow> edits items \<le> edits ys)) \<and>
   (a \<noteq> [] \<or> b \<noteq> [] \<longrightarrow> diff_lcs_walk False a b cb ctx = (-1, ctx))"
proof -
  from table_is_lcs [of a b] obtain dp where
    dp: "lcs_build_table True a b = Some dp" "\<forall>i\<le>length a. \<forall>j\<le>length b. dp ! (i * (length b + 1) + j) = lcs a b i j" by blast
  have len: "diff_lcs_len True a b = lcs a b (length a) (length b)"
    using dp by (auto simp: diff_lcs_len_def simp del: mult_Suc_right)
  define items where "items = walk_items a b dp (length a) (length b)"
  have s: "before (rev items) = a" "after (rev items) = b" "length (matches (rev items)) = lcs a b (length a) (length b)"
    using walk_items_script [OF dp(2), of "length a" "length b"] by (simp_all add: items_def)
  have best: "length s \<le> lcs a b (length a) (length b)" if "common s a b" for s using lcs_bound [of "length a" a "length b" b s] that by simp
  have "edits items \<le> edits ys" if "before ys = a" "after ys = b" for ys
  proof -
    have "edits items = edits (rev items)" by (simp add: edits_def rev_filter [symmetric])
    moreover have "length (matches ys) \<le> lcs a b (length a) (length b)" using best script_sides(1) [of ys] that by simp
    ultimately show ?thesis using script_sides(2) [of ys] script_sides(2) [of "rev items"] that s by simp
  qed
  moreover have "case diff_lcs_walk True a b cb ctx of (n, ctx') \<Rightarrow> feed cb items 0 ctx = (nat n, ctx') \<and> 0 \<le> n"
  proof (cases "a = [] \<and> b = []")
    case True
    then have "items = []" unfolding items_def by (subst walk_items.simps) simp
    then show ?thesis using True by (simp add: diff_lcs_walk_def)
  next
    case False
    then show ?thesis
      using dp(1) lcs_walk_feed [of "length a" a "length b" b cb dp 0 ctx] by (auto simp: diff_lcs_walk_def items_def split: prod.split)
  qed
  moreover have "\<exists>s. common s a b \<and> length s = lcs a b (length a) (length b)" using lcs_reached [of "length a" a "length b" b] by simp
  moreover have "a \<noteq> [] \<or> b \<noteq> [] \<longrightarrow> diff_lcs_walk False a b cb ctx = (-1, ctx)" by (auto simp: diff_lcs_walk_def lcs_build_table_def)
  ultimately show ?thesis using best s unfolding len by (intro conjI exI [of _ items]) simp_all
qed

theorem diff_lcs_optimal_witness:
  "diff_lcs_len True [''open'', ''read'', ''close''] [''open'', ''close''] = 2 \<and>
   common [''open'', ''close''] [''open'', ''read'', ''close''] [''open'', ''close'']"
proof -
  let ?a = "[''open'', ''read'', ''close'']" and ?b = "[''open'', ''close'']"
  have c: "common ?b ?a ?b" by (simp add: common_def)
  have o: "(\<exists>s. common s ?a ?b \<and> length s = diff_lcs_len True ?a ?b) \<and> (\<forall>s. common s ?a ?b \<longrightarrow> length s \<le> diff_lcs_len True ?a ?b)"
    using diff_lcs_optimal [of ?a ?b "\<lambda>_ c. (0, c)" "()"] by blast
  then obtain s where "subseq s ?b" "length s = diff_lcs_len True ?a ?b" by (auto simp: common_def)
  then have "diff_lcs_len True ?a ?b \<le> 2" using list_emb_length [of "(=)" s ?b] by simp
  moreover have "2 \<le> diff_lcs_len True ?a ?b" using o c by fastforce
  ultimately show ?thesis using c by simp
qed

end
