(* ===== verification/Spec2Isabelle.thy ===== *)
theory Spec2Isabelle
  imports Redact Filter_Glob Agent_Ring Log_Spsc Log_Registry Filter_Print Filter_Context Call_Counters Sockaddr Enforcement Log_Document Json_Reparse Log_Typed
    Journal_Tamper Journal_Tail Journal_Retain Daemon_Session Trace_Lcs
begin

text \<open>
  Verification of the core of \<^emph>\<open>retrace\<close>, a library that intercepts the calls a program
  makes to its C library, together with the daemon that supervises such programs.

  \<^bold>\<open>The program.\<close>  A trampoline, or the loop of a tracer, catches a call and hands its frame to
  the engine (\<open>src/src/core/engine.c\<close>).  The engine looks up the prototype, resolves the real
  function, chooses a script from the configuration and runs the actions of the script, which
  read and change parameters, make or refuse the real call, and log.  The logger queues JSON
  entries in rings, one per thread, and a flusher redacts them and writes them to sinks.  An
  agent inside the process reports to the daemon \<open>retraced\<close>, which keeps a registry of agents,
  a hash-chained journal and a matcher for system calls the library did not see.

  \<^bold>\<open>How it is modelled.\<close>  A C string is a \<open>string\<close> without NUL, a pointer into it a suffix, a
  pointer that may be null an \<open>option\<close>; a structure is a record, a machine integer a word where
  its width matters; state is passed explicitly; behaviour C leaves undefined, and a loop that
  would not end, is \<open>None\<close>.  Allocators, clocks, random bytes, files, \<open>strtod\<close>, the formatting of
  numbers and the real functions are arguments; a real function is one from the state of
  the process and its world to a result and a new such state.  Definitions have the names of
  the source.

  \<^bold>\<open>What is claimed.\<close>  Where comments and documents of the repository say what the code does not do,
  the properties leave these cases out and say so, and a lemma shows what happens in them:
  \<open>script_find_order\<close> (order of scripts), \<open>resolve_0\<close> (no caller is known to the engine),
  \<open>filtered_not_intercepted\<close> (functions not logged), \<open>sandbox_openat_flags_ignored\<close>,
  \<open>denied_path_decoyed\<close> and \<open>denied_variable_put\<close> (the sandbox), \<open>log_params_exact\<close> (the return
  value is not logged), \<open>drain_deliver\<close> (what a stopped drain returns), \<open>string_before_hole\<close>
  (strings before an unmapped page), \<open>replayed_agents\<close> and \<open>replayed_identity_reused\<close> (the registry
  after a replay).

  \<^bold>\<open>Libraries.\<close>  \<open>Retrace_Prelude\<close> has the shared types and lemmas; \<open>Open_Addressing\<close>,
  \<open>Last_Ring\<close> and \<open>Printed_Numbers\<close> facts on probing, on rings that keep the newest entries and
  on numbers printed and read back.  Interfaces are locales, each interpreted on the
  definitions of the program: \<open>star_backtrack\<close> (\<open>Glob\<close>; both glob matchers), \<open>bounded_fifo\<close>
  (the agent's and the logger's ring), \<open>memo_cache\<close> (the caller cache), \<open>name_registry\<close>
  (prototypes, actions and data types), \<open>as_lane\<close> (\<open>As_Ops\<close>; the trampoline and the ptrace
  frame) and \<open>keyed_search\<close> (\<open>Keyed_List\<close>; the registry of agents).

  \<^bold>\<open>Engine\<close> (\<open>src/src/core\<close>, \<open>src/src/backends\<close>).
  \<^item> \<open>Call_Context\<close>, \<open>Name_Registry\<close>, \<open>Registries\<close>, \<open>Data_Types\<close>: a call in flight, the
    registries of \<open>funcs.c\<close>, \<open>actions.c\<close>, \<open>data_types.c\<close>, and \<open>action_runner.c\<close>.  What was
    registered is found, and a script runs up to the first action that fails.
  \<^item> \<open>Prototypes\<close> and \<open>Prototypes_*\<close>, \<open>Prototype_Types\<close>: the 337 prototypes, and their typing.
  \<^item> \<open>Caller_Cache\<close>, \<open>Real_Cache\<close>, \<open>Call_Hash\<close>, \<open>Func_Filter\<close>, \<open>As_Ops\<close>: the caches of the
    dispatch, which change no answer, and the operations on frames.
    Strings of a traced process are read in chunks, each of which is read whole or not at all.
  \<^item> \<open>Config_Cache\<close>, \<open>Script_Resolver\<close>: the index of scripts, and that the choice made through
    it is the first script that matches the function and the call site, for configurations in
    the documented order; \<open>script_find_indexed\<close> is the rule for all.
  \<^item> \<open>Engine\<close>, \<open>Basic_Actions\<close>, \<open>Enforcement\<close>: the dispatch as a whole, and in this theory a
    sandboxed call from the trampoline to its caller.

  \<^bold>\<open>Filters\<close> (\<open>filter_dsl.c\<close>).  \<open>Filter_Lex\<close>, \<open>Filter_Tree\<close>, \<open>Filter_Parser\<close>, \<open>Filter_Refine\<close>,
  \<open>Filter_Build\<close>, \<open>Filter_Eval\<close>, \<open>Filter_Correct\<close>, \<open>Filter_Print\<close>, \<open>Filter_Context\<close>: the compiler
  onto growing arenas refines a grammar, evaluation agrees with the meaning of the tree, and
  every tree is the meaning of some text that compiles.  \<open>Filter_Glob\<close>: its glob matcher decides the match relation.

  \<^bold>\<open>Policies.\<close>  \<open>Path_Set\<close> and \<open>Sandbox\<close> (\<open>sandbox.c\<close>), \<open>Sockaddr\<close> (\<open>sockaddr_inspect.c\<close>,
  \<open>addr_deny.c\<close>), \<open>Call_Counters\<close> (\<open>call_count_limit.c\<close>, \<open>fail_first.c\<close>): each denies exactly
  what its policy says.  For the sandbox the policy is written down apart from the code: which
  calls are writes, which argument is policed, when a list applies (\<open>admits\<close>, \<open>outcome\<close>).

  \<^bold>\<open>Logging.\<close>  \<open>Log_Ring\<close>, \<open>Log_Spsc\<close>, \<open>Log_Registry\<close>, \<open>Agent_Ring\<close>: the rings are bounded queues,
  also under the interleavings of a producer and a consumer.  \<open>Redact\<close>: no text of a registered
  pattern is left.  \<open>Logger\<close>, \<open>Log_Document\<close>: on a standard output in array mode, every
  interleaving that ends with the flusher running leaves one bracketed document with all
  entries, which is a JSON array if its lines are JSON texts.
  \<open>Type_Printers\<close>, \<open>Slot_Values\<close>, \<open>Log_Params\<close>, \<open>Log_Objects\<close>, \<open>Log_Typed\<close>: the entry logged for a
  call of a well-typed function, on a little-endian machine, shows its parameters and the
  objects their pointers lead to, as the bytes in memory determine them.

  \<^bold>\<open>JSON\<close> (\<open>parson.c\<close>).  \<open>Json\<close>, \<open>Json_Text\<close>, \<open>Json_Parse\<close>, \<open>Json_Print\<close>, \<open>Json_Build\<close>,
  \<open>Json_Reparse\<close>: parsing ends, what is written is read back if its numbers are, objects are maps.

  \<^bold>\<open>Daemon\<close> (\<open>src/src/supervisor/protocol.c\<close>, \<open>src/tools/retraced\<close>).
  \<^item> \<open>Rpc_Frame\<close>: frames, and the buffer of a connection; messages arrive whole and in order.
  \<^item> \<open>Agent_Registry\<close>: \<open>registry.c\<close> refines a map from identities to agents.
  \<^item> \<open>Journal\<close>, \<open>Journal_Replay\<close>, \<open>Journal_Lines\<close>, \<open>Journal_Chain\<close>, \<open>Journal_Tamper\<close>,
    \<open>Journal_Tail\<close>, \<open>Journal_Retain\<close>: \<open>journal.c\<close>; what survives a crash, which edits are
    noticed, the tail, and that retention ends within its budget.  The theorems on its contents are about one file without rotation, and about events whose
    payload is JSON on one line; \<open>noise_accepted\<close> and \<open>pruned_series_refused\<close> show what happens
    outside these bounds.
  \<^item> \<open>Drift_Hits\<close>: \<open>drift_hits.c\<close>; an escape is named exactly when nothing accounts for it.
  \<^item> \<open>Daemon_Frame\<close>, \<open>Daemon_Session\<close>: \<open>daemon_frame.c\<close>, \<open>peer_gate.c\<close> and \<open>handle_agent_frame\<close>
    of \<open>main.c\<close>; what a connection can add to the journal, and that the policy needs the nonce.

  \<^bold>\<open>Tools.\<close>  \<open>Trace_Lcs\<close> (\<open>src/tools/trace-diff/lcs.c\<close>): two traces are aligned with the fewest
  edits.

  \<^bold>\<open>Bounds.\<close>  Recursion is structural or has a termination proof, with these exceptions, where
  the fuel is shown to be enough: the filter parser has four times the length of its
  text plus five, the JSON parser twice the length plus one, and the retention loop of the
  journal one turn more than the number of the live segment (\<open>retain_ends\<close>).  Objects are
  printed to depth eight; the tables need one.

  \<^bold>\<open>Not modelled.\<close>  Assembly trampolines, loaders, hooks and injection, the loops around ptrace and
  poll, TLS and signatures: their meaning is that of the machine, the kernel or a library that
  is only called.  Start-up, the command line, the agent's threads, the controller's commands
  and the Windows pipe server are mostly sequences of system calls.  Other parts are left out
  although they are ordinary computations: the fault injecting and decoding actions, the
  replacement of array elements, replay, and the offline tools that convert, correlate and
  profile traces, or report on their comparison.  In what is modelled, threads interleave their accesses to shared memory
  (\<open>Log_Spsc\<close> says why this covers the orders its ring uses), code under a lock is one step, and
  the allocation of JSON trees succeeds.
\<close>

text \<open>
  C1. Enforcement from the trampoline to the caller.  Take an intercepted function with a
  prototype of at most six parameters and no variable arguments, which the log filter lets
  through, and whose script, the first that is for it or for every function, is \<open>sandbox\<close>
  followed by \<open>call_real\<close>; none of its scripts is bound to call sites, and those for every
  function come after its own.  A dispatch on the trampoline lane then returns and never leaves
  the real call to the trampoline.  When the policy lets the call through, the real implementation runs once: its
  arguments are the argument registers, the caller sees its result, and the process and the
  world are left as that one call leaves them.  A read that the policy redirects to a decoy
  is such a call too, with the decoy's path in place of the path.  When the policy refuses the call,
  the process and the world stay as they are, up to the cache of compiled lists, and the caller
  sees the failure value.  Allocations by the engine succeed; the policy is one \<open>sandbox\<close>
  implements as described, and the agent of the supervisor, which the engine wakes at each call,
  leaves the state alone.
\<close>

theorem sandboxed_dispatch:
  assumes "en_inited s" "table_ok ev M f (en_cache s)" "f = strip_darwin_extsn name 64" "f \<noteq> ''*''" "real_of ev M f \<noteq> 0"
    and "en_ctx s = Some zero_context \<or> en_ctx s = None \<and> ev_malloc_ok ev \<and> ev_tss_ok ev"
    and "retrace_config_cache_build True buckets_ok (ev_conf ev) g0 = Some (0, ev_snap ev)"
    and "json_object_get_array (ev_conf ev) ''intercept_scripts'' = Some scripts"
    and "cache_ok (ev_dladdr ev) (en_callers s)" "ev_agent_kick ev (en_rest s) = en_rest s"
    and "ev_ops ev = retrace_as_ops_default fl dts True scan mem apply_fn"
    and "retrace_func_get f (ev_funcs ev) = Some p" "fpr_fmt p = FAT_NOVARARGS" "length (fpr_params p) \<le> 6"
    and "f \<noteq> []" "ev_allowed ev = [] \<or> f \<in> set (ev_allowed ev)" "f \<notin> set (ev_excluded ev)" "plain_scripts scripts f"
    and "first_script (named_or_any f) scripts = Some script"
    and "json_object_get_array (Some script) ''actions'' = Some [sandbox_entry P, call_real_entry]"
    and "retrace_actions_get ''sandbox'' (ev_actions ev) = Some (on_context (sandbox_action senv))"
    and "retrace_actions_get ''call_real'' (ev_actions ev) = Some (ia_call_real apply_fn True (ev_ops ev))"
    and "sets_from hp (pr_sets (en_rest s))" "lists_at senv P hp" "has_policy P" "as_described P (call_seen p frame)"
  shows "\<exists>frame' s' sets. retrace_engine_wrapper ev name frame s = Some (frame', s') \<and> (\<forall>b. \<not> sysv_runs frame' b) \<and>
    en_ctx s' = Some zero_context \<and> sets_from hp sets \<and>
    (case outcome senv P (pr_mem (en_rest s)) (call_seen p frame) of (rc, t, mem1) \<Rightarrow>
       if rc = 0
       then \<exists>v. sysv_returns frame' = Some v \<and>
         (v, en_rest s') = apply_fn (real_of ev M f) (map fp_val (tc_params t)) ((en_rest s)\<lparr>pr_mem := mem1, pr_sets := sets\<rparr>)
       else sysv_returns frame' = Some (if fpr_type_name p = ''ptr'' then 0 else -1) \<and> en_rest s' = (en_rest s)\<lparr>pr_sets := sets\<rparr>)"
proof -
  let ?fr = "sched_real (ev_ops ev) frame (real_of ev M f)"
  have same: "fixed_params p ?fr = fixed_params p frame"
    by (simp add: assms(11) retrace_as_ops_default_def retrace_as_trampoline_sched_real_def fixed_params_def arg_regs_def)
  have su: "setup_params (ev_ops ev) ?fr p (replicate ENGINE_MAXCOUNT_PARAMS zero_param) = Some (True, fixed_params p frame)"
    using setup_fixed [OF assms(13,14)] same by (simp add: assms(11) retrace_as_ops_default_def)
  have sel: "selected ev scripts f ?fr = Some (p, fixed_params p frame, Some script)"
    using assms(12,16,17,19) su engine_script_plain [OF assms(18,4,15)] by (auto simp: selected_def call_params_def)
  obtain s1 where s1: "en_ctx s1 = Some (call_context (real_of ev M f) (Some p) (fixed_params p frame))" "en_rest s1 = en_rest s"
      "retrace_engine_wrapper ev name frame s = Some (clean_up (run_script ev ?fr script s1))"
    using dispatch_selected [OF assms(1-9), of frame] su assms(10,12) by (auto simp: sel)
  obtain rc t mem1 where out: "outcome senv P (pr_mem (en_rest s)) (call_seen p frame) = (rc, t, mem1)"
    by (cases "outcome senv P (pr_mem (en_rest s)) (call_seen p frame)")
  from run_sandboxed [OF s1(1), unfolded s1(2), OF assms(23-26,11,13,14,21,22,20) out, of ?fr] obtain fr' s' sets where
    r: "run_script ev ?fr script s1 = (fr', s')" "\<forall>b. \<not> sysv_runs fr' b" "en_ctx s' \<noteq> None" "sets_from hp sets"
      "if rc = 0
       then \<exists>v. sysv_returns fr' = Some v \<and>
         (v, en_rest s') = apply_fn (real_of ev M f) (map fp_val (tc_params t)) ((en_rest s)\<lparr>pr_mem := mem1, pr_sets := sets\<rparr>)
       else sysv_returns fr' = Some (tc_ret_val t) \<and> en_rest s' = (en_rest s)\<lparr>pr_sets := sets\<rparr>" by blast
  then show ?thesis using s1(3) outcome_refusal [OF out] unfolding out prod.case
    by (auto simp: clean_up_def retrace_thread_context_clear_def call_seen_def split: option.split)
qed

definition open_proto :: func_prototype where
  "open_proto = \<lparr>fpr_name = ''open'', fpr_params = [fp_meta (sz_param 0), fp_meta (num_param 0)], fpr_type_name = ''int'',
     fpr_fmt = FAT_NOVARARGS, fpr_fmt_param_idx = 0\<rparr>"

definition guarded_script :: json_object where
  "guarded_script = (''func_name'', JSONString ''open'') # [(''actions'', JSONArray [sandbox_entry deny_shadow, call_real_entry])]"

text \<open>A machine whose functions return 3 and count in the world how often they were called.\<close>

definition counting :: "nat proc machine_call" where
  "counting a args w = (3, w\<lparr>pr_world := pr_world w + 1\<rparr>)"

definition guarded_ops :: "(sysv_frame, nat proc) as_ops" where
  "guarded_ops = retrace_as_ops_default compat_flags no_types True parse_printf_format (\<lambda>_. []) counting"

definition guarded_env :: "cache_snap option \<Rightarrow> (sysv_frame, nat proc) engine_env" where
  "guarded_env g = \<lparr>ev_ops = guarded_ops, ev_members = \<lparr>rm_strcmp = 1, rm_free = 1, rm_malloc = 1\<rparr>, ev_get_real = (\<lambda>_. 4096),
     ev_funcs = replicate MAXCOUNT_FUNCS_HASH_ENTRIES [open_proto],
     ev_actions = replicate MAXCOUNT_ACTS_HASH_ENTRIES
       [\<lparr>act_name = ''sandbox'', act_action = on_context (sandbox_action plain_env)\<rparr>,
        \<lparr>act_name = ''call_real'', act_action = ia_call_real counting True guarded_ops\<rparr>],
     ev_conf = Some (conf_of [JSONObject guarded_script]), ev_snap = g,
     ev_dladdr = (\<lambda>_. None), ev_allowed = [], ev_excluded = [], ev_malloc_ok = True, ev_tss_ok = True, ev_tid = 0,
     ev_agent_kick = id\<rparr>"

definition guarded_process :: "cstr \<Rightarrow> (sysv_frame, nat proc) engine" where
  "guarded_process path = \<lparr>en_inited = True, en_cache = empty_real_cache, en_ctx = None,
     en_hash = empty_call_hash, en_callers = empty_cache, en_freed = [],
     en_rest = \<lparr>pr_mem = (\<lambda>_. path), pr_sets = no_sets, pr_world = 0, pr_freed = []\<rparr>\<rparr>"

lemma guarded_outcome:
  "outcome plain_env deny_shadow (\<lambda>_. path) (call_seen open_proto demo_frame) =
     (if path = ''/etc/shadow'' then (-1, refused (call_seen open_proto demo_frame), \<lambda>_. path)
      else (0, call_seen open_proto demo_frame, \<lambda>_. path))"
  by (simp add: outcome_def policy_eval deny_shadow_def call_seen_def fixed_params_def arg_regs_def demo_frame_def open_proto_def
      zero_param_def is_sep_def upt_rec)

lemma guarded_lookups:
  "retrace_func_get ''open'' (ev_funcs (guarded_env g)) = Some open_proto"
  "retrace_actions_get ''sandbox'' (ev_actions (guarded_env g)) = Some (on_context (sandbox_action plain_env))"
  "retrace_actions_get ''call_real'' (ev_actions (guarded_env g)) = Some (ia_call_real counting True (ev_ops (guarded_env g)))"
  using hash_string_less [of MAXCOUNT_FUNCS_HASH_ENTRIES "''open''"] hash_string_less [of MAXCOUNT_ACTS_HASH_ENTRIES "''sandbox''"]
    hash_string_less [of MAXCOUNT_ACTS_HASH_ENTRIES "''call_real''"]
  by (simp_all add: guarded_env_def open_proto_def retrace_func_get_def retrace_actions_get_def registry_get_def
      MAXCOUNT_FUNCS_HASH_ENTRIES_def MAXCOUNT_ACTS_HASH_ENTRIES_def)

lemma guarded_script_found:
  "plain_scripts [JSONObject guarded_script] ''open''"
  "first_script (named_or_any ''open'') [JSONObject guarded_script] = Some guarded_script"
  "json_object_get_array (Some guarded_script) ''actions'' = Some [sandbox_entry deny_shadow, call_real_entry]"
  by (simp_all add: plain_scripts_def named_or_any_def site_bound_def guarded_script_def resolve_eval)

lemma guarded_table: "table_ok (guarded_env g) Map.empty ''open'' empty_real_cache"
proof -
  have "keepable ''open''" by code_simp
  then show ?thesis using cache_holds_empty
    by (simp add: table_ok_def protos_hold_def empty_real_cache_def REAL_CACHE_SLOTS_def list_all_iff)
qed

theorem sandboxed_dispatch_witness:
  "\<exists>g. retrace_config_cache_build True True (Some (conf_of [JSONObject guarded_script])) None = Some (0, g) \<and>
    (\<exists>frame' s'. retrace_engine_wrapper (guarded_env g) ''open'' demo_frame (guarded_process ''/etc/shadow'') = Some (frame', s') \<and>
       sysv_returns frame' = Some (-1) \<and> pr_world (en_rest s') = 0) \<and>
    (\<exists>frame' s'. retrace_engine_wrapper (guarded_env g) ''open'' demo_frame (guarded_process ''/tmp/notes'') = Some (frame', s') \<and>
       sysv_returns frame' = Some 3 \<and> pr_world (en_rest s') = 1)"
proof -
  from config_cache_built [OF conf_of_scripts, where calloc_ok = True and buckets_ok = True and g = None and
      scripts = "[JSONObject guarded_script]"]
  obtain sn where g: "retrace_config_cache_build True True (Some (conf_of [JSONObject guarded_script])) None = Some (0, Some sn)" by auto
  let ?ev = "guarded_env (Some sn)"
  have policy: "has_policy deny_shadow" "as_described deny_shadow (call_seen open_proto demo_frame)"
    by (simp_all add: has_policy_def deny_shadow_def policy_eval call_seen_def open_proto_def)
  have ev: "ev_conf ?ev = Some (conf_of [JSONObject guarded_script])" "ev_snap ?ev = Some sn" "ev_dladdr ?ev = (\<lambda>_. None)"
    "ev_agent_kick ?ev = id" "ev_allowed ?ev = []" "ev_excluded ?ev = []" "ev_malloc_ok ?ev" "ev_tss_ok ?ev"
    "ev_ops ?ev = retrace_as_ops_default compat_flags no_types True parse_printf_format (\<lambda>_. []) counting"
    by (simp_all add: guarded_env_def guarded_ops_def)
  have st: "en_inited (guarded_process path)" "en_cache (guarded_process path) = empty_real_cache" "en_ctx (guarded_process path) = None"
    "en_callers (guarded_process path) = empty_cache" "pr_sets (en_rest (guarded_process path)) = no_sets"
    "pr_world (en_rest (guarded_process path)) = 0" "pr_mem (en_rest (guarded_process path)) = (\<lambda>_. path)" for path
    by (simp_all add: guarded_process_def)
  have real_ne: "real_of ?ev Map.empty ''open'' \<noteq> 0" by (simp add: real_of_def guarded_env_def retrace_real_impl_resolve_def)
  have strip: "strip_darwin_extsn ''open'' 64 = ''open''" by (simp add: strip_darwin_extsn_def DARWIN_EXTSN_def)
  have op: "fpr_fmt open_proto = FAT_NOVARARGS" "length (fpr_params open_proto) \<le> 6" "fpr_type_name open_proto = ''int''"
    by (simp_all add: open_proto_def)
  have run: "\<exists>frame' s'. retrace_engine_wrapper ?ev ''open'' demo_frame (guarded_process path) = Some (frame', s') \<and>
      sysv_returns frame' = Some (if path = ''/etc/shadow'' then -1 else 3) \<and>
      pr_world (en_rest s') = (if path = ''/etc/shadow'' then 0 else 1)" for path
    using sandboxed_dispatch [where ev = ?ev and s = "guarded_process path" and M = Map.empty and f = "''open''" and name = "''open''" and
        scripts = "[JSONObject guarded_script]" and script = guarded_script and P = deny_shadow and senv = plain_env and
        p = open_proto and frame = demo_frame and ?g0.0 = None and buckets_ok = True and hp = "\<lambda>_. [JSONString ''/etc/shadow'']" and
        apply_fn = counting, OF _ _ _ _ _ _ _ _ _ _ ev(9)]
      guarded_table guarded_lookups guarded_script_found guarded_outcome policy g ev st real_ne strip conf_of_scripts
      empty_cache_ok no_sets_from deny_shadow_at
    by (cases "path = ''/etc/shadow''") (auto simp: op counting_def split: prod.splits)
  show ?thesis using g run [of "''/etc/shadow''"] run [of "''/tmp/notes''"] by simp
qed

end
